(* ===== verification/Prelude.thy ===== *)
theory Prelude
  imports Main "HOL-Library.AList" "HOL-Library.Multiset"
begin

section \<open>Prelude: collections, Python lists and dictionaries\<close>

text \<open>
  What every component shares. A Python \<open>dict\<close> is an association list without repeated keys, in
  insertion order, updated with \<open>AList.update\<close> (which replaces in place or appends, as a
  \<open>dict\<close> does) and shortened with \<open>AList.delete\<close>. A database table is the list of its rows; an
  SQL statement is one of the operations of the last section, which return the row count as the
  driver does. Exceptions are the left side of a sum.
\<close>

named_theorems table_simps \<open>how SQL statements read and change the list of rows\<close>
named_theorems env_rules \<open>what a concurrent step of another request may change\<close>

type_synonym ('k, 'v) dict = "('k \<times> 'v) list"

subsection \<open>Exceptions\<close>

definition and_then :: "'e + 'a \<Rightarrow> ('a \<Rightarrow> 'e + 'b) \<Rightarrow> 'e + 'b" where
  \<comment> \<open>run the rest unless an exception was raised\<close>
  "and_then r f = (case r of Inl e \<Rightarrow> Inl e | Inr a \<Rightarrow> f a)"

definition raise_when :: "bool \<Rightarrow> 'e \<Rightarrow> 'e + unit" where
  "raise_when b e = (if b then Inl e else Inr ())"

definition map_error :: "('e \<Rightarrow> 'f) \<Rightarrow> 'e + 'a \<Rightarrow> 'f + 'a" where
  \<comment> \<open>\<open>except e: raise f(e)\<close>\<close>
  "map_error f r = (case r of Inl e \<Rightarrow> Inl (f e) | Inr a \<Rightarrow> Inr a)"

definition raise_error :: "'e option \<Rightarrow> 'e + unit" where
  "raise_error r = (case r of None \<Rightarrow> Inr () | Some e \<Rightarrow> Inl e)"

lemma and_then_simps [simp]: "and_then (Inl e) f = Inl e" "and_then (Inr a) f = f a"
  by (simp_all add: and_then_def)

lemma and_then_Inr: "and_then r f = Inr b \<longleftrightarrow> (\<exists>a. r = Inr a \<and> f a = Inr b)"
  by (cases r) simp_all

lemma and_then_Inl: "and_then r f = Inl e \<longleftrightarrow> r = Inl e \<or> (\<exists>a. r = Inr a \<and> f a = Inl e)"
  by (cases r) simp_all

lemma raise_when_Inr [simp]: "raise_when b e = Inr x \<longleftrightarrow> \<not> b" "raise_when b e = Inl f \<longleftrightarrow> b \<and> f = e"
  by (auto simp: raise_when_def)

lemma map_error_iff [simp]: "map_error f r = Inr a \<longleftrightarrow> r = Inr a" "map_error f r = Inl e' \<longleftrightarrow> (\<exists>e. r = Inl e \<and> e' = f e)"
  by (cases r; auto simp: map_error_def)+

lemma raise_error_iff [simp]: "raise_error r = Inr x \<longleftrightarrow> r = None" "raise_error r = Inl e \<longleftrightarrow> r = Some e"
  by (cases r; simp add: raise_error_def)+

fun traverse :: "('a \<Rightarrow> 'e + 'b) \<Rightarrow> 'a list \<Rightarrow> 'e + 'b list" where
  \<comment> \<open>\<open>[f(x) for x in xs]\<close>, stopping at the first exception\<close>
  "traverse f [] = Inr []"
| "traverse f (x # xs) = and_then (f x) (\<lambda>y. and_then (traverse f xs) (\<lambda>ys. Inr (y # ys)))"

lemma traverse_map: "traverse f (map g xs) = traverse (\<lambda>x. f (g x)) xs"
  by (induction xs) simp_all

lemma traverse_if:
  assumes "\<And>x. x \<in> set xs \<Longrightarrow> f x = (if p x then Inr (g x) else Inl e)"
  shows "traverse f xs = (if list_all p xs then Inr (map g xs) else Inl e)"
  using assms by (induction xs) auto

lemmas sum_step = and_then_Inr and_then_Inl

subsection \<open>Python slices and orderings\<close>

definition slice :: "nat \<Rightarrow> nat \<Rightarrow> 'a list \<Rightarrow> 'a list" where
  \<comment> \<open>\<open>xs[i:j]\<close>\<close>
  "slice i j xs = take (j - i) (drop i xs)"

definition last_n :: "nat \<Rightarrow> 'a list \<Rightarrow> 'a list" where
  \<comment> \<open>\<open>xs[-n:]\<close> for a positive \<open>n\<close>\<close>
  "last_n n xs = drop (length xs - n) xs"

lemma length_last_n [simp]: "length (last_n n xs) = min n (length xs)"
  by (simp add: last_n_def)

lemma set_last_n: "set (last_n n xs) \<subseteq> set xs"
  by (simp add: last_n_def set_drop_subset)

lemma last_n_short [simp]: "length xs \<le> n \<Longrightarrow> last_n n xs = xs"
  by (simp add: last_n_def)

lemma last_n_suffix: "\<exists>ys. xs = ys @ last_n n xs"
  unfolding last_n_def by (metis append_take_drop_id)

lemma sum_list_take_drop: "sum_list (take n xs) + sum_list (drop n xs) = (sum_list xs :: int)"
  by (metis append_take_drop_id sum_list_append)

lemma sum_list_sort_key: "sum_list (map f (sort_key k xs)) = (sum_list (map f xs) :: int)"
proof -
  have "mset (map f (sort_key k xs)) = mset (map f xs)" by simp
  then show ?thesis by (metis sum_mset_sum_list)
qed

subsection \<open>Rows of a table\<close>

definition delete_where :: "('r \<Rightarrow> bool) \<Rightarrow> 'r list \<Rightarrow> 'r list \<times> nat" where
  \<comment> \<open>\<open>DELETE ... WHERE p\<close>: the remaining rows and the row count\<close>
  "delete_where p rs = (filter (\<lambda>r. \<not> p r) rs, length (filter p rs))"

definition update_where :: "('r \<Rightarrow> bool) \<Rightarrow> ('r \<Rightarrow> 'r) \<Rightarrow> 'r list \<Rightarrow> 'r list \<times> nat" where
  \<comment> \<open>\<open>UPDATE ... SET f WHERE p\<close>: the rows and the row count\<close>
  "update_where p f rs = (map (\<lambda>r. if p r then f r else r) rs, length (filter p rs))"

lemma fst_delete_where [simp]: "fst (delete_where p rs) = filter (\<lambda>r. \<not> p r) rs"
  by (simp add: delete_where_def)

lemma fst_update_where [simp]: "fst (update_where p f rs) = map (\<lambda>r. if p r then f r else r) rs"
  by (simp add: update_where_def)

lemma snd_delete_where_0 [table_simps]: "snd (delete_where p rs) = 0 \<longleftrightarrow> (\<forall>r\<in>set rs. \<not> p r)"
  by (auto simp: delete_where_def filter_empty_conv)

lemma snd_update_where_0 [table_simps]: "snd (update_where p f rs) = 0 \<longleftrightarrow> (\<forall>r\<in>set rs. \<not> p r)"
  by (auto simp: update_where_def filter_empty_conv)

lemma find_Some_iff_in:
  "find p rs = Some r \<Longrightarrow> r \<in> set rs \<and> p r"
  by (auto simp: find_Some_iff)

lemma find_filter_other:
  "(\<And>r. r \<in> set rs \<Longrightarrow> p r \<Longrightarrow> q r) \<Longrightarrow> find p (filter q rs) = find p rs"
  by (induction rs) auto

lemma find_map_if:
  assumes "\<And>r. r \<in> set rs \<Longrightarrow> p (f r) = p r"
  shows "find p (map f rs) = map_option f (find p rs)"
  using assms by (induction rs) auto

lemma find_unique:
  assumes "distinct (map k rs)" and "r \<in> set rs"
  shows "find (\<lambda>x. k x = k r) rs = Some r"
  using assms by (induction rs) (auto simp: rev_image_eqI)

lemma find_append: "find p (xs @ ys) = (case find p xs of None \<Rightarrow> find p ys | Some x \<Rightarrow> Some x)"
  by (induction xs) auto

lemma distinct_map_filterI: "distinct (map k rs) \<Longrightarrow> distinct (map k (filter p rs))"
  by (induction rs) auto

lemma map_key_map_if:
  "(\<And>r. r \<in> set rs \<Longrightarrow> k (f r) = k r) \<Longrightarrow> map k (map f rs) = map k rs"
  by simp

end
