(* ===== verification/Pytext.thy ===== *)
theory Pytext
  imports Prelude
begin

section \<open>Python strings\<close>

text \<open>
  A Python \<open>str\<close> is a \<open>string\<close>: the list of its characters, so \<open>length\<close> counts characters as
  \<open>len\<close> does. A \<open>char\<close> is a code point below 256, and on those the methods below are Python's own
  (\<open>lower\<close>, \<open>isspace\<close>, \<open>isdigit\<close> and \<open>int\<close> include the Latin-1 letters, the no-break space and
  the superscript digits). Functions of the Unicode database with results outside that range (NFKC,
  \<open>casefold\<close>) are parameters where a component uses them.
\<close>

subsection \<open>Characters\<close>

definition code :: "char \<Rightarrow> nat" where
  "code c = of_char c"

definition py_lower_char :: "char \<Rightarrow> char" where
  "py_lower_char c =
     (let n = code c
      in if 65 \<le> n \<and> n \<le> 90 \<or> 192 \<le> n \<and> n \<le> 222 \<and> n \<noteq> 215 then char_of (n + 32) else c)"

definition py_isspace_char :: "char \<Rightarrow> bool" where
  "py_isspace_char c =
     (let n = code c in 9 \<le> n \<and> n \<le> 13 \<or> 28 \<le> n \<and> n \<le> 32 \<or> n = 133 \<or> n = 160)"

definition is_decimal_char :: "char \<Rightarrow> bool" where
  \<comment> \<open>what \<open>int()\<close> accepts as a digit\<close>
  "is_decimal_char c = (let n = code c in 48 \<le> n \<and> n \<le> 57)"

definition py_isdigit_char :: "char \<Rightarrow> bool" where
  \<comment> \<open>\<open>str.isdigit\<close>: also the superscripts two, three and one, which \<open>int()\<close> refuses\<close>
  "py_isdigit_char c = (let n = code c in 48 \<le> n \<and> n \<le> 57 \<or> n = 178 \<or> n = 179 \<or> n = 185)"

definition is_control_char :: "char \<Rightarrow> bool" where
  \<comment> \<open>\<open>ord(c) < 0x20 or ord(c) == 0x7F\<close>\<close>
  "is_control_char c = (let n = code c in n < 32 \<or> n = 127)"

subsection \<open>Methods of \<open>str\<close>\<close>

definition py_lower :: "string \<Rightarrow> string" where
  "py_lower s = map py_lower_char s"

definition lstrip_by :: "(char \<Rightarrow> bool) \<Rightarrow> string \<Rightarrow> string" where
  "lstrip_by p s = dropWhile p s"

definition rstrip_by :: "(char \<Rightarrow> bool) \<Rightarrow> string \<Rightarrow> string" where
  "rstrip_by p s = rev (dropWhile p (rev s))"

definition py_strip :: "string \<Rightarrow> string" where
  "py_strip s = rstrip_by py_isspace_char (lstrip_by py_isspace_char s)"

definition py_isdigit :: "string \<Rightarrow> bool" where
  "py_isdigit s = (s \<noteq> [] \<and> (\<forall>c\<in>set s. py_isdigit_char c))"

definition startswith :: "string \<Rightarrow> string \<Rightarrow> bool" where
  "startswith s p = (take (length p) s = p)"

definition endswith :: "string \<Rightarrow> string \<Rightarrow> bool" where
  "endswith s p = (length p \<le> length s \<and> drop (length s - length p) s = p)"

definition removeprefix :: "string \<Rightarrow> string \<Rightarrow> string" where
  "removeprefix s p = (if startswith s p then drop (length p) s else s)"

fun contains :: "string \<Rightarrow> string \<Rightarrow> bool" where
  \<comment> \<open>\<open>p in s\<close>\<close>
  "contains s p = (startswith s p \<or> (case s of [] \<Rightarrow> False | _ # s' \<Rightarrow> contains s' p))"

declare contains.simps [simp del]

fun py_replace :: "string \<Rightarrow> string \<Rightarrow> string \<Rightarrow> string" where
  \<comment> \<open>\<open>s.replace(p, r)\<close> for a pattern that is not empty\<close>
  "py_replace p r [] = []"
| "py_replace p r (c # s) =
     (if p \<noteq> [] \<and> startswith (c # s) p then r @ py_replace p r (drop (length p - 1) s)
      else c # py_replace p r s)"

definition strip_chars :: "string \<Rightarrow> string \<Rightarrow> string" where
  \<comment> \<open>\<open>s.strip(cs)\<close>\<close>
  "strip_chars cs s = rstrip_by (\<lambda>c. c \<in> set cs) (lstrip_by (\<lambda>c. c \<in> set cs) s)"

definition decimal_value :: "string \<Rightarrow> int" where
  "decimal_value s = foldl (\<lambda>n c. 10 * n + (int (code c) - 48)) 0 s"

definition py_int_of_digits :: "string \<Rightarrow> int option" where
  \<comment> \<open>\<open>int(s)\<close> on a string without sign, space or underscore; \<open>None\<close> is \<open>ValueError\<close>\<close>
  "py_int_of_digits s =
     (if s \<noteq> [] \<and> (\<forall>c\<in>set s. is_decimal_char c) then Some (decimal_value s) else None)"

fun digit_groups :: "string \<Rightarrow> bool \<Rightarrow> int \<Rightarrow> int option" where
  \<comment> \<open>decimal digits with single underscores between them\<close>
  "digit_groups [] after_digit acc = (if after_digit then Some acc else None)"
| "digit_groups (c # s) after_digit acc =
     (if c = CHR ''_'' then (if after_digit then digit_groups s False acc else None)
      else if is_decimal_char c then digit_groups s True (10 * acc + (int (code c) - 48)) else None)"

definition py_int :: "string \<Rightarrow> int option" where
  \<comment> \<open>\<open>int(s)\<close>; \<open>None\<close> is \<open>ValueError\<close>\<close>
  "py_int s =
     (let s = py_strip s; neg = startswith s ''-'';
          s = (if neg \<or> startswith s ''+'' then tl s else s)
      in map_option (\<lambda>n. if neg then - n else n) (digit_groups s False 0))"

fun join :: "string \<Rightarrow> string list \<Rightarrow> string" where
  \<comment> \<open>\<open>sep.join(parts)\<close>\<close>
  "join sep [] = []" | "join sep [p] = p" | "join sep (p # ps) = p @ sep @ join sep ps"

fun drop_words :: "string \<Rightarrow> string \<Rightarrow> string list" where
  \<comment> \<open>the words of \<open>s\<close>, the characters of the current one before it\<close>
  "drop_words cur [] = (if cur = [] then [] else [cur])"
| "drop_words cur (c # s) =
     (if py_isspace_char c then (if cur = [] then drop_words [] s else cur # drop_words [] s)
      else drop_words (cur @ [c]) s)"

definition py_split :: "string \<Rightarrow> string list" where
  \<comment> \<open>\<open>s.split()\<close>\<close>
  "py_split s = drop_words [] s"

subsection \<open>Formatting numbers\<close>

definition digit_char :: "nat \<Rightarrow> char" where
  "digit_char n = char_of (48 + n)"

fun nat_str :: "nat \<Rightarrow> string" where
  "nat_str n = (if n < 10 then [digit_char n] else nat_str (n div 10) @ [digit_char (n mod 10)])"

declare nat_str.simps [simp del]

definition int_str :: "int \<Rightarrow> string" where
  "int_str i = (if i < 0 then ''-'' @ nat_str (nat (- i)) else nat_str (nat i))"

definition zero_pad :: "nat \<Rightarrow> string \<Rightarrow> string" where
  \<comment> \<open>\<open>f"{n:0wd}"\<close> for a number that is not negative\<close>
  "zero_pad w s = replicate (w - length s) (CHR ''0'') @ s"

subsection \<open>Facts\<close>

lemma length_py_lower [simp]: "length (py_lower s) = length s"
  by (simp add: py_lower_def)

lemma py_strip_length: "length (py_strip s) \<le> length s"
proof -
  have "length (rstrip_by p t) \<le> length t" for p t
    unfolding rstrip_by_def using length_dropWhile_le [of p "rev t"] by simp
  moreover have "length (lstrip_by p t) \<le> length t" for p t
    unfolding lstrip_by_def by (rule length_dropWhile_le)
  ultimately show ?thesis unfolding py_strip_def by (meson order_trans)
qed

lemma set_py_strip: "set (py_strip s) \<subseteq> set s"
  unfolding py_strip_def rstrip_by_def lstrip_by_def
  by (auto dest!: set_dropWhileD)

lemma startswith_append [simp]: "startswith (p @ s) p"
  by (simp add: startswith_def)

lemma startswith_iff: "startswith s p \<longleftrightarrow> (\<exists>t. s = p @ t)"
  unfolding startswith_def by (metis append_eq_conv_conj)

lemma removeprefix_append [simp]: "removeprefix (p @ s) p = s"
  by (simp add: removeprefix_def)

lemma contains_iff: "contains s p \<longleftrightarrow> (\<exists>a b. s = a @ p @ b)"
proof (induction s)
  case Nil
  show ?case by (subst contains.simps) (auto simp: startswith_def)
next
  case (Cons c s)
  have "contains (c # s) p \<longleftrightarrow> startswith (c # s) p \<or> contains s p"
    by (subst contains.simps) simp
  also have "\<dots> \<longleftrightarrow> (\<exists>b. c # s = p @ b) \<or> (\<exists>a b. s = a @ p @ b)"
    by (simp add: Cons.IH startswith_iff)
  also have "\<dots> \<longleftrightarrow> (\<exists>a b. c # s = a @ p @ b)"
    by (metis append_Cons append_Nil list.inject list.exhaust)
  finally show ?case .
qed

lemma contains_self [simp]: "contains s s"
  unfolding contains_iff by (metis append_Nil append_Nil2)

lemma code_digit_char [simp]: "n < 10 \<Longrightarrow> code (digit_char n) = 48 + n"
  by (simp add: code_def digit_char_def)

lemma is_decimal_digit_char [simp]: "n < 10 \<Longrightarrow> is_decimal_char (digit_char n)"
  by (simp add: is_decimal_char_def Let_def)

lemma nat_str_decimal: "\<forall>c\<in>set (nat_str n). is_decimal_char c"
proof (induction n rule: nat_str.induct)
  case (1 n)
  then show ?case by (subst nat_str.simps) auto
qed

lemma nat_str_ne [simp]: "nat_str n \<noteq> []"
  by (subst nat_str.simps) simp

lemma decimal_value_snoc: "decimal_value (s @ [c]) = 10 * decimal_value s + (int (code c) - 48)"
  by (simp add: decimal_value_def)

lemma decimal_value_nat_str [simp]: "decimal_value (nat_str n) = int n"
proof (induction n rule: nat_str.induct)
  case (1 n)
  show ?case
  proof (cases "n < 10")
    case True
    then show ?thesis by (subst nat_str.simps) (simp add: decimal_value_def)
  next
    case False
    then have "decimal_value (nat_str n) = 10 * int (n div 10) + int (n mod 10)"
      using "1.IH" by (subst nat_str.simps) (simp add: decimal_value_snoc)
    also have "\<dots> = int n" by (simp add: zdiv_int zmod_int)
    finally show ?thesis .
  qed
qed

lemma nat_str_inject [simp]: "nat_str m = nat_str n \<longleftrightarrow> m = n"
  by (metis decimal_value_nat_str of_nat_eq_iff)

lemma py_int_nat_str [simp]: "py_int_of_digits (nat_str n) = Some (int n)"
  by (simp add: py_int_of_digits_def nat_str_decimal)

lemma decimal_value_zeros [simp]: "decimal_value (replicate k (CHR ''0'') @ s) = decimal_value s"
proof (induction k)
  case (Suc k)
  have "decimal_value (CHR ''0'' # t) = decimal_value t" for t
    by (simp add: decimal_value_def code_def)
  with Suc show ?case by simp
qed simp

lemma decimal_value_zero_pad [simp]: "decimal_value (zero_pad w (nat_str n)) = int n"
  by (simp add: zero_pad_def)

lemma zero_pad_decimal: "\<forall>c\<in>set (zero_pad w (nat_str n)). is_decimal_char c"
  using nat_str_decimal [of n] by (auto simp: zero_pad_def is_decimal_char_def code_def)

lemma zero_pad_inject [simp]: "zero_pad w (nat_str m) = zero_pad w (nat_str n) \<longleftrightarrow> m = n"
  by (metis decimal_value_zero_pad of_nat_eq_iff)

lemma length_nat_str_le: "n < 10 ^ w \<Longrightarrow> 0 < w \<Longrightarrow> length (nat_str n) \<le> w"
proof (induction n arbitrary: w rule: nat_str.induct)
  case (1 n w)
  show ?case
  proof (cases "n < 10")
    case True
    with "1.prems" show ?thesis by (subst nat_str.simps) simp
  next
    case False
    with "1.prems" have "w \<noteq> 1" by auto
    with "1.prems" obtain v where v: "w = Suc v" "0 < v"
      by (cases w) auto
    with "1.prems" have "n div 10 < 10 ^ v" by auto
    with "1.IH" False v have "length (nat_str (n div 10)) \<le> v" by blast
    with False v show ?thesis by (subst nat_str.simps) simp
  qed
qed

lemma length_zero_pad: "n < 10 ^ w \<Longrightarrow> 0 < w \<Longrightarrow> length (zero_pad w (nat_str n)) = w"
  using length_nat_str_le [of n w] by (simp add: zero_pad_def)

end
