(* ===== verification/Roles.thy ===== *)
theory Roles
  imports Pytext
begin

section \<open>Roles (auth/roles.py, auth/directory/role_mapping.py)\<close>

text \<open>
  The fixed roles and their order, the strongest of several roles, and the role that the group
  mapping table gives a directory user. The order of the roles is the library's \<open>linorder\<close>.
\<close>

datatype role = VIEWER | OPERATOR | ADMIN

fun role_rank :: "role \<Rightarrow> nat" where
  "role_rank VIEWER = 0"
| "role_rank OPERATOR = 1"
| "role_rank ADMIN = 2"

definition role_value :: "role \<Rightarrow> string" where
  "role_value r = (case r of VIEWER \<Rightarrow> ''viewer'' | OPERATOR \<Rightarrow> ''operator'' | ADMIN \<Rightarrow> ''admin'')"

definition role_of_value :: "string \<Rightarrow> role option" where
  \<comment> \<open>\<open>Role(value)\<close>; \<open>None\<close> is \<open>ValueError\<close>\<close>
  "role_of_value s = (if s = ''viewer'' then Some VIEWER else if s = ''operator'' then Some OPERATOR
     else if s = ''admin'' then Some ADMIN else None)"

lemma role_of_value_value [simp]: "role_of_value (role_value r) = Some r"
  by (cases r) (simp_all add: role_of_value_def role_value_def)

lemma role_rank_inject [simp]: "role_rank r = role_rank s \<longleftrightarrow> r = s"
  by (cases r; cases s) auto

instantiation role :: linorder
begin

definition less_eq_role :: "role \<Rightarrow> role \<Rightarrow> bool" where
  "less_eq_role r s = (role_rank r \<le> role_rank s)"

definition less_role :: "role \<Rightarrow> role \<Rightarrow> bool" where
  "less_role r s = (role_rank r < role_rank s)"

instance
  by standard (auto simp: less_eq_role_def less_role_def)

end

lemma role_le_admin [simp]: "r \<le> ADMIN"
  by (cases r) (simp_all add: less_eq_role_def)

lemma admin_le [simp]: "ADMIN \<le> r \<longleftrightarrow> r = ADMIN"
  by (cases r) (simp_all add: less_eq_role_def)

lemma viewer_le [simp]: "VIEWER \<le> r"
  by (simp add: less_eq_role_def)

definition role_at_least :: "role \<Rightarrow> role \<Rightarrow> bool" where
  "role_at_least actual required = (role_rank required \<le> role_rank actual)"

lemma role_at_least_le: "role_at_least a r \<longleftrightarrow> r \<le> a"
  by (simp add: role_at_least_def less_eq_role_def)

fun max_by_rank :: "role \<Rightarrow> role list \<Rightarrow> role" where
  \<comment> \<open>\<open>max(found, key=rank)\<close> keeps the first of equal elements\<close>
  "max_by_rank best [] = best"
| "max_by_rank best (r # rs) =
     max_by_rank (if role_rank best < role_rank r then r else best) rs"

fun roles_of_values :: "string list \<Rightarrow> role list option" where
  "roles_of_values [] = Some []"
| "roles_of_values (s # ss) = (case role_of_value s of None \<Rightarrow> None
     | Some r \<Rightarrow> (case roles_of_values ss of None \<Rightarrow> None | Some rs \<Rightarrow> Some (r # rs)))"

definition highest_role :: "string list \<Rightarrow> string + role option" where
  "highest_role roles = (case roles_of_values roles of None \<Rightarrow> Inl ''ValueError''
     | Some [] \<Rightarrow> Inr None
     | Some (r # rs) \<Rightarrow> Inr (Some (max_by_rank r rs)))"

fun resolve_role_from :: "role option \<Rightarrow> string list \<Rightarrow> (string \<times> role) list \<Rightarrow> role option" where
  "resolve_role_from best groups [] = best"
| "resolve_role_from best groups ((normalized, role) # ms) =
     (if normalized \<in> set groups \<and>
         (case best of None \<Rightarrow> True | Some b \<Rightarrow> role_rank b < role_rank role)
      then resolve_role_from (Some role) groups ms
      else resolve_role_from best groups ms)"

definition resolve_role :: "string list \<Rightarrow> (string \<times> role) list \<Rightarrow> role option" where
  "resolve_role group_dns mappings = resolve_role_from None group_dns mappings"

subsection \<open>The strongest role\<close>

lemma max_by_rank_eq: "max_by_rank b rs = Max (insert b (set rs))"
proof (induction rs arbitrary: b)
  case (Cons r rs)
  have "(if role_rank b < role_rank r then r else b) = max b r"
    by (auto simp: max_def less_eq_role_def)
  then have "max_by_rank b (r # rs) = Max (insert (max b r) (set rs))"
    using Cons.IH by simp
  also have "\<dots> = Max (insert b (insert r (set rs)))"
    by (cases "rs = []") (auto simp: max.assoc insert_commute)
  finally show ?case by simp
qed simp

lemma roles_of_values_values [simp]: "roles_of_values (map role_value rs) = Some rs"
  by (induction rs) auto

lemma highest_role_Max:
  "rs \<noteq> [] \<Longrightarrow> highest_role (map role_value rs) = Inr (Some (Max (set rs)))"
  by (cases rs) (auto simp: highest_role_def max_by_rank_eq)

definition granted :: "string list \<Rightarrow> (string \<times> role) list \<Rightarrow> role set" where
  \<comment> \<open>every role some mapped group of the user grants\<close>
  "granted groups ms = {r. \<exists>g. g \<in> set groups \<and> (g, r) \<in> set ms}"

lemma granted_Cons:
  "granted groups ((g, r) # ms) = (if g \<in> set groups then insert r (granted groups ms) else granted groups ms)"
  by (auto simp: granted_def)

lemma finite_granted [simp]: "finite (granted groups ms)"
proof (induction ms)
  case Nil
  show ?case by (simp add: granted_def)
next
  case (Cons m ms)
  then show ?case by (cases m) (simp add: granted_Cons)
qed

lemma Max_insert_smaller:
  fixes X :: "role set"
  assumes "finite X" "r \<in> X" "b \<le> r"
  shows "Max (insert b X) = Max X"
proof -
  have "b \<le> Max X" using assms by (meson Max_ge order_trans)
  moreover have "X \<noteq> {}" using assms by blast
  ultimately show ?thesis using assms by (simp add: max_def)
qed

lemma resolve_role_from_Max:
  "resolve_role_from best groups ms =
     (if granted groups ms \<union> set_option best = {} then None
      else Some (Max (granted groups ms \<union> set_option best)))"
proof (induction ms arbitrary: best)
  case Nil
  show ?case by (cases best) (simp_all add: granted_def)
next
  case (Cons m ms)
  obtain g r where m: "m = (g, r)" by (cases m)
  let ?G = "granted groups ms"
  show ?case
  proof (cases "g \<in> set groups")
    case False
    then show ?thesis using Cons.IH [of best] by (simp add: m granted_Cons)
  next
    case g: True
    show ?thesis
    proof (cases best)
      case None
      then show ?thesis using g Cons.IH [of "Some r"] by (simp add: m granted_Cons)
    next
      case (Some b)
      have "Max (insert b (insert r ?G)) = Max (insert r ?G)" if "role_rank b < role_rank r"
        by (rule Max_insert_smaller [where r = r]) (use that in \<open>auto simp: less_eq_role_def\<close>)
      moreover have "Max (insert r (insert b ?G)) = Max (insert b ?G)" if "\<not> role_rank b < role_rank r"
        by (rule Max_insert_smaller [where r = b]) (use that in \<open>auto simp: less_eq_role_def\<close>)
      ultimately show ?thesis
        using g Some Cons.IH [of "Some r"] Cons.IH [of "Some b"]
        by (simp add: m granted_Cons insert_commute [of r b])
    qed
  qed
qed

lemma resolve_role_eq:
  "resolve_role groups ms = (if granted groups ms = {} then None else Some (Max (granted groups ms)))"
  by (simp add: resolve_role_def resolve_role_from_Max)

end
