(* ===== verification/Pytime.thy ===== *)
theory Pytime
  imports Pytext "HOL-Library.Monad_Syntax"
begin

section \<open>Python datetimes\<close>

text \<open>
  A \<open>datetime\<close> is its wall clock, in microseconds since 0001-01-01 00:00, and its UTC offset in
  minutes (\<open>None\<close> for a naive one; zones whose offset has seconds are left out). An aware
  \<open>datetime\<close> denotes an \<open>instant\<close>, the UTC wall clock. Most components compare and store instants
  only; they use the type \<open>instant\<close>, and \<open>timedelta\<close> for differences. The dates range over the
  years 1 to 9999, as in Python (\<open>valid_pydt\<close>); the overflow at the ends of that range is not
  modelled elsewhere. \<open>isoformat\<close> is the text form the code stores, and \<open>fromisoformat\<close> reads the
  extended formats that \<open>isoformat\<close> writes.
\<close>

type_synonym instant = int
type_synonym timedelta = int

abbreviation (input) us_per_second :: int where "us_per_second \<equiv> 1000000"
abbreviation (input) us_per_day :: int where "us_per_day \<equiv> 86400000000"

definition seconds :: "int \<Rightarrow> timedelta" where "seconds n = n * 1000000"
definition minutes :: "int \<Rightarrow> timedelta" where "minutes n = n * 60000000"
definition hours :: "int \<Rightarrow> timedelta" where "hours n = n * 3600000000"
definition days :: "int \<Rightarrow> timedelta" where "days n = n * 86400000000"

lemmas timedelta_defs = seconds_def minutes_def hours_def days_def

definition half :: "timedelta \<Rightarrow> timedelta" where
  \<comment> \<open>\<open>delta / 2\<close> rounds half to even\<close>
  "half d = (let q = d div 2 in if even d \<or> even q then q else q + 1)"

lemma half_bounds: "2 * half d \<le> d + 1" "d - 1 \<le> 2 * half d"
  unfolding half_def Let_def by (auto split: if_splits) presburger+

lemma half_even [simp]: "2 * half (2 * d) = 2 * d"
  by (simp add: half_def)

subsection \<open>The proleptic Gregorian calendar\<close>

definition is_leap :: "int \<Rightarrow> bool" where
  "is_leap y = (y mod 4 = 0 \<and> (y mod 100 \<noteq> 0 \<or> y mod 400 = 0))"

definition days_before_year :: "int \<Rightarrow> int" where
  "days_before_year y = (y - 1) * 365 + (y - 1) div 4 - (y - 1) div 100 + (y - 1) div 400"

definition month_lengths :: "int \<Rightarrow> int list" where
  "month_lengths y = [31, if is_leap y then 29 else 28, 31, 30, 31, 30, 31, 31, 30, 31, 30, 31]"

definition days_before_month :: "int \<Rightarrow> int \<Rightarrow> int" where
  "days_before_month y m = sum_list (take (nat (m - 1)) (month_lengths y))"

definition day_number :: "int \<Rightarrow> int \<Rightarrow> int \<Rightarrow> int" where
  \<comment> \<open>\<open>date(y, m, d).toordinal() - 1\<close>\<close>
  "day_number y m d = days_before_year y + days_before_month y m + (d - 1)"

definition year_of_day :: "int \<Rightarrow> int" where
  "year_of_day n =
     (let n400 = n div 146097; r400 = n mod 146097;
          n100 = min 3 (r400 div 36524); r100 = r400 - 36524 * n100;
          n4 = r100 div 1461; r4 = r100 mod 1461;
          n1 = min 3 (r4 div 365)
      in 400 * n400 + 100 * n100 + 4 * n4 + n1 + 1)"

fun split_month :: "int list \<Rightarrow> int \<Rightarrow> int \<Rightarrow> int \<times> int" where
  "split_month [] m d = (m, d)"
| "split_month (l # ls) m d = (if d < l then (m, d) else split_month ls (m + 1) (d - l))"

definition civil_of_day :: "int \<Rightarrow> int \<times> int \<times> int" where
  "civil_of_day n =
     (let y = year_of_day n; (m, d) = split_month (month_lengths y) 1 (n - days_before_year y)
      in (y, m, d + 1))"

lemma days_before_year_digits:
  assumes "0 \<le> b" "b \<le> 3" "0 \<le> c" "c \<le> 24" "0 \<le> d" "d \<le> 3"
  shows "days_before_year (400 * a + 100 * b + 4 * c + d + 1)
           = 146097 * a + 36524 * b + 1461 * c + 365 * d"
proof -
  let ?y = "400 * a + 100 * b + 4 * c + d"
  have "?y div 4 = 100 * a + 25 * b + c" using assms by linarith
  moreover have "?y div 100 = 4 * a + b" using assms by linarith
  moreover have "?y div 400 = a" using assms by linarith
  ultimately show ?thesis by (simp add: days_before_year_def)
qed

lemma year_length: "days_before_year (y + 1) - days_before_year y = (if is_leap y then 366 else 365)"
proof -
  have div_step: "y div k = (y - 1) div k + (if y mod k = 0 then 1 else 0)" if "0 < k" for k :: int
  proof -
    have "(y - 1) div k = (if y mod k = 0 then y div k - 1 else y div k)"
    proof (cases "y mod k = 0")
      case True
      then have "y - 1 = k * (y div k - 1) + (k - 1)"
        using mult_div_mod_eq [of k y] by (simp add: algebra_simps)
      then have "(y - 1) div k = y div k - 1" by (rule int_div_pos_eq) (use that in auto)
      with True show ?thesis by simp
    next
      case False
      have "y - 1 = k * (y div k) + (y mod k - 1)" by simp
      moreover have "0 \<le> y mod k - 1" using False that pos_mod_sign [of k y] by linarith
      moreover have "y mod k - 1 < k" using that pos_mod_bound [of k y] by linarith
      ultimately have "(y - 1) div k = y div k" using int_div_pos_eq by blast
      with False show ?thesis by simp
    qed
    then show ?thesis by simp
  qed
  have diff: "days_before_year (y + 1) - days_before_year y
      = 365 + (if y mod 4 = 0 then 1 else 0) - (if y mod 100 = 0 then 1 else 0)
            + (if y mod 400 = 0 then 1 else 0)"
  proof -
    have e: "y div 4 = (y - 1) div 4 + (if y mod 4 = 0 then 1 else 0)"
      "y div 100 = (y - 1) div 100 + (if y mod 100 = 0 then 1 else 0)"
      "y div 400 = (y - 1) div 400 + (if y mod 400 = 0 then 1 else 0)"
      by (rule div_step, rule zero_less_numeral)+
    have cancel: "y * 365 + (A + a) - (B + b) + (C + c) - ((y - 1) * 365 + A - B + C)
        = 365 + a - b + c" for A B C a b c :: int
      by simp
    show ?thesis
      by (simp only: days_before_year_def add_diff_cancel_right' e cancel)
  qed
  have count: "365 + (if p then 1 else 0) - (if q then 1 else 0) + (if r then 1 else 0)
      = (if p \<and> (\<not> q \<or> r) then 366 else (365 :: int))" if "r \<Longrightarrow> q" "q \<Longrightarrow> p" for p q r
    using that by (cases p; cases q; cases r) simp_all
  have trans: "y mod k = 0 \<Longrightarrow> j dvd k \<Longrightarrow> y mod j = 0" for j k :: int
    by (meson dvd_imp_mod_0 dvd_trans mod_0_imp_dvd)
  have "y mod 400 = 0 \<Longrightarrow> y mod 100 = 0" "y mod 100 = 0 \<Longrightarrow> y mod 4 = 0"
    by (erule trans, simp)+
  from count [OF this] show ?thesis unfolding diff is_leap_def .
qed

lemma leap_of_digits:
  assumes "0 \<le> c" "c \<le> 24" "c < 24 \<or> b = 3"
  shows "is_leap (400 * a + 100 * b + 4 * c + 4)"
proof (cases "c < 24")
  case True
  have "(400 * a + 100 * b + 4 * c + 4) mod 100 = 4 * c + 4"
    by (rule int_mod_pos_eq [where q = "4 * a + b"]) (use True assms in auto)
  moreover have "(400 * a + 100 * b + 4 * c + 4) mod 4 = 0"
    by (rule int_mod_pos_eq [where q = "100 * a + 25 * b + c + 1"]) auto
  ultimately show ?thesis using assms(1) by (simp only: is_leap_def) simp
next
  case False
  with assms have "c = 24" "b = 3" by auto
  moreover have "(400 * a + 400) mod k = 0" if "k \<in> {4, 100, 400}" for k
    using that by (auto simp: algebra_simps)
  ultimately show ?thesis by (simp add: is_leap_def)
qed

lemma sum_month_lengths: "sum_list (month_lengths y) = (if is_leap y then 366 else 365)"
  by (simp add: month_lengths_def)

lemma year_of_day_bounds:
  "days_before_year (year_of_day n) \<le> n \<and> n < days_before_year (year_of_day n + 1)"
proof -
  define a where "a = n div 146097"
  define r4 where "r4 = n mod 146097"
  define b where "b = min 3 (r4 div 36524)"
  define r1 where "r1 = r4 - 36524 * b"
  define c where "c = r1 div 1461"
  define r where "r = r1 mod 1461"
  define d where "d = min 3 (r div 365)"
  have n: "n = 146097 * a + r4" "0 \<le> r4" "r4 < 146097"
    by (simp_all add: a_def r4_def)
  have b: "0 \<le> b" "b \<le> 3" and r1: "0 \<le> r1" "r1 \<le> 36524" "b < 3 \<Longrightarrow> r1 < 36524"
    using n(2,3) unfolding r1_def b_def by (auto simp: min_def) 
  have c: "0 \<le> c" "c \<le> 24" and r: "r1 = 1461 * c + r" "0 \<le> r" "r < 1461" 
    using r1 unfolding c_def r_def by auto
  have d: "0 \<le> d" "d \<le> 3" "365 * d \<le> r" "d < 3 \<Longrightarrow> r < 365 * d + 365"
    using r unfolding d_def by (auto simp: min_def)
  have y: "year_of_day n = 400 * a + 100 * b + 4 * c + d + 1"
    by (simp add: year_of_day_def Let_def a_def b_def c_def d_def r_def r1_def r4_def)
  have before: "days_before_year (year_of_day n) = 146097 * a + 36524 * b + 1461 * c + 365 * d"
    unfolding y by (rule days_before_year_digits) (use b c d in auto)
  have split: "n = 146097 * a + 36524 * b + 1461 * c + r" using n r r1_def by linarith
  have len: "r - 365 * d < (if is_leap (year_of_day n) then 366 else 365)"
  proof (cases "d < 3")
    case True
    then show ?thesis using d by auto
  next
    case False
    then have d3: "d = 3" using d by simp
    show ?thesis
    proof (cases "r < 1460")
      case True
      then show ?thesis using d3 by auto
    next
      case False
      then have r: "r = 1460" using r by simp
      have "c < 24 \<or> b = 3" using r r1 \<open>r1 = 1461 * c + r\<close> b c by (cases "b = 3") auto
      have year: "year_of_day n = 400 * a + 100 * b + 4 * c + 4" using y d3 by simp
      have "is_leap (year_of_day n)"
        unfolding year by (rule leap_of_digits) (use c \<open>c < 24 \<or> b = 3\<close> in auto)
      then show ?thesis using r d3 by simp
    qed
  qed
  show ?thesis
    using before split d(3) len year_length [of "year_of_day n"] by (auto split: if_splits)
qed

lemma split_month_correct:
  assumes "0 \<le> d" "d < sum_list ls" "split_month ls m d = (m', d')"
  shows "m \<le> m' \<and> m' < m + int (length ls) \<and> 0 \<le> d' \<and> d' < ls ! nat (m' - m) \<and>
         sum_list (take (nat (m' - m)) ls) + d' = d"
  using assms
proof (induction ls m d rule: split_month.induct)
  case (2 l ls m d)
  show ?case
  proof (cases "d < l")
    case True
    with "2.prems" show ?thesis by auto
  next
    case False
    with "2.prems" "2.IH" have IH:
      "m + 1 \<le> m'" "m' < m + 1 + int (length ls)" "0 \<le> d'" "d' < ls ! nat (m' - (m + 1))"
      "sum_list (take (nat (m' - (m + 1))) ls) + d' = d - l"
      by auto
    moreover have "nat (m' - m) = Suc (nat (m' - (m + 1)))" using IH(1) by simp
    ultimately show ?thesis by auto
  qed
qed simp

lemma day_number_civil:
  assumes "civil_of_day n = (y, m, d)"
  shows "day_number y m d = n \<and> y = year_of_day n \<and> 1 \<le> m \<and> m \<le> 12 \<and>
         1 \<le> d \<and> d \<le> month_lengths y ! nat (m - 1)"
proof -
  let ?y = "year_of_day n"
  obtain d' where s: "split_month (month_lengths ?y) 1 (n - days_before_year ?y) = (m, d')"
    and eq: "y = ?y" "d = d' + 1"
    using assms by (auto simp: civil_of_day_def Let_def split: prod.splits)
  have "0 \<le> n - days_before_year ?y" "n - days_before_year ?y < sum_list (month_lengths ?y)"
    using year_of_day_bounds [of n] year_length [of ?y] by (auto simp: sum_month_lengths)
  from split_month_correct [OF this s] show ?thesis
    unfolding eq day_number_def days_before_month_def by (auto simp: month_lengths_def)
qed

subsection \<open>Datetimes\<close>

record pydt =
  wall :: int
  utcoff :: "int option"

definition valid_pydt :: "pydt \<Rightarrow> bool" where
  "valid_pydt t = (0 \<le> wall t \<and> wall t < 3652059 * us_per_day \<and>
     (case utcoff t of None \<Rightarrow> True | Some z \<Rightarrow> \<bar>z\<bar> < 1440))"

definition instant_of :: "pydt \<Rightarrow> instant" where
  \<comment> \<open>the UTC wall clock; a naive datetime is read as UTC\<close>
  "instant_of t = wall t - minutes (case utcoff t of None \<Rightarrow> 0 | Some z \<Rightarrow> z)"

definition utc :: "instant \<Rightarrow> pydt" where
  "utc i = \<lparr>wall = i, utcoff = Some 0\<rparr>"

definition as_utc :: "pydt \<Rightarrow> pydt" where
  "as_utc t = (case utcoff t of None \<Rightarrow> t\<lparr>utcoff := Some 0\<rparr>
     | Some z \<Rightarrow> \<lparr>wall = wall t - minutes z, utcoff = Some 0\<rparr>)"

definition truncate_to_second :: "pydt \<Rightarrow> pydt" where
  "truncate_to_second t =
     (let u = as_utc t in u\<lparr>wall := wall u - wall u mod us_per_second\<rparr>)"

lemma as_utc_utc: "as_utc t = utc (instant_of t)"
  by (cases t) (auto simp: as_utc_def utc_def instant_of_def minutes_def split: option.splits)

lemma instant_of_utc [simp]: "instant_of (utc i) = i"
  by (simp add: instant_of_def utc_def minutes_def)

lemma truncate_to_second_utc:
  "truncate_to_second t = utc (instant_of t - instant_of t mod us_per_second)"
  by (simp add: truncate_to_second_def as_utc_utc Let_def) (simp add: utc_def)

subsection \<open>The text form\<close>

definition two :: "int \<Rightarrow> string" where
  "two n = zero_pad 2 (nat_str (nat n))"

definition iso_date :: "int \<Rightarrow> string" where
  "iso_date n = (case civil_of_day n of (y, m, d) \<Rightarrow>
     zero_pad 4 (nat_str (nat y)) @ ''-'' @ two m @ ''-'' @ two d)"

definition iso_time :: "int \<Rightarrow> string" where
  "iso_time t = (let s = t div us_per_second; us = t mod us_per_second in
     two (s div 3600) @ '':'' @ two (s div 60 mod 60) @ '':'' @ two (s mod 60) @
     (if us = 0 then [] else ''.'' @ zero_pad 6 (nat_str (nat us))))"

definition iso_offset :: "int option \<Rightarrow> string" where
  "iso_offset z = (case z of None \<Rightarrow> []
     | Some z \<Rightarrow> (if z < 0 then ''-'' else ''+'') @ two (\<bar>z\<bar> div 60) @ '':'' @ two (\<bar>z\<bar> mod 60))"

definition isoformat :: "pydt \<Rightarrow> string" where
  "isoformat t = iso_date (wall t div us_per_day) @ ''T'' @ iso_time (wall t mod us_per_day) @
     iso_offset (utcoff t)"

definition read_number :: "nat \<Rightarrow> string \<Rightarrow> (int \<times> string) option" where
  "read_number w s = (if length s < w then None
     else map_option (\<lambda>n. (n, drop w s)) (py_int_of_digits (take w s)))"

definition read_char :: "string \<Rightarrow> string \<Rightarrow> string option" where
  "read_char c s = (if startswith s c then Some (drop (length c) s) else None)"

definition read_micros :: "string \<Rightarrow> (int \<times> string) option" where
  "read_micros s = (if startswith s ''.'' then read_number 6 (drop 1 s) else Some (0, s))"

definition read_offset :: "string \<Rightarrow> int option option" where
  "read_offset s = (if s = [] then Some None else do {
     sign \<leftarrow> (if startswith s ''-'' then Some (- 1) else if startswith s ''+'' then Some 1 else None);
     (h, s) \<leftarrow> read_number 2 (drop 1 s);
     s \<leftarrow> read_char '':'' s;
     (m, s) \<leftarrow> read_number 2 s;
     if s = [] \<and> h < 24 \<and> m < 60 then Some (Some (sign * (60 * h + m))) else None })"

definition fromisoformat :: "string \<Rightarrow> pydt option" where
  \<comment> \<open>\<open>None\<close> is \<open>ValueError\<close>\<close>
  "fromisoformat s = do {
     (y, s) \<leftarrow> read_number 4 s;
     s \<leftarrow> read_char ''-'' s;
     (mo, s) \<leftarrow> read_number 2 s;
     s \<leftarrow> read_char ''-'' s;
     (d, s) \<leftarrow> read_number 2 s;
     s \<leftarrow> read_char ''T'' s;
     (h, s) \<leftarrow> read_number 2 s;
     s \<leftarrow> read_char '':'' s;
     (mi, s) \<leftarrow> read_number 2 s;
     s \<leftarrow> read_char '':'' s;
     (sec, s) \<leftarrow> read_number 2 s;
     (us, s) \<leftarrow> read_micros s;
     z \<leftarrow> read_offset s;
     if 1 \<le> y \<and> 1 \<le> mo \<and> mo \<le> 12 \<and> 1 \<le> d \<and> d \<le> month_lengths y ! nat (mo - 1) \<and>
        h < 24 \<and> mi < 60 \<and> sec < 60
     then Some \<lparr>wall = day_number y mo d * us_per_day
                  + ((h * 60 + mi) * 60 + sec) * us_per_second + us, utcoff = z\<rparr>
     else None }"

lemma read_number_pad [simp]:
  "n < 10 ^ w \<Longrightarrow> 0 < w \<Longrightarrow> read_number w (zero_pad w (nat_str n) @ s) = Some (int n, s)"
  using zero_pad_decimal [of w n] length_zero_pad [of n w]
  by (auto simp: read_number_def py_int_of_digits_def zero_pad_def)

lemma read_two [simp]: "0 \<le> n \<Longrightarrow> n < 100 \<Longrightarrow> read_number 2 (two n @ s) = Some (n, s)"
  using read_number_pad [of "nat n" 2 s] by (simp add: two_def)

lemma read_char_Cons [simp]: "read_char [c] (c # s) = Some s"
  by (simp add: read_char_def startswith_def)

lemma read_offset_iso:
  assumes "case z of None \<Rightarrow> True | Some z \<Rightarrow> \<bar>z\<bar> < 1440"
  shows "read_offset (iso_offset z) = Some z"
proof (cases z)
  case (Some i)
  with assms have b: "\<bar>i\<bar> < 1440" by simp
  have "read_number 2 (two (\<bar>i\<bar> div 60) @ '':'' @ two (\<bar>i\<bar> mod 60))
        = Some (\<bar>i\<bar> div 60, '':'' @ two (\<bar>i\<bar> mod 60))"
    by (rule read_two) (use b in auto)
  moreover have "read_number 2 (two (\<bar>i\<bar> mod 60)) = Some (\<bar>i\<bar> mod 60, [])"
    using read_two [of "\<bar>i\<bar> mod 60" "[]"] by simp
  moreover have "60 * (\<bar>i\<bar> div 60) + \<bar>i\<bar> mod 60 = \<bar>i\<bar>" by simp
  ultimately show ?thesis
    using Some b by (auto simp: iso_offset_def read_offset_def startswith_def read_char_def
        abs_if split: if_splits)
qed (simp add: iso_offset_def read_offset_def)

lemma read_micros_iso:
  assumes "0 \<le> us" "us < us_per_second"
  shows "us = 0 \<Longrightarrow> read_micros (iso_offset z) = Some (us, iso_offset z)"
    and "us \<noteq> 0 \<Longrightarrow> read_micros (CHR ''.'' # zero_pad 6 (nat_str (nat us)) @ iso_offset z)
           = Some (us, iso_offset z)"
proof -
  have "\<not> startswith (iso_offset z) ''.''"
    by (auto simp: startswith_def iso_offset_def split: option.splits)
  then show "us = 0 \<Longrightarrow> read_micros (iso_offset z) = Some (us, iso_offset z)"
    by (simp add: read_micros_def)
  have "read_number 6 (zero_pad 6 (nat_str (nat us)) @ iso_offset z) = Some (us, iso_offset z)"
    using read_number_pad [of "nat us" 6 "iso_offset z"] assms by simp
  then show "us \<noteq> 0 \<Longrightarrow> read_micros (CHR ''.'' # zero_pad 6 (nat_str (nat us)) @ iso_offset z)
      = Some (us, iso_offset z)"
    by (simp add: read_micros_def startswith_def)
qed

lemma seconds_of_fields: "(s div 3600 * 60 + s div 60 mod 60) * 60 + s mod 60 = (s :: int)"
proof -
  have "s div 3600 = s div 60 div 60" using zdiv_zmult2_eq [of 60 s 60] by simp
  then show ?thesis by (simp only: div_mult_mod_eq)
qed

lemma year_range:
  assumes "0 \<le> n" "n < 3652059"
  shows "1 \<le> year_of_day n \<and> year_of_day n \<le> 9999"
proof -
  have mono: "days_before_year y \<le> days_before_year z" if "y \<le> z" for y z
  proof -
    have "(y - 1) div 4 \<le> (z - 1) div 4" "(y - 1) div 400 \<le> (z - 1) div 400"
      using that by (auto intro: zdiv_mono1)
    moreover have "(z - 1) div 100 - (y - 1) div 100 \<le> z - y"
    proof -
      have "(z - 1) div 100 \<le> (y - 1 + (z - y) * 100) div 100"
        using that by (intro zdiv_mono1) auto
      then show ?thesis by simp
    qed
    moreover have "(y - 1) * 365 + A - B + C \<le> (z - 1) * 365 + A' - B' + C'"
      if "A \<le> A'" "C \<le> C'" "B' - B \<le> z - y" for A A' B B' C C' :: int
      using that \<open>y \<le> z\<close> by (simp add: left_diff_distrib)
    ultimately show ?thesis unfolding days_before_year_def by blast
  qed
  have "days_before_year 1 = 0" "days_before_year 10000 = 3652059"
    by (simp_all add: days_before_year_def)
  then show ?thesis
    using year_of_day_bounds [of n] assms mono [of "year_of_day n + 1" 1] mono [of 10000 "year_of_day n"]
    by (cases "year_of_day n < 1"; cases "year_of_day n > 9999") auto
qed

lemma iso_fields:
  assumes "valid_pydt t"
  obtains y m d h mi sec us where
    "isoformat t = zero_pad 4 (nat_str (nat y)) @ ''-'' @ two m @ ''-'' @ two d @ ''T'' @
      two h @ '':'' @ two mi @ '':'' @ two sec @
      (if us = 0 then [] else ''.'' @ zero_pad 6 (nat_str (nat us))) @ iso_offset (utcoff t)"
    "1 \<le> y" "y \<le> 9999" "1 \<le> m" "m \<le> 12" "1 \<le> d" "d \<le> month_lengths y ! nat (m - 1)" "d \<le> 31"
    "0 \<le> h" "h < 24" "0 \<le> mi" "mi < 60" "0 \<le> sec" "sec < 60" "0 \<le> us" "us < us_per_second"
    "wall t = day_number y m d * us_per_day + ((h * 60 + mi) * 60 + sec) * us_per_second + us"
proof -
  define n where "n = wall t div us_per_day"
  define r where "r = wall t mod us_per_day"
  define s where "s = r div us_per_second"
  define us where "us = r mod us_per_second"
  have n: "0 \<le> n" "n < 3652059" and r: "0 \<le> r" "r < us_per_day" and w: "wall t = n * us_per_day + r"
    using assms by (auto simp: valid_pydt_def n_def r_def)
  have s: "0 \<le> s" "s < 86400" and us: "0 \<le> us" "us < us_per_second"
    and rs: "r = s * us_per_second + us"
    using r by (auto simp: s_def us_def)
  define h where "h = s div 3600"
  define mi where "mi = s div 60 mod 60"
  define sec where "sec = s mod 60"
  have hms: "0 \<le> h" "h < 24" "0 \<le> mi" "mi < 60" "0 \<le> sec" "sec < 60"
    and sum: "(h * 60 + mi) * 60 + sec = s"
    using s seconds_of_fields [of s] by (auto simp: h_def mi_def sec_def)
  obtain y m d where c: "civil_of_day n = (y, m, d)" by (cases "civil_of_day n") auto
  note civ = day_number_civil [OF c]
  have yr: "1 \<le> y" "y \<le> 9999" using civ year_range [OF n] by auto
  have md: "1 \<le> m" "m \<le> 12" "1 \<le> d" "d \<le> month_lengths y ! nat (m - 1)" using civ by auto
  have "month_lengths y ! k \<le> 31" if "k < 12" for k
    using that by (auto simp: month_lengths_def less_Suc_eq numeral_eq_Suc)
  then have "month_lengths y ! nat (m - 1) \<le> 31" using md(1,2) by simp
  then have d31: "d \<le> 31" using md(4) by linarith
  have iso: "isoformat t = zero_pad 4 (nat_str (nat y)) @ ''-'' @ two m @ ''-'' @ two d @ ''T'' @
      two h @ '':'' @ two mi @ '':'' @ two sec @
      (if us = 0 then [] else ''.'' @ zero_pad 6 (nat_str (nat us))) @ iso_offset (utcoff t)"
    unfolding isoformat_def iso_date_def iso_time_def Let_def n_def [symmetric] r_def [symmetric]
      s_def [symmetric] us_def [symmetric] h_def [symmetric] mi_def [symmetric] sec_def [symmetric] c
    by simp
  have "wall t = day_number y m d * us_per_day + ((h * 60 + mi) * 60 + sec) * us_per_second + us"
    using civ [THEN conjunct1] sum rs w by simp
  then show ?thesis by (rule that [OF iso yr md d31 hms us])
qed

lemma fromisoformat_isoformat:
  assumes "valid_pydt t"
  shows "fromisoformat (isoformat t) = Some t"
proof -
  obtain y m d h mi sec us where iso: "isoformat t = zero_pad 4 (nat_str (nat y)) @ ''-'' @ two m @ ''-'' @ two d @ ''T'' @
      two h @ '':'' @ two mi @ '':'' @ two sec @
      (if us = 0 then [] else ''.'' @ zero_pad 6 (nat_str (nat us))) @ iso_offset (utcoff t)"
    and r: "1 \<le> y" "y \<le> 9999" "1 \<le> m" "m \<le> 12" "1 \<le> d" "d \<le> month_lengths y ! nat (m - 1)" "d \<le> 31"
    "0 \<le> h" "h < 24" "0 \<le> mi" "mi < 60" "0 \<le> sec" "sec < 60" and us: "0 \<le> us" "us < us_per_second"
    and w: "wall t = day_number y m d * us_per_day + ((h * 60 + mi) * 60 + sec) * us_per_second + us"
    by (rule iso_fields [OF assms])
  have ry: "read_number 4 (zero_pad 4 (nat_str (nat y)) @ q) = Some (y, q)" for q
    using read_number_pad [of "nat y" 4 q] r by simp
  have rz: "read_offset (iso_offset (utcoff t)) = Some (utcoff t)"
    using assms by (intro read_offset_iso) (simp add: valid_pydt_def)
  have "fromisoformat (isoformat t) = Some \<lparr>wall = day_number y m d * us_per_day
      + ((h * 60 + mi) * 60 + sec) * us_per_second + us, utcoff = utcoff t\<rparr>"
    unfolding iso fromisoformat_def
    using r by (simp add: ry rz read_micros_iso [OF us])
  also have "\<dots> = Some t" using w by simp
  finally show ?thesis .
qed

lemma isoformat_inject:
  "valid_pydt s \<Longrightarrow> valid_pydt t \<Longrightarrow> isoformat s = isoformat t \<longleftrightarrow> s = t"
  by (metis fromisoformat_isoformat option.inject)

end
