(* ===== verification/AuthDb.thy ===== *)
theory AuthDb
  imports Roles Pytime
begin

section \<open>The tables of the login subsystem (db/models.py)\<close>

text \<open>
  The rows of \<open>users\<close>, \<open>auth_sessions\<close>, \<open>directory_configs\<close> and its group mappings, and the database
  that holds them. A UUID is a number. Timestamps are instants: SQLite reads them back naive, and
  \<open>as_utc\<close> gives them back the offset they had.
\<close>

type_synonym uuid = nat

record user =
  user_id :: uuid
  realm_key :: string
  subject :: string
  username :: string
  display_name :: "string option"
  email :: "string option"
  directory_id :: "uuid option"
  password_hash :: "string option"
  user_role :: role
  is_active :: bool
  failed_login_count :: int
  locked_until :: "instant option"
  password_changed_at :: "instant option"
  last_login_at :: "instant option"
  user_created_at :: instant
  user_updated_at :: instant

record auth_session =
  session_id :: uuid
  token_hash :: string
  session_user :: uuid
  created_at :: instant
  last_seen_at :: instant
  expires_at :: instant
  client_ip :: "string option"
  user_agent :: "string option"
  session_marker :: "string option"

datatype transport = Ldaps | Starttls | NoTls

record directory_config =
  dir_id :: uuid
  dir_name :: string
  dir_kind :: string
  is_enabled :: bool
  sort_order :: int
  server_uris :: "string list"
  transport_security :: transport
  tls_verify :: bool
  ca_cert_pem :: "string option"
  bind_dn :: "string option"
  bind_password :: "string option"
  timeout_seconds :: int
  user_search_base :: string
  user_search_filter :: "string option"
  username_attribute :: "string option"
  unique_id_attribute :: "string option"
  ad_upn_suffix :: "string option"
  display_name_attribute :: "string option"
  email_attribute :: "string option"
  group_mode :: string
  group_search_base :: "string option"
  group_search_filter :: "string option"
  group_member_attribute :: "string option"
  group_member_value :: "string option"
  dir_created_at :: instant
  dir_updated_at :: instant

record group_mapping =
  mapping_id :: uuid
  mapping_directory :: uuid
  group_dn :: string
  group_dn_normalized :: string
  mapping_role :: role

record auth_db =
  users :: "user list"
  sessions :: "auth_session list"
  directories :: "directory_config list"
  mappings :: "group_mapping list"

subsection \<open>Lookups\<close>

definition get_user :: "auth_db \<Rightarrow> uuid \<Rightarrow> user option" where
  "get_user db uid = find (\<lambda>u. user_id u = uid) (users db)"

definition session_with_hash :: "auth_db \<Rightarrow> string \<Rightarrow> auth_session option" where
  "session_with_hash db h = find (\<lambda>s. token_hash s = h) (sessions db)"

definition session_with_id :: "auth_db \<Rightarrow> uuid \<Rightarrow> auth_session option" where
  "session_with_id db sid = find (\<lambda>s. session_id s = sid) (sessions db)"

definition get_directory :: "auth_db \<Rightarrow> uuid \<Rightarrow> directory_config option" where
  "get_directory db did = find (\<lambda>d. dir_id d = did) (directories db)"

text \<open>The primary keys and the unique columns of the schema.\<close>

definition db_ok :: "auth_db \<Rightarrow> bool" where
  "db_ok db = (distinct (map user_id (users db)) \<and>
     distinct (map (\<lambda>u. (realm_key u, subject u)) (users db)) \<and>
     distinct (map session_id (sessions db)) \<and> distinct (map token_hash (sessions db)) \<and>
     distinct (map dir_id (directories db)))"

lemma get_user_Some: "get_user db uid = Some u \<Longrightarrow> u \<in> set (users db) \<and> user_id u = uid"
  unfolding get_user_def by (rule find_Some_iff_in)

lemma session_with_hash_Some:
  "session_with_hash db h = Some s \<Longrightarrow> s \<in> set (sessions db) \<and> token_hash s = h"
  unfolding session_with_hash_def by (rule find_Some_iff_in)

lemma session_with_id_Some:
  "session_with_id db i = Some s \<Longrightarrow> s \<in> set (sessions db) \<and> session_id s = i"
  unfolding session_with_id_def by (rule find_Some_iff_in)

lemma session_with_id_None:
  "session_with_id db i = None \<longleftrightarrow> i \<notin> session_id ` set (sessions db)"
  by (auto simp: session_with_id_def find_None_iff)

subsection \<open>Which directories may be used (auth/directory/connection.py)\<close>

record connect_options =
  allow_insecure_tls :: bool
  production :: bool

definition check_security :: "directory_config \<Rightarrow> connect_options \<Rightarrow> string option" where
  \<comment> \<open>\<open>Some\<close> is a \<open>DirectoryConfigError\<close>\<close>
  "check_security spec opts =
     (if transport_security spec = NoTls \<and> production opts then Some ''transport_security=none''
      else if transport_security spec \<noteq> NoTls \<and> \<not> tls_verify spec \<and> \<not> allow_insecure_tls opts
        then Some ''tls_verify=false''
      else None)"

definition allowed_by_security :: "connect_options \<Rightarrow> directory_config \<Rightarrow> bool" where
  \<comment> \<open>the SQL condition\<close>
  "allowed_by_security opts d =
     ((production opts \<longrightarrow> transport_security d \<noteq> NoTls) \<and>
      (\<not> allow_insecure_tls opts \<longrightarrow> transport_security d = NoTls \<or> tls_verify d))"

lemma allowed_by_security_iff: "allowed_by_security opts d \<longleftrightarrow> check_security d opts = None"
  by (auto simp: allowed_by_security_def check_security_def)

end
