(* ===== verification/Sessions.thy ===== *)
theory Sessions
  imports AuthDb
begin

section \<open>Login sessions (auth/sessions.py)\<close>

text \<open>
  Creation, resolution, expiry and revocation of the server-side login sessions. Between two database
  statements of \<open>resolve_session\<close> other requests may run: \<open>env k\<close> is what they do to the database
  before the statement number \<open>k\<close>, and the identity for a request that runs alone. The SHA-256
  of a token is the parameter \<open>sha\<close>.
\<close>

record session_policy =
  idle_timeout :: timedelta
  absolute_timeout :: timedelta
  directory_options :: "connect_options option"

definition TOUCH_INTERVAL :: timedelta where
  "TOUCH_INTERVAL = seconds 60"

definition touch_interval :: "session_policy \<Rightarrow> timedelta" where
  "touch_interval pol = min TOUCH_INTERVAL (half (idle_timeout pol))"

definition credential_marker :: "user \<Rightarrow> string option" where
  "credential_marker u = map_option (\<lambda>t. isoformat (utc t)) (password_changed_at u)"

record resolved_session =
  resolved_session :: auth_session
  resolved_user :: user
  touched :: bool

definition clip :: "nat \<Rightarrow> string option \<Rightarrow> string option" where
  \<comment> \<open>\<open>(value or None) and value[:n]\<close>\<close>
  "clip n v = (case v of None \<Rightarrow> None | Some s \<Rightarrow> if s = [] then None else Some (take n s))"

definition create_session ::
  "(string \<Rightarrow> string) \<Rightarrow> auth_db \<Rightarrow> user \<Rightarrow> session_policy \<Rightarrow> string option \<Rightarrow> string option \<Rightarrow>
   instant \<Rightarrow> uuid \<Rightarrow> string \<Rightarrow> auth_db \<times> string" where
  \<comment> \<open>\<open>sid\<close> and \<open>token\<close> are the freshly drawn UUID and token\<close>
  "create_session sha db u pol ip ua now sid token =
     (db\<lparr>sessions := sessions db @
        [\<lparr>session_id = sid, token_hash = sha token, session_user = user_id u, created_at = now,
          last_seen_at = now, expires_at = now + absolute_timeout pol, client_ip = clip 64 ip,
          user_agent = clip 256 ua, session_marker = credential_marker u\<rparr>]\<rparr>, token)"

definition is_expired :: "auth_session \<Rightarrow> session_policy \<Rightarrow> instant \<Rightarrow> bool" where
  "is_expired row pol now =
     (if expires_at row \<le> now then True else last_seen_at row + idle_timeout pol \<le> now)"

definition expired_where :: "session_policy \<Rightarrow> instant \<Rightarrow> auth_session \<Rightarrow> bool" where
  \<comment> \<open>the condition of the DELETE statements\<close>
  "expired_where pol now row = (expires_at row \<le> now \<or> last_seen_at row \<le> now - idle_timeout pol)"

definition delete_if_still_expired ::
  "auth_db \<Rightarrow> auth_session \<Rightarrow> session_policy \<Rightarrow> instant \<Rightarrow> auth_db \<times> bool" where
  "delete_if_still_expired db row pol now =
     (let (rest, n) = delete_where (\<lambda>s. session_id s = session_id row \<and> expired_where pol now s)
                        (sessions db)
      in (db\<lparr>sessions := rest\<rparr>, n \<noteq> 0))"

definition touch_where :: "auth_db \<Rightarrow> auth_session \<Rightarrow> instant \<Rightarrow> auth_db \<times> auth_session \<times> bool" where
  \<comment> \<open>\<open>_touch\<close>: the update, the row as committed in memory, and whether it was written\<close>
  "touch_where db row now =
     (let (rows, n) = update_where (\<lambda>s. session_id s = session_id row \<and> last_seen_at s < now)
                        (\<lambda>s. s\<lparr>last_seen_at := now\<rparr>) (sessions db)
      in if n \<noteq> 0 then (db\<lparr>sessions := rows\<rparr>, row\<lparr>last_seen_at := now\<rparr>, True)
         else (db\<lparr>sessions := rows\<rparr>, row, False))"

definition delete_session_id :: "auth_db \<Rightarrow> uuid \<Rightarrow> auth_db" where
  "delete_session_id db sid =
     db\<lparr>sessions := fst (delete_where (\<lambda>s. session_id s = sid) (sessions db))\<rparr>"

definition directory_usable :: "auth_db \<Rightarrow> user \<Rightarrow> connect_options option \<Rightarrow> bool" where
  "directory_usable db u options =
     (case directory_id u of None \<Rightarrow> True
      | Some did \<Rightarrow>
          (case find (\<lambda>d. dir_id d = did \<and>
                  (case options of None \<Rightarrow> True | Some opts \<Rightarrow> allowed_by_security opts d))
                (directories db) of
             None \<Rightarrow> False | Some d \<Rightarrow> is_enabled d))"

definition resolve_user ::
  "(nat \<Rightarrow> auth_db \<Rightarrow> auth_db) \<Rightarrow> auth_db \<Rightarrow> auth_session \<Rightarrow> session_policy \<Rightarrow> instant \<Rightarrow> bool \<Rightarrow>
   auth_db \<times> resolved_session option" where
  \<comment> \<open>the second half of \<open>resolve_session\<close>, from \<open>db.get(User, row.user_id)\<close> on\<close>
  "resolve_user env db row pol now touch =
     (let db = env 3 db; reject = (\<lambda>d. (delete_session_id (env 5 d) (session_id row), None))
      in case get_user db (session_user row) of
        None \<Rightarrow> reject db
      | Some u \<Rightarrow>
          if \<not> is_active u \<or> session_marker row \<noteq> credential_marker u then reject db
          else let db = env 4 db in
            if \<not> directory_usable db u (directory_options pol) then reject db
            else if touch \<and> touch_interval pol \<le> now - last_seen_at row then
              (case touch_where (env 6 db) row now of (db, row, t) \<Rightarrow>
                 (db, Some \<lparr>resolved_session = row, resolved_user = u, touched = t\<rparr>))
            else (db, Some \<lparr>resolved_session = row, resolved_user = u, touched = False\<rparr>))"

definition resolve_session ::
  "(nat \<Rightarrow> auth_db \<Rightarrow> auth_db) \<Rightarrow> (string \<Rightarrow> string) \<Rightarrow> auth_db \<Rightarrow> string option \<Rightarrow> session_policy \<Rightarrow>
   instant \<Rightarrow> bool \<Rightarrow> auth_db \<times> resolved_session option" where
  "resolve_session env sha db token pol now touch =
     (case token of None \<Rightarrow> (db, None)
      | Some t \<Rightarrow>
          if t = [] then (db, None)
          else (case session_with_hash db (sha t) of
              None \<Rightarrow> (db, None)
            | Some row \<Rightarrow>
                if is_expired row pol now then
                  (case delete_if_still_expired (env 1 db) row pol now of (db, deleted) \<Rightarrow>
                     if deleted then (db, None)
                     else let db = env 2 db in
                       (case session_with_id db (session_id row) of
                          None \<Rightarrow> (db, None)
                        | Some fresh \<Rightarrow> resolve_user env db fresh pol now touch))
                else resolve_user env db row pol now touch))"

definition revoke_session :: "(string \<Rightarrow> string) \<Rightarrow> auth_db \<Rightarrow> string option \<Rightarrow> auth_db" where
  "revoke_session sha db token =
     (case token of None \<Rightarrow> db
      | Some t \<Rightarrow> if t = [] then db
          else db\<lparr>sessions := fst (delete_where (\<lambda>s. token_hash s = sha t) (sessions db))\<rparr>)"

definition revoke_all_for_user :: "auth_db \<Rightarrow> uuid \<Rightarrow> uuid option \<Rightarrow> auth_db" where
  "revoke_all_for_user db uid except_session_id =
     db\<lparr>sessions := fst (delete_where
        (\<lambda>s. session_user s = uid \<and>
             (case except_session_id of None \<Rightarrow> True | Some e \<Rightarrow> session_id s \<noteq> e)) (sessions db))\<rparr>"

definition purge_expired_sessions :: "auth_db \<Rightarrow> session_policy \<Rightarrow> instant \<Rightarrow> auth_db \<times> nat" where
  "purge_expired_sessions db pol now =
     (let (rest, n) = delete_where (expired_where pol now) (sessions db)
      in (db\<lparr>sessions := rest\<rparr>, n))"

subsection \<open>Expiry\<close>

lemma is_expired_iff: "is_expired row pol now \<longleftrightarrow> expired_where pol now row"
  by (auto simp: is_expired_def expired_where_def)

lemma touch_interval_le_half: "2 * touch_interval pol \<le> idle_timeout pol + 1"
proof -
  have "touch_interval pol \<le> half (idle_timeout pol)" by (simp add: touch_interval_def)
  then show ?thesis using half_bounds(1) [of "idle_timeout pol"] by linarith
qed

subsection \<open>What a step of another request does to the sessions\<close>

text \<open>
  A statement of this subsystem may delete sessions and move \<open>last_seen_at\<close> forward; it never revives
  a session or changes its expiry. Identifiers in \<open>K\<close> have been drawn already, so no new row has one.
\<close>

definition descends :: "auth_session \<Rightarrow> auth_session \<Rightarrow> bool" where
  "descends s' s = (session_id s' = session_id s \<and> token_hash s' = token_hash s \<and>
     session_user s' = session_user s \<and> expires_at s' = expires_at s \<and>
     last_seen_at s \<le> last_seen_at s')"

definition keeps_sessions :: "uuid set \<Rightarrow> auth_db \<Rightarrow> auth_db \<Rightarrow> bool" where
  "keeps_sessions K db db' =
     (\<forall>s'\<in>set (sessions db'). session_id s' \<in> K \<longrightarrow> (\<exists>s\<in>set (sessions db). descends s' s))"

lemma descends_refl [simp]: "descends s s"
  by (simp add: descends_def)

lemma descends_self: "s \<in> set rows \<Longrightarrow> \<exists>x\<in>set rows. descends s x"
  using descends_refl by blast

lemma keeps_sessions_subset [env_rules]:
  "set (sessions db') \<subseteq> set (sessions db) \<Longrightarrow> keeps_sessions K db db'"
  unfolding keeps_sessions_def using descends_refl by blast

lemma keeps_sessions_refl [simp]: "keeps_sessions K db db"
  by (simp add: keeps_sessions_subset)

lemma keeps_sessions_trans:
  "keeps_sessions K a b \<Longrightarrow> keeps_sessions K b c \<Longrightarrow> keeps_sessions K a c"
  unfolding keeps_sessions_def descends_def by (metis (no_types, lifting) order_trans)

lemma descends_live: "descends s' s \<Longrightarrow> \<not> expired_where pol now s \<Longrightarrow> \<not> expired_where pol now s'"
  by (auto simp: descends_def expired_where_def)

text \<open>The interface of a statement: what \<open>resolve_session\<close> relies on at each of its awaits.\<close>

locale session_statement =
  fixes stmt :: "auth_db \<Rightarrow> auth_db" and K :: "uuid set"
  assumes keeps: "keeps_sessions K db (stmt db)"
begin

lemma stays_live:
  assumes "s' \<in> set (sessions (stmt db))" "session_id s' = i" "i \<in> K"
    and "\<And>s. s \<in> set (sessions db) \<Longrightarrow> session_id s = i \<Longrightarrow> \<not> expired_where pol now s"
  shows "\<not> expired_where pol now s'"
proof -
  from keeps [of db] assms(1-3) obtain s where "s \<in> set (sessions db)" "descends s' s"
    unfolding keeps_sessions_def by blast
  then show ?thesis using assms(2,4) descends_live by (metis descends_def)
qed

lemma stays_gone: "i \<in> K \<Longrightarrow> session_with_id db i = None \<Longrightarrow> session_with_id (stmt db) i = None"
  using keeps [of db] unfolding session_with_id_None keeps_sessions_def
  by (auto simp: descends_def image_iff)

lemma iterate: "keeps_sessions K db ((stmt ^^ n) db)"
  by (induction n) (auto intro: keeps_sessions_trans keeps)

end

interpretation deletes: session_statement "\<lambda>db. fst (delete_if_still_expired db row pol now)" K
  by unfold_locales (auto intro!: env_rules simp: delete_if_still_expired_def delete_where_def)

interpretation deletes_id: session_statement "\<lambda>db. delete_session_id db sid" K
  by unfold_locales (auto intro!: env_rules simp: delete_session_id_def)

lemma descends_touch:
  assumes "s \<in> set rows" "last_seen_at s < now"
  shows "\<exists>x\<in>set rows. descends (s\<lparr>last_seen_at := now\<rparr>) x"
proof (rule bexI)
  show "descends (s\<lparr>last_seen_at := now\<rparr>) s" using assms(2) by (simp add: descends_def)
qed fact

interpretation touches: session_statement "\<lambda>db. fst (touch_where db row now)" K
proof
  fix db
  show "keeps_sessions K db (fst (touch_where db row now))"
    unfolding keeps_sessions_def touch_where_def update_where_def
    by (auto intro: descends_self descends_touch split: if_splits)
qed

interpretation revokes: session_statement "\<lambda>db. revoke_session sha db token" K
  by unfold_locales (auto intro!: env_rules simp: revoke_session_def split: option.splits)

interpretation revokes_all: session_statement "\<lambda>db. revoke_all_for_user db uid ex" K
  by unfold_locales (auto intro!: env_rules simp: revoke_all_for_user_def)

interpretation purges: session_statement "\<lambda>db. fst (purge_expired_sessions db pol now)" K
  by unfold_locales (auto intro!: env_rules simp: purge_expired_sessions_def delete_where_def)

lemma create_keeps_sessions:
  "sid \<notin> K \<Longrightarrow> keeps_sessions K db (fst (create_session sha db u pol ip ua now sid token))"
  unfolding keeps_sessions_def create_session_def by (auto intro: descends_self)

subsection \<open>A request that runs alone\<close>

abbreviation (input) alone :: "nat \<Rightarrow> auth_db \<Rightarrow> auth_db" where
  "alone \<equiv> \<lambda>_ db. db"

definition usable_user :: "auth_db \<Rightarrow> session_policy \<Rightarrow> auth_session \<Rightarrow> user \<Rightarrow> bool" where
  "usable_user db pol s u = (get_user db (session_user s) = Some u \<and> is_active u \<and>
     session_marker s = credential_marker u \<and> directory_usable db u (directory_options pol))"

lemma usable_user_sessions [simp]: "usable_user (db\<lparr>sessions := x\<rparr>) pol s u = usable_user db pol s u"
  by (cases "directory_id u") (simp_all add: usable_user_def get_user_def directory_usable_def)

lemma usable_user_descends: "descends s' s \<Longrightarrow> session_marker s' = session_marker s \<Longrightarrow>
    usable_user db pol s' u = usable_user db pol s u"
  by (simp add: usable_user_def descends_def)

lemma delete_expired_row:
  assumes "row \<in> set (sessions db)" "is_expired row pol now"
  shows "snd (delete_if_still_expired db row pol now)"
  using assms by (auto simp: delete_if_still_expired_def delete_where_def is_expired_iff filter_empty_conv)

lemma resolve_user_cases:
  "resolve_user alone db row pol now touch =
     (case get_user db (session_user row) of
        None \<Rightarrow> (delete_session_id db (session_id row), None)
      | Some u \<Rightarrow>
          if usable_user db pol row u then
            (if touch \<and> touch_interval pol \<le> now - last_seen_at row then
              (case touch_where db row now of (db, row, t) \<Rightarrow>
                 (db, Some \<lparr>resolved_session = row, resolved_user = u, touched = t\<rparr>))
             else (db, Some \<lparr>resolved_session = row, resolved_user = u, touched = False\<rparr>))
          else (delete_session_id db (session_id row), None))"
  by (auto simp: resolve_user_def usable_user_def split: option.splits)

lemma resolve_alone_None:
  assumes "\<And>t s. token = Some t \<Longrightarrow> t \<noteq> [] \<Longrightarrow> session_with_hash db (sha t) = Some s \<Longrightarrow> is_expired s pol now"
  shows "snd (resolve_session alone sha db token pol now touch) = None"
proof (cases token)
  case None
  then show ?thesis by (simp add: resolve_session_def)
next
  case (Some t)
  show ?thesis
  proof (cases "t = [] \<or> session_with_hash db (sha t) = None")
    case True
    with Some show ?thesis by (auto simp: resolve_session_def)
  next
    case False
    then obtain s where s: "session_with_hash db (sha t) = Some s" by auto
    with False Some assms have "is_expired s pol now" by simp
    with s have "snd (delete_if_still_expired db s pol now)"
      using delete_expired_row session_with_hash_Some by blast
    then obtain x where "delete_if_still_expired db s pol now = (x, True)"
      by (cases "delete_if_still_expired db s pol now") auto
    with Some False s \<open>is_expired s pol now\<close> show ?thesis
      by (simp add: resolve_session_def)
  qed
qed

lemma resolve_alone_live:
  assumes "t \<noteq> []" "session_with_hash db (sha t) = Some s" "\<not> is_expired s pol now"
  shows "resolve_session alone sha db (Some t) pol now touch = resolve_user alone db s pol now touch"
  using assms by (simp add: resolve_session_def)

text \<open>a request that runs alone is logged in exactly when the cookie's token names a stored
  session that is neither past its absolute expiry nor idle for too long, whose user exists, is
  active, still has the password generation the session was opened with, and whose directory (if
  any) is enabled and allowed by the connection policy.\<close>

theorem resolve_alone_iff:
  "snd (resolve_session alone sha db token pol now touch) \<noteq> None \<longleftrightarrow>
     (\<exists>t s u. token = Some t \<and> t \<noteq> [] \<and> session_with_hash db (sha t) = Some s \<and>
        now < expires_at s \<and> now < last_seen_at s + idle_timeout pol \<and>
        get_user db (session_user s) = Some u \<and> is_active u \<and>
        session_marker s = credential_marker u \<and> directory_usable db u (directory_options pol))"
  (is "?L \<longleftrightarrow> ?R")
proof (cases "\<exists>t s. token = Some t \<and> t \<noteq> [] \<and> session_with_hash db (sha t) = Some s \<and>
    \<not> is_expired s pol now")
  case True
  then obtain t s where ts: "token = Some t" "t \<noteq> []" "session_with_hash db (sha t) = Some s"
    "\<not> is_expired s pol now" by blast
  have "?L \<longleftrightarrow> (\<exists>u. usable_user db pol s u)"
    unfolding ts(1) resolve_alone_live [where sha = sha, OF ts(2-4)] resolve_user_cases
    by (auto simp: usable_user_def split: option.splits prod.splits)
  also have "\<dots> \<longleftrightarrow> ?R"
    using ts by (auto simp: usable_user_def is_expired_iff expired_where_def)
  finally show ?thesis .
next
  case False
  then have "\<not> ?R" by (auto simp: is_expired_iff expired_where_def)
  moreover have "snd (resolve_session alone sha db token pol now touch) = None"
    by (rule resolve_alone_None) (use False in blast)
  ultimately show ?thesis by simp
qed

subsection \<open>Requests that overlap\<close>

lemma no_longer_expired:
  assumes "\<not> snd (delete_if_still_expired db row pol now)"
    and "s \<in> set (sessions db)" "session_id s = session_id row"
  shows "\<not> expired_where pol now s"
  using assms by (auto simp: delete_if_still_expired_def delete_where_def filter_empty_conv)

lemma resolve_user_live:
  assumes "snd (resolve_user env db row pol now touch) = Some r"
    and "\<not> expired_where pol now row" "0 < idle_timeout pol"
  shows "\<not> expired_where pol now (resolved_session r) \<and> is_active (resolved_user r) \<and>
         session_marker (resolved_session r) = credential_marker (resolved_user r) \<and>
         session_id (resolved_session r) = session_id row"
  using assms
  by (auto simp: resolve_user_def Let_def touch_where_def expired_where_def
      split: option.splits if_splits prod.splits)

text \<open>C1: whatever other requests do between the statements of \<open>resolve_session\<close> (delete
  sessions, move \<open>last_seen_at\<close> forward, log in with new identifiers), a session it returns is not
  expired at the time of the request, and its user is active with the session's password generation.
  The row that a concurrent request touched after it was read as expired is kept, not logged out.\<close>

theorem resolve_concurrent_live:
  assumes env: "\<And>k d. keeps_sessions (session_id ` set (sessions db)) d (env k d)"
    and idle: "0 < idle_timeout pol"
    and res: "snd (resolve_session env sha db token pol now touch) = Some r"
  shows "now < expires_at (resolved_session r) \<and>
         now < last_seen_at (resolved_session r) + idle_timeout pol \<and>
         is_active (resolved_user r) \<and>
         session_marker (resolved_session r) = credential_marker (resolved_user r) \<and>
         session_id (resolved_session r) \<in> session_id ` set (sessions db)"
proof -
  let ?K = "session_id ` set (sessions db)"
  obtain t row where t: "token = Some t" "t \<noteq> []" "session_with_hash db (sha t) = Some row"
    using res by (auto simp: resolve_session_def split: option.splits if_splits)
  have K: "session_id row \<in> ?K" using session_with_hash_Some [OF t(3)] by blast
  obtain db' row' where live: "\<not> expired_where pol now row'" "session_id row' = session_id row"
    and fin: "snd (resolve_user env db' row' pol now touch) = Some r"
  proof (cases "is_expired row pol now")
    case False
    with res t show ?thesis by (intro that [of row db]) (auto simp: resolve_session_def is_expired_iff)
  next
    case True
    let ?d1 = "delete_if_still_expired (env 1 db) row pol now"
    let ?db2 = "env 2 (fst ?d1)"
    from True res t obtain fresh where del: "\<not> snd ?d1"
      and fresh: "session_with_id ?db2 (session_id row) = Some fresh"
      and fin: "snd (resolve_user env ?db2 fresh pol now touch) = Some r"
      by (auto simp: resolve_session_def Let_def split: prod.splits if_splits option.splits)
    have in2: "fresh \<in> set (sessions ?db2)" "session_id fresh = session_id row"
      using session_with_id_Some [OF fresh] by auto
    then obtain s where s: "s \<in> set (sessions (fst ?d1))" "descends fresh s"
      using env [of "fst ?d1" 2] K unfolding keeps_sessions_def by auto
    then have "s \<in> set (sessions (env 1 db))" "session_id s = session_id row"
      using in2 by (auto simp: delete_if_still_expired_def delete_where_def descends_def)
    with del have "\<not> expired_where pol now s" by (rule no_longer_expired)
    with s in2 fin show ?thesis by (intro that [of fresh ?db2]) (auto dest: descends_live)
  qed
  from resolve_user_live [OF fin live(1) idle] live(2) K show ?thesis
    by (auto simp: expired_where_def)
qed

text \<open>A user, a session and a policy for the examples.\<close>

definition sample_user :: user where
  "sample_user = \<lparr>user_id = 1, realm_key = ''local'', subject = ''root'', username = ''root'',
     display_name = None, email = None, directory_id = None, password_hash = Some ''h'',
     user_role = ADMIN, is_active = True, failed_login_count = 0, locked_until = None,
     password_changed_at = None, last_login_at = None, user_created_at = 0, user_updated_at = 0\<rparr>"

definition sample_session :: auth_session where
  "sample_session = \<lparr>session_id = 7, token_hash = ''tok'', session_user = 1, created_at = 0,
     last_seen_at = 0, expires_at = hours 12, client_ip = None, user_agent = None,
     session_marker = None\<rparr>"

definition sample_db :: auth_db where
  "sample_db = \<lparr>users = [sample_user], sessions = [sample_session], directories = [], mappings = []\<rparr>"

definition sample_policy :: session_policy where
  "sample_policy = \<lparr>idle_timeout = minutes 60, absolute_timeout = hours 12, directory_options = None\<rparr>"

lemmas sample_defs = sample_user_def sample_session_def sample_db_def sample_policy_def

lemma sample_lookups:
  "session_with_hash sample_db ''tok'' = Some sample_session" "get_user sample_db 1 = Some sample_user"
  by (simp_all add: sample_defs session_with_hash_def get_user_def)

lemma touches_other_env: "keeps_sessions K d (fst (touch_where d sample_session (minutes 59)))"
  by (rule touches.keeps)

theorem resolve_concurrent_live_witness:
  "\<exists>r. snd (resolve_session (\<lambda>_ d. fst (touch_where d sample_session (minutes 59))) (\<lambda>x. x) sample_db
         (Some ''tok'') sample_policy (minutes 61) True) = Some r \<and>
       minutes 61 < last_seen_at (resolved_session r) + idle_timeout sample_policy"
proof -
  let ?env = "\<lambda>_ d. fst (touch_where d sample_session (minutes 59))"
  let ?run = "resolve_session ?env (\<lambda>x. x) sample_db (Some ''tok'') sample_policy (minutes 61) True"
  have "snd ?run \<noteq> None"
    by (simp add: resolve_session_def sample_defs session_with_hash_def is_expired_def timedelta_defs
        delete_if_still_expired_def delete_where_def touch_where_def update_where_def expired_where_def
        session_with_id_def resolve_user_def get_user_def credential_marker_def directory_usable_def
        touch_interval_def TOUCH_INTERVAL_def half_def Let_def)
  then obtain r where r: "snd ?run = Some r" by blast
  have "0 < idle_timeout sample_policy" by (simp add: sample_policy_def minutes_def)
  from resolve_concurrent_live [OF touches.keeps this r] r show ?thesis by blast
qed

subsection \<open>Users who keep working\<close>

fun request_run ::
  "(string \<Rightarrow> string) \<Rightarrow> auth_db \<Rightarrow> string \<Rightarrow> session_policy \<Rightarrow> instant list \<Rightarrow> auth_db \<times> bool" where
  \<comment> \<open>one user's requests at the given times; \<open>False\<close> at the first that is not logged in\<close>
  "request_run sha db t pol [] = (db, True)"
| "request_run sha db t pol (now # ts) =
     (case resolve_session alone sha db (Some t) pol now True of
        (db', None) \<Rightarrow> (db', False)
      | (db', Some _) \<Rightarrow> request_run sha db' t pol ts)"

fun steady :: "timedelta \<Rightarrow> instant \<Rightarrow> instant list \<Rightarrow> bool" where
  \<comment> \<open>every request comes within \<open>gap\<close> of the one before\<close>
  "steady gap prev [] = True"
| "steady gap prev (now # ts) = (prev \<le> now \<and> now - prev \<le> gap \<and> steady gap now ts)"

definition open_session ::
  "(string \<Rightarrow> string) \<Rightarrow> auth_db \<Rightarrow> string \<Rightarrow> session_policy \<Rightarrow> auth_session \<Rightarrow> user \<Rightarrow> bool" where
  "open_session sha db t pol s u = (distinct (map session_id (sessions db)) \<and>
     session_with_hash db (sha t) = Some s \<and> usable_user db pol s u)"

lemma session_with_hash_map:
  assumes "\<And>s. token_hash (f s) = token_hash s"
  shows "session_with_hash (db\<lparr>sessions := map f (sessions db)\<rparr>) h = map_option f (session_with_hash db h)"
  unfolding session_with_hash_def using assms by (simp add: find_map_if)

lemma resolve_alone_open:
  assumes "open_session sha db t pol s u" "t \<noteq> []" "\<not> is_expired s pol now" "last_seen_at s \<le> now"
  obtains db' r s' where
    "resolve_session alone sha db (Some t) pol now True = (db', Some r)"
    "open_session sha db' t pol s' u" "expires_at s' = expires_at s"
    "last_seen_at s' = (if touch_interval pol \<le> now - last_seen_at s then now else last_seen_at s)"
proof -
  have o: "distinct (map session_id (sessions db))" "session_with_hash db (sha t) = Some s"
    "usable_user db pol s u" using assms(1) by (auto simp: open_session_def)
  have step: "resolve_session alone sha db (Some t) pol now True = resolve_user alone db s pol now True"
    using resolve_alone_live [where sha = sha, OF assms(2) o(2) assms(3)] .
  have u: "get_user db (session_user s) = Some u" using o(3) by (simp add: usable_user_def)
  show thesis
  proof (cases "touch_interval pol \<le> now - last_seen_at s \<and> last_seen_at s < now")
    case False
    then have "fst (touch_where db s now) = db" if "touch_interval pol \<le> now - last_seen_at s"
    proof -
      have *: "x = s" if "x \<in> set (sessions db)" "session_id x = session_id s" for x
        using that o(1) session_with_hash_Some [OF o(2)] by (metis distinct_map inj_on_def)
      have "map (\<lambda>x. if session_id x = session_id s \<and> last_seen_at x < now
                     then x\<lparr>last_seen_at := now\<rparr> else x) (sessions db) = sessions db"
        using * False that by (intro map_idI) auto
      then show ?thesis by (simp add: touch_where_def update_where_def)
    qed
    moreover have "last_seen_at s = (if touch_interval pol \<le> now - last_seen_at s then now else last_seen_at s)"
      using False assms(4) by auto
    moreover obtain d row tt where tw: "touch_where db s now = (d, row, tt)"
      by (cases "touch_where db s now")
    ultimately show thesis
      using that [of db _ s] assms(1) u o(3) tw unfolding step
      by (cases "touch_interval pol \<le> now - last_seen_at s") (auto simp: resolve_user_cases)
  next
    case True
    let ?f = "\<lambda>x. if session_id x = session_id s \<and> last_seen_at x < now then x\<lparr>last_seen_at := now\<rparr> else x"
    let ?db' = "db\<lparr>sessions := map ?f (sessions db)\<rparr>"
    let ?s' = "s\<lparr>last_seen_at := now\<rparr>"
    have "filter (\<lambda>x. session_id x = session_id s \<and> last_seen_at x < now) (sessions db) \<noteq> []"
      using True session_with_hash_Some [OF o(2)] by (auto simp: filter_empty_conv)
    then have tw: "touch_where db s now = (?db', ?s', True)"
      by (simp add: touch_where_def update_where_def)
    have m: "map session_id (map ?f (sessions db)) = map session_id (sessions db)" by auto
    have "sessions ?db' = map ?f (sessions db)" by simp
    then have ids: "distinct (map session_id (sessions ?db'))"
      using o(1) by (simp only: m)
    have "session_with_hash ?db' (sha t) = Some ?s'"
      using True o(2) by (subst session_with_hash_map) auto
    moreover have "usable_user ?db' pol ?s' u"
      using o(3) usable_user_descends [of ?s' s db pol u] True by (simp add: descends_def)
    ultimately have "open_session sha ?db' t pol ?s' u"
      unfolding open_session_def using ids by blast
    then show thesis
      using that [of ?db' _ ?s'] True u o(3) tw unfolding step by (auto simp: resolve_user_cases)
  qed
qed

text \<open>C33: a session is not timed out under a user who keeps working: if every request comes within
  half the idle timeout of the one before (and before the absolute expiry), each of them is logged
  in, although \<open>last_seen_at\<close> is not written on every request.\<close>

theorem steady_requests_stay_logged_in:
  assumes "open_session sha db t pol s u" and "t \<noteq> []"
    and "minutes 1 \<le> idle_timeout pol" and "last_seen_at s = start"
    and "steady (idle_timeout pol div 2) start ts"
    and "\<And>now. now \<in> set ts \<Longrightarrow> now < expires_at s"
  shows "snd (request_run sha db t pol ts)"
proof -
  have pos: "0 < touch_interval pol"
    using assms(3) half_bounds(2) [of "idle_timeout pol"]
    by (auto simp: touch_interval_def TOUCH_INTERVAL_def timedelta_defs)
  have main: "snd (request_run sha db t pol ts)"
    if "open_session sha db t pol s u" "last_seen_at s \<le> p" "p - last_seen_at s < touch_interval pol"
      "steady (idle_timeout pol div 2) p ts" "\<And>now. now \<in> set ts \<Longrightarrow> now < expires_at s"
    for db s p ts
    using that
  proof (induction ts arbitrary: db s p)
    case (Cons now ts)
    have gap: "p \<le> now" "now - p \<le> idle_timeout pol div 2" using Cons.prems(4) by auto
    have "2 * (idle_timeout pol div 2) \<le> idle_timeout pol" by simp
    then have "now < last_seen_at s + idle_timeout pol"
      using gap Cons.prems(3) touch_interval_le_half [of pol] by linarith
    moreover have "now < expires_at s" by (rule Cons.prems(5)) simp
    ultimately have live: "\<not> is_expired s pol now" by (simp add: is_expired_def)
    have "last_seen_at s \<le> now" using Cons.prems(2) gap(1) by linarith
    from resolve_alone_open [OF Cons.prems(1) assms(2) live this] obtain db' r s' where
      r: "resolve_session alone sha db (Some t) pol now True = (db', Some r)"
      and s': "open_session sha db' t pol s' u" "expires_at s' = expires_at s"
        "last_seen_at s' = (if touch_interval pol \<le> now - last_seen_at s then now else last_seen_at s)"
      by blast
    have "last_seen_at s' \<le> now" "now - last_seen_at s' < touch_interval pol"
      using s'(3) pos \<open>last_seen_at s \<le> now\<close> by auto
    with Cons.IH [OF s'(1)] Cons.prems s'(2) r show ?case by simp
  qed simp
  show ?thesis by (rule main [OF assms(1)]) (use assms pos in auto)
qed

theorem steady_requests_stay_logged_in_witness:
  "snd (request_run (\<lambda>x. x) sample_db ''tok'' sample_policy [minutes 30, minutes 60, minutes 90])"
  by (rule steady_requests_stay_logged_in [where s = sample_session and u = sample_user and start = 0])
     (auto simp: open_session_def usable_user_def sample_defs session_with_hash_def get_user_def
       credential_marker_def directory_usable_def timedelta_defs)

subsection \<open>Revocation\<close>

text \<open>C22: revoking a user's sessions is final: in no later state that statements of this subsystem
  reach can a session that existed at the revocation be resolved for that user, except the one that
  was exempted.\<close>

theorem revoked_sessions_stay_revoked:
  assumes later: "keeps_sessions (session_id ` set (sessions db)) (revoke_all_for_user db uid ex) db'"
    and res: "snd (resolve_session alone sha db' token pol now touch) = Some r"
    and old: "session_id (resolved_session r) \<in> session_id ` set (sessions db)"
    and user: "session_user (resolved_session r) = uid"
  shows "ex = Some (session_id (resolved_session r))"
proof -
  obtain t s where ts: "token = Some t" "session_with_hash db' (sha t) = Some s"
    and live: "\<not> is_expired s pol now" "t \<noteq> []"
    using res resolve_alone_iff [of sha db' token pol now touch]
    by (auto simp: is_expired_iff expired_where_def)
  have r: "snd (resolve_user alone db' s pol now touch) = Some r"
    using res resolve_alone_live [where sha = sha, OF live(2) ts(2) live(1)] ts(1) by simp
  then have same: "session_id (resolved_session r) = session_id s" "session_user (resolved_session r) = session_user s"
    by (auto simp: resolve_user_cases touch_where_def split: option.splits if_splits prod.splits)
  have "s \<in> set (sessions db')" using session_with_hash_Some [OF ts(2)] by simp
  with later old same obtain s0 where "s0 \<in> set (sessions (revoke_all_for_user db uid ex))" "descends s s0"
    unfolding keeps_sessions_def by metis
  with user same show ?thesis
    by (auto simp: revoke_all_for_user_def descends_def split: option.splits)
qed

theorem revoked_sessions_stay_revoked_witness:
  "\<exists>r. snd (resolve_session alone (\<lambda>x. x) (revoke_all_for_user sample_db 1 (Some 7)) (Some ''tok'')
         sample_policy 5 True) = Some r \<and> Some 7 = Some (session_id (resolved_session r))"
proof -
  let ?db = "revoke_all_for_user sample_db 1 (Some 7)"
  obtain r where r: "snd (resolve_session alone (\<lambda>x. x) ?db (Some ''tok'') sample_policy 5 True) = Some r"
      "session_user (resolved_session r) = 1" "session_id (resolved_session r) = 7"
    by (simp add: resolve_session_def sample_defs session_with_hash_def is_expired_def timedelta_defs
        resolve_user_def get_user_def credential_marker_def directory_usable_def revoke_all_for_user_def
        touch_interval_def TOUCH_INTERVAL_def half_def)
  have "7 \<in> session_id ` set (sessions sample_db)" by (simp add: sample_defs)
  with revoked_sessions_stay_revoked [OF keeps_sessions_refl r(1) _ r(2)] r show ?thesis by auto
qed

end
