(* ===== verification/Users.thy ===== *)
theory Users
  imports Sessions
begin

section \<open>Local users and the last administrator (auth/users.py, auth/passwords.py)\<close>

text \<open>
  Normalisation of user names, the password policy, creation of users, password changes and the
  guard that keeps an administrator able to log in. The Unicode functions (NFKC, \<open>casefold\<close>) and the
  argon2 hash are parameters. An exception is the left side of a sum, and its message is dropped
  except for the field a message names.
\<close>

definition LOCAL_REALM :: string where "LOCAL_REALM = ''local''"
definition USERNAME_MAX_LENGTH :: nat where "USERNAME_MAX_LENGTH = 256"
definition DISPLAY_NAME_MAX_LENGTH :: nat where "DISPLAY_NAME_MAX_LENGTH = 256"
definition EMAIL_MAX_LENGTH :: nat where "EMAIL_MAX_LENGTH = 320"
definition SUBJECT_MAX_LENGTH :: nat where "SUBJECT_MAX_LENGTH = 512"
definition PASSWORD_MAX_LENGTH :: nat where "PASSWORD_MAX_LENGTH = 256"

lemmas length_limits = USERNAME_MAX_LENGTH_def DISPLAY_NAME_MAX_LENGTH_def EMAIL_MAX_LENGTH_def
  SUBJECT_MAX_LENGTH_def PASSWORD_MAX_LENGTH_def

datatype user_error =
    UserError string
  | DuplicateUserError
  | PasswordChangedConcurrentlyError
  | LastAdminError
  | PasswordPolicyError string

record auth_settings =
  auth_enabled :: bool
  local_login_enabled :: bool
  login_max_failed_attempts :: int
  login_lockout_minutes :: int
  password_min_length :: nat
  session_idle_timeout_minutes :: int
  session_absolute_timeout_hours :: int
  session_cookie_secure :: bool
  connect_opts :: connect_options

subsection \<open>Input checks\<close>

definition has_control :: "string \<Rightarrow> bool" where
  "has_control s = list_ex is_control_char s"

definition validate_password_policy :: "string \<Rightarrow> nat \<Rightarrow> user_error option" where
  "validate_password_policy password min_length =
     (if length password < min_length then Some (PasswordPolicyError ''short'')
      else if PASSWORD_MAX_LENGTH < length password then Some (PasswordPolicyError ''long'')
      else if py_strip password \<noteq> password \<or> py_strip password = []
        then Some (PasswordPolicyError ''space'')
      else if has_control password then Some (PasswordPolicyError ''control'')
      else None)"

definition normalize_username ::
  "(string \<Rightarrow> string) \<Rightarrow> (string \<Rightarrow> string) \<Rightarrow> string \<Rightarrow> user_error + string" where
  "normalize_username nfkc casefold name =
     (let value = py_strip (nfkc name)
      in if value = [] then Inl (UserError ''empty'')
         else if USERNAME_MAX_LENGTH < length value then Inl (UserError ''long'')
         else if has_control value then Inl (UserError ''control'')
         else if SUBJECT_MAX_LENGTH < length (casefold value) then Inl (UserError ''subject'')
         else Inr value)"

definition normalize_optional_text :: "string option \<Rightarrow> nat \<Rightarrow> string \<Rightarrow> user_error + string option" where
  "normalize_optional_text value max_length label =
     (case value of None \<Rightarrow> Inr None
      | Some v \<Rightarrow> let text = py_strip v
          in if text = [] then Inr None
             else if max_length < length text then Inl (UserError label)
             else if has_control text then Inl (UserError label)
             else Inr (Some text))"

definition directory_subject_key :: "(string \<Rightarrow> string) \<Rightarrow> string \<Rightarrow> string" where
  "directory_subject_key sha subj =
     (if length subj \<le> SUBJECT_MAX_LENGTH then subj else ''sha256:'' @ sha subj)"

definition local_subject ::
  "(string \<Rightarrow> string) \<Rightarrow> (string \<Rightarrow> string) \<Rightarrow> string \<Rightarrow> user_error + string" where
  "local_subject nfkc casefold name =
     (case normalize_username nfkc casefold name of Inl e \<Rightarrow> Inl e | Inr v \<Rightarrow> Inr (casefold v))"

definition user_with_subject :: "auth_db \<Rightarrow> string \<Rightarrow> string \<Rightarrow> user option" where
  "user_with_subject db realm subj = find (\<lambda>u. realm_key u = realm \<and> subject u = subj) (users db)"

definition get_local_user ::
  "(string \<Rightarrow> string) \<Rightarrow> (string \<Rightarrow> string) \<Rightarrow> auth_db \<Rightarrow> string \<Rightarrow> user_error + user option" where
  "get_local_user nfkc casefold db name =
     (case local_subject nfkc casefold name of Inl e \<Rightarrow> Inl e
      | Inr subj \<Rightarrow> Inr (user_with_subject db LOCAL_REALM subj))"

subsection \<open>Administrators\<close>

definition is_local_admin :: "user \<Rightarrow> bool" where
  "is_local_admin u = (realm_key u = LOCAL_REALM \<and> user_role u = ADMIN \<and> is_active u)"

definition count_local_admins :: "auth_db \<Rightarrow> uuid option \<Rightarrow> nat" where
  "count_local_admins db exclude_user_id =
     length (filter (\<lambda>u. is_local_admin u \<and>
        (case exclude_user_id of None \<Rightarrow> True | Some e \<Rightarrow> user_id u \<noteq> e)) (users db))"

definition count_active_admins :: "auth_db \<Rightarrow> nat" where
  "count_active_admins db = length (filter (\<lambda>u. user_role u = ADMIN \<and> is_active u) (users db))"

definition count_admin_directories :: "auth_db \<Rightarrow> connect_options \<Rightarrow> uuid option \<Rightarrow> nat" where
  "count_admin_directories db options exclude_directory_id =
     length (remdups (map mapping_directory (filter (\<lambda>m. mapping_role m = ADMIN \<and>
        list_ex (\<lambda>d. dir_id d = mapping_directory m \<and> is_enabled d \<and> allowed_by_security options d \<and>
             (case exclude_directory_id of None \<Rightarrow> True | Some e \<Rightarrow> dir_id d \<noteq> e))
          (directories db)) (mappings db))))"

definition ensure_not_last_admin :: "auth_db \<Rightarrow> user \<Rightarrow> auth_settings \<Rightarrow> user_error option" where
  \<comment> \<open>\<open>Some\<close> is the exception\<close>
  "ensure_not_last_admin db u settings =
     (if user_role u \<noteq> ADMIN \<or> \<not> is_active u then None
      else let local_enabled = local_login_enabled settings; options = connect_opts settings;
               raise_if = (\<lambda>remaining. if remaining = 0 then Some LastAdminError else None)
        in if realm_key u = LOCAL_REALM then
             if \<not> local_enabled then None
             else raise_if (count_local_admins db (Some (user_id u)) +
                            count_admin_directories db options None)
           else if directory_id u = None \<or>
                   count_admin_directories db options None
                     = count_admin_directories db options (directory_id u) then None
           else raise_if ((if local_enabled then count_local_admins db None else 0) +
                          count_admin_directories db options (directory_id u)))"

definition admin_change_guard ::
  "(auth_db \<Rightarrow> 'e + 'a \<times> auth_db) \<Rightarrow> auth_db \<Rightarrow> ('e + 'a) \<times> auth_db" where
  \<comment> \<open>commit at the end of the block, roll back on an exception\<close>
  "admin_change_guard block db =
     (case block db of Inl e \<Rightarrow> (Inl e, db) | Inr (a, db') \<Rightarrow> (Inr a, db'))"

subsection \<open>Creating users and changing passwords\<close>

definition create_local_user ::
  "(string \<Rightarrow> string) \<Rightarrow> (string \<Rightarrow> string) \<Rightarrow> (string \<Rightarrow> string) \<Rightarrow> (auth_db \<Rightarrow> auth_db) \<Rightarrow> auth_db \<Rightarrow>
   string \<Rightarrow> string \<Rightarrow> role \<Rightarrow> nat \<Rightarrow> string option \<Rightarrow> string option \<Rightarrow> instant \<Rightarrow> uuid \<Rightarrow>
   user_error + user \<times> auth_db" where
  \<comment> \<open>\<open>env\<close> is what other requests commit while the password is hashed\<close>
  "create_local_user nfkc casefold hash env db uname password role min_length dname mail now uid =
     (case normalize_username nfkc casefold uname of Inl e \<Rightarrow> Inl e | Inr name \<Rightarrow>
      (case normalize_optional_text dname DISPLAY_NAME_MAX_LENGTH ''display_name'' of Inl e \<Rightarrow> Inl e
       | Inr dname \<Rightarrow>
      (case normalize_optional_text mail EMAIL_MAX_LENGTH ''email'' of Inl e \<Rightarrow> Inl e | Inr mail \<Rightarrow>
      (case validate_password_policy password min_length of Some e \<Rightarrow> Inl e | None \<Rightarrow>
      (case get_local_user nfkc casefold db name of Inl e \<Rightarrow> Inl e
       | Inr (Some _) \<Rightarrow> Inl DuplicateUserError
       | Inr None \<Rightarrow>
         let u = \<lparr>user_id = uid, realm_key = LOCAL_REALM, subject = casefold name, username = name,
                  display_name = dname, email = mail, directory_id = None,
                  password_hash = Some (hash password), user_role = role, is_active = True,
                  failed_login_count = 0, locked_until = None, password_changed_at = Some now,
                  last_login_at = None, user_created_at = now, user_updated_at = now\<rparr>;
             db = env db
         in if user_with_subject db LOCAL_REALM (casefold name) \<noteq> None \<or> uid \<in> user_id ` set (users db)
            then Inl DuplicateUserError \<comment> \<open>the \<open>IntegrityError\<close> of the flush\<close>
            else Inr (u, db\<lparr>users := users db @ [u]\<rparr>))))))"

definition update_users :: "(user \<Rightarrow> bool) \<Rightarrow> (user \<Rightarrow> user) \<Rightarrow> auth_db \<Rightarrow> auth_db \<times> nat" where
  "update_users p f db = (let (us, n) = update_where p f (users db) in (db\<lparr>users := us\<rparr>, n))"

definition set_marker :: "uuid \<Rightarrow> uuid \<Rightarrow> string option \<Rightarrow> auth_db \<Rightarrow> auth_db" where
  "set_marker sid uid marker db =
     db\<lparr>sessions := fst (update_where (\<lambda>s. session_id s = sid \<and> session_user s = uid)
        (\<lambda>s. s\<lparr>session_marker := marker\<rparr>) (sessions db))\<rparr>"

definition set_local_password ::
  "(string \<Rightarrow> string) \<Rightarrow> (auth_db \<Rightarrow> auth_db) \<Rightarrow> auth_db \<Rightarrow> user \<Rightarrow> string \<Rightarrow> nat \<Rightarrow> uuid option \<Rightarrow>
   string option \<Rightarrow> instant \<Rightarrow> user_error + user \<times> auth_db" where
  "set_local_password hash env db u password min_length keep_session_id expected_hash now =
     (if realm_key u \<noteq> LOCAL_REALM then Inl (UserError ''directory'')
      else case validate_password_policy password min_length of Some e \<Rightarrow> Inl e | None \<Rightarrow>
        let apply_values = (\<lambda>x. x\<lparr>password_hash := Some (hash password), password_changed_at := Some now,
                              failed_login_count := 0, locked_until := None\<rparr>);
            (db, n) = update_users (\<lambda>x. user_id x = user_id u \<and>
               (case expected_hash of None \<Rightarrow> True | Some h \<Rightarrow> password_hash x = Some h))
               apply_values (env db)
        in if n = 0 then Inl PasswordChangedConcurrentlyError
           else let u = apply_values u;
                    db = revoke_all_for_user db (user_id u) keep_session_id
             in Inr (u, case keep_session_id of None \<Rightarrow> db
                        | Some keep \<Rightarrow> set_marker keep (user_id u) (credential_marker u) db))"

definition unlock_user :: "user \<Rightarrow> user" where
  "unlock_user u = u\<lparr>failed_login_count := 0, locked_until := None\<rparr>"

subsection \<open>What the input checks accept\<close>

lemma validate_password_policy_None:
  "validate_password_policy p n = None \<longleftrightarrow>
     n \<le> length p \<and> length p \<le> 256 \<and> py_strip p = p \<and> p \<noteq> [] \<and> \<not> has_control p"
  by (auto simp: validate_password_policy_def length_limits)

lemma normalize_username_Inr:
  "normalize_username nfkc cf name = Inr v \<longleftrightarrow>
     v = py_strip (nfkc name) \<and> v \<noteq> [] \<and> length v \<le> 256 \<and> \<not> has_control v \<and> length (cf v) \<le> 512"
  by (auto simp: normalize_username_def Let_def length_limits)

lemma normalize_optional_text_Inr:
  assumes "normalize_optional_text value n label = Inr r"
  shows "case r of None \<Rightarrow> (\<forall>v. value = Some v \<longrightarrow> py_strip v = [])
     | Some t \<Rightarrow> t \<noteq> [] \<and> length t \<le> n \<and> \<not> has_control t"
  using assms by (auto simp: normalize_optional_text_def Let_def split: option.splits if_splits)

lemma directory_subject_key_inject:
  assumes "\<And>x y. sha x = sha y \<Longrightarrow> x = y"
    and "\<not> startswith x ''sha256:''" "\<not> startswith y ''sha256:''"
  shows "directory_subject_key sha x = directory_subject_key sha y \<longleftrightarrow> x = y"
  unfolding directory_subject_key_def by (metis assms startswith_append same_append_eq)

lemma user_with_subject_Some:
  "user_with_subject db r s = Some u \<Longrightarrow> u \<in> set (users db) \<and> realm_key u = r \<and> subject u = s"
  unfolding user_with_subject_def by (auto dest: find_Some_iff_in)

lemma user_with_subject_None:
  "user_with_subject db r s = None \<longleftrightarrow> (\<forall>u\<in>set (users db). \<not> (realm_key u = r \<and> subject u = s))"
  by (auto simp: user_with_subject_def find_None_iff)

subsection \<open>Creating a user\<close>

lemma db_ok_new_user:
  assumes "db_ok db" "user_id u \<notin> user_id ` set (users db)"
    "user_with_subject db (realm_key u) (subject u) = None"
  shows "db_ok (db\<lparr>users := users db @ [u]\<rparr>)"
  using assms by (auto simp: db_ok_def user_with_subject_None)

text \<open>when \<open>create_local_user\<close> succeeds, the row it stores has a name and optional fields that
  fit their columns, without control characters, a password within the policy, is active, unlocked
  and of the requested role, and the table keeps its unique keys, also when another request created
  a user of the same name while the password was being hashed.\<close>

theorem create_local_user_ok:
  assumes res: "create_local_user nfkc cf hash env db uname pw r n dname mail now uid = Inr (u, db')"
    and ok: "db_ok (env db)"
  shows "db_ok db' \<and> users db' = users (env db) @ [u] \<and> sessions db' = sessions (env db) \<and>
    user_with_subject db' LOCAL_REALM (subject u) = Some u \<and>
    username u = py_strip (nfkc uname) \<and> subject u = cf (username u) \<and>
    length (username u) \<le> 256 \<and> length (subject u) \<le> 512 \<and> \<not> has_control (username u) \<and>
    (\<forall>d. display_name u = Some d \<longrightarrow> d \<noteq> [] \<and> length d \<le> 256) \<and>
    (\<forall>e. email u = Some e \<longrightarrow> e \<noteq> [] \<and> length e \<le> 320) \<and>
    n \<le> length pw \<and> length pw \<le> 256 \<and> password_hash u = Some (hash pw) \<and>
    user_role u = r \<and> is_active u \<and> locked_until u = None \<and> failed_login_count u = 0"
proof -
  from res obtain v d e where
    v: "normalize_username nfkc cf uname = Inr v" and
    d: "normalize_optional_text dname DISPLAY_NAME_MAX_LENGTH ''display_name'' = Inr d" and
    e: "normalize_optional_text mail EMAIL_MAX_LENGTH ''email'' = Inr e" and
    pw: "validate_password_policy pw n = None" and
    free: "user_with_subject (env db) LOCAL_REALM (cf v) = None" and
    fresh: "uid \<notin> user_id ` set (users (env db))" and
    u: "u = \<lparr>user_id = uid, realm_key = LOCAL_REALM, subject = cf v, username = v,
             display_name = d, email = e, directory_id = None,
             password_hash = Some (hash pw), user_role = r, is_active = True,
             failed_login_count = 0, locked_until = None, password_changed_at = Some now,
             last_login_at = None, user_created_at = now, user_updated_at = now\<rparr>" and
    db': "db' = (env db)\<lparr>users := users (env db) @ [u]\<rparr>"
    unfolding create_local_user_def Let_def
    by (fastforce split: sum.splits option.splits if_splits)
  have "db_ok db'" unfolding db' by (rule db_ok_new_user) (use ok fresh free u in auto)
  moreover have "user_with_subject db' LOCAL_REALM (cf v) = Some u"
    using free by (simp add: db' u user_with_subject_def find_append)
  moreover note normalize_username_Inr [THEN iffD1, OF v] validate_password_policy_None [THEN iffD1, OF pw]
    normalize_optional_text_Inr [OF d] normalize_optional_text_Inr [OF e]
  ultimately show ?thesis by (auto simp: db' u length_limits)
qed

subsection \<open>Changing a password\<close>

lemma users_update_users [simp]: "users (fst (update_users p f db)) = map (\<lambda>u. if p u then f u else u) (users db)"
  by (simp add: update_users_def update_where_def)

lemma others_update_users [simp]:
  "sessions (fst (update_users p f db)) = sessions db" "directories (fst (update_users p f db)) = directories db"
  "mappings (fst (update_users p f db)) = mappings db"
  by (simp_all add: update_users_def update_where_def)

lemma update_users_0 [table_simps]: "snd (update_users p f db) = 0 \<longleftrightarrow> (\<forall>u\<in>set (users db). \<not> p u)"
  by (auto simp: update_users_def update_where_def filter_empty_conv)

lemma get_user_update:
  assumes "\<And>u. user_id (f u) = user_id u"
  shows "get_user (fst (update_users p f db)) i = map_option (\<lambda>u. if p u then f u else u) (get_user db i)"
  unfolding get_user_def using assms by (simp add: find_map_if)

definition password_values :: "(string \<Rightarrow> string) \<Rightarrow> string \<Rightarrow> instant \<Rightarrow> user \<Rightarrow> user" where
  "password_values hash pw now x = x\<lparr>password_hash := Some (hash pw), password_changed_at := Some now,
     failed_login_count := 0, locked_until := None\<rparr>"

lemma password_values_simps [simp]:
  "user_id (password_values hash pw now x) = user_id x" "realm_key (password_values hash pw now x) = realm_key x"
  "subject (password_values hash pw now x) = subject x" "user_role (password_values hash pw now x) = user_role x"
  "is_active (password_values hash pw now x) = is_active x"
  "password_hash (password_values hash pw now x) = Some (hash pw)"
  "locked_until (password_values hash pw now x) = None" "failed_login_count (password_values hash pw now x) = 0"
  by (simp_all add: password_values_def)

lemma set_local_password_Inr:
  assumes "set_local_password hash env db u pw n keep expected now = Inr (u', db')"
  shows "realm_key u = LOCAL_REALM \<and> validate_password_policy pw n = None \<and>
    u' = password_values hash pw now u \<and>
    (\<exists>x\<in>set (users (env db)). user_id x = user_id u \<and>
       (case expected of None \<Rightarrow> True | Some h \<Rightarrow> password_hash x = Some h)) \<and>
    users db' = map (\<lambda>x. if user_id x = user_id u \<and>
       (case expected of None \<Rightarrow> True | Some h \<Rightarrow> password_hash x = Some h)
       then password_values hash pw now x else x) (users (env db)) \<and>
    directories db' = directories (env db) \<and>
    sessions db' = map (\<lambda>s. if keep = Some (session_id s) \<and> session_user s = user_id u
         then s\<lparr>session_marker := credential_marker u'\<rparr> else s)
      (filter (\<lambda>s. session_user s = user_id u \<longrightarrow> keep = Some (session_id s)) (sessions (env db)))"
proof -
  let ?p = "\<lambda>x. user_id x = user_id u \<and> (case expected of None \<Rightarrow> True | Some h \<Rightarrow> password_hash x = Some h)"
  obtain db1 k where up: "update_users ?p (password_values hash pw now) (env db) = (db1, k)"
    by (cases "update_users ?p (password_values hash pw now) (env db)")
  have r: "realm_key u = LOCAL_REALM" using assms unfolding set_local_password_def
    by (rule contrapos_pp) simp
  have v: "validate_password_policy pw n = None" using assms r unfolding set_local_password_def
    by (cases "validate_password_policy pw n") simp_all
  have f: "(\<lambda>x. x\<lparr>password_hash := Some (hash pw), password_changed_at := Some now,
      failed_login_count := 0, locked_until := None\<rparr>) = password_values hash pw now"
    by (rule ext) (simp add: password_values_def)
  have eq: "set_local_password hash env db u pw n keep expected now = (if k = 0 then Inl PasswordChangedConcurrentlyError
      else Inr (password_values hash pw now u, case keep of None \<Rightarrow> revoke_all_for_user db1 (user_id u) keep
        | Some i \<Rightarrow> set_marker i (user_id u) (credential_marker (password_values hash pw now u))
            (revoke_all_for_user db1 (user_id u) keep)))"
    unfolding set_local_password_def f Let_def by (cases "k = 0"; cases keep) (simp_all add: r v up)
  from eq [symmetric, unfolded assms] have k: "k \<noteq> 0" and u': "u' = password_values hash pw now u"
    and db': "db' = (case keep of None \<Rightarrow> revoke_all_for_user db1 (user_id u) keep
        | Some i \<Rightarrow> set_marker i (user_id u) (credential_marker u') (revoke_all_for_user db1 (user_id u) keep))"
    by (auto split: if_splits option.splits)
  note 1 = r v k u'
  have 2: "\<exists>x\<in>set (users (env db)). ?p x"
    using update_users_0 [of ?p "password_values hash pw now" "env db"] up 1(3) by auto
  have 3: "users db1 = map (\<lambda>x. if ?p x then password_values hash pw now x else x) (users (env db))"
    "sessions db1 = sessions (env db)" "directories db1 = directories (env db)"
    using users_update_users [of ?p "password_values hash pw now" "env db"]
      others_update_users [of ?p "password_values hash pw now" "env db"] up by auto
  have "sessions db' = map (\<lambda>s. if keep = Some (session_id s) \<and> session_user s = user_id u
         then s\<lparr>session_marker := credential_marker u'\<rparr> else s)
      (filter (\<lambda>s. session_user s = user_id u \<longrightarrow> keep = Some (session_id s)) (sessions (env db)))"
  proof (cases keep)
    case None
    then show ?thesis by (simp add: db' revoke_all_for_user_def 3 map_idI)
  next
    case (Some i)
    have "filter (\<lambda>s. \<not> (session_user s = user_id u \<and> session_id s \<noteq> i)) (sessions (env db))
        = filter (\<lambda>s. session_user s = user_id u \<longrightarrow> i = session_id s) (sessions (env db))"
      by (rule filter_cong) auto
    then have "sessions (revoke_all_for_user db1 (user_id u) keep)
        = filter (\<lambda>s. session_user s = user_id u \<longrightarrow> i = session_id s) (sessions (env db))"
      by (simp add: revoke_all_for_user_def Some 3)
    then show ?thesis by (simp add: db' Some set_marker_def eq_commute [of i])
  qed
  moreover have "users db' = users db1" "directories db' = directories db1"
    by (auto simp: db' revoke_all_for_user_def set_marker_def split: option.splits)
  ultimately show ?thesis using 1 2 3 by simp
qed

lemma set_local_password_kept:
  assumes "set_local_password hash env db u pw n keep expected now = Inr (u', db')"
    and "s' \<in> set (sessions db')" "session_user s' = user_id u"
  shows "keep = Some (session_id s') \<and> session_marker s' = credential_marker u'"
  using set_local_password_Inr [OF assms(1)] assms(2,3) by auto

lemma set_local_password_row:
  assumes "set_local_password hash env db u pw n keep (Some h) now = Inr (u', db')"
    and "v \<in> set (users db')" "user_id v = user_id u" "distinct (map user_id (users (env db)))"
  shows "credential_marker v = credential_marker u'"
proof -
  have u': "u' = password_values hash pw now u" and ex: "\<exists>x\<in>set (users (env db)). user_id x = user_id u \<and> password_hash x = Some h"
    and rows: "users db' = map (\<lambda>x. if user_id x = user_id u \<and> password_hash x = Some h
       then password_values hash pw now x else x) (users (env db))"
    using set_local_password_Inr [OF assms(1)] by simp_all
  from assms(2) rows obtain y where y: "y \<in> set (users (env db))"
    "v = (if user_id y = user_id u \<and> password_hash y = Some h then password_values hash pw now y else y)" by auto
  with assms(3) have "user_id y = user_id u" by (auto split: if_splits)
  with y ex assms(4) have "password_hash y = Some h" by (metis distinct_map inj_on_def)
  with \<open>user_id y = user_id u\<close> y(2) u' show ?thesis by (simp add: password_values_def credential_marker_def)
qed

text \<open>after a successful password change every session of the user is deleted except the one
  that made the change, that one carries the new password generation and so keeps working, sessions
  of other users are untouched, and the account is unlocked.\<close>

theorem set_local_password_sessions:
  assumes res: "set_local_password hash env db u pw n keep expected now = Inr (u', db')"
  shows "(\<forall>s'\<in>set (sessions db'). session_user s' = user_id u \<longrightarrow>
            keep = Some (session_id s') \<and> session_marker s' = credential_marker u') \<and>
         (\<forall>s\<in>set (sessions (env db)). session_user s \<noteq> user_id u \<longrightarrow> s \<in> set (sessions db')) \<and>
         (\<exists>x\<in>set (users db'). user_id x = user_id u \<and> credential_marker x = credential_marker u' \<and>
            password_hash x = Some (hash pw) \<and> locked_until x = None \<and> failed_login_count x = 0)"
proof -
  note facts = set_local_password_Inr [OF res]
  then obtain x where x: "x \<in> set (users (env db))" "user_id x = user_id u"
    "case expected of None \<Rightarrow> True | Some h \<Rightarrow> password_hash x = Some h" by blast
  have row: "password_values hash pw now x \<in> set (users db')"
    using facts x by auto
  have marker: "credential_marker (password_values hash pw now x) = credential_marker u'"
    using facts by (simp add: password_values_def credential_marker_def)
  have 1: "\<forall>s'\<in>set (sessions db'). session_user s' = user_id u \<longrightarrow>
            keep = Some (session_id s') \<and> session_marker s' = credential_marker u'"
    using set_local_password_kept [OF res] by blast
  have 2: "\<forall>s\<in>set (sessions (env db)). session_user s \<noteq> user_id u \<longrightarrow> s \<in> set (sessions db')"
    using facts by force
  have 3: "\<exists>x\<in>set (users db'). user_id x = user_id u \<and> credential_marker x = credential_marker u' \<and>
            password_hash x = Some (hash pw) \<and> locked_until x = None \<and> failed_login_count x = 0"
    using row marker x(2) by (intro bexI [of _ "password_values hash pw now x"]) simp_all
  from 1 2 3 show ?thesis by blast
qed

text \<open>a password change that was checked against the current password is a compare-and-set: if
  another change committed while the new password was hashed, it fails with
  \<open>PasswordChangedConcurrentlyError\<close> and stores nothing.\<close>

theorem set_local_password_compare_and_set:
  assumes "realm_key u = LOCAL_REALM" "validate_password_policy pw n = None"
  shows "set_local_password hash env db u pw n keep (Some h) now = Inl PasswordChangedConcurrentlyError
     \<longleftrightarrow> (\<forall>x\<in>set (users (env db)). user_id x = user_id u \<longrightarrow> password_hash x \<noteq> Some h)"
proof -
  let ?p = "\<lambda>x. user_id x = user_id u \<and> password_hash x = Some h"
  let ?f = "\<lambda>x. x\<lparr>password_hash := Some (hash pw), password_changed_at := Some now,
              failed_login_count := 0, locked_until := None\<rparr>"
  obtain db1 k where up: "update_users ?p ?f (env db) = (db1, k)" by (cases "update_users ?p ?f (env db)")
  have "set_local_password hash env db u pw n keep (Some h) now = Inl PasswordChangedConcurrentlyError \<longleftrightarrow> k = 0"
    unfolding set_local_password_def using assms up by (simp add: Let_def)
  also have "\<dots> \<longleftrightarrow> (\<forall>x\<in>set (users (env db)). \<not> ?p x)"
    using update_users_0 [of ?p ?f "env db"] up by simp
  finally show ?thesis by auto
qed

subsection \<open>Examples\<close>

lemma sample_password_change:
  "\<exists>r. set_local_password (\<lambda>x. x) (\<lambda>d. d) sample_db sample_user ''new-secret-1'' 12 (Some 7) (Some ''h'') 9 = Inr r"
  by (simp add: set_local_password_def sample_defs LOCAL_REALM_def validate_password_policy_def
      PASSWORD_MAX_LENGTH_def py_strip_def rstrip_by_def lstrip_by_def py_isspace_char_def code_def has_control_def
      is_control_char_def update_users_def update_where_def Let_def)

theorem set_local_password_sessions_witness:
  "\<exists>u' db'. set_local_password (\<lambda>x. x) (\<lambda>d. d) sample_db sample_user ''new-secret-1'' 12 (Some 7) (Some ''h'') 9 = Inr (u', db') \<and>
     (\<exists>x\<in>set (users db'). password_hash x = Some ''new-secret-1'')"
proof -
  obtain u' db' where r: "set_local_password (\<lambda>x. x) (\<lambda>d. d) sample_db sample_user ''new-secret-1'' 12 (Some 7) (Some ''h'') 9
      = Inr (u', db')" using sample_password_change by auto
  from set_local_password_sessions [OF r] r show ?thesis by blast
qed

theorem set_local_password_compare_and_set_witness:
  "set_local_password (\<lambda>x. x) (\<lambda>d. d\<lparr>users := []\<rparr>) sample_db sample_user ''new-secret-1'' 12 (Some 7) (Some ''h'') 9
     = Inl PasswordChangedConcurrentlyError"
proof -
  have "realm_key sample_user = LOCAL_REALM" by (simp add: sample_user_def LOCAL_REALM_def)
  moreover have "validate_password_policy ''new-secret-1'' 12 = None" by code_simp
  ultimately show ?thesis by (subst set_local_password_compare_and_set) simp_all
qed

theorem create_local_user_ok_witness:
  "\<exists>u db'. create_local_user (\<lambda>x. x) py_lower (\<lambda>x. x) (\<lambda>d. d) sample_db '' Ann '' ''new-secret-1'' OPERATOR 12 None None 9 2
     = Inr (u, db') \<and> username u = ''Ann''"
proof -
  have "\<not> isl (create_local_user (\<lambda>x. x) py_lower (\<lambda>x. x) (\<lambda>d. d) sample_db '' Ann '' ''new-secret-1'' OPERATOR 12 None None 9 2)"
    unfolding sample_defs by code_simp
  then obtain u db' where r: "create_local_user (\<lambda>x. x) py_lower (\<lambda>x. x) (\<lambda>d. d) sample_db '' Ann '' ''new-secret-1'' OPERATOR 12 None None 9 2
     = Inr (u, db')" by (metis isl_def sum.exhaust surj_pair)
  have ok: "db_ok sample_db" by (simp add: db_ok_def sample_defs)
  have "py_strip '' Ann '' = ''Ann''" by code_simp
  with create_local_user_ok [OF r ok] r show ?thesis by auto
qed

end
