(* ===== verification/Pyuuid.thy ===== *)
theory Pyuuid
  imports AuthDb
begin

section \<open>UUIDs as text\<close>

text \<open>
  \<open>str(uuid)\<close> and \<open>uuid.UUID(text)\<close> of the standard library, on the number a UUID is. The parser
  accepts what Python's does: a URN prefix, braces, hyphens anywhere, and the 32 characters that
  remain as \<open>int(..., 16)\<close> reads them.
\<close>

definition hex_char :: "nat \<Rightarrow> char" where
  "hex_char n = (if n < 10 then char_of (48 + n) else char_of (87 + n))"

definition hex_val :: "char \<Rightarrow> nat option" where
  "hex_val c = (let n = code c in
     if 48 \<le> n \<and> n \<le> 57 then Some (n - 48)
     else if 97 \<le> n \<and> n \<le> 102 then Some (n - 87)
     else if 65 \<le> n \<and> n \<le> 70 then Some (n - 55) else None)"

primrec hex_digits :: "nat \<Rightarrow> nat \<Rightarrow> string" where
  "hex_digits 0 n = []"
| "hex_digits (Suc w) n = hex_digits w (n div 16) @ [hex_char (n mod 16)]"

definition uuid_str :: "uuid \<Rightarrow> string" where
  "uuid_str n = (let h = hex_digits 32 n in
     take 8 h @ ''-'' @ take 4 (drop 8 h) @ ''-'' @ take 4 (drop 12 h) @ ''-'' @
     take 4 (drop 16 h) @ ''-'' @ drop 20 h)"

fun hex_groups :: "string \<Rightarrow> bool \<Rightarrow> nat \<Rightarrow> nat option" where
  \<comment> \<open>digits with single underscores between them\<close>
  "hex_groups [] after_digit acc = (if after_digit then Some acc else None)"
| "hex_groups (c # s) after_digit acc =
     (if c = CHR ''_'' then (if after_digit then hex_groups s False acc else None)
      else case hex_val c of None \<Rightarrow> None | Some v \<Rightarrow> hex_groups s True (16 * acc + v))"

definition int_base16 :: "string \<Rightarrow> int option" where
  "int_base16 s =
     (let s = py_strip s;
          neg = startswith s ''-'';
          s = (if neg \<or> startswith s ''+'' then tl s else s);
          prefixed = startswith s ''0x'' \<or> startswith s ''0X'';
          body = (if prefixed then drop 2 s else s)
      in if body = [] then None
         else case hex_groups body prefixed 0 of None \<Rightarrow> None
           | Some n \<Rightarrow> Some (if neg then - int n else int n))"

definition uuid_parse :: "string \<Rightarrow> uuid option" where
  \<comment> \<open>\<open>None\<close> is \<open>ValueError\<close>\<close>
  "uuid_parse text =
     (let hex = py_replace ''-'' '''' (strip_chars ''{}'' (py_replace ''uuid:'' '''' (py_replace ''urn:'' '''' text)))
      in if length hex \<noteq> 32 then None
         else case int_base16 hex of None \<Rightarrow> None
           | Some i \<Rightarrow> if 0 \<le> i \<and> i < 2 ^ 128 then Some (nat i) else None)"

lemma length_hex_digits [simp]: "length (hex_digits w n) = w"
  by (induction w arbitrary: n) auto

lemma hex_val_hex_char [simp]: "n < 16 \<Longrightarrow> hex_val (hex_char n) = Some n"
  by (simp add: hex_val_def hex_char_def code_def Let_def)

lemma hex_char_inject: "m < 16 \<Longrightarrow> n < 16 \<Longrightarrow> hex_char m = hex_char n \<Longrightarrow> m = n"
  by (metis hex_val_hex_char option.inject)

lemma hex_digits_inject:
  "m < 16 ^ w \<Longrightarrow> n < 16 ^ w \<Longrightarrow> hex_digits w m = hex_digits w n \<Longrightarrow> m = n"
proof (induction w arbitrary: m n)
  case (Suc w)
  have "m div 16 < 16 ^ w" "n div 16 < 16 ^ w" using Suc.prems(1,2) by auto
  with Suc have "m div 16 = n div 16" by simp
  moreover have "m mod 16 = n mod 16" using Suc.prems(3) by (auto intro!: hex_char_inject)
  ultimately show ?case by (metis div_mult_mod_eq)
qed simp

lemma length_uuid_str [simp]: "length (uuid_str n) = 36"
  by (simp add: uuid_str_def Let_def)

lemma uuid_str_inject:
  assumes "m < 2 ^ 128" "n < 2 ^ 128" "uuid_str m = uuid_str n"
  shows "m = n"
proof -
  have split: "hex_digits 32 k = take 8 (uuid_str k) @ take 4 (drop 9 (uuid_str k)) @
      take 4 (drop 14 (uuid_str k)) @ take 4 (drop 19 (uuid_str k)) @ drop 24 (uuid_str k)" for k
  proof -
    define h where "h = hex_digits 32 k"
    have l: "length h = 32" by (simp add: h_def)
    have "h = take 8 h @ take 4 (drop 8 h) @ take 4 (drop 12 h) @ take 4 (drop 16 h) @ drop 20 h"
      using append_take_drop_id [of 8 h] append_take_drop_id [of 4 "drop 8 h"]
        append_take_drop_id [of 4 "drop 12 h"] append_take_drop_id [of 4 "drop 16 h"] by simp
    then show ?thesis unfolding uuid_str_def Let_def h_def [symmetric] using l by simp
  qed
  have p: "(16::nat) ^ 32 = 2 ^ 128" by simp
  show ?thesis by (rule hex_digits_inject [of _ 32]) (use assms p split in auto)
qed

lemma uuid_str_no_colon:
  "CHR '':'' \<notin> set (uuid_str n)"
proof -
  have "CHR '':'' \<notin> set (hex_digits w k)" for w k
    by (induction w arbitrary: k) (auto simp: hex_char_def code_def of_char_eq_iff split: if_splits
        dest!: arg_cong [where f = "of_char :: char \<Rightarrow> nat"])
  then show ?thesis by (auto simp: uuid_str_def Let_def dest: in_set_takeD in_set_dropD)
qed

end
