(* ===== verification/AuthDeps.thy ===== *)
theory AuthDeps
  imports Users Pyuuid
begin

section \<open>Who makes a request (api/auth\_deps.py, auth/principal\_header.py, auth/csrf.py)\<close>

text \<open>
  The dependencies that run before a route: the CSRF check of the middleware, the resolution of the
  session cookie to a principal, the role check, and the header that tells the client who was served.
  A request carries its headers as the server lower-cased them. An HTTP error is its status and a
  label for its \<open>detail\<close>.
\<close>

datatype http_error = HttpError nat string

record request =
  req_method :: string
  req_path :: string
  req_headers :: "(string \<times> string) list"
  req_cookies :: "(string, string) dict"
  req_query :: "(string, string) dict"
  req_client :: "string option"

definition header_get :: "request \<Rightarrow> string \<Rightarrow> string option" where
  "header_get req name = map_of (req_headers req) name"

record principal =
  pr_username :: string
  pr_role :: role
  pr_realm :: string
  pr_user_id :: "uuid option"
  pr_display_name :: "string option"
  pr_session_id :: "uuid option"

record request_state =
  vea_principal_id :: "string option"
  vea_session_touched :: bool

definition AUTH_DISABLED_SOURCE :: string where "AUTH_DISABLED_SOURCE = ''disabled''"

definition auth_disabled :: "principal \<Rightarrow> bool" where
  "auth_disabled p = (pr_realm p = AUTH_DISABLED_SOURCE)"

definition principal_owner_key :: "principal \<Rightarrow> string" where
  "principal_owner_key p =
     (case pr_user_id p of Some i \<Rightarrow> ''user:'' @ uuid_str i
      | None \<Rightarrow> pr_realm p @ '':'' @ pr_username p)"

definition DISABLED_PRINCIPAL :: principal where
  "DISABLED_PRINCIPAL = \<lparr>pr_username = ''anonymous'', pr_role = ADMIN, pr_realm = AUTH_DISABLED_SOURCE,
     pr_user_id = None, pr_display_name = None, pr_session_id = None\<rparr>"

definition session_cookie_name :: "auth_settings \<Rightarrow> string" where
  "session_cookie_name settings =
     (if session_cookie_secure settings then ''__Host-vea_session'' else ''vea_session'')"

definition policy_of_settings :: "auth_settings \<Rightarrow> session_policy" where
  \<comment> \<open>\<open>session_policy\<close> of auth/service.py\<close>
  "policy_of_settings settings =
     \<lparr>idle_timeout = minutes (session_idle_timeout_minutes settings),
      absolute_timeout = hours (session_absolute_timeout_hours settings),
      directory_options = Some (connect_opts settings)\<rparr>"

definition principal_marker :: "uuid \<Rightarrow> uuid \<Rightarrow> string" where
  "principal_marker uid sid = uuid_str uid @ '':'' @ uuid_str sid"

definition expected_principal :: "request \<Rightarrow> string option" where
  \<comment> \<open>the header, or the query parameter where the header is absent or empty\<close>
  "expected_principal req =
     (case header_get req ''x-vea-expected-principal'' of
        Some h \<Rightarrow> if h \<noteq> '''' then Some h else map_of (req_query req) ''vea_expected_principal''
      | None \<Rightarrow> map_of (req_query req) ''vea_expected_principal'')"

definition refuse_if_principal_switched ::
  "request \<Rightarrow> string \<Rightarrow> request_state \<Rightarrow> request_state \<times> (http_error + unit)" where
  "refuse_if_principal_switched req marker st =
     (st\<lparr>vea_principal_id := Some marker\<rparr>,
      case expected_principal req of None \<Rightarrow> Inr ()
      | Some e \<Rightarrow> raise_when (e \<noteq> '''' \<and> e \<noteq> marker) (HttpError 409 ''principal_switched''))"

definition resolve_request_principal ::
  "(nat \<Rightarrow> auth_db \<Rightarrow> auth_db) \<Rightarrow> (string \<Rightarrow> string) \<Rightarrow> request \<Rightarrow> auth_db \<Rightarrow> auth_settings \<Rightarrow> instant \<Rightarrow> bool \<Rightarrow>
   auth_db \<times> request_state \<times> (http_error + principal)" where
  \<comment> \<open>the database is the one committed, also when an error follows\<close>
  "resolve_request_principal env sha req db settings now touch =
     (let st = \<lparr>vea_principal_id = None, vea_session_touched = False\<rparr>
      in if \<not> auth_enabled settings then (db, st, Inr DISABLED_PRINCIPAL)
         else case resolve_session env sha db (map_of (req_cookies req) (session_cookie_name settings))
                     (policy_of_settings settings) now touch of
           (db, None) \<Rightarrow> (db, st, Inl (HttpError 401 ''login''))
         | (db, Some r) \<Rightarrow>
             let u = resolved_user r; sid = session_id (resolved_session r);
                 st = (if touched r then st\<lparr>vea_session_touched := True\<rparr> else st);
                 (st, check) = refuse_if_principal_switched req (principal_marker (user_id u) sid) st
             in (db, st, and_then check (\<lambda>_.
                  Inr \<lparr>pr_username = username u, pr_role = user_role u, pr_realm = realm_key u,
                       pr_user_id = Some (user_id u), pr_display_name = display_name u,
                       pr_session_id = Some sid\<rparr>)))"

definition get_current_principal ::
  "(nat \<Rightarrow> auth_db \<Rightarrow> auth_db) \<Rightarrow> (string \<Rightarrow> string) \<Rightarrow> request \<Rightarrow> auth_db \<Rightarrow> auth_settings \<Rightarrow> instant \<Rightarrow>
   auth_db \<times> request_state \<times> (http_error + principal)" where
  "get_current_principal env sha req db settings now =
     (let background = (header_get req ''x-vea-background'' = Some ''1'')
      in resolve_request_principal env sha req db settings now (\<not> background))"

definition check_principal_role :: "principal \<Rightarrow> role \<Rightarrow> http_error + unit" where
  "check_principal_role p r = raise_when (\<not> role_at_least (pr_role p) r) (HttpError 403 ''role'')"

definition require_role ::
  "role \<Rightarrow> (nat \<Rightarrow> auth_db \<Rightarrow> auth_db) \<Rightarrow> (string \<Rightarrow> string) \<Rightarrow> request \<Rightarrow> auth_db \<Rightarrow> auth_settings \<Rightarrow> instant \<Rightarrow>
   auth_db \<times> request_state \<times> (http_error + principal)" where
  "require_role r env sha req db settings now =
     (case get_current_principal env sha req db settings now of (db, st, p) \<Rightarrow>
        (db, st, and_then p (\<lambda>p. and_then (check_principal_role p r) (\<lambda>_. Inr p))))"

definition send_with_principal ::
  "request_state \<Rightarrow> (string \<times> string) list \<Rightarrow> (string \<times> string) list" where
  \<comment> \<open>the headers of the response start message\<close>
  "send_with_principal st headers =
     (case vea_principal_id st of None \<Rightarrow> headers
      | Some pid \<Rightarrow> if pid = '''' then headers
          else headers @ [(''x-vea-principal'', pid)] @
               (if vea_session_touched st then [(''x-vea-session-touched'', ''1'')] else []))"

subsection \<open>The CSRF middleware\<close>

definition UNSAFE_METHODS :: "string list" where
  "UNSAFE_METHODS = [''POST'', ''PUT'', ''PATCH'', ''DELETE'']"

definition is_scheme_char :: "char \<Rightarrow> bool" where
  "is_scheme_char c = (let n = code c in 65 \<le> n \<and> n \<le> 90 \<or> 97 \<le> n \<and> n \<le> 122 \<or> 48 \<le> n \<and> n \<le> 57
     \<or> c \<in> set ''+-.'')"

definition is_ascii_alpha :: "char \<Rightarrow> bool" where
  "is_ascii_alpha c = (let n = code c in 65 \<le> n \<and> n \<le> 90 \<or> 97 \<le> n \<and> n \<le> 122)"

definition urlsplit_netloc :: "(string \<Rightarrow> bool) \<Rightarrow> string \<Rightarrow> string option" where
  \<comment> \<open>\<open>urlsplit(url).netloc\<close>; \<open>None\<close> is \<open>ValueError\<close>; \<open>bracketed_ok\<close> is the check of an IPv6 literal\<close>
  "urlsplit_netloc bracketed_ok url =
     (let url = lstrip_by (\<lambda>c. code c \<le> 32) url;
          url = filter (\<lambda>c. code c \<notin> {9, 10, 13}) url;
          scheme = takeWhile (\<lambda>c. c \<noteq> CHR '':'') url;
          has_scheme = (length scheme < length url \<and> scheme \<noteq> [] \<and> is_ascii_alpha (hd scheme) \<and>
                        list_all is_scheme_char scheme);
          rest = (if has_scheme then drop (length scheme + 1) url else url)
      in if startswith rest ''//'' then
           let netloc = takeWhile (\<lambda>c. c \<notin> set ''/?#'') (drop 2 rest);
               opens = (CHR ''['' \<in> set netloc); closes = (CHR '']'' \<in> set netloc)
           in if opens \<noteq> closes then None
              else if opens \<and> closes \<and> \<not> bracketed_ok netloc then None
              else Some netloc
         else Some [])"

definition trusted_origins :: "string list \<Rightarrow> string set" where
  "trusted_origins origins =
     set (map (\<lambda>o'. py_lower (rstrip_by (\<lambda>c. c = CHR ''/'') o')) (filter (\<lambda>o'. py_strip o' \<noteq> []) origins))"

definition scope_headers :: "(string \<times> string) list \<Rightarrow> (string, string) dict" where
  \<comment> \<open>the dict comprehension: the last header of a name wins\<close>
  "scope_headers raw = fold (\<lambda>(k, v) d. AList.update (py_lower k) v d) raw []"

datatype csrf_result = Allowed | Violation string | Crashed

definition csrf_violation ::
  "(string \<Rightarrow> bool) \<Rightarrow> string set \<Rightarrow> (string \<times> string) list \<Rightarrow> csrf_result" where
  "csrf_violation bracketed_ok trusted raw =
     (let headers = map_of (scope_headers raw)
      in if headers ''x-requested-with'' \<noteq> Some ''XMLHttpRequest'' then Violation ''missing_header''
         else case headers ''origin'' of None \<Rightarrow> Allowed
           | Some org \<Rightarrow>
               if py_lower (rstrip_by (\<lambda>c. c = CHR ''/'') org) \<in> trusted then Allowed
               else let host = py_lower (case headers ''host'' of None \<Rightarrow> '''' | Some h \<Rightarrow> h)
                 in if host = '''' then Violation ''origin_mismatch''
                    else case urlsplit_netloc bracketed_ok org of None \<Rightarrow> Crashed
                      | Some n \<Rightarrow> if py_lower n = host then Allowed else Violation ''origin_mismatch'')"

definition csrf_middleware ::
  "(string \<Rightarrow> bool) \<Rightarrow> string set \<Rightarrow> string \<Rightarrow> request \<Rightarrow> csrf_result" where
  "csrf_middleware bracketed_ok trusted scope_type req =
     (if scope_type = ''http'' \<and> req_method req \<in> set UNSAFE_METHODS \<and>
         (req_path req = ''/api'' \<or> startswith (req_path req) ''/api/'')
      then csrf_violation bracketed_ok trusted (req_headers req) else Allowed)"

subsection \<open>Facts\<close>

lemma principal_marker_inject:
  assumes "principal_marker u s = principal_marker u' s'"
    "u < 2 ^ 128" "s < 2 ^ 128" "u' < 2 ^ 128" "s' < 2 ^ 128"
  shows "u = u' \<and> s = s'"
proof -
  from assms(1) have "uuid_str u = uuid_str u'" "uuid_str s = uuid_str s'"
    unfolding principal_marker_def by (simp_all add: append_eq_append_conv)
  with assms(2-) show ?thesis using uuid_str_inject by blast
qed

lemma resolve_request_Inr:
  assumes "resolve_request_principal env sha req db settings now touch = (db', st, Inr p)"
    and "auth_enabled settings"
  obtains r where "resolve_session env sha db (map_of (req_cookies req) (session_cookie_name settings))
        (policy_of_settings settings) now touch = (db', Some r)"
    "pr_user_id p = Some (user_id (resolved_user r))" "pr_role p = user_role (resolved_user r)"
    "pr_session_id p = Some (session_id (resolved_session r))"
    "vea_principal_id st = Some (principal_marker (user_id (resolved_user r)) (session_id (resolved_session r)))"
    "\<forall>e. expected_principal req = Some e \<longrightarrow> e \<noteq> '''' \<longrightarrow>
       e = principal_marker (user_id (resolved_user r)) (session_id (resolved_session r))"
  using assms
  by (auto simp: resolve_request_principal_def refuse_if_principal_switched_def Let_def and_then_Inr
      split: prod.splits option.splits if_splits)

text \<open>C34: a request whose client says which user and session its page shows is served only as exactly
  that user and session: if the cookie was replaced by another login in between, no route runs.\<close>

theorem served_as_expected:
  assumes run: "require_role role env sha req db settings now = (db', st, Inr p)"
    and on: "auth_enabled settings"
    and shown: "expected_principal req = Some (principal_marker uid sid)"
    and ids: "uid < 2 ^ 128" "sid < 2 ^ 128" "\<forall>i. pr_user_id p = Some i \<longrightarrow> i < 2 ^ 128"
      "\<forall>i. pr_session_id p = Some i \<longrightarrow> i < 2 ^ 128"
  shows "pr_user_id p = Some uid \<and> pr_session_id p = Some sid \<and> role \<le> pr_role p \<and>
    (\<forall>hs. (''x-vea-principal'', principal_marker uid sid) \<in> set (send_with_principal st hs))"
proof -
  obtain touch where res: "resolve_request_principal env sha req db settings now touch = (db', st, Inr p)"
    and role: "role_at_least (pr_role p) role"
    using run by (auto simp: require_role_def get_current_principal_def check_principal_role_def Let_def
        and_then_Inr split: prod.splits)
  obtain r :: resolved_session where r: "pr_user_id p = Some (user_id (resolved_user r))"
    "pr_session_id p = Some (session_id (resolved_session r))"
    and st: "vea_principal_id st = Some (principal_marker (user_id (resolved_user r)) (session_id (resolved_session r)))"
    and exp: "\<forall>e. expected_principal req = Some e \<longrightarrow> e \<noteq> '''' \<longrightarrow>
       e = principal_marker (user_id (resolved_user r)) (session_id (resolved_session r))"
    using res on by (rule resolve_request_Inr) blast
  have ne: "principal_marker uid sid \<noteq> ''''" by (simp add: principal_marker_def)
  then have eq: "principal_marker uid sid = principal_marker (user_id (resolved_user r)) (session_id (resolved_session r))"
    using exp shown by blast
  then have "uid = user_id (resolved_user r) \<and> sid = session_id (resolved_session r)"
    using ids r by (intro principal_marker_inject) auto
  with r role st ne show ?thesis
    by (auto simp: role_at_least_def send_with_principal_def less_eq_role_def)
qed

definition sample_settings :: auth_settings where
  "sample_settings = \<lparr>auth_enabled = True, local_login_enabled = True, login_max_failed_attempts = 5,
     login_lockout_minutes = 15, password_min_length = 12, session_idle_timeout_minutes = 60,
     session_absolute_timeout_hours = 12, session_cookie_secure = False,
     connect_opts = \<lparr>allow_insecure_tls = True, production = False\<rparr>\<rparr>"

definition sample_request :: request where
  "sample_request = \<lparr>req_method = ''POST'', req_path = ''/api/auth/users'',
     req_headers = [(''x-requested-with'', ''XMLHttpRequest''), (''host'', ''h:8000''),
       (''origin'', ''http://H:8000''), (''x-vea-expected-principal'', principal_marker 1 7)],
     req_cookies = [(''vea_session'', ''tok'')], req_query = [], req_client = None\<rparr>"

definition sample_principal :: principal where
  "sample_principal = \<lparr>pr_username = ''root'', pr_role = ADMIN, pr_realm = ''local'',
     pr_user_id = Some 1, pr_display_name = None, pr_session_id = Some 7\<rparr>"

lemma sample_served:
  "require_role OPERATOR alone (\<lambda>x. x) sample_request sample_db sample_settings 5 =
     (sample_db, \<lparr>vea_principal_id = Some (principal_marker 1 7), vea_session_touched = False\<rparr>,
      Inr sample_principal)"
proof -
  have ne: "principal_marker 1 7 \<noteq> ''''" by (simp add: principal_marker_def)
  have res: "resolve_session alone (\<lambda>x. x) sample_db (Some ''tok'') (policy_of_settings sample_settings) 5 True =
      (sample_db, Some \<lparr>resolved_session = sample_session, resolved_user = sample_user, touched = False\<rparr>)"
    by (simp add: resolve_session_def policy_of_settings_def sample_settings_def sample_defs
        session_with_hash_def is_expired_def timedelta_defs resolve_user_def get_user_def
        credential_marker_def directory_usable_def touch_interval_def TOUCH_INTERVAL_def half_def)
  have exp: "expected_principal sample_request = Some (principal_marker 1 7)"
    using ne by (simp add: expected_principal_def header_get_def sample_request_def)
  have bg: "header_get sample_request ''x-vea-background'' = None"
    by (simp add: header_get_def sample_request_def)
  have cookie: "map_of (req_cookies sample_request) (session_cookie_name sample_settings) = Some ''tok''"
    by (simp add: sample_request_def session_cookie_name_def sample_settings_def)
  show ?thesis
    by (simp add: require_role_def get_current_principal_def bg resolve_request_principal_def cookie res exp
        refuse_if_principal_switched_def check_principal_role_def role_at_least_le sample_principal_def
        less_eq_role_def sample_user_def sample_session_def Let_def raise_when_def)
       (simp add: sample_settings_def)
qed

theorem served_as_expected_witness:
  "pr_user_id sample_principal = Some 1 \<and> OPERATOR \<le> pr_role sample_principal"
proof -
  have "expected_principal sample_request = Some (principal_marker 1 7)"
    by (simp add: expected_principal_def header_get_def sample_request_def principal_marker_def)
  from served_as_expected [OF sample_served _ this] show ?thesis
    by (simp add: sample_settings_def sample_principal_def)
qed

text \<open>a state-changing request to the API passes the CSRF middleware only with the
  \<open>X-Requested-With\<close> header and, when it names an origin, only one that is trusted or is the host
  the request was sent to.\<close>

theorem csrf_allowed:
  assumes "csrf_middleware bracketed_ok trusted ''http'' req = Allowed"
    and "req_method req \<in> set UNSAFE_METHODS" and "startswith (req_path req) ''/api/''"
  shows "map_of (scope_headers (req_headers req)) ''x-requested-with'' = Some ''XMLHttpRequest'' \<and>
    (\<forall>org. map_of (scope_headers (req_headers req)) ''origin'' = Some org \<longrightarrow>
       py_lower (rstrip_by (\<lambda>c. c = CHR ''/'') org) \<in> trusted \<or>
       (\<exists>h n. map_of (scope_headers (req_headers req)) ''host'' = Some h \<and> h \<noteq> '''' \<and>
              urlsplit_netloc bracketed_ok org = Some n \<and> py_lower n = py_lower h))"
  using assms
  by (auto simp: csrf_middleware_def csrf_violation_def Let_def py_lower_def split: if_splits option.splits)

theorem csrf_allowed_witness:
  "map_of (scope_headers (req_headers sample_request)) ''x-requested-with'' = Some ''XMLHttpRequest''"
proof -
  have "csrf_middleware (\<lambda>_. False) {} ''http'' sample_request = Allowed"
    unfolding sample_request_def principal_marker_def by code_simp
  then show ?thesis
    using csrf_allowed [of "\<lambda>_. False" "{}" sample_request]
    by (simp add: sample_request_def UNSAFE_METHODS_def startswith_def)
qed

text \<open>an origin with an unbalanced bracket makes the middleware raise instead of answering 403: the
  exception of \<open>urlsplit\<close> is not caught.\<close>

theorem csrf_unbalanced_bracket_crashes:
  "csrf_violation bracketed_ok {} [(''X-Requested-With'', ''XMLHttpRequest''), (''Host'', ''h''),
     (''Origin'', ''http://['')] = Crashed"
  by code_simp

end
