(* ===== verification/AuthUsersApi.thy ===== *)
theory AuthUsersApi
  imports AuthDeps
begin

section \<open>User administration (api/routes/auth\_users.py)\<close>

text \<open>
  The handlers of \<open>/api/auth/users\<close> as functions of the database, each with its guards in the order
  of the code. A handler that changes who is an administrator runs inside \<open>admin_change_guard\<close>, so it
  is one atomic step; an error leaves the database as it was.
\<close>

record user_update =
  upd_role :: "role option"
  upd_is_active :: "bool option"
  upd_display_name :: "string option option"
  upd_email :: "string option option"

record user_read =
  read_id :: uuid
  read_username :: string
  read_role :: role
  read_realm :: string
  read_is_local :: bool
  read_is_active :: bool
  read_locked :: bool
  read_locked_until :: "instant option"

definition to_read :: "instant \<Rightarrow> user \<Rightarrow> user_read" where
  "to_read now u = \<lparr>read_id = user_id u, read_username = username u, read_role = user_role u,
     read_realm = realm_key u, read_is_local = (realm_key u = LOCAL_REALM), read_is_active = is_active u,
     read_locked = (case locked_until u of None \<Rightarrow> False | Some t \<Rightarrow> now < t),
     read_locked_until = locked_until u\<rparr>"

definition bad_request :: "user_error \<Rightarrow> http_error" where
  "bad_request e = HttpError 422 (case e of UserError m \<Rightarrow> m | DuplicateUserError \<Rightarrow> ''duplicate''
     | PasswordPolicyError m \<Rightarrow> m | PasswordChangedConcurrentlyError \<Rightarrow> ''changed'' | LastAdminError \<Rightarrow> ''last_admin'')"

definition conflict :: "user_error \<Rightarrow> http_error" where
  "conflict e = HttpError 409 ''last_admin''"

definition get_user_or_404 :: "auth_db \<Rightarrow> uuid \<Rightarrow> http_error + user" where
  "get_user_or_404 db uid = (case get_user db uid of None \<Rightarrow> Inl (HttpError 404 ''user'') | Some u \<Rightarrow> Inr u)"

definition put_user :: "auth_db \<Rightarrow> user \<Rightarrow> auth_db" where
  \<comment> \<open>flush the row of a loaded object\<close>
  "put_user db u = db\<lparr>users := map (\<lambda>x. if user_id x = user_id u then u else x) (users db)\<rparr>"

definition create_user where
  "create_user nfkc casefold hash env db settings uname password role dname mail now uid =
     map_error bad_request (create_local_user nfkc casefold hash env db uname password role
       (password_min_length settings) dname mail now uid)"

definition normalize_changes :: "user_update \<Rightarrow> http_error + user_update" where
  "normalize_changes changes =
     and_then (case upd_display_name changes of None \<Rightarrow> Inr None
        | Some v \<Rightarrow> map_error bad_request (map_sum id Some (normalize_optional_text v DISPLAY_NAME_MAX_LENGTH ''display_name'')))
     (\<lambda>d. and_then (case upd_email changes of None \<Rightarrow> Inr None
        | Some v \<Rightarrow> map_error bad_request (map_sum id Some (normalize_optional_text v EMAIL_MAX_LENGTH ''email'')))
     (\<lambda>e. Inr (changes\<lparr>upd_display_name := d, upd_email := e\<rparr>)))"

definition change_role ::
  "auth_settings \<Rightarrow> user_update \<Rightarrow> auth_db \<Rightarrow> user \<Rightarrow> bool \<Rightarrow> http_error + user \<times> auth_db \<times> bool" where
  "change_role settings changes db u revoke =
     (case upd_role changes of None \<Rightarrow> Inr (u, db, revoke)
      | Some r \<Rightarrow>
          if r = user_role u then Inr (u, db, revoke)
          else if realm_key u \<noteq> LOCAL_REALM then Inl (HttpError 422 ''directory_role'')
          else and_then (if r \<noteq> ADMIN then map_error conflict (raise_error (ensure_not_last_admin db u settings))
                         else Inr ())
            (\<lambda>_. let u = u\<lparr>user_role := r\<rparr> in Inr (u, put_user db u, True)))"

definition change_active ::
  "auth_settings \<Rightarrow> user_update \<Rightarrow> auth_db \<Rightarrow> user \<Rightarrow> bool \<Rightarrow> http_error + user \<times> auth_db \<times> bool" where
  "change_active settings changes db u revoke =
     (case upd_is_active changes of None \<Rightarrow> Inr (u, db, revoke)
      | Some a \<Rightarrow>
          if a = is_active u then Inr (u, db, revoke)
          else and_then (if \<not> a then map_error conflict (raise_error (ensure_not_last_admin db u settings))
                         else Inr ())
            (\<lambda>_. let u = u\<lparr>is_active := a\<rparr> in Inr (u, put_user db u, True)))"

definition change_fields :: "user_update \<Rightarrow> instant \<Rightarrow> user \<Rightarrow> user" where
  "change_fields changes now u =
     (let u = (case upd_display_name changes of None \<Rightarrow> u | Some d \<Rightarrow> u\<lparr>display_name := d\<rparr>);
          u = (case upd_email changes of None \<Rightarrow> u | Some e \<Rightarrow> u\<lparr>email := e\<rparr>)
      in u\<lparr>user_updated_at := now\<rparr>)"

definition update_user_block ::
  "auth_settings \<Rightarrow> uuid \<Rightarrow> user_update \<Rightarrow> instant \<Rightarrow> auth_db \<Rightarrow> http_error + user \<times> auth_db" where
  "update_user_block settings uid changes now db =
     and_then (get_user_or_404 db uid) (\<lambda>u.
     and_then (change_role settings changes db u False) (\<lambda>(u, db, revoke).
     and_then (change_active settings changes db u revoke) (\<lambda>(u, db, revoke).
       let u = change_fields changes now u; db = put_user db u
       in Inr (u, if revoke then revoke_all_for_user db (user_id u) None else db))))"

definition update_user ::
  "auth_db \<Rightarrow> auth_settings \<Rightarrow> uuid \<Rightarrow> user_update \<Rightarrow> instant \<Rightarrow> (http_error + user) \<times> auth_db" where
  "update_user db settings uid changes now =
     (case normalize_changes changes of Inl e \<Rightarrow> (Inl e, db)
      | Inr changes \<Rightarrow> admin_change_guard (update_user_block settings uid changes now) db)"

definition delete_user_row :: "auth_db \<Rightarrow> uuid \<Rightarrow> auth_db" where
  \<comment> \<open>the row and, by the foreign key, its sessions\<close>
  "delete_user_row db uid =
     db\<lparr>users := filter (\<lambda>u. user_id u \<noteq> uid) (users db),
        sessions := filter (\<lambda>s. session_user s \<noteq> uid) (sessions db)\<rparr>"

definition delete_user ::
  "auth_db \<Rightarrow> auth_settings \<Rightarrow> principal \<Rightarrow> uuid \<Rightarrow> (http_error + string) \<times> auth_db" where
  "delete_user db settings p uid =
     (if pr_user_id p = Some uid then (Inl (HttpError 422 ''self''), db)
      else admin_change_guard (\<lambda>db.
        and_then (get_user_or_404 db uid) (\<lambda>u.
        and_then (raise_when (realm_key u \<noteq> LOCAL_REALM) (HttpError 422 ''directory_user'')) (\<lambda>_.
        and_then (map_error conflict (raise_error (ensure_not_last_admin db u settings))) (\<lambda>_.
          Inr (username u, delete_user_row db uid))))) db)"

definition keep_own_session :: "principal \<Rightarrow> user \<Rightarrow> uuid option" where
  "keep_own_session p u = (if pr_user_id p = Some (user_id u) then pr_session_id p else None)"

definition reset_password ::
  "(string \<Rightarrow> string) \<Rightarrow> (auth_db \<Rightarrow> auth_db) \<Rightarrow> auth_db \<Rightarrow> auth_settings \<Rightarrow> principal \<Rightarrow> uuid \<Rightarrow> string \<Rightarrow>
   instant \<Rightarrow> http_error + user \<times> auth_db" where
  "reset_password hash env db settings p uid password now =
     and_then (get_user_or_404 db uid) (\<lambda>u.
       map_error bad_request (set_local_password hash env db u password (password_min_length settings)
         (keep_own_session p u) None now))"

definition revoke_sessions :: "auth_db \<Rightarrow> principal \<Rightarrow> uuid \<Rightarrow> http_error + auth_db" where
  "revoke_sessions db p uid =
     and_then (get_user_or_404 db uid) (\<lambda>u.
       Inr (revoke_all_for_user db (user_id u) (keep_own_session p u)))"

definition unlock :: "auth_db \<Rightarrow> instant \<Rightarrow> uuid \<Rightarrow> http_error + user_read \<times> auth_db" where
  "unlock db now uid =
     and_then (get_user_or_404 db uid) (\<lambda>u. let u = unlock_user u in Inr (to_read now u, put_user db u))"

subsection \<open>An administrator can log in\<close>

definition admin_login_possible :: "auth_settings \<Rightarrow> auth_db \<Rightarrow> bool" where
  "admin_login_possible settings db =
     (local_login_enabled settings \<and> (\<exists>u\<in>set (users db). is_local_admin u) \<or>
      (\<exists>m\<in>set (mappings db). mapping_role m = ADMIN \<and>
         (\<exists>d\<in>set (directories db). dir_id d = mapping_directory m \<and> is_enabled d \<and>
            allowed_by_security (connect_opts settings) d)))"

lemma admin_login_possible_keep:
  assumes "admin_login_possible settings db"
    and "\<And>u. u \<in> set (users db) \<Longrightarrow> is_local_admin u \<Longrightarrow> \<exists>v\<in>set (users db'). is_local_admin v"
    and "mappings db' = mappings db" "directories db' = directories db"
  shows "admin_login_possible settings db'"
  using assms(1,2) unfolding admin_login_possible_def assms(3,4) by blast

lemma count_local_admins_pos:
  "0 < count_local_admins db (Some i) \<longleftrightarrow> (\<exists>u\<in>set (users db). is_local_admin u \<and> user_id u \<noteq> i)"
  by (auto simp: count_local_admins_def filter_empty_conv)

lemma count_admin_directories_pos:
  "0 < count_admin_directories db options None \<longleftrightarrow>
     (\<exists>m\<in>set (mappings db). mapping_role m = ADMIN \<and>
        (\<exists>d\<in>set (directories db). dir_id d = mapping_directory m \<and> is_enabled d \<and> allowed_by_security options d))"
  unfolding count_admin_directories_def length_greater_0_conv remdups_eq_nil_iff map_is_Nil_conv
  by (auto simp: filter_empty_conv list_ex_iff)

text \<open>Whatever happens to the row of a user that \<open>ensure_not_last_admin\<close> let through, and to no other
  row, keeps a way to log in.\<close>

lemma ensure_not_last_admin_safe:
  assumes ok: "ensure_not_last_admin db u settings = None"
    and possible: "admin_login_possible settings db"
    and u: "u \<in> set (users db)" and ids: "distinct (map user_id (users db))"
    and others: "\<And>x. x \<in> set (users db) \<Longrightarrow> user_id x \<noteq> user_id u \<Longrightarrow> x \<in> set (users db')"
    and same: "mappings db' = mappings db" "directories db' = directories db"
  shows "admin_login_possible settings db'"
proof (cases "is_local_admin u \<and> local_login_enabled settings")
  case True
  then have "0 < count_local_admins db (Some (user_id u)) + count_admin_directories db (connect_opts settings) None"
    using ok by (auto simp: ensure_not_last_admin_def is_local_admin_def Let_def split: if_splits)
  then consider "0 < count_local_admins db (Some (user_id u))"
    | "0 < count_admin_directories db (connect_opts settings) None" by linarith
  then show ?thesis
  proof cases
    case 1
    then obtain x where "x \<in> set (users db)" "is_local_admin x" "user_id x \<noteq> user_id u"
      by (auto simp: count_local_admins_pos)
    with True others show ?thesis unfolding admin_login_possible_def by blast
  next
    case 2
    then show ?thesis by (simp add: admin_login_possible_def count_admin_directories_pos same)
  qed
next
  case False
  then consider "\<not> is_local_admin u" | "\<not> local_login_enabled settings" by blast
  then show ?thesis
  proof cases
    case 1
    have other: "user_id x \<noteq> user_id u" if "x \<in> set (users db)" "is_local_admin x" for x
      using that u ids 1 by (metis distinct_map inj_on_def)
    show ?thesis by (rule admin_login_possible_keep [OF possible _ same]) (use others other in blast)
  next
    case 2
    then show ?thesis using possible by (auto simp: admin_login_possible_def same)
  qed
qed

lemma put_user_other: "x \<in> set (users db) \<Longrightarrow> user_id x \<noteq> user_id u \<Longrightarrow> x \<in> set (users (put_user db u))"
  by (force simp: put_user_def)

lemma put_user_same [simp]:
  "mappings (put_user db u) = mappings db" "directories (put_user db u) = directories db"
  "sessions (put_user db u) = sessions db" "map user_id (users (put_user db u)) = map user_id (users db)"
  by (auto simp: put_user_def)

lemma put_user_in: "user_id u \<in> user_id ` set (users db) \<Longrightarrow> u \<in> set (users (put_user db u))"
  by (force simp: put_user_def)

lemma revoke_all_same [simp]:
  "users (revoke_all_for_user db i k) = users db" "mappings (revoke_all_for_user db i k) = mappings db"
  "directories (revoke_all_for_user db i k) = directories db"
  by (simp_all add: revoke_all_for_user_def)

lemma admin_login_possible_revoke [simp]:
  "admin_login_possible settings (revoke_all_for_user db i k) = admin_login_possible settings db"
  by (simp add: admin_login_possible_def)

lemma put_user_promotes:
  assumes possible: "admin_login_possible settings db" and u: "u \<in> set (users db)"
    and ids: "distinct (map user_id (users db))"
    and same: "user_id v = user_id u" and admin: "is_local_admin u \<Longrightarrow> is_local_admin v"
  shows "admin_login_possible settings (put_user db v)"
proof (rule admin_login_possible_keep [OF possible])
  fix x assume x: "x \<in> set (users db)" "is_local_admin x"
  show "\<exists>y\<in>set (users (put_user db v)). is_local_admin y"
  proof (cases "user_id x = user_id u")
    case True
    with x u ids have "x = u" by (metis distinct_map inj_on_def)
    with x admin have "is_local_admin v" by simp
    moreover have "v \<in> set (users (put_user db v))" using u same by (intro put_user_in) auto
    ultimately show ?thesis by blast
  next
    case False
    with x same show ?thesis using put_user_other [of x db v] by auto
  qed
qed simp_all

definition loaded :: "auth_db \<Rightarrow> user \<Rightarrow> bool" where
  "loaded db u = (u \<in> set (users db) \<and> distinct (map user_id (users db)))"

lemma change_role_safe:
  assumes "change_role settings changes db u r = Inr (u', db', r')"
    and "loaded db u"
  shows "(admin_login_possible settings db \<longrightarrow> admin_login_possible settings db') \<and> loaded db' u' \<and> user_id u' = user_id u \<and>
         sessions db' = sessions db \<and> (user_role u' \<noteq> user_role u \<longrightarrow> r') \<and> (r \<longrightarrow> r') \<and> is_active u' = is_active u"
proof (cases "db' = db \<and> u' = u")
  case True
  with assms show ?thesis
    by (auto simp: change_role_def Let_def and_then_Inr loaded_def split: option.splits if_splits)
next
  case False
  with assms(1) obtain role where role: "upd_role changes = Some role" "role \<noteq> user_role u"
    and u': "u' = u\<lparr>user_role := role\<rparr>" "db' = put_user db u'" "r'"
    and guard: "role \<noteq> ADMIN \<Longrightarrow> ensure_not_last_admin db u settings = None"
    by (auto simp: change_role_def Let_def and_then_Inr split: option.splits if_splits)
  have u: "u \<in> set (users db)" "distinct (map user_id (users db))" using assms(2) by (simp_all add: loaded_def)
  have "admin_login_possible settings db'" if possible: "admin_login_possible settings db"
  proof (cases "role = ADMIN")
    case True
    show ?thesis unfolding u'(2)
      by (rule put_user_promotes [OF possible u]) (use True in \<open>simp_all add: u' is_local_admin_def\<close>)
  next
    case False
    show ?thesis
      by (rule ensure_not_last_admin_safe [OF guard [OF False] possible u])
         (simp_all add: u'(2) put_user_other u'(1))
  qed
  with u u' show ?thesis by (auto simp: loaded_def intro!: put_user_in)
qed

lemma change_active_safe:
  assumes "change_active settings changes db u r = Inr (u', db', r')"
    and "loaded db u"
  shows "(admin_login_possible settings db \<longrightarrow> admin_login_possible settings db') \<and> loaded db' u' \<and> user_id u' = user_id u \<and>
         sessions db' = sessions db \<and> (is_active u' \<noteq> is_active u \<longrightarrow> r') \<and> (r \<longrightarrow> r') \<and> user_role u' = user_role u"
proof (cases "db' = db \<and> u' = u")
  case True
  with assms show ?thesis
    by (auto simp: change_active_def Let_def and_then_Inr loaded_def split: option.splits if_splits)
next
  case False
  with assms(1) obtain a where a: "upd_is_active changes = Some a" "a \<noteq> is_active u"
    and u': "u' = u\<lparr>is_active := a\<rparr>" "db' = put_user db u'" "r'"
    and guard: "\<not> a \<Longrightarrow> ensure_not_last_admin db u settings = None"
    by (auto simp: change_active_def Let_def and_then_Inr split: option.splits if_splits)
  have u: "u \<in> set (users db)" "distinct (map user_id (users db))" using assms(2) by (simp_all add: loaded_def)
  have "admin_login_possible settings db'" if possible: "admin_login_possible settings db"
  proof (cases a)
    case True
    show ?thesis unfolding u'(2)
      by (rule put_user_promotes [OF possible u]) (use True in \<open>simp_all add: u' is_local_admin_def\<close>)
  next
    case False
    show ?thesis
      by (rule ensure_not_last_admin_safe [OF guard [OF False] possible u])
         (simp_all add: u'(2) put_user_other u'(1))
  qed
  with u u' show ?thesis by (auto simp: loaded_def intro!: put_user_in)
qed

lemma change_fields_same [simp]:
  "user_id (change_fields c now u) = user_id u" "user_role (change_fields c now u) = user_role u"
  "is_active (change_fields c now u) = is_active u" "realm_key (change_fields c now u) = realm_key u"
  by (simp_all add: change_fields_def Let_def split: option.splits)

lemma get_user_or_404_Inr: "get_user_or_404 db i = Inr u \<longleftrightarrow> get_user db i = Some u"
  by (auto simp: get_user_or_404_def split: option.splits)

lemma loaded_get: "get_user db i = Some u \<Longrightarrow> distinct (map user_id (users db)) \<Longrightarrow> loaded db u \<and> user_id u = i"
  using get_user_Some by (auto simp: loaded_def)

lemma update_user_block_Inr:
  assumes res: "update_user_block settings uid changes now db = Inr (u', db')"
    and ok: "distinct (map user_id (users db))"
  obtains u revoke where "get_user db uid = Some u"
    "admin_login_possible settings db \<longrightarrow> admin_login_possible settings db'"
    "user_id u' = uid" "u' \<in> set (users db')" "map user_id (users db') = map user_id (users db)"
    "user_role u' \<noteq> user_role u \<or> is_active u' \<noteq> is_active u \<Longrightarrow> revoke"
    "sessions db' = (if revoke then filter (\<lambda>s. session_user s \<noteq> uid) (sessions db) else sessions db)"
proof -
  from res obtain u u1 db1 r1 u2 db2 r2 where u: "get_user db uid = Some u"
    and 1: "change_role settings changes db u False = Inr (u1, db1, r1)"
    and 2: "change_active settings changes db1 u1 r1 = Inr (u2, db2, r2)"
    and u': "u' = change_fields changes now u2"
    and db': "db' = (if r2 then revoke_all_for_user (put_user db2 u') (user_id u') None else put_user db2 u')"
    by (auto simp: update_user_block_def and_then_Inr get_user_or_404_Inr Let_def)
  from u ok have l: "loaded db u" "user_id u = uid" by (auto dest: loaded_get)
  note s1 = change_role_safe [OF 1 l(1)]
  then have p1: "loaded db1 u1" by simp
  note s2 = change_active_safe [OF 2 p1]
  have ids: "map user_id (users db2) = map user_id (users db)"
    using 1 2 by (auto simp: change_role_def change_active_def and_then_Inr Let_def split: option.splits if_splits)
  have "admin_login_possible settings (put_user db2 u')" if "admin_login_possible settings db"
    by (rule put_user_promotes [where u = u2]) (use s1 s2 that in \<open>auto simp: loaded_def u' is_local_admin_def\<close>)
  then have pos: "admin_login_possible settings db \<longrightarrow> admin_login_possible settings db'"
    by (simp add: db')
  have "user_id u' \<in> user_id ` set (users db2)" using s2 unfolding loaded_def u' by (simp, metis imageI)
  from put_user_in [OF this] have "u' \<in> set (users db')" by (simp add: db')
  with pos show ?thesis using u s1 s2 l ids
    by (intro that [of u r2]) (auto simp: db' u' revoke_all_for_user_def)
qed

subsection \<open>Sequences of administrative requests\<close>

datatype admin_request =
    UpdateUser uuid user_update
  | DeleteUser uuid
  | ResetPassword uuid string
  | RevokeSessions uuid
  | UnlockUser uuid
  | CreateUser string string role uuid

fun admin_step ::
  "(string \<Rightarrow> string) \<Rightarrow> auth_settings \<Rightarrow> principal \<Rightarrow> instant \<Rightarrow> admin_request \<Rightarrow> auth_db \<Rightarrow> auth_db" where
  \<comment> \<open>the committed state after the request; a request that fails commits nothing\<close>
  "admin_step hash settings p now (UpdateUser i c) db = snd (update_user db settings i c now)"
| "admin_step hash settings p now (DeleteUser i) db = snd (delete_user db settings p i)"
| "admin_step hash settings p now (ResetPassword i pw) db =
     (case reset_password hash (\<lambda>d. d) db settings p i pw now of Inl _ \<Rightarrow> db | Inr (_, db) \<Rightarrow> db)"
| "admin_step hash settings p now (RevokeSessions i) db =
     (case revoke_sessions db p i of Inl _ \<Rightarrow> db | Inr db \<Rightarrow> db)"
| "admin_step hash settings p now (UnlockUser i) db =
     (case unlock db now i of Inl _ \<Rightarrow> db | Inr (_, db) \<Rightarrow> db)"
| "admin_step hash settings p now (CreateUser n pw r i) db =
     (case create_user (\<lambda>x. x) py_lower hash (\<lambda>d. d) db settings n pw r None None now i of
        Inl _ \<Rightarrow> db | Inr (_, db) \<Rightarrow> db)"

definition admin_run where
  "admin_run hash settings p now rs db = fold (admin_step hash settings p now) rs db"

text \<open>What one request keeps: a way to log in, and the keys of the table.\<close>

definition still_administrable :: "auth_settings \<Rightarrow> auth_db \<Rightarrow> bool" where
  "still_administrable settings db = (admin_login_possible settings db \<and> distinct (map user_id (users db)))"

lemma update_user_still:
  assumes "still_administrable settings db"
  shows "still_administrable settings (snd (update_user db settings i c now))"
proof (cases "fst (update_user db settings i c now)")
  case (Inl e)
  then have "snd (update_user db settings i c now) = db"
    by (auto simp: update_user_def admin_change_guard_def split: sum.splits)
  with assms show ?thesis by simp
next
  case (Inr u)
  then obtain c' where "update_user_block settings i c' now db = Inr (u, snd (update_user db settings i c now))"
    by (auto simp: update_user_def admin_change_guard_def split: sum.splits)
  from update_user_block_Inr [OF this] assms show ?thesis
    unfolding still_administrable_def by metis
qed

lemma delete_user_still:
  assumes "still_administrable settings db"
  shows "still_administrable settings (snd (delete_user db settings p i))"
proof (cases "snd (delete_user db settings p i) = db")
  case False
  then obtain u where u: "get_user db i = Some u" and guard: "ensure_not_last_admin db u settings = None"
    and db': "snd (delete_user db settings p i) = delete_user_row db i"
    by (auto simp: delete_user_def admin_change_guard_def sum_step get_user_or_404_Inr
        split: sum.splits if_splits)
  from u assms have l: "u \<in> set (users db)" "distinct (map user_id (users db))" "user_id u = i"
    by (auto dest: loaded_get simp: loaded_def still_administrable_def)
  have "admin_login_possible settings (delete_user_row db i)"
    by (rule ensure_not_last_admin_safe [OF guard _ l(1,2)])
       (use assms l(3) in \<open>auto simp: still_administrable_def delete_user_row_def\<close>)
  then show ?thesis unfolding db' still_administrable_def using l(2)
    by (simp add: delete_user_row_def distinct_map_filterI)
qed (use assms in simp)

lemma same_admins_still:
  assumes "still_administrable settings db" "map (\<lambda>u. (user_id u, is_local_admin u)) (users db') =
      map (\<lambda>u. (user_id u, is_local_admin u)) (users db)"
    and "mappings db' = mappings db" "directories db' = directories db"
  shows "still_administrable settings db'"
proof -
  have "map fst (map (\<lambda>u. (user_id u, is_local_admin u)) (users db')) =
        map fst (map (\<lambda>u. (user_id u, is_local_admin u)) (users db))" by (simp only: assms(2))
  then have ids: "map user_id (users db') = map user_id (users db)" by (simp add: comp_def)
  have "set (map (\<lambda>u. (user_id u, is_local_admin u)) (users db')) =
        set (map (\<lambda>u. (user_id u, is_local_admin u)) (users db))" by (simp only: assms(2))
  then have adm: "\<exists>v\<in>set (users db'). is_local_admin v" if "u \<in> set (users db)" "is_local_admin u" for u
    using that by (auto simp: set_eq_iff image_iff) metis
  from assms(1) have "admin_login_possible settings db'"
    unfolding still_administrable_def
    by (intro admin_login_possible_keep [OF _ _ assms(3,4)]) (use adm in blast)+
  with ids assms(1) show ?thesis by (simp add: still_administrable_def)
qed

lemma mappings_set_local_password:
  "set_local_password hash env db u pw n keep ex now = Inr (u', db') \<Longrightarrow> mappings db' = mappings (env db)"
  unfolding set_local_password_def Let_def
  by (auto simp: set_marker_def update_users_def update_where_def split: if_splits option.splits prod.splits)

lemma reset_password_still:
  assumes "still_administrable settings db"
    and "reset_password hash (\<lambda>d. d) db settings p i pw now = Inr (u, db')"
  shows "still_administrable settings db'"
proof -
  from assms(2) obtain x where
    s: "set_local_password hash (\<lambda>d. d) db x pw (password_min_length settings) (keep_own_session p x) None now = Inr (u, db')"
    by (auto simp: reset_password_def and_then_Inr)
  note f = set_local_password_Inr [OF s] mappings_set_local_password [OF s]
  show ?thesis
    by (rule same_admins_still [OF assms(1)]) (use f in \<open>simp_all add: is_local_admin_def\<close>)
qed

lemma unlock_still:
  assumes st: "still_administrable settings db" and res: "unlock db now i = Inr (r, db')"
  shows "still_administrable settings db'"
proof -
  from res obtain u where u: "get_user db i = Some u" and db': "db' = put_user db (unlock_user u)"
    by (auto simp: unlock_def and_then_Inr get_user_or_404_Inr Let_def)
  from st have ids: "distinct (map user_id (users db))" by (simp add: still_administrable_def)
  with u have l: "u \<in> set (users db)" by (auto dest: loaded_get simp: loaded_def)
  have "admin_login_possible settings (put_user db (unlock_user u))"
    by (rule put_user_promotes [OF _ l ids]) (use st in \<open>simp_all add: still_administrable_def unlock_user_def is_local_admin_def\<close>)
  with ids show ?thesis by (simp add: db' still_administrable_def)
qed

lemma revoke_sessions_still:
  "still_administrable settings db \<Longrightarrow> revoke_sessions db p i = Inr db' \<Longrightarrow> still_administrable settings db'"
  by (auto simp: revoke_sessions_def and_then_Inr still_administrable_def admin_login_possible_def)

lemma create_user_still:
  assumes "still_administrable settings db"
    and "create_user nfkc cf hash (\<lambda>d. d) db settings n pw r d m now i = Inr (u, db')"
  shows "still_administrable settings db'"
proof -
  have "db' = db\<lparr>users := users db @ [u]\<rparr> \<and> user_id u \<notin> user_id ` set (users db)"
    using assms(2) by (auto simp: create_user_def create_local_user_def Let_def
        split: sum.splits option.splits if_splits)
  with assms(1) show ?thesis by (auto simp: still_administrable_def admin_login_possible_def)
qed

lemma admin_step_still:
  "still_administrable settings db \<Longrightarrow> still_administrable settings (admin_step hash settings p now r db)"
  by (cases r)
     (auto intro: update_user_still delete_user_still reset_password_still revoke_sessions_still unlock_still
       create_user_still split: sum.splits)

text \<open>administrators cannot lock everyone out: if somebody can log in as an administrator (a local
  administrator while local login is enabled, or a member of a group that an enabled and permitted
  directory maps to admin), then after any sequence of user administration requests, by any
  administrator, somebody still can.\<close>

theorem admin_run_keeps_an_administrator:
  assumes "admin_login_possible settings db" "distinct (map user_id (users db))"
  shows "admin_login_possible settings (admin_run hash settings p now rs db)"
proof -
  have "still_administrable settings (admin_run hash settings p now rs db)"
    unfolding admin_run_def
  proof (rule fold_invariant [where Q = "\<lambda>_. True"])
    show "still_administrable settings db" using assms by (simp add: still_administrable_def)
  qed (auto intro: admin_step_still)
  then show ?thesis by (simp add: still_administrable_def)
qed

theorem admin_run_keeps_an_administrator_witness:
  "admin_login_possible sample_settings (admin_run (\<lambda>x. x) sample_settings sample_principal 0
     [UpdateUser 1 \<lparr>upd_role = Some VIEWER, upd_is_active = None, upd_display_name = None, upd_email = None\<rparr>,
      DeleteUser 1] sample_db)"
  by (rule admin_run_keeps_an_administrator)
     (simp_all add: admin_login_possible_def sample_settings_def sample_defs is_local_admin_def LOCAL_REALM_def)

text \<open>a change of a user's role or of whether the user is active ends every session of that user in
  the same transaction, and any other update leaves the sessions alone.\<close>

theorem update_user_revokes:
  assumes res: "update_user db settings uid changes now = (Inr u', db')"
    and u: "get_user db uid = Some u"
    and ids: "distinct (map user_id (users db))"
    and changed: "user_role u' \<noteq> user_role u \<or> is_active u' \<noteq> is_active u"
  shows "sessions db' = filter (\<lambda>s. session_user s \<noteq> uid) (sessions db) \<and> u' \<in> set (users db') \<and> user_id u' = uid"
proof -
  from res obtain c where "update_user_block settings uid c now db = Inr (u', db')"
    by (auto simp: update_user_def admin_change_guard_def split: sum.splits)
  from update_user_block_Inr [OF this ids] u changed show ?thesis by (metis option.inject)
qed

theorem update_user_revokes_witness:
  "sessions (snd (update_user (sample_db\<lparr>users := users sample_db @ [sample_user\<lparr>user_id := 2, subject := ''b''\<rparr>]\<rparr>)
     sample_settings 1 \<lparr>upd_role = Some VIEWER, upd_is_active = None, upd_display_name = None, upd_email = None\<rparr> 9)) = []"
proof -
  let ?db = "sample_db\<lparr>users := users sample_db @ [sample_user\<lparr>user_id := 2, subject := ''b''\<rparr>]\<rparr>"
  let ?u = "sample_user\<lparr>user_role := VIEWER, user_updated_at := 9\<rparr>"
  let ?run = "update_user ?db sample_settings 1 \<lparr>upd_role = Some VIEWER, upd_is_active = None, upd_display_name = None, upd_email = None\<rparr> 9"
  have 1: "?run = (Inr ?u, snd ?run)"
    unfolding sample_defs sample_settings_def by code_simp
  have 2: "get_user ?db 1 = Some sample_user" by (simp add: sample_defs get_user_def)
  show ?thesis using update_user_revokes [OF 1 2] by (simp add: sample_defs)
qed

end
