(* ===== verification/LoginService.thy ===== *)
theory LoginService
  imports AuthDeps "HOL-Library.Char_ord" "HOL-Library.List_Lexorder" "HOL-Library.Product_Lexorder"
begin

section \<open>Logging in (auth/service.py)\<close>

text \<open>
  Authentication against the local realm and against a directory. \<open>env k\<close> is what other requests
  commit before the statement number \<open>k\<close>; the long waits (argon2, LDAP) lie before the statements 2
  and 10. The argon2 functions are \<open>argon_ok hash password\<close>, \<open>outdated hash\<close> and \<open>hash\<close>, the LDAP
  authentication is \<open>backend\<close>. Audit log entries are not modelled.
\<close>

record realm =
  realm_id :: string
  realm_name :: string
  realm_kind :: string

record login_outcome =
  outcome_user :: "user option"
  outcome_reason :: string

record verify_result =
  verify_ok :: bool
  needs_rehash :: bool

definition verify_password ::
  "(string \<Rightarrow> string \<Rightarrow> bool) \<Rightarrow> (string \<Rightarrow> bool) \<Rightarrow> string option \<Rightarrow> string \<Rightarrow> verify_result" where
  "verify_password argon_ok outdated h password =
     (case h of None \<Rightarrow> \<lparr>verify_ok = False, needs_rehash = False\<rparr>
      | Some h \<Rightarrow> if h = '''' \<or> \<not> argon_ok h password then \<lparr>verify_ok = False, needs_rehash = False\<rparr>
                  else \<lparr>verify_ok = True, needs_rehash = outdated h\<rparr>)"

definition DIRECTORY_REALM_PREFIX :: string where "DIRECTORY_REALM_PREFIX = ''dir:''"

text \<open>The realms of the login page; the name of the local realm is a fixed label.\<close>

definition list_realms :: "auth_db \<Rightarrow> auth_settings \<Rightarrow> realm list" where
  "list_realms db settings =
     (if local_login_enabled settings
      then [\<lparr>realm_id = LOCAL_REALM, realm_name = ''local'', realm_kind = ''local''\<rparr>] else []) @
     map (\<lambda>d. \<lparr>realm_id = DIRECTORY_REALM_PREFIX @ uuid_str (dir_id d), realm_name = dir_name d, realm_kind = dir_kind d\<rparr>)
       (sort_key (\<lambda>d. (sort_order d, dir_name d)) (filter (\<lambda>d. is_enabled d \<and> allowed_by_security (connect_opts settings) d)
          (directories db)))"

definition load_directory :: "auth_db \<Rightarrow> string \<Rightarrow> (directory_config \<times> group_mapping list) option" where
  "load_directory db rlm =
     (case uuid_parse (removeprefix rlm DIRECTORY_REALM_PREFIX) of None \<Rightarrow> None
      | Some did \<Rightarrow> map_option (\<lambda>d. (d, filter (\<lambda>m. mapping_directory m = did) (mappings db)))
          (find (\<lambda>d. dir_id d = did \<and> is_enabled d) (directories db)))"

definition clip_text :: "string option \<Rightarrow> nat \<Rightarrow> string option" where
  "clip_text value limit =
     (case value of None \<Rightarrow> None
      | Some v \<Rightarrow> let t = take limit (py_strip v) in if t = [] then None else Some t)"

subsection \<open>Directory users\<close>

record directory_identity =
  ident_subject :: string
  ident_username :: string
  ident_display_name :: "string option"
  ident_email :: "string option"
  ident_dn :: string
  ident_role :: role
  ident_matched_groups :: "string list"

datatype backend_result = Authenticated directory_identity | DirectoryError string | OtherError

datatype upsert_result = Upserted user | Inactive | StaleRow

definition directory_values :: "directory_config \<Rightarrow> directory_identity \<Rightarrow> instant \<Rightarrow> user \<Rightarrow> user" where
  "directory_values config identity now u =
     u\<lparr>username := take USERNAME_MAX_LENGTH (ident_username identity),
       display_name := clip_text (ident_display_name identity) DISPLAY_NAME_MAX_LENGTH,
       email := clip_text (ident_email identity) EMAIL_MAX_LENGTH, user_role := ident_role identity,
       directory_id := Some (dir_id config), last_login_at := Some now, user_updated_at := now\<rparr>"

definition flush_changes :: "user \<Rightarrow> user \<Rightarrow> user \<Rightarrow> user" where
  \<comment> \<open>\<open>UPDATE\<close> of the columns whose value the session changed, on the row \<open>x\<close> as it is now\<close>
  "flush_changes old new x =
     x\<lparr>username := (if username new = username old then username x else username new),
       display_name := (if display_name new = display_name old then display_name x else display_name new),
       email := (if email new = email old then email x else email new),
       user_role := (if user_role new = user_role old then user_role x else user_role new),
       directory_id := (if directory_id new = directory_id old then directory_id x else directory_id new),
       last_login_at := (if last_login_at new = last_login_at old then last_login_at x else last_login_at new),
       user_updated_at := (if user_updated_at new = user_updated_at old then user_updated_at x
                           else user_updated_at new)\<rparr>"

definition blank_user :: "uuid \<Rightarrow> string \<Rightarrow> string \<Rightarrow> user" where
  "blank_user uid realm subj = \<lparr>user_id = uid, realm_key = realm, subject = subj, username = '''',
     display_name = None, email = None, directory_id = None, password_hash = None, user_role = VIEWER,
     is_active = True, failed_login_count = 0, locked_until = None, password_changed_at = None,
     last_login_at = None, user_created_at = 0, user_updated_at = 0\<rparr>"

fun upsert_directory_user ::
  "nat \<Rightarrow> (nat \<Rightarrow> auth_db \<Rightarrow> auth_db) \<Rightarrow> (string \<Rightarrow> string) \<Rightarrow> auth_db \<Rightarrow> directory_config \<Rightarrow> directory_identity \<Rightarrow>
   instant \<Rightarrow> uuid \<Rightarrow> auth_db \<times> auth_db \<times> upsert_result" where
  \<comment> \<open>the first argument counts the attempts left; the second component of the result is the database
     without the writes of this savepoint\<close>
  "upsert_directory_user 0 env sha db config identity now uid = (db, db, Inactive)"
| "upsert_directory_user (Suc attempts) env sha db config identity now uid =
     (let rkey = DIRECTORY_REALM_PREFIX @ uuid_str (dir_id config);
          subj = directory_subject_key sha (ident_subject identity);
          db = env 10 db
      in case user_with_subject db rkey subj of
        Some u \<Rightarrow>
          if \<not> is_active u then (db, db, Inactive)
          else let db = env 11 db; base = db;
                   db = (if user_role u \<noteq> ident_role identity then revoke_all_for_user db (user_id u) None else db);
                   new = directory_values config identity now u;
                   (db, n) = update_users (\<lambda>x. user_id x = user_id u) (flush_changes u new) db
            in if n = 0 then (base, base, StaleRow)
               else let db = env 12 db; base = env 12 base in
                 (case get_user db (user_id u) of
                    None \<Rightarrow> (db, base, Inactive)
                  | Some x \<Rightarrow> if is_active x then (db, base, Upserted new) else (db, base, Inactive))
      | None \<Rightarrow>
          let new = directory_values config identity now (blank_user uid rkey subj)\<lparr>user_created_at := now\<rparr>;
              db = env 13 db
          in if user_with_subject db rkey subj \<noteq> None \<or> uid \<in> user_id ` set (users db)
             then upsert_directory_user attempts env sha db config identity now uid
             else (db\<lparr>users := users db @ [new]\<rparr>, db, Upserted new))"

definition authenticate_directory ::
  "(nat \<Rightarrow> auth_db \<Rightarrow> auth_db) \<Rightarrow> (string \<Rightarrow> string) \<Rightarrow>
   (directory_config \<Rightarrow> group_mapping list \<Rightarrow> string \<Rightarrow> string \<Rightarrow> connect_options \<Rightarrow> backend_result) \<Rightarrow>
   auth_db \<Rightarrow> auth_settings \<Rightarrow> string \<Rightarrow> string \<Rightarrow> string \<Rightarrow> instant \<Rightarrow> uuid \<Rightarrow> auth_db \<times> login_outcome" where
  "authenticate_directory env sha backend db settings rlm uname password now uid =
     (case load_directory (env 1 db) rlm of
        None \<Rightarrow> (env 1 db, \<lparr>outcome_user = None, outcome_reason = ''unknown_realm''\<rparr>)
      | Some (config, maps) \<Rightarrow>
          (case backend config maps uname password (connect_opts settings) of
             DirectoryError reason \<Rightarrow> (env 1 db, \<lparr>outcome_user = None, outcome_reason = reason\<rparr>)
           | OtherError \<Rightarrow> (env 1 db, \<lparr>outcome_user = None, outcome_reason = ''directory_error''\<rparr>)
           | Authenticated identity \<Rightarrow>
               (case upsert_directory_user 2 env sha (env 1 db) config identity now uid of
                  (db, base, Inactive) \<Rightarrow> (base, \<lparr>outcome_user = None, outcome_reason = ''inactive''\<rparr>)
                | (db, base, StaleRow) \<Rightarrow> (base, \<lparr>outcome_user = None, outcome_reason = ''exception''\<rparr>)
                | (db, base, Upserted u) \<Rightarrow>
                    let db = env 14 db; base = env 14 base
                    in case get_directory db (dir_id config) of
                         None \<Rightarrow> (base, \<lparr>outcome_user = None, outcome_reason = ''directory_disabled''\<rparr>)
                       | Some current \<Rightarrow>
                           if \<not> is_enabled current
                           then (base, \<lparr>outcome_user = None, outcome_reason = ''directory_disabled''\<rparr>)
                           else if dir_updated_at current \<noteq> dir_updated_at config
                           then (base, \<lparr>outcome_user = None, outcome_reason = ''directory_changed''\<rparr>)
                           else (db, \<lparr>outcome_user = Some u, outcome_reason = ''ok''\<rparr>))))"

subsection \<open>Local users\<close>

definition failure_count :: "auth_db \<Rightarrow> uuid \<Rightarrow> auth_db \<times> int option" where
  \<comment> \<open>\<open>UPDATE ... SET failed_login_count = failed_login_count + 1 ... RETURNING\<close>\<close>
  "failure_count db uid =
     (let db' = fst (update_users (\<lambda>u. user_id u = uid) (\<lambda>u. u\<lparr>failed_login_count := failed_login_count u + 1\<rparr>) db)
      in (db', map_option failed_login_count (get_user db' uid)))"

definition failure_lock :: "auth_db \<Rightarrow> auth_settings \<Rightarrow> uuid \<Rightarrow> instant \<Rightarrow> auth_db \<times> bool" where
  "failure_lock db settings uid now =
     (let (db, n) = update_users
        (\<lambda>u. user_id u = uid \<and> login_max_failed_attempts settings \<le> failed_login_count u)
        (\<lambda>u. u\<lparr>locked_until := Some (now + minutes (login_lockout_minutes settings)), failed_login_count := 0\<rparr>) db
      in (db, n \<noteq> 0))"

definition record_failure ::
  "(nat \<Rightarrow> auth_db \<Rightarrow> auth_db) \<Rightarrow> auth_db \<Rightarrow> auth_settings \<Rightarrow> uuid \<Rightarrow> instant \<Rightarrow> auth_db \<times> bool" where
  "record_failure env db settings uid now =
     (case failure_count (env 2 db) uid of (db, counted) \<Rightarrow>
        (case counted of None \<Rightarrow> (db, False)
         | Some c \<Rightarrow> if c < login_max_failed_attempts settings then (db, False)
                     else failure_lock (env 3 db) settings uid now))"

definition rehash :: "(string \<Rightarrow> string) \<Rightarrow> auth_db \<Rightarrow> user \<Rightarrow> string \<Rightarrow> auth_db \<times> user" where
  "rehash hash db u password =
     (let new_hash = hash password;
          (db, n) = update_users (\<lambda>x. user_id x = user_id u \<and> password_hash x = password_hash u)
                      (\<lambda>x. x\<lparr>password_hash := Some new_hash\<rparr>) db
      in if n \<noteq> 0 then (db, u\<lparr>password_hash := Some new_hash\<rparr>) else (db, u))"

definition record_success :: "auth_db \<Rightarrow> uuid \<Rightarrow> instant \<Rightarrow> auth_db \<times> bool" where
  "record_success db uid now =
     (let (db, n) = update_users
        (\<lambda>u. user_id u = uid \<and> (case locked_until u of None \<Rightarrow> True | Some t \<Rightarrow> t \<le> now))
        (\<lambda>u. u\<lparr>failed_login_count := 0, locked_until := None, last_login_at := Some now\<rparr>) db
      in (db, n \<noteq> 0))"

definition is_locked :: "user \<Rightarrow> instant \<Rightarrow> bool" where
  "is_locked u now = (case locked_until u of None \<Rightarrow> False | Some t \<Rightarrow> now < t)"

definition authenticate_local ::
  "(nat \<Rightarrow> auth_db \<Rightarrow> auth_db) \<Rightarrow> (string \<Rightarrow> string) \<Rightarrow> (string \<Rightarrow> string) \<Rightarrow> (string \<Rightarrow> string \<Rightarrow> bool) \<Rightarrow>
   (string \<Rightarrow> bool) \<Rightarrow> (string \<Rightarrow> string) \<Rightarrow> auth_db \<Rightarrow> auth_settings \<Rightarrow> string \<Rightarrow> string \<Rightarrow> instant \<Rightarrow>
   auth_db \<times> login_outcome" where
  "authenticate_local env nfkc casefold argon_ok outdated hash db settings uname password now =
     (let refuse = (\<lambda>r. \<lparr>outcome_user = None, outcome_reason = r\<rparr>)
      in case normalize_username nfkc casefold uname of
        Inl _ \<Rightarrow> (db, refuse ''invalid_username'')
      | Inr name \<Rightarrow>
          let db = env 1 db
          in case get_local_user nfkc casefold db name of
            Inl _ \<Rightarrow> (db, refuse ''exception'')
          | Inr None \<Rightarrow> (db, refuse ''unknown_user'')
          | Inr (Some u) \<Rightarrow>
              if is_locked u now then (db, refuse ''locked'')
              else let result = verify_password argon_ok outdated (password_hash u) password
                in if \<not> verify_ok result then
                     (fst (record_failure env db settings (user_id u) now), refuse ''bad_password'')
                   else if \<not> is_active u then (db, refuse ''inactive'')
                   else let db = env 2 db in
                     (case get_user db (user_id u) of
                        None \<Rightarrow> (db, refuse ''user_deleted'')
                      | Some fresh \<Rightarrow>
                          if credential_marker fresh \<noteq> credential_marker u \<or> \<not> is_active fresh
                          then (db, refuse ''credential_changed'')
                          else (case record_success (env 3 db) (user_id fresh) now of (db, done) \<Rightarrow>
                            if \<not> done then (db, refuse ''locked'')
                            else if needs_rehash result \<and> password_hash fresh \<noteq> None then
                              (case rehash hash (env 4 db) fresh password of (db, fresh) \<Rightarrow>
                                 (db, \<lparr>outcome_user = Some fresh, outcome_reason = ''ok''\<rparr>))
                            else (db, \<lparr>outcome_user = Some fresh, outcome_reason = ''ok''\<rparr>))))"

definition authenticate where
  "authenticate env sha nfkc casefold argon_ok outdated hash backend db settings rlm uname password now uid =
     (let refuse = (\<lambda>r. (db, \<lparr>outcome_user = None, outcome_reason = r\<rparr>))
      in if password = [] then refuse ''empty_password''
         else if PASSWORD_MAX_LENGTH * 4 < length password then refuse ''too_long''
         else if rlm = LOCAL_REALM \<and> local_login_enabled settings then
           authenticate_local env nfkc casefold argon_ok outdated hash db settings uname password now
         else if startswith rlm DIRECTORY_REALM_PREFIX then
           authenticate_directory env sha backend db settings rlm uname password now uid
         else refuse ''unknown_realm'')"

subsection \<open>What a login proves\<close>

lemma verify_ok_iff:
  "verify_ok (verify_password argon_ok outdated h pw) \<longleftrightarrow> (\<exists>x. h = Some x \<and> x \<noteq> '''' \<and> argon_ok x pw)"
  by (auto simp: verify_password_def split: option.splits)

lemma is_locked_iff: "is_locked u now \<longleftrightarrow> (\<exists>t. locked_until u = Some t \<and> now < t)"
  by (auto simp: is_locked_def split: option.splits)

lemma record_success_True:
  "snd (record_success db uid now) \<longleftrightarrow> (\<exists>x\<in>set (users db). user_id x = uid \<and> \<not> is_locked x now)"
  by (auto simp: record_success_def update_users_def update_where_def is_locked_def filter_empty_conv
      split: option.splits)

lemma rehash_user:
  "user_id (snd (rehash hash db u pw)) = user_id u" "is_active (snd (rehash hash db u pw)) = is_active u"
  "credential_marker (snd (rehash hash db u pw)) = credential_marker u"
  by (auto simp: rehash_def Let_def credential_marker_def split: prod.splits)

text \<open>C2: whatever other requests commit while a local login runs (the argon2 check takes long), a
  login succeeds only for the user of the given name, whose stored hash accepts the password, who was
  not locked when the login began and is not locked when its success is recorded, and who is active
  and still has the password generation that was checked when the row is read again.\<close>

theorem authenticate_local_sound:
  assumes "outcome_user (snd (authenticate_local env nfkc cf argon_ok outdated hash db settings uname pw now)) = Some u"
  shows "\<exists>name u0 h. normalize_username nfkc cf uname = Inr name \<and>
    get_local_user nfkc cf (env 1 db) name = Inr (Some u0) \<and> \<not> is_locked u0 now \<and> is_active u0 \<and>
    password_hash u0 = Some h \<and> argon_ok h pw \<and> user_id u = user_id u0 \<and> is_active u \<and>
    credential_marker u = credential_marker u0 \<and>
    (\<exists>x\<in>set (users (env 3 (env 2 (env 1 db)))). user_id x = user_id u \<and> \<not> is_locked x now)"
proof -
  let ?result = "\<lambda>u0. verify_password argon_ok outdated (password_hash u0) pw"
  from assms obtain name where name: "normalize_username nfkc cf uname = Inr name"
    by (auto simp: authenticate_local_def split: sum.splits)
  with assms obtain u0 where u0: "get_local_user nfkc cf (env 1 db) name = Inr (Some u0)"
    by (auto simp: authenticate_local_def Let_def split: sum.splits option.splits)
  have ok: "\<not> is_locked u0 now" "verify_ok (?result u0)" "is_active u0"
    using assms name u0 by (auto simp: authenticate_local_def Let_def split: if_splits)
  then obtain fresh where fresh: "get_user (env 2 (env 1 db)) (user_id u0) = Some fresh"
    using assms name u0 by (auto simp: authenticate_local_def Let_def split: option.splits)
  have live: "credential_marker fresh = credential_marker u0" "is_active fresh"
    using assms name u0 ok fresh by (auto simp: authenticate_local_def Let_def split: if_splits)
  have id: "user_id fresh = user_id u0" using fresh by (auto dest: get_user_Some)
  obtain db4 granted where rs: "record_success (env 3 (env 2 (env 1 db))) (user_id fresh) now = (db4, granted)"
    by (cases "record_success (env 3 (env 2 (env 1 db))) (user_id fresh) now")
  have fin: "granted" "user_id u = user_id fresh" "is_active u = is_active fresh"
      "credential_marker u = credential_marker fresh"
    using assms name u0 ok fresh live rs rehash_user [of hash "env 4 db4" fresh pw]
    by (auto simp: authenticate_local_def Let_def split: if_splits prod.splits)
  from fin(1) rs have "\<exists>x\<in>set (users (env 3 (env 2 (env 1 db)))). user_id x = user_id fresh \<and> \<not> is_locked x now"
    using record_success_True [of "env 3 (env 2 (env 1 db))" "user_id fresh" now] by simp
  with name u0 ok fin id live show ?thesis by (auto simp: verify_ok_iff)
qed

lemma sample_login:
  "authenticate_local alone (\<lambda>x. x) (\<lambda>x. x) (=) (\<lambda>_. False) (\<lambda>x. x) sample_db sample_settings ''root'' ''h'' 5 =
     (sample_db\<lparr>users := [sample_user\<lparr>last_login_at := Some 5\<rparr>]\<rparr>,
      \<lparr>outcome_user = Some sample_user, outcome_reason = ''ok''\<rparr>)"
  unfolding sample_defs sample_settings_def by code_simp

theorem authenticate_local_sound_witness:
  "\<exists>(u0 :: user) h. password_hash u0 = Some h \<and> h = ''h''"
  using authenticate_local_sound [of alone "\<lambda>x. x" "\<lambda>x. x" "(=)" "\<lambda>_. False" "\<lambda>x. x" sample_db sample_settings
      "''root''" "''h''" 5 sample_user, unfolded sample_login] by auto

text \<open>C24: the session opened by a local login belongs to the password that was checked: in every later
  state where the user's password generation differs from the one whose hash was verified (also when
  the change committed during the login), the session's token logs nobody in.\<close>

theorem login_session_dies_with_the_password:
  assumes login: "authenticate_local env nfkc cf argon_ok outdated hash db settings uname pw now = (db1, oc)"
      "outcome_user oc = Some u"
    and checked: "normalize_username nfkc cf uname = Inr name"
      "get_local_user nfkc cf (env 1 db) name = Inr (Some u0)"
    and created: "s \<in> set (sessions (fst (create_session sha db1 u pol ip ua opened sid token)))" "session_id s = sid"
      "sid \<notin> session_id ` set (sessions db1)"
    and later: "session_with_hash db2 (sha token) = Some s2" "session_id s2 = sid" "descends s2 s"
      "session_marker s2 = session_marker s"
    and changed: "get_user db2 (user_id u0) = Some v" "credential_marker v \<noteq> credential_marker u0"
  shows "snd (resolve_session alone sha db2 (Some token) pol now2 touch) = None"
proof (rule ccontr)
  assume "\<not> ?thesis"
  then obtain s' w where s': "session_with_hash db2 (sha token) = Some s'"
    and w: "get_user db2 (session_user s') = Some w" "session_marker s' = credential_marker w"
    unfolding resolve_alone_iff by blast
  from login checked have u: "user_id u = user_id u0" "credential_marker u = credential_marker u0"
    using authenticate_local_sound [of env nfkc cf argon_ok outdated hash db settings uname pw now u] by auto
  have "s = \<lparr>session_id = sid, token_hash = sha token, session_user = user_id u, created_at = opened,
          last_seen_at = opened, expires_at = opened + absolute_timeout pol, client_ip = clip 64 ip,
          user_agent = clip 256 ua, session_marker = credential_marker u\<rparr>"
    using created by (auto simp: create_session_def)
  then have "session_user s = user_id u" "session_marker s = credential_marker u" by simp_all
  with s' later u have "session_user s' = user_id u0" "session_marker s' = credential_marker u0"
    by (auto simp: descends_def)
  with w changed show False by simp
qed

theorem login_session_dies_with_the_password_witness:
  "snd (resolve_session alone (\<lambda>x. x)
     (sample_db\<lparr>users := [sample_user\<lparr>password_changed_at := Some 9\<rparr>]\<rparr>) (Some ''tok'') sample_policy 10 True) = None"
proof -
  let ?db1 = "sample_db\<lparr>users := [sample_user\<lparr>last_login_at := Some 5\<rparr>], sessions := []\<rparr>"
  let ?login = "authenticate_local (\<lambda>k d. if k = 3 then d\<lparr>sessions := []\<rparr> else d) (\<lambda>x. x) (\<lambda>x. x) (=) (\<lambda>_. False) (\<lambda>x. x) sample_db sample_settings ''root'' ''h'' 5"
  have 1: "?login = (?db1, \<lparr>outcome_user = Some sample_user, outcome_reason = ''ok''\<rparr>)"
    unfolding sample_defs sample_settings_def by code_simp
  have 2: "normalize_username (\<lambda>x. x) (\<lambda>x. x) ''root'' = Inr ''root''" by code_simp
  have 3: "get_local_user (\<lambda>x. x) (\<lambda>x. x) sample_db ''root'' = Inr (Some sample_user)"
    unfolding sample_defs by code_simp
  have 4: "sample_session \<in> set (sessions (fst (create_session (\<lambda>x. x) ?db1 sample_user sample_policy None None 0 7 ''tok'')))"
    by (simp add: create_session_def sample_defs clip_def credential_marker_def)
  have 5: "session_with_hash (sample_db\<lparr>users := [sample_user\<lparr>password_changed_at := Some 9\<rparr>]\<rparr>) ''tok'' = Some sample_session"
    by (simp add: session_with_hash_def sample_defs)
  have 6: "get_user (sample_db\<lparr>users := [sample_user\<lparr>password_changed_at := Some 9\<rparr>]\<rparr>) (user_id sample_user)
      = Some (sample_user\<lparr>password_changed_at := Some 9\<rparr>)"
    by (simp add: get_user_def sample_defs)
  show ?thesis
    by (rule login_session_dies_with_the_password [OF 1 _ 2 _ 4 _ _ 5 _ _ _ 6])
       (use 3 in \<open>simp_all add: sample_defs credential_marker_def\<close>)
qed

subsection \<open>Lockout\<close>

text \<open>
  Failures of several attempts at one account, interleaved at the level of their statements: each
  increments the counter, and those that saw it reach the limit then try to lock. \<open>ls_waiting\<close> are the
  attempts between the two statements, \<open>ls_failures\<close> and \<open>ls_locks\<close> count what happened.
\<close>

record lock_state =
  ls_db :: auth_db
  ls_waiting :: "instant list"
  ls_failures :: nat
  ls_locks :: nat

definition unrelated :: "uuid \<Rightarrow> auth_db \<Rightarrow> auth_db \<Rightarrow> bool" where
  \<comment> \<open>other requests leave the account's counter and lock alone\<close>
  "unrelated uid db db' = (distinct (map user_id (users db')) \<and> map_option (\<lambda>u. (failed_login_count u, locked_until u)) (get_user db' uid) =
     map_option (\<lambda>u. (failed_login_count u, locked_until u)) (get_user db uid))"

inductive lock_step :: "auth_settings \<Rightarrow> uuid \<Rightarrow> lock_state \<Rightarrow> lock_state \<Rightarrow> bool" for settings uid where
  counted: "failure_count (ls_db st) uid = (db', Some c) \<Longrightarrow>
     lock_step settings uid st
       (st\<lparr>ls_db := db', ls_failures := ls_failures st + 1,
           ls_waiting := (if c < login_max_failed_attempts settings then ls_waiting st
                          else now # ls_waiting st)\<rparr>)"
| locked: "ls_waiting st = as @ now # bs \<Longrightarrow> failure_lock (ls_db st) settings uid now = (db', b) \<Longrightarrow>
     lock_step settings uid st
       (st\<lparr>ls_db := db', ls_waiting := as @ bs, ls_locks := ls_locks st + (if b then 1 else 0)\<rparr>)"
| others: "unrelated uid (ls_db st) db' \<Longrightarrow> lock_step settings uid st (st\<lparr>ls_db := db'\<rparr>)"

definition lock_inv :: "auth_settings \<Rightarrow> uuid \<Rightarrow> lock_state \<Rightarrow> bool" where
  "lock_inv settings uid st =
     (distinct (map user_id (users (ls_db st))) \<and>
      (\<exists>u. get_user (ls_db st) uid = Some u \<and>
        (ls_waiting st = [] \<longrightarrow> failed_login_count u < login_max_failed_attempts settings) \<and>
        0 \<le> failed_login_count u \<and>
        (ls_locks st = 0 \<longrightarrow> failed_login_count u = int (ls_failures st)) \<and>
        (0 < ls_locks st \<longrightarrow> locked_until u \<noteq> None)))"

lemma get_user_update_id:
  assumes "\<And>u. user_id (f u) = user_id u" "get_user db i = Some u"
  shows "get_user (fst (update_users p f db)) i = Some (if p u then f u else u)"
  using get_user_update [of f p db i] assms by simp

lemma failure_lock_user:
  assumes "get_user db uid = Some u" "distinct (map user_id (users db))"
    and "failure_lock db settings uid now = (db', b)"
  shows "b \<longleftrightarrow> login_max_failed_attempts settings \<le> failed_login_count u"
  using assms get_user_Some [OF assms(1)]
  by (auto simp: failure_lock_def update_users_def update_where_def filter_empty_conv distinct_map inj_on_def)

lemma map_user_id_update_users [simp]:
  "(\<And>u. user_id (f u) = user_id u) \<Longrightarrow> map user_id (users (fst (update_users p f db))) = map user_id (users db)"
  by simp

lemma lock_step_inv:
  assumes "lock_step settings uid st st'" "lock_inv settings uid st" and limit: "0 < login_max_failed_attempts settings"
  shows "lock_inv settings uid st'"
  using assms(1,2)
proof (induction rule: lock_step.induct)
  case (counted st db' c now)
  from counted.prems obtain u where u: "get_user (ls_db st) uid = Some u"
    and inv: "distinct (map user_id (users (ls_db st)))" "0 \<le> failed_login_count u"
      "ls_locks st = 0 \<longrightarrow> failed_login_count u = int (ls_failures st)"
      "0 < ls_locks st \<longrightarrow> locked_until u \<noteq> None"
    by (auto simp: lock_inv_def)
  let ?f = "\<lambda>u. u\<lparr>failed_login_count := failed_login_count u + 1\<rparr>"
  have db': "db' = fst (update_users (\<lambda>u. user_id u = uid) ?f (ls_db st))"
    using counted.hyps by (simp add: failure_count_def Let_def)
  have u': "get_user db' uid = Some (?f u)"
    unfolding db' using get_user_update_id [of ?f "ls_db st" uid u "\<lambda>u. user_id u = uid"] u get_user_Some [OF u]
    by simp
  then have c: "c = failed_login_count u + 1" using counted.hyps by (simp add: failure_count_def Let_def db')
  have "distinct (map user_id (users db'))"
    unfolding db' using inv(1) by (subst map_user_id_update_users) simp_all
  with u' c inv show ?case by (auto simp: lock_inv_def)
next
  case (locked st as now bs db' b)
  from locked.prems obtain u where u: "get_user (ls_db st) uid = Some u"
    and inv: "distinct (map user_id (users (ls_db st)))" "0 \<le> failed_login_count u"
      "ls_locks st = 0 \<longrightarrow> failed_login_count u = int (ls_failures st)"
      "0 < ls_locks st \<longrightarrow> locked_until u \<noteq> None"
    by (auto simp: lock_inv_def)
  let ?p = "\<lambda>u. user_id u = uid \<and> login_max_failed_attempts settings \<le> failed_login_count u"
  let ?f = "\<lambda>u. u\<lparr>locked_until := Some (now + minutes (login_lockout_minutes settings)), failed_login_count := 0\<rparr>"
  have db': "db' = fst (update_users ?p ?f (ls_db st))"
    using locked.hyps(2) by (auto simp: failure_lock_def split: prod.splits)
  have b: "b \<longleftrightarrow> login_max_failed_attempts settings \<le> failed_login_count u"
    by (rule failure_lock_user [OF u inv(1) locked.hyps(2)])
  have u': "get_user db' uid = Some (if b then ?f u else u)"
    unfolding db' b using get_user_update_id [of ?f "ls_db st" uid u ?p] u get_user_Some [OF u] by simp
  have "distinct (map user_id (users db'))"
    unfolding db' using inv(1) by (subst map_user_id_update_users) simp_all
  with u' b inv limit show ?case by (auto simp: lock_inv_def)
next
  case (others st db')
  then show ?case by (auto simp: lock_inv_def unrelated_def)
qed

inductive lock_reach :: "auth_settings \<Rightarrow> uuid \<Rightarrow> lock_state \<Rightarrow> lock_state \<Rightarrow> bool" for settings uid where
  start: "lock_reach settings uid st st"
| step: "lock_reach settings uid st st' \<Longrightarrow> lock_step settings uid st' st'' \<Longrightarrow> lock_reach settings uid st st''"

definition lock_start :: "auth_db \<Rightarrow> lock_state" where
  "lock_start db = \<lparr>ls_db = db, ls_waiting = [], ls_failures = 0, ls_locks = 0\<rparr>"

lemma lock_reach_inv:
  "lock_reach settings uid st st' \<Longrightarrow> lock_inv settings uid st \<Longrightarrow> 0 < login_max_failed_attempts settings \<Longrightarrow>
   lock_inv settings uid st'"
  by (induction rule: lock_reach.induct) (auto intro: lock_step_inv)

text \<open>C25: guessing in parallel does not defeat the lockout: however the statements of any number of
  failing attempts and of unrelated requests interleave, once every attempt has finished and at least
  the configured number of failures was recorded, the account has been locked; and at every such
  point fewer failures than the limit are counted since the last lock.\<close>

theorem lockout_cannot_be_raced:
  assumes reach: "lock_reach settings uid (lock_start db) st"
    and user: "get_user db uid = Some u" "failed_login_count u = 0" "distinct (map user_id (users db))"
    and limit: "0 < login_max_failed_attempts settings" and finished: "ls_waiting st = []"
  shows "(\<exists>v. get_user (ls_db st) uid = Some v \<and> failed_login_count v < login_max_failed_attempts settings) \<and>
    (login_max_failed_attempts settings \<le> int (ls_failures st) \<longrightarrow>
       0 < ls_locks st \<and> (\<exists>v. get_user (ls_db st) uid = Some v \<and> locked_until v \<noteq> None))"
proof -
  have "lock_inv settings uid (lock_start db)" using user limit by (simp add: lock_inv_def lock_start_def)
  then have "lock_inv settings uid st"
    by (rule lock_reach_inv [OF reach _ limit])
  then obtain v where "get_user (ls_db st) uid = Some v" "failed_login_count v < login_max_failed_attempts settings"
    "ls_locks st = 0 \<longrightarrow> failed_login_count v = int (ls_failures st)" "0 < ls_locks st \<longrightarrow> locked_until v \<noteq> None"
    using finished by (auto simp: lock_inv_def)
  then show ?thesis by fastforce
qed

lemma lockout_example:
  "\<exists>st. lock_reach (sample_settings\<lparr>login_max_failed_attempts := 2\<rparr>) 1 (lock_start sample_db) st \<and>
        ls_waiting st = [] \<and> ls_failures st = 2"
proof -
  let ?s = "sample_settings\<lparr>login_max_failed_attempts := 2\<rparr>"
  let ?db1 = "sample_db\<lparr>users := [sample_user\<lparr>failed_login_count := 1\<rparr>]\<rparr>"
  let ?db2 = "sample_db\<lparr>users := [sample_user\<lparr>failed_login_count := 2\<rparr>]\<rparr>"
  let ?db3 = "sample_db\<lparr>users := [sample_user\<lparr>locked_until := Some (minutes 15)\<rparr>]\<rparr>"
  have 1: "failure_count sample_db 1 = (?db1, Some 1)" "failure_count ?db1 1 = (?db2, Some 2)"
    by (simp_all add: failure_count_def update_users_def update_where_def sample_defs get_user_def Let_def)
  have 2: "failure_lock ?db2 ?s 1 0 = (?db3, True)"
    by (simp add: failure_lock_def update_users_def update_where_def sample_defs sample_settings_def)
  let ?s1 = "\<lparr>ls_db = ?db1, ls_waiting = [], ls_failures = 1, ls_locks = 0\<rparr>"
  let ?s2 = "\<lparr>ls_db = ?db2, ls_waiting = [0], ls_failures = 2, ls_locks = 0\<rparr>"
  let ?s3 = "\<lparr>ls_db = ?db3, ls_waiting = [], ls_failures = 2, ls_locks = 1\<rparr>"
  have "lock_step ?s 1 (lock_start sample_db) ?s1"
    using lock_step.counted [of "lock_start sample_db" 1 ?db1 1 ?s 0] 1 by (simp add: lock_start_def)
  moreover have "lock_step ?s 1 ?s1 ?s2" using lock_step.counted [of ?s1 1 ?db2 2 ?s 0] 1 by (simp add: numeral_2_eq_2)
  moreover have "lock_step ?s 1 ?s2 ?s3" using lock_step.locked [of ?s2 "[]" 0 "[]" ?s 1 ?db3 True] 2 by simp
  ultimately have "lock_reach ?s 1 (lock_start sample_db) ?s3" by (meson lock_reach.intros)
  then show ?thesis by (intro exI [of _ ?s3]) simp
qed

theorem lockout_cannot_be_raced_witness:
  "\<exists>st :: lock_state. 0 < ls_locks st \<and> (\<exists>v. get_user (ls_db st) 1 = Some v \<and> locked_until v \<noteq> None)"
proof -
  let ?s = "sample_settings\<lparr>login_max_failed_attempts := 2\<rparr>"
  obtain st where st: "lock_reach ?s 1 (lock_start sample_db) st" "ls_waiting st = []" "ls_failures st = 2"
    using lockout_example by blast
  have u: "get_user sample_db 1 = Some sample_user" "failed_login_count sample_user = 0"
      "distinct (map user_id (users sample_db))" "0 < login_max_failed_attempts ?s"
    by (simp_all add: get_user_def sample_defs)
  from lockout_cannot_be_raced [OF st(1) u st(2)] st(3) show ?thesis by auto
qed

subsection \<open>Directory logins\<close>

definition others_only :: "(nat \<Rightarrow> auth_db \<Rightarrow> auth_db) \<Rightarrow> auth_db \<Rightarrow> auth_db \<Rightarrow> bool" where
  \<comment> \<open>the second database has the commits of other requests and nothing else\<close>
  "others_only env db db' = (\<exists>ks. db' = fold env ks db)"

lemma others_only_refl [simp]: "others_only env db db"
  unfolding others_only_def by (rule exI [of _ "[]"]) simp

lemma others_only_env [simp]: "others_only env db db' \<Longrightarrow> others_only env db (env k db')"
  unfolding others_only_def by (metis fold_simps(1,2) fold_append comp_apply)

lemma upsert_base:
  "upsert_directory_user n env sha db config identity now uid = (db', base, r) \<Longrightarrow>
   others_only env db0 db \<Longrightarrow> others_only env db0 base"
proof (induction n arbitrary: db)
  case (Suc n)
  let ?u = "user_with_subject (env 10 db) (DIRECTORY_REALM_PREFIX @ uuid_str (dir_id config))
      (directory_subject_key sha (ident_subject identity))"
  show ?case
  proof (cases ?u)
    case None
    with Suc show ?thesis by (auto simp: Let_def split: if_splits)
  next
    case (Some u)
    with Suc.prems show ?thesis by (auto simp: Let_def split: if_splits prod.splits option.splits)
  qed
qed simp

lemma upsert_user:
  "upsert_directory_user n env sha db config identity now uid = (db', base, Upserted u) \<Longrightarrow>
   user_role u = ident_role identity \<and> is_active u \<and> directory_id u = Some (dir_id config) \<and>
   realm_key u = DIRECTORY_REALM_PREFIX @ uuid_str (dir_id config) \<and>
   subject u = directory_subject_key sha (ident_subject identity)"
proof (induction n arbitrary: db)
  case (Suc n)
  let ?u = "user_with_subject (env 10 db) (DIRECTORY_REALM_PREFIX @ uuid_str (dir_id config))
      (directory_subject_key sha (ident_subject identity))"
  show ?case
  proof (cases ?u)
    case None
    with Suc show ?thesis by (auto simp: Let_def directory_values_def blank_user_def split: if_splits)
  next
    case (Some u)
    with Suc.prems user_with_subject_Some [OF Some] show ?thesis
      by (auto simp: Let_def directory_values_def split: if_splits prod.splits option.splits)
  qed
qed simp

text \<open>A directory login is granted only by the directory the realm names, enabled both when the
  login began and at the recheck, with settings that did not change in between; the user it returns is
  active and has the role and subject the directory answered; and a login that is refused, for
  whatever reason, leaves no write of its own behind.\<close>

theorem authenticate_directory_sound:
  assumes run: "authenticate_directory env sha backend db settings rlm uname pw now uid = (db', oc)"
  shows "(outcome_user oc = None \<longrightarrow> others_only env db db') \<and>
    (\<forall>u. outcome_user oc = Some u \<longrightarrow>
      (\<exists>config maps identity current db2. load_directory (env 1 db) rlm = Some (config, maps) \<and>
         backend config maps uname pw (connect_opts settings) = Authenticated identity \<and>
         get_directory (env 14 db2) (dir_id config) = Some current \<and> is_enabled current \<and>
         dir_updated_at current = dir_updated_at config \<and> is_active u \<and> user_role u = ident_role identity \<and>
         subject u = directory_subject_key sha (ident_subject identity) \<and> directory_id u = Some (dir_id config)))"
proof (cases "load_directory (env 1 db) rlm")
  case None
  with run show ?thesis by (auto simp: authenticate_directory_def)
next
  case (Some cm)
  obtain config maps where cm: "cm = (config, maps)" by (cases cm)
  show ?thesis
  proof (cases "backend config maps uname pw (connect_opts settings)")
    case (Authenticated identity)
    obtain db2 base r where up: "upsert_directory_user 2 env sha (env 1 db) config identity now uid = (db2, base, r)"
      by (cases "upsert_directory_user 2 env sha (env 1 db) config identity now uid")
    have base: "others_only env db base" using upsert_base [OF up] by simp
    note split = run [unfolded authenticate_directory_def Some cm option.case prod.case Authenticated
        backend_result.case up]
    show ?thesis
    proof (cases r)
      case (Upserted u)
      show ?thesis
        using split Some cm Authenticated base upsert_user [OF up [unfolded Upserted]]
        unfolding Upserted by (auto simp: Let_def split: option.splits if_splits)
    qed (use split base in auto)
  qed (use run Some cm in \<open>auto simp: authenticate_directory_def\<close>)
qed

definition sample_directory :: directory_config where
  "sample_directory = \<lparr>dir_id = 3, dir_name = ''ad'', dir_kind = ''ad'', is_enabled = True, sort_order = 0,
     server_uris = [''ldaps://dc''], transport_security = Ldaps, tls_verify = True, ca_cert_pem = None,
     bind_dn = None, bind_password = None, timeout_seconds = 5, user_search_base = ''dc=x'',
     user_search_filter = None, username_attribute = None, unique_id_attribute = None, ad_upn_suffix = None,
     display_name_attribute = None, email_attribute = None, group_mode = ''member_of'', group_search_base = None,
     group_search_filter = None, group_member_attribute = None, group_member_value = None, dir_created_at = 0,
     dir_updated_at = 0\<rparr>"

definition sample_identity :: directory_identity where
  "sample_identity = \<lparr>ident_subject = ''guid'', ident_username = ''ann'', ident_display_name = None,
     ident_email = None, ident_dn = ''cn=ann'', ident_role = OPERATOR, ident_matched_groups = []\<rparr>"

lemma sample_directory_refused:
  "snd (authenticate_directory (\<lambda>k d. if k = 14 then d\<lparr>directories := [sample_directory\<lparr>is_enabled := False\<rparr>]\<rparr> else d)
     (\<lambda>x. x) (\<lambda>_ _ _ _ _. Authenticated sample_identity) (sample_db\<lparr>directories := [sample_directory]\<rparr>)
     sample_settings (''dir:'' @ uuid_str 3) ''ann'' ''pw'' 5 9) =
   \<lparr>outcome_user = None, outcome_reason = ''directory_disabled''\<rparr>"
  unfolding sample_defs sample_settings_def sample_directory_def sample_identity_def by code_simp

theorem authenticate_directory_sound_witness:
  "others_only (\<lambda>k d. if k = 14 then d\<lparr>directories := [sample_directory\<lparr>is_enabled := False\<rparr>]\<rparr> else d)
     (sample_db\<lparr>directories := [sample_directory]\<rparr>)
     (fst (authenticate_directory (\<lambda>k d. if k = 14 then d\<lparr>directories := [sample_directory\<lparr>is_enabled := False\<rparr>]\<rparr> else d)
       (\<lambda>x. x) (\<lambda>_ _ _ _ _. Authenticated sample_identity) (sample_db\<lparr>directories := [sample_directory]\<rparr>)
       sample_settings (''dir:'' @ uuid_str 3) ''ann'' ''pw'' 5 9))"
  using authenticate_directory_sound [OF surjective_pairing] sample_directory_refused by simp

end
