(* ===== verification/AuthRoutes.thy ===== *)
theory AuthRoutes
  imports LoginService
begin

section \<open>Login, logout and the own password (api/routes/auth.py)\<close>

text \<open>
  The routes of \<open>/api/auth\<close>. A response is its status and the cookie it sets, clears or leaves. The
  transaction of a login is committed when a response is returned, so that a recorded failure
  survives the 401. \<open>login_env\<close> bundles the parameters that stand for argon2, the Unicode functions,
  SHA-256 and the LDAP backend.
\<close>

record login_env =
  le_sha :: "string \<Rightarrow> string"
  le_nfkc :: "string \<Rightarrow> string"
  le_casefold :: "string \<Rightarrow> string"
  le_argon_ok :: "string \<Rightarrow> string \<Rightarrow> bool"
  le_outdated :: "string \<Rightarrow> bool"
  le_hash :: "string \<Rightarrow> string"
  le_backend :: "directory_config \<Rightarrow> group_mapping list \<Rightarrow> string \<Rightarrow> string \<Rightarrow> connect_options \<Rightarrow> backend_result"

datatype cookie_action = KeepCookie | SetCookie string string int | ClearCookie string

record response =
  resp_status :: nat
  resp_cookie :: cookie_action

record me_response =
  me_auth_enabled :: bool
  me_username :: string
  me_role :: string
  me_realm :: string
  me_can_change_password :: bool
  me_activity_interval :: "int option"
  me_principal_id :: "string option"

definition activity_interval_seconds :: "auth_settings \<Rightarrow> int option" where
  \<comment> \<open>whole seconds; the interval is not negative\<close>
  "activity_interval_seconds settings =
     (if \<not> auth_enabled settings then None
      else Some (touch_interval (policy_of_settings settings) div seconds 1))"

definition me :: "principal \<Rightarrow> auth_settings \<Rightarrow> me_response" where
  "me p settings =
     \<lparr>me_auth_enabled = auth_enabled settings, me_username = pr_username p, me_role = role_value (pr_role p),
      me_realm = pr_realm p, me_can_change_password = (pr_realm p = LOCAL_REALM),
      me_activity_interval = activity_interval_seconds settings,
      me_principal_id = (case (pr_user_id p, pr_session_id p) of
         (Some u, Some s) \<Rightarrow> Some (principal_marker u s) | _ \<Rightarrow> None)\<rparr>"

definition get_realms :: "auth_db \<Rightarrow> auth_settings \<Rightarrow> bool \<times> realm list" where
  "get_realms db settings = (if \<not> auth_enabled settings then (False, []) else (True, list_realms db settings))"

definition login_response ::
  "login_env \<Rightarrow> (nat \<Rightarrow> auth_db \<Rightarrow> auth_db) \<Rightarrow> request \<Rightarrow> auth_db \<Rightarrow> auth_settings \<Rightarrow> string \<Rightarrow> string \<Rightarrow> string \<Rightarrow>
   instant \<Rightarrow> uuid \<Rightarrow> uuid \<Rightarrow> string \<Rightarrow> auth_db \<times> response" where
  "login_response le env req db settings rlm uname password now uid sid token =
     (case authenticate env (le_sha le) (le_nfkc le) (le_casefold le) (le_argon_ok le) (le_outdated le)
             (le_hash le) (le_backend le) db settings rlm uname password now uid of
        (db, oc) \<Rightarrow>
          (case outcome_user oc of
             None \<Rightarrow> (db, \<lparr>resp_status = 401, resp_cookie = KeepCookie\<rparr>)
           | Some u \<Rightarrow>
               let cookie_name = session_cookie_name settings; policy = policy_of_settings settings;
                   db = revoke_session (le_sha le) db (map_of (req_cookies req) cookie_name);
                   (db, token) = create_session (le_sha le) db u policy (req_client req)
                                   (header_get req ''user-agent'') now sid token
               in (db, \<lparr>resp_status = 200,
                        resp_cookie = SetCookie cookie_name token (absolute_timeout policy div seconds 1)\<rparr>)))"

definition login where
  "login le env req db settings rlm uname password now uid sid token =
     (if \<not> auth_enabled settings then (db, \<lparr>resp_status = 404, resp_cookie = KeepCookie\<rparr>)
      else login_response le env req db settings rlm uname password now uid sid token)"

definition logout ::
  "(nat \<Rightarrow> auth_db \<Rightarrow> auth_db) \<Rightarrow> (string \<Rightarrow> string) \<Rightarrow> request \<Rightarrow> auth_db \<Rightarrow> auth_settings \<Rightarrow> instant \<Rightarrow> auth_db \<times> response" where
  \<comment> \<open>an error rolls back\<close>
  "logout env sha req db settings now =
     (let cookie_name = session_cookie_name settings; token = map_of (req_cookies req) cookie_name;
          ok = \<lparr>resp_status = 204, resp_cookie = ClearCookie cookie_name\<rparr>
      in if \<not> auth_enabled settings \<or> token = None \<or> token = Some '''' then (db, ok)
         else case resolve_session env sha db token (policy_of_settings settings) now False of
           (db', r) \<Rightarrow>
             (case (case r of None \<Rightarrow> Inr ()
                    | Some r \<Rightarrow> snd (refuse_if_principal_switched req
                        (principal_marker (user_id (resolved_user r)) (session_id (resolved_session r)))
                        \<lparr>vea_principal_id = None, vea_session_touched = False\<rparr>)) of
                Inl (HttpError s _) \<Rightarrow> (db, \<lparr>resp_status = s, resp_cookie = KeepCookie\<rparr>)
              | Inr _ \<Rightarrow> (revoke_session sha db' token, ok)))"

definition change_own_password ::
  "login_env \<Rightarrow> (nat \<Rightarrow> auth_db \<Rightarrow> auth_db) \<Rightarrow> principal \<Rightarrow> auth_db \<Rightarrow> auth_settings \<Rightarrow> string \<Rightarrow> string \<Rightarrow> instant \<Rightarrow>
   http_error + auth_db" where
  "change_own_password le env p db settings current new now =
     (if \<not> auth_enabled settings then Inl (HttpError 404 '''')
      else if pr_realm p \<noteq> LOCAL_REALM then Inl (HttpError 400 ''directory'')
      else case pr_user_id p of None \<Rightarrow> Inl (HttpError 400 ''directory'')
      | Some uid \<Rightarrow>
        (case get_user db uid of None \<Rightarrow> Inl (HttpError 401 ''login'')
         | Some u \<Rightarrow>
             let verified_hash = password_hash u in
             if \<not> verify_ok (verify_password (le_argon_ok le) (le_outdated le) verified_hash current)
             then Inl (HttpError 400 ''current'')
             else if current = new then Inl (HttpError 400 ''same'')
             else (case set_local_password (le_hash le) (env 1) db u new (password_min_length settings)
                       (pr_session_id p) verified_hash now of
                 Inl PasswordChangedConcurrentlyError \<Rightarrow> Inl (HttpError 409 ''concurrent'')
               | Inl _ \<Rightarrow> Inl (HttpError 400 ''policy'')
               | Inr (_, db) \<Rightarrow> Inr db)))"

subsection \<open>What a login leaves behind\<close>

lemma revoke_session_subset: "set (sessions (revoke_session sha db t)) \<subseteq> set (sessions db)"
  by (auto simp: revoke_session_def split: option.splits)

lemma revoke_session_gone:
  "t \<noteq> [] \<Longrightarrow> s \<in> set (sessions (revoke_session sha db (Some t))) \<Longrightarrow> token_hash s \<noteq> sha t"
  by (auto simp: revoke_session_def)

text \<open>a login that is answered with 200 sets the cookie to the token of one new session of the
  authenticated user, opened with the user's password generation; the session that the request's
  cookie named is gone (no session fixation), and a login answered otherwise sets no cookie.\<close>

theorem login_issues_a_fresh_session:
  assumes run: "login le env req db settings rlm uname pw now uid sid token = (db', r)"
  shows "(resp_status r = 200 \<longrightarrow>
      (\<exists>u db1 oc row. authenticate env (le_sha le) (le_nfkc le) (le_casefold le) (le_argon_ok le) (le_outdated le)
             (le_hash le) (le_backend le) db settings rlm uname pw now uid = (db1, oc) \<and> outcome_user oc = Some u \<and>
         pw \<noteq> [] \<and> sessions db' = sessions (revoke_session (le_sha le) db1
             (map_of (req_cookies req) (session_cookie_name settings))) @ [row] \<and>
         session_user row = user_id u \<and> token_hash row = le_sha le token \<and> session_marker row = credential_marker u \<and>
         created_at row = now \<and> expires_at row = now + hours (session_absolute_timeout_hours settings) \<and>
         (\<exists>age. resp_cookie r = SetCookie (session_cookie_name settings) token age))) \<and>
    (resp_status r \<noteq> 200 \<longrightarrow> resp_cookie r = KeepCookie)"
proof (cases "auth_enabled settings")
  case False
  with run show ?thesis by (auto simp: login_def)
next
  case True
  let ?auth = "authenticate env (le_sha le) (le_nfkc le) (le_casefold le) (le_argon_ok le) (le_outdated le)
             (le_hash le) (le_backend le) db settings rlm uname pw now uid"
  obtain db1 oc where oc: "?auth = (db1, oc)" by (cases ?auth)
  have ok: "outcome_user oc = Some u \<Longrightarrow> pw \<noteq> []" for u
    using oc by (auto simp: authenticate_def Let_def split: if_splits)
  show ?thesis
  proof (cases "outcome_user oc")
    case None
    with run oc True show ?thesis by (auto simp: login_def login_response_def)
  next
    case (Some u)
    with run oc True ok [OF Some] show ?thesis
      by (auto simp: login_def login_response_def create_session_def Let_def policy_of_settings_def)
  qed
qed

definition sample_login_env :: login_env where
  "sample_login_env = \<lparr>le_sha = (\<lambda>x. x), le_nfkc = (\<lambda>x. x), le_casefold = (\<lambda>x. x), le_argon_ok = (=),
     le_outdated = (\<lambda>_. False), le_hash = (\<lambda>x. x), le_backend = (\<lambda>_ _ _ _ _. OtherError)\<rparr>"

lemma sample_login_run:
  "resp_status (snd (login sample_login_env alone sample_request sample_db sample_settings ''local'' ''root'' ''h'' 5 9 8 ''new'')) = 200"
proof -
  have c: "map_of (req_cookies sample_request) (session_cookie_name sample_settings) = Some ''tok''"
    by (simp add: sample_request_def session_cookie_name_def sample_settings_def)
  have a: "auth_enabled sample_settings" "local_login_enabled sample_settings" by (simp_all add: sample_settings_def)
  show ?thesis
    using sample_login a
    by (simp add: login_def login_response_def authenticate_def sample_login_env_def LOCAL_REALM_def
        PASSWORD_MAX_LENGTH_def create_session_def Let_def)
qed

theorem login_issues_a_fresh_session_witness:
  "\<exists>row. sessions (fst (login sample_login_env alone sample_request sample_db sample_settings ''local'' ''root'' ''h'' 5 9 8 ''new'')) =
     [row] \<and> token_hash row = ''new''"
proof -
  let ?run = "login sample_login_env alone sample_request sample_db sample_settings ''local'' ''root'' ''h'' 5 9 8 ''new''"
  have c: "map_of (req_cookies sample_request) (session_cookie_name sample_settings) = Some ''tok''"
    by (simp add: sample_request_def session_cookie_name_def sample_settings_def)
  from login_issues_a_fresh_session [OF surjective_pairing, of sample_login_env alone sample_request sample_db
      sample_settings "''local''" "''root''" "''h''" 5 9 8 "''new''"] sample_login_run
  obtain db1 oc row where r: "authenticate alone (\<lambda>x. x) (\<lambda>x. x) (\<lambda>x. x) (=) (\<lambda>_. False) (\<lambda>x. x) (\<lambda>_ _ _ _ _. OtherError)
       sample_db sample_settings ''local'' ''root'' ''h'' 5 9 = (db1, oc)"
    "sessions (fst ?run) = sessions (revoke_session (\<lambda>x. x) db1 (Some ''tok'')) @ [row]" "token_hash row = ''new''"
    unfolding c by (auto simp: sample_login_env_def)
  have "sessions db1 = [sample_session]"
    using r(1) sample_login
    by (auto simp: authenticate_def LOCAL_REALM_def PASSWORD_MAX_LENGTH_def sample_settings_def sample_db_def)
  with r(2,3) show ?thesis by (auto simp: revoke_session_def sample_session_def)
qed

subsection \<open>Logout\<close>

text \<open>a logout that is answered with 204 leaves no session with the token of the cookie, so the token
  logs nobody in afterwards; a logout from a page that shows another user or session than the cookie's
  is refused with 409 and changes nothing.\<close>

theorem logout_ends_the_session:
  assumes "logout env sha req db settings now = (db', r)" "auth_enabled settings"
    and "map_of (req_cookies req) (session_cookie_name settings) = Some t" "t \<noteq> ''''"
  shows "(resp_status r = 204 \<longrightarrow> snd (resolve_session alone sha db' (Some t) pol now2 touch) = None \<and>
            resp_cookie r = ClearCookie (session_cookie_name settings)) \<and>
         (resp_status r \<noteq> 204 \<longrightarrow> resp_status r = 409 \<and> db' = db \<and> resp_cookie r = KeepCookie)"
proof -
  have gone: "snd (resolve_session alone sha (revoke_session sha d (Some t)) (Some t) pol now2 touch) = None" for d
    using revoke_session_gone [OF assms(4)] by (intro resolve_alone_None) (auto dest: session_with_hash_Some)
  obtain d x where res: "resolve_session env sha db (Some t) (policy_of_settings settings) now False = (d, x)"
    by (cases "resolve_session env sha db (Some t) (policy_of_settings settings) now False")
  show ?thesis
  proof (cases x)
    case None
    with assms res gone show ?thesis by (auto simp: logout_def Let_def)
  next
    case (Some y)
    let ?chk = "snd (refuse_if_principal_switched req (principal_marker (user_id (resolved_user y))
        (session_id (resolved_session y))) \<lparr>vea_principal_id = None, vea_session_touched = False\<rparr>)"
    have "?chk = Inr () \<or> ?chk = Inl (HttpError 409 ''principal_switched'')"
      by (auto simp: refuse_if_principal_switched_def raise_when_def split: option.splits)
    with assms res gone Some show ?thesis by (auto simp: logout_def Let_def)
  qed
qed

theorem logout_ends_the_session_witness:
  "snd (resolve_session alone (\<lambda>x. x)
     (fst (logout alone (\<lambda>x. x) sample_request sample_db sample_settings 5)) (Some ''tok'') sample_policy 6 True) = None"
proof -
  have c: "map_of (req_cookies sample_request) (session_cookie_name sample_settings) = Some ''tok''"
    by (simp add: sample_request_def session_cookie_name_def sample_settings_def)
  have a: "auth_enabled sample_settings" by (simp add: sample_settings_def)
  have "resp_status (snd (logout alone (\<lambda>x. x) sample_request sample_db sample_settings 5)) = 204"
    unfolding sample_defs sample_settings_def sample_request_def principal_marker_def by code_simp
  with logout_ends_the_session [OF surjective_pairing a c] show ?thesis by simp
qed

subsection \<open>Changing the own password\<close>

lemma change_own_password_Inr:
  assumes "change_own_password le env p db settings current new now = Inr db'"
  obtains uid u h u' where "pr_realm p = LOCAL_REALM" "pr_user_id p = Some uid" "get_user db uid = Some u"
    "password_hash u = Some h" "le_argon_ok le h current" "current \<noteq> new"
    "set_local_password (le_hash le) (env 1) db u new (password_min_length settings) (pr_session_id p) (Some h) now
       = Inr (u', db')"
  using assms
  by (auto simp: change_own_password_def Let_def verify_ok_iff split: if_splits option.splits sum.splits user_error.splits)

text \<open>a user changes the own password only by giving the current one; afterwards, whatever happened
  while it was hashed, the only session of that user that can be resolved is the one the change was
  made from, and that one still works as long as it has not expired and the user is active.\<close>

theorem change_own_password_keeps_this_session:
  assumes res: "change_own_password le env p db settings current new now = Inr db'"
    and sess: "session_with_hash db' (sha t) = Some s" "t \<noteq> ''''" "Some (session_user s) = pr_user_id p"
    and row: "get_user db' (session_user s) = Some v" "directory_id v = None"
    and env: "distinct (map user_id (users (env 1 db)))"
  shows "(snd (resolve_session alone sha db' (Some t) pol now2 touch) \<noteq> None \<longleftrightarrow>
            is_active v \<and> \<not> is_expired s pol now2) \<and>
    pr_session_id p = Some (session_id s) \<and>
    (\<exists>u h. get_user db (session_user s) = Some u \<and> password_hash u = Some h \<and> le_argon_ok le h current)"
proof -
  from res obtain uid u h u' where p: "pr_user_id p = Some uid" and u: "get_user db uid = Some u"
    and h: "password_hash u = Some h" "le_argon_ok le h current"
    and set: "set_local_password (le_hash le) (env 1) db u new (password_min_length settings) (pr_session_id p) (Some h) now
       = Inr (u', db')" by (rule change_own_password_Inr)
  have ids: "user_id u = uid" "session_user s = uid" using u p sess(3) by (auto dest: get_user_Some)
  have s: "s \<in> set (sessions db')" using sess(1) by (rule session_with_hash_Some [THEN conjunct1])
  have keep: "pr_session_id p = Some (session_id s)" and marker: "session_marker s = credential_marker u'"
    using set_local_password_kept [OF set s] ids by simp_all
  have "credential_marker v = credential_marker u'"
  proof -
    have "v \<in> set (users db')" "user_id v = user_id u" using row(1) ids by (auto dest: get_user_Some)
    then show ?thesis using env by (rule set_local_password_row [OF set])
  qed
  with marker row sess u p ids h keep show ?thesis
    unfolding resolve_alone_iff by (auto simp: is_expired_iff expired_where_def directory_usable_def)
qed

theorem change_own_password_keeps_this_session_witness:
  "\<exists>db'. change_own_password sample_login_env alone sample_principal sample_db sample_settings ''h'' ''new-secret-1'' 9 = Inr db' \<and>
     snd (resolve_session alone (\<lambda>x. x) db' (Some ''tok'') sample_policy 10 True) \<noteq> None"
proof -
  let ?s = "sample_session\<lparr>session_marker := Some (isoformat (utc 9))\<rparr>"
  let ?u = "password_values (\<lambda>x. x) ''new-secret-1'' 9 sample_user"
  let ?db = "sample_db\<lparr>users := [?u], sessions := [?s]\<rparr>"
  have pol: "validate_password_policy ''new-secret-1'' 12 = None" by code_simp
  have r: "change_own_password sample_login_env alone sample_principal sample_db sample_settings ''h'' ''new-secret-1'' 9 = Inr ?db"
    by (simp add: change_own_password_def sample_settings_def sample_principal_def LOCAL_REALM_def get_user_def
        sample_defs sample_login_env_def verify_password_def set_local_password_def pol update_users_def
        update_where_def revoke_all_for_user_def set_marker_def credential_marker_def Let_def password_values_def)
  have 1: "session_with_hash ?db ''tok'' = Some ?s" by (simp add: session_with_hash_def sample_session_def)
  have 2: "get_user ?db (session_user ?s) = Some ?u"
    by (simp add: get_user_def sample_session_def sample_user_def password_values_def)
  have 3: "Some (session_user ?s) = pr_user_id sample_principal"
    by (simp add: sample_session_def sample_principal_def)
  have "snd (resolve_session alone (\<lambda>x. x) ?db (Some ''tok'') sample_policy 10 True) \<noteq> None"
    using change_own_password_keeps_this_session [OF r, of "\<lambda>x. x" "''tok''", OF 1 _ 3 2]
    by (simp add: sample_defs password_values_def is_expired_def timedelta_defs)
  with r show ?thesis by blast
qed

end
