(* ===== verification/Netaddr.thy ===== *)
theory Netaddr
  imports Pytext
begin

section \<open>Address literals and host labels\<close>

text \<open>
  What the program uses of the standard library's \<open>ipaddress\<close> module (\<open>ip_address(s)\<close> raises
  \<open>ValueError\<close> unless \<open>s\<close> is an IPv4 or IPv6 literal) and, from services/vcenter\_labels.py, the
  strings that stand for a vCenter and the short label of a host. An address is its number; an
  IPv6 address keeps its scope.
\<close>

datatype ip = IPv4 int | IPv6 int "string option"

fun split_on :: "char \<Rightarrow> string \<Rightarrow> string list" where
  \<comment> \<open>\<open>s.split(c)\<close>\<close>
  "split_on c [] = [[]]"
| "split_on c (x # s) =
     (if x = c then [] # split_on c s
      else (case split_on c s of [] \<Rightarrow> [[x]] | p # ps \<Rightarrow> (x # p) # ps))"

definition ipv4_octet :: "string \<Rightarrow> int option" where
  "ipv4_octet s =
     (if s \<noteq> [] \<and> list_all is_decimal_char s \<and> length s \<le> 3 \<and> (s = ''0'' \<or> hd s \<noteq> CHR ''0'')
         \<and> decimal_value s \<le> 255
      then Some (decimal_value s) else None)"

definition ipv4_of :: "string \<Rightarrow> int option" where
  "ipv4_of s =
     (case map ipv4_octet (split_on (CHR ''.'') s) of
        [Some a, Some b, Some c, Some d] \<Rightarrow> Some (((a * 256 + b) * 256 + c) * 256 + d)
      | _ \<Rightarrow> None)"

definition hex_value :: "char \<Rightarrow> int option" where
  "hex_value c =
     (let n = int (code c)
      in if 48 \<le> n \<and> n \<le> 57 then Some (n - 48)
         else if 65 \<le> n \<and> n \<le> 70 then Some (n - 55)
         else if 97 \<le> n \<and> n \<le> 102 then Some (n - 87) else None)"

definition hextet :: "string \<Rightarrow> int option" where
  "hextet s =
     (if s = [] \<or> 4 < length s then None
      else map_option (foldl (\<lambda>n d. 16 * n + d) 0) (those (map hex_value s)))"

definition groups_value :: "int option list \<Rightarrow> int option" where
  "groups_value gs = map_option (foldl (\<lambda>n g. 65536 * n + g) 0) (those gs)"

definition ipv6_groups :: "(bool \<times> int option) list \<Rightarrow> int option" where
  \<comment> \<open>the parts between the colons: whether it is empty, and its number\<close>
  "ipv6_groups parts =
     (let len = length parts; skips = filter (\<lambda>i. fst (parts ! i)) [1 ..< len - 1]
      in if 9 < len then None
         else (case skips of
           [] \<Rightarrow> if len \<noteq> 8 \<or> fst (hd parts) \<or> fst (last parts) then None else groups_value (map snd parts)
         | [i] \<Rightarrow>
             (let hi = (if fst (hd parts) then i - 1 else i);
                  lo = (if fst (last parts) then len - i - 2 else len - i - 1)
              in if fst (hd parts) \<and> hi \<noteq> 0 \<or> fst (last parts) \<and> lo \<noteq> 0 \<or> 8 \<le> hi + lo then None
                 else groups_value (map snd (take hi parts) @ replicate (8 - (hi + lo)) (Some 0)
                        @ map snd (drop (len - lo) parts)))
         | _ \<Rightarrow> None))"

definition ipv6_of :: "string \<Rightarrow> int option" where
  "ipv6_of s =
     (let texts = split_on (CHR '':'') s; parts = map (\<lambda>t. (t = [], hextet t)) texts
      in if length texts < 3 then None
         else if CHR ''.'' \<in> set (last texts)
         then (case ipv4_of (last texts) of
                 None \<Rightarrow> None
               | Some v \<Rightarrow> ipv6_groups (butlast parts @ [(False, Some (v div 65536)), (False, Some (v mod 65536))]))
         else ipv6_groups parts)"

definition ip_address :: "string \<Rightarrow> ip option" where
  \<comment> \<open>\<open>None\<close> is \<open>ValueError\<close>\<close>
  "ip_address s =
     (case ipv4_of s of
        Some v \<Rightarrow> Some (IPv4 v)
      | None \<Rightarrow>
          (let addr = takeWhile (\<lambda>c. c \<noteq> CHR ''%'') s; rest = dropWhile (\<lambda>c. c \<noteq> CHR ''%'') s
           in if CHR ''/'' \<in> set s \<or> rest \<noteq> [] \<and> (tl rest = [] \<or> CHR ''%'' \<in> set (tl rest)) then None
              else map_option (\<lambda>v. IPv6 v (if rest = [] then None else Some (tl rest))) (ipv6_of addr)))"

lemma ip_address_samples:
  "ip_address ''10.1.2.255'' = Some (IPv4 167838463)" "ip_address ''10.1.2.256'' = None" "ip_address ''10.01.2.3'' = None"
  "ip_address ''::1'' = Some (IPv6 1 None)" "ip_address ''fe80::1%eth0'' = Some (IPv6 338288524927261089654018896841347694593 (Some ''eth0''))"
  "ip_address ''::ffff:1.2.3.4'' = Some (IPv6 281470698652420 None)" "ip_address ''1:2::3::4'' = None" "ip_address ''db.example.com'' = None"
  by code_simp+

definition fromkeys :: "'a list \<Rightarrow> 'a list" where
  \<comment> \<open>\<open>list(dict.fromkeys(xs))\<close>: the first occurrence of each\<close>
  "fromkeys xs = rev (remdups (rev xs))"

lemma set_fromkeys [simp]: "set (fromkeys xs) = set xs" and distinct_fromkeys [simp]: "distinct (fromkeys xs)"
  by (simp_all add: fromkeys_def)

subsection \<open>Labels (services/vcenter\_labels.py)\<close>

definition first_hostname_label_if_fqdn :: "string \<Rightarrow> string option" where
  "first_hostname_label_if_fqdn host =
     (let h = py_strip host
      in if CHR ''.'' \<notin> set h \<or> ip_address h \<noteq> None then None
         else let first = takeWhile (\<lambda>c. c \<noteq> CHR ''.'') h
              in if first = [] then None else Some first)"

definition vcenter_strings_for_anonymization :: "string \<Rightarrow> string \<Rightarrow> string list" where
  "vcenter_strings_for_anonymization name host =
     (let n = py_strip name; h = py_strip host;
          short = (case first_hostname_label_if_fqdn h of
                     Some s \<Rightarrow> if s \<notin> {n, h} then [s] else [] | None \<Rightarrow> [])
      in if h = [] then (if n = [] then [] else [n])
         else if n = [] then h # short
         else if n = h then [n] else [n, h] @ short)"

definition load_all_vcenter_anonymization_strings :: "(string \<times> string) list \<Rightarrow> string list" where
  \<comment> \<open>name and host of every row of \<open>vcenters\<close>\<close>
  "load_all_vcenter_anonymization_strings rows =
     fromkeys (concat (map (\<lambda>(name, host). vcenter_strings_for_anonymization name host) rows))"

end
