(* ===== verification/Dn.thy ===== *)
theory Dn
  imports AuthDb Netaddr "HOL-Library.List_Lexorder" "HOL-Library.Char_ord"
begin

section \<open>Distinguished names (auth/directory/role\_mapping.py)\<close>

text \<open>
  The normal form under which a group of the mapping table is compared with the groups a directory
  reports. Parsing and escaping are those of \<open>ldap3\<close>, and case folding, NFKC and UTF-8 are those of the
  standard library; they are the fields of \<open>dn_lib\<close>. Encoded text is a list of bytes.
\<close>

record dn_lib =
  dl_parse_dn :: "string \<Rightarrow> (string \<times> string \<times> string) list option" \<comment> \<open>\<open>None\<close> is an exception\<close>
  dl_escape_rdn :: "string \<Rightarrow> string"
  dl_casefold :: "string \<Rightarrow> string"
  dl_nfkc :: "string \<Rightarrow> string"
  dl_utf8_encode :: "string \<Rightarrow> string"
  dl_utf8_decode :: "string \<Rightarrow> string option"

definition ATTRIBUTE_NAMES_BY_OID :: "(string, string) dict" where
  "ATTRIBUTE_NAMES_BY_OID =
    [(''2.5.4.3'', ''cn''), (''2.5.4.11'', ''ou''), (''2.5.4.10'', ''o''), (''2.5.4.6'', ''c''), (''2.5.4.7'', ''l''),
     (''2.5.4.8'', ''st''), (''2.5.4.9'', ''street''), (''2.5.4.4'', ''sn''), (''2.5.4.42'', ''givenname''),
     (''2.5.4.43'', ''initials''), (''2.5.4.44'', ''generationqualifier''), (''2.5.4.12'', ''title''),
     (''2.5.4.5'', ''serialnumber''), (''2.5.4.13'', ''description''), (''2.5.4.15'', ''businesscategory''),
     (''2.5.4.46'', ''dnqualifier''), (''2.5.4.51'', ''houseidentifier''), (''2.5.4.41'', ''name''),
     (''2.5.4.17'', ''postalcode''), (''2.5.4.18'', ''postofficebox''), (''2.5.4.19'', ''physicaldeliveryofficename''),
     (''2.5.4.27'', ''destinationindicator''), (''2.5.4.2'', ''knowledgeinformation''),
     (''0.9.2342.19200300.100.1.25'', ''dc''), (''0.9.2342.19200300.100.1.1'', ''uid''),
     (''0.9.2342.19200300.100.1.3'', ''mail''), (''0.9.2342.19200300.100.1.4'', ''info''),
     (''0.9.2342.19200300.100.1.5'', ''drink''), (''0.9.2342.19200300.100.1.6'', ''roomnumber''),
     (''0.9.2342.19200300.100.1.8'', ''userclass''), (''0.9.2342.19200300.100.1.9'', ''host''),
     (''0.9.2342.19200300.100.1.11'', ''documentidentifier''), (''0.9.2342.19200300.100.1.12'', ''documenttitle''),
     (''0.9.2342.19200300.100.1.13'', ''documentversion''), (''0.9.2342.19200300.100.1.15'', ''documentlocation''),
     (''0.9.2342.19200300.100.1.37'', ''associateddomain''), (''0.9.2342.19200300.100.1.40'', ''personaltitle''),
     (''0.9.2342.19200300.100.1.43'', ''co''), (''0.9.2342.19200300.100.1.44'', ''uniqueidentifier''),
     (''0.9.2342.19200300.100.1.45'', ''organizationalstatus''), (''0.9.2342.19200300.100.1.48'', ''buildingname''),
     (''0.9.2342.19200300.100.1.56'', ''documentpublisher'')]"

definition CASE_INSENSITIVE_ATTRS :: "string list" where
  "CASE_INSENSITIVE_ATTRS = map snd ATTRIBUTE_NAMES_BY_OID"

definition backslash :: char where "backslash = CHR 0x5C"
definition quote_char :: char where "quote_char = CHR 0x22"

subsection \<open>Attributes written as OIDs\<close>

fun starts_from :: "nat \<Rightarrow> bool \<Rightarrow> bool \<Rightarrow> string \<Rightarrow> nat list" where
  \<comment> \<open>the loop of \<open>_attribute_starts\<close> from position \<open>i\<close>\<close>
  "starts_from i escaped quoted [] = []"
| "starts_from i escaped quoted (c # s) =
     (if escaped then starts_from (i + 1) False quoted s
      else if c = backslash then starts_from (i + 1) True quoted s
      else if c = quote_char then starts_from (i + 1) False (\<not> quoted) s
      else if c \<in> set '',+'' \<and> \<not> quoted then (i + 1) # starts_from (i + 1) False quoted s
      else starts_from (i + 1) False quoted s)"

definition attribute_starts :: "string \<Rightarrow> nat list" where
  "attribute_starts dn = 0 # starts_from 0 False False dn"

definition oid_attribute :: "string \<Rightarrow> (string \<times> string \<times> string \<times> nat) option" where
  \<comment> \<open>\<open>_OID_ATTRIBUTE.match\<close> at the front of \<open>s\<close>: the three groups and the length of the match\<close>
  "oid_attribute s =
     (let ws = takeWhile py_isspace_char s; r = dropWhile py_isspace_char s;
          marker = (if py_lower (take 4 r) = ''oid.'' then take 4 r else []);
          r = drop (length marker) r;
          oid = takeWhile (\<lambda>c. is_decimal_char c \<or> c = CHR ''.'') r; parts = split_on (CHR ''.'') oid;
          r = drop (length oid) r; ws2 = takeWhile py_isspace_char r; r = dropWhile py_isspace_char r
      in if 2 \<le> length parts \<and> [] \<notin> set parts \<and> startswith r ''=''
         then Some (ws, oid, ws2 @ ''='', length ws + length marker + length oid + length ws2 + 1) else None)"

definition replace_step :: "string \<Rightarrow> string \<times> nat \<Rightarrow> nat \<Rightarrow> string \<times> nat" where
  "replace_step dn = (\<lambda>(pieces, last_end) start.
     (case oid_attribute (drop start dn) of None \<Rightarrow> (pieces, last_end)
      | Some (ws, oid, eq, n) \<Rightarrow>
          (case map_of ATTRIBUTE_NAMES_BY_OID oid of None \<Rightarrow> (pieces, last_end)
           | Some name \<Rightarrow> (pieces @ slice last_end start dn @ ws @ name @ eq, start + n))))"

definition replace_known_oids :: "string \<Rightarrow> string" where
  "replace_known_oids dn =
     (let (pieces, last_end) = foldl (replace_step dn) ([], 0) (attribute_starts dn) in pieces @ drop last_end dn)"

subsection \<open>Values\<close>

definition is_hex_char :: "char \<Rightarrow> bool" where "is_hex_char c = (hex_value c \<noteq> None)"

fun unescape_bytes :: "(string \<Rightarrow> string) \<Rightarrow> string \<Rightarrow> string option" where
  "unescape_bytes enc [] = Some []"
| "unescape_bytes enc (c # s) =
     (if c \<noteq> backslash then map_option ((@) (enc [c])) (unescape_bytes enc s)
      else (case s of
          [] \<Rightarrow> None
        | a # s' \<Rightarrow>
            (case s' of b # s'' \<Rightarrow>
                if is_hex_char a \<and> is_hex_char b
                then map_option ((#) (char_of (nat (16 * the (hex_value a) + the (hex_value b))))) (unescape_bytes enc s'')
                else map_option ((@) (enc [a])) (unescape_bytes enc s')
             | [] \<Rightarrow> map_option ((@) (enc [a])) (unescape_bytes enc s'))))"

definition unescape_value :: "dn_lib \<Rightarrow> string \<Rightarrow> string option" where
  \<comment> \<open>\<open>None\<close> is \<open>ValueError\<close>\<close>
  "unescape_value dl s = Option.bind (unescape_bytes (dl_utf8_encode dl) s) (dl_utf8_decode dl)"

definition parse_value :: "dn_lib \<Rightarrow> string \<times> string \<times> string \<Rightarrow> (string \<times> string \<times> string) option" where
  "parse_value dl = (\<lambda>(attr, val, sep). map_option (\<lambda>v. (attr, v, sep)) (unescape_value dl (py_strip val)))"

definition parse_name :: "dn_lib \<Rightarrow> string \<Rightarrow> (string \<times> string \<times> string) list option" where
  \<comment> \<open>\<open>_parse\<close>\<close>
  "parse_name dl dn = Option.bind (dl_parse_dn dl (replace_known_oids dn)) (\<lambda>parts. those (map (parse_value dl) parts))"

definition is_valid_dn :: "dn_lib \<Rightarrow> string \<Rightarrow> bool" where
  "is_valid_dn dl dn = (case parse_name dl (py_strip dn) of None \<Rightarrow> False | Some parts \<Rightarrow> parts \<noteq> [])"

subsection \<open>The normal form\<close>

definition prepare_case_ignore :: "dn_lib \<Rightarrow> string \<Rightarrow> string" where
  "prepare_case_ignore dl v = join '' '' (py_split (dl_nfkc dl (dl_casefold dl (dl_nfkc dl v))))"

definition ava_text :: "dn_lib \<Rightarrow> string \<Rightarrow> string \<Rightarrow> string" where
  "ava_text dl attr val =
     (let name = dl_casefold dl (py_strip attr);
          v = (if name \<in> set CASE_INSENSITIVE_ATTRS then prepare_case_ignore dl val else val)
      in name @ ''='' @ (if v = [] then v else dl_escape_rdn dl v))"

fun collect_rdns :: "dn_lib \<Rightarrow> string list \<Rightarrow> (string \<times> string \<times> string) list \<Rightarrow> string list" where
  \<comment> \<open>the loop of \<open>normalize_dn\<close>, with the values of the current RDN\<close>
  "collect_rdns dl avas [] = (if avas = [] then [] else [join ''+'' (sort avas)])"
| "collect_rdns dl avas ((attr, val, sep) # parts) =
     (let avas = avas @ [ava_text dl attr val]
      in if sep \<noteq> ''+'' then join ''+'' (sort avas) # collect_rdns dl [] parts else collect_rdns dl avas parts)"

definition normalize_dn :: "dn_lib \<Rightarrow> string \<Rightarrow> string" where
  "normalize_dn dl dn =
     (let v = py_strip dn
      in case parse_name dl v of None \<Rightarrow> dl_casefold dl v | Some parts \<Rightarrow> join '','' (collect_rdns dl [] parts))"

subsection \<open>Which names are the same\<close>

text \<open>The RDNs of a parsed name, each the list of its attributes.\<close>

fun rdns :: "(string \<times> string) list \<Rightarrow> (string \<times> string \<times> string) list \<Rightarrow> (string \<times> string) list list" where
  "rdns cur [] = (if cur = [] then [] else [cur])"
| "rdns cur ((attr, val, sep) # parts) =
     (if sep \<noteq> ''+'' then (cur @ [(attr, val)]) # rdns [] parts else rdns (cur @ [(attr, val)]) parts)"

definition rdn_text :: "dn_lib \<Rightarrow> (string \<times> string) list \<Rightarrow> string" where
  "rdn_text dl avas = join ''+'' (sort (map (\<lambda>(a, v). ava_text dl a v) avas))"

lemma collect_rdns_eq:
  "collect_rdns dl (map (\<lambda>(a, v). ava_text dl a v) cur) parts = map (rdn_text dl) (rdns cur parts)"
proof (induction cur parts rule: rdns.induct)
  case (2 cur attr val sep parts)
  have e: "map (\<lambda>(a, v). ava_text dl a v) cur @ [ava_text dl attr val] = map (\<lambda>(a, v). ava_text dl a v) (cur @ [(attr, val)])"
    by simp
  show ?case
  proof (cases "sep = ''+''")
    case True
    then show ?thesis using 2(2) by (simp del: map_append add: e)
  next
    case False
    then show ?thesis using 2(1) by (simp del: map_append add: e) (simp add: rdn_text_def)
  qed
qed (simp add: rdn_text_def)

lemma normalize_dn_rdns:
  "parse_name dl (py_strip dn) = Some parts \<Longrightarrow> normalize_dn dl dn = join '','' (map (rdn_text dl) (rdns [] parts))"
  using collect_rdns_eq [of dl "[]" parts] by (simp add: normalize_dn_def)

text \<open>Two names have the same normal form if their RDNs, in order, have the same attributes up to the order inside an
  RDN and up to what a case-insensitive attribute ignores.\<close>
lemma same_group_same_normal_form:
  assumes "parse_name dl (py_strip dn) = Some parts" "parse_name dl (py_strip dn') = Some parts'"
    and same: "list_all2 (\<lambda>r r'. image_mset (\<lambda>(a, v). ava_text dl a v) (mset r) = image_mset (\<lambda>(a, v). ava_text dl a v) (mset r'))
      (rdns [] parts) (rdns [] parts')"
  shows "normalize_dn dl dn = normalize_dn dl dn'"
proof -
  have eq: "rdn_text dl r = rdn_text dl r'"
    if "image_mset (\<lambda>(a, v). ava_text dl a v) (mset r) = image_mset (\<lambda>(a, v). ava_text dl a v) (mset r')" for r r'
  proof -
    have "sort (map (\<lambda>(a, v). ava_text dl a v) r) = sort (map (\<lambda>(a, v). ava_text dl a v) r')"
      using that by (intro properties_for_sort) simp_all
    then show ?thesis by (simp add: rdn_text_def)
  qed
  have "map (rdn_text dl) (rdns [] parts) = map (rdn_text dl) (rdns [] parts')"
    using list_all2_mono [OF same, of "\<lambda>r r'. rdn_text dl r = rdn_text dl r'", OF eq]
    by (simp add: list_all2_conv_all_nth list_eq_iff_nth_eq)
  then show ?thesis by (simp add: normalize_dn_rdns [OF assms(1)] normalize_dn_rdns [OF assms(2)])
qed

text \<open>A space, the case and the order inside an RDN do not matter; the order of the RDNs does.\<close>
lemma normal_form_samples:
  "let dl = \<lparr>dl_parse_dn = (\<lambda>s. map_of [(''cn=A+uid=b,dc=x'', [(''CN'', ''A  B'', ''+''), (''uid'', ''b'', '',''), (''dc'', ''X'', [])]),
               (''x'', [(''UID'', ''B'', ''+''), (''cn'', '' a b'', '',''), (''DC'', ''x'', [])]),
               (''y'', [(''dc'', ''x'', '',''), (''uid'', ''b'', ''+''), (''cn'', ''a b'', [])])] s),
             dl_escape_rdn = (\<lambda>s. s), dl_casefold = py_lower, dl_nfkc = (\<lambda>s. s), dl_utf8_encode = (\<lambda>s. s), dl_utf8_decode = Some\<rparr>
   in normalize_dn dl ''2.5.4.3=A+ uid=b,dc=x'' = py_lower ''2.5.4.3=A+ uid=b,dc=x''
    \<and> normalize_dn dl '' 2.5.4.3=A+uid=b,dc=x'' = ''cn=a b+uid=b,dc=x''
    \<and> normalize_dn dl ''x'' = ''cn=a b+uid=b,dc=x'' \<and> normalize_dn dl ''y'' = ''dc=x,cn=a b+uid=b''"
  by code_simp

end
