(* ===== verification/Ldap.thy ===== *)
theory Ldap
  imports Dn LoginService
begin

section \<open>Directory servers (auth/directory/connection.py, backend.py, spec.py, errors.py)\<close>

text \<open>
  The connection to one of the servers of a directory, the search for the user, the bind with the password of the user, the
  identifier, the groups and the role. The LDAP library and the servers are \<open>ldap_net\<close>: what opening, StartTLS,
  binding and searching give for a server, as one login sees them. A bind sends the password, so the
  functions that bind also return the binds they made, in order. Messages are dropped; an error keeps its class.
\<close>

datatype directory_error =
    DirectoryConfigError
  | DirectoryUnavailable
  | DirectoryTlsError
  | DirectoryAuthFailed string
  | DirectoryNoRole
  | DirectoryMissingUniqueId
  | BindRejected

fun reason_of :: "directory_error \<Rightarrow> string" where
  "reason_of DirectoryConfigError = ''directory_config_error''"
| "reason_of DirectoryUnavailable = ''directory_unavailable''"
| "reason_of DirectoryTlsError = ''directory_tls_error''"
| "reason_of (DirectoryAuthFailed r) = (if r = [] then ''directory_auth_failed'' else r)"
| "reason_of DirectoryNoRole = ''no_matching_group''"
| "reason_of DirectoryMissingUniqueId = ''directory_missing_unique_id''"
| "reason_of BindRejected = ''bind_rejected''"

datatype open_result = Opened | OpenRaised bool string \<comment> \<open>whether it is an \<open>ssl.SSLError\<close>, and its text\<close>
datatype start_tls_result = TlsStarted | TlsRefused | TlsRaised bool string
datatype bind_result = Bound | BindRaised | NotBound "string option" \<comment> \<open>the description of the result\<close>

record bind_attempt =
  ba_uri :: string
  ba_user :: "string option"
  ba_password :: "string option"

datatype attr_value = AText string | ABytes string

record ldap_entry =
  en_dn :: string
  en_attributes :: "(string \<times> attr_value list) list"
  en_raw :: "(string \<times> string list) list"

record ldap_item =
  it_type :: string
  it_entry :: ldap_entry

datatype search_scope = Base | Subtree

datatype search_result = SearchRaised | SearchResult int "ldap_item list" \<comment> \<open>the result code and the response\<close>

record ldap_net =
  ln_open :: "directory_config \<Rightarrow> string \<Rightarrow> open_result"
  ln_start_tls :: "directory_config \<Rightarrow> string \<Rightarrow> start_tls_result"
  ln_bind :: "directory_config \<Rightarrow> bind_attempt \<Rightarrow> bind_result"
  ln_search :: "bind_attempt \<Rightarrow> string \<Rightarrow> string \<Rightarrow> search_scope \<Rightarrow> string list \<Rightarrow> nat \<Rightarrow> search_result"
  ln_escape_filter :: "string \<Rightarrow> string"
  ln_decode_replace :: "string \<Rightarrow> string"
  ln_isprintable :: "string \<Rightarrow> bool"
  ln_dn :: dn_lib

subsection \<open>The settings of a directory as a value\<close>

definition or_none :: "string option \<Rightarrow> string option" where
  \<comment> \<open>\<open>v or None\<close>\<close>
  "or_none v = (if v = Some [] then None else v)"

definition or_text :: "string option \<Rightarrow> string \<Rightarrow> string" where
  \<comment> \<open>\<open>v or default\<close>\<close>
  "or_text v d = (case or_none v of None \<Rightarrow> d | Some t \<Rightarrow> t)"

record directory_spec =
  sp_config :: directory_config
  sp_mappings :: "(string \<times> role) list"
  sp_mapping_labels :: "(string \<times> role) list"

definition spec_from_model :: "dn_lib \<Rightarrow> directory_config \<Rightarrow> group_mapping list \<Rightarrow> directory_spec" where
  "spec_from_model dl c maps =
     \<lparr>sp_config = c\<lparr>ca_cert_pem := or_none (ca_cert_pem c), bind_dn := or_none (bind_dn c),
        bind_password := or_none (bind_password c), user_search_filter := or_none (user_search_filter c),
        username_attribute := or_none (username_attribute c), ad_upn_suffix := or_none (ad_upn_suffix c),
        display_name_attribute := or_none (display_name_attribute c), email_attribute := or_none (email_attribute c),
        group_search_base := or_none (group_search_base c), group_search_filter := or_none (group_search_filter c),
        group_member_attribute := or_none (group_member_attribute c), group_member_value := or_none (group_member_value c),
        unique_id_attribute := or_none (unique_id_attribute c)\<rparr>,
      sp_mappings = map (\<lambda>m. (if group_dn_normalized m = [] then normalize_dn dl (group_dn m) else group_dn_normalized m,
        mapping_role m)) maps,
      sp_mapping_labels = map (\<lambda>m. (group_dn m, mapping_role m)) maps\<rparr>"

definition DEFAULT_UNIQUE_ID_ATTRIBUTE :: string where "DEFAULT_UNIQUE_ID_ATTRIBUTE = ''entryUUID''"

definition id_attribute :: "directory_config \<Rightarrow> string" where
  "id_attribute c =
     (if dir_kind c = ''ad'' then ''objectGUID'' else or_text (unique_id_attribute c) DEFAULT_UNIQUE_ID_ATTRIBUTE)"

definition realm_key_for :: "uuid \<Rightarrow> string" where "realm_key_for i = ''dir:'' @ uuid_str i"

subsection \<open>Connecting\<close>

definition is_tls_failure :: "bool \<Rightarrow> string \<Rightarrow> bool" where
  "is_tls_failure is_ssl_error msg =
     (is_ssl_error \<or> contains (py_lower msg) ''certificate'' \<or> contains (py_lower msg) ''ssl'' \<or> contains (py_lower msg) ''tls'')"

definition open_error :: "directory_config \<Rightarrow> bool \<Rightarrow> string \<Rightarrow> directory_error" where
  "open_error c is_ssl_error msg =
     (if transport_security c \<noteq> NoTls \<and> is_tls_failure is_ssl_error msg then DirectoryTlsError else DirectoryUnavailable)"

definition open_server :: "ldap_net \<Rightarrow> directory_config \<Rightarrow> string \<Rightarrow> directory_error option" where
  \<comment> \<open>open the socket and, for StartTLS, encrypt it; \<open>None\<close> if the server may be bound to\<close>
  "open_server net c uri =
     (case ln_open net c uri of
        OpenRaised ssl msg \<Rightarrow> Some (open_error c ssl msg)
      | Opened \<Rightarrow>
          if transport_security c = Starttls then
            (case ln_start_tls net c uri of
               TlsStarted \<Rightarrow> None | TlsRefused \<Rightarrow> Some DirectoryTlsError | TlsRaised ssl msg \<Rightarrow> Some (open_error c ssl msg))
          else None)"

type_synonym 'a bound = "bind_attempt list \<times> (directory_error + 'a)"

fun connect_loop ::
    "ldap_net \<Rightarrow> directory_config \<Rightarrow> string option \<Rightarrow> string option \<Rightarrow> directory_error \<Rightarrow> directory_error option
     \<Rightarrow> string list \<Rightarrow> bind_attempt bound" where
  \<comment> \<open>the loop of \<open>connect\<close>, with its last error and its configuration error; a connection is the bind that made it\<close>
  "connect_loop net c user pw last_error config_error [] = ([], Inl (case config_error of Some e \<Rightarrow> e | None \<Rightarrow> last_error))"
| "connect_loop net c user pw last_error config_error (uri # uris) =
     (case open_server net c uri of
        Some e \<Rightarrow> connect_loop net c user pw e config_error uris
      | None \<Rightarrow>
          (let b = \<lparr>ba_uri = uri, ba_user = user, ba_password = pw\<rparr>
           in map_prod ((#) b) id
             (case ln_bind net c b of
                Bound \<Rightarrow> ([], Inr b)
              | BindRaised \<Rightarrow> connect_loop net c user pw DirectoryUnavailable config_error uris
              | NotBound d \<Rightarrow>
                  if d = Some ''invalidCredentials'' then ([], Inl BindRejected)
                  else if d = Some ''strongerAuthRequired''
                    then connect_loop net c user pw last_error (Some DirectoryConfigError) uris
                  else connect_loop net c user pw DirectoryUnavailable config_error uris)))"

definition connect ::
    "ldap_net \<Rightarrow> directory_config \<Rightarrow> string option \<Rightarrow> string option \<Rightarrow> connect_options \<Rightarrow> bind_attempt bound" where
  "connect net c user pw opts =
     (if check_security c opts \<noteq> None then ([], Inl DirectoryConfigError)
      else if server_uris c = [] then ([], Inl DirectoryConfigError)
      else if user \<noteq> None \<and> or_none pw = None then ([], Inl BindRejected)
      else connect_loop net c user pw DirectoryUnavailable None (server_uris c))"

definition then_bound :: "'a bound \<Rightarrow> ('a \<Rightarrow> 'b bound) \<Rightarrow> 'b bound" where
  "then_bound r f = (case r of (bs, Inl e) \<Rightarrow> (bs, Inl e) | (bs, Inr a) \<Rightarrow> map_prod ((@) bs) id (f a))"

definition unbound :: "directory_error + 'a \<Rightarrow> 'a bound" where
  \<comment> \<open>a step that binds nowhere\<close>
  "unbound r = ([], r)"

definition service_connection :: "ldap_net \<Rightarrow> directory_config \<Rightarrow> connect_options \<Rightarrow> bind_attempt bound" where
  "service_connection net c opts =
     (if or_none (bind_dn c) \<noteq> None \<and> or_none (bind_password c) = None then ([], Inl DirectoryConfigError)
      else map_prod id (map_error (\<lambda>e. if e = BindRejected then DirectoryUnavailable else e))
        (connect net c (bind_dn c) (bind_password c) opts))"

definition verify_user_password ::
    "ldap_net \<Rightarrow> directory_config \<Rightarrow> string \<Rightarrow> string \<Rightarrow> connect_options \<Rightarrow> unit bound" where
  "verify_user_password net c dn password opts =
     map_prod id (map_sum (\<lambda>e. if e = BindRejected then DirectoryAuthFailed ''bad_password'' else e) (\<lambda>_. ()))
       (connect net c (Some dn) (Some password) opts)"

subsection \<open>Entries and searches\<close>

definition matching :: "dn_lib \<Rightarrow> string \<Rightarrow> (string \<times> 'v list) list \<Rightarrow> (string \<times> 'v list) list" where
  \<comment> \<open>the attributes of that name, without regard to case\<close>
  "matching dl name attrs = filter (\<lambda>(k, _). dl_casefold dl k = dl_casefold dl name) attrs"

fun value_text :: "ldap_net \<Rightarrow> attr_value \<Rightarrow> string" where
  "value_text net (AText t) = t"
| "value_text net (ABytes b) = ln_decode_replace net b"

definition first_value :: "ldap_net \<Rightarrow> ldap_entry \<Rightarrow> string option \<Rightarrow> string option" where
  \<comment> \<open>\<open>_Entry.first\<close>\<close>
  "first_value net e name =
     (case or_none name of None \<Rightarrow> None
      | Some n \<Rightarrow> map_option (\<lambda>v. py_strip (value_text net v))
          (find (\<lambda>v. py_strip (value_text net v) \<noteq> []) (concat (map snd (matching (ln_dn net) n (en_attributes e))))))"

definition all_values :: "ldap_net \<Rightarrow> ldap_entry \<Rightarrow> string \<Rightarrow> string list" where
  "all_values net e name =
     (case matching (ln_dn net) name (en_attributes e) of [] \<Rightarrow> [] | (_, vs) # _ \<Rightarrow> map (value_text net) vs)"

definition raw_all :: "ldap_net \<Rightarrow> ldap_entry \<Rightarrow> string \<Rightarrow> string list" where
  "raw_all net e name = (case matching (ln_dn net) name (en_raw e) of [] \<Rightarrow> [] | (_, vs) # _ \<Rightarrow> vs)"

definition ldap_search ::
    "ldap_net \<Rightarrow> bind_attempt \<Rightarrow> string \<Rightarrow> string \<Rightarrow> search_scope \<Rightarrow> string list \<Rightarrow> nat \<Rightarrow> directory_error + ldap_entry list" where
  \<comment> \<open>\<open>_search\<close>\<close>
  "ldap_search net conn base flt scope attrs size_limit =
     (case ln_search net conn base flt scope attrs size_limit of
        SearchRaised \<Rightarrow> Inl DirectoryUnavailable
      | SearchResult rc response \<Rightarrow>
          if rc = 32 then Inl DirectoryConfigError
          else if rc \<notin> {0, 4} then Inl DirectoryUnavailable
          else let entries = map it_entry (filter (\<lambda>i. it_type i = ''searchResEntry'') response)
            in if rc = 4 \<and> (size_limit = 0 \<or> length entries < size_limit) then Inl DirectoryUnavailable
               else Inr entries)"

subsection \<open>Finding the user\<close>

definition LDAP_USERNAME_MAX_LENGTH :: nat where "LDAP_USERNAME_MAX_LENGTH = 256"

definition clean_username :: "dn_lib \<Rightarrow> string \<Rightarrow> directory_error + string" where
  "clean_username dl name =
     (let v = py_strip (dl_nfkc dl name)
      in if v = [] \<or> LDAP_USERNAME_MAX_LENGTH < length v \<or> list_ex (\<lambda>c. code c < 32 \<or> code c = 127) v
         then Inl (DirectoryAuthFailed ''invalid_username'') else Inr v)"

definition AD_ENABLED_ACCOUNT_FILTER :: string where
  "AD_ENABLED_ACCOUNT_FILTER = ''(!(userAccountControl:1.2.840.113556.1.4.803:=2))''"

definition ad_person :: "string \<Rightarrow> string" where
  "ad_person match = ''(&(objectCategory=person)(objectClass=user)'' @ AD_ENABLED_ACCOUNT_FILTER @ match @ '')''"

definition ad_user_filter :: "(string \<Rightarrow> string) \<Rightarrow> string \<Rightarrow> string option \<Rightarrow> string" where
  "ad_user_filter escape name upn_suffix =
     ad_person
      (if CHR ''@'' \<in> set name then ''(userPrincipalName='' @ escape name @ '')''
       else let sam = ''(sAMAccountName='' @ escape name @ '')''
         in case or_none upn_suffix of None \<Rightarrow> sam
            | Some suffix \<Rightarrow> ''(|'' @ sam @ ''(userPrincipalName='' @ escape (name @ ''@'' @ suffix) @ '')'' @ '')'')"

definition ad_sam_only_filter :: "(string \<Rightarrow> string) \<Rightarrow> string \<Rightarrow> string" where
  "ad_sam_only_filter escape sam = ad_person (''(sAMAccountName='' @ escape sam @ '')'')"

definition user_filter_template :: "directory_config \<Rightarrow> string" where
  "user_filter_template c =
     or_text (user_search_filter c) (''('' @ or_text (username_attribute c) ''uid'' @ ''={username})'')"

definition ldap_user_filter :: "(string \<Rightarrow> string) \<Rightarrow> directory_config \<Rightarrow> string \<Rightarrow> directory_error + string" where
  "ldap_user_filter escape c name =
     (if contains (user_filter_template c) ''{username}''
      then Inr (py_replace ''{username}'' (escape name) (user_filter_template c)) else Inl DirectoryConfigError)"

definition ad_in_chain_filter :: "(string \<Rightarrow> string) \<Rightarrow> string \<Rightarrow> string" where
  "ad_in_chain_filter escape dn = ''(memberOf:1.2.840.113556.1.4.1941:='' @ escape dn @ '')''"

definition user_attributes :: "directory_config \<Rightarrow> string list" where
  "user_attributes c = sort (remdups
     ([or_text (display_name_attribute c) ''displayName'', or_text (email_attribute c) ''mail'', id_attribute c]
      @ (if dir_kind c = ''ad'' then [''sAMAccountName'', ''userPrincipalName''] else [or_text (username_attribute c) ''uid''])
      @ (if group_mode c = ''member_of'' then [''memberOf''] else [])))"

definition AD_QUALIFIED_CANDIDATES_LIMIT :: nat where "AD_QUALIFIED_CANDIDATES_LIMIT = 20"

fun filter_results :: "('a \<Rightarrow> 'e + bool) \<Rightarrow> 'a list \<Rightarrow> 'e + 'a list" where
  \<comment> \<open>keep the elements whose test succeeds, stopping at the first exception\<close>
  "filter_results p [] = Inr []"
| "filter_results p (x # xs) =
     and_then (p x) (\<lambda>b. and_then (filter_results p xs) (\<lambda>ys. Inr (if b then x # ys else ys)))"

definition principal_matches :: "ldap_net \<Rightarrow> bind_attempt \<Rightarrow> string \<Rightarrow> ldap_entry \<Rightarrow> directory_error + bool" where
  "principal_matches net conn expected e =
     and_then (ldap_search net conn (en_dn e) ''(objectClass=*)'' Base [''msDS-PrincipalName''] 0) (\<lambda>found.
       Inr (case found of [] \<Rightarrow> False
            | p # _ \<Rightarrow> (case first_value net p (Some ''msDS-PrincipalName'') of None \<Rightarrow> False
                        | Some n \<Rightarrow> dl_casefold (ln_dn net) n = expected)))"

definition find_ad_qualified ::
    "ldap_net \<Rightarrow> bind_attempt \<Rightarrow> directory_config \<Rightarrow> string \<Rightarrow> string \<Rightarrow> directory_error + ldap_entry list" where
  "find_ad_qualified net conn c domain sam =
     and_then (ldap_search net conn (user_search_base c) (ad_sam_only_filter (ln_escape_filter net) sam) Subtree
         (user_attributes c) (AD_QUALIFIED_CANDIDATES_LIMIT + 1)) (\<lambda>candidates.
     and_then (raise_when (AD_QUALIFIED_CANDIDATES_LIMIT < length candidates) (DirectoryAuthFailed ''ambiguous_user'')) (\<lambda>_.
       filter_results (principal_matches net conn (dl_casefold (ln_dn net) (domain @ [backslash] @ sam))) candidates))"

definition candidates :: "ldap_net \<Rightarrow> bind_attempt \<Rightarrow> directory_config \<Rightarrow> string \<Rightarrow> directory_error + ldap_entry list" where
  "candidates net conn c name =
     (if dir_kind c = ''ad'' \<and> backslash \<in> set name then
        let domain = takeWhile (\<lambda>x. x \<noteq> backslash) name; sam = tl (dropWhile (\<lambda>x. x \<noteq> backslash) name)
        in if domain = [] \<or> sam = [] \<or> backslash \<in> set sam then Inl (DirectoryAuthFailed ''invalid_username'')
           else find_ad_qualified net conn c domain sam
      else and_then (if dir_kind c = ''ad'' then Inr (ad_user_filter (ln_escape_filter net) name (ad_upn_suffix c))
                     else ldap_user_filter (ln_escape_filter net) c name) (\<lambda>flt.
        ldap_search net conn (user_search_base c) flt Subtree (user_attributes c) 2))"

definition find_user :: "ldap_net \<Rightarrow> bind_attempt \<Rightarrow> directory_config \<Rightarrow> string \<Rightarrow> directory_error + ldap_entry" where
  "find_user net conn c name =
     and_then (candidates net conn c name) (\<lambda>found.
       case found of [] \<Rightarrow> Inl (DirectoryAuthFailed ''unknown_user'')
       | [e] \<Rightarrow> Inr e
       | _ \<Rightarrow> Inl (DirectoryAuthFailed ''ambiguous_user''))"

subsection \<open>Identifier, name and groups\<close>

definition byte_at :: "string \<Rightarrow> nat \<Rightarrow> nat" where "byte_at raw i = code (raw ! i)"

definition uuid_of_bytes_le :: "string \<Rightarrow> uuid" where
  \<comment> \<open>\<open>uuid.UUID(bytes_le=raw)\<close>\<close>
  "uuid_of_bytes_le raw =
     foldl (\<lambda>n i. 256 * n + byte_at raw i) 0 [3, 2, 1, 0, 5, 4, 7, 6, 8, 9, 10, 11, 12, 13, 14, 15]"

definition raw_hex :: "string \<Rightarrow> string" where
  \<comment> \<open>\<open>raw.hex()\<close>\<close>
  "raw_hex raw = concat (map (\<lambda>b. hex_digits 2 (code b)) raw)"

definition unique_id :: "ldap_net \<Rightarrow> directory_config \<Rightarrow> ldap_entry \<Rightarrow> directory_error + string" where
  "unique_id net c e =
     (let attribute = id_attribute c; dl = ln_dn net; fold = dl_casefold dl
      in case raw_all net e attribute of
           [raw] \<Rightarrow>
             if raw = [] then Inl DirectoryMissingUniqueId
             else if dir_kind c = ''ad'' then
               (if length raw \<noteq> 16 then Inl DirectoryMissingUniqueId else Inr (''guid:'' @ uuid_str (uuid_of_bytes_le raw)))
             else if fold attribute = fold DEFAULT_UNIQUE_ID_ATTRIBUTE then
               (let v = py_strip (ln_decode_replace net raw)
                in if v = [] then Inl DirectoryMissingUniqueId else Inr (''uuid:'' @ fold v))
             else (case dl_utf8_decode dl raw of
                 Some t \<Rightarrow> if ln_isprintable net t then Inr (''id:'' @ fold attribute @ ''='' @ t)
                           else Inr (''id:'' @ fold attribute @ ''#'' @ raw_hex raw)
               | None \<Rightarrow> Inr (''id:'' @ fold attribute @ ''#'' @ raw_hex raw))
         | _ \<Rightarrow> Inl DirectoryMissingUniqueId)"

definition resolved_username :: "ldap_net \<Rightarrow> directory_config \<Rightarrow> ldap_entry \<Rightarrow> string \<Rightarrow> string" where
  "resolved_username net c e typed =
     (case first_value net e (Some (if dir_kind c = ''ad'' then ''sAMAccountName'' else or_text (username_attribute c) ''uid'')) of
        None \<Rightarrow> typed | Some n \<Rightarrow> n)"

definition member_groups ::
    "ldap_net \<Rightarrow> bind_attempt \<Rightarrow> directory_spec \<Rightarrow> ldap_entry \<Rightarrow> string \<Rightarrow> directory_error + string list" where
  \<comment> \<open>the set of groups as a list\<close>
  "member_groups net conn sp e uname =
     (let c = sp_config sp; normalize = normalize_dn (ln_dn net); escape = ln_escape_filter net
      in if group_mode c = ''member_of'' then Inr (map normalize (all_values net e ''memberOf''))
         else if group_mode c = ''ad_nested'' then
           and_then (filter_results (\<lambda>label. and_then
               (ldap_search net conn (en_dn e) (ad_in_chain_filter escape label) Base [''1.1''] 0) (\<lambda>found. Inr (found \<noteq> [])))
             (map fst (sp_mapping_labels sp))) (\<lambda>labels. Inr (map normalize labels))
         else if group_mode c = ''group_search'' then
           (case or_none (group_search_base c) of None \<Rightarrow> Inl DirectoryConfigError
            | Some base \<Rightarrow>
               let v = (if group_member_value c = Some ''username'' then uname else en_dn e);
                   member = ''('' @ or_text (group_member_attribute c) ''member'' @ ''='' @ escape v @ '')'';
                   base_filter = or_text (group_search_filter c) ''(objectClass=*)''
               in and_then (ldap_search net conn base (''(&'' @ base_filter @ member @ '')'') Subtree [''1.1''] 0)
                    (\<lambda>found. Inr (map (\<lambda>g. normalize (en_dn g)) found)))
         else Inl DirectoryConfigError)"

subsection \<open>Login and the connection test\<close>

definition authenticate_entry ::
    "ldap_net \<Rightarrow> directory_spec \<Rightarrow> string \<Rightarrow> bind_attempt \<Rightarrow> ldap_entry \<Rightarrow> string \<Rightarrow> connect_options \<Rightarrow> directory_identity bound" where
  \<comment> \<open>the rest of \<open>authenticate\<close> once the entry is found\<close>
  "authenticate_entry net sp name conn e password opts =
     (let c = sp_config sp
      in then_bound (verify_user_password net c (en_dn e) password opts) (\<lambda>_.
         then_bound (unbound (unique_id net c e)) (\<lambda>subj.
         then_bound (unbound (member_groups net conn sp e (resolved_username net c e name))) (\<lambda>groups.
           case resolve_role groups (sp_mappings sp) of
             None \<Rightarrow> unbound (Inl DirectoryNoRole)
           | Some role \<Rightarrow> unbound (Inr \<lparr>ident_subject = subj, ident_username = resolved_username net c e name,
               ident_display_name = first_value net e (Some (or_text (display_name_attribute c) ''displayName'')),
               ident_email = first_value net e (Some (or_text (email_attribute c) ''mail'')), ident_dn = en_dn e,
               ident_role = role,
               ident_matched_groups = sort (filter (\<lambda>g. g \<in> set groups) (map fst (sp_mappings sp)))\<rparr>)))))"

definition authenticate ::
    "ldap_net \<Rightarrow> directory_spec \<Rightarrow> string \<Rightarrow> string \<Rightarrow> connect_options \<Rightarrow> directory_identity bound" where
  "authenticate net sp uname password opts =
     (let c = sp_config sp
      in if password = [] then unbound (Inl (DirectoryAuthFailed ''empty_password''))
         else then_bound (unbound (clean_username (ln_dn net) uname)) (\<lambda>name.
           then_bound (service_connection net c opts) (\<lambda>conn.
           then_bound (unbound (find_user net conn c name)) (\<lambda>e.
             authenticate_entry net sp name conn e password opts))))"

definition directory_backend ::
    "ldap_net \<Rightarrow> directory_config \<Rightarrow> group_mapping list \<Rightarrow> string \<Rightarrow> string \<Rightarrow> connect_options \<Rightarrow> backend_result" where
  \<comment> \<open>the call of \<open>authenticate\<close> as the login service makes it\<close>
  "directory_backend net c maps uname password opts =
     (case snd (authenticate net (spec_from_model (ln_dn net) c maps) uname password opts) of
        Inl e \<Rightarrow> DirectoryError (reason_of e) | Inr i \<Rightarrow> Authenticated i)"

record stage_result =
  sr_stage :: string
  sr_ok :: bool
  sr_role :: "role option" \<comment> \<open>named in the message of the last stage\<close>

definition stage :: "string \<Rightarrow> bool \<Rightarrow> stage_result" where
  "stage s b = \<lparr>sr_stage = s, sr_ok = b, sr_role = None\<rparr>"

definition groups_stage :: "ldap_net \<Rightarrow> bind_attempt \<Rightarrow> directory_spec \<Rightarrow> ldap_entry \<Rightarrow> string \<Rightarrow> stage_result" where
  "groups_stage net conn sp e name =
     (case member_groups net conn sp e (resolved_username net (sp_config sp) e name) of
        Inl _ \<Rightarrow> stage ''groups'' False
      | Inr groups \<Rightarrow> (case resolve_role groups (sp_mappings sp) of
            None \<Rightarrow> stage ''groups'' False
          | Some r \<Rightarrow> (stage ''groups'' True)\<lparr>sr_role := Some r\<rparr>))"

definition run_test ::
    "ldap_net \<Rightarrow> directory_spec \<Rightarrow> connect_options \<Rightarrow> string option \<Rightarrow> string option \<Rightarrow> stage_result list" where
  "run_test net sp opts uname password =
     (let c = sp_config sp
      in case snd (service_connection net c opts) of Inl _ \<Rightarrow> [stage ''connect'' False]
         | Inr conn \<Rightarrow> stage ''connect'' True #
            (case or_none uname of None \<Rightarrow> []
             | Some u \<Rightarrow>
                (case and_then (clean_username (ln_dn net) u) (\<lambda>name. and_then (find_user net conn c name) (\<lambda>e. Inr (name, e))) of
                   Inl _ \<Rightarrow> [stage ''user_search'' False]
                 | Inr (name, e) \<Rightarrow> stage ''user_search'' True #
                    (case unique_id net c e of Inl _ \<Rightarrow> [stage ''unique_id'' False]
                     | Inr _ \<Rightarrow>
                       (case or_none password of None \<Rightarrow> [groups_stage net conn sp e name]
                        | Some pw \<Rightarrow>
                          (case snd (verify_user_password net c (en_dn e) pw opts) of
                             Inl _ \<Rightarrow> [stage ''user_bind'' False]
                           | Inr _ \<Rightarrow> [stage ''user_bind'' True, groups_stage net conn sp e name]))))))"

subsection \<open>Where passwords go\<close>

definition server_skipped :: "ldap_net \<Rightarrow> directory_config \<Rightarrow> string option \<Rightarrow> string option \<Rightarrow> string \<Rightarrow> bool" where
  \<comment> \<open>the server does not decide: the next one is tried\<close>
  "server_skipped net c user pw uri =
     (open_server net c uri \<noteq> None \<or>
      (case ln_bind net c \<lparr>ba_uri = uri, ba_user = user, ba_password = pw\<rparr> of
         Bound \<Rightarrow> False | BindRaised \<Rightarrow> True | NotBound d \<Rightarrow> d \<noteq> Some ''invalidCredentials''))"

definition permitted_bind :: "ldap_net \<Rightarrow> directory_config \<Rightarrow> connect_options \<Rightarrow> bind_attempt \<Rightarrow> bool" where
  "permitted_bind net c opts b =
     (ba_uri b \<in> set (server_uris c) \<and> check_security c opts = None \<and> ln_open net c (ba_uri b) = Opened
      \<and> (transport_security c = Starttls \<longrightarrow> ln_start_tls net c (ba_uri b) = TlsStarted)
      \<and> (ba_user b = None \<or> or_none (ba_password b) \<noteq> None))"

lemma open_server_None:
  "open_server net c uri = None \<longleftrightarrow>
     ln_open net c uri = Opened \<and> (transport_security c = Starttls \<longrightarrow> ln_start_tls net c uri = TlsStarted)"
  by (auto simp: open_server_def split: open_result.splits start_tls_result.splits)

lemma connect_loop_binds:
  "b \<in> set (fst (connect_loop net c user pw e ce uris)) \<Longrightarrow>
     ba_uri b \<in> set uris \<and> open_server net c (ba_uri b) = None \<and> ba_user b = user \<and> ba_password b = pw"
proof (induction uris arbitrary: e ce)
  case (Cons uri uris)
  from Cons.prems show ?case
    by (auto simp: Let_def split: option.splits bind_result.splits if_splits dest: Cons.IH)
qed simp

lemma connect_loop_result:
  "snd (connect_loop net c user pw e ce uris) = Inr b \<longleftrightarrow>
     (\<exists>uri. find (\<lambda>u. \<not> server_skipped net c user pw u) uris = Some uri \<and>
        b = \<lparr>ba_uri = uri, ba_user = user, ba_password = pw\<rparr> \<and> ln_bind net c b = Bound)"
proof (induction uris arbitrary: e ce)
  case (Cons uri uris)
  show ?case
    by (auto simp: Let_def Cons.IH server_skipped_def split: option.splits bind_result.splits)
qed (simp split: option.splits)

lemma connect_loop_bound:
  "connect_loop net c user pw e ce uris = (bs, Inr b) \<Longrightarrow> b \<in> set bs"
proof (induction uris arbitrary: e ce bs)
  case (Cons uri uris)
  from Cons.prems show ?case
    by (auto simp: Let_def map_prod_def split: option.splits bind_result.splits if_splits prod.splits dest: Cons.IH)
qed (simp split: option.splits)

lemma connect_binds:
  "b \<in> set (fst (connect net c user pw opts)) \<Longrightarrow> permitted_bind net c opts b \<and> ba_user b = user \<and> ba_password b = pw"
  by (auto simp: connect_def permitted_bind_def open_server_None split: if_splits dest!: connect_loop_binds)

lemma connect_bound: "connect net c user pw opts = (bs, Inr b) \<Longrightarrow> b \<in> set bs \<and> ln_bind net c b = Bound"
  using connect_loop_bound [of net c user pw DirectoryUnavailable None "server_uris c" bs b]
    connect_loop_result [of net c user pw DirectoryUnavailable None "server_uris c" b]
  by (auto simp: connect_def split: if_splits)

text \<open>A connection is made to the first server of the list that can be reached, encrypted as configured, and decides on
  the credentials, and only if that server accepts them.\<close>
lemma connects_to_the_first_deciding_server:
  "snd (connect net c user pw opts) = Inr b \<longleftrightarrow>
     check_security c opts = None \<and> (user = None \<or> or_none pw \<noteq> None)
     \<and> find (\<lambda>u. \<not> server_skipped net c user pw u) (server_uris c) = Some (ba_uri b)
     \<and> b = \<lparr>ba_uri = ba_uri b, ba_user = user, ba_password = pw\<rparr> \<and> ln_bind net c b = Bound"
proof -
  have "(\<exists>uri. find p us = Some uri \<and> b = \<lparr>ba_uri = uri, ba_user = user, ba_password = pw\<rparr> \<and> ln_bind net c b = Bound) \<longleftrightarrow>
     find p us = Some (ba_uri b) \<and> b = \<lparr>ba_uri = ba_uri b, ba_user = user, ba_password = pw\<rparr> \<and> ln_bind net c b = Bound" for p us
    by (metis bind_attempt.select_convs(1))
  then show ?thesis
    by (auto simp: connect_def connect_loop_result)
qed

subsection \<open>What a login means\<close>

lemma then_bound_Inr:
  "then_bound r f = (bs, Inr b) \<longleftrightarrow> (\<exists>bs1 a bs2. r = (bs1, Inr a) \<and> f a = (bs2, Inr b) \<and> bs = bs1 @ bs2)"
  by (auto simp: then_bound_def map_prod_def split: prod.splits sum.splits)

lemma snd_then_bound: "snd (then_bound r f) = and_then (snd r) (\<lambda>a. snd (f a))"
  by (simp add: then_bound_def map_prod_def split: prod.splits sum.splits)

lemma fst_then_bound: "fst (then_bound r f) = fst r @ (case snd r of Inl _ \<Rightarrow> [] | Inr a \<Rightarrow> fst (f a))"
  by (simp add: then_bound_def map_prod_def split: prod.splits sum.splits)

lemma unbound_simps [simp]: "fst (unbound r) = []" "snd (unbound r) = r" "unbound r = (bs, x) \<longleftrightarrow> bs = [] \<and> r = x"
  by (auto simp: unbound_def)

definition user_bound_by :: "ldap_net \<Rightarrow> directory_config \<Rightarrow> bind_attempt list \<Rightarrow> string \<Rightarrow> string \<Rightarrow> bool" where
  "user_bound_by net c bs dn password =
     list_ex (\<lambda>b. ba_user b = Some dn \<and> ba_password b = Some password \<and> ln_bind net c b = Bound) bs"

lemma verify_user_password_Inr:
  assumes "verify_user_password net c dn password opts = (bs, Inr u)"
  shows "user_bound_by net c bs dn password"
proof -
  obtain r where r: "connect net c (Some dn) (Some password) opts = (bs, Inr r)"
    using assms by (cases "connect net c (Some dn) (Some password) opts"; cases "snd (connect net c (Some dn) (Some password) opts)")
      (auto simp: verify_user_password_def split: if_splits)
  then have "r \<in> set (fst (connect net c (Some dn) (Some password) opts))" using connect_bound [OF r] by simp
  from connect_binds [OF this] connect_bound [OF r] show ?thesis
    by (auto simp: user_bound_by_def list_ex_iff)
qed

text \<open>A directory login succeeds only with a password that is not empty and that a permitted server of the directory, over
  the configured encryption, accepted in a bind as the one entry that the search found; the identifier is that
  entry's, and the role is the strongest that the entry's groups are mapped to.\<close>
lemma authenticate_sound:
  assumes "authenticate net sp uname password opts = (bs, Inr i)"
  shows "password \<noteq> [] \<and> list_all (permitted_bind net (sp_config sp) opts) bs
    \<and> user_bound_by net (sp_config sp) bs (ident_dn i) password
    \<and> (\<exists>name conn e groups. clean_username (ln_dn net) uname = Inr name
         \<and> find_user net conn (sp_config sp) name = Inr e \<and> ident_dn i = en_dn e
         \<and> unique_id net (sp_config sp) e = Inr (ident_subject i)
         \<and> member_groups net conn sp e (resolved_username net (sp_config sp) e name) = Inr groups
         \<and> granted groups (sp_mappings sp) \<noteq> {} \<and> ident_role i = Max (granted groups (sp_mappings sp)))"
proof -
  let ?c = "sp_config sp"
  from assms obtain name bs1 conn e bs2 u groups subj where
    pw: "password \<noteq> []" and name: "clean_username (ln_dn net) uname = Inr name"
    and conn: "service_connection net ?c opts = (bs1, Inr conn)" and e: "find_user net conn ?c name = Inr e"
    and v: "verify_user_password net ?c (en_dn e) password opts = (bs2, Inr u)" and subj: "unique_id net ?c e = Inr subj"
    and groups: "member_groups net conn sp e (resolved_username net ?c e name) = Inr groups" and bs: "bs = bs1 @ bs2"
    and i: "ident_subject i = subj" "ident_dn i = en_dn e" "resolve_role groups (sp_mappings sp) = Some (ident_role i)"
    by (auto simp: authenticate_def authenticate_entry_def Let_def then_bound_Inr split: if_splits option.splits)
  have "permitted_bind net ?c opts b" if "b \<in> set bs" for b
  proof -
    have "fst (service_connection net ?c opts) = bs1" "fst (verify_user_password net ?c (en_dn e) password opts) = bs2"
      using conn v by simp_all
    with that bs have "b \<in> set (fst (connect net ?c (bind_dn ?c) (bind_password ?c) opts)) \<or>
        b \<in> set (fst (connect net ?c (Some (en_dn e)) (Some password) opts))"
      by (auto simp: service_connection_def verify_user_password_def split: if_splits)
    then show ?thesis using connect_binds by blast
  qed
  moreover have "user_bound_by net ?c bs (en_dn e) password"
    using verify_user_password_Inr [OF v] bs by (auto simp: user_bound_by_def list_ex_iff)
  moreover have "granted groups (sp_mappings sp) \<noteq> {} \<and> ident_role i = Max (granted groups (sp_mappings sp))"
    using i(3) by (auto simp: resolve_role_eq split: if_splits)
  ultimately show ?thesis using pw name e subj groups i by (simp add: list_all_iff) blast
qed

subsection \<open>The connection test\<close>

lemma snd_authenticate:
  "password \<noteq> [] \<Longrightarrow> snd (authenticate net sp uname password opts) =
     and_then (clean_username (ln_dn net) uname) (\<lambda>name. and_then (snd (service_connection net (sp_config sp) opts)) (\<lambda>conn.
     and_then (find_user net conn (sp_config sp) name) (\<lambda>e. snd (authenticate_entry net sp name conn e password opts))))"
  by (simp add: authenticate_def snd_then_bound Let_def)

text \<open>C37: The connection test of a user name and a password reports success in every stage exactly when these log in, and the
  role it names is the role the login gets.\<close>
lemma test_passes_iff_login_succeeds:
  assumes "uname \<noteq> []" "password \<noteq> []"
  shows "(list_all sr_ok (run_test net sp opts (Some uname) (Some password))
      \<longleftrightarrow> (\<exists>i. snd (authenticate net sp uname password opts) = Inr i))
    \<and> sr_role (last (run_test net sp opts (Some uname) (Some password)))
       = (case snd (authenticate net sp uname password opts) of Inl _ \<Rightarrow> None | Inr i \<Rightarrow> Some (ident_role i))"
proof -
  have some: "or_none (Some uname) = Some uname" "or_none (Some password) = Some password" using assms by (simp_all add: or_none_def)
  let ?c = "sp_config sp"
  note r = snd_authenticate [OF assms(2), of net sp uname opts] run_test_def [of net sp opts] Let_def stage_def some
  show ?thesis
  proof (cases "snd (service_connection net ?c opts)")
    case Inl
    then show ?thesis by (cases "clean_username (ln_dn net) uname") (simp_all add: r)
  next
    case conn: (Inr conn)
    show ?thesis
    proof (cases "and_then (clean_username (ln_dn net) uname) (\<lambda>name. and_then (find_user net conn ?c name) (\<lambda>e. Inr (name, e)))")
      case Inl
      then show ?thesis
        by (cases "clean_username (ln_dn net) uname") (auto simp: r conn and_then_Inl)
    next
      case found: (Inr found)
      obtain name e where [simp]: "found = (name, e)" by (cases found)
      have n: "clean_username (ln_dn net) uname = Inr name" and e: "find_user net conn ?c name = Inr e"
        using found by (auto simp: and_then_Inr)
      show ?thesis
        by (cases "unique_id net ?c e"; cases "snd (verify_user_password net ?c (en_dn e) password opts)";
            cases "member_groups net conn sp e (resolved_username net ?c e name)")
          (auto simp: r authenticate_entry_def snd_then_bound groups_stage_def conn n e split: option.splits)
    qed
  qed
qed

subsection \<open>Search filters\<close>

definition skeleton :: "string \<Rightarrow> string" where
  \<comment> \<open>what gives a filter its structure\<close>
  "skeleton flt = filter (\<lambda>c. c \<in> set ''()*'') flt"

lemma skeleton_simps [simp]: "skeleton [] = []" "skeleton (a @ b) = skeleton a @ skeleton b"
  "skeleton (c # s) = (if c \<in> set ''()*'' then c # skeleton s else skeleton s)"
  by (simp_all add: skeleton_def)

lemma skeleton_replace: "skeleton p = [] \<Longrightarrow> skeleton r = [] \<Longrightarrow> skeleton (py_replace p r s) = skeleton s"
proof (induction p r s rule: py_replace.induct)
  case (2 p r c s)
  show ?case
  proof (cases "p \<noteq> [] \<and> startswith (c # s) p")
    case True
    then obtain t where t: "c # s = p @ t" by (auto simp: startswith_iff)
    then have "drop (length p - 1) s = t" using True by (cases p) auto
    moreover have "skeleton (c # s) = skeleton t" using t 2(3) by simp
    ultimately show ?thesis using True 2 by simp
  next
    case False
    then show ?thesis using 2 by auto
  qed
qed simp

text \<open>If escaping leaves no parenthesis and no asterisk, the typed user name cannot change the structure of the search
  filter: it has the parentheses and asterisks of the configured template, or, for Active Directory, those that any
  other name with or without an at sign gives it.\<close>
lemma user_name_cannot_change_the_filter:
  assumes escape: "\<And>t. skeleton (escape t) = []"
  shows "(ldap_user_filter escape c name = Inr flt \<longrightarrow> skeleton flt = skeleton (user_filter_template c))
    \<and> ((CHR ''@'' \<in> set name) = (CHR ''@'' \<in> set other)
        \<longrightarrow> skeleton (ad_user_filter escape name suffix) = skeleton (ad_user_filter escape other suffix))
    \<and> skeleton (ad_sam_only_filter escape name) = skeleton (ad_sam_only_filter escape other)"
proof -
  have "skeleton ''{username}'' = []" by (simp add: skeleton_def)
  then show ?thesis
    by (simp add: ldap_user_filter_def ad_user_filter_def ad_sam_only_filter_def ad_person_def Let_def escape skeleton_replace
        split: option.split) (auto simp: escape skeleton_replace)
qed

definition hex_escape :: "string \<Rightarrow> string" where
  "hex_escape s = concat (map (\<lambda>c. if c \<in> set ''()*'' \<or> c = backslash then backslash # hex_digits 2 (code c) else [c]) s)"

lemma skeleton_hex_escape: "skeleton (hex_escape s) = []"
proof -
  have h: "list_all (\<lambda>c. skeleton (hex_digits 2 (code c)) = []) [CHR ''('', CHR '')'', CHR ''*'', backslash]" by code_simp
  have "skeleton (backslash # hex_digits 2 (code c)) = []" if "c \<in> set ''()*'' \<or> c = backslash" for c
    using that h by (auto simp: backslash_def)
  then show ?thesis by (induction s) (auto simp: hex_escape_def)
qed

lemma user_name_cannot_change_the_filter_witness:
  "skeleton (ad_user_filter hex_escape ''x)(cn=*'' None) = skeleton (ad_user_filter hex_escape ''ann'' None)"
  using user_name_cannot_change_the_filter [OF skeleton_hex_escape, where name = "''x)(cn=*''" and other = "''ann''" and suffix = None] by simp

subsection \<open>The identifier\<close>

lemma foldl_base_inject:
  assumes "length xs = length ys" "\<forall>x\<in>set xs. x < b" "\<forall>y\<in>set ys. y < b"
    and "foldl (\<lambda>n x. b * n + x) m xs = foldl (\<lambda>n x. b * n + x) m' ys"
  shows "m = m' \<and> xs = (ys :: nat list)"
  using assms
proof (induction xs ys arbitrary: m m' rule: list_induct2)
  case (Cons x xs y ys)
  have "b * m + x = b * m' + y \<and> xs = ys" by (rule Cons.IH) (use Cons.prems in simp_all)
  then have e: "b * m + x = b * m' + y" "xs = ys" by blast+
  have "x < b" "y < b" using Cons.prems by auto
  then have "(b * m + x) mod b = x" "(b * m' + y) mod b = y" by simp_all
  with e(1) have xy: "x = y" by metis
  then have "b * m = b * m'" using e(1) by simp
  then have "m = m'" using \<open>x < b\<close> by simp
  with xy e show ?case by simp
qed simp

lemma uuid_of_bytes_le_inject:
  assumes "length raw = 16" "length raw' = 16" "uuid_of_bytes_le raw = uuid_of_bytes_le raw'"
  shows "raw = raw'"
proof -
  let ?idx = "[3, 2, 1, 0, 5, 4, 7, 6, 8, 9, 10, 11, 12, 13, 14, 15] :: nat list"
  have byte: "byte_at r i < 256" for r i by (simp add: byte_at_def code_def)
  have f: "uuid_of_bytes_le r = foldl (\<lambda>n x. 256 * n + x) 0 (map (byte_at r) ?idx)" for r
    by (simp only: uuid_of_bytes_le_def foldl_map)
  have "map (byte_at raw) ?idx = map (byte_at raw') ?idx"
    using foldl_base_inject [of "map (byte_at raw) ?idx" "map (byte_at raw') ?idx" 256 0 0] assms(3) byte
    by (simp only: f) auto
  then have "\<forall>i\<in>set ?idx. byte_at raw i = byte_at raw' i" by (simp only: map_eq_conv)
  moreover have "list_all (\<lambda>i. i \<in> set ?idx) [0 ..< 16]" by code_simp
  then have "i < 16 \<Longrightarrow> i \<in> set ?idx" for i unfolding list_all_iff by simp
  ultimately have "byte_at raw i = byte_at raw' i" if "i < 16" for i using that by blast
  then show ?thesis using assms(1,2) by (auto simp: byte_at_def code_def intro!: nth_equalityI)
qed

lemma uuid_of_bytes_le_bound: "uuid_of_bytes_le raw < 2 ^ 128"
proof -
  have "foldl (\<lambda>n i. 256 * n + byte_at raw i) m is < 256 ^ length is * (m + 1)" for m "is"
  proof (induction "is" arbitrary: m)
    case (Cons i "is")
    have "byte_at raw i < 256" by (simp add: byte_at_def code_def)
    then have "256 * m + byte_at raw i + 1 \<le> 256 * (m + 1)" by simp
    then have "256 ^ length is * (256 * m + byte_at raw i + 1) \<le> 256 ^ length is * (256 * (m + 1))"
      by (rule mult_le_mono2)
    moreover have "(256::nat) ^ length (i # is) * (m + 1) = 256 ^ length is * (256 * (m + 1))" by (simp add: algebra_simps)
    ultimately show ?case using Cons.IH [of "256 * m + byte_at raw i"] by (simp only: foldl_Cons)
  qed simp
  from this [of 0 "[3, 2, 1, 0, 5, 4, 7, 6, 8, 9, 10, 11, 12, 13, 14, 15]"] show ?thesis
    by (simp add: uuid_of_bytes_le_def)
qed

lemma raw_hex_inject: "raw_hex raw = raw_hex raw' \<Longrightarrow> raw = raw'"
proof (induction raw arbitrary: raw')
  case Nil
  then show ?case by (cases raw') (simp_all add: raw_hex_def numeral_2_eq_2)
next
  case (Cons b raw)
  from Cons.prems obtain b' raw'' where r: "raw' = b' # raw''" by (cases raw') (simp_all add: raw_hex_def numeral_2_eq_2)
  have "hex_digits 2 (code b) = hex_digits 2 (code b')" "raw_hex raw = raw_hex raw''"
    using Cons.prems by (simp_all add: r raw_hex_def append_eq_append_conv)
  moreover have "code c < 16 ^ 2" for c by (simp add: code_def)
  ultimately have "code b = code b'" by (blast intro: hex_digits_inject)
  then show ?case using Cons.IH [of raw''] \<open>raw_hex raw = raw_hex raw''\<close> by (simp add: r code_def)
qed

text \<open>Two entries get the same identifier only if their identifying attributes have the same value, byte for byte, so an
  entry cannot take over the row of another. (With the default attribute of LDAP directories, an entryUUID, the
  text is stripped and case-folded.)\<close>
lemma identifiers_are_unique:
  assumes "unique_id net c e = Inr s" "unique_id net c e' = Inr s"
    and "dir_kind c = ''ad'' \<or> dl_casefold (ln_dn net) (id_attribute c) \<noteq> dl_casefold (ln_dn net) DEFAULT_UNIQUE_ID_ATTRIBUTE"
    and utf8: "\<And>r r' t. dl_utf8_decode (ln_dn net) r = Some t \<Longrightarrow> dl_utf8_decode (ln_dn net) r' = Some t \<Longrightarrow> r = r'"
  shows "raw_all net e (id_attribute c) = raw_all net e' (id_attribute c)"
proof -
  obtain raw raw' where r: "raw_all net e (id_attribute c) = [raw]" "raw_all net e' (id_attribute c) = [raw']"
    using assms(1,2) by (auto simp: unique_id_def Let_def split: list.splits)
  have "raw = raw'"
  proof (cases "dir_kind c = ''ad''")
    case True
    then have "length raw = 16" "length raw' = 16" "uuid_str (uuid_of_bytes_le raw) = uuid_str (uuid_of_bytes_le raw')"
      using assms(1,2) r by (auto simp: unique_id_def Let_def split: if_splits)
    then show ?thesis using uuid_of_bytes_le_inject uuid_str_inject uuid_of_bytes_le_bound by blast
  next
    case False
    then show ?thesis
      using assms r by (auto simp: unique_id_def Let_def split: if_splits option.splits dest: raw_hex_inject)
  qed
  then show ?thesis using r by simp
qed

subsection \<open>A directory login, end to end\<close>

text \<open>C26: A directory user is logged in only if the realm names an enabled directory, the password is not empty and a server of
  that directory, permitted and encrypted as configured, accepted it in a bind as the entry the search found; the
  user has the strongest role that the entry's groups are mapped to and the identifier of that entry.\<close>
lemma directory_login_sound:
  assumes "authenticate_directory env sha (directory_backend net) db settings rlm uname pw now uid = (db', oc)"
    and "outcome_user oc = Some u"
  shows "\<exists>config maps bs dn conn e name groups subj. load_directory (env 1 db) rlm = Some (config, maps)
     \<and> (let sp = spec_from_model (ln_dn net) config maps; c = sp_config sp
        in pw \<noteq> [] \<and> list_all (permitted_bind net c (connect_opts settings)) bs \<and> user_bound_by net c bs dn pw
         \<and> find_user net conn c name = Inr e \<and> dn = en_dn e \<and> unique_id net c e = Inr subj
         \<and> subject u = directory_subject_key sha subj
         \<and> member_groups net conn sp e (resolved_username net c e name) = Inr groups
         \<and> granted groups (sp_mappings sp) \<noteq> {} \<and> user_role u = Max (granted groups (sp_mappings sp)))
     \<and> is_active u \<and> directory_id u = Some (dir_id config)"
proof -
  from authenticate_directory_sound [OF assms(1)] assms(2) obtain config maps i where
    load: "load_directory (env 1 db) rlm = Some (config, maps)"
    and bk: "directory_backend net config maps uname pw (connect_opts settings) = Authenticated i"
    and u: "is_active u" "user_role u = ident_role i" "subject u = directory_subject_key sha (ident_subject i)"
      "directory_id u = Some (dir_id config)"
    by blast
  obtain bs r where a: "authenticate net (spec_from_model (ln_dn net) config maps) uname pw (connect_opts settings) = (bs, r)"
    by fastforce
  with bk have "r = Inr i" by (simp add: directory_backend_def split: sum.splits)
  from authenticate_sound [OF a [unfolded this]] load u show ?thesis unfolding Let_def by metis
qed

definition sample_dn_lib :: dn_lib where
  "sample_dn_lib = \<lparr>dl_parse_dn = (\<lambda>_. None), dl_escape_rdn = (\<lambda>s. s), dl_casefold = py_lower, dl_nfkc = (\<lambda>s. s),
     dl_utf8_encode = (\<lambda>s. s), dl_utf8_decode = Some\<rparr>"

definition sample_ldap_directory :: directory_config where
  "sample_ldap_directory = sample_directory\<lparr>dir_kind := ''ldap'', transport_security := Starttls, bind_dn := Some ''svc'',
     bind_password := Some ''s'', server_uris := [''ldap://a'', ''ldap://b''], unique_id_attribute := Some ''uidn''\<rparr>"

definition sample_mapping :: group_mapping where
  "sample_mapping = \<lparr>mapping_id = 1, mapping_directory = 3, group_dn = ''G'', group_dn_normalized = ''g'', mapping_role = OPERATOR\<rparr>"

definition sample_entry :: "string \<Rightarrow> ldap_entry" where
  "sample_entry i = \<lparr>en_dn = ''cn=ann'', en_attributes = [(''memberOf'', [AText ''G'', AText ''H''])], en_raw = [(''UIDN'', [i])]\<rparr>"

text \<open>The first server refuses StartTLS, the second one knows Ann.\<close>
definition sample_net :: ldap_net where
  "sample_net = \<lparr>ln_open = (\<lambda>_ _. Opened), ln_start_tls = (\<lambda>_ uri. if uri = ''ldap://a'' then TlsRefused else TlsStarted),
     ln_bind = (\<lambda>_ b. if (ba_user b, ba_password b) \<in> {(Some ''svc'', Some ''s''), (Some ''cn=ann'', Some ''pw'')} then Bound
                      else NotBound (Some ''invalidCredentials'')),
     ln_search = (\<lambda>_ _ flt _ _ _. SearchResult 0 (if flt = ''(uid=ann)''
        then [\<lparr>it_type = ''searchResEntry'', it_entry = sample_entry ''7''\<rparr>] else [])),
     ln_escape_filter = hex_escape, ln_decode_replace = (\<lambda>s. s), ln_isprintable = (\<lambda>_. True), ln_dn = sample_dn_lib\<rparr>"

lemma sample_authenticate:
  "case authenticate sample_net (spec_from_model sample_dn_lib sample_ldap_directory [sample_mapping]) ''ann'' ''pw''
     (connect_opts sample_settings) of (bs, Inr i) \<Rightarrow>
       map ba_uri bs = [''ldap://b'', ''ldap://b''] \<and> ident_role i = OPERATOR \<and> ident_subject i = ''id:uidn=7'' | _ \<Rightarrow> False"
  by code_simp

definition sample_directory_db :: auth_db where
  "sample_directory_db = sample_db\<lparr>directories := [sample_ldap_directory], mappings := [sample_mapping]\<rparr>"

lemma sample_directory_login:
  "map_option user_role (outcome_user (snd (authenticate_directory (\<lambda>_ d. d) (\<lambda>s. s) (directory_backend sample_net)
     sample_directory_db sample_settings (''dir:'' @ uuid_str 3) ''ann'' ''pw'' 5 9))) = Some OPERATOR"
  by code_simp

lemma directory_login_sound_witness:
  "case authenticate_directory (\<lambda>_ d. d) (\<lambda>s. s) (directory_backend sample_net) sample_directory_db sample_settings
     (''dir:'' @ uuid_str 3) ''ann'' ''pw'' 5 9 of
     (db', oc) \<Rightarrow> (\<exists>u. outcome_user oc = Some u \<and> user_role u = OPERATOR \<and> is_active u \<and> directory_id u = Some 3)"
proof -
  obtain db' oc where r: "authenticate_directory (\<lambda>_ d. d) (\<lambda>s. s) (directory_backend sample_net) sample_directory_db
      sample_settings (''dir:'' @ uuid_str 3) ''ann'' ''pw'' 5 9 = (db', oc)" by fastforce
  with sample_directory_login obtain u where u: "outcome_user oc = Some u" "user_role u = OPERATOR" by auto
  have "load_directory sample_directory_db (''dir:'' @ uuid_str 3) = Some (sample_ldap_directory, [sample_mapping])"
    by code_simp
  with directory_login_sound [OF r u(1)] have "is_active u \<and> directory_id u = Some (dir_id sample_ldap_directory)" by auto
  then show ?thesis unfolding r using u by (simp add: sample_ldap_directory_def sample_directory_def)
qed

lemma test_passes_iff_login_succeeds_witness:
  "list_all sr_ok (run_test sample_net (spec_from_model sample_dn_lib sample_ldap_directory [sample_mapping])
     (connect_opts sample_settings) (Some ''ann'') (Some ''pw''))"
proof -
  have "\<exists>i. snd (authenticate sample_net (spec_from_model sample_dn_lib sample_ldap_directory [sample_mapping]) ''ann'' ''pw''
      (connect_opts sample_settings)) = Inr i"
    using sample_authenticate by (auto split: prod.splits sum.splits)
  then show ?thesis
    using test_passes_iff_login_succeeds [of "''ann''" "''pw''" sample_net "spec_from_model sample_dn_lib sample_ldap_directory [sample_mapping]"
      "connect_opts sample_settings"] by simp
qed

lemma identifiers_are_unique_witness:
  "raw_all sample_net (sample_entry ''7'') ''uidn'' = raw_all sample_net ((sample_entry ''7'')\<lparr>en_dn := ''cn=bob''\<rparr>) ''uidn''"
proof -
  have "unique_id sample_net sample_ldap_directory (sample_entry ''7'') = Inr ''id:uidn=7''"
    and "unique_id sample_net sample_ldap_directory ((sample_entry ''7'')\<lparr>en_dn := ''cn=bob''\<rparr>) = Inr ''id:uidn=7''"
    and "dl_casefold (ln_dn sample_net) (id_attribute sample_ldap_directory) \<noteq> dl_casefold (ln_dn sample_net) DEFAULT_UNIQUE_ID_ATTRIBUTE"
    and a: "id_attribute sample_ldap_directory = ''uidn''" by code_simp+
  moreover have "dl_utf8_decode (ln_dn sample_net) r = Some r" for r by (simp add: sample_net_def sample_dn_lib_def)
  ultimately show ?thesis
    using identifiers_are_unique [of sample_net sample_ldap_directory "sample_entry ''7''" "''id:uidn=7''"] by (metis option.inject)
qed

end
