(* ===== verification/Weburl.thy ===== *)
theory Weburl
  imports AuthDeps Netaddr
begin

section \<open>The parts of a URL\<close>

text \<open>
  \<open>urllib.parse.urlsplit\<close> of the standard library and the properties of its result that the program reads:
  scheme, host, port, path, query, fragment and the credentials before the host. The check of an IPv6 literal in
  brackets is a parameter, as in the CSRF check, whose network location this is.
\<close>

record url_parts =
  up_scheme :: string
  up_netloc :: string
  up_path :: string
  up_query :: string
  up_fragment :: string

definition cut_at :: "char \<Rightarrow> string \<Rightarrow> string \<times> string" where
  \<comment> \<open>what is before and after the first \<open>c\<close>\<close>
  "cut_at c s = (takeWhile (\<lambda>x. x \<noteq> c) s, tl (dropWhile (\<lambda>x. x \<noteq> c) s))"

definition after_last :: "char \<Rightarrow> string \<Rightarrow> string" where
  \<comment> \<open>\<open>s.rpartition(c)[2]\<close>\<close>
  "after_last c s = rev (takeWhile (\<lambda>x. x \<noteq> c) (rev s))"

definition clean_url :: "string \<Rightarrow> string" where
  "clean_url url = filter (\<lambda>c. code c \<notin> {9, 10, 13}) (lstrip_by (\<lambda>c. code c \<le> 32) url)"

definition split_scheme :: "string \<Rightarrow> string \<times> string" where
  "split_scheme url =
     (let s = takeWhile (\<lambda>c. c \<noteq> CHR '':'') url
      in if length s < length url \<and> s \<noteq> [] \<and> is_ascii_alpha (hd s) \<and> list_all is_scheme_char s
         then (py_lower s, drop (length s + 1) url) else ([], url))"

definition urlsplit :: "(string \<Rightarrow> bool) \<Rightarrow> string \<Rightarrow> url_parts option" where
  \<comment> \<open>\<open>None\<close> is \<open>ValueError\<close>\<close>
  "urlsplit bracketed_ok url =
     (let (scheme, rest) = split_scheme (clean_url url);
          has_netloc = startswith rest ''//'';
          netloc = (if has_netloc then takeWhile (\<lambda>c. c \<notin> set ''/?#'') (drop 2 rest) else []);
          rest = (if has_netloc then dropWhile (\<lambda>c. c \<notin> set ''/?#'') (drop 2 rest) else rest);
          opens = (CHR ''['' \<in> set netloc); closes = (CHR '']'' \<in> set netloc)
      in if opens \<noteq> closes \<or> opens \<and> closes \<and> \<not> bracketed_ok netloc then None
         else let (rest, fragment) = cut_at (CHR ''#'') rest; (path, query) = cut_at (CHR ''?'') rest
           in Some \<lparr>up_scheme = scheme, up_netloc = netloc, up_path = path, up_query = query, up_fragment = fragment\<rparr>)"

definition has_userinfo :: "url_parts \<Rightarrow> bool" where
  \<comment> \<open>\<open>username is not None\<close>\<close>
  "has_userinfo u = (CHR ''@'' \<in> set (up_netloc u))"

definition host_port :: "url_parts \<Rightarrow> string \<times> string" where
  \<comment> \<open>\<open>_hostinfo\<close>; an absent port is the empty string\<close>
  "host_port u =
     (let h = after_last (CHR ''@'') (up_netloc u)
      in if CHR ''['' \<in> set h
         then let (host, p) = cut_at (CHR '']'') (snd (cut_at (CHR ''['') h)) in (host, snd (cut_at (CHR '':'') p))
         else cut_at (CHR '':'') h)"

definition hostname :: "url_parts \<Rightarrow> string option" where
  \<comment> \<open>the zone of an IPv6 address keeps its case\<close>
  "hostname u =
     (let h = fst (host_port u); zone = dropWhile (\<lambda>c. c \<noteq> CHR ''%'') h
      in if h = [] then None else Some (py_lower (takeWhile (\<lambda>c. c \<noteq> CHR ''%'') h) @ zone))"

definition url_port :: "url_parts \<Rightarrow> int option option" where
  \<comment> \<open>\<open>None\<close> is \<open>ValueError\<close>\<close>
  "url_port u =
     (let p = snd (host_port u)
      in if p = [] then Some None
         else if list_all is_decimal_char p \<and> decimal_value p \<le> 65535 then Some (Some (decimal_value p)) else None)"

lemma cut_at_cover: "set s \<subseteq> insert c (set (fst (cut_at c s)) \<union> set (snd (cut_at c s)))"
proof (induction s)
  case (Cons x s)
  then show ?case by (cases "x = c") (auto simp: cut_at_def)
qed simp

text \<open>A character of the URL other than those the splitting removes is in one of the parts.\<close>
lemma urlsplit_cover:
  assumes "urlsplit bracketed_ok url = Some u" "x \<in> set url" "32 < code x" "x \<notin> set '':/?#''"
  shows "x \<in> set (up_scheme u) \<or> is_scheme_char x \<or> x \<in> set (up_netloc u) \<or> x \<in> set (up_path u) \<or> x \<in> set (up_query u) \<or> x \<in> set (up_fragment u)"
proof -
  have lead: "x \<in> set (dropWhile (\<lambda>c. code c \<le> 32) url)"
  proof -
    have "x \<notin> set (takeWhile (\<lambda>c. code c \<le> 32) url)" using assms(3) by (auto dest: set_takeWhileD)
    then show ?thesis using assms(2) by (metis Un_iff set_append takeWhile_dropWhile_id)
  qed
  then have clean: "x \<in> set (clean_url url)" using assms(3) by (auto simp: clean_url_def lstrip_by_def)
  obtain scheme rest where sr: "split_scheme (clean_url url) = (scheme, rest)" by fastforce
  have rest: "is_scheme_char x \<or> x \<in> set rest"
  proof (cases "scheme = [] \<and> rest = clean_url url")
    case True
    then show ?thesis using clean by simp
  next
    case False
    let ?s = "takeWhile (\<lambda>c. c \<noteq> CHR '':'') (clean_url url)"
    have s: "length ?s < length (clean_url url)" "list_all is_scheme_char ?s" "rest = drop (length ?s + 1) (clean_url url)"
      using sr False by (auto simp: split_scheme_def Let_def split: if_splits)
    have e: "clean_url url = ?s @ clean_url url ! length ?s # rest"
      using s(1,3) id_take_nth_drop [OF s(1)] by (simp add: takeWhile_eq_take [symmetric])
    have "clean_url url ! length ?s = CHR '':''" using nth_length_takeWhile [OF s(1)] by simp
    then have "x \<in> set ?s \<or> x \<in> set rest" using clean e assms(4) by (metis Un_iff insertE insertI1 list.set(2) set_append)
    then show ?thesis using s(2) by (auto simp: list_all_iff)
  qed
  let ?net = "startswith rest ''//''"
  define r where "r = (if ?net then dropWhile (\<lambda>c. c \<notin> set ''/?#'') (drop 2 rest) else rest)"
  have u: "up_netloc u = (if ?net then takeWhile (\<lambda>c. c \<notin> set ''/?#'') (drop 2 rest) else [])"
    "up_fragment u = snd (cut_at (CHR ''#'') r)" "up_path u = fst (cut_at (CHR ''?'') (fst (cut_at (CHR ''#'') r)))"
    "up_query u = snd (cut_at (CHR ''?'') (fst (cut_at (CHR ''#'') r)))"
    using assms(1) sr by (auto simp: urlsplit_def Let_def r_def split: prod.splits if_splits)
  have "x \<in> set (up_netloc u) \<or> x \<in> set r" if "x \<in> set rest"
  proof (cases ?net)
    case True
    then obtain t where t: "rest = ''//'' @ t" by (auto simp: startswith_iff)
    then have "x \<in> set t" using that assms(4) by auto
    then have "x \<in> set (takeWhile (\<lambda>c. c \<notin> set ''/?#'') t) \<or> x \<in> set (dropWhile (\<lambda>c. c \<notin> set ''/?#'') t)"
      by (metis Un_iff set_append takeWhile_dropWhile_id)
    then show ?thesis using t True by (simp add: u(1) r_def)
  qed (use that in \<open>simp add: r_def\<close>)
  moreover have "x \<in> set (up_path u) \<or> x \<in> set (up_query u) \<or> x \<in> set (up_fragment u)" if "x \<in> set r"
    using that cut_at_cover [of r "CHR ''#''"] cut_at_cover [of "fst (cut_at (CHR ''#'') r)" "CHR ''?''"] assms(4)
    unfolding u by auto
  ultimately show ?thesis using rest by blast
qed

lemma urlsplit_samples:
  "map_option (\<lambda>u. (up_scheme u, hostname u, url_port u, up_path u)) (urlsplit (\<lambda>_. True) ''LDAPS://DC1.x:636/'')
     = Some (''ldaps'', Some ''dc1.x'', Some (Some 636), ''/'')"
  "map_option (\<lambda>u. (hostname u, url_port u, has_userinfo u)) (urlsplit (\<lambda>_. True) ''ldap://a:b@[::1]:x'')
     = Some (Some ''::1'', None, True)"
  by code_simp+

end
