(* ===== verification/Directories.thy ===== *)
theory Directories
  imports AuthUsersApi Ldap Weburl
begin

section \<open>Administration of directories (api/routes/auth\_directories.py)\<close>

text \<open>
  The handlers of \<open>/api/auth/directories\<close>: the check of a configuration, the draft that lays changes over
  the stored row, the conditions under which a change is refused or must be verified by a login, the update as a
  compare-and-set on \<open>updated_at\<close>, deletion and the connection test. What the code takes from outside (the
  DN library, OpenSSL, the login of the backend, hashing, new row ids) is \<open>directory_env\<close>. A field of a
  \<open>PATCH\<close> body is \<open>None\<close> when it is unset and \<open>Some None\<close> when it is \<open>null\<close>.
\<close>

record directory_env =
  de_dn :: dn_lib
  de_pem_ok :: "string \<Rightarrow> bool"
  de_bracketed_ok :: "string \<Rightarrow> bool"
  de_backend :: "directory_config \<Rightarrow> group_mapping list \<Rightarrow> string \<Rightarrow> string \<Rightarrow> connect_options \<Rightarrow> backend_result"
  de_sha :: "string \<Rightarrow> string"
  de_fresh :: "nat \<Rightarrow> uuid"

type_synonym 'a patch = "'a option option"

record directory_changes =
  chg_name :: "string patch"
  chg_is_enabled :: "bool patch"
  chg_sort_order :: "int patch"
  chg_server_uris :: "string list patch"
  chg_transport_security :: "transport patch"
  chg_tls_verify :: "bool patch"
  chg_ca_cert_pem :: "string patch"
  chg_bind_dn :: "string patch"
  chg_bind_password :: "string patch"
  chg_timeout_seconds :: "int patch"
  chg_user_search_base :: "string patch"
  chg_user_search_filter :: "string patch"
  chg_username_attribute :: "string patch"
  chg_unique_id_attribute :: "string patch"
  chg_ad_upn_suffix :: "string patch"
  chg_display_name_attribute :: "string patch"
  chg_email_attribute :: "string patch"
  chg_group_mode :: "string patch"
  chg_group_search_base :: "string patch"
  chg_group_search_filter :: "string patch"
  chg_group_member_attribute :: "string patch"
  chg_group_member_value :: "string patch"

record directory_update =
  du_changes :: directory_changes
  du_clear_bind_password :: bool
  du_mappings :: "(string \<times> role) list option"
  du_verification :: "(string \<times> string) option"

record directory_read =
  rd_config :: directory_config \<comment> \<open>without the password\<close>
  rd_has_bind_password :: bool
  rd_mappings :: "(string \<times> role) list"
  rd_user_count :: nat

definition invalid :: "string \<Rightarrow> http_error" where "invalid m = HttpError 422 m"

definition clean_text :: "string option \<Rightarrow> string option" where
  \<comment> \<open>\<open>_clean\<close>\<close>
  "clean_text v = or_none (map_option py_strip v)"

subsection \<open>The check of a configuration\<close>

definition valid_server_uri :: "(string \<Rightarrow> bool) \<Rightarrow> string \<Rightarrow> string \<Rightarrow> bool" where
  "valid_server_uri bracketed_ok uri scheme =
     (case urlsplit bracketed_ok uri of None \<Rightarrow> False
      | Some u \<Rightarrow> (case url_port u of None \<Rightarrow> False
          | Some port \<Rightarrow> up_scheme u = scheme \<and> hostname u \<noteq> None \<and> up_path u \<in> {[], ''/''} \<and> up_query u = []
              \<and> up_fragment u = [] \<and> \<not> has_userinfo u \<and> (case port of None \<Rightarrow> True | Some p \<Rightarrow> 0 < p \<and> p < 65536)))"

definition attribute_name :: "string \<Rightarrow> bool" where
  \<comment> \<open>\<open>_ATTRIBUTE_NAME.fullmatch\<close>\<close>
  "attribute_name s =
     ((s \<noteq> [] \<and> is_ascii_alpha (hd s) \<and> list_all (\<lambda>c. is_ascii_alpha c \<or> is_decimal_char c \<or> c = CHR ''-'') (tl s)) \<or>
      (let parts = split_on (CHR ''.'') s
       in 2 \<le> length parts \<and> list_all (\<lambda>p. p \<noteq> [] \<and> list_all is_decimal_char p \<and> (p = ''0'' \<or> hd p \<noteq> CHR ''0'')) parts))"

definition effective_unique_id_attribute :: "directory_env \<Rightarrow> string option \<Rightarrow> string" where
  "effective_unique_id_attribute de v = dl_casefold (de_dn de) (or_text v DEFAULT_UNIQUE_ID_ATTRIBUTE)"

definition some_text :: "string option \<Rightarrow> bool" where
  \<comment> \<open>\<open>bool(v)\<close>\<close>
  "some_text v = (or_none v \<noteq> None)"

definition validate_directory :: "directory_env \<Rightarrow> connect_options \<Rightarrow> directory_config \<Rightarrow> http_error + unit" where
  \<comment> \<open>\<open>_validate\<close>\<close>
  "validate_directory de opts c =
     and_then (raise_when (transport_security c = NoTls \<and> production opts) (invalid ''transport_security'')) (\<lambda>_.
     and_then (raise_when (transport_security c \<noteq> NoTls \<and> \<not> tls_verify c \<and> \<not> allow_insecure_tls opts) (invalid ''tls_verify'')) (\<lambda>_.
     and_then (raise_when (list_ex (\<lambda>uri. \<not> valid_server_uri (de_bracketed_ok de) uri
         (if transport_security c = Ldaps then ''ldaps'' else ''ldap'')) (server_uris c)) (invalid ''server_uris'')) (\<lambda>_.
     and_then (raise_when (some_text (ca_cert_pem c) \<and> (\<not> contains (the (ca_cert_pem c)) ''BEGIN CERTIFICATE''
         \<or> \<not> de_pem_ok de (the (ca_cert_pem c)))) (invalid ''ca_cert_pem'')) (\<lambda>_.
     and_then (raise_when (some_text (bind_dn c) \<and> \<not> some_text (bind_password c)) (invalid ''bind_password'')) (\<lambda>_.
     and_then (raise_when (dir_kind c = ''ldap'' \<and> some_text (user_search_filter c)
         \<and> \<not> contains (the (user_search_filter c)) ''{username}'') (invalid ''user_search_filter'')) (\<lambda>_.
     and_then (raise_when (some_text (unique_id_attribute c) \<and> (dir_kind c = ''ad''
         \<or> \<not> attribute_name (the (unique_id_attribute c)))) (invalid ''unique_id_attribute'')) (\<lambda>_.
     and_then (raise_when (dir_kind c = ''ad'' \<and> group_mode c = ''group_search'') (invalid ''group_mode'')) (\<lambda>_.
     and_then (raise_when (dir_kind c = ''ldap'' \<and> group_mode c = ''ad_nested'') (invalid ''group_mode'')) (\<lambda>_.
       raise_when (group_mode c = ''group_search'' \<and> \<not> some_text (group_search_base c)) (invalid ''group_search_base''))))))))))"

definition GROUP_DN_NORMALIZED_MAX_LENGTH :: nat where "GROUP_DN_NORMALIZED_MAX_LENGTH = 1024"

fun mapping_rows_from ::
    "directory_env \<Rightarrow> uuid \<Rightarrow> string list \<Rightarrow> nat \<Rightarrow> (string \<times> role) list \<Rightarrow> http_error + group_mapping list" where
  \<comment> \<open>the loop of \<open>_mapping_rows\<close>, with the normal forms seen and the number of the next row\<close>
  "mapping_rows_from de did seen n [] = Inr []"
| "mapping_rows_from de did seen n ((raw_dn, r) # ms) =
     (let dn = py_strip raw_dn; normalized = normalize_dn (de_dn de) dn
      in if dn = [] \<or> \<not> is_valid_dn (de_dn de) dn \<or> GROUP_DN_NORMALIZED_MAX_LENGTH < length normalized \<or> normalized \<in> set seen
         then Inl (invalid ''group_dn'')
         else and_then (mapping_rows_from de did (normalized # seen) (n + 1) ms) (\<lambda>rows.
           Inr (\<lparr>mapping_id = de_fresh de n, mapping_directory = did, group_dn = dn, group_dn_normalized = normalized,
             mapping_role = r\<rparr> # rows)))"

definition mapping_rows :: "directory_env \<Rightarrow> uuid \<Rightarrow> (string \<times> role) list \<Rightarrow> http_error + group_mapping list" where
  "mapping_rows de did ms = mapping_rows_from de did [] 0 ms"

subsection \<open>Laying changes over a row\<close>

definition set_required :: "'a patch \<Rightarrow> 'a \<Rightarrow> 'a" where
  \<comment> \<open>\<open>null\<close> leaves a required field as it is\<close>
  "set_required ch old = (case ch of Some (Some v) \<Rightarrow> v | _ \<Rightarrow> old)"

definition set_optional :: "('a option \<Rightarrow> 'a option) \<Rightarrow> 'a patch \<Rightarrow> 'a option \<Rightarrow> 'a option" where
  "set_optional f ch old = (case ch of None \<Rightarrow> old | Some v \<Rightarrow> f v)"

definition new_name :: "directory_changes \<Rightarrow> http_error + string patch" where
  "new_name ch =
     (case chg_name ch of None \<Rightarrow> Inr None
      | Some v \<Rightarrow> let n = (case v of None \<Rightarrow> [] | Some t \<Rightarrow> py_strip t) in if n = [] then Inl (invalid ''name'') else Inr (Some (Some n)))"

definition new_server_uris :: "directory_changes \<Rightarrow> http_error + string list patch" where
  "new_server_uris ch =
     (case chg_server_uris ch of Some (Some us) \<Rightarrow>
          let us = filter (\<lambda>u. u \<noteq> []) (map py_strip us) in if us = [] then Inl (invalid ''server_uris'') else Inr (Some (Some us))
      | v \<Rightarrow> Inr v)"

definition new_search_base :: "directory_changes \<Rightarrow> http_error + string patch" where
  "new_search_base ch =
     (case chg_user_search_base ch of None \<Rightarrow> Inr None
      | Some v \<Rightarrow> (case clean_text v of None \<Rightarrow> Inl (invalid ''user_search_base'') | Some b \<Rightarrow> Inr (Some (Some b))))"

definition new_bind_password :: "directory_changes \<Rightarrow> string option" where
  "new_bind_password ch = (case chg_bind_password ch of Some v \<Rightarrow> or_none v | None \<Rightarrow> None)"

definition apply_changes :: "directory_changes \<Rightarrow> bool \<Rightarrow> directory_config \<Rightarrow> http_error + directory_config" where
  "apply_changes ch clear_bind_password c =
     and_then (new_name ch) (\<lambda>name. and_then (new_server_uris ch) (\<lambda>uris. and_then (new_search_base ch) (\<lambda>base.
       Inr (c\<lparr>dir_name := set_required name (dir_name c), is_enabled := set_required (chg_is_enabled ch) (is_enabled c),
         sort_order := set_required (chg_sort_order ch) (sort_order c), server_uris := set_required uris (server_uris c),
         transport_security := set_required (chg_transport_security ch) (transport_security c),
         tls_verify := set_required (chg_tls_verify ch) (tls_verify c),
         ca_cert_pem := set_optional clean_text (chg_ca_cert_pem ch) (ca_cert_pem c),
         bind_dn := set_optional clean_text (chg_bind_dn ch) (bind_dn c),
         bind_password := (if clear_bind_password then None
                           else case new_bind_password ch of None \<Rightarrow> bind_password c | Some p \<Rightarrow> Some p),
         timeout_seconds := set_required (chg_timeout_seconds ch) (timeout_seconds c),
         user_search_base := set_required base (user_search_base c),
         user_search_filter := set_optional clean_text (chg_user_search_filter ch) (user_search_filter c),
         username_attribute := set_optional clean_text (chg_username_attribute ch) (username_attribute c),
         unique_id_attribute := set_optional clean_text (chg_unique_id_attribute ch) (unique_id_attribute c),
         ad_upn_suffix := set_optional clean_text (chg_ad_upn_suffix ch) (ad_upn_suffix c),
         display_name_attribute := set_optional clean_text (chg_display_name_attribute ch) (display_name_attribute c),
         email_attribute := set_optional clean_text (chg_email_attribute ch) (email_attribute c),
         group_mode := set_required (chg_group_mode ch) (group_mode c),
         group_search_base := set_optional clean_text (chg_group_search_base ch) (group_search_base c),
         group_search_filter := set_optional clean_text (chg_group_search_filter ch) (group_search_filter c),
         group_member_attribute := set_optional clean_text (chg_group_member_attribute ch) (group_member_attribute c),
         group_member_value := set_optional (\<lambda>v. v) (chg_group_member_value ch) (group_member_value c)\<rparr>))))"

definition bind_target :: "directory_config \<Rightarrow> string list \<times> transport \<times> bool \<times> string option \<times> string option" where
  \<comment> \<open>\<open>_BIND_TARGET_FIELDS\<close>\<close>
  "bind_target c = (server_uris c, transport_security c, tls_verify c, ca_cert_pem c, bind_dn c)"

definition password_reentered :: "directory_changes \<Rightarrow> bool \<Rightarrow> directory_config \<Rightarrow> bool" where
  "password_reentered ch clear draft =
     (if some_text (bind_dn draft) then new_bind_password ch \<noteq> None \<and> \<not> clear else clear)"

definition edited ::
    "directory_env \<Rightarrow> connect_options \<Rightarrow> directory_changes \<Rightarrow> bool \<Rightarrow> (string \<times> role) list option
     \<Rightarrow> directory_config \<times> group_mapping list \<Rightarrow> http_error + directory_config \<times> group_mapping list" where
  \<comment> \<open>the draft: the changes over the stored row and its mappings\<close>
  "edited de opts ch clear ms = (\<lambda>(base, base_maps).
     and_then (case ms of None \<Rightarrow> Inr base_maps | Some ms \<Rightarrow> mapping_rows de (dir_id base) ms) (\<lambda>maps.
     and_then (apply_changes ch clear base) (\<lambda>draft.
     and_then (validate_directory de opts draft) (\<lambda>_.
     and_then (raise_when (some_text (bind_password base) \<and> bind_target base \<noteq> bind_target draft
         \<and> \<not> password_reentered ch clear draft) (HttpError 422 ''bind_password_reentry'')) (\<lambda>_.
       Inr (draft, maps))))))"

subsection \<open>What a change affects\<close>

definition mapping_set :: "group_mapping list \<Rightarrow> (string \<times> role) set" where
  "mapping_set maps = (\<lambda>m. (group_dn_normalized m, mapping_role m)) ` set maps"

definition has_admin_mapping :: "group_mapping list \<Rightarrow> bool" where
  "has_admin_mapping maps = list_ex (\<lambda>m. mapping_role m = ADMIN) maps"

definition identity_fields :: "directory_config \<Rightarrow> (string list \<times> transport \<times> bool \<times> string option \<times> string option) \<times> string
    \<times> string option list \<times> string \<times> string option list" where
  \<comment> \<open>\<open>_IDENTITY_FIELDS\<close>\<close>
  "identity_fields c = (bind_target c, user_search_base c,
     [user_search_filter c, username_attribute c, unique_id_attribute c, ad_upn_suffix c], group_mode c,
     [group_search_base c, group_search_filter c, group_member_attribute c, group_member_value c])"

definition identity_changed :: "directory_config \<times> group_mapping list \<Rightarrow> directory_config \<times> group_mapping list \<Rightarrow> bool" where
  "identity_changed = (\<lambda>(config, maps) (draft, draft_maps).
     identity_fields draft \<noteq> identity_fields config \<or> mapping_set draft_maps \<noteq> mapping_set maps)"

definition login_affected :: "directory_config \<times> group_mapping list \<Rightarrow> directory_config \<times> group_mapping list \<Rightarrow> bool" where
  "login_affected old new = (identity_changed old new \<or> bind_password (fst new) \<noteq> bind_password (fst old)
     \<or> timeout_seconds (fst new) \<noteq> timeout_seconds (fst old))"

definition acting_in :: "principal \<Rightarrow> directory_config \<Rightarrow> bool" where
  "acting_in p config = (pr_realm p = realm_key_for (dir_id config))"

definition other_admin_sources :: "auth_db \<Rightarrow> auth_settings \<Rightarrow> uuid \<Rightarrow> nat" where
  "other_admin_sources db settings did =
     (if local_login_enabled settings then count_local_admins db None else 0)
       + count_admin_directories db (connect_opts settings) (Some did)"

definition no_admin_left :: "string \<Rightarrow> http_error" where "no_admin_left m = HttpError 409 m"

definition refuse_losing_admin ::
    "auth_db \<Rightarrow> auth_settings \<Rightarrow> principal \<Rightarrow> directory_config \<times> group_mapping list \<Rightarrow> directory_config \<times> group_mapping list
     \<Rightarrow> http_error + unit" where
  "refuse_losing_admin db settings p = (\<lambda>(config, maps) (draft, draft_maps).
     (let disabling = is_enabled config \<and> \<not> is_enabled draft;
          dropping_admin = is_enabled config \<and> is_enabled draft \<and> has_admin_mapping maps \<and> \<not> has_admin_mapping draft_maps
      in and_then (raise_when ((disabling \<or> dropping_admin) \<and> other_admin_sources db settings (dir_id config) = 0)
             (no_admin_left ''no_admin_left'')) (\<lambda>_.
         raise_when (disabling \<and> acting_in p config) (HttpError 409 ''acting_in_directory''))))"

definition verification_needed ::
    "auth_db \<Rightarrow> auth_settings \<Rightarrow> principal \<Rightarrow> directory_config \<times> group_mapping list \<Rightarrow> directory_config \<times> group_mapping list \<Rightarrow> bool" where
  "verification_needed db settings p old new =
     (is_enabled (fst new) \<and> (is_enabled (fst old) \<longrightarrow> login_affected old new)
      \<and> (acting_in p (fst old) \<or> other_admin_sources db settings (dir_id (fst old)) = 0))"

definition verification_required :: http_error where "verification_required = HttpError 409 ''directory_verification_required''"
definition verification_failed :: http_error where "verification_failed = HttpError 409 ''directory_verification_failed''"

definition verify_admin ::
    "directory_env \<Rightarrow> auth_settings \<Rightarrow> directory_config \<times> group_mapping list \<Rightarrow> (string \<times> string) option
     \<Rightarrow> http_error + directory_identity" where
  "verify_admin de settings draft credentials =
     (case credentials of None \<Rightarrow> Inl verification_required
      | Some (u, pw) \<Rightarrow> (case de_backend de (fst draft) (snd draft) u pw (connect_opts settings) of
            Authenticated i \<Rightarrow> if ident_role i \<noteq> ADMIN then Inl verification_failed else Inr i
          | _ \<Rightarrow> Inl verification_failed))"

definition refuse_disabled_verifier :: "directory_env \<Rightarrow> auth_db \<Rightarrow> directory_config \<Rightarrow> directory_identity \<Rightarrow> http_error + unit" where
  "refuse_disabled_verifier de db config i =
     raise_when (case user_with_subject db (realm_key_for (dir_id config)) (directory_subject_key (de_sha de) (ident_subject i)) of
        None \<Rightarrow> False | Some u \<Rightarrow> \<not> is_active u) verification_failed"

subsection \<open>The handlers\<close>

definition dir_mappings :: "auth_db \<Rightarrow> uuid \<Rightarrow> group_mapping list" where
  "dir_mappings db did = filter (\<lambda>m. mapping_directory m = did) (mappings db)"

definition load_config :: "auth_db \<Rightarrow> uuid \<Rightarrow> http_error + directory_config \<times> group_mapping list" where
  "load_config db did =
     (case get_directory db did of None \<Rightarrow> Inl (HttpError 404 ''directory'') | Some c \<Rightarrow> Inr (c, dir_mappings db did))"

definition user_count :: "auth_db \<Rightarrow> uuid \<Rightarrow> nat" where
  "user_count db did = length (filter (\<lambda>u. directory_id u = Some did) (users db))"

definition read_directory :: "directory_config \<times> group_mapping list \<Rightarrow> nat \<Rightarrow> directory_read" where
  "read_directory = (\<lambda>(c, maps) n. \<lparr>rd_config = c\<lparr>bind_password := None\<rparr>, rd_has_bind_password = some_text (bind_password c),
     rd_mappings = map (\<lambda>m. (group_dn m, mapping_role m)) maps, rd_user_count = n\<rparr>)"

definition list_directories :: "auth_db \<Rightarrow> directory_read list" where
  "list_directories db = map (\<lambda>c. read_directory (c, dir_mappings db (dir_id c)) (user_count db (dir_id c)))
     (sort_key (\<lambda>c. (sort_order c, dir_name c)) (directories db))"

definition get_policy :: "connect_options \<Rightarrow> bool \<times> bool" where
  "get_policy opts = (allow_insecure_tls opts, \<not> production opts)"

definition new_config ::
    "directory_env \<Rightarrow> directory_config \<Rightarrow> (string \<times> role) list \<Rightarrow> instant \<Rightarrow> uuid
     \<Rightarrow> http_error + directory_config \<times> group_mapping list" where
  \<comment> \<open>the body of the request is a configuration whose id and times are not read\<close>
  "new_config de body ms now did =
     (let name = py_strip (dir_name body); base = py_strip (user_search_base body);
          uris = filter (\<lambda>u. u \<noteq> []) (map py_strip (server_uris body))
      in and_then (raise_when (name = []) (invalid ''name'')) (\<lambda>_.
         and_then (raise_when (base = []) (invalid ''user_search_base'')) (\<lambda>_.
         and_then (raise_when (uris = []) (invalid ''server_uris'')) (\<lambda>_.
         and_then (mapping_rows de did ms) (\<lambda>maps.
           Inr (body\<lparr>dir_id := did, dir_name := name, server_uris := uris, user_search_base := base,
             ca_cert_pem := clean_text (ca_cert_pem body), bind_dn := clean_text (bind_dn body),
             bind_password := or_none (bind_password body), user_search_filter := clean_text (user_search_filter body),
             username_attribute := clean_text (username_attribute body),
             unique_id_attribute := clean_text (unique_id_attribute body), ad_upn_suffix := clean_text (ad_upn_suffix body),
             display_name_attribute := clean_text (display_name_attribute body),
             email_attribute := clean_text (email_attribute body), group_search_base := clean_text (group_search_base body),
             group_search_filter := clean_text (group_search_filter body),
             group_member_attribute := clean_text (group_member_attribute body), dir_created_at := now,
             dir_updated_at := now\<rparr>, maps))))))"

definition duplicate_name :: "auth_db \<Rightarrow> string \<Rightarrow> uuid option \<Rightarrow> bool" where
  "duplicate_name db name except = list_ex (\<lambda>d. dir_name d = name \<and> Some (dir_id d) \<noteq> except) (directories db)"

definition create_directory ::
    "directory_env \<Rightarrow> (auth_db \<Rightarrow> auth_db) \<Rightarrow> auth_settings \<Rightarrow> directory_config \<Rightarrow> (string \<times> role) list \<Rightarrow> instant \<Rightarrow> uuid
     \<Rightarrow> auth_db \<Rightarrow> http_error + directory_read \<times> auth_db" where
  \<comment> \<open>\<open>env\<close>: what other requests commit between the check of the name and the write\<close>
  "create_directory de env settings body ms now did db =
     and_then (new_config de body ms now did) (\<lambda>(c, maps).
     and_then (raise_when (duplicate_name db (dir_name c) None) (invalid ''duplicate_name'')) (\<lambda>_.
     and_then (validate_directory de (connect_opts settings) c) (\<lambda>_.
       let db = env db
       in and_then (raise_when (duplicate_name db (dir_name c) None \<or> did \<in> dir_id ` set (directories db)) (invalid ''duplicate_name'')) (\<lambda>_.
            Inr (read_directory (c, maps) 0, db\<lparr>directories := directories db @ [c], mappings := mappings db @ maps\<rparr>)))))"

definition check_update ::
    "directory_env \<Rightarrow> auth_settings \<Rightarrow> principal \<Rightarrow> uuid \<Rightarrow> directory_update \<Rightarrow> auth_db
     \<Rightarrow> http_error + instant \<times> (directory_config \<times> group_mapping list) \<times> bool" where
  \<comment> \<open>the first part of \<open>update_directory\<close>: the version read, the draft, and whether it must be verified\<close>
  "check_update de settings p did body db =
     and_then (load_config db did) (\<lambda>old.
     and_then (edited de (connect_opts settings) (du_changes body) (du_clear_bind_password body) (du_mappings body) old) (\<lambda>draft.
     and_then (refuse_losing_admin db settings p old draft) (\<lambda>_.
       Inr (dir_updated_at (fst old), draft, verification_needed db settings p old draft))))"

definition put_directory :: "directory_config \<Rightarrow> group_mapping list option \<Rightarrow> auth_db \<Rightarrow> auth_db" where
  "put_directory c maps db =
     db\<lparr>directories := map (\<lambda>d. if dir_id d = dir_id c then c else d) (directories db),
        mappings := (case maps of None \<Rightarrow> mappings db
                     | Some ms \<Rightarrow> filter (\<lambda>m. mapping_directory m \<noteq> dir_id c) (mappings db) @ ms)\<rparr>"

definition revoke_directory_sessions :: "uuid \<Rightarrow> auth_db \<Rightarrow> auth_db" where
  "revoke_directory_sessions did db =
     db\<lparr>sessions := filter (\<lambda>s. \<not> list_ex (\<lambda>u. user_id u = session_user s \<and> directory_id u = Some did) (users db)) (sessions db)\<rparr>"

definition next_version :: "instant \<Rightarrow> instant \<Rightarrow> instant \<Rightarrow> instant" where
  \<comment> \<open>\<open>updated_at\<close> after the provisional and the final write\<close>
  "next_version version now now' = max now' (max now (version + 1) + 1)"

definition update_block ::
    "directory_env \<Rightarrow> auth_settings \<Rightarrow> principal \<Rightarrow> uuid \<Rightarrow> directory_update \<Rightarrow> instant \<Rightarrow> directory_identity option
     \<Rightarrow> instant \<Rightarrow> instant \<Rightarrow> auth_db \<Rightarrow> http_error + directory_read \<times> auth_db" where
  \<comment> \<open>inside \<open>admin_change_guard\<close>\<close>
  "update_block de settings p did body version verified now now' db =
     and_then (raise_when (\<not> list_ex (\<lambda>d. dir_id d = did \<and> dir_updated_at d = version) (directories db))
         (HttpError 409 ''changed'')) (\<lambda>_.
     and_then (load_config db did) (\<lambda>old.
     and_then (edited de (connect_opts settings) (du_changes body) (du_clear_bind_password body) (du_mappings body) old) (\<lambda>draft.
     and_then (refuse_losing_admin db settings p old draft) (\<lambda>_.
     and_then (raise_when (verified = None \<and> verification_needed db settings p old draft) verification_required) (\<lambda>_.
     and_then (case verified of None \<Rightarrow> Inr () | Some i \<Rightarrow> refuse_disabled_verifier de db (fst old) i) (\<lambda>_.
     and_then (raise_when (chg_name (du_changes body) \<noteq> None \<and> duplicate_name db (dir_name (fst draft)) (Some did))
         (invalid ''duplicate_name'')) (\<lambda>_.
     and_then (raise_when (effective_unique_id_attribute de (unique_id_attribute (fst draft))
           \<noteq> effective_unique_id_attribute de (unique_id_attribute (fst old)) \<and> user_count db did \<noteq> 0)
         (invalid ''unique_id_attribute_in_use'')) (\<lambda>_.
       let saved = (fst draft)\<lparr>dir_updated_at := next_version version now now'\<rparr>;
           db' = put_directory saved (if du_mappings body = None then None else Some (snd draft)) db;
           db' = (if is_enabled (fst old) \<and> \<not> is_enabled (fst draft) \<or> identity_changed old draft
                  then revoke_directory_sessions did db' else db')
       in Inr (read_directory (saved, snd draft) (user_count db' did), db')))))))))"

definition update_directory ::
    "directory_env \<Rightarrow> (auth_db \<Rightarrow> auth_db) \<Rightarrow> auth_settings \<Rightarrow> principal \<Rightarrow> uuid \<Rightarrow> directory_update \<Rightarrow> instant \<Rightarrow> instant
     \<Rightarrow> auth_db \<Rightarrow> (http_error + directory_read) \<times> auth_db" where
  \<comment> \<open>\<open>env\<close>: what other requests commit before this one holds the lock, and while it asks the directory\<close>
  "update_directory de env settings p did body now now' db =
     (case check_update de settings p did body db of Inl e \<Rightarrow> (Inl e, db)
      | Inr (version, draft, needs_verification) \<Rightarrow>
          (case (if needs_verification then map_sum id Some (verify_admin de settings draft (du_verification body)) else Inr None) of
             Inl e \<Rightarrow> (Inl e, env db)
           | Inr verified \<Rightarrow> admin_change_guard (update_block de settings p did body version verified now now') (env db)))"

definition delete_directory :: "auth_settings \<Rightarrow> uuid \<Rightarrow> auth_db \<Rightarrow> (http_error + string) \<times> auth_db" where
  "delete_directory settings did db =
     admin_change_guard (\<lambda>db.
       and_then (load_config db did) (\<lambda>(c, _).
       and_then (raise_when (is_enabled c) (HttpError 409 ''enabled'')) (\<lambda>_.
       and_then (raise_when (other_admin_sources db settings did = 0) (no_admin_left ''no_admin_left'')) (\<lambda>_.
         let gone = (\<lambda>u. directory_id u = Some did)
         in Inr (dir_name c, db\<lparr>users := filter (\<lambda>u. \<not> gone u) (users db),
              sessions := filter (\<lambda>s. \<not> list_ex (\<lambda>u. user_id u = session_user s \<and> gone u) (users db)) (sessions db),
              directories := filter (\<lambda>d. dir_id d \<noteq> did) (directories db),
              mappings := filter (\<lambda>m. mapping_directory m \<noteq> did) (mappings db)\<rparr>))))) db"

subsection \<open>Connection tests\<close>

definition test_response :: "ldap_net \<Rightarrow> directory_env \<Rightarrow> auth_settings \<Rightarrow> directory_config \<times> group_mapping list
    \<Rightarrow> string option \<Rightarrow> string option \<Rightarrow> bool \<times> stage_result list" where
  \<comment> \<open>\<open>_run_test\<close>\<close>
  "test_response net de settings = (\<lambda>(c, maps) uname pw.
     (let stages = run_test net (spec_from_model (de_dn de) c maps) (connect_opts settings) uname pw in (list_all sr_ok stages, stages)))"

definition test_unsaved_directory where
  "test_unsaved_directory net de settings body ms uname pw now did =
     and_then (new_config de body ms now did) (\<lambda>draft.
     and_then (validate_directory de (connect_opts settings) (fst draft)) (\<lambda>_. Inr (test_response net de settings draft uname pw)))"

definition no_changes :: directory_changes where
  "no_changes = \<lparr>chg_name = None, chg_is_enabled = None, chg_sort_order = None, chg_server_uris = None,
     chg_transport_security = None, chg_tls_verify = None, chg_ca_cert_pem = None, chg_bind_dn = None, chg_bind_password = None,
     chg_timeout_seconds = None, chg_user_search_base = None, chg_user_search_filter = None, chg_username_attribute = None,
     chg_unique_id_attribute = None, chg_ad_upn_suffix = None, chg_display_name_attribute = None, chg_email_attribute = None,
     chg_group_mode = None, chg_group_search_base = None, chg_group_search_filter = None, chg_group_member_attribute = None,
     chg_group_member_value = None\<rparr>"

definition test_directory where
  "test_directory net de settings did (changes :: (directory_changes \<times> bool) option) ms uname pw db =
     and_then (load_config db did) (\<lambda>old.
     and_then (if changes = None \<and> ms = None then Inr old
               else let (ch, clear) = (case changes of None \<Rightarrow> (no_changes, False) | Some c \<Rightarrow> c)
                 in edited de (connect_opts settings) ch clear ms old) (\<lambda>draft.
       Inr (test_response net de settings draft uname pw)))"

subsection \<open>Drafts\<close>

lemma raise_when_const [simp]: "raise_when False e = Inr ()" "raise_when True e = Inl e"
  by (simp_all add: raise_when_def)

lemma mapping_rows_from_directory:
  "mapping_rows_from de did seen n ms = Inr rows \<Longrightarrow> list_all (\<lambda>m. mapping_directory m = did) rows"
  by (induction de did seen n ms arbitrary: rows rule: mapping_rows_from.induct)
    (auto simp: Let_def and_then_Inr split: if_splits)

lemma validate_directory_secure: "validate_directory de opts c = Inr u \<Longrightarrow> allowed_by_security opts c"
  by (auto simp: validate_directory_def and_then_Inr allowed_by_security_def)

lemma apply_changes_same:
  assumes "apply_changes ch clear c = Inr c'"
  shows "dir_id c' = dir_id c" "dir_kind c' = dir_kind c" "dir_updated_at c' = dir_updated_at c" "dir_created_at c' = dir_created_at c"
  using assms by (auto simp: apply_changes_def and_then_Inr)

lemma edited_Inr:
  assumes "edited de opts ch clear ms (base, base_maps) = Inr (draft, maps)" "list_all (\<lambda>m. mapping_directory m = dir_id base) base_maps"
  shows "apply_changes ch clear base = Inr draft \<and> dir_id draft = dir_id base \<and> allowed_by_security opts draft
    \<and> list_all (\<lambda>m. mapping_directory m = dir_id base) maps \<and> (ms = None \<longrightarrow> maps = base_maps)
    \<and> (some_text (bind_password base) \<and> bind_target base \<noteq> bind_target draft \<longrightarrow> password_reentered ch clear draft)"
proof -
  have "list_all (\<lambda>m. mapping_directory m = dir_id base) maps"
    using assms by (auto simp: edited_def and_then_Inr mapping_rows_def split: option.splits dest: mapping_rows_from_directory)
  then show ?thesis
    using assms(1) validate_directory_secure [of de opts draft] apply_changes_same(1) [of ch clear base draft]
    by (auto simp: edited_def and_then_Inr split: option.splits)
qed

text \<open>A \<open>null\<close> name or search base is refused, although \<open>null\<close> leaves every other required field as it is.\<close>
lemma null_name_is_refused:
  "apply_changes (no_changes\<lparr>chg_name := Some None\<rparr>) clear c = Inl (invalid ''name'')
   \<and> apply_changes (no_changes\<lparr>chg_user_search_base := Some None\<rparr>) clear c = Inl (invalid ''user_search_base'')"
  by (simp add: apply_changes_def new_name_def new_server_uris_def new_search_base_def no_changes_def clean_text_def or_none_def)

text \<open>C35: The stored password of the service account is not sent to a server it was not entered for: if a change of the
  servers, the encryption, the certificate check, the CA or the service account is accepted, for saving or for a
  test, then the draft has no password or the one given with the change.\<close>
lemma password_stays_with_its_target:
  assumes "edited de opts ch clear ms (base, base_maps) = Inr (draft, maps)"
    and "bind_password base = Some pw" "pw \<noteq> []" "bind_target draft \<noteq> bind_target base"
  shows "bind_password draft = None \<or> (\<exists>new. chg_bind_password ch = Some (Some new) \<and> bind_password draft = Some new \<and> new \<noteq> [])"
proof -
  have a: "apply_changes ch clear base = Inr draft" "password_reentered ch clear draft"
    using assms by (auto simp: edited_def and_then_Inr some_text_def or_none_def split: option.splits)
  have "bind_password draft = (if clear then None else case new_bind_password ch of None \<Rightarrow> bind_password base | Some p \<Rightarrow> Some p)"
    using a(1) by (auto simp: apply_changes_def and_then_Inr)
  moreover have "new_bind_password ch = Some p \<Longrightarrow> chg_bind_password ch = Some (Some p) \<and> p \<noteq> []" for p
    by (auto simp: new_bind_password_def or_none_def split: option.splits if_splits)
  ultimately show ?thesis
    using a(2) by (auto simp: password_reentered_def split: if_splits option.splits)
qed

text \<open>No credentials are stored with a server: an accepted URI has no user name and no password, so no at sign.\<close>
lemma server_uris_have_no_credentials:
  assumes "valid_server_uri bracketed_ok uri scheme" "CHR ''@'' \<notin> set scheme"
  shows "CHR ''@'' \<notin> set uri"
proof
  assume at_sign: "CHR ''@'' \<in> set uri"
  from assms(1) obtain u where u: "urlsplit bracketed_ok uri = Some u" "up_scheme u = scheme" "up_path u \<in> {[], ''/''}"
      "up_query u = []" "up_fragment u = []" "\<not> has_userinfo u"
    by (auto simp: valid_server_uri_def split: option.splits)
  have c: "32 < code (CHR ''@'')" "\<not> is_scheme_char (CHR ''@'')" by code_simp+
  from urlsplit_cover [OF u(1) at_sign c(1)] u assms(2) c(2) show False by (auto simp: has_userinfo_def)
qed

subsection \<open>An administrator can still log in\<close>

definition detached :: "auth_db \<Rightarrow> bool" where
  \<comment> \<open>local users belong to no directory\<close>
  "detached db = list_all (\<lambda>u. realm_key u = LOCAL_REALM \<longrightarrow> directory_id u = None) (users db)"

definition sound_db :: "auth_settings \<Rightarrow> auth_db \<Rightarrow> bool" where
  "sound_db settings db = (still_administrable settings db \<and> distinct (map dir_id (directories db)) \<and> detached db)"

lemma get_directory_unique:
  assumes "distinct (map dir_id (directories db))" "d \<in> set (directories db)"
  shows "get_directory db (dir_id d) = Some d"
  unfolding get_directory_def by (rule find_unique [OF assms])

lemma get_directory_Some: "get_directory db did = Some c \<Longrightarrow> c \<in> set (directories db) \<and> dir_id c = did"
  unfolding get_directory_def by (rule find_Some_iff_in)

lemma load_config_Inr: "load_config db did = Inr (c, maps) \<longleftrightarrow> get_directory db did = Some c \<and> maps = dir_mappings db did"
  by (auto simp: load_config_def split: option.splits)

lemma other_admin_sources_pos:
  "0 < other_admin_sources db settings did \<longleftrightarrow>
     local_login_enabled settings \<and> (\<exists>u\<in>set (users db). is_local_admin u) \<or>
     (\<exists>m\<in>set (mappings db). mapping_role m = ADMIN \<and> mapping_directory m \<noteq> did \<and>
        (\<exists>d\<in>set (directories db). dir_id d = mapping_directory m \<and> is_enabled d \<and> allowed_by_security (connect_opts settings) d))"
proof -
  have "0 < count_local_admins db None \<longleftrightarrow> (\<exists>u\<in>set (users db). is_local_admin u)"
    by (auto simp: count_local_admins_def filter_empty_conv)
  moreover have "0 < count_admin_directories db opts (Some did) \<longleftrightarrow>
     (\<exists>m\<in>set (mappings db). mapping_role m = ADMIN \<and> mapping_directory m \<noteq> did \<and>
        (\<exists>d\<in>set (directories db). dir_id d = mapping_directory m \<and> is_enabled d \<and> allowed_by_security opts d))" for opts
    unfolding count_admin_directories_def length_greater_0_conv remdups_eq_nil_iff map_is_Nil_conv
    by (auto simp: filter_empty_conv list_ex_iff)
  ultimately show ?thesis by (auto simp: other_admin_sources_def)
qed

text \<open>What does not touch local users and other directories keeps their ways in.\<close>
lemma other_sources_keep:
  assumes "0 < other_admin_sources db settings did"
    and "\<And>u. u \<in> set (users db) \<Longrightarrow> is_local_admin u \<Longrightarrow> u \<in> set (users db')"
    and "\<And>d. d \<in> set (directories db) \<Longrightarrow> dir_id d \<noteq> did \<Longrightarrow> d \<in> set (directories db')"
    and "\<And>m. m \<in> set (mappings db) \<Longrightarrow> mapping_directory m \<noteq> did \<Longrightarrow> m \<in> set (mappings db')"
  shows "admin_login_possible settings db'"
  using assms(1) unfolding other_admin_sources_pos admin_login_possible_def
  by (elim disjE) (use assms(2-4) in \<open>blast | metis\<close>)+

lemma put_directory_simps [simp]:
  "users (put_directory c ms db) = users db" "sessions (put_directory c ms db) = sessions db"
  "map dir_id (directories (put_directory c ms db)) = map dir_id (directories db)"
  by (auto simp: put_directory_def)

lemma put_directory_in: "get_directory db (dir_id c) = Some d \<Longrightarrow> c \<in> set (directories (put_directory c ms db))"
  by (force simp: put_directory_def dest: get_directory_Some)

lemma put_directory_other:
  "d \<in> set (directories db) \<Longrightarrow> dir_id d \<noteq> dir_id c \<Longrightarrow> d \<in> set (directories (put_directory c ms db))"
  "m \<in> set (mappings db) \<Longrightarrow> mapping_directory m \<noteq> dir_id c \<Longrightarrow> m \<in> set (mappings (put_directory c ms db))"
  by (force simp: put_directory_def split: option.splits)+

lemma revoke_directory_sessions_simps [simp]:
  "users (revoke_directory_sessions did db) = users db" "directories (revoke_directory_sessions did db) = directories db"
  "mappings (revoke_directory_sessions did db) = mappings db"
  by (simp_all add: revoke_directory_sessions_def)

text \<open>What a committed update is.\<close>
lemma update_block_Inr:
  assumes "update_block de settings p did body version verified now now' db = Inr (r, db')"
  obtains c maps draft draft_maps where
    "get_directory db did = Some c" "maps = dir_mappings db did" "dir_id c = did"
    "edited de (connect_opts settings) (du_changes body) (du_clear_bind_password body) (du_mappings body) (c, maps) = Inr (draft, draft_maps)"
    "refuse_losing_admin db settings p (c, maps) (draft, draft_maps) = Inr ()"
    "verified = None \<longrightarrow> \<not> verification_needed db settings p (c, maps) (draft, draft_maps)"
    "\<And>i. verified = Some i \<Longrightarrow> refuse_disabled_verifier de db c i = Inr ()"
    "list_ex (\<lambda>d. dir_id d = did \<and> dir_updated_at d = version) (directories db)"
    "db' = (let d = put_directory (draft\<lparr>dir_updated_at := next_version version now now'\<rparr>)
               (if du_mappings body = None then None else Some draft_maps) db
            in if is_enabled c \<and> \<not> is_enabled draft \<or> identity_changed (c, maps) (draft, draft_maps)
               then revoke_directory_sessions did d else d)"
    "chg_name (du_changes body) \<noteq> None \<longrightarrow> \<not> duplicate_name db (dir_name draft) (Some did)"
proof -
  obtain old draft where
    o: "load_config db did = Inr old"
    "edited de (connect_opts settings) (du_changes body) (du_clear_bind_password body) (du_mappings body) old = Inr draft"
    "refuse_losing_admin db settings p old draft = Inr ()"
    "\<not> (verified = None \<and> verification_needed db settings p old draft)"
    "(case verified of None \<Rightarrow> Inr () | Some i \<Rightarrow> refuse_disabled_verifier de db (fst old) i) = Inr ()"
    "list_ex (\<lambda>d. dir_id d = did \<and> dir_updated_at d = version) (directories db)"
    "\<not> (chg_name (du_changes body) \<noteq> None \<and> duplicate_name db (dir_name (fst draft)) (Some did))"
    "db' = (let d = put_directory ((fst draft)\<lparr>dir_updated_at := next_version version now now'\<rparr>)
               (if du_mappings body = None then None else Some (snd draft)) db
            in if is_enabled (fst old) \<and> \<not> is_enabled (fst draft) \<or> identity_changed old draft
               then revoke_directory_sessions did d else d)"
    using assms unfolding update_block_def Let_def and_then_Inr raise_when_Inr unit_eq by auto
  obtain c maps where old: "old = (c, maps)" by (cases old)
  obtain dr dmaps where draft: "draft = (dr, dmaps)" by (cases draft)
  have c: "get_directory db did = Some c" "maps = dir_mappings db did" using o(1) by (simp_all add: old load_config_Inr)
  show thesis
    by (rule that [OF c _ o(2) [unfolded old draft] o(3) [unfolded old draft] _ _ o(6)])
      (use o c in \<open>auto simp: old draft dest: get_directory_Some\<close>)
qed

lemma dir_mappings_directory: "list_all (\<lambda>m. mapping_directory m = did) (dir_mappings db did)"
  by (simp add: dir_mappings_def list_all_iff)

lemma update_block_possible:
  assumes res: "update_block de settings p did body version verified now now' db = Inr (r, db')"
    and possible: "admin_login_possible settings db" and ids: "distinct (map dir_id (directories db))"
  shows "admin_login_possible settings db'"
  using res
proof (rule update_block_Inr)
  fix c maps draft draft_maps
  assume c: "get_directory db did = Some c" "maps = dir_mappings db did" "dir_id c = did"
    and e: "edited de (connect_opts settings) (du_changes body) (du_clear_bind_password body) (du_mappings body) (c, maps) = Inr (draft, draft_maps)"
    and refuse: "refuse_losing_admin db settings p (c, maps) (draft, draft_maps) = Inr ()"
    and db': "db' = (let d = put_directory (draft\<lparr>dir_updated_at := next_version version now now'\<rparr>)
               (if du_mappings body = None then None else Some draft_maps) db
            in if is_enabled c \<and> \<not> is_enabled draft \<or> identity_changed (c, maps) (draft, draft_maps)
               then revoke_directory_sessions did d else d)"
  have maps: "list_all (\<lambda>m. mapping_directory m = dir_id c) maps" using c dir_mappings_directory by simp
  note d = edited_Inr [OF e maps]
  let ?saved = "draft\<lparr>dir_updated_at := next_version version now now'\<rparr>"
  let ?put = "put_directory ?saved (if du_mappings body = None then None else Some draft_maps) db"
  have id: "dir_id ?saved = did" using d c(3) by simp
  have eq: "admin_login_possible settings db' = admin_login_possible settings ?put"
    by (simp add: db' Let_def admin_login_possible_def)
  show ?thesis
  proof (cases "0 < other_admin_sources db settings did")
    case True
    then have "admin_login_possible settings ?put"
      by (rule other_sources_keep) (use id in \<open>auto intro: put_directory_other\<close>)
    then show ?thesis by (simp add: eq)
  next
    case False
    then obtain m d where "m \<in> set (mappings db)" "mapping_role m = ADMIN" "mapping_directory m = did"
        and dd: "d \<in> set (directories db)" "dir_id d = did" "is_enabled d"
      using possible unfolding other_admin_sources_pos admin_login_possible_def by blast
    moreover have "d = c" using get_directory_unique [OF ids dd(1)] c(1) dd(2) by simp
    ultimately have "is_enabled c" "has_admin_mapping maps"
      by (auto simp: c(2) has_admin_mapping_def list_ex_iff dir_mappings_def)
    then have new: "is_enabled draft" "has_admin_mapping draft_maps"
      using refuse False c by (auto simp: refuse_losing_admin_def Let_def and_then_Inr)
    then obtain m where m: "m \<in> set draft_maps" "mapping_role m = ADMIN" by (auto simp: has_admin_mapping_def list_ex_iff)
    then have md: "mapping_directory m = did" using d c(3) by (auto simp: list_all_iff)
    have "m \<in> set (mappings ?put)"
      using m(1) d c(2) by (auto simp: put_directory_def dir_mappings_def split: if_splits)
    moreover have "?saved \<in> set (directories ?put)"
      by (rule put_directory_in) (use c id in simp)
    moreover have "allowed_by_security (connect_opts settings) ?saved"
      using d by (simp add: allowed_by_security_def)
    ultimately have "admin_login_possible settings ?put"
      unfolding admin_login_possible_def using m(2) md id new(1) by (auto simp del: directory_config.select_convs)
    then show ?thesis by (simp add: eq)
  qed
qed

lemma update_block_sound:
  assumes "update_block de settings p did body version verified now now' db = Inr (r, db')" "sound_db settings db"
  shows "sound_db settings db'"
proof -
  have "admin_login_possible settings db'"
    using update_block_possible [OF assms(1)] assms(2) by (simp add: sound_db_def still_administrable_def)
  moreover have "users db' = users db \<and> map dir_id (directories db') = map dir_id (directories db)"
    using assms(1) by (rule update_block_Inr) (auto simp: Let_def)
  ultimately show ?thesis using assms(2) by (simp add: sound_db_def still_administrable_def detached_def)
qed

lemma delete_directory_sound:
  assumes "sound_db settings db"
  shows "sound_db settings (snd (delete_directory settings did db))"
proof (cases "fst (delete_directory settings did db)")
  case Inl
  then have "snd (delete_directory settings did db) = db"
    by (auto simp: delete_directory_def admin_change_guard_def split: sum.splits)
  with assms show ?thesis by simp
next
  case (Inr n)
  let ?db' = "snd (delete_directory settings did db)"
  have other: "0 < other_admin_sources db settings did"
    and us: "users ?db' = filter (\<lambda>u. directory_id u \<noteq> Some did) (users db)"
    and ds: "directories ?db' = filter (\<lambda>d. dir_id d \<noteq> did) (directories db)"
    and ms: "mappings ?db' = filter (\<lambda>m. mapping_directory m \<noteq> did) (mappings db)"
    using Inr by (auto simp: delete_directory_def admin_change_guard_def and_then_Inr Let_def split: sum.splits)
  have "admin_login_possible settings ?db'"
    using assms by (intro other_sources_keep [OF other])
      (auto simp: us ds ms sound_db_def detached_def list_all_iff is_local_admin_def)
  then show ?thesis
    using assms by (auto simp: sound_db_def still_administrable_def us ds detached_def list_all_iff intro: distinct_map_filterI)
qed

lemma new_config_Inr:
  "new_config de body ms now did = Inr (c, maps) \<Longrightarrow> dir_id c = did \<and> list_all (\<lambda>m. mapping_directory m = did) maps"
  by (auto simp: new_config_def Let_def and_then_Inr mapping_rows_def dest: mapping_rows_from_directory)

lemma create_directory_sound:
  assumes "create_directory de (\<lambda>d. d) settings body ms now did db = Inr (r, db')" "sound_db settings db"
  shows "sound_db settings db'"
proof -
  obtain c maps where c: "new_config de body ms now did = Inr (c, maps)" "did \<notin> dir_id ` set (directories db)"
    and db': "db' = db\<lparr>directories := directories db @ [c], mappings := mappings db @ maps\<rparr>"
    using assms(1) by (auto simp: create_directory_def and_then_Inr Let_def)
  with new_config_Inr [OF c(1)] assms(2) show ?thesis
    by (auto simp: sound_db_def still_administrable_def admin_login_possible_def detached_def)
qed

subsection \<open>Any interleaving of requests\<close>

text \<open>A request of an administrator; an update of a directory carries the requests that others finish while it waits for
  the directory.\<close>

datatype request_op =
    UserRequest principal admin_request
  | CreateDirectory directory_config "(string \<times> role) list" uuid
  | UpdateDirectory principal uuid directory_update "request_op list"
  | DeleteDirectory uuid

fun op_step :: "directory_env \<Rightarrow> (string \<Rightarrow> string) \<Rightarrow> auth_settings \<Rightarrow> instant \<Rightarrow> request_op \<Rightarrow> auth_db \<Rightarrow> auth_db"
  and op_run :: "directory_env \<Rightarrow> (string \<Rightarrow> string) \<Rightarrow> auth_settings \<Rightarrow> instant \<Rightarrow> request_op list \<Rightarrow> auth_db \<Rightarrow> auth_db" where
  "op_step de hash settings now (UserRequest p r) db = admin_step hash settings p now r db"
| "op_step de hash settings now (CreateDirectory body ms did) db =
     (case create_directory de (\<lambda>d. d) settings body ms now did db of Inl _ \<Rightarrow> db | Inr (_, db) \<Rightarrow> db)"
| "op_step de hash settings now (UpdateDirectory p did body meanwhile) db =
     snd (update_directory de (\<lambda>d. op_run de hash settings now meanwhile d) settings p did body now now db)"
| "op_step de hash settings now (DeleteDirectory did) db = snd (delete_directory settings did db)"
| "op_run de hash settings now [] db = db"
| "op_run de hash settings now (r # rs) db = op_run de hash settings now rs (op_step de hash settings now r db)"

lemma put_user_detached:
  "detached db \<Longrightarrow> (realm_key u = LOCAL_REALM \<Longrightarrow> directory_id u = None) \<Longrightarrow> detached (put_user db u)"
  by (auto simp: detached_def put_user_def list_all_iff)

lemma detached_user: "detached db \<Longrightarrow> get_user db i = Some u \<Longrightarrow> realm_key u = LOCAL_REALM \<Longrightarrow> directory_id u = None"
  by (auto simp: detached_def list_all_iff dest: get_user_Some)

lemma detached_users_cong: "users db' = users db \<Longrightarrow> detached db' = detached db"
  by (simp add: detached_def)

lemma update_user_block_detached:
  assumes "update_user_block settings uid changes now db = Inr (u', db')" "detached db"
  shows "detached db'"
proof -
  obtain u u1 db1 r1 u2 db2 r2 where u: "get_user db uid = Some u"
    and 1: "change_role settings changes db u False = Inr (u1, db1, r1)"
    and 2: "change_active settings changes db1 u1 r1 = Inr (u2, db2, r2)"
    and db': "db' = (if r2 then revoke_all_for_user (put_user db2 (change_fields changes now u2)) (user_id (change_fields changes now u2)) None
                     else put_user db2 (change_fields changes now u2))"
    using assms(1) by (auto simp: update_user_block_def and_then_Inr get_user_or_404_Inr Let_def)
  have d0: "realm_key u = LOCAL_REALM \<Longrightarrow> directory_id u = None" by (rule detached_user [OF assms(2) u])
  have d1: "detached db1" "realm_key u1 = realm_key u" "directory_id u1 = directory_id u"
    using 1 assms(2) d0 by (auto simp: change_role_def Let_def and_then_Inr split: option.splits if_splits intro!: put_user_detached)
  have d2: "detached db2" "realm_key u2 = realm_key u" "directory_id u2 = directory_id u"
    using 2 d0 d1 by (auto simp: change_active_def Let_def and_then_Inr split: option.splits if_splits intro!: put_user_detached)
  have "directory_id (change_fields changes now u2) = directory_id u2"
    by (simp add: change_fields_def Let_def split: option.splits)
  then have "detached (put_user db2 (change_fields changes now u2))" using d2 d0 by (intro put_user_detached) auto
  then show ?thesis by (simp add: db' detached_users_cong [OF revoke_all_same(1)])
qed

lemma admin_step_detached: "detached db \<Longrightarrow> detached (admin_step hash settings p now r db)"
proof (cases r)
  case (UpdateUser i c)
  assume d: "detached db"
  show ?thesis
    using d by (auto simp: UpdateUser update_user_def admin_change_guard_def split: sum.splits dest: update_user_block_detached)
next
  case (DeleteUser i)
  assume "detached db"
  then show ?thesis
    by (auto simp: DeleteUser delete_user_def admin_change_guard_def and_then_Inr detached_def delete_user_row_def list_all_iff
        split: sum.splits if_splits)
next
  case (ResetPassword i pw)
  assume d: "detached db"
  have "detached db'" if s: "set_local_password hash (\<lambda>d. d) db x pw n k None now = Inr (u, db')" for x n k u db'
  proof -
    have "users db' = map (\<lambda>y. if user_id y = user_id x then password_values hash pw now y else y) (users db)"
      using set_local_password_Inr [OF s] by simp
    then show ?thesis using d by (auto simp: detached_def list_all_iff password_values_def)
  qed
  with d show ?thesis
    by (auto simp: ResetPassword reset_password_def and_then_Inr split: sum.splits)
next
  case (RevokeSessions i)
  assume "detached db"
  then show ?thesis
    by (auto simp: RevokeSessions revoke_sessions_def and_then_Inr detached_users_cong [OF revoke_all_same(1)] split: sum.splits)
next
  case (UnlockUser i)
  assume "detached db"
  then show ?thesis
    by (auto simp: UnlockUser unlock_def and_then_Inr Let_def get_user_or_404_Inr unlock_user_def split: sum.splits
        intro!: put_user_detached dest: detached_user)
next
  case (CreateUser n pw r i)
  assume "detached db"
  then show ?thesis
    by (auto simp: CreateUser create_user_def create_local_user_def detached_def Let_def split: sum.splits option.splits if_splits)
qed

definition same_directories :: "auth_db \<Rightarrow> auth_db \<Rightarrow> bool" where
  "same_directories db db' = (directories db' = directories db \<and> mappings db' = mappings db)"

lemma same_directories_simps [simp]: "same_directories db db" "same_directories db (put_user db u)"
  "same_directories db (revoke_all_for_user db i k)" "same_directories db (delete_user_row db i)"
  by (simp_all add: same_directories_def delete_user_row_def)

lemma same_directories_trans [trans]: "same_directories a b \<Longrightarrow> same_directories b c \<Longrightarrow> same_directories a c"
  by (simp add: same_directories_def)

lemma admin_step_directories: "same_directories db (admin_step hash settings p now r db)"
proof (cases r)
  case (UpdateUser i c)
  have "same_directories db db'" if "update_user_block settings i ch now db = Inr (u', db')" for ch u' db'
  proof -
    have cr: "same_directories d d1" if "change_role settings ch d u b = Inr (u1, d1, b1)" for d u b u1 d1 b1
      using that by (auto simp: change_role_def Let_def and_then_Inr split: option.splits if_splits)
    have ca: "same_directories d d1" if "change_active settings ch d u b = Inr (u1, d1, b1)" for d u b u1 d1 b1
      using that by (auto simp: change_active_def Let_def and_then_Inr split: option.splits if_splits)
    show ?thesis
      using that by (auto simp: update_user_block_def and_then_Inr Let_def same_directories_def dest!: cr ca split: if_splits)
  qed
  then show ?thesis by (auto simp: UpdateUser update_user_def admin_change_guard_def split: sum.splits)
next
  case (DeleteUser i)
  then show ?thesis
    by (auto simp: delete_user_def admin_change_guard_def and_then_Inr split: sum.splits)
next
  case (ResetPassword i pw)
  have "same_directories db db'" if s: "set_local_password hash (\<lambda>d. d) db x pw n k None now = Inr (u, db')" for x n k u db'
    using set_local_password_Inr [OF s] mappings_set_local_password [OF s] by (simp add: same_directories_def)
  then show ?thesis by (auto simp: ResetPassword reset_password_def and_then_Inr split: sum.splits)
next
  case (RevokeSessions i)
  then show ?thesis by (auto simp: revoke_sessions_def and_then_Inr split: sum.splits)
next
  case (UnlockUser i)
  then show ?thesis by (auto simp: unlock_def and_then_Inr Let_def split: sum.splits)
next
  case (CreateUser n pw r i)
  then show ?thesis
    by (auto simp: create_user_def create_local_user_def Let_def same_directories_def split: sum.splits option.splits if_splits)
qed

lemma admin_step_sound: "sound_db settings db \<Longrightarrow> sound_db settings (admin_step hash settings p now r db)"
  unfolding sound_db_def using admin_step_still admin_step_detached admin_step_directories by (simp add: same_directories_def)

lemma update_directory_sound:
  assumes "sound_db settings db" "sound_db settings (env db)"
  shows "sound_db settings (snd (update_directory de env settings p did body now now' db))"
  using assms by (auto simp: update_directory_def admin_change_guard_def split: sum.splits prod.splits dest: update_block_sound)

lemma op_run_sound:
  "sound_db settings db \<Longrightarrow> sound_db settings (op_step de hash settings now r db)"
  "sound_db settings db \<Longrightarrow> sound_db settings (op_run de hash settings now rs db)"
proof (induction de hash settings now r db and de hash settings now rs db rule: op_step_op_run.induct)
  case (2 de hash settings now body ms did db)
  then show ?case by (auto split: sum.splits dest: create_directory_sound)
next
  case (3 de hash settings now p did body meanwhile db)
  then show ?case by (simp add: update_directory_sound)
qed (simp_all add: admin_step_sound delete_directory_sound)

text \<open>C3: Administrators cannot lock everyone out: if somebody can log in as an administrator (a local administrator while
  local login is enabled, or a member of a group that an enabled and permitted directory maps to admin), then after any
  sequence of requests that administer users and directories, also with requests that others finish while an update
  of a directory waits for its servers, somebody still can.\<close>
lemma nobody_locks_everyone_out:
  assumes "admin_login_possible settings db" "distinct (map user_id (users db))" "distinct (map dir_id (directories db))" "detached db"
  shows "admin_login_possible settings (op_run de hash settings now rs db)"
  using op_run_sound(2) [of settings db de hash now rs] assms by (simp add: sound_db_def still_administrable_def)

subsection \<open>Versions\<close>

text \<open>A directory is gone, unchanged, or has a later \<open>updated_at\<close>.\<close>

definition version_kept :: "uuid \<Rightarrow> auth_db \<Rightarrow> auth_db \<Rightarrow> bool" where
  "version_kept did db db' =
     (case get_directory db' did of None \<Rightarrow> True
      | Some c' \<Rightarrow> (case get_directory db did of None \<Rightarrow> False
          | Some c \<Rightarrow> dir_updated_at c < dir_updated_at c' \<or> c' = c \<and> dir_mappings db' did = dir_mappings db did))"

lemma version_kept_same: "same_directories db db' \<Longrightarrow> version_kept did db db'"
  by (simp add: version_kept_def same_directories_def get_directory_def dir_mappings_def split: option.split)

lemma version_kept_trans: "version_kept did a b \<Longrightarrow> version_kept did b c \<Longrightarrow> version_kept did a c"
  by (auto simp: version_kept_def split: option.splits)

lemma get_put_directory:
  "get_directory (put_directory c ms db) i = (if i = dir_id c then map_option (\<lambda>_. c) (get_directory db i) else get_directory db i)"
proof -
  have "get_directory (put_directory c ms db) i = map_option (\<lambda>d. if dir_id d = dir_id c then c else d) (get_directory db i)"
    unfolding get_directory_def put_directory_def by (simp add: find_map_if)
  then show ?thesis by (cases "get_directory db i") (auto dest: get_directory_Some)
qed

lemma mappings_put_directory:
  "list_all (\<lambda>m. mapping_directory m = dir_id c) ms \<Longrightarrow> dir_mappings (put_directory c (Some ms) db) i =
     (if i = dir_id c then ms else dir_mappings db i)"
  "dir_mappings (put_directory c None db) i = dir_mappings db i"
  by (auto simp: dir_mappings_def put_directory_def list_all_iff filter_empty_conv intro!: filter_True)
    (metis (mono_tags, lifting) filter_cong)+

lemma revoke_directory_sessions_get [simp]:
  "get_directory (revoke_directory_sessions did db) i = get_directory db i"
  "dir_mappings (revoke_directory_sessions did db) i = dir_mappings db i"
  by (simp_all add: get_directory_def dir_mappings_def)

text \<open>The row an update commits: the draft with a later version, and its mappings.\<close>
lemma update_block_row:
  assumes "update_block de settings p did body version verified now now' db = Inr (r, db')"
    and "distinct (map dir_id (directories db))"
  obtains c draft draft_maps where
    "get_directory db did = Some c" "dir_updated_at c = version"
    "edited de (connect_opts settings) (du_changes body) (du_clear_bind_password body) (du_mappings body) (c, dir_mappings db did) = Inr (draft, draft_maps)"
    "verified = None \<longrightarrow> \<not> verification_needed db settings p (c, dir_mappings db did) (draft, draft_maps)"
    "\<And>i. verified = Some i \<Longrightarrow> refuse_disabled_verifier de db c i = Inr ()"
    "get_directory db' did = Some (draft\<lparr>dir_updated_at := next_version version now now'\<rparr>)"
    "dir_mappings db' did = draft_maps" "version < next_version version now now'"
    "\<And>i. i \<noteq> did \<Longrightarrow> get_directory db' i = get_directory db i \<and> dir_mappings db' i = dir_mappings db i"
  using assms(1)
proof (rule update_block_Inr)
  fix c maps draft draft_maps
  assume c: "get_directory db did = Some c" "maps = dir_mappings db did" "dir_id c = did"
    and e: "edited de (connect_opts settings) (du_changes body) (du_clear_bind_password body) (du_mappings body) (c, maps) = Inr (draft, draft_maps)"
    and v: "verified = None \<longrightarrow> \<not> verification_needed db settings p (c, maps) (draft, draft_maps)"
      "\<And>i. verified = Some i \<Longrightarrow> refuse_disabled_verifier de db c i = Inr ()"
    and cas: "list_ex (\<lambda>d. dir_id d = did \<and> dir_updated_at d = version) (directories db)"
    and db': "db' = (let d = put_directory (draft\<lparr>dir_updated_at := next_version version now now'\<rparr>)
               (if du_mappings body = None then None else Some draft_maps) db
            in if is_enabled c \<and> \<not> is_enabled draft \<or> identity_changed (c, maps) (draft, draft_maps)
               then revoke_directory_sessions did d else d)"
  have maps: "list_all (\<lambda>m. mapping_directory m = dir_id c) maps" using c dir_mappings_directory by simp
  note d = edited_Inr [OF e maps]
  let ?saved = "draft\<lparr>dir_updated_at := next_version version now now'\<rparr>"
  let ?put = "put_directory ?saved (if du_mappings body = None then None else Some draft_maps) db"
  have id: "dir_id ?saved = did" using d c(3) by simp
  have get: "get_directory db' i = get_directory ?put i" and m: "dir_mappings db' i = dir_mappings ?put i" for i
    by (simp_all add: db' Let_def)
  have "dir_updated_at c = version"
    using cas get_directory_unique [OF assms(2)] c(1) by (force simp: list_ex_iff)
  moreover have "dir_mappings ?put i = (if i = did then draft_maps else dir_mappings db i)" for i
    using d c id mappings_put_directory(1) [of ?saved draft_maps db i] by (auto simp: mappings_put_directory(2))
  moreover have "get_directory ?put i = (if i = did then Some ?saved else get_directory db i)" for i
    using c(1) by (auto simp: get_put_directory id)
  moreover have "version < next_version version now now'" by (simp add: next_version_def)
  ultimately show thesis using that [of c draft draft_maps] c e v by (simp add: get m)
qed

lemma update_directory_version:
  assumes "version_kept i db (env db)" "distinct (map dir_id (directories (env db)))"
  shows "version_kept i db (snd (update_directory de env settings p did body now now' db))"
proof -
  have "version_kept i (env db) db'"
    if res: "update_block de settings p did body version verified now now' (env db) = Inr (r, db')" for version verified r db'
    using res assms(2) by (rule update_block_row) (cases "i = did"; auto simp: version_kept_def split: option.splits)
  then show ?thesis
    using version_kept_trans [OF assms(1)] version_kept_same [of db db i] assms(1)
    by (auto simp: update_directory_def admin_change_guard_def split: sum.splits prod.splits)
qed

fun created_directories :: "request_op \<Rightarrow> uuid list" where
  "created_directories (CreateDirectory body ms did) = [did]"
| "created_directories (UpdateDirectory p did body meanwhile) = concat (map created_directories meanwhile)"
| "created_directories _ = []"

lemma create_directory_version:
  assumes "create_directory de (\<lambda>d. d) settings body ms now did db = Inr (r, db')" "i \<noteq> did"
  shows "version_kept i db db'"
proof -
  obtain c maps where c: "new_config de body ms now did = Inr (c, maps)"
    and db': "db' = db\<lparr>directories := directories db @ [c], mappings := mappings db @ maps\<rparr>"
    using assms(1) by (auto simp: create_directory_def and_then_Inr Let_def)
  have "get_directory db' i = get_directory db i" "dir_mappings db' i = dir_mappings db i"
    using new_config_Inr [OF c] assms(2)
    by (auto simp: db' get_directory_def dir_mappings_def find_append list_all_iff split: option.split)
  then show ?thesis by (simp add: version_kept_def split: option.split)
qed

lemma find_without: "find (\<lambda>d. k d = i) (filter (\<lambda>d. k d \<noteq> j) ds) = (if i = j then None else find (\<lambda>d. k d = i) ds)"
  by (induction ds) auto

lemma delete_directory_version: "version_kept i db (snd (delete_directory settings did db))"
proof (cases "snd (delete_directory settings did db) = db")
  case True
  then show ?thesis by (simp add: version_kept_same)
next
  case False
  let ?db' = "snd (delete_directory settings did db)"
  have ds: "directories ?db' = filter (\<lambda>d. dir_id d \<noteq> did) (directories db)"
    and ms: "mappings ?db' = filter (\<lambda>m. mapping_directory m \<noteq> did) (mappings db)"
    using False by (auto simp: delete_directory_def admin_change_guard_def and_then_Inr Let_def split: sum.splits)
  have "get_directory ?db' i = (if i = did then None else get_directory db i)"
    by (simp only: get_directory_def ds find_without)
  moreover have "i \<noteq> did \<Longrightarrow> dir_mappings ?db' i = dir_mappings db i"
    by (auto simp: dir_mappings_def ms intro!: filter_cong)
  ultimately show ?thesis by (auto simp: version_kept_def split: option.split)
qed

lemma op_run_version:
  "sound_db settings db \<Longrightarrow> i \<notin> set (created_directories r) \<Longrightarrow> version_kept i db (op_step de hash settings now r db)"
  "sound_db settings db \<Longrightarrow> i \<notin> set (concat (map created_directories rs)) \<Longrightarrow> version_kept i db (op_run de hash settings now rs db)"
proof (induction de hash settings now r db and de hash settings now rs db rule: op_step_op_run.induct)
  case (1 de hash settings now p r db)
  then show ?case by (simp add: version_kept_same admin_step_directories)
next
  case (2 de hash settings now body ms did db)
  then show ?case by (auto intro: version_kept_same create_directory_version split: sum.splits)
next
  case (3 de hash settings now p did body meanwhile db)
  have "sound_db settings (op_run de hash settings now meanwhile db)" using 3 by (simp add: op_run_sound)
  then show ?case using 3 by (simp add: update_directory_version sound_db_def)
next
  case (6 de hash settings now r rs db)
  then show ?case using op_run_sound(1) [OF 6(3)] by (auto intro: version_kept_trans)
qed (simp_all add: version_kept_same delete_directory_version)

lemma verification_needed_row:
  "verification_needed db settings p old (d\<lparr>dir_updated_at := v\<rparr>, maps) = verification_needed db settings p old (d, maps)"
  by (cases old) (simp add: verification_needed_def login_affected_def identity_changed_def identity_fields_def bind_target_def)

text \<open>C4: A change after which an administrator might no longer get in (the acting administrator belongs to the directory or no
  other way in is configured, and the login of the directory is affected) is saved only if the request carried
  credentials with which the directory, with exactly the configuration and the mappings that are saved, admits an
  administrator whose account is not disabled; whatever other requests did while the servers were asked.\<close>
lemma risky_change_was_verified:
  assumes res: "update_directory de (op_run de hash settings now meanwhile) settings p did body now now' db = (Inr r, db')"
    and c: "get_directory (op_run de hash settings now meanwhile db) did = Some c" and saved: "get_directory db' did = Some saved"
    and risky: "verification_needed (op_run de hash settings now meanwhile db) settings p
      (c, dir_mappings (op_run de hash settings now meanwhile db) did) (saved, dir_mappings db' did)"
    and sound: "sound_db settings db" and fresh: "did \<notin> set (concat (map created_directories meanwhile))"
  shows "\<exists>u pw i. du_verification body = Some (u, pw)
    \<and> de_backend de (saved\<lparr>dir_updated_at := dir_updated_at c\<rparr>) (dir_mappings db' did) u pw (connect_opts settings) = Authenticated i
    \<and> ident_role i = ADMIN
    \<and> (case user_with_subject (op_run de hash settings now meanwhile db) (realm_key_for did) (directory_subject_key (de_sha de) (ident_subject i)) of
         None \<Rightarrow> True | Some x \<Rightarrow> is_active x)"
proof -
  let ?env = "op_run de hash settings now meanwhile db"
  have dist: "distinct (map dir_id (directories ?env))" using op_run_sound(2) [OF sound] by (simp add: sound_db_def)
  obtain version draft0 needs verified where ck: "check_update de settings p did body db = Inr (version, draft0, needs)"
    and ver: "(if needs then map_sum id Some (verify_admin de settings draft0 (du_verification body)) else Inr None) = Inr verified"
    and blk: "update_block de settings p did body version verified now now' ?env = Inr (r, db')"
    using res by (auto simp: update_directory_def admin_change_guard_def split: sum.splits prod.splits)
  obtain c0 where c0: "get_directory db did = Some c0" "version = dir_updated_at c0"
    and e0: "edited de (connect_opts settings) (du_changes body) (du_clear_bind_password body) (du_mappings body) (c0, dir_mappings db did) = Inr draft0"
    using ck by (auto simp: check_update_def and_then_Inr load_config_Inr)
  show ?thesis using blk dist
  proof (rule update_block_row)
    fix c' draft draft_maps
    assume c': "get_directory ?env did = Some c'" "dir_updated_at c' = version"
      and e: "edited de (connect_opts settings) (du_changes body) (du_clear_bind_password body) (du_mappings body) (c', dir_mappings ?env did) = Inr (draft, draft_maps)"
      and v: "verified = None \<longrightarrow> \<not> verification_needed ?env settings p (c', dir_mappings ?env did) (draft, draft_maps)"
        "\<And>i. verified = Some i \<Longrightarrow> refuse_disabled_verifier de ?env c' i = Inr ()"
      and s: "get_directory db' did = Some (draft\<lparr>dir_updated_at := next_version version now now'\<rparr>)" "dir_mappings db' did = draft_maps"
    have [simp]: "c' = c" using c c' by simp
    have "version_kept did db ?env" by (rule op_run_version(2) [OF sound fresh])
    then have same: "c = c0" "dir_mappings ?env did = dir_mappings db did"
      using c c0 c'(2) by (auto simp: version_kept_def)
    then have draft0: "draft0 = (draft, draft_maps)" using e e0 by simp
    have sv: "saved = draft\<lparr>dir_updated_at := next_version version now now'\<rparr>" using saved s(1) by simp
    have id: "dir_id c = did" "dir_updated_at draft = dir_updated_at c"
      using get_directory_Some [OF c] e apply_changes_same(3) by (auto simp: edited_def and_then_Inr split: option.splits)
    then have row: "saved\<lparr>dir_updated_at := dir_updated_at c\<rparr> = draft" by (simp add: sv)
    from risky v(1) have "verified \<noteq> None" by (auto simp: sv s(2) verification_needed_row)
    then obtain i where i: "verified = Some i" by auto
    with ver have "verify_admin de settings (draft, draft_maps) (du_verification body) = Inr i"
      by (cases "verify_admin de settings draft0 (du_verification body)") (auto simp: draft0 split: if_splits)
    moreover have "refuse_disabled_verifier de ?env c i = Inr ()" using v(2) [OF i] by simp
    ultimately show ?thesis
      by (auto simp: verify_admin_def refuse_disabled_verifier_def id(1) row s(2) split: option.splits prod.splits backend_result.splits if_splits)
  qed
qed

subsection \<open>Sessions\<close>

lemma identity_changed_row:
  "identity_changed old (d\<lparr>dir_updated_at := v\<rparr>, maps) = identity_changed old (d, maps)"
  by (cases old) (simp add: identity_changed_def identity_fields_def bind_target_def)

text \<open>When a saved change alters how users of a directory are found, authenticated or given roles, or disables the
  directory, all sessions of its users end in the same transaction; otherwise every session stays.\<close>
lemma identity_change_ends_sessions:
  assumes res: "update_directory de env settings p did body now now' db = (Inr r, db')"
    and c: "get_directory (env db) did = Some c" and saved: "get_directory db' did = Some saved"
    and ids: "distinct (map dir_id (directories (env db)))"
  shows "sessions db' =
     (if is_enabled c \<and> \<not> is_enabled saved \<or> identity_changed (c, dir_mappings (env db) did) (saved, dir_mappings db' did)
      then filter (\<lambda>s. \<not> (\<exists>u\<in>set (users (env db)). user_id u = session_user s \<and> directory_id u = Some did)) (sessions (env db))
      else sessions (env db))"
proof -
  obtain version verified where
    blk: "update_block de settings p did body version verified now now' (env db) = Inr (r, db')"
    using res by (auto simp: update_directory_def admin_change_guard_def split: sum.splits prod.splits)
  obtain draft draft_maps where
    e: "edited de (connect_opts settings) (du_changes body) (du_clear_bind_password body) (du_mappings body) (c, dir_mappings (env db) did) = Inr (draft, draft_maps)"
    and row: "get_directory db' did = Some (draft\<lparr>dir_updated_at := next_version version now now'\<rparr>)" "dir_mappings db' did = draft_maps"
    using blk ids by (rule update_block_row) (use c in auto)
  show ?thesis
    using blk
  proof (rule update_block_Inr)
    fix c' maps dr dmaps
    assume "get_directory (env db) did = Some c'" "maps = dir_mappings (env db) did"
      and "edited de (connect_opts settings) (du_changes body) (du_clear_bind_password body) (du_mappings body) (c', maps) = Inr (dr, dmaps)"
      and db': "db' = (let d = put_directory (dr\<lparr>dir_updated_at := next_version version now now'\<rparr>)
               (if du_mappings body = None then None else Some dmaps) (env db)
            in if is_enabled c' \<and> \<not> is_enabled dr \<or> identity_changed (c', maps) (dr, dmaps)
               then revoke_directory_sessions did d else d)"
    then have "c' = c" "maps = dir_mappings (env db) did" "dr = draft" "dmaps = draft_maps" using c e by simp_all
    then show ?thesis
      using saved row by (auto simp: db' Let_def revoke_directory_sessions_def identity_changed_row list_ex_iff)
  qed
qed

subsection \<open>Witnesses\<close>

definition sample_env :: directory_env where
  "sample_env = \<lparr>de_dn = sample_dn_lib, de_pem_ok = (\<lambda>_. True), de_bracketed_ok = (\<lambda>_. True),
     de_backend = (\<lambda>_ _ _ _ _. Authenticated (sample_identity\<lparr>ident_role := ADMIN\<rparr>)), de_sha = (\<lambda>s. s), de_fresh = (\<lambda>n. 90 + n)\<rparr>"

definition admin_directory_db :: auth_db where
  "admin_directory_db = sample_directory_db\<lparr>mappings := [sample_mapping\<lparr>mapping_role := ADMIN\<rparr>]\<rparr>"

definition sample_update :: directory_update where
  "sample_update = \<lparr>du_changes = no_changes\<lparr>chg_user_search_base := Some (Some ''dc=y'')\<rparr>, du_clear_bind_password = False,
     du_mappings = None, du_verification = Some (''ann'', ''pw'')\<rparr>"

abbreviation no_local_login :: auth_settings where
  "no_local_login \<equiv> sample_settings\<lparr>local_login_enabled := False\<rparr>"

definition sample_old :: "directory_config \<times> group_mapping list" where
  "sample_old = (sample_ldap_directory, [sample_mapping\<lparr>mapping_role := ADMIN\<rparr>])"

definition sample_draft :: "directory_config \<times> group_mapping list" where
  "sample_draft = (sample_ldap_directory\<lparr>user_search_base := ''dc=y''\<rparr>, [sample_mapping\<lparr>mapping_role := ADMIN\<rparr>])"

lemma and_then_weak_cong: "r = r' \<Longrightarrow> and_then r f = and_then r' f"
  by simp

lemma sample_steps:
  "load_config admin_directory_db 3 = Inr sample_old"
  "edited sample_env (connect_opts sample_settings) (du_changes sample_update) (du_clear_bind_password sample_update)
     (du_mappings sample_update) sample_old = Inr sample_draft"
  "refuse_losing_admin admin_directory_db no_local_login sample_principal sample_old sample_draft = Inr ()"
  "verification_needed admin_directory_db no_local_login sample_principal sample_old sample_draft"
  "verify_admin sample_env no_local_login sample_draft (du_verification sample_update) = Inr (sample_identity\<lparr>ident_role := ADMIN\<rparr>)"
  "refuse_disabled_verifier sample_env admin_directory_db (fst sample_old) (sample_identity\<lparr>ident_role := ADMIN\<rparr>) = Inr ()"
  "chg_name (du_changes sample_update) = None" "dir_updated_at (fst sample_old) = 0"
  "list_ex (\<lambda>d. dir_id d = 3 \<and> dir_updated_at d = 0) (directories admin_directory_db)"
  "unique_id_attribute (fst sample_draft) = unique_id_attribute (fst sample_old)"
  "get_directory admin_directory_db 3 = Some (fst sample_old)" "dir_mappings admin_directory_db 3 = snd sample_old"
  by code_simp+

lemma sample_saved:
  "\<exists>r db'. update_directory sample_env (\<lambda>db. db) no_local_login sample_principal 3 sample_update 5 6 admin_directory_db = (Inr r, db')
     \<and> get_directory db' 3 = Some (fst sample_draft\<lparr>dir_updated_at := 6\<rparr>) \<and> dir_mappings db' 3 = snd sample_draft"
proof -
  have ck: "check_update sample_env no_local_login sample_principal 3 sample_update admin_directory_db = Inr (0, sample_draft, True)"
    by (simp add: check_update_def sample_steps cong: and_then_weak_cong)
  have "\<exists>r db'. update_block sample_env no_local_login sample_principal 3 sample_update 0
      (Some (sample_identity\<lparr>ident_role := ADMIN\<rparr>)) 5 6 admin_directory_db = Inr (r, db')"
    by (simp add: update_block_def sample_steps Let_def cong: and_then_weak_cong)
  then obtain r db' where blk: "update_block sample_env no_local_login sample_principal 3 sample_update 0
      (Some (sample_identity\<lparr>ident_role := ADMIN\<rparr>)) 5 6 admin_directory_db = Inr (r, db')" by blast
  have ids: "distinct (map dir_id (directories admin_directory_db))"
    by (simp add: admin_directory_db_def sample_directory_db_def)
  have "get_directory db' 3 = Some (fst sample_draft\<lparr>dir_updated_at := 6\<rparr>) \<and> dir_mappings db' 3 = snd sample_draft"
    using blk ids
  proof (rule update_block_row)
    fix c draft dmaps
    assume "get_directory admin_directory_db 3 = Some c"
      and "edited sample_env (connect_opts no_local_login) (du_changes sample_update) (du_clear_bind_password sample_update)
        (du_mappings sample_update) (c, dir_mappings admin_directory_db 3) = Inr (draft, dmaps)"
      and row: "get_directory db' 3 = Some (draft\<lparr>dir_updated_at := next_version 0 5 6\<rparr>)" "dir_mappings db' 3 = dmaps"
    then have "(draft, dmaps) = sample_draft"
      using sample_steps(2) by (auto simp: sample_steps)
    then have "draft = fst sample_draft" "dmaps = snd sample_draft" by (metis fst_conv, metis snd_conv)
    then show ?thesis using row by (simp add: next_version_def)
  qed
  moreover have "update_directory sample_env (\<lambda>db. db) no_local_login sample_principal 3 sample_update 5 6 admin_directory_db = (Inr r, db')"
    by (simp add: update_directory_def ck sample_steps admin_change_guard_def blk)
  ultimately show ?thesis by blast
qed

lemma nobody_locks_everyone_out_witness:
  "admin_login_possible sample_settings (op_run sample_env (\<lambda>s. s) sample_settings 5
     [UpdateDirectory sample_principal 3 sample_update [UserRequest sample_principal (DeleteUser 1)], DeleteDirectory 3] sample_directory_db)"
  by (rule nobody_locks_everyone_out)
    (simp_all add: admin_login_possible_def sample_directory_db_def sample_settings_def sample_defs is_local_admin_def LOCAL_REALM_def detached_def)

lemma risky_change_was_verified_witness:
  "\<exists>u pw i. du_verification sample_update = Some (u, pw)
     \<and> de_backend sample_env (fst sample_draft) (snd sample_draft) u pw (connect_opts no_local_login) = Authenticated i \<and> ident_role i = ADMIN"
proof -
  have id: "op_run sample_env (\<lambda>s. s) no_local_login 5 [] = (\<lambda>db. db)" by auto
  obtain r db' where res: "update_directory sample_env (op_run sample_env (\<lambda>s. s) no_local_login 5 []) no_local_login sample_principal 3
        sample_update 5 6 admin_directory_db = (Inr r, db')"
    and row: "get_directory db' 3 = Some (fst sample_draft\<lparr>dir_updated_at := 6\<rparr>)" "dir_mappings db' 3 = snd sample_draft"
    using sample_saved unfolding id by blast
  have c: "get_directory (op_run sample_env (\<lambda>s. s) no_local_login 5 [] admin_directory_db) 3 = Some (fst sample_old)"
    and m: "dir_mappings (op_run sample_env (\<lambda>s. s) no_local_login 5 [] admin_directory_db) 3 = snd sample_old"
    by (simp_all add: sample_steps)
  have "verification_needed (op_run sample_env (\<lambda>s. s) no_local_login 5 [] admin_directory_db) no_local_login sample_principal
      (fst sample_old, dir_mappings (op_run sample_env (\<lambda>s. s) no_local_login 5 [] admin_directory_db) 3)
      (fst sample_draft\<lparr>dir_updated_at := 6\<rparr>, dir_mappings db' 3)"
    using sample_steps(4) by (simp add: m [simplified] row(2) verification_needed_row)
  moreover have "sound_db no_local_login admin_directory_db"
    by (simp add: sound_db_def still_administrable_def admin_login_possible_def admin_directory_db_def sample_directory_db_def
        sample_defs detached_def sample_ldap_directory_def sample_directory_def sample_mapping_def allowed_by_security_def sample_settings_def)
  moreover have "fst sample_draft\<lparr>dir_updated_at := dir_updated_at (fst sample_old)\<rparr> = fst sample_draft"
    by (simp add: sample_draft_def sample_old_def)
  ultimately show ?thesis using risky_change_was_verified [OF res c row(1)] by (auto simp: row(2))
qed

lemma identity_change_ends_sessions_witness:
  "\<exists>r db'. update_directory sample_env (\<lambda>db. db) no_local_login sample_principal 3 sample_update 5 6 admin_directory_db = (Inr r, db')
     \<and> sessions db' = sessions admin_directory_db"
proof -
  obtain r db' where res: "update_directory sample_env (\<lambda>db. db) no_local_login sample_principal 3 sample_update 5 6 admin_directory_db = (Inr r, db')"
    and row: "get_directory db' 3 = Some (fst sample_draft\<lparr>dir_updated_at := 6\<rparr>)" using sample_saved by blast
  have c: "get_directory admin_directory_db 3 = Some (fst sample_old)" by (simp add: sample_steps)
  have "distinct (map dir_id (directories admin_directory_db))" by (simp add: admin_directory_db_def sample_directory_db_def)
  from identity_change_ends_sessions [where env = "\<lambda>db. db", OF res c row this]
  have "sessions db' = sessions admin_directory_db"
    by (simp add: admin_directory_db_def sample_directory_db_def sample_defs)
  then show ?thesis using res by blast
qed

lemma password_stays_with_its_target_witness:
  "\<exists>draft maps. edited sample_env (connect_opts sample_settings)
     (no_changes\<lparr>chg_server_uris := Some (Some [''ldap://c'']), chg_bind_password := Some (Some ''n'')\<rparr>) False None sample_old = Inr (draft, maps)
     \<and> bind_password draft = Some ''n''"
proof -
  let ?ch = "no_changes\<lparr>chg_server_uris := Some (Some [''ldap://c'']), chg_bind_password := Some (Some ''n'')\<rparr>"
  have r: "case edited sample_env (connect_opts sample_settings) ?ch False None sample_old of
      Inr (draft, maps) \<Rightarrow> server_uris draft = [''ldap://c''] \<and> bind_password draft \<noteq> None | Inl _ \<Rightarrow> False" by code_simp
  then obtain draft maps where e: "edited sample_env (connect_opts sample_settings) ?ch False None (sample_ldap_directory, snd sample_old) = Inr (draft, maps)"
    and d: "server_uris draft = [''ldap://c'']" "bind_password draft \<noteq> None"
    by (auto simp: sample_old_def split: sum.splits)
  have "bind_target draft \<noteq> bind_target sample_ldap_directory" using d(1) by (simp add: bind_target_def sample_ldap_directory_def)
  moreover have "bind_password sample_ldap_directory = Some ''s''" by (simp add: sample_ldap_directory_def)
  ultimately have "bind_password draft = Some ''n''" using password_stays_with_its_target [OF e] d(2) by auto
  then show ?thesis using e by (auto simp: sample_old_def)
qed

end
