(* ===== verification/PluginApi.thy ===== *)
theory PluginApi
  imports Pytime Complex_Main
begin

section \<open>The plugin contract (packages/plugin-api)\<close>

text \<open>
  The data a collector plugin declares and returns, the validation that the application and plugin
  authors share, the limits of the database columns, and the timestamp cursor. The texts of messages
  are dropped; an issue is its code, severity and position. A frozen set of data kinds is the list of
  its members. A float is a real number or one of the three special values.
\<close>

datatype pyfloat = Fin real | PosInf | NegInf | NaN

definition isfinite :: "pyfloat \<Rightarrow> bool" where
  "isfinite x = (case x of Fin _ \<Rightarrow> True | _ \<Rightarrow> False)"

record metric_definition =
  md_key :: string
  md_display_name :: string
  md_unit :: string
  md_entity_type :: string
  md_series_mode :: string
  md_category :: string
  md_description :: string

record setup_action =
  action_id :: string
  action_title :: string
  required_for_enable :: bool

record collector_manifest =
  mf_id :: string
  mf_display_name :: string
  mf_version :: string
  mf_api_version :: int
  mf_data_kinds :: "string list"
  mf_default_interval_seconds :: int
  mf_metric_definitions :: "metric_definition list"
  mf_description :: string
  mf_default_timeout_seconds :: pyfloat
  mf_setup_actions :: "setup_action list"

record event_input =
  ev_occurred_at :: pydt
  ev_event_type :: string
  ev_message :: string
  ev_vmware_key :: int
  ev_severity :: "string option"
  ev_user_name :: "string option"
  ev_entity_name :: "string option"
  ev_entity_type :: "string option"
  ev_chain_id :: "int option"

record metric_input =
  ms_sampled_at :: pydt
  ms_entity_type :: string
  ms_entity_moid :: string
  ms_entity_name :: string
  ms_metric_key :: string
  ms_value :: pyfloat

record log_input =
  lg_source_id :: string
  lg_host :: string
  lg_log_kind :: string
  lg_file_generation :: string
  lg_byte_offset :: int
  lg_collected_at :: pydt
  lg_message :: string
  lg_occurred_at :: "pydt option"
  lg_severity :: "string option"

record collection_batch =
  batch_events :: "event_input list"
  batch_metrics :: "metric_input list"
  next_cursor :: "string option"
  batch_logs :: "log_input list"

definition at_definition :: "metric_definition \<Rightarrow> string \<Rightarrow> string \<Rightarrow> pyfloat \<Rightarrow> pydt option \<Rightarrow> string option \<Rightarrow> pydt \<Rightarrow> metric_input" where
  \<comment> \<open>\<open>MetricDefinition.at\<close>; \<open>now\<close> is \<open>now_utc()\<close>\<close>
  "at_definition d moid name value sampled_at etype now =
     \<lparr>ms_sampled_at = (case sampled_at of Some t \<Rightarrow> t | None \<Rightarrow> now),
      ms_entity_type = (case etype of Some t \<Rightarrow> t | None \<Rightarrow> md_entity_type d),
      ms_entity_moid = moid, ms_entity_name = name, ms_metric_key = md_key d, ms_value = value\<rparr>"

subsection \<open>Limits (limits.py)\<close>

definition MAX_PLUGIN_ID :: nat where "MAX_PLUGIN_ID = 64"
definition MAX_METRIC_KEY :: nat where "MAX_METRIC_KEY = 256"
definition MAX_METRIC_ENTITY_TYPE :: nat where "MAX_METRIC_ENTITY_TYPE = 128"
definition MAX_ENTITY_MOID :: nat where "MAX_ENTITY_MOID = 256"
definition MAX_ENTITY_NAME :: nat where "MAX_ENTITY_NAME = 1024"
definition MAX_EVENT_TYPE :: nat where "MAX_EVENT_TYPE = 512"
definition MAX_SEVERITY :: nat where "MAX_SEVERITY = 64"
definition MAX_USER_NAME :: nat where "MAX_USER_NAME = 512"
definition MAX_EVENT_ENTITY_TYPE :: nat where "MAX_EVENT_ENTITY_TYPE = 256"
definition VMWARE_KEY_MIN :: int where "VMWARE_KEY_MIN = - (2 ^ 31)"
definition VMWARE_KEY_MAX :: int where "VMWARE_KEY_MAX = 2 ^ 31 - 1"

lemmas field_limits = MAX_PLUGIN_ID_def MAX_METRIC_KEY_def MAX_METRIC_ENTITY_TYPE_def MAX_ENTITY_MOID_def
  MAX_ENTITY_NAME_def MAX_EVENT_TYPE_def MAX_SEVERITY_def MAX_USER_NAME_def MAX_EVENT_ENTITY_TYPE_def
  VMWARE_KEY_MIN_def VMWARE_KEY_MAX_def

definition truncate :: "string \<Rightarrow> int \<Rightarrow> string \<Rightarrow> string" where
  "truncate value limit ellipsis =
     (if limit \<le> 0 then ''''
      else if int (length value) \<le> limit then value
      else if limit \<le> int (length ellipsis) then take (nat limit) value
      else take (nat (limit - int (length ellipsis))) value @ ellipsis)"

definition is_ascii_alnum :: "char \<Rightarrow> bool" where
  "is_ascii_alnum c = (let n = code c in 48 \<le> n \<and> n \<le> 57 \<or> 65 \<le> n \<and> n \<le> 90 \<or> 97 \<le> n \<and> n \<le> 122)"

function collapse :: "string \<Rightarrow> string" where
  \<comment> \<open>\<open>re.sub(r"[^a-zA-Z0-9]+", "_", s)\<close>\<close>
  "collapse [] = []"
| "collapse (c # s) = (if is_ascii_alnum c then c # collapse s
     else CHR ''_'' # collapse (dropWhile (\<lambda>c. \<not> is_ascii_alnum c) s))"
  by pat_completeness auto
termination
  by (relation "measure length") (auto simp: less_Suc_eq_le length_dropWhile_le)

definition sanitize_instance_for_moid :: "(string \<Rightarrow> string) \<Rightarrow> string \<Rightarrow> nat \<Rightarrow> string" where
  \<comment> \<open>\<open>sha\<close> is the hexadecimal SHA-256 of the text; an absent instance is the empty text\<close>
  "sanitize_instance_for_moid sha instance_text host_moid_len =
     (let raw = py_strip instance_text;
          safe = strip_chars ''_'' (collapse raw);
          safe = (if safe = '''' then ''instance'' else safe);
          max_suffix = max 8 (int MAX_ENTITY_MOID - int host_moid_len - 1)
      in if int (length safe) \<le> max_suffix then safe
         else let digest = take 16 (sha raw);
                  prefix_len = max 0 (max_suffix - 1 - int (length digest));
                  safe = (if prefix_len \<noteq> 0 then take (nat prefix_len) safe @ ''_'' @ digest else digest)
              in if max_suffix < int (length safe) then take (nat max_suffix) safe else safe)"

definition composite_entity_moid :: "(string \<Rightarrow> string) \<Rightarrow> string \<Rightarrow> string \<Rightarrow> string" where
  "composite_entity_moid sha host_moid instance_text =
     (let suffix = sanitize_instance_for_moid sha instance_text (length host_moid);
          out = host_moid @ '':'' @ suffix
      in if length out \<le> MAX_ENTITY_MOID then out else take MAX_ENTITY_MOID out)"

definition composite_entity_name :: "string \<Rightarrow> string \<Rightarrow> string \<Rightarrow> string" where
  "composite_entity_name ellipsis host_name instance_text =
     truncate (host_name @ '' / '' @ instance_text) (int MAX_ENTITY_NAME) ellipsis"

subsection \<open>Cursors (cursors.py)\<close>

record timestamp_cursor =
  overlap :: timedelta
  default_lookback :: "timedelta option"

definition decode_cursor :: "string option \<Rightarrow> pydt option" where
  "decode_cursor previous =
     (case previous of None \<Rightarrow> None | Some p \<Rightarrow> if p = '''' then None else fromisoformat p)"

definition shift :: "pydt \<Rightarrow> timedelta \<Rightarrow> pydt" where
  \<comment> \<open>datetime plus timedelta, within the years that exist\<close>
  "shift t d = t\<lparr>wall := wall t + d\<rparr>"

definition window_start :: "timestamp_cursor \<Rightarrow> string option \<Rightarrow> pydt \<Rightarrow> pydt option" where
  "window_start c previous now =
     (case decode_cursor previous of Some t \<Rightarrow> Some (shift t (- overlap c))
      | None \<Rightarrow> (case default_lookback c of Some d \<Rightarrow> Some (shift now (- d)) | None \<Rightarrow> None))"

definition advance :: "string option \<Rightarrow> pydt option \<Rightarrow> pydt \<Rightarrow> string" where
  "advance previous max_seen now =
     (case max_seen of Some t \<Rightarrow> isoformat t
      | None \<Rightarrow> (case previous of Some p \<Rightarrow> if p \<noteq> '''' then p else isoformat now | None \<Rightarrow> isoformat now))"

subsection \<open>Validation (validation.py)\<close>

datatype issue_severity = ErrorIssue | WarningIssue

record issue =
  issue_code :: string
  issue_severity :: issue_severity
  issue_kind :: "string option"
  issue_index :: "nat option"
  issue_field :: "string option"

definition errors_of :: "issue list \<Rightarrow> issue list" where
  "errors_of issues = filter (\<lambda>i. issue_severity i = ErrorIssue) issues"

definition PLUGIN_API_VERSION :: int where "PLUGIN_API_VERSION = 1"

definition plugin_id_ok :: "string \<Rightarrow> bool" where
  \<comment> \<open>\<open>PLUGIN_ID_PATTERN.fullmatch\<close>\<close>
  "plugin_id_ok s =
     (let low = (\<lambda>c. let n = code c in 48 \<le> n \<and> n \<le> 57 \<or> 97 \<le> n \<and> n \<le> 122)
      in s \<noteq> [] \<and> length s \<le> 64 \<and> low (hd s) \<and> list_all (\<lambda>c. low c \<or> c \<in> set ''._-'') (tl s))"

definition manifest_issue :: "string \<Rightarrow> issue_severity \<Rightarrow> string \<Rightarrow> issue" where
  "manifest_issue c sev f = \<lparr>issue_code = c, issue_severity = sev, issue_kind = Some ''manifest'',
     issue_index = None, issue_field = Some f\<rparr>"

definition manifest_error :: "collector_manifest \<Rightarrow> issue option" where
  \<comment> \<open>the checks that stop at the first error\<close>
  "manifest_error m =
     (let err = (\<lambda>c f. Some (manifest_issue c ErrorIssue f));
          keys = map md_key (mf_metric_definitions m)
      in if \<not> plugin_id_ok (mf_id m) then err ''invalid_plugin_id'' ''id''
         else if mf_api_version m \<noteq> PLUGIN_API_VERSION then err ''unsupported_api_version'' ''api_version''
         else if (case mf_default_timeout_seconds m of Fin r \<Rightarrow> r \<le> 0 | _ \<Rightarrow> True)
           then err ''invalid_timeout'' ''default_timeout_seconds''
         else if mf_default_interval_seconds m < 10 then err ''interval_too_small'' ''default_interval_seconds''
         else if 1000 < length (mf_description m) then err ''description_too_long'' ''description''
         else if mf_data_kinds m = [] \<or> \<not> set (mf_data_kinds m) \<subseteq> {''event'', ''metric'', ''log''}
           then err ''invalid_data_kinds'' ''data_kinds''
         else if \<not> distinct keys then err ''duplicate_metric_key'' ''metric_definitions''
         else if ''metric'' \<in> set (mf_data_kinds m) \<and> keys = []
           then err ''missing_metric_definitions'' ''metric_definitions''
         else if list_ex (\<lambda>k. k = '''' \<or> MAX_METRIC_KEY < length k) keys
           then err ''metric_key_length'' ''metric_definitions''
         else None)"

definition manifest_warnings :: "collector_manifest \<Rightarrow> issue list" where
  "manifest_warnings m =
     (if MAX_PLUGIN_ID < length (mf_id m) then [manifest_issue ''plugin_id_too_long'' WarningIssue ''id''] else []) @
     (if mf_metric_definitions m \<noteq> [] \<and> ''metric'' \<notin> set (mf_data_kinds m)
      then [manifest_issue ''unused_metric_definitions'' WarningIssue ''metric_definitions''] else []) @
     map (\<lambda>_. manifest_issue ''field_too_long'' WarningIssue ''entity_type'')
       (filter (\<lambda>d. MAX_METRIC_ENTITY_TYPE < length (md_entity_type d)) (mf_metric_definitions m))"

definition check_manifest :: "collector_manifest \<Rightarrow> issue list" where
  "check_manifest m = (case manifest_error m of Some e \<Rightarrow> [e] | None \<Rightarrow> manifest_warnings m)"

definition validate_manifest :: "collector_manifest \<Rightarrow> issue list + unit" where
  \<comment> \<open>\<open>Inl\<close> is \<open>ManifestValidationError\<close>\<close>
  "validate_manifest m = (let errors = errors_of (check_manifest m) in if errors \<noteq> [] then Inl errors else Inr ())"

definition batch_issue :: "string \<Rightarrow> issue_severity \<Rightarrow> string \<Rightarrow> nat option \<Rightarrow> string option \<Rightarrow> issue" where
  "batch_issue c sev k i f = \<lparr>issue_code = c, issue_severity = sev, issue_kind = Some k, issue_index = i,
     issue_field = f\<rparr>"

definition issue_if :: "bool \<Rightarrow> issue \<Rightarrow> issue list" where
  "issue_if b i = (if b then [i] else [])"

definition log_errors :: "nat \<Rightarrow> log_input \<Rightarrow> issue list" where
  "log_errors i r =
     (let err = (\<lambda>c. batch_issue c ErrorIssue ''log'' (Some i) None);
          bad = (\<lambda>v n. issue_if (v = '''' \<or> n < length v) (err ''invalid_log_field''))
      in bad (lg_source_id r) 128 @ bad (lg_host r) 512 @ bad (lg_log_kind r) 64 @
         bad (lg_file_generation r) 128 @
         issue_if (case lg_severity r of None \<Rightarrow> False | Some s \<Rightarrow> 64 < length s) (err ''invalid_log_severity'') @
         issue_if (lg_byte_offset r < 0 \<or> 2 ^ 63 - 1 < lg_byte_offset r) (err ''invalid_log_offset'') @
         issue_if (utcoff (lg_collected_at r) = None) (err ''naive_log_timestamp'') @
         issue_if (case lg_occurred_at r of None \<Rightarrow> False | Some t \<Rightarrow> utcoff t = None) (err ''naive_log_timestamp''))"

definition metric_errors :: "collector_manifest \<Rightarrow> nat \<Rightarrow> metric_input \<Rightarrow> issue list" where
  "metric_errors m i s =
     issue_if (ms_metric_key s \<notin> set (map md_key (mf_metric_definitions m)))
       (batch_issue ''undeclared_metric_key'' ErrorIssue ''metric'' (Some i) (Some ''metric_key'')) @
     issue_if (\<not> isfinite (ms_value s))
       (batch_issue ''non_finite_value'' ErrorIssue ''metric'' (Some i) (Some ''value'')) @
     issue_if (utcoff (ms_sampled_at s) = None)
       (batch_issue ''naive_sampled_at'' ErrorIssue ''metric'' (Some i) (Some ''sampled_at''))"

definition event_errors :: "nat \<Rightarrow> event_input \<Rightarrow> issue list" where
  "event_errors i e =
     issue_if (utcoff (ev_occurred_at e) = None)
       (batch_issue ''naive_occurred_at'' ErrorIssue ''event'' (Some i) (Some ''occurred_at''))"

definition enumerate_with :: "(nat \<Rightarrow> 'a \<Rightarrow> 'b list) \<Rightarrow> 'a list \<Rightarrow> 'b list" where
  "enumerate_with f xs = concat (map (\<lambda>(i, x). f i x) (List.enumerate 0 xs))"

definition batch_errors :: "collector_manifest \<Rightarrow> collection_batch \<Rightarrow> issue list" where
  "batch_errors m b =
     (let kinds = set (mf_data_kinds m) in
      issue_if (batch_events b \<noteq> [] \<and> ''event'' \<notin> kinds) (batch_issue ''undeclared_event_kind'' ErrorIssue ''event'' None None) @
      issue_if (batch_metrics b \<noteq> [] \<and> ''metric'' \<notin> kinds) (batch_issue ''undeclared_metric_kind'' ErrorIssue ''metric'' None None) @
      issue_if (batch_logs b \<noteq> [] \<and> ''log'' \<notin> kinds) (batch_issue ''undeclared_log_kind'' ErrorIssue ''log'' None None) @
      enumerate_with log_errors (batch_logs b) @ enumerate_with (metric_errors m) (batch_metrics b) @
      enumerate_with event_errors (batch_events b))"

definition too_long :: "string \<Rightarrow> nat \<Rightarrow> string \<Rightarrow> string option \<Rightarrow> nat \<Rightarrow> issue list" where
  "too_long kind i name value limit =
     issue_if (case value of None \<Rightarrow> False | Some v \<Rightarrow> limit < length v)
       (batch_issue ''field_too_long'' WarningIssue kind (Some i) (Some name))"

definition dt_key :: "pydt \<Rightarrow> bool \<times> int" where
  \<comment> \<open>what equality of datetimes compares: aware ones by instant, never equal to a naive one\<close>
  "dt_key t = (utcoff t \<noteq> None, instant_of t)"

definition metric_point :: "metric_input \<Rightarrow> (bool \<times> int) \<times> string \<times> string" where
  "metric_point s = (dt_key (ms_sampled_at s), ms_entity_moid s, ms_metric_key s)"

fun metric_warnings :: "nat \<Rightarrow> ((bool \<times> int) \<times> string \<times> string) set \<Rightarrow> metric_input list \<Rightarrow> issue list" where
  "metric_warnings i seen [] = []"
| "metric_warnings i seen (s # ss) =
     too_long ''metric'' i ''metric_key'' (Some (ms_metric_key s)) MAX_METRIC_KEY @
     too_long ''metric'' i ''entity_type'' (Some (ms_entity_type s)) MAX_METRIC_ENTITY_TYPE @
     too_long ''metric'' i ''entity_moid'' (Some (ms_entity_moid s)) MAX_ENTITY_MOID @
     too_long ''metric'' i ''entity_name'' (Some (ms_entity_name s)) MAX_ENTITY_NAME @
     issue_if (ms_entity_moid s = '''')
       (batch_issue ''empty_entity_moid'' WarningIssue ''metric'' (Some i) (Some ''entity_moid'')) @
     issue_if (metric_point s \<in> seen) (batch_issue ''duplicate_dedup_key'' WarningIssue ''metric'' (Some i) None) @
     metric_warnings (i + 1) (insert (metric_point s) seen) ss"

fun event_warnings :: "nat \<Rightarrow> int set \<Rightarrow> event_input list \<Rightarrow> issue list" where
  "event_warnings i seen [] = []"
| "event_warnings i seen (e # es) =
     too_long ''event'' i ''event_type'' (Some (ev_event_type e)) MAX_EVENT_TYPE @
     too_long ''event'' i ''severity'' (ev_severity e) MAX_SEVERITY @
     too_long ''event'' i ''user_name'' (ev_user_name e) MAX_USER_NAME @
     too_long ''event'' i ''entity_name'' (ev_entity_name e) MAX_ENTITY_NAME @
     too_long ''event'' i ''entity_type'' (ev_entity_type e) MAX_EVENT_ENTITY_TYPE @
     issue_if (\<not> (VMWARE_KEY_MIN \<le> ev_vmware_key e \<and> ev_vmware_key e \<le> VMWARE_KEY_MAX))
       (batch_issue ''vmware_key_out_of_int32_range'' WarningIssue ''event'' (Some i) (Some ''vmware_key'')) @
     issue_if (ev_vmware_key e \<in> seen)
       (batch_issue ''duplicate_dedup_key'' WarningIssue ''event'' (Some i) (Some ''vmware_key'')) @
     event_warnings (i + 1) (insert (ev_vmware_key e) seen) es"

definition batch_warnings :: "collection_batch \<Rightarrow> issue list" where
  "batch_warnings b = metric_warnings 0 {} (batch_metrics b) @ event_warnings 0 {} (batch_events b)"

definition check_batch :: "collector_manifest \<Rightarrow> collection_batch \<Rightarrow> issue list" where
  "check_batch m b = batch_errors m b @ batch_warnings b"

definition validate_batch :: "collector_manifest \<Rightarrow> collection_batch \<Rightarrow> issue list + unit" where
  "validate_batch m b = (let errors = errors_of (batch_errors m b) in if errors \<noteq> [] then Inl errors else Inr ())"

definition raise_for_issues :: "issue list \<Rightarrow> issue list + unit" where
  "raise_for_issues issues = (let errors = errors_of issues in if errors \<noteq> [] then Inl errors else Inr ())"

subsection \<open>Facts\<close>

lemma issue_if_simps [simp]: "issue_if b i = [] \<longleftrightarrow> \<not> b" "set (issue_if b i) = (if b then {i} else {})"
  by (simp_all add: issue_if_def)

lemma set_enumerate_with: "set (enumerate_with f xs) = (\<Union>i<length xs. set (f i (xs ! i)))"
proof -
  have "set (List.enumerate 0 xs) = (\<lambda>i. (i, xs ! i)) ` {..<length xs}"
    by (auto simp: in_set_enumerate_eq image_iff)
  then show ?thesis by (simp add: enumerate_with_def)
qed

lemma enumerate_with_Nil [simp]: "enumerate_with f xs = [] \<longleftrightarrow> (\<forall>i<length xs. f i (xs ! i) = [])"
  using set_enumerate_with [of f xs] by (metis (mono_tags, lifting) UN_iff ex_in_conv lessThan_iff set_empty)

lemma too_long_Nil [simp]: "too_long k i n v l = [] \<longleftrightarrow> (case v of None \<Rightarrow> True | Some x \<Rightarrow> length x \<le> l)"
  by (auto simp: too_long_def split: option.splits)

lemma errors_of_append [simp]: "errors_of (a @ b) = errors_of a @ errors_of b"
  by (simp add: errors_of_def)

lemma errors_of_issue_if [simp]: "errors_of (issue_if b i) = (if issue_severity i = ErrorIssue then issue_if b i else [])"
  by (simp add: errors_of_def issue_if_def)

lemma batch_issue_severity [simp]: "issue_severity (batch_issue c s k i f) = s"
  by (simp add: batch_issue_def)

lemma metric_warnings_only: "errors_of (metric_warnings i seen ss) = []"
  by (induction i seen ss rule: metric_warnings.induct) (simp_all add: too_long_def, simp add: errors_of_def)

lemma event_warnings_only: "errors_of (event_warnings i seen es) = []"
  by (induction i seen es rule: event_warnings.induct) (simp_all add: too_long_def, simp add: errors_of_def)

lemma errors_of_all: "(\<And>i. i \<in> set is \<Longrightarrow> issue_severity i = ErrorIssue) \<Longrightarrow> errors_of is = is"
  by (simp add: errors_of_def)

lemma errors_of_enumerate [simp]:
  "(\<And>i x. errors_of (f i x) = f i x) \<Longrightarrow> errors_of (enumerate_with f xs) = enumerate_with f xs"
  by (simp add: errors_of_def enumerate_with_def filter_concat case_prod_unfold comp_def)

lemma batch_errors_only: "errors_of (batch_errors m b) = batch_errors m b"
proof -
  have "errors_of (log_errors i r) = log_errors i r" "errors_of (metric_errors m i s) = metric_errors m i s"
    "errors_of (event_errors i e) = event_errors i e" for i r s e
    by (simp_all add: log_errors_def metric_errors_def event_errors_def Let_def)
  then show ?thesis by (simp add: batch_errors_def Let_def)
qed

lemma check_batch_agrees: "raise_for_issues (check_batch m b) = validate_batch m b"
  by (simp add: raise_for_issues_def validate_batch_def check_batch_def batch_errors_only batch_warnings_def
      metric_warnings_only event_warnings_only)

lemma metric_warnings_Nil:
  "metric_warnings i seen ss = [] \<Longrightarrow> distinct (map metric_point ss) \<and> seen \<inter> metric_point ` set ss = {}"
  by (induction i seen ss rule: metric_warnings.induct) auto

lemma event_warnings_Nil:
  "event_warnings i seen es = [] \<Longrightarrow> distinct (map ev_vmware_key es) \<and> seen \<inter> ev_vmware_key ` set es = {} \<and>
     (\<forall>e\<in>set es. VMWARE_KEY_MIN \<le> ev_vmware_key e \<and> ev_vmware_key e \<le> VMWARE_KEY_MAX)"
  by (induction i seen es rule: event_warnings.induct) auto

end
