(* ===== verification/Wire.thy ===== *)
theory Wire
  imports PluginApi Pyuuid "HOL-Library.Char_ord" "HOL-Library.List_Lexorder"
begin

section \<open>The worker protocol (plugins/wire.py)\<close>

text \<open>
  A collector runs in another process; what it declares and returns crosses the boundary as JSON. A
  JSON value is what \<open>json.loads\<close> returns, an object is the list of its members in order. Reading
  raises one of three errors. \<open>repr\<close> stands for \<open>str()\<close> of a value that is neither text, number nor
  constant, and \<open>float_text\<close> for \<open>float()\<close> of a text. A pass-through field that is typed as text holds
  text or null here; another value, which Python would pass on, is reported as \<open>NotText\<close>.
\<close>

datatype json =
    JNull | JBool bool | JInt int | JFloat pyfloat | JStr string | JList "json list"
  | JObj "(string \<times> json) list"

datatype wire_error = KeyError | ValueError | TypeError | NotText

record connection_params =
  cp_host :: string
  cp_protocol :: string
  cp_port :: json
  cp_username :: string
  cp_password :: string
  cp_verify_ssl :: bool
  cp_proxy_url :: "string option"
  cp_ca_bundle_path :: "string option"

record vcenter_target =
  vt_id :: uuid
  vt_name :: string
  vt_host :: string
  vt_protocol :: string
  vt_port :: int
  vt_username :: string
  vt_verify_ssl :: bool

subsection \<open>Reading values\<close>

definition member :: "json \<Rightarrow> string \<Rightarrow> wire_error + json" where
  \<comment> \<open>\<open>raw[k]\<close>\<close>
  "member j k = (case j of JObj d \<Rightarrow> (case map_of d k of Some v \<Rightarrow> Inr v | None \<Rightarrow> Inl KeyError) | _ \<Rightarrow> Inl TypeError)"

definition member_or :: "json \<Rightarrow> string \<Rightarrow> json \<Rightarrow> wire_error + json" where
  \<comment> \<open>\<open>raw.get(k, default)\<close>\<close>
  "member_or j k dflt =
     (case j of JObj d \<Rightarrow> Inr (case map_of d k of Some v \<Rightarrow> v | None \<Rightarrow> dflt) | _ \<Rightarrow> Inl TypeError)"

definition str_of :: "(json \<Rightarrow> string) \<Rightarrow> json \<Rightarrow> string" where
  "str_of repr j = (case j of JStr s \<Rightarrow> s | JInt i \<Rightarrow> int_str i | JBool b \<Rightarrow> if b then ''True'' else ''False''
     | JNull \<Rightarrow> ''None'' | _ \<Rightarrow> repr j)"

definition int_of :: "json \<Rightarrow> wire_error + int" where
  "int_of j =
     (case j of JInt i \<Rightarrow> Inr i | JBool b \<Rightarrow> Inr (if b then 1 else 0)
      | JFloat (Fin r) \<Rightarrow> Inr (if 0 \<le> r then \<lfloor>r\<rfloor> else - \<lfloor>- r\<rfloor>) | JFloat _ \<Rightarrow> Inl ValueError
      | JStr s \<Rightarrow> (case py_int s of Some i \<Rightarrow> Inr i | None \<Rightarrow> Inl ValueError) | _ \<Rightarrow> Inl TypeError)"

definition float_of :: "(string \<Rightarrow> pyfloat option) \<Rightarrow> json \<Rightarrow> wire_error + pyfloat" where
  "float_of float_text j =
     (case j of JFloat f \<Rightarrow> Inr f | JInt i \<Rightarrow> Inr (Fin (of_int i)) | JBool b \<Rightarrow> Inr (Fin (if b then 1 else 0))
      | JStr s \<Rightarrow> (case float_text s of Some f \<Rightarrow> Inr f | None \<Rightarrow> Inl ValueError) | _ \<Rightarrow> Inl TypeError)"

definition truthy :: "json \<Rightarrow> bool" where
  "truthy j = (case j of JNull \<Rightarrow> False | JBool b \<Rightarrow> b | JInt i \<Rightarrow> i \<noteq> 0 | JFloat f \<Rightarrow> f \<noteq> Fin 0
     | JStr s \<Rightarrow> s \<noteq> '''' | JList l \<Rightarrow> l \<noteq> [] | JObj d \<Rightarrow> d \<noteq> [])"

definition items :: "json \<Rightarrow> wire_error + json list" where
  "items j = (case j of JList l \<Rightarrow> Inr l | _ \<Rightarrow> Inl TypeError)"

definition text_or_none :: "json \<Rightarrow> wire_error + string option" where
  "text_or_none j = (case j of JNull \<Rightarrow> Inr None | JStr s \<Rightarrow> Inr (Some s) | _ \<Rightarrow> Inl NotText)"

definition int_or_none :: "json \<Rightarrow> wire_error + int option" where
  "int_or_none j = (case j of JNull \<Rightarrow> Inr None | JInt i \<Rightarrow> Inr (Some i) | _ \<Rightarrow> Inl NotText)"

definition jtext :: "string option \<Rightarrow> json" where
  "jtext v = (case v of None \<Rightarrow> JNull | Some s \<Rightarrow> JStr s)"

definition jint :: "int option \<Rightarrow> json" where
  "jint v = (case v of None \<Rightarrow> JNull | Some i \<Rightarrow> JInt i)"

definition dt_to_json :: "pydt \<Rightarrow> json" where
  "dt_to_json t = JStr (isoformat t)"

definition dt_from_json :: "json \<Rightarrow> wire_error + pydt" where
  "dt_from_json j =
     (case j of JStr s \<Rightarrow>
        (case fromisoformat s of None \<Rightarrow> Inl ValueError
         | Some t \<Rightarrow> if utcoff t = None then Inl ValueError else Inr t)
      | _ \<Rightarrow> Inl TypeError)"

subsection \<open>Connection parameters and targets\<close>

definition connection_params_to_json :: "connection_params \<Rightarrow> json" where
  "connection_params_to_json c = JObj
     [(''host'', JStr (cp_host c)), (''protocol'', JStr (cp_protocol c)), (''port'', cp_port c),
      (''username'', JStr (cp_username c)), (''password'', JStr (cp_password c)),
      (''verify_ssl'', JBool (cp_verify_ssl c)), (''proxy_url'', jtext (cp_proxy_url c)),
      (''ca_bundle_path'', jtext (cp_ca_bundle_path c))]"

definition connection_params_from_json :: "(json \<Rightarrow> string) \<Rightarrow> json \<Rightarrow> wire_error + connection_params" where
  "connection_params_from_json repr raw =
     and_then (member raw ''host'') (\<lambda>h. and_then (member raw ''protocol'') (\<lambda>p.
     and_then (member raw ''port'') (\<lambda>port. and_then (member raw ''username'') (\<lambda>u.
     and_then (member raw ''password'') (\<lambda>pw. and_then (member raw ''verify_ssl'') (\<lambda>v.
     and_then (and_then (member_or raw ''proxy_url'' JNull) text_or_none) (\<lambda>px.
     and_then (and_then (member_or raw ''ca_bundle_path'' JNull) text_or_none) (\<lambda>ca.
       Inr \<lparr>cp_host = str_of repr h, cp_protocol = str_of repr p, cp_port = port,
            cp_username = str_of repr u, cp_password = str_of repr pw, cp_verify_ssl = truthy v,
            cp_proxy_url = px, cp_ca_bundle_path = ca\<rparr>))))))))"

definition target_to_json :: "vcenter_target \<Rightarrow> json" where
  "target_to_json t = JObj
     [(''id'', JStr (uuid_str (vt_id t))), (''name'', JStr (vt_name t)), (''host'', JStr (vt_host t)),
      (''protocol'', JStr (vt_protocol t)), (''port'', JInt (vt_port t)), (''username'', JStr (vt_username t)),
      (''verify_ssl'', JBool (vt_verify_ssl t))]"

definition target_from_json :: "(json \<Rightarrow> string) \<Rightarrow> json \<Rightarrow> wire_error + vcenter_target" where
  "target_from_json repr raw =
     and_then (member raw ''id'') (\<lambda>i.
     and_then (case uuid_parse (str_of repr i) of None \<Rightarrow> Inl ValueError | Some u \<Rightarrow> Inr u) (\<lambda>uid.
     and_then (member raw ''name'') (\<lambda>n. and_then (member raw ''host'') (\<lambda>h.
     and_then (member raw ''protocol'') (\<lambda>p. and_then (and_then (member raw ''port'') int_of) (\<lambda>port.
     and_then (member raw ''username'') (\<lambda>u. and_then (member raw ''verify_ssl'') (\<lambda>v.
       Inr \<lparr>vt_id = uid, vt_name = str_of repr n, vt_host = str_of repr h, vt_protocol = str_of repr p,
            vt_port = port, vt_username = str_of repr u, vt_verify_ssl = truthy v\<rparr>))))))))"

subsection \<open>Manifests\<close>

definition metric_definition_to_json :: "metric_definition \<Rightarrow> json" where
  "metric_definition_to_json d = JObj
     [(''key'', JStr (md_key d)), (''display_name'', JStr (md_display_name d)), (''unit'', JStr (md_unit d)),
      (''entity_type'', JStr (md_entity_type d)), (''series_mode'', JStr (md_series_mode d)),
      (''category'', JStr (md_category d)), (''description'', JStr (md_description d))]"

definition metric_definition_from_json :: "(json \<Rightarrow> string) \<Rightarrow> json \<Rightarrow> wire_error + metric_definition" where
  "metric_definition_from_json repr raw =
     and_then (member raw ''key'') (\<lambda>k. and_then (member raw ''display_name'') (\<lambda>n.
     and_then (member raw ''unit'') (\<lambda>u. and_then (member raw ''entity_type'') (\<lambda>e.
     and_then (and_then (member_or raw ''series_mode'' (JStr ''entity'')) text_or_none) (\<lambda>s.
     and_then (case s of Some s \<Rightarrow> Inr s | None \<Rightarrow> Inl NotText) (\<lambda>s.
     and_then (member_or raw ''category'' (JStr ''other'')) (\<lambda>c.
     and_then (member_or raw ''description'' (JStr '''')) (\<lambda>d.
       Inr \<lparr>md_key = str_of repr k, md_display_name = str_of repr n, md_unit = str_of repr u,
            md_entity_type = str_of repr e, md_series_mode = s, md_category = str_of repr c,
            md_description = str_of repr d\<rparr>))))))))"

definition setup_action_to_json :: "setup_action \<Rightarrow> json" where
  "setup_action_to_json a = JObj [(''id'', JStr (action_id a)), (''title'', JStr (action_title a)),
     (''required_for_enable'', JBool (required_for_enable a))]"

definition setup_action_from_json :: "json \<Rightarrow> wire_error + setup_action" where
  \<comment> \<open>\<open>SetupAction(**a)\<close>: unknown or missing keywords are a \<open>TypeError\<close>\<close>
  "setup_action_from_json raw =
     (case raw of JObj d \<Rightarrow>
        (if \<not> fst ` set d \<subseteq> {''id'', ''title'', ''required_for_enable''} then Inl TypeError
         else (case (map_of d ''id'', map_of d ''title'', map_of d ''required_for_enable'') of
             (Some (JStr i), Some (JStr t), None) \<Rightarrow> Inr \<lparr>action_id = i, action_title = t, required_for_enable = False\<rparr>
           | (Some (JStr i), Some (JStr t), Some (JBool b)) \<Rightarrow> Inr \<lparr>action_id = i, action_title = t, required_for_enable = b\<rparr>
           | (None, _, _) \<Rightarrow> Inl TypeError | (_, None, _) \<Rightarrow> Inl TypeError | _ \<Rightarrow> Inl NotText))
      | _ \<Rightarrow> Inl TypeError)"

definition manifest_to_json :: "collector_manifest \<Rightarrow> json" where
  "manifest_to_json m = JObj
     [(''id'', JStr (mf_id m)), (''display_name'', JStr (mf_display_name m)), (''version'', JStr (mf_version m)),
      (''api_version'', JInt (mf_api_version m)), (''data_kinds'', JList (map JStr (sort (mf_data_kinds m)))),
      (''default_interval_seconds'', JInt (mf_default_interval_seconds m)),
      (''metric_definitions'', JList (map metric_definition_to_json (mf_metric_definitions m))),
      (''description'', JStr (mf_description m)),
      (''default_timeout_seconds'', JFloat (mf_default_timeout_seconds m)),
      (''setup_actions'', JList (map setup_action_to_json (mf_setup_actions m)))]"

definition kind_of :: "json \<Rightarrow> wire_error + string" where
  "kind_of j = (case j of JStr s \<Rightarrow> Inr s | _ \<Rightarrow> Inl NotText)"

definition manifest_from_json ::
  "(json \<Rightarrow> string) \<Rightarrow> (string \<Rightarrow> pyfloat option) \<Rightarrow> json \<Rightarrow> wire_error + collector_manifest" where
  "manifest_from_json repr float_text raw =
     and_then (member raw ''id'') (\<lambda>i. and_then (member raw ''display_name'') (\<lambda>n.
     and_then (member raw ''version'') (\<lambda>v. and_then (and_then (member raw ''api_version'') int_of) (\<lambda>api.
     and_then (and_then (and_then (member_or raw ''data_kinds'' (JList [])) items) (traverse kind_of)) (\<lambda>kinds.
     and_then (and_then (member_or raw ''default_interval_seconds'' (JInt 300)) int_of) (\<lambda>iv.
     and_then (and_then (and_then (member_or raw ''metric_definitions'' (JList [])) items)
       (traverse (metric_definition_from_json repr))) (\<lambda>defs.
     and_then (member_or raw ''description'' (JStr '''')) (\<lambda>d.
     and_then (and_then (member_or raw ''default_timeout_seconds'' (JFloat (Fin 300))) (float_of float_text)) (\<lambda>t.
     and_then (and_then (and_then (member_or raw ''setup_actions'' (JList [])) items)
       (traverse setup_action_from_json)) (\<lambda>acts.
       Inr \<lparr>mf_id = str_of repr i, mf_display_name = str_of repr n, mf_version = str_of repr v,
            mf_api_version = api, mf_data_kinds = kinds, mf_default_interval_seconds = iv,
            mf_metric_definitions = defs, mf_description = str_of repr d, mf_default_timeout_seconds = t,
            mf_setup_actions = acts\<rparr>))))))))))"

subsection \<open>Batches\<close>

definition event_to_json :: "event_input \<Rightarrow> json" where
  "event_to_json e = JObj
     [(''occurred_at'', dt_to_json (ev_occurred_at e)), (''event_type'', JStr (ev_event_type e)),
      (''message'', JStr (ev_message e)), (''vmware_key'', JInt (ev_vmware_key e)),
      (''severity'', jtext (ev_severity e)), (''user_name'', jtext (ev_user_name e)),
      (''entity_name'', jtext (ev_entity_name e)), (''entity_type'', jtext (ev_entity_type e)),
      (''chain_id'', jint (ev_chain_id e))]"

definition metric_to_json :: "metric_input \<Rightarrow> json" where
  "metric_to_json s = JObj
     [(''sampled_at'', dt_to_json (ms_sampled_at s)), (''entity_type'', JStr (ms_entity_type s)),
      (''entity_moid'', JStr (ms_entity_moid s)), (''entity_name'', JStr (ms_entity_name s)),
      (''metric_key'', JStr (ms_metric_key s)), (''value'', JFloat (ms_value s))]"

definition log_to_json :: "log_input \<Rightarrow> json" where
  "log_to_json r = JObj
     [(''source_id'', JStr (lg_source_id r)), (''host'', JStr (lg_host r)), (''log_kind'', JStr (lg_log_kind r)),
      (''file_generation'', JStr (lg_file_generation r)), (''byte_offset'', JInt (lg_byte_offset r)),
      (''collected_at'', dt_to_json (lg_collected_at r)), (''message'', JStr (lg_message r)),
      (''occurred_at'', case lg_occurred_at r of None \<Rightarrow> JNull | Some t \<Rightarrow> dt_to_json t),
      (''severity'', jtext (lg_severity r))]"

definition batch_to_json :: "collection_batch \<Rightarrow> json" where
  "batch_to_json b = JObj
     [(''events'', JList (map event_to_json (batch_events b))),
      (''metrics'', JList (map metric_to_json (batch_metrics b))),
      (''logs'', JList (map log_to_json (batch_logs b))), (''next_cursor'', jtext (next_cursor b))]"

definition event_from_json :: "(json \<Rightarrow> string) \<Rightarrow> json \<Rightarrow> wire_error + event_input" where
  "event_from_json repr e =
     and_then (and_then (member e ''occurred_at'') (\<lambda>v. dt_from_json (JStr (str_of repr v)))) (\<lambda>t.
     and_then (member e ''event_type'') (\<lambda>ty. and_then (member e ''message'') (\<lambda>msg.
     and_then (and_then (member e ''vmware_key'') int_of) (\<lambda>k.
     and_then (and_then (member_or e ''severity'' JNull) text_or_none) (\<lambda>sev.
     and_then (and_then (member_or e ''user_name'' JNull) text_or_none) (\<lambda>un.
     and_then (and_then (member_or e ''entity_name'' JNull) text_or_none) (\<lambda>en.
     and_then (and_then (member_or e ''entity_type'' JNull) text_or_none) (\<lambda>et.
     and_then (and_then (member_or e ''chain_id'' JNull) int_or_none) (\<lambda>ch.
       Inr \<lparr>ev_occurred_at = t, ev_event_type = str_of repr ty, ev_message = str_of repr msg, ev_vmware_key = k,
            ev_severity = sev, ev_user_name = un, ev_entity_name = en, ev_entity_type = et, ev_chain_id = ch\<rparr>)))))))))"

definition metric_from_json ::
  "(json \<Rightarrow> string) \<Rightarrow> (string \<Rightarrow> pyfloat option) \<Rightarrow> json \<Rightarrow> wire_error + metric_input" where
  "metric_from_json repr float_text s =
     and_then (and_then (member s ''sampled_at'') (\<lambda>v. dt_from_json (JStr (str_of repr v)))) (\<lambda>t.
     and_then (member s ''entity_type'') (\<lambda>et. and_then (member s ''entity_moid'') (\<lambda>moid.
     and_then (member s ''entity_name'') (\<lambda>n. and_then (member s ''metric_key'') (\<lambda>k.
     and_then (and_then (member s ''value'') (float_of float_text)) (\<lambda>v.
       Inr \<lparr>ms_sampled_at = t, ms_entity_type = str_of repr et, ms_entity_moid = str_of repr moid,
            ms_entity_name = str_of repr n, ms_metric_key = str_of repr k, ms_value = v\<rparr>))))))"

definition log_from_json :: "(json \<Rightarrow> string) \<Rightarrow> json \<Rightarrow> wire_error + log_input" where
  "log_from_json repr r =
     and_then (member r ''source_id'') (\<lambda>src. and_then (member r ''host'') (\<lambda>h.
     and_then (member r ''log_kind'') (\<lambda>k. and_then (member r ''file_generation'') (\<lambda>g.
     and_then (and_then (member r ''byte_offset'') int_of) (\<lambda>off.
     and_then (and_then (member r ''collected_at'') dt_from_json) (\<lambda>c.
     and_then (member r ''message'') (\<lambda>msg.
     and_then (member_or r ''occurred_at'' JNull) (\<lambda>o'.
     and_then (if truthy o' then map_sum id Some (dt_from_json o') else Inr None) (\<lambda>occ.
     and_then (and_then (member_or r ''severity'' JNull) text_or_none) (\<lambda>sev.
       Inr \<lparr>lg_source_id = str_of repr src, lg_host = str_of repr h, lg_log_kind = str_of repr k,
            lg_file_generation = str_of repr g, lg_byte_offset = off, lg_collected_at = c,
            lg_message = str_of repr msg, lg_occurred_at = occ, lg_severity = sev\<rparr>))))))))))"

definition batch_from_json ::
  "(json \<Rightarrow> string) \<Rightarrow> (string \<Rightarrow> pyfloat option) \<Rightarrow> json \<Rightarrow> wire_error + collection_batch" where
  "batch_from_json repr float_text raw =
     and_then (and_then (and_then (member_or raw ''events'' (JList [])) items) (traverse (event_from_json repr))) (\<lambda>es.
     and_then (and_then (and_then (member_or raw ''metrics'' (JList [])) items) (traverse (metric_from_json repr float_text))) (\<lambda>ms.
     and_then (and_then (member_or raw ''next_cursor'' JNull) text_or_none) (\<lambda>cur.
     and_then (and_then (and_then (member_or raw ''logs'' (JList [])) items) (traverse (log_from_json repr))) (\<lambda>ls.
       Inr \<lparr>batch_events = es, batch_metrics = ms, next_cursor = cur, batch_logs = ls\<rparr>))))"

subsection \<open>Round trips\<close>

lemma text_or_none_jtext [simp]: "text_or_none (jtext v) = Inr v"
  by (cases v) (simp_all add: text_or_none_def jtext_def)

lemma int_or_none_jint [simp]: "int_or_none (jint v) = Inr v"
  by (cases v) (simp_all add: int_or_none_def jint_def)

lemma str_of_JStr [simp]: "str_of repr (JStr s) = s"
  by (simp add: str_of_def)

lemma int_of_JInt [simp]: "int_of (JInt i) = Inr i"
  by (simp add: int_of_def)

lemma float_of_JFloat [simp]: "float_of ft (JFloat f) = Inr f"
  by (simp add: float_of_def)

lemma dt_from_json_iso:
  "valid_pydt t \<Longrightarrow> dt_from_json (JStr (isoformat t)) = (if utcoff t \<noteq> None then Inr t else Inl ValueError)"
  by (simp add: dt_from_json_def fromisoformat_isoformat)

lemma isoformat_ne [simp]: "isoformat t \<noteq> []"
  by (simp add: isoformat_def)

lemma event_round_trip:
  "valid_pydt (ev_occurred_at e) \<Longrightarrow>
   event_from_json repr (event_to_json e) = (if utcoff (ev_occurred_at e) \<noteq> None then Inr e else Inl ValueError)"
  by (simp add: event_from_json_def event_to_json_def member_def member_or_def dt_to_json_def dt_from_json_iso)

lemma metric_round_trip:
  "valid_pydt (ms_sampled_at s) \<Longrightarrow>
   metric_from_json repr ft (metric_to_json s) = (if utcoff (ms_sampled_at s) \<noteq> None then Inr s else Inl ValueError)"
  by (simp add: metric_from_json_def metric_to_json_def member_def dt_to_json_def dt_from_json_iso)

definition log_aware :: "log_input \<Rightarrow> bool" where
  "log_aware r = (utcoff (lg_collected_at r) \<noteq> None \<and>
     (case lg_occurred_at r of None \<Rightarrow> True | Some t \<Rightarrow> utcoff t \<noteq> None))"

lemma log_round_trip:
  "valid_pydt (lg_collected_at r) \<Longrightarrow> (case lg_occurred_at r of None \<Rightarrow> True | Some t \<Rightarrow> valid_pydt t) \<Longrightarrow>
   log_from_json repr (log_to_json r) = (if log_aware r then Inr r else Inl ValueError)"
  by (cases "lg_occurred_at r")
     (simp_all add: log_from_json_def log_to_json_def member_def member_or_def dt_to_json_def dt_from_json_iso
       log_aware_def truthy_def)

definition valid_batch :: "collection_batch \<Rightarrow> bool" where
  "valid_batch b = ((\<forall>e\<in>set (batch_events b). valid_pydt (ev_occurred_at e)) \<and>
     (\<forall>s\<in>set (batch_metrics b). valid_pydt (ms_sampled_at s)) \<and>
     (\<forall>r\<in>set (batch_logs b). valid_pydt (lg_collected_at r) \<and>
        (case lg_occurred_at r of None \<Rightarrow> True | Some t \<Rightarrow> valid_pydt t)))"

definition all_aware :: "collection_batch \<Rightarrow> bool" where
  "all_aware b = (list_all (\<lambda>e. utcoff (ev_occurred_at e) \<noteq> None) (batch_events b) \<and>
     list_all (\<lambda>s. utcoff (ms_sampled_at s) \<noteq> None) (batch_metrics b) \<and> list_all log_aware (batch_logs b))"

text \<open>C28: a batch crosses the process boundary unchanged, every time stamp to the microsecond and with its
  offset, if all its datetimes are aware; a batch with a single naive datetime is refused as a whole,
  so a missing offset is never silently read as UTC.\<close>

theorem batch_wire_round_trip:
  assumes "valid_batch b"
  shows "batch_from_json repr ft (batch_to_json b) = (if all_aware b then Inr b else Inl ValueError)"
proof -
  have "traverse (\<lambda>e. event_from_json repr (event_to_json e)) (batch_events b) =
      (if list_all (\<lambda>e. utcoff (ev_occurred_at e) \<noteq> None) (batch_events b) then Inr (map id (batch_events b)) else Inl ValueError)"
    by (rule traverse_if) (use assms in \<open>simp add: valid_batch_def event_round_trip\<close>)
  moreover have "traverse (\<lambda>s. metric_from_json repr ft (metric_to_json s)) (batch_metrics b) =
      (if list_all (\<lambda>s. utcoff (ms_sampled_at s) \<noteq> None) (batch_metrics b) then Inr (map id (batch_metrics b)) else Inl ValueError)"
    by (rule traverse_if) (use assms in \<open>simp add: valid_batch_def metric_round_trip\<close>)
  moreover have "traverse (\<lambda>r. log_from_json repr (log_to_json r)) (batch_logs b) =
      (if list_all log_aware (batch_logs b) then Inr (map id (batch_logs b)) else Inl ValueError)"
    by (rule traverse_if) (use assms in \<open>simp add: valid_batch_def log_round_trip\<close>)
  ultimately show ?thesis
    by (simp add: batch_from_json_def batch_to_json_def member_or_def items_def traverse_map all_aware_def)
qed

definition sample_batch :: collection_batch where
  "sample_batch = \<lparr>batch_events = [\<lparr>ev_occurred_at = \<lparr>wall = days 738000 + 1, utcoff = Some 540\<rparr>, ev_event_type = ''VmPoweredOn'',
        ev_message = ''m'', ev_vmware_key = 7, ev_severity = Some ''info'', ev_user_name = None,
        ev_entity_name = Some ''vm'', ev_entity_type = None, ev_chain_id = Some 3\<rparr>],
     batch_metrics = [], next_cursor = Some ''c'', batch_logs = []\<rparr>"

theorem batch_wire_round_trip_witness:
  "batch_from_json (\<lambda>_. '''') (\<lambda>_. None) (batch_to_json sample_batch) = Inr sample_batch"
  by (subst batch_wire_round_trip) (simp_all add: valid_batch_def valid_pydt_def all_aware_def sample_batch_def timedelta_defs)

lemma metric_definition_round_trip:
  "metric_definition_from_json repr (metric_definition_to_json d) = Inr d"
  by (simp add: metric_definition_from_json_def metric_definition_to_json_def member_def member_or_def text_or_none_def)

lemma setup_action_round_trip: "setup_action_from_json (setup_action_to_json a) = Inr a"
  by (simp add: setup_action_from_json_def setup_action_to_json_def)

lemma traverse_Inr: "(\<And>x. x \<in> set xs \<Longrightarrow> f x = Inr (g x)) \<Longrightarrow> traverse f xs = Inr (map g xs)"
  by (induction xs) simp_all

lemma manifest_round_trip:
  "manifest_from_json repr ft (manifest_to_json m) = Inr (m\<lparr>mf_data_kinds := sort (mf_data_kinds m)\<rparr>)"
proof -
  have "traverse (\<lambda>d. metric_definition_from_json repr (metric_definition_to_json d)) xs = Inr (map id xs)" for xs
    by (rule traverse_Inr) (simp add: metric_definition_round_trip)
  moreover have "traverse (\<lambda>d. setup_action_from_json (setup_action_to_json d)) xs = Inr (map id xs)" for xs
    by (rule traverse_Inr) (simp add: setup_action_round_trip)
  moreover have "traverse (\<lambda>x. kind_of (JStr x)) xs = Inr (map id xs)" for xs
    by (rule traverse_Inr) (simp add: kind_of_def)
  ultimately show ?thesis
    by (simp add: manifest_from_json_def manifest_to_json_def member_def member_or_def items_def traverse_map)
qed

lemma connection_params_round_trip:
  "connection_params_from_json repr (connection_params_to_json c) = Inr c"
  by (simp add: connection_params_from_json_def connection_params_to_json_def member_def member_or_def truthy_def)

end
