(* ===== verification/HostCheck.thy ===== *)
theory HostCheck
  imports Weburl
begin

section \<open>Which addresses the program may connect to\<close>

text \<open>
  services/vcenter\_host\_validation.py (\<open>_normalize_host\<close>, \<open>_is_blocked_ip\<close>,
  \<open>_hostname_allowed_by_suffix\<close>, \<open>_resolve_host_ips\<close>, \<open>validate_vcenter_host\<close>) and network.py of
  the plugin API (\<open>_blocked_reason\<close>, \<open>check_ssh_address\<close>, \<open>resolve_ssh_address\<close>). The address classes are
  those of the standard library's \<open>ipaddress\<close>: the tables of networks of Python 3.12. Its
  patch releases differ in whether the properties of an IPv4-mapped IPv6 address are those of the
  IPv4 address; both are covered by the parameter \<open>mapped\<close>. Name resolution is a parameter.
\<close>

subsection \<open>Address classes (the standard library's ipaddress)\<close>

definition v4 :: "int \<Rightarrow> int \<Rightarrow> int \<Rightarrow> int \<Rightarrow> int" where
  "v4 a b c d = ((a * 256 + b) * 256 + c) * 256 + d"

definition v6 :: "int list \<Rightarrow> int" where
  \<comment> \<open>the address that starts with these groups and goes on with zeros\<close>
  "v6 gs = foldl (\<lambda>n g. 65536 * n + g) 0 gs * 65536 ^ (8 - length gs)"

definition in_net :: "nat \<Rightarrow> int \<Rightarrow> int \<times> nat \<Rightarrow> bool" where
  \<comment> \<open>\<open>address in network\<close>, of addresses with \<open>w\<close> bits\<close>
  "in_net w a n = (a div 2 ^ (w - snd n) = fst n div 2 ^ (w - snd n))"

definition private_networks4 :: "(int \<times> nat) list" where
  "private_networks4 =
     [(v4 0 0 0 0, 8), (v4 10 0 0 0, 8), (v4 127 0 0 0, 8), (v4 169 254 0 0, 16), (v4 172 16 0 0, 12),
      (v4 192 0 0 0, 24), (v4 192 0 0 170, 31), (v4 192 0 2 0, 24), (v4 192 168 0 0, 16), (v4 198 18 0 0, 15),
      (v4 198 51 100 0, 24), (v4 203 0 113 0, 24), (v4 240 0 0 0, 4), (v4 255 255 255 255, 32)]"

definition private_exceptions4 :: "(int \<times> nat) list" where
  "private_exceptions4 = [(v4 192 0 0 9, 32), (v4 192 0 0 10, 32)]"

definition private_networks6 :: "(int \<times> nat) list" where
  "private_networks6 =
     [(1, 128), (0, 128), (v6 [0, 0, 0, 0, 0, 0xFFFF], 96), (v6 [0x64, 0xFF9B, 1], 48), (v6 [0x100], 64),
      (v6 [0x2001], 23), (v6 [0x2001, 0xDB8], 32), (v6 [0x2002], 16), (v6 [0xFC00], 7), (v6 [0xFE80], 10)]"

definition private_exceptions6 :: "(int \<times> nat) list" where
  "private_exceptions6 =
     [(v6 [0x2001, 1] + 1, 128), (v6 [0x2001, 1] + 2, 128), (v6 [0x2001, 3], 32), (v6 [0x2001, 4, 0x112], 48),
      (v6 [0x2001, 0x20], 28), (v6 [0x2001, 0x30], 28)]"

definition reserved_networks6 :: "(int \<times> nat) list" where
  "reserved_networks6 =
     [(0, 8), (v6 [0x100], 8), (v6 [0x200], 7), (v6 [0x400], 6), (v6 [0x800], 5), (v6 [0x1000], 4),
      (v6 [0x4000], 3), (v6 [0x6000], 3), (v6 [0x8000], 3), (v6 [0xA000], 3), (v6 [0xC000], 3), (v6 [0xE000], 4),
      (v6 [0xF000], 5), (v6 [0xF800], 6), (v6 [0xFE00], 9)]"

datatype ip_class = Private | Loopback | Link_local | Multicast | Reserved | Unspecified

fun class4 :: "ip_class \<Rightarrow> int \<Rightarrow> bool" where
  "class4 Private a = (list_ex (in_net 32 a) private_networks4 \<and> \<not> list_ex (in_net 32 a) private_exceptions4)"
| "class4 Loopback a = in_net 32 a (v4 127 0 0 0, 8)"
| "class4 Link_local a = in_net 32 a (v4 169 254 0 0, 16)"
| "class4 Multicast a = in_net 32 a (v4 224 0 0 0, 4)"
| "class4 Reserved a = in_net 32 a (v4 240 0 0 0, 4)"
| "class4 Unspecified a = (a = 0)"

fun class6 :: "ip_class \<Rightarrow> int \<Rightarrow> bool" where
  "class6 Private a = (list_ex (in_net 128 a) private_networks6 \<and> \<not> list_ex (in_net 128 a) private_exceptions6)"
| "class6 Loopback a = (a = 1)"
| "class6 Link_local a = in_net 128 a (v6 [0xFE80], 10)"
| "class6 Multicast a = in_net 128 a (v6 [0xFF00], 8)"
| "class6 Reserved a = list_ex (in_net 128 a) reserved_networks6"
| "class6 Unspecified a = (a = 0)"

fun ipv4_mapped :: "ip \<Rightarrow> int option" where
  "ipv4_mapped (IPv4 a) = None"
| "ipv4_mapped (IPv6 a z) = (if a div 2 ^ 32 = 0xFFFF then Some (a mod 2 ^ 32) else None)"

fun has_class :: "bool \<Rightarrow> ip_class \<Rightarrow> ip \<Rightarrow> bool" where
  \<comment> \<open>\<open>ip.is_private\<close>, \<open>ip.is_loopback\<close>, ...; \<open>mapped\<close>: the interpreter unwraps mapped addresses for each of them\<close>
  "has_class mapped c (IPv4 a) = class4 c a"
| "has_class mapped c (IPv6 a z) =
     (case ipv4_mapped (IPv6 a z) of
        Some b \<Rightarrow> if mapped \<or> c = Private then class4 c b else class6 c a
      | None \<Rightarrow> class6 c a)"

definition unmap :: "ip \<Rightarrow> ip" where
  \<comment> \<open>the address a connection reaches\<close>
  "unmap ip = (case ipv4_mapped ip of Some b \<Rightarrow> IPv4 b | None \<Rightarrow> ip)"

lemma class_samples:
  "map (\<lambda>s. map (\<lambda>c. map_option (has_class True c) (ip_address s)) [Private, Loopback, Link_local, Multicast, Reserved, Unspecified])
     [''10.1.2.3'', ''169.254.169.254'', ''8.8.8.8'', ''::ffff:127.0.0.1'', ''2001:4860:4860::8888'', ''fd00:ec2::254'', ''192.0.0.9'', ''240.0.0.1'']
   = map (map Some)
     [[True, False, False, False, False, False], [True, False, True, False, False, False], [False, False, False, False, False, False],
      [True, True, False, False, False, False], [False, False, False, False, False, False], [True, False, False, False, False, False],
      [False, False, False, False, False, False], [True, False, False, False, True, False]]"
  by code_simp

subsection \<open>Hosts of vCenter servers (services/vcenter\_host\_validation.py)\<close>

datatype host_error =
    Host_empty | Host_url_without_name | Host_bad_url | Host_has_path | Host_blocked_name
  | Host_literal_with_suffixes | Host_blocked_address | Host_invalid | Host_not_allowed
  | Host_unresolved string | Host_bad_answer | Host_blocked_resolution

definition BLOCKED_IP_LITERALS :: "ip list" where
  \<comment> \<open>compared with \<open>str(ip)\<close>, which has no scope in these\<close>
  "BLOCKED_IP_LITERALS = [IPv4 (v4 169 254 169 254), IPv6 (v6 [0xFD00, 0xEC2] + 0x254) None]"

definition BLOCKED_HOSTNAMES :: "string list" where
  "BLOCKED_HOSTNAMES = [''localhost'', ''metadata.google.internal'', ''metadata.goog'']"

definition is_label_char :: "char \<Rightarrow> bool" where
  "is_label_char c = (is_ascii_alpha c \<or> is_decimal_char c \<or> c = CHR ''-'')"

definition host_label_ok :: "string \<Rightarrow> bool" where
  \<comment> \<open>\<open>(?!-)[A-Za-z0-9-]{1,63}(?<!-)\<close>\<close>
  "host_label_ok l =
     (l \<noteq> [] \<and> length l \<le> 63 \<and> list_all is_label_char l \<and> hd l \<noteq> CHR ''-'' \<and> last l \<noteq> CHR ''-'')"

definition hostname_re :: "string \<Rightarrow> bool" where
  \<comment> \<open>\<open>_HOSTNAME_RE.match\<close>; its dollar also matches before a last newline\<close>
  "hostname_re s =
     (let b = (if s \<noteq> [] \<and> code (last s) = 10 then butlast s else s)
      in b \<noteq> [] \<and> length b \<le> 512 \<and> list_all host_label_ok (split_on (CHR ''.'') b))"

definition normalize_host :: "(string \<Rightarrow> bool) \<Rightarrow> string \<Rightarrow> host_error + string" where
  "normalize_host bracketed_ok raw =
     (let v = py_strip raw
      in if v = [] then Inl Host_empty
         else if contains v ''://''
         then (case urlsplit bracketed_ok v of
                 None \<Rightarrow> Inl Host_bad_url
               | Some u \<Rightarrow> (case hostname u of Some h \<Rightarrow> Inr h | None \<Rightarrow> Inl Host_url_without_name))
         else if CHR ''/'' \<in> set v \<or> CHR ''?'' \<in> set v \<or> CHR ''#'' \<in> set v then Inl Host_has_path
         else Inr v)"

definition is_blocked_ip :: "bool \<Rightarrow> ip \<Rightarrow> bool" where
  "is_blocked_ip mapped ip =
     (ip \<in> set BLOCKED_IP_LITERALS
      \<or> list_ex (\<lambda>c. has_class mapped c ip) [Private, Loopback, Link_local, Multicast, Reserved, Unspecified])"

definition is_blocked_resolution :: "bool \<Rightarrow> string list \<Rightarrow> ip \<Rightarrow> bool" where
  \<comment> \<open>the test of each resolved address: hosts of a listed suffix may be private\<close>
  "is_blocked_resolution mapped suffixes ip =
     (if suffixes \<noteq> []
      then ip \<in> set BLOCKED_IP_LITERALS
           \<or> list_ex (\<lambda>c. has_class mapped c ip) [Loopback, Link_local, Multicast, Reserved, Unspecified]
      else is_blocked_ip mapped ip)"

definition hostname_allowed_by_suffix :: "string \<Rightarrow> string list \<Rightarrow> bool" where
  "hostname_allowed_by_suffix host suffixes =
     (suffixes = []
      \<or> list_ex (\<lambda>suffix. let s = lstrip_by (\<lambda>c. c = CHR ''.'') (py_lower suffix)
                    in py_lower host = s \<or> endswith (py_lower host) (''.'' @ s)) suffixes)"

definition resolve_host_ips :: "(string \<Rightarrow> string option list option) \<Rightarrow> string \<Rightarrow> host_error + ip list" where
  \<comment> \<open>\<open>getaddrinfo\<close> gives the address of every answer, \<open>None\<close> for an empty one, or fails\<close>
  "resolve_host_ips getaddrinfo host =
     (case getaddrinfo host of
        None \<Rightarrow> Inl (Host_unresolved host)
      | Some answers \<Rightarrow>
          and_then (traverse (\<lambda>a. case ip_address a of None \<Rightarrow> Inl Host_bad_answer | Some ip \<Rightarrow> Inr ip)
             (List.map_filter id answers))
           (\<lambda>ips. if ips = [] then Inl (Host_unresolved host) else Inr (fromkeys ips)))"

definition validate_vcenter_host ::
  "bool \<Rightarrow> (string \<Rightarrow> bool) \<Rightarrow> (string \<Rightarrow> string option list option) \<Rightarrow> string list \<Rightarrow> bool \<Rightarrow> string \<Rightarrow> host_error + string" where
  "validate_vcenter_host mapped bracketed_ok getaddrinfo suffixes resolve_dns host =
     and_then (normalize_host bracketed_ok host) (\<lambda>normalized.
       if py_lower normalized \<in> set BLOCKED_HOSTNAMES \<or> endswith (py_lower normalized) ''.localhost''
       then Inl Host_blocked_name
       else case ip_address normalized of
         Some ip \<Rightarrow> if suffixes \<noteq> [] then Inl Host_literal_with_suffixes
                    else if is_blocked_ip mapped ip then Inl Host_blocked_address else Inr normalized
       | None \<Rightarrow>
           if \<not> hostname_re normalized then Inl Host_invalid
           else if \<not> hostname_allowed_by_suffix normalized suffixes then Inl Host_not_allowed
           else if \<not> resolve_dns then Inr normalized
           else and_then (resolve_host_ips getaddrinfo normalized) (\<lambda>ips.
                  if list_ex (is_blocked_resolution mapped suffixes) ips then Inl Host_blocked_resolution
                  else Inr normalized))"

subsection \<open>Addresses for SSH (the plugin API's network.py)\<close>

datatype ssh_block = Cloud_metadata | Blocked_class ip_class

datatype ssh_error = Not_an_address | Address_blocked ssh_block | Ssh_unresolved string | Ssh_answer_blocked string

definition blocked_reason :: "bool \<Rightarrow> ip \<Rightarrow> ssh_block option" where
  "blocked_reason mapped address =
     (let address = unmap address
      in if address = IPv6 (v6 [0xFD00, 0xEC2] + 0x254) None then Some Cloud_metadata
         else map_option Blocked_class
           (find (\<lambda>c. has_class mapped c address) [Loopback, Link_local, Multicast, Unspecified, Reserved]))"

definition check_ssh_address :: "bool \<Rightarrow> string \<Rightarrow> ssh_error + string" where
  "check_ssh_address mapped address =
     (case ip_address address of
        None \<Rightarrow> Inl Not_an_address
      | Some parsed \<Rightarrow> (case blocked_reason mapped parsed of Some r \<Rightarrow> Inl (Address_blocked r) | None \<Rightarrow> Inr address))"

definition resolve_ssh_address ::
  "bool \<Rightarrow> (string \<Rightarrow> int \<Rightarrow> string list option) \<Rightarrow> string \<Rightarrow> int \<Rightarrow> ssh_error + string" where
  \<comment> \<open>\<open>getaddrinfo\<close> gives the address of every answer or fails\<close>
  "resolve_ssh_address mapped getaddrinfo host port =
     (let literal = (if startswith host ''['' \<and> endswith host '']'' then butlast (tl host) else host)
      in if ip_address literal \<noteq> None then check_ssh_address mapped literal
         else case getaddrinfo host port of
           None \<Rightarrow> Inl (Ssh_unresolved host)
         | Some answers \<Rightarrow>
             (let addresses = fromkeys (map (takeWhile (\<lambda>c. c \<noteq> CHR ''%'')) answers)
              in if addresses = [] then Inl (Ssh_unresolved host)
                 else and_then (map_error (\<lambda>e. Ssh_answer_blocked host) (traverse (check_ssh_address mapped) addresses))
                        (\<lambda>_. Inr (hd addresses))))"


subsection \<open>Which addresses are left\<close>

definition host_addresses :: "(string \<Rightarrow> string option list option) \<Rightarrow> string \<Rightarrow> ip list" where
  \<comment> \<open>where a connection to the host goes\<close>
  "host_addresses getaddrinfo h =
     (case ip_address h of
        Some ip \<Rightarrow> [ip]
      | None \<Rightarrow> (case getaddrinfo h of None \<Rightarrow> [] | Some answers \<Rightarrow> List.map_filter ip_address (List.map_filter id answers)))"

lemma mapped_is_reserved: "a div 2 ^ 32 = 0xFFFF \<Longrightarrow> class6 Reserved a"
proof -
  assume "a div 2 ^ 32 = 0xFFFF"
  then have "a div 2 ^ 32 div 2 ^ 88 = 0" by simp
  then have "a div 2 ^ 120 = 0" by (simp add: zdiv_zmult2_eq [symmetric])
  then show ?thesis by (simp add: reserved_networks6_def in_net_def)
qed

lemma unmap_class:
  "has_class mapped c (unmap ip) \<longleftrightarrow>
     (case ipv4_mapped ip of Some b \<Rightarrow> class4 c b | None \<Rightarrow> has_class mapped c ip)"
  by (cases ip) (auto simp: unmap_def split: option.splits)

lemma not_blocked_unmap:
  assumes "\<not> has_class mapped Reserved ip" "\<not> has_class mapped c ip"
  shows "\<not> has_class any c (unmap ip)"
proof (cases ip)
  case (IPv4 a)
  then show ?thesis using assms by (simp add: unmap_def)
next
  case (IPv6 a z)
  then show ?thesis using assms mapped_is_reserved [of a] by (auto simp: unmap_class split: if_splits)
qed

lemma resolved_addresses:
  assumes "resolve_host_ips getaddrinfo h = Inr ips" "ip_address h = None"
  shows "set ips = set (host_addresses getaddrinfo h)" "ips \<noteq> []"
proof -
  obtain answers where g: "getaddrinfo h = Some answers" using assms(1) by (auto simp: resolve_host_ips_def split: option.splits)
  define f where "f = (\<lambda>a. case ip_address a of None \<Rightarrow> Inl Host_bad_answer | Some ip \<Rightarrow> Inr ip)"
  have t: "List.map_filter ip_address as = js" if "traverse f as = Inr js" for as js
    using that by (induction as arbitrary: js) (auto simp: f_def and_then_Inr List.map_filter_def split: option.splits)
  show "set ips = set (host_addresses getaddrinfo h)" "ips \<noteq> []"
    using assms g t by (auto simp: resolve_host_ips_def host_addresses_def and_then_Inr f_def [symmetric] split: if_splits)
      (auto simp: fromkeys_def)
qed

lemma accepted_cases:
  assumes "validate_vcenter_host mapped bracketed_ok getaddrinfo suffixes resolve_dns host = Inr h"
  shows "normalize_host bracketed_ok host = Inr h" "py_lower h \<notin> set BLOCKED_HOSTNAMES" "\<not> endswith (py_lower h) ''.localhost''"
    "(\<exists>ip. ip_address h = Some ip \<and> suffixes = [] \<and> \<not> is_blocked_ip mapped ip)
     \<or> ip_address h = None \<and> hostname_re h \<and> hostname_allowed_by_suffix h suffixes
        \<and> (resolve_dns \<longrightarrow> (\<exists>ips. resolve_host_ips getaddrinfo h = Inr ips \<and> \<not> list_ex (is_blocked_resolution mapped suffixes) ips))"
  using assms by (auto simp: validate_vcenter_host_def and_then_Inr split: if_splits option.splits)

lemma accepted_addresses:
  assumes "validate_vcenter_host mapped bracketed_ok getaddrinfo suffixes True host = Inr h"
  shows "host_addresses getaddrinfo h \<noteq> []" "ip \<in> set (host_addresses getaddrinfo h) \<Longrightarrow> \<not> is_blocked_resolution mapped suffixes ip"
proof -
  have "host_addresses getaddrinfo h \<noteq> [] \<and> (ip \<in> set (host_addresses getaddrinfo h) \<longrightarrow> \<not> is_blocked_resolution mapped suffixes ip)"
    using accepted_cases(4) [OF assms]
  proof (elim disjE exE conjE)
    fix a assume "ip_address h = Some a" "suffixes = []" "\<not> is_blocked_ip mapped a"
    then show ?thesis by (simp add: host_addresses_def is_blocked_resolution_def)
  next
    assume n: "ip_address h = None" and r: "True \<longrightarrow> (\<exists>ips. resolve_host_ips getaddrinfo h = Inr ips \<and> \<not> list_ex (is_blocked_resolution mapped suffixes) ips)"
    then obtain ips where i: "resolve_host_ips getaddrinfo h = Inr ips" "\<not> list_ex (is_blocked_resolution mapped suffixes) ips" by blast
    then show ?thesis using resolved_addresses [OF i(1) n] by (auto simp: list_ex_iff)
  qed
  then show "host_addresses getaddrinfo h \<noteq> []" "ip \<in> set (host_addresses getaddrinfo h) \<Longrightarrow> \<not> is_blocked_resolution mapped suffixes ip"
    by auto
qed


definition sample_dns :: "string \<Rightarrow> string option list option" where
  "sample_dns h = (if h = ''vc.corp.example'' then Some [Some ''10.0.0.5'', None, Some ''fd12::5'']
     else if h = ''rebind.example'' then Some [Some ''203.0.114.9'', Some ''::ffff:127.0.0.1''] else None)"


lemma validate_samples:
  "validate_vcenter_host True (\<lambda>_. True) sample_dns [] True ''vc.corp.example'' = Inl Host_blocked_resolution"
  "validate_vcenter_host True (\<lambda>_. True) sample_dns [] True ''rebind.example'' = Inl Host_blocked_resolution"
  "validate_vcenter_host False (\<lambda>_. True) sample_dns [''example''] True ''rebind.example'' = Inl Host_blocked_resolution"
  "validate_vcenter_host True (\<lambda>_. True) sample_dns [''corp.example''] True ''evilcorp.example'' = Inl Host_not_allowed"
  "validate_vcenter_host True (\<lambda>_. True) sample_dns [] True ''LocalHost'' = Inl Host_blocked_name"
  "validate_vcenter_host True (\<lambda>_. True) sample_dns [] True ''8.8.8.8/x'' = Inl Host_has_path"
  by code_simp+


text \<open>
  With a list of allowed suffixes, an accepted host is a name, and it is one of the suffixes or
  a name below one: the suffix starts at a label of the name.
\<close>
theorem accepted_host_has_suffix:
  assumes "validate_vcenter_host mapped bracketed_ok getaddrinfo suffixes resolve_dns host = Inr h" "suffixes \<noteq> []"
  shows "ip_address h = None
    \<and> (\<exists>suffix\<in>set suffixes. \<exists>p. py_lower h = p @ lstrip_by (\<lambda>c. c = CHR ''.'') (py_lower suffix) \<and> (p = [] \<or> last p = CHR ''.''))"
proof -
  have h: "ip_address h = None" "hostname_allowed_by_suffix h suffixes" using accepted_cases(4) [OF assms(1)] assms(2) by auto
  have e: "\<exists>p. s = p @ t \<and> last p = CHR ''.''" if "endswith s (''.'' @ t)" for s t :: string
  proof -
    have "s = take (length s - length (''.'' @ t)) s @ ''.'' @ t"
      using that unfolding endswith_def by (metis append_take_drop_id)
    then show ?thesis by (metis append.assoc last_snoc)
  qed
  show ?thesis using h assms(2) e by (fastforce simp: hostname_allowed_by_suffix_def list_ex_iff Let_def)
qed

lemma accepted_host_has_suffix_witness:
  "ip_address ''vc.corp.example'' = None
    \<and> (\<exists>suffix\<in>set [''.Corp.example'']. \<exists>p. py_lower ''vc.corp.example'' = p @ lstrip_by (\<lambda>c. c = CHR ''.'') (py_lower suffix)
          \<and> (p = [] \<or> last p = CHR ''.''))"
proof (rule accepted_host_has_suffix)
  show "validate_vcenter_host True (\<lambda>_. True) sample_dns [''.Corp.example''] False ''vc.corp.example'' = Inr ''vc.corp.example''"
    by code_simp
qed simp

subsection \<open>The accepted value\<close>

lemma rstrip_by_ends: "s \<noteq> [] \<Longrightarrow> rstrip_by p s = s \<longleftrightarrow> \<not> p (last s)"
proof -
  assume "s \<noteq> []"
  then obtain t c where s: "s = t @ [c]" by (metis rev_exhaust)
  have "length (dropWhile p (rev t)) \<le> length t" using length_dropWhile_le [of p "rev t"] by simp
  then have "length (rev (dropWhile p (rev t))) \<noteq> length (t @ [c])" by simp
  then have "rev (dropWhile p (rev t)) \<noteq> t @ [c]" by metis
  then show ?thesis using s by (simp add: rstrip_by_def)
qed

lemma last_rstrip_by: "rstrip_by p s \<noteq> [] \<Longrightarrow> \<not> p (last (rstrip_by p s))"
  unfolding rstrip_by_def by (simp add: last_rev hd_dropWhile)

lemma py_strip_id: "s \<noteq> [] \<Longrightarrow> \<not> py_isspace_char (hd s) \<Longrightarrow> \<not> py_isspace_char (last s) \<Longrightarrow> py_strip s = s"
  by (cases s) (simp_all add: py_strip_def lstrip_by_def rstrip_by_ends)

lemma split_on_chars: "x \<in> set s \<Longrightarrow> x = c \<or> (\<exists>p\<in>set (split_on c s). x \<in> set p)"
proof (induction s)
  case (Cons a s)
  then show ?case by (cases "a = c"; cases "split_on c s") auto
qed simp

definition host_char :: "char \<Rightarrow> bool" where
  "host_char c = (is_label_char c \<or> c = CHR ''.'')"

lemma hostname_chars:
  assumes "hostname_re h" "code (last h) \<noteq> 10"
  shows "h \<noteq> []" "list_all host_char h"
proof -
  have l: "h \<noteq> []" "list_all host_label_ok (split_on (CHR ''.'') h)" using assms by (auto simp: hostname_re_def Let_def split: if_splits)
  show "h \<noteq> []" by (rule l(1))
  show "list_all host_char h"
    unfolding list_all_iff host_char_def
  proof
    fix x assume "x \<in> set h"
    with split_on_chars have "x = CHR ''.'' \<or> (\<exists>p\<in>set (split_on (CHR ''.'') h). x \<in> set p)" by fast
    then show "is_label_char x \<or> x = CHR ''.''" using l(2) by (auto simp: list_all_iff host_label_ok_def)
  qed
qed

lemma host_char_plain: "host_char c \<Longrightarrow> \<not> py_isspace_char c \<and> c \<noteq> CHR ''/'' \<and> c \<noteq> CHR ''?'' \<and> c \<noteq> CHR ''#'' \<and> c \<noteq> CHR '':'' \<and> c \<noteq> CHR ''@''"
  by (auto simp: host_char_def is_label_char_def is_ascii_alpha_def is_decimal_char_def py_isspace_char_def code_def Let_def)

lemma normalize_name:
  assumes "h \<noteq> []" "list_all host_char h"
  shows "normalize_host bracketed_ok h = Inr h"
proof -
  have c: "host_char x" if "x \<in> set h" for x using assms(2) that by (simp add: list_all_iff)
  have "\<not> py_isspace_char (hd h)" "\<not> py_isspace_char (last h)" using assms(1) c host_char_plain by force+
  then have strip: "py_strip h = h" using assms(1) by (simp add: py_strip_id)
  have "CHR ''/'' \<notin> set h" "CHR ''?'' \<notin> set h" "CHR ''#'' \<notin> set h" "CHR '':'' \<notin> set h" using c host_char_plain by blast+
  moreover have "\<not> contains h ''://''" using calculation by (auto simp: contains_iff)
  ultimately show ?thesis using assms(1) strip by (simp add: normalize_host_def Let_def)
qed

lemma set_tl_subset: "set (tl xs) \<subseteq> set xs"
  by (cases xs) auto

lemma set_cut_at: "set (fst (cut_at c s)) \<subseteq> set s" "set (snd (cut_at c s)) \<subseteq> set s"
  using set_tl_subset [of "dropWhile (\<lambda>x. x \<noteq> c) s"] by (auto simp: cut_at_def dest: set_takeWhileD set_dropWhileD)

lemma set_host_port: "set (fst (host_port u)) \<subseteq> set (up_netloc u)"
proof -
  have a: "set (after_last (CHR ''@'') (up_netloc u)) \<subseteq> set (up_netloc u)"
    by (auto simp: after_last_def dest: set_takeWhileD)
  show ?thesis
    unfolding host_port_def Let_def
    by (auto split: prod.splits dest!: set_cut_at [THEN subsetD] intro!: a [THEN subsetD] dest: arg_cong [of _ _ fst]
          intro: set_cut_at [THEN subsetD])
qed

lemma set_split_scheme: "set (snd (split_scheme s)) \<subseteq> set s"
  by (auto simp: split_scheme_def Let_def dest: in_set_dropD)

lemma set_netloc: "urlsplit bracketed_ok v = Some u \<Longrightarrow> set (up_netloc u) \<subseteq> set (clean_url v)"
proof -
  assume u: "urlsplit bracketed_ok v = Some u"
  obtain scheme rest where sr: "split_scheme (clean_url v) = (scheme, rest)" by fastforce
  have "up_netloc u = (if startswith rest ''//'' then takeWhile (\<lambda>c. c \<notin> set ''/?#'') (drop 2 rest) else [])"
    using u sr by (auto simp: urlsplit_def Let_def split: prod.splits if_splits)
  then have "set (up_netloc u) \<subseteq> set rest" by (auto dest!: set_takeWhileD in_set_dropD)
  then show ?thesis using set_split_scheme [of "clean_url v"] sr by auto
qed

lemma hostname_char:
  assumes "urlsplit bracketed_ok v = Some u" "hostname u = Some h" "x \<in> set h"
  shows "code x \<noteq> 10"
proof -
  have l: "code y \<noteq> 10 \<Longrightarrow> code (py_lower_char y) \<noteq> 10" for y
    by (simp add: py_lower_char_def code_def Let_def)
  have "\<exists>y\<in>set (fst (host_port u)). x = y \<or> x = py_lower_char y"
    using assms(2,3) by (auto simp: hostname_def Let_def py_lower_def split: if_splits dest!: set_takeWhileD set_dropWhileD)
  then obtain y where "y \<in> set (clean_url v)" "x = y \<or> x = py_lower_char y"
    using set_host_port set_netloc [OF assms(1)] by blast
  then show ?thesis using l by (auto simp: clean_url_def)
qed


lemma normalized_last:
  assumes "normalize_host bracketed_ok host = Inr h"
  shows "h \<noteq> [] \<and> code (last h) \<noteq> 10"
proof -
  have strip: "code (last (py_strip host)) \<noteq> 10" if "py_strip host \<noteq> []"
    using last_rstrip_by [of py_isspace_char "lstrip_by py_isspace_char host"] that
    by (auto simp: py_strip_def py_isspace_char_def Let_def)
  have url: "h \<noteq> [] \<and> code (last h) \<noteq> 10" if "urlsplit bracketed_ok v = Some u" "hostname u = Some h" for v u
  proof -
    let ?h = "fst (host_port u)"
    have "h = py_lower (takeWhile (\<lambda>c. c \<noteq> CHR ''%'') ?h) @ dropWhile (\<lambda>c. c \<noteq> CHR ''%'') ?h" and ne: "?h \<noteq> []"
      using that(2) by (auto simp: hostname_def Let_def split: if_splits)
    then have "length h = length ?h" by (metis length_append length_py_lower takeWhile_dropWhile_id)
    then have "h \<noteq> []" using ne by auto
    then show ?thesis using hostname_char [OF that, of "last h"] by simp
  qed
  show ?thesis using assms strip url by (auto simp: normalize_host_def Let_def split: if_splits option.splits)
qed

text \<open>
  The accepted value of a name is a plain host name (letters, digits, hyphens and dots), so it can
  be put in a URL, and the program may check it again: the stored host passes the test it
  passed and comes out unchanged.
\<close>
theorem accepted_name_is_stable:
  assumes "validate_vcenter_host mapped bracketed_ok getaddrinfo suffixes resolve_dns host = Inr h" "ip_address h = None"
  shows "list_all host_char h \<and> validate_vcenter_host mapped bracketed_ok getaddrinfo suffixes resolve_dns h = Inr h"
proof -
  note c = accepted_cases [OF assms(1)]
  have h: "h \<noteq> []" "list_all host_char h" using hostname_chars normalized_last [OF c(1)] c(4) assms(2) by auto
  then have "normalize_host bracketed_ok h = Inr h" by (rule normalize_name)
  then show ?thesis using assms(1) c(1) h(2) by (simp add: validate_vcenter_host_def)
qed

lemma accepted_name_is_stable_witness:
  "list_all host_char ''vc.corp.example''
    \<and> validate_vcenter_host True (\<lambda>_. True) sample_dns [''example''] True ''vc.corp.example'' = Inr ''vc.corp.example''"
proof (rule accepted_name_is_stable)
  show "validate_vcenter_host True (\<lambda>_. True) sample_dns [''example''] True ''https://VC.corp.example:8443/sdk'' = Inr ''vc.corp.example''"
    by code_simp
  show "ip_address ''vc.corp.example'' = None" by code_simp
qed

subsection \<open>SSH addresses\<close>

lemma blocked_reason_None:
  assumes "blocked_reason mapped ip = None" "c \<noteq> Private"
  shows "\<not> has_class mapped c (unmap ip)" "unmap ip \<noteq> IPv6 (v6 [0xFD00, 0xEC2] + 0x254) None"
proof -
  show u: "unmap ip \<noteq> IPv6 (v6 [0xFD00, 0xEC2] + 0x254) None" using assms(1) by (auto simp: blocked_reason_def Let_def)
  have "find (\<lambda>c. has_class mapped c (unmap ip)) [Loopback, Link_local, Multicast, Unspecified, Reserved] = None"
    using assms(1) u by (simp add: blocked_reason_def Let_def)
  then show "\<not> has_class mapped c (unmap ip)" using assms(2) by (cases c) (auto split: if_splits)
qed

lemma check_ssh_address_Inr: "check_ssh_address mapped a = Inr b \<longleftrightarrow> b = a \<and> (\<exists>ip. ip_address a = Some ip \<and> blocked_reason mapped ip = None)"
  by (auto simp: check_ssh_address_def split: option.splits)

lemma traverse_all: "traverse f xs = Inr ys \<Longrightarrow> x \<in> set xs \<Longrightarrow> \<exists>y. f x = Inr y"
  by (induction xs arbitrary: ys) (auto simp: and_then_Inr)

lemma fromkeys_Nil [simp]: "fromkeys xs = [] \<longleftrightarrow> xs = []"
  by (simp add: fromkeys_def)


definition sample_ssh_dns :: "string \<Rightarrow> int \<Rightarrow> string list option" where
  "sample_ssh_dns h p = (if h = ''esx1.lab'' then Some [''10.0.0.7'', ''fd12::7'']
     else if h = ''mixed.lab'' then Some [''10.0.0.7'', ''169.254.169.254''] else None)"


text \<open>One answer that is not allowed refuses the name, whatever the other answers are and wherever it stands.\<close>
theorem one_bad_answer_refuses:
  assumes "getaddrinfo host port = Some answers" "answer \<in> set answers"
    "ip_address (takeWhile (\<lambda>c. c \<noteq> CHR ''%'') answer) = Some ip" "blocked_reason mapped ip \<noteq> None"
    "ip_address host = None" "\<not> startswith host ''[''"
  shows "resolve_ssh_address mapped getaddrinfo host port = Inl (Ssh_answer_blocked host)"
proof -
  let ?as = "fromkeys (map (takeWhile (\<lambda>c. c \<noteq> CHR ''%'')) answers)"
  have "\<exists>e. traverse (check_ssh_address mapped) ?as = Inl e"
  proof (rule ccontr)
    assume "\<nexists>e. traverse (check_ssh_address mapped) ?as = Inl e"
    then obtain ys where "traverse (check_ssh_address mapped) ?as = Inr ys" by (cases "traverse (check_ssh_address mapped) ?as") auto
    then have "\<exists>b. check_ssh_address mapped (takeWhile (\<lambda>c. c \<noteq> CHR ''%'') answer) = Inr b"
      by (rule traverse_all) (use assms(2) in simp)
    then show False using assms(3,4) by (auto simp: check_ssh_address_Inr)
  qed
  then obtain e where e: "traverse (check_ssh_address mapped) ?as = Inl e" by blast
  have "answers \<noteq> []" using assms(2) by auto
  then show ?thesis using assms(1,5,6) e by (simp add: resolve_ssh_address_def Let_def map_error_def)
qed

lemma one_bad_answer_refuses_witness:
  "resolve_ssh_address True sample_ssh_dns ''mixed.lab'' 22 = Inl (Ssh_answer_blocked ''mixed.lab'')"
proof (rule one_bad_answer_refuses)
  show "sample_ssh_dns ''mixed.lab'' 22 = Some [''10.0.0.7'', ''169.254.169.254'']" by code_simp
  show "''169.254.169.254'' \<in> set [''10.0.0.7'', ''169.254.169.254'']" by simp
  show "ip_address (takeWhile (\<lambda>c. c \<noteq> CHR ''%'') ''169.254.169.254'') = Some (IPv4 (v4 169 254 169 254))" by code_simp
  show "blocked_reason True (IPv4 (v4 169 254 169 254)) \<noteq> None" by code_simp
  show "ip_address ''mixed.lab'' = None" by code_simp
  show "\<not> startswith ''mixed.lab'' ''[''" by code_simp
qed

text \<open>
  The metadata address of IPv6 is refused, but with a zone it is not: the comparison is between
  addresses, and an address with a zone is a different one.
\<close>
theorem metadata_with_zone_passes:
  "check_ssh_address True ''fd00:ec2::254'' = Inl (Address_blocked Cloud_metadata)
    \<and> resolve_ssh_address True (\<lambda>_ _. None) ''fd00:ec2::254%1'' 22 = Inr ''fd00:ec2::254%1''"
  by (rule conjI; code_simp)

end
