(* ===== verification/SshConnections.thy ===== *)
theory SshConnections
  imports Wire HostCheck
begin

section \<open>Managed SSH connections (services/ssh\_management.py, the SSH routes of api/routes/plugin\_setup.py)\<close>

text \<open>
  Keys and connections that administrators register, the host key of a connection from the probe to the approval, the
  references from a configuration to connections and the files a worker gets. What the code takes
  from outside (name resolution, the host key a server presents, fingerprints, key generation, whether a
  running or saved configuration uses a connection) are parameters; new row ids too.
\<close>

record ssh_credential =
  sc_id :: uuid
  sc_name :: string
  sc_private :: string
  sc_public :: string

record ssh_connection =
  cn_id :: uuid
  cn_name :: string
  cn_host :: string
  cn_port :: int
  cn_username :: string
  cn_credential :: uuid
  cn_candidate :: "string option"
  cn_approved :: "string option"
  cn_revision :: int

record ssh_db =
  credentials :: "ssh_credential list"
  connections :: "ssh_connection list"

record ssh_settings =
  ss_has_secret_key :: bool
  ss_allowed_ports :: "int list"
  ss_host_suffixes :: "string list"

record ssh_env =
  se_mapped :: bool
  se_bracketed_ok :: "string \<Rightarrow> bool"
  se_ip_str :: "ip \<Rightarrow> string" \<comment> \<open>\<open>str(address)\<close>\<close>
  se_getaddrinfo :: "string \<Rightarrow> int \<Rightarrow> string list option" \<comment> \<open>none: it fails or takes too long\<close>
  se_host_key :: "string \<Rightarrow> int \<Rightarrow> string option" \<comment> \<open>the key of the server at an address, as \<open>export_public_key\<close> writes it\<close>
  se_fingerprint :: "string \<Rightarrow> string"
  se_import_key :: "string option \<Rightarrow> (string \<times> string) option" \<comment> \<open>private and public part of an uploaded or new key\<close>
  se_in_use :: "uuid \<Rightarrow> bool" \<comment> \<open>whether an enabled collector refers to the connection (\<open>ensure_not_active\<close>)\<close>

record connection_input =
  ci_name :: string
  ci_host :: string
  ci_port :: int
  ci_username :: string
  ci_credential :: uuid

record connection_read =
  cr_connection :: ssh_connection \<comment> \<open>without its keys\<close>
  cr_approved :: bool
  cr_fingerprint :: "string option"
  cr_candidate_fingerprint :: "string option"

definition present :: "string option \<Rightarrow> bool" where
  \<comment> \<open>\<open>bool(key)\<close>\<close>
  "present k = (k \<noteq> None \<and> k \<noteq> Some [])"

definition get_credential :: "ssh_db \<Rightarrow> uuid \<Rightarrow> ssh_credential option" where
  "get_credential db i = find (\<lambda>c. sc_id c = i) (credentials db)"

definition get_connection :: "ssh_db \<Rightarrow> uuid \<Rightarrow> ssh_connection option" where
  "get_connection db i = find (\<lambda>c. cn_id c = i) (connections db)"

definition put_connection :: "ssh_connection \<Rightarrow> ssh_db \<Rightarrow> ssh_db" where
  "put_connection c db = db\<lparr>connections := map (\<lambda>x. if cn_id x = cn_id c then c else x) (connections db)\<rparr>"

subsection \<open>Keys\<close>

definition utf8_length :: "string \<Rightarrow> nat" where
  \<comment> \<open>\<open>len(s.encode())\<close>\<close>
  "utf8_length s = sum_list (map (\<lambda>c. if code c < 128 then 1 else 2) s)"

definition create_credential ::
  "ssh_env \<Rightarrow> ssh_settings \<Rightarrow> string \<Rightarrow> string option \<Rightarrow> uuid \<Rightarrow> ssh_db \<Rightarrow> http_error + (uuid \<times> string \<times> string) \<times> ssh_db" where
  "create_credential e s name private_key new_id db =
     (if \<not> ss_has_secret_key s then Inl (HttpError 422 ''secret_key'')
      else if (case private_key of None \<Rightarrow> False | Some k \<Rightarrow> 32768 < utf8_length k) then Inl (HttpError 422 ''private_key'')
      else (case se_import_key e private_key of
              None \<Rightarrow> Inl (HttpError 422 ''private_key'')
            | Some (private, public) \<Rightarrow>
                Inr ((new_id, name, public),
                  db\<lparr>credentials := credentials db @ [\<lparr>sc_id = new_id, sc_name = name, sc_private = private, sc_public = public\<rparr>]\<rparr>)))"

definition list_credentials :: "ssh_db \<Rightarrow> (uuid \<times> string \<times> string) list" where
  "list_credentials db = map (\<lambda>c. (sc_id c, sc_name c, sc_public c)) (credentials db)"

definition public_key :: "uuid \<Rightarrow> ssh_db \<Rightarrow> http_error + string" where
  "public_key i db = (case get_credential db i of None \<Rightarrow> Inl (HttpError 404 ''key'') | Some c \<Rightarrow> Inr (sc_public c))"

definition delete_credential :: "uuid \<Rightarrow> ssh_db \<Rightarrow> http_error + ssh_db" where
  "delete_credential i db =
     (if list_ex (\<lambda>c. cn_credential c = i) (connections db) then Inl (HttpError 409 ''key_in_use'')
      else if get_credential db i = None then Inl (HttpError 404 ''key'')
      else Inr (db\<lparr>credentials := filter (\<lambda>c. sc_id c \<noteq> i) (credentials db)\<rparr>))"

subsection \<open>Connections\<close>

definition read_connection :: "ssh_env \<Rightarrow> ssh_connection \<Rightarrow> connection_read" where
  \<comment> \<open>\<open>connection_read\<close>\<close>
  "read_connection e c =
     \<lparr>cr_connection = c\<lparr>cn_candidate := None, cn_approved := None\<rparr>, cr_approved = present (cn_approved c),
      cr_fingerprint = (if present (cn_approved c) then map_option (se_fingerprint e) (cn_approved c) else None),
      cr_candidate_fingerprint = (if present (cn_candidate c) then map_option (se_fingerprint e) (cn_candidate c) else None)\<rparr>"

definition list_connections :: "ssh_env \<Rightarrow> ssh_db \<Rightarrow> connection_read list" where
  "list_connections e db = map (read_connection e) (connections db)"

definition check_ssh_port :: "ssh_settings \<Rightarrow> int \<Rightarrow> http_error + unit" where
  "check_ssh_port s port = raise_when (ss_allowed_ports s \<noteq> [] \<and> port \<notin> set (ss_allowed_ports s)) (HttpError 422 ''port'')"

definition validate_host :: "ssh_env \<Rightarrow> ssh_settings \<Rightarrow> string \<Rightarrow> http_error + string" where
  "validate_host e s host =
     (let normalized = py_strip host
      in case ip_address normalized of
           None \<Rightarrow> map_error (\<lambda>_. HttpError 422 ''host'')
                     (validate_vcenter_host (se_mapped e) (se_bracketed_ok e) (\<lambda>_. None) (ss_host_suffixes s) False normalized)
         | Some address \<Rightarrow>
             map_error (\<lambda>_. HttpError 422 ''address'')
               (check_ssh_address (se_mapped e) (se_ip_str e address)))"

definition create_connection ::
  "ssh_env \<Rightarrow> ssh_settings \<Rightarrow> connection_input \<Rightarrow> uuid \<Rightarrow> ssh_db \<Rightarrow> http_error + connection_read \<times> ssh_db" where
  "create_connection e s body new_id db =
     (if get_credential db (ci_credential body) = None then Inl (HttpError 422 ''key'')
      else and_then (validate_host e s (ci_host body)) (\<lambda>host.
           and_then (check_ssh_port s (ci_port body)) (\<lambda>_.
             let row = \<lparr>cn_id = new_id, cn_name = ci_name body, cn_host = host, cn_port = ci_port body,
               cn_username = ci_username body, cn_credential = ci_credential body, cn_candidate = None, cn_approved = None,
               cn_revision = 1\<rparr>
             in Inr (read_connection e row, db\<lparr>connections := connections db @ [row]\<rparr>))))"

definition ensure_not_active :: "ssh_env \<Rightarrow> uuid \<Rightarrow> http_error + unit" where
  "ensure_not_active e i = raise_when (se_in_use e i) (HttpError 409 ''in_use'')"

definition find_connection :: "ssh_db \<Rightarrow> uuid \<Rightarrow> http_error + ssh_connection" where
  "find_connection db i = (case get_connection db i of None \<Rightarrow> Inl (HttpError 404 ''connection'') | Some c \<Rightarrow> Inr c)"

definition update_connection ::
  "ssh_env \<Rightarrow> ssh_settings \<Rightarrow> uuid \<Rightarrow> connection_input \<Rightarrow> ssh_db \<Rightarrow> http_error + connection_read \<times> ssh_db" where
  "update_connection e s i body db =
     and_then (ensure_not_active e i) (\<lambda>_.
     and_then (find_connection db i) (\<lambda>row.
       if get_credential db (ci_credential body) = None then Inl (HttpError 422 ''key'')
       else and_then (validate_host e s (ci_host body)) (\<lambda>host.
            and_then (check_ssh_port s (ci_port body)) (\<lambda>_.
              let row = (if (cn_host row, cn_port row) \<noteq> (host, ci_port body) then row\<lparr>cn_candidate := None, cn_approved := None\<rparr> else row);
                  row = row\<lparr>cn_name := ci_name body, cn_host := host, cn_port := ci_port body, cn_username := ci_username body,
                    cn_credential := ci_credential body, cn_revision := cn_revision row + 1\<rparr>
              in Inr (read_connection e row, put_connection row db)))))"

definition probe_host_key :: "ssh_env \<Rightarrow> ssh_settings \<Rightarrow> uuid \<Rightarrow> ssh_db \<Rightarrow> http_error + connection_read \<times> ssh_db" where
  "probe_host_key e s i db =
     and_then (find_connection db i) (\<lambda>row.
     and_then (check_ssh_port s (cn_port row)) (\<lambda>_.
     and_then (map_error (\<lambda>_. HttpError 422 ''resolution'')
         (resolve_ssh_address (se_mapped e) (se_getaddrinfo e) (cn_host row) (cn_port row))) (\<lambda>address.
       (case se_host_key e address (cn_port row) of
          None \<Rightarrow> Inl (HttpError 422 ''host_key'')
        | Some key \<Rightarrow>
            (let row = row\<lparr>cn_candidate := Some key, cn_revision := cn_revision row + 1\<rparr>
             in Inr (read_connection e row, put_connection row db))))))"

definition approve_host_key :: "ssh_env \<Rightarrow> uuid \<Rightarrow> string \<Rightarrow> int \<Rightarrow> ssh_db \<Rightarrow> http_error + connection_read \<times> ssh_db" where
  "approve_host_key e i fp revision db =
     and_then (find_connection db i) (\<lambda>row.
       if cn_revision row \<noteq> revision \<or> \<not> present (cn_candidate row) \<or> map_option (se_fingerprint e) (cn_candidate row) \<noteq> Some fp
       then Inl (HttpError 409 ''host_key'')
       else and_then (if cn_approved row \<noteq> cn_candidate row then ensure_not_active e i else Inr ()) (\<lambda>_.
              let row = row\<lparr>cn_approved := cn_candidate row, cn_revision := cn_revision row + 1\<rparr>
              in Inr (read_connection e row, put_connection row db)))"

subsection \<open>References from a configuration\<close>

definition jget :: "(string \<times> json) list \<Rightarrow> string \<Rightarrow> json" where
  \<comment> \<open>\<open>d.get(k)\<close>\<close>
  "jget d k = (case map_of d k of None \<Rightarrow> JNull | Some v \<Rightarrow> v)"

definition jtable :: "(string \<times> json) list \<Rightarrow> string \<Rightarrow> (string \<times> json) list" where
  \<comment> \<open>\<open>d.get(k, {})\<close> of a schema, where it is an object\<close>
  "jtable d k = (case jget d k of JObj t \<Rightarrow> t | _ \<Rightarrow> [])"

lemma map_of_size: "map_of d k = Some v \<Longrightarrow> size v < Suc (size_list (size_prod (\<lambda>_. 0) size) d)"
  by (induction d) (auto split: if_splits)

datatype config_error = Connection_missing | Not_approved | Bad_identifier | Port_refused | Key_missing

function (sequential) ssh_objects :: "(json \<Rightarrow> string) \<Rightarrow> bool \<Rightarrow> json \<Rightarrow> json \<Rightarrow> config_error + ((string \<times> json) list \<times> string) list" and
  ssh_properties :: "(json \<Rightarrow> string) \<Rightarrow> bool \<Rightarrow> (string \<times> json) list \<Rightarrow> (string \<times> json) list \<Rightarrow> config_error + ((string \<times> json) list \<times> string) list" and
  ssh_items :: "(json \<Rightarrow> string) \<Rightarrow> bool \<Rightarrow> json list \<Rightarrow> json \<Rightarrow> config_error + ((string \<times> json) list \<times> string) list" where
  \<comment> \<open>the objects that refer to a connection, with its id\<close>
  "ssh_objects repr required (JObj d) (JObj s) =
     (let field = jget s ''x-vea-ssh-connection'';
          chosen = (case field of JStr f \<Rightarrow> jget d f | _ \<Rightarrow> JNull);
          legacy = list_all (\<lambda>k. truthy (jget d k)) [''host'', ''username'', ''private_key_file'', ''known_hosts_file'']
      in if truthy field \<and> required \<and> \<not> truthy chosen \<and> \<not> legacy then Inl Connection_missing
         else and_then (ssh_properties repr required d (jtable s ''properties'')) (\<lambda>below.
                Inr ((if truthy field \<and> truthy chosen then [(d, str_of repr chosen)] else []) @ below)))"
| "ssh_objects repr required (JList xs) (JObj s) =
     ssh_items repr required xs (case map_of s ''items'' of None \<Rightarrow> JObj [] | Some c \<Rightarrow> c)"
| "ssh_objects repr required v s = Inr []"
| "ssh_properties repr required d [] = Inr []"
| "ssh_properties repr required d ((k, child) # ps) =
     (case map_of d k of
        None \<Rightarrow> ssh_properties repr required d ps
      | Some v \<Rightarrow> and_then (ssh_objects repr required v child) (\<lambda>a.
                  and_then (ssh_properties repr required d ps) (\<lambda>b. Inr (a @ b))))"
| "ssh_items repr required [] s = Inr []"
| "ssh_items repr required (x # xs) s =
     and_then (ssh_objects repr required x s) (\<lambda>a. and_then (ssh_items repr required xs s) (\<lambda>b. Inr (a @ b)))"
  by pat_completeness auto
termination
  by (relation "measures [\<lambda>p. case p of Inl (_, _, v, _) \<Rightarrow> 2 * size v + 1
        | Inr (Inl (_, _, d, _)) \<Rightarrow> 2 * size (JObj d) | Inr (Inr (_, _, xs, _)) \<Rightarrow> 2 * size (JList xs),
      \<lambda>p. case p of Inl _ \<Rightarrow> 0 | Inr (Inl (_, _, _, ps)) \<Rightarrow> length ps | Inr (Inr _) \<Rightarrow> 0]")
    (auto dest: map_of_size)

type_synonym reference = "uuid \<times> int \<times> string \<times> uuid"

definition reference_of :: "ssh_db \<Rightarrow> string \<Rightarrow> config_error + reference" where
  "reference_of db ident =
     (case uuid_parse ident of None \<Rightarrow> Inl Bad_identifier
      | Some i \<Rightarrow> (case get_connection db i of None \<Rightarrow> Inl Not_approved
          | Some c \<Rightarrow> (case cn_approved c of None \<Rightarrow> Inl Not_approved
              | Some key \<Rightarrow> if key = [] then Inl Not_approved else Inr (cn_id c, cn_revision c, key, cn_credential c))))"

definition config_references :: "(json \<Rightarrow> string) \<Rightarrow> ssh_db \<Rightarrow> json \<Rightarrow> json \<Rightarrow> config_error + reference list" where
  "config_references repr db config schema =
     and_then (ssh_objects repr True config schema) (traverse (\<lambda>(obj, ident). reference_of db ident))"

definition reference_digest ::
  "(json \<Rightarrow> string) \<Rightarrow> (json \<times> reference list \<Rightarrow> string) \<Rightarrow> ssh_db \<Rightarrow> json \<Rightarrow> json \<Rightarrow> config_error + string" where
  \<comment> \<open>\<open>hash\<close>: SHA-256 of the sorted JSON text\<close>
  "reference_digest repr hash db config schema =
     and_then (config_references repr db config schema) (\<lambda>refs. Inr (hash (config, refs)))"


subsection \<open>What a worker gets\<close>

record ssh_files =
  sf_connection :: ssh_connection
  sf_private_key :: string
  sf_known_hosts :: string

definition host_pattern :: "ssh_connection \<Rightarrow> string" where
  "host_pattern c = (if cn_port c = 22 then cn_host c else ''['' @ cn_host c @ '']:'' @ int_str (cn_port c))"

definition materialize_one :: "ssh_settings \<Rightarrow> ssh_db \<Rightarrow> string \<Rightarrow> config_error + ssh_files" where
  "materialize_one s db ident =
     (case uuid_parse ident of None \<Rightarrow> Inl Bad_identifier
      | Some i \<Rightarrow> (case get_connection db i of None \<Rightarrow> Inl Not_approved
          | Some c \<Rightarrow>
              if \<not> present (cn_approved c) then Inl Not_approved
              else if isl (check_ssh_port s (cn_port c)) then Inl Port_refused
              else (case get_credential db (cn_credential c) of None \<Rightarrow> Inl Key_missing
                  | Some k \<Rightarrow> Inr \<lparr>sf_connection = c, sf_private_key = sc_private k,
                      sf_known_hosts = host_pattern c @ '' '' @ py_strip (the (cn_approved c)) @ [char_of (10 :: nat)]\<rparr>)))"

definition for_target :: "uuid option \<Rightarrow> (string \<times> json) list \<Rightarrow> bool" where
  "for_target target obj =
     (case target of None \<Rightarrow> True | Some t \<Rightarrow> \<not> truthy (jget obj ''vcenter_id'') \<or> jget obj ''vcenter_id'' = JStr (uuid_str t))"

definition materialize_ssh ::
  "(json \<Rightarrow> string) \<Rightarrow> ssh_settings \<Rightarrow> ssh_db \<Rightarrow> json \<Rightarrow> json \<Rightarrow> uuid option \<Rightarrow> config_error + ssh_files list" where
  \<comment> \<open>the files written for the objects of the target, in their order\<close>
  "materialize_ssh repr s db config schema target =
     and_then (ssh_objects repr True config schema) (\<lambda>objs.
       traverse (\<lambda>(obj, ident). materialize_one s db ident) (filter (\<lambda>(obj, ident). for_target target obj) objs))"

subsection \<open>Every history of requests\<close>

definition presented :: "ssh_env \<Rightarrow> string \<Rightarrow> int \<Rightarrow> string option" where
  \<comment> \<open>the key that the server presents at a checked address of the host\<close>
  "presented e host port =
     (case resolve_ssh_address (se_mapped e) (se_getaddrinfo e) host port of Inl _ \<Rightarrow> None | Inr a \<Rightarrow> se_host_key e a port)"

record ssh_history =
  hy_db :: ssh_db
  hy_presented :: "(string \<times> int \<times> string) set" \<comment> \<open>host, port and the key that was presented there\<close>
  hy_confirmed :: "(string \<times> int \<times> string) set" \<comment> \<open>host, port and the fingerprint an administrator confirmed\<close>

inductive ssh_step :: "(string \<Rightarrow> string) \<Rightarrow> ssh_history \<Rightarrow> ssh_history \<Rightarrow> bool" for F where
  create_key: "create_credential e s name k i (hy_db h) = Inr (r, db) \<Longrightarrow> ssh_step F h (h\<lparr>hy_db := db\<rparr>)"
| delete_key: "delete_credential i (hy_db h) = Inr db \<Longrightarrow> ssh_step F h (h\<lparr>hy_db := db\<rparr>)"
| create: "create_connection e s body i (hy_db h) = Inr (r, db) \<Longrightarrow> ssh_step F h (h\<lparr>hy_db := db\<rparr>)"
| update: "update_connection e s i body (hy_db h) = Inr (r, db) \<Longrightarrow> ssh_step F h (h\<lparr>hy_db := db\<rparr>)"
| probe: "probe_host_key e s i (hy_db h) = Inr (r, db) \<Longrightarrow> get_connection (hy_db h) i = Some c \<Longrightarrow>
    presented e (cn_host c) (cn_port c) = Some k \<Longrightarrow>
    ssh_step F h (h\<lparr>hy_db := db, hy_presented := insert (cn_host c, cn_port c, k) (hy_presented h)\<rparr>)"
| approve: "approve_host_key e i fp n (hy_db h) = Inr (r, db) \<Longrightarrow> se_fingerprint e = F \<Longrightarrow> get_connection (hy_db h) i = Some c \<Longrightarrow>
    ssh_step F h (h\<lparr>hy_db := db, hy_confirmed := insert (cn_host c, cn_port c, fp) (hy_confirmed h)\<rparr>)"

inductive ssh_reachable :: "(string \<Rightarrow> string) \<Rightarrow> ssh_history \<Rightarrow> bool" for F where
  start: "ssh_reachable F \<lparr>hy_db = \<lparr>credentials = [], connections = []\<rparr>, hy_presented = {}, hy_confirmed = {}\<rparr>"
| more: "ssh_reachable F h \<Longrightarrow> ssh_step F h h' \<Longrightarrow> ssh_reachable F h'"

lemma probe_defined:
  assumes "probe_host_key e s i db = Inr (r, db')"
  shows "\<exists>c k. get_connection db i = Some c \<and> presented e (cn_host c) (cn_port c) = Some k \<and>
    db' = put_connection (c\<lparr>cn_candidate := Some k, cn_revision := cn_revision c + 1\<rparr>) db"
  using assms by (auto simp: probe_host_key_def find_connection_def presented_def and_then_Inr Let_def split: option.splits sum.splits)

definition key_known :: "(string \<Rightarrow> string) \<Rightarrow> ssh_history \<Rightarrow> ssh_connection \<Rightarrow> bool" where
  "key_known F h c \<longleftrightarrow>
     (\<forall>k. cn_candidate c = Some k \<or> cn_approved c = Some k \<longrightarrow> (cn_host c, cn_port c, k) \<in> hy_presented h) \<and>
     (\<forall>k. cn_approved c = Some k \<longrightarrow> (cn_host c, cn_port c, F k) \<in> hy_confirmed h)"

definition keys_known :: "(string \<Rightarrow> string) \<Rightarrow> ssh_history \<Rightarrow> bool" where
  "keys_known F h \<longleftrightarrow> (\<forall>c\<in>set (connections (hy_db h)). key_known F h c)"

lemma keys_known_put:
  assumes "keys_known F h" "hy_presented h \<subseteq> P" "hy_confirmed h \<subseteq> C"
    "key_known F \<lparr>hy_db = db, hy_presented = P, hy_confirmed = C\<rparr> c" "db = put_connection c (hy_db h)"
  shows "keys_known F \<lparr>hy_db = db, hy_presented = P, hy_confirmed = C\<rparr>"
  using assms by (fastforce simp: keys_known_def key_known_def put_connection_def)

lemma get_connection_in: "get_connection db i = Some c \<Longrightarrow> c \<in> set (connections db) \<and> cn_id c = i"
  unfolding get_connection_def by (rule find_Some_iff_in)

lemma update_result:
  assumes "update_connection e s i body db = Inr (r, db')"
  shows "\<exists>c host. get_connection db i = Some c \<and> \<not> se_in_use e i \<and>
    db' = put_connection ((if (cn_host c, cn_port c) \<noteq> (host, ci_port body) then c\<lparr>cn_candidate := None, cn_approved := None\<rparr> else c)
      \<lparr>cn_name := ci_name body, cn_host := host, cn_port := ci_port body, cn_username := ci_username body,
       cn_credential := ci_credential body, cn_revision := cn_revision c + 1\<rparr>) db"
proof -
  obtain c host where c: "get_connection db i = Some c" "\<not> se_in_use e i" "validate_host e s (ci_host body) = Inr host"
    using assms by (auto simp: update_connection_def ensure_not_active_def find_connection_def and_then_Inr split: option.splits if_splits)
  then have "db' = put_connection ((if (cn_host c, cn_port c) \<noteq> (host, ci_port body) then c\<lparr>cn_candidate := None, cn_approved := None\<rparr> else c)
      \<lparr>cn_name := ci_name body, cn_host := host, cn_port := ci_port body, cn_username := ci_username body,
       cn_credential := ci_credential body, cn_revision := cn_revision c + 1\<rparr>) db"
    using assms by (auto simp: update_connection_def ensure_not_active_def find_connection_def and_then_Inr Let_def split: if_splits)
  then show ?thesis using c by blast
qed

lemma approve_result:
  assumes "approve_host_key e i fp n db = Inr (r, db')"
  shows "\<exists>c k. get_connection db i = Some c \<and> cn_revision c = n \<and> cn_candidate c = Some k \<and> se_fingerprint e k = fp \<and>
    (cn_approved c \<noteq> Some k \<longrightarrow> \<not> se_in_use e i) \<and>
    db' = put_connection (c\<lparr>cn_approved := Some k, cn_revision := cn_revision c + 1\<rparr>) db"
  using assms
  by (auto simp: approve_host_key_def ensure_not_active_def find_connection_def and_then_Inr Let_def split: option.splits if_splits)

lemma step_keys_known:
  assumes "ssh_step F h h'" "keys_known F h"
  shows "keys_known F h'"
  using assms(1)
proof cases
  case (create_key e s name k i r db)
  then show ?thesis using assms(2) by (auto simp: keys_known_def key_known_def create_credential_def split: option.splits if_splits)
next
  case (delete_key i db)
  then show ?thesis using assms(2) by (auto simp: keys_known_def key_known_def delete_credential_def split: if_splits)
next
  case (create e s body i r db)
  then have "\<exists>row. connections db = connections (hy_db h) @ [row] \<and> cn_candidate row = None \<and> cn_approved row = None"
    by (auto simp: create_connection_def and_then_Inr Let_def split: if_splits)
  then show ?thesis using create assms(2) by (auto simp: keys_known_def key_known_def)
next
  case (update e s i body r db)
  obtain c host where c: "get_connection (hy_db h) i = Some c"
    "db = put_connection ((if (cn_host c, cn_port c) \<noteq> (host, ci_port body) then c\<lparr>cn_candidate := None, cn_approved := None\<rparr> else c)
      \<lparr>cn_name := ci_name body, cn_host := host, cn_port := ci_port body, cn_username := ci_username body,
       cn_credential := ci_credential body, cn_revision := cn_revision c + 1\<rparr>) (hy_db h)"
    using update_result [OF update(2)] by blast
  have "key_known F h c" using assms(2) get_connection_in [OF c(1)] by (simp add: keys_known_def)
  then have "key_known F \<lparr>hy_db = db, hy_presented = hy_presented h, hy_confirmed = hy_confirmed h\<rparr>
      ((if (cn_host c, cn_port c) \<noteq> (host, ci_port body) then c\<lparr>cn_candidate := None, cn_approved := None\<rparr> else c)
      \<lparr>cn_name := ci_name body, cn_host := host, cn_port := ci_port body, cn_username := ci_username body,
       cn_credential := ci_credential body, cn_revision := cn_revision c + 1\<rparr>)"
    by (cases "(cn_host c, cn_port c) = (host, ci_port body)") (simp_all add: key_known_def)
  from keys_known_put [OF assms(2) order_refl order_refl this c(2)] show ?thesis using update(1) by (cases h) simp
next
  case (probe e s i r db c k)
  have db: "db = put_connection (c\<lparr>cn_candidate := Some k, cn_revision := cn_revision c + 1\<rparr>) (hy_db h)"
    using probe_defined [OF probe(2)] probe(3,4) by auto
  have "key_known F h c" using assms(2) get_connection_in [OF probe(3)] by (simp add: keys_known_def)
  then have "key_known F \<lparr>hy_db = db, hy_presented = insert (cn_host c, cn_port c, k) (hy_presented h), hy_confirmed = hy_confirmed h\<rparr>
      (c\<lparr>cn_candidate := Some k, cn_revision := cn_revision c + 1\<rparr>)" by (auto simp: key_known_def)
  from keys_known_put [OF assms(2) subset_insertI order_refl this db] show ?thesis using probe(1) by (cases h) simp
next
  case (approve e i fp n r db c)
  obtain k where k: "cn_candidate c = Some k" "F k = fp"
    "db = put_connection (c\<lparr>cn_approved := Some k, cn_revision := cn_revision c + 1\<rparr>) (hy_db h)"
    using approve_result [OF approve(2)] approve(3,4) by auto
  have "key_known F h c" using assms(2) get_connection_in [OF approve(4)] by (simp add: keys_known_def)
  then have "key_known F \<lparr>hy_db = db, hy_presented = hy_presented h, hy_confirmed = insert (cn_host c, cn_port c, fp) (hy_confirmed h)\<rparr>
      (c\<lparr>cn_approved := Some k, cn_revision := cn_revision c + 1\<rparr>)" using k(1,2) by (auto simp: key_known_def)
  from keys_known_put [OF assms(2) order_refl subset_insertI this k(3)] show ?thesis using approve(1) by (cases h) simp
qed

lemma reachable_keys_known: "ssh_reachable F h \<Longrightarrow> keys_known F h"
  by (induction rule: ssh_reachable.induct) (auto simp: step_keys_known, simp add: keys_known_def)



definition sample_fingerprint :: "string \<Rightarrow> string" where "sample_fingerprint k = ''SHA256:'' @ k"

definition sample_ssh :: ssh_env where
  "sample_ssh =
     \<lparr>se_mapped = True, se_bracketed_ok = (\<lambda>_. True), se_ip_str = (\<lambda>_. ''10.0.0.7''), se_getaddrinfo = sample_ssh_dns,
      se_host_key = (\<lambda>a p. if a = ''10.0.0.7'' then Some ''ssh-ed25519 AAAA'' else None), se_fingerprint = sample_fingerprint,
      se_import_key = (\<lambda>_. Some (''private'', ''public'')), se_in_use = (\<lambda>_. False)\<rparr>"

definition sample_ssh_settings :: ssh_settings where
  "sample_ssh_settings = \<lparr>ss_has_secret_key = True, ss_allowed_ports = [], ss_host_suffixes = []\<rparr>"

definition sample_input :: connection_input where
  "sample_input = \<lparr>ci_name = ''esx1'', ci_host = '' esx1.lab '', ci_port = 22, ci_username = ''root'', ci_credential = 1\<rparr>"

definition db_of :: "http_error + 'a \<times> ssh_db \<Rightarrow> ssh_db" where
  "db_of r = (case r of Inr (_, db) \<Rightarrow> db | Inl _ \<Rightarrow> \<lparr>credentials = [], connections = []\<rparr>)"

definition sample_db1 :: ssh_db where
  "sample_db1 = db_of (create_credential sample_ssh sample_ssh_settings ''k'' None 1 \<lparr>credentials = [], connections = []\<rparr>)"
definition sample_db2 :: ssh_db where
  "sample_db2 = db_of (create_connection sample_ssh sample_ssh_settings sample_input 2 sample_db1)"
definition sample_db3 :: ssh_db where
  "sample_db3 = db_of (probe_host_key sample_ssh sample_ssh_settings 2 sample_db2)"
definition sample_db4 :: ssh_db where
  "sample_db4 = db_of (approve_host_key sample_ssh 2 ''SHA256:ssh-ed25519 AAAA'' 2 sample_db3)"

definition sample_row :: "string option \<Rightarrow> string option \<Rightarrow> int \<Rightarrow> ssh_connection" where
  "sample_row candidate approved n =
     \<lparr>cn_id = 2, cn_name = ''esx1'', cn_host = ''esx1.lab'', cn_port = 22, cn_username = ''root'', cn_credential = 1,
      cn_candidate = candidate, cn_approved = approved, cn_revision = n\<rparr>"

lemma not_isl_db: "\<not> isl r \<Longrightarrow> r = Inr (fst (projr r), db_of r)"
  by (cases r) (auto simp: db_of_def)

lemma sample_ssh_steps:
  "create_credential sample_ssh sample_ssh_settings ''k'' None 1 \<lparr>credentials = [], connections = []\<rparr>
     = Inr (fst (projr (create_credential sample_ssh sample_ssh_settings ''k'' None 1 \<lparr>credentials = [], connections = []\<rparr>)), sample_db1)"
  "create_connection sample_ssh sample_ssh_settings sample_input 2 sample_db1
     = Inr (fst (projr (create_connection sample_ssh sample_ssh_settings sample_input 2 sample_db1)), sample_db2)"
  "probe_host_key sample_ssh sample_ssh_settings 2 sample_db2
     = Inr (fst (projr (probe_host_key sample_ssh sample_ssh_settings 2 sample_db2)), sample_db3)"
  "approve_host_key sample_ssh 2 ''SHA256:ssh-ed25519 AAAA'' 2 sample_db3
     = Inr (fst (projr (approve_host_key sample_ssh 2 ''SHA256:ssh-ed25519 AAAA'' 2 sample_db3)), sample_db4)"
  unfolding sample_db1_def sample_db2_def sample_db3_def sample_db4_def by (rule not_isl_db; code_simp)+

lemma sample_rows:
  "get_connection sample_db2 2 = Some (sample_row None None 1)"
  "get_connection sample_db3 2 = Some (sample_row (Some ''ssh-ed25519 AAAA'') None 2)"
  "get_connection sample_db4 2 = Some (sample_row (Some ''ssh-ed25519 AAAA'') (Some ''ssh-ed25519 AAAA'') 3)"
  by code_simp+

definition sample_history :: ssh_history where
  "sample_history = \<lparr>hy_db = sample_db4, hy_presented = {(''esx1.lab'', 22, ''ssh-ed25519 AAAA'')},
     hy_confirmed = {(''esx1.lab'', 22, ''SHA256:ssh-ed25519 AAAA'')}\<rparr>"

lemma sample_reachable: "ssh_reachable sample_fingerprint sample_history"
proof -
  let ?h = "\<lambda>db P C. \<lparr>hy_db = db, hy_presented = P, hy_confirmed = C\<rparr>"
  note start = ssh_reachable.start [of sample_fingerprint]
  have 1: "ssh_reachable sample_fingerprint (?h sample_db1 {} {})"
    using ssh_reachable.more [OF start ssh_step.create_key] sample_ssh_steps(1) by (metis ssh_history.select_convs(1) ssh_history.update_convs(1))
  have 2: "ssh_reachable sample_fingerprint (?h sample_db2 {} {})"
    using ssh_reachable.more [OF 1 ssh_step.create] sample_ssh_steps(2) by (metis ssh_history.select_convs(1) ssh_history.update_convs(1))
  have p: "presented sample_ssh ''esx1.lab'' 22 = Some ''ssh-ed25519 AAAA''" by code_simp
  have p': "presented sample_ssh (cn_host (sample_row None None 1)) (cn_port (sample_row None None 1)) = Some ''ssh-ed25519 AAAA''"
    using p by (simp add: sample_row_def)
  have "ssh_reachable sample_fingerprint ((?h sample_db2 {} {})\<lparr>hy_db := sample_db3, hy_presented :=
      insert (cn_host (sample_row None None 1), cn_port (sample_row None None 1), ''ssh-ed25519 AAAA'') (hy_presented (?h sample_db2 {} {}))\<rparr>)"
    by (rule ssh_reachable.more [OF 2 ssh_step.probe], unfold ssh_history.select_convs, rule sample_ssh_steps(3), rule sample_rows(1), rule p')
  then have 3: "ssh_reachable sample_fingerprint (?h sample_db3 {(''esx1.lab'', 22, ''ssh-ed25519 AAAA'')} {})"
    by (simp add: sample_row_def)
  have "ssh_reachable sample_fingerprint ((?h sample_db3 {(''esx1.lab'', 22, ''ssh-ed25519 AAAA'')} {})\<lparr>hy_db := sample_db4, hy_confirmed :=
      insert (cn_host (sample_row (Some ''ssh-ed25519 AAAA'') None 2), cn_port (sample_row (Some ''ssh-ed25519 AAAA'') None 2), ''SHA256:ssh-ed25519 AAAA'')
        (hy_confirmed (?h sample_db3 {(''esx1.lab'', 22, ''ssh-ed25519 AAAA'')} {}))\<rparr>)"
    by (rule ssh_reachable.more [OF 3 ssh_step.approve], unfold ssh_history.select_convs, rule sample_ssh_steps(4), simp add: sample_ssh_def, rule sample_rows(2))
  then show ?thesis by (simp add: sample_row_def sample_history_def)
qed



text \<open>
  An approval names the revision the administrator saw. A probe or a change in between raises the
  revision, so that the approval of a key that is no longer shown is refused.
\<close>
theorem stale_approval_is_refused:
  assumes "probe_host_key e s i db = Inr (r, db') \<or> update_connection e s i body db = Inr (r, db')"
    "get_connection db i = Some c" "n \<le> cn_revision c"
  shows "approve_host_key e' i fp n db' = Inl (HttpError 409 ''host_key'')"
proof -
  have f: "get_connection (put_connection x db) i = Some x" if "cn_id x = i" for x
  proof -
    have "find (\<lambda>c. cn_id c = i) (map (\<lambda>y. if cn_id y = cn_id x then x else y) (connections db))
        = map_option (\<lambda>y. if cn_id y = cn_id x then x else y) (find (\<lambda>c. cn_id c = i) (connections db))"
      by (rule find_map_if) (use that in auto)
    then show ?thesis using assms(2) get_connection_in [OF assms(2)] that by (simp add: get_connection_def put_connection_def)
  qed
  have id: "cn_id c = i" using get_connection_in [OF assms(2)] by simp
  have "\<exists>x. get_connection db' i = Some x \<and> cn_revision x = cn_revision c + 1"
    using assms(1)
  proof
    assume "probe_host_key e s i db = Inr (r, db')"
    then obtain k where "db' = put_connection (c\<lparr>cn_candidate := Some k, cn_revision := cn_revision c + 1\<rparr>) db"
      using probe_defined assms(2) by fastforce
    then show ?thesis using f [of "c\<lparr>cn_candidate := Some k, cn_revision := cn_revision c + 1\<rparr>"] id by auto
  next
    assume "update_connection e s i body db = Inr (r, db')"
    then obtain host where db': "db' = put_connection ((if (cn_host c, cn_port c) \<noteq> (host, ci_port body) then c\<lparr>cn_candidate := None, cn_approved := None\<rparr> else c)
      \<lparr>cn_name := ci_name body, cn_host := host, cn_port := ci_port body, cn_username := ci_username body,
       cn_credential := ci_credential body, cn_revision := cn_revision c + 1\<rparr>) db"
      using update_result assms(2) by fastforce
    show ?thesis unfolding db' by (subst f) (use id in auto)
  qed
  then show ?thesis using assms(3) by (auto simp: approve_host_key_def find_connection_def)
qed

lemma stale_approval_is_refused_witness:
  "approve_host_key sample_ssh 2 ''SHA256:old'' 1 sample_db3 = Inl (HttpError 409 ''host_key'')"
  by (rule stale_approval_is_refused [OF disjI1, OF sample_ssh_steps(3) sample_rows(1)]) (simp add: sample_row_def)

text \<open>
  A connection that an enabled collector uses keeps its host, port and approved key: a change is refused, and
  an approval that succeeds is of the key it has.
\<close>
theorem used_connection_is_fixed:
  assumes "se_in_use e i" "approve_host_key e i fp n db = Inr (r, db')"
  shows "update_connection e s i body db = Inl (HttpError 409 ''in_use'') \<and>
    (\<exists>c c'. get_connection db i = Some c \<and> db' = put_connection c' db \<and>
       cn_approved c' = cn_approved c \<and> cn_host c' = cn_host c \<and> cn_port c' = cn_port c)"
proof -
  have "update_connection e s i body db = Inl (HttpError 409 ''in_use'')"
    using assms(1) by (simp add: update_connection_def ensure_not_active_def raise_when_def)
  then show ?thesis using approve_result [OF assms(2)] assms(1) by fastforce
qed

definition sample_used :: ssh_env where "sample_used = sample_ssh\<lparr>se_in_use := (\<lambda>i. i = 2)\<rparr>"

lemma used_connection_is_fixed_witness:
  "update_connection sample_used sample_ssh_settings 2 sample_input sample_db4 = Inl (HttpError 409 ''in_use'') \<and>
    (\<exists>c c'. get_connection sample_db4 2 = Some c \<and>
       db_of (approve_host_key sample_used 2 ''SHA256:ssh-ed25519 AAAA'' 3 sample_db4) = put_connection c' sample_db4 \<and>
       cn_approved c' = cn_approved c \<and> cn_host c' = cn_host c \<and> cn_port c' = cn_port c)"
proof (rule used_connection_is_fixed)
  show "se_in_use sample_used 2" by (simp add: sample_used_def)
  show "approve_host_key sample_used 2 ''SHA256:ssh-ed25519 AAAA'' 3 sample_db4
      = Inr (fst (projr (approve_host_key sample_used 2 ''SHA256:ssh-ed25519 AAAA'' 3 sample_db4)),
          db_of (approve_host_key sample_used 2 ''SHA256:ssh-ed25519 AAAA'' 3 sample_db4))"
    by (rule not_isl_db) code_simp
qed

text \<open>
  The files a worker gets are for approved connections only: the port is allowed now, the private key is that
  of the connection's credential, and the known hosts are the approved key under the name and port the connection has.
\<close>
theorem materialized_files_are_approved:
  assumes "materialize_ssh repr s db config schema target = Inr files" "f \<in> set files"
  shows "\<exists>k key. cn_approved (sf_connection f) = Some key \<and> key \<noteq> [] \<and> sf_connection f \<in> set (connections db) \<and>
    (ss_allowed_ports s = [] \<or> cn_port (sf_connection f) \<in> set (ss_allowed_ports s)) \<and>
    get_credential db (cn_credential (sf_connection f)) = Some k \<and> sf_private_key f = sc_private k \<and>
    sf_known_hosts f = host_pattern (sf_connection f) @ '' '' @ py_strip key @ [char_of (10 :: nat)]"
proof -
  have t: "traverse g xs = Inr ys \<Longrightarrow> y \<in> set ys \<Longrightarrow> \<exists>x\<in>set xs. g x = Inr y" for g :: "'x \<Rightarrow> config_error + ssh_files" and xs ys y
    by (induction xs arbitrary: ys) (auto simp: and_then_Inr)
  obtain ident where "materialize_one s db ident = Inr f"
    using assms t by (fastforce simp: materialize_ssh_def and_then_Inr)
  then show ?thesis
    by (auto simp: materialize_one_def present_def check_ssh_port_def raise_when_def dest!: get_connection_in split: option.splits if_splits)
qed


definition sample_schema :: json where
  "sample_schema = JObj [(''type'', JStr ''object''), (''properties'', JObj [(''sources'', JObj [(''type'', JStr ''array''),
     (''items'', JObj [(''type'', JStr ''object''), (''x-vea-ssh-connection'', JStr ''ssh_connection_id'')])])])]"

definition sample_config :: json where
  "sample_config = JObj [(''sources'', JList [JObj [(''id'', JStr ''a''), (''ssh_connection_id'', JStr (uuid_str 2))]])]"

definition sample_files :: ssh_files where
  "sample_files = \<lparr>sf_connection = sample_row (Some ''ssh-ed25519 AAAA'') (Some ''ssh-ed25519 AAAA'') 3, sf_private_key = ''private'',
     sf_known_hosts = ''esx1.lab ssh-ed25519 AAAA'' @ [char_of (10 :: nat)]\<rparr>"

lemma materialized_files_are_approved_witness:
  "\<exists>k key. cn_approved (sf_connection sample_files) = Some key \<and> key \<noteq> [] \<and> sf_connection sample_files \<in> set (connections sample_db4) \<and>
    (ss_allowed_ports sample_ssh_settings = [] \<or> cn_port (sf_connection sample_files) \<in> set (ss_allowed_ports sample_ssh_settings)) \<and>
    get_credential sample_db4 (cn_credential (sf_connection sample_files)) = Some k \<and> sf_private_key sample_files = sc_private k \<and>
    sf_known_hosts sample_files = host_pattern (sf_connection sample_files) @ '' '' @ py_strip key @ [char_of (10 :: nat)]"
proof (rule materialized_files_are_approved)
  have o: "ssh_objects (\<lambda>_. []) True sample_config sample_schema = Inr [([(''id'', JStr ''a''), (''ssh_connection_id'', JStr (uuid_str 2))], uuid_str 2)]"
    by (simp add: sample_config_def sample_schema_def jget_def jtable_def truthy_def str_of_def uuid_str_def Let_def)
  have m: "materialize_one sample_ssh_settings sample_db4 (uuid_str 2) = Inr sample_files" by code_simp
  show "materialize_ssh (\<lambda>_. []) sample_ssh_settings sample_db4 sample_config sample_schema None = Inr [sample_files]"
    by (simp add: materialize_ssh_def o m for_target_def)
qed simp

text \<open>A key is never deleted while a connection needs it: in every history each connection's credential exists.\<close>
theorem no_dangling_credentials:
  assumes "ssh_reachable F h" "c \<in> set (connections (hy_db h))"
  shows "get_credential (hy_db h) (cn_credential c) \<noteq> None"
proof -
  have "\<forall>c\<in>set (connections (hy_db h)). get_credential (hy_db h) (cn_credential c) \<noteq> None"
    using assms(1)
  proof (induction rule: ssh_reachable.induct)
    case (more h h')
    have cr: "get_credential (put_connection x (hy_db h)) i = get_credential (hy_db h) i" for x i
      by (simp add: get_credential_def put_connection_def)
    have put: "\<forall>c\<in>set (connections (put_connection x (hy_db h))). get_credential (put_connection x (hy_db h)) (cn_credential c) \<noteq> None"
      if "get_credential (hy_db h) (cn_credential x) \<noteq> None" for x
      using that more.IH unfolding cr by (auto simp: put_connection_def)
    from more.hyps(2) show ?case
    proof cases
      case (create_key e s name k i r db)
      then have "credentials db = credentials (hy_db h) @ [last (credentials db)]" "connections db = connections (hy_db h)"
        by (auto simp: create_credential_def split: option.splits if_splits)
      then show ?thesis using more.IH create_key(1) by (auto simp: get_credential_def find_append split: option.splits)
        (metis (mono_tags, lifting) find_append option.simps(5))+
    next
      case (delete_key i db)
      then have "connections db = connections (hy_db h)" "\<forall>c\<in>set (connections (hy_db h)). cn_credential c \<noteq> i"
        "credentials db = filter (\<lambda>c. sc_id c \<noteq> i) (credentials (hy_db h))"
        by (auto simp: delete_credential_def list_ex_iff split: if_splits)
      then show ?thesis using more.IH delete_key(1) by (simp add: get_credential_def find_None_iff) metis
    next
      case (create e s body i r db)
      then have "\<exists>row. connections db = connections (hy_db h) @ [row] \<and> credentials db = credentials (hy_db h) \<and>
          get_credential (hy_db h) (cn_credential row) \<noteq> None"
        by (auto simp: create_connection_def and_then_Inr Let_def split: if_splits)
      then show ?thesis using more.IH create(1) by (auto simp: get_credential_def)
    next
      case (update e s i body r db)
      have "get_credential (hy_db h) (ci_credential body) \<noteq> None"
        using update(2) by (auto simp: update_connection_def and_then_Inr split: if_splits)
      then show ?thesis using update_result [OF update(2)] update(1) put by auto
    next
      case (probe e s i r db c k)
      obtain x where "db = put_connection x (hy_db h)" "cn_credential x = cn_credential c"
        using probe_defined [OF probe(2)] probe(3) by auto
      then show ?thesis using put [of x] more.IH get_connection_in [OF probe(3)] probe(1) by simp
    next
      case (approve e i fp n r db c)
      obtain k where "db = put_connection (c\<lparr>cn_approved := Some k, cn_revision := cn_revision c + 1\<rparr>) (hy_db h)"
        using approve_result [OF approve(2)] approve(4) by auto
      then show ?thesis using put [of "c\<lparr>cn_approved := Some k, cn_revision := cn_revision c + 1\<rparr>"] more.IH get_connection_in [OF approve(4)] approve(1) by simp
    qed
  qed simp
  then show ?thesis using assms(2) by blast
qed

lemma no_dangling_credentials_witness: "get_credential (hy_db sample_history) (cn_credential (sample_row (Some ''ssh-ed25519 AAAA'') (Some ''ssh-ed25519 AAAA'') 3)) \<noteq> None"
  by (rule no_dangling_credentials [OF sample_reachable]) (use get_connection_in [OF sample_rows(3)] in \<open>simp add: sample_history_def\<close>)

end
