(* ===== verification/Registry.thy ===== *)
theory Registry
  imports Wire
begin

section \<open>The registry of collectors (plugins/config.py, plugins/registry.py)\<close>

text \<open>
  The configuration of a collector is laid together from the TOML file, the settings stored in the
  database and the environment; \<open>build_collector_registry\<close> validates every candidate and gives each plugin
  id one registration, which \<open>start_collector_registry\<close> fails if the plugin does not start. A TOML value
  is a JSON value; a registration keeps the manifest of its plugin. What the code takes from outside
  (the candidates found, the parsed TOML document, the environment, \<open>float()\<close> of a text) are
  parameters. Error texts are dropped.
\<close>

record collector_config =
  cc_enabled :: bool
  cc_interval_seconds :: int
  cc_timeout_seconds :: pyfloat
  cc_values :: "(string, json) dict"

datatype registration_status = Reg_enabled | Reg_disabled | Reg_failed

datatype registration_error =
    Bad_contract | Not_a_plugin | Invalid_plugin_id | Builtin_reserved | Manifest_refused issue | Configuration_error
  | Duplicate_plugin_id | Metric_key_owned string string | Not_installed | Load_failed string | Config_load_failed
  | Discovery_failed string | Start_failed string

record registration =
  rg_plugin_id :: string
  rg_manifest :: "collector_manifest option" \<comment> \<open>of \<open>plugin\<close>; none if there is no plugin\<close>
  rg_source :: string
  rg_config :: "collector_config option"
  rg_status :: registration_status
  rg_error :: "registration_error option"

type_synonym registrations = "(string, registration) dict"

record registry =
  ry_registrations :: registrations
  ry_generation :: nat

record candidate =
  cand_manifest :: "collector_manifest option" \<comment> \<open>none if reading the contract raises\<close>
  cand_is_plugin :: bool
  cand_source :: string
  cand_id :: string

record registry_settings =
  rs_event_poll_interval :: int
  rs_perf_sample_interval :: int

definition enabled :: "registry \<Rightarrow> registration list" where
  "enabled ry = filter (\<lambda>r. rg_status r = Reg_enabled) (map snd (ry_registrations ry))"

definition get_registration :: "registry \<Rightarrow> string \<Rightarrow> registration option" where
  "get_registration ry pid = map_of (ry_registrations ry) pid"

definition metric_keys :: "registration \<Rightarrow> string list" where
  "metric_keys r = (case rg_manifest r of None \<Rightarrow> [] | Some m \<Rightarrow> map md_key (mf_metric_definitions m))"

definition metric_catalog :: "registry \<Rightarrow> (string \<times> metric_definition) list" where
  "metric_catalog ry = concat (map (\<lambda>r. case rg_manifest r of None \<Rightarrow> [] | Some m \<Rightarrow> map (Pair (rg_plugin_id r)) (mf_metric_definitions m)) (enabled ry))"

subsection \<open>Configuration (plugins/config.py)\<close>

definition load_collector_config_file :: "(string \<Rightarrow> json option) \<Rightarrow> string option \<Rightarrow> (string, (string, json) dict) dict option" where
  \<comment> \<open>\<open>None\<close>: an exception; \<open>read_toml\<close> opens and parses\<close>
  "load_collector_config_file read_toml path =
     (case path of None \<Rightarrow> Some []
      | Some p \<Rightarrow>
          if p = [] then Some []
          else (case read_toml p of
            None \<Rightarrow> None
          | Some doc \<Rightarrow> (case member_or doc ''collectors'' (JObj []) of
                Inr (JObj raw) \<Rightarrow>
                  those (map (\<lambda>(k, v). case v of JObj d \<Rightarrow> Some (k, d) | _ \<Rightarrow> None) raw)
              | _ \<Rightarrow> None)))"

definition DB_OVERRIDE_FIELDS :: "string list" where
  "DB_OVERRIDE_FIELDS = [''enabled'', ''interval_seconds'', ''timeout_seconds'']"

definition dict_get :: "(string, json) dict \<Rightarrow> string \<Rightarrow> json" where
  \<comment> \<open>\<open>d.get(k)\<close>\<close>
  "dict_get d k = (case map_of d k of None \<Rightarrow> JNull | Some v \<Rightarrow> v)"

definition dict_update :: "('k, 'v) dict \<Rightarrow> ('k, 'v) dict \<Rightarrow> ('k, 'v) dict" where
  \<comment> \<open>\<open>d.update(e)\<close>\<close>
  "dict_update d e = fold (\<lambda>(k, v). AList.update k v) e d"

definition table_of :: "json \<Rightarrow> (string, json) dict" where
  \<comment> \<open>\<open>dict(v) if isinstance(v, dict) else {}\<close>\<close>
  "table_of v = (case v of JObj d \<Rightarrow> d | _ \<Rightarrow> [])"

definition apply_collector_database_overrides :: "(string, json) dict \<Rightarrow> (string, json) dict option \<Rightarrow> (string, json) dict" where
  "apply_collector_database_overrides raw overrides =
     (case overrides of None \<Rightarrow> raw
      | Some ov \<Rightarrow>
          if ov = [] then raw
          else let merged = fold (\<lambda>f m. if dict_get ov f \<noteq> JNull then AList.update f (dict_get ov f) m else m) DB_OVERRIDE_FIELDS raw;
                   replace = truthy (dict_get ov ''replace_config'')
               in (case dict_get ov ''config_values'' of
                     JObj cv \<Rightarrow>
                       if cv \<noteq> [] \<or> replace
                       then AList.update ''config''
                              (JObj (dict_update (if replace then [] else table_of (dict_get merged ''config'')) cv)) merged
                       else merged
                   | _ \<Rightarrow> merged))"

definition prefix_char :: "char \<Rightarrow> string" where
  \<comment> \<open>one character of \<open>re.sub("[^A-Z0-9]", "_", s.upper())\<close>\<close>
  "prefix_char c =
     (let n = code c
      in if 97 \<le> n \<and> n \<le> 122 then [char_of (n - 32)]
         else if 65 \<le> n \<and> n \<le> 90 \<or> 48 \<le> n \<and> n \<le> 57 then [c]
         else if n = 223 then ''SS'' else ''_'')"

definition collector_environment_prefix :: "string \<Rightarrow> string" where
  "collector_environment_prefix plugin_id = ''VEA_COLLECTOR__'' @ concat (map prefix_char plugin_id) @ ''__''"

definition env_entries :: "string \<Rightarrow> (string, string) dict \<Rightarrow> (string \<times> string) list" where
  \<comment> \<open>the variables of the plugin, their keys in lower case\<close>
  "env_entries plugin_id environ =
     (let p = collector_environment_prefix plugin_id
      in map (\<lambda>(name, v). (py_lower (drop (length p) name), v)) (filter (\<lambda>(name, v). startswith name p) environ))"

definition collector_env_locked_fields :: "string \<Rightarrow> (string, string) dict \<Rightarrow> string list" where
  "collector_env_locked_fields plugin_id environ =
     sort (remdups (filter (\<lambda>k. k \<in> set DB_OVERRIDE_FIELDS) (map fst (env_entries plugin_id environ))))"

definition env_enabled :: "string \<Rightarrow> bool" where
  "env_enabled v = (py_lower (py_strip v) \<in> {''1'', ''true'', ''yes'', ''on''})"

fun apply_env_entry :: "string \<times> string \<Rightarrow> (string, json) dict \<times> (string, json) dict \<Rightarrow> (string, json) dict \<times> (string, json) dict" where
  "apply_env_entry (key, v) (merged, vals) =
     (if key = ''enabled'' then (AList.update ''enabled'' (JBool (env_enabled v)) merged, vals)
      else if key = ''interval_seconds'' \<or> key = ''timeout_seconds'' then (AList.update key (JStr v) merged, vals)
      else (merged, AList.update key (JStr v) vals))"

definition apply_collector_environment :: "string \<Rightarrow> (string, json) dict \<Rightarrow> (string, string) dict \<Rightarrow> (string, json) dict" where
  "apply_collector_environment plugin_id raw environ =
     (let (merged, vals) = fold apply_env_entry (env_entries plugin_id environ) (raw, table_of (dict_get raw ''config''))
      in AList.update ''config'' (JObj vals) merged)"

subsection \<open>Building a generation (plugins/registry.py)\<close>

definition validate_plugin :: "string \<Rightarrow> collector_manifest \<Rightarrow> registration_error option" where
  \<comment> \<open>\<open>_validate_plugin\<close>\<close>
  "validate_plugin source m =
     (if \<not> plugin_id_ok (mf_id m) then Some Invalid_plugin_id
      else if source \<noteq> ''builtin'' \<and> startswith (mf_id m) ''builtin.'' then Some Builtin_reserved
      else map_option Manifest_refused (manifest_error m))"

datatype conversion_error = ValueOrTypeError | OverflowError

definition int_conversion :: "json \<Rightarrow> conversion_error + int" where
  \<comment> \<open>\<open>int(v)\<close>: of an infinity it raises \<open>OverflowError\<close>\<close>
  "int_conversion v = (if v = JFloat PosInf \<or> v = JFloat NegInf then Inl OverflowError else map_error (\<lambda>_. ValueOrTypeError) (int_of v))"

definition not_positive :: "pyfloat \<Rightarrow> bool" where
  \<comment> \<open>\<open>x <= 0\<close>\<close>
  "not_positive x = (case x of Fin r \<Rightarrow> r \<le> 0 | NegInf \<Rightarrow> True | _ \<Rightarrow> False)"

definition legacy_interval :: "registry_settings \<Rightarrow> collector_manifest \<Rightarrow> int" where
  "legacy_interval s m =
     (if mf_id m = ''builtin.vcenter.events'' then rs_event_poll_interval s
      else if startswith (mf_id m) ''builtin.vcenter.'' then rs_perf_sample_interval s
      else mf_default_interval_seconds m)"

definition dict_get_or :: "(string, json) dict \<Rightarrow> string \<Rightarrow> json \<Rightarrow> json" where
  "dict_get_or d k v = (case map_of d k of None \<Rightarrow> v | Some w \<Rightarrow> w)"

definition read_config ::
  "(string \<Rightarrow> pyfloat option) \<Rightarrow> registry_settings \<Rightarrow> collector_manifest \<Rightarrow> bool \<Rightarrow> (string, json) dict \<Rightarrow> conversion_error + collector_config" where
  \<comment> \<open>the \<open>try\<close> of the loop\<close>
  "read_config float_text s m switched_on raw =
     and_then (int_conversion (dict_get_or raw ''interval_seconds'' (JInt (legacy_interval s m)))) (\<lambda>interval.
     and_then (map_error (\<lambda>_. ValueOrTypeError)
         (float_of float_text (dict_get_or raw ''timeout_seconds'' (JFloat (mf_default_timeout_seconds m))))) (\<lambda>timeout.
       if interval < 10 \<or> not_positive timeout then Inl ValueOrTypeError
       else (case dict_get_or raw ''config'' (JObj []) of
               JObj vals \<Rightarrow> Inr \<lparr>cc_enabled = switched_on, cc_interval_seconds = interval, cc_timeout_seconds = timeout, cc_values = vals\<rparr>
             | _ \<Rightarrow> Inl ValueOrTypeError)))"

fun claim_metrics :: "string \<Rightarrow> string list \<Rightarrow> (string, string) dict \<Rightarrow> registration_error option \<times> (string, string) dict" where
  \<comment> \<open>the loop over the metric definitions, with the owner of each key\<close>
  "claim_metrics pid [] owners = (None, owners)"
| "claim_metrics pid (k # ks) owners =
     (case map_of owners k of
        Some owner \<Rightarrow> (Some (Metric_key_owned k owner), owners)
      | None \<Rightarrow> claim_metrics pid ks (AList.update k pid owners))"

definition failed_registration :: "string \<Rightarrow> string \<Rightarrow> registration_error \<Rightarrow> registration" where
  "failed_registration pid source e =
     \<lparr>rg_plugin_id = pid, rg_manifest = None, rg_source = source, rg_config = None, rg_status = Reg_failed, rg_error = Some e\<rparr>"

record build_inputs =
  bi_float_text :: "string \<Rightarrow> pyfloat option"
  bi_settings :: registry_settings
  bi_environ :: "(string, string) dict"
  bi_overrides :: "(string, (string, json) dict) dict"
  bi_configured :: "(string, (string, json) dict) dict option" \<comment> \<open>none if the file could not be read\<close>
  bi_builtins :: "candidate list"
  bi_remote :: "(candidate list \<times> (string, string) dict) + string"
    \<comment> \<open>plugins and failures by entry point, or the failure of the whole discovery\<close>

definition configured_of :: "build_inputs \<Rightarrow> (string, (string, json) dict) dict" where
  "configured_of bi = (case bi_configured bi of None \<Rightarrow> [] | Some c \<Rightarrow> c)"

definition raw_config :: "build_inputs \<Rightarrow> string \<Rightarrow> (string, json) dict" where
  "raw_config bi pid =
     apply_collector_environment pid
       (apply_collector_database_overrides (case map_of (configured_of bi) pid of None \<Rightarrow> [] | Some c \<Rightarrow> c)
          (map_of (bi_overrides bi) pid)) (bi_environ bi)"

definition add_candidate ::
  "build_inputs \<Rightarrow> candidate \<Rightarrow> registrations \<times> (string, string) dict \<Rightarrow> conversion_error + registrations \<times> (string, string) dict" where
  \<comment> \<open>one round of the loop; \<open>Inl\<close>: an exception that nothing in it catches\<close>
  "add_candidate bi c = (\<lambda>(regs, owners).
     (case cand_manifest c of
        None \<Rightarrow> Inr (AList.update (cand_id c) (failed_registration (cand_id c) (cand_source c) Bad_contract) regs, owners)
      | Some m \<Rightarrow>
          (let pid = mf_id m;
               error = (if cand_is_plugin c then validate_plugin (cand_source c) m else Some Not_a_plugin);
               raw = raw_config bi pid;
               switched_on = truthy (dict_get_or raw ''enabled'' (JBool (cand_source c = ''builtin'')));
               conf = read_config (bi_float_text bi) (bi_settings bi) m switched_on raw
           in if conf = Inl OverflowError then Inl OverflowError
              else let config = (case conf of Inl e \<Rightarrow> None | Inr x \<Rightarrow> Some x);
                       error = (case conf of Inl e \<Rightarrow> Some Configuration_error | Inr x \<Rightarrow> error)
                in (case map_of regs pid of
                      Some prev \<Rightarrow> Inr (AList.update pid (prev\<lparr>rg_plugin_id := pid, rg_status := Reg_failed, rg_error := Some Duplicate_plugin_id\<rparr>) regs, owners)
                    | None \<Rightarrow>
                        (let (clash, owners) = (if switched_on then claim_metrics pid (map md_key (mf_metric_definitions m)) owners else (None, owners));
                             error = (case clash of None \<Rightarrow> error | Some e \<Rightarrow> Some e);
                             status = (if error \<noteq> None then Reg_failed else if switched_on then Reg_enabled else Reg_disabled)
                         in Inr (AList.update pid \<lparr>rg_plugin_id = pid, rg_manifest = Some m, rg_source = cand_source c,
                                   rg_config = config, rg_status = status, rg_error = error\<rparr> regs, owners))))))"

fun add_candidates ::
  "build_inputs \<Rightarrow> candidate list \<Rightarrow> registrations \<times> (string, string) dict \<Rightarrow> conversion_error + registrations \<times> (string, string) dict" where
  "add_candidates bi [] st = Inr st"
| "add_candidates bi (c # cs) st = and_then (add_candidate bi c st) (add_candidates bi cs)"

definition first_registrations :: "build_inputs \<Rightarrow> registrations" where
  \<comment> \<open>what is registered before the candidates: the failures of loading\<close>
  "first_registrations bi =
     (let loads = (case bi_remote bi of Inl (_, failures) \<Rightarrow> failures | Inr _ \<Rightarrow> []);
          load_failures = dict_update [] (map (\<lambda>(name, reason).
            let pid = (if startswith name ''builtin.'' then ''invalid-entry-point:'' @ name else name)
            in (pid, failed_registration pid (''entry_point:'' @ name) (Load_failed reason))) loads);
          regs = (if bi_configured bi = None
                  then AList.update ''configuration'' (failed_registration ''configuration'' ''configuration'' Config_load_failed) load_failures
                  else load_failures)
      in (case bi_remote bi of
            Inr reason \<Rightarrow> AList.update ''discovery'' (failed_registration ''discovery'' ''discovery'' (Discovery_failed reason)) regs
          | Inl _ \<Rightarrow> regs))"

definition candidates_of :: "build_inputs \<Rightarrow> candidate list" where
  "candidates_of bi = bi_builtins bi @ (case bi_remote bi of Inl (cs, _) \<Rightarrow> cs | Inr _ \<Rightarrow> [])"

definition add_not_installed :: "build_inputs \<Rightarrow> registrations \<Rightarrow> registrations" where
  "add_not_installed bi regs =
     dict_update regs (map (\<lambda>pid. (pid, failed_registration pid ''configuration'' Not_installed))
       (filter (\<lambda>pid. map_of regs pid = None) (map fst (configured_of bi))))"

definition build_collector_registry :: "build_inputs \<Rightarrow> nat \<Rightarrow> conversion_error + registry" where
  "build_collector_registry bi generation =
     and_then (add_candidates bi (candidates_of bi) (first_registrations bi, [])) (\<lambda>(regs, owners).
       Inr \<lparr>ry_registrations = add_not_installed bi regs, ry_generation = generation\<rparr>)"

definition start_collector_registry :: "(string \<Rightarrow> string option) \<Rightarrow> registry \<Rightarrow> registry" where
  \<comment> \<open>\<open>starts\<close> gives the exception that starting the plugin raises\<close>
  "start_collector_registry starts ry =
     ry\<lparr>ry_registrations := fold (\<lambda>r regs. case starts (rg_plugin_id r) of
          None \<Rightarrow> regs
        | Some e \<Rightarrow> AList.update (rg_plugin_id r) (r\<lparr>rg_status := Reg_failed, rg_error := Some (Start_failed e)\<rparr>) regs)
        (enabled ry) (ry_registrations ry)\<rparr>"


subsection \<open>The precedence of the sources\<close>

lemma map_of_dict_update: "map_of (dict_update d e) = map_of d ++ map_of (rev e)"
proof (induction e rule: rev_induct)
  case (snoc x e)
  obtain k v where x: "x = (k, v)" by fastforce
  have "map_of (dict_update d (e @ [x])) = (map_of (dict_update d e))(k \<mapsto> v)"
    by (simp add: dict_update_def x update_conv')
  then show ?case using snoc by (simp add: x map_add_def fun_eq_iff)
qed (simp add: dict_update_def)

lemma map_of_update [simp]: "map_of (AList.update k v d) = (map_of d)(k \<mapsto> v)"
  by (rule update_conv')

lemma keys_dict_update: "distinct (map fst d) \<Longrightarrow> distinct (map fst (dict_update d e))"
  unfolding dict_update_def by (induction e arbitrary: d) (auto simp: distinct_update split: prod.splits)

definition env_value :: "string \<Rightarrow> (string, string) dict \<Rightarrow> string \<Rightarrow> string option" where
  \<comment> \<open>the variable that wins for a key: the last one\<close>
  "env_value plugin_id environ key = map_of (rev (env_entries plugin_id environ)) key"

lemma apply_env_entry_fst:
  "map_of (fst (apply_env_entry (key, v) st)) k =
     (if k = key \<and> key = ''enabled'' then Some (JBool (env_enabled v))
      else if k = key \<and> (key = ''interval_seconds'' \<or> key = ''timeout_seconds'') then Some (JStr v) else map_of (fst st) k)"
  by (cases st) auto

lemma env_fold:
  "map_of (fst (fold apply_env_entry es st)) k =
     (case map_of (rev es) k of
        Some v \<Rightarrow> if k = ''enabled'' then Some (JBool (env_enabled v))
                  else if k = ''interval_seconds'' \<or> k = ''timeout_seconds'' then Some (JStr v) else map_of (fst st) k
      | None \<Rightarrow> map_of (fst st) k)"
proof (induction es rule: rev_induct)
  case (snoc e es)
  obtain key v where e: "e = (key, v)" by fastforce
  show ?case using snoc by (cases "k = key") (auto simp: e apply_env_entry_fst simp del: apply_env_entry.simps split: option.splits)
qed simp

lemma db_fold:
  "k \<in> set fs \<Longrightarrow> map_of (fold (\<lambda>f m. if dict_get ov f \<noteq> JNull then AList.update f (dict_get ov f) m else m) fs raw) k
     = (if dict_get ov k \<noteq> JNull then Some (dict_get ov k) else map_of raw k)"
  "k \<notin> set fs \<Longrightarrow> map_of (fold (\<lambda>f m. if dict_get ov f \<noteq> JNull then AList.update f (dict_get ov f) m else m) fs raw) k = map_of raw k"
proof (induction fs arbitrary: raw)
  case (Cons f fs)
  { case 1 then show ?case using Cons by (cases "k \<in> set fs") auto }
  { case 2 then show ?case using Cons by auto }
qed simp_all

lemma db_field:
  assumes "k \<in> set DB_OVERRIDE_FIELDS"
  shows "map_of (apply_collector_database_overrides raw overrides) k =
     (case overrides of None \<Rightarrow> map_of raw k
      | Some ov \<Rightarrow> if dict_get ov k \<noteq> JNull then Some (dict_get ov k) else map_of raw k)"
proof (cases overrides)
  case (Some ov)
  have "k \<noteq> ''config''" using assms by (auto simp: DB_OVERRIDE_FIELDS_def)
  then show ?thesis using Some db_fold(1) [OF assms, of ov raw]
    by (auto simp: apply_collector_database_overrides_def Let_def dict_get_def split: json.splits)
qed (simp add: apply_collector_database_overrides_def)

text \<open>
  A common field of a collector comes from the environment if a variable sets it, else from the
  database if it is set there, else from the TOML file: of each field the strongest source that has
  one, whatever the others say.
\<close>
theorem source_precedence:
  assumes "k \<in> {''interval_seconds'', ''timeout_seconds''}"
  shows "map_of (apply_collector_environment pid (apply_collector_database_overrides raw overrides) environ) k =
     (case env_value pid environ k of
        Some v \<Rightarrow> Some (JStr v)
      | None \<Rightarrow> (case overrides of
            Some ov \<Rightarrow> if dict_get ov k \<noteq> JNull then Some (dict_get ov k) else map_of raw k
          | None \<Rightarrow> map_of raw k))"
proof -
  have k: "k \<in> set DB_OVERRIDE_FIELDS" "k \<noteq> ''config''" "k \<noteq> ''enabled''" using assms by (auto simp: DB_OVERRIDE_FIELDS_def)
  show ?thesis using k(2,3) assms db_field [OF k(1), of raw overrides]
    by (simp add: apply_collector_environment_def env_fold env_value_def case_prod_beta split: option.splits)
qed

lemma source_precedence_witness:
  "map_of (apply_collector_environment ''my.esx-logs''
       (apply_collector_database_overrides [(''interval_seconds'', JInt 60)] (Some [(''interval_seconds'', JInt 90)]))
       [(''VEA_COLLECTOR__MY_ESX_LOGS__INTERVAL_SECONDS'', ''30''), (''PATH'', ''x'')]) ''interval_seconds''
     = (case env_value ''my.esx-logs'' [(''VEA_COLLECTOR__MY_ESX_LOGS__INTERVAL_SECONDS'', ''30''), (''PATH'', ''x'')] ''interval_seconds'' of
          Some v \<Rightarrow> Some (JStr v)
        | None \<Rightarrow> (case Some [(''interval_seconds'', JInt 90)] of
            Some ov \<Rightarrow> if dict_get ov ''interval_seconds'' \<noteq> JNull then Some (dict_get ov ''interval_seconds'')
                       else map_of [(''interval_seconds'', JInt 60)] ''interval_seconds''
          | None \<Rightarrow> map_of [(''interval_seconds'', JInt 60)] ''interval_seconds''))"
  by (rule source_precedence) simp

lemma precedence_sample:
  "apply_collector_environment ''my.esx-logs'' [(''interval_seconds'', JInt 60)]
       [(''VEA_COLLECTOR__MY_ESX_LOGS__Interval_Seconds'', ''30''), (''VEA_COLLECTOR__MY_ESX_LOGS__HOST'', ''h'')]
     = [(''interval_seconds'', JStr ''30''), (''config'', JObj [(''host'', JStr ''h'')])]"
  by code_simp

text \<open>
  The values of a collector are always a table after the environment is applied; a TOML value of
  another kind becomes the empty table and is never reported.
\<close>
theorem config_is_a_table:
  "\<exists>vals. dict_get_or (apply_collector_environment pid raw environ) ''config'' dflt = JObj vals"
  by (simp add: apply_collector_environment_def dict_get_or_def case_prod_beta)


subsection \<open>What a generation guarantees\<close>

lemma claim_metrics_ok:
  assumes "claim_metrics pid ks owners = (None, owners')"
  shows "distinct ks \<and> (\<forall>k\<in>set ks. map_of owners k = None) \<and>
    (\<forall>k. map_of owners' k = (if k \<in> set ks then Some pid else map_of owners k))"
  using assms
proof (induction ks arbitrary: owners)
  case (Cons k ks)
  then have n: "map_of owners k = None" "claim_metrics pid ks (AList.update k pid owners) = (None, owners')"
    by (auto split: option.splits)
  show ?case using Cons.IH [OF n(2)] n(1) by (auto split: if_splits)
qed simp

lemma claim_metrics_keeps:
  "claim_metrics pid ks owners = (e, owners') \<Longrightarrow> map_of owners k = Some p \<Longrightarrow> map_of owners' k = Some p"
proof (induction ks arbitrary: owners)
  case (Cons a ks)
  show ?case
  proof (cases "map_of owners a")
    case None
    then have "a \<noteq> k" using Cons.prems by auto
    then show ?thesis using Cons.IH [of "AList.update a pid owners"] Cons.prems None by simp
  next
    case (Some o')
    then show ?thesis using Cons.prems by simp
  qed
qed simp

definition sound_registration :: "registration \<Rightarrow> bool" where
  \<comment> \<open>what running a collector relies on\<close>
  "sound_registration r =
     (case (rg_manifest r, rg_config r) of
        (Some m, Some c) \<Rightarrow>
          rg_plugin_id r = mf_id m \<and> plugin_id_ok (mf_id m) \<and> manifest_error m = None
          \<and> (rg_source r \<noteq> ''builtin'' \<longrightarrow> \<not> startswith (mf_id m) ''builtin.'')
          \<and> 10 \<le> cc_interval_seconds c \<and> \<not> not_positive (cc_timeout_seconds c) \<and> rg_error r = None
      | _ \<Rightarrow> False)"

definition generation_ok :: "registrations \<Rightarrow> (string, string) dict \<Rightarrow> bool" where
  "generation_ok regs owners \<longleftrightarrow>
     distinct (map fst regs) \<and>
     (\<forall>(pid, r) \<in> set regs. rg_plugin_id r = pid \<and>
        (rg_status r = Reg_enabled \<longrightarrow> sound_registration r \<and> distinct (metric_keys r)
           \<and> (\<forall>k\<in>set (metric_keys r). map_of owners k = Some pid)))"

lemma read_config_bounds:
  "read_config ft s m b raw = Inr c \<Longrightarrow> 10 \<le> cc_interval_seconds c \<and> \<not> not_positive (cc_timeout_seconds c)"
  by (auto simp: read_config_def and_then_Inr split: if_splits json.splits)

lemma validate_plugin_None:
  "validate_plugin source m = None \<longleftrightarrow>
     plugin_id_ok (mf_id m) \<and> (source \<noteq> ''builtin'' \<longrightarrow> \<not> startswith (mf_id m) ''builtin.'') \<and> manifest_error m = None"
  by (auto simp: validate_plugin_def)

lemma generation_update:
  assumes "generation_ok regs owners" "\<And>k p. map_of owners k = Some p \<Longrightarrow> map_of owners' k = Some p" "rg_plugin_id r = pid"
    "rg_status r = Reg_enabled \<Longrightarrow> sound_registration r \<and> distinct (metric_keys r) \<and> (\<forall>k\<in>set (metric_keys r). map_of owners' k = Some pid)"
  shows "generation_ok (AList.update pid r regs) owners'"
proof -
  have d: "distinct (map fst regs)" using assms(1) by (simp add: generation_ok_def)
  have d': "distinct (map fst (AList.update pid r regs))" using d by (rule AList.distinct_update)
  have mem: "(p, x) = (pid, r) \<or> (p, x) \<in> set regs" if "(p, x) \<in> set (AList.update pid r regs)" for p x
  proof -
    have "map_of (AList.update pid r regs) p = Some x" by (rule map_of_is_SomeI [OF d' that])
    then have "(if p = pid then Some r else map_of regs p) = Some x" by simp
    then show ?thesis using d by (auto split: if_splits dest: map_of_SomeD)
  qed
  have one: "rg_plugin_id x = p \<and> (rg_status x = Reg_enabled \<longrightarrow> sound_registration x \<and> distinct (metric_keys x)
        \<and> (\<forall>k\<in>set (metric_keys x). map_of owners' k = Some p))" if "(p, x) \<in> set (AList.update pid r regs)" for p x
    using mem [OF that]
  proof
    assume "(p, x) = (pid, r)"
    then show ?thesis using assms(3,4) by auto
  next
    assume "(p, x) \<in> set regs"
    then show ?thesis using assms(1,2) by (fastforce simp: generation_ok_def)
  qed
  show ?thesis using d' one by (auto simp: generation_ok_def)
qed

lemma add_candidate_ok:
  assumes "generation_ok regs owners" "add_candidate bi c (regs, owners) = Inr (regs', owners')"
  shows "generation_ok regs' owners'"
proof (cases "cand_manifest c")
  case None
  then show ?thesis using assms by (auto simp: add_candidate_def failed_registration_def intro!: generation_update [OF assms(1)])
next
  case (Some m)
  let ?pid = "mf_id m"
  let ?raw = "raw_config bi ?pid"
  let ?on = "truthy (dict_get_or ?raw ''enabled'' (JBool (cand_source c = ''builtin'')))"
  let ?conf = "read_config (bi_float_text bi) (bi_settings bi) m ?on ?raw"
  let ?error = "if cand_is_plugin c then validate_plugin (cand_source c) m else Some Not_a_plugin"
  let ?error' = "case ?conf of Inl e \<Rightarrow> Some Configuration_error | Inr x \<Rightarrow> ?error"
  let ?config = "case ?conf of Inl e \<Rightarrow> None | Inr x \<Rightarrow> Some x"
  have no: "?conf \<noteq> Inl OverflowError" using assms(2) Some by (auto simp: add_candidate_def Let_def)
  show ?thesis
  proof (cases "map_of regs ?pid")
    case (Some prev)
    then have "regs' = AList.update ?pid (prev\<lparr>rg_plugin_id := ?pid, rg_status := Reg_failed, rg_error := Some Duplicate_plugin_id\<rparr>) regs" "owners' = owners"
      using assms(2) \<open>cand_manifest c = Some m\<close> no by (auto simp: add_candidate_def Let_def)
    then show ?thesis by (auto intro!: generation_update [OF assms(1)])
  next
    case None
    obtain clash own where co: "(if ?on then claim_metrics ?pid (map md_key (mf_metric_definitions m)) owners else (None, owners)) = (clash, own)"
      by fastforce
    let ?e = "case clash of None \<Rightarrow> ?error' | Some e \<Rightarrow> Some e"
    let ?r = "\<lparr>rg_plugin_id = ?pid, rg_manifest = Some m, rg_source = cand_source c, rg_config = ?config,
      rg_status = (if ?e \<noteq> None then Reg_failed else if ?on then Reg_enabled else Reg_disabled), rg_error = ?e\<rparr>"
    have new: "regs' = AList.update ?pid ?r regs" "owners' = own"
      using assms(2) \<open>cand_manifest c = Some m\<close> no None co by (simp_all add: add_candidate_def Let_def)
    have keep: "map_of owners k = Some p \<Longrightarrow> map_of own k = Some p" for k p
      using co claim_metrics_keeps by (auto split: if_splits)
    show ?thesis
      unfolding new
    proof (rule generation_update [OF assms(1) keep])
      assume "rg_status ?r = Reg_enabled"
      then have on: "?on" and e: "?e = None" by (auto split: if_splits)
      have cl: "clash = None" using e by (cases clash) simp_all
      have e': "?error' = None" using e unfolding cl by (simp only: option.case)
      obtain x where x: "?conf = Inr x" "?error = None"
      proof (cases ?conf)
        case (Inr x)
        then show ?thesis using that e' by (simp only: sum.case)
      qed (use e' in \<open>simp only: sum.case option.distinct\<close>)
      have own: "claim_metrics ?pid (map md_key (mf_metric_definitions m)) owners = (None, own)" using co on cl by simp
      have v: "validate_plugin (cand_source c) m = None" using x(2) by (auto split: if_splits)
      show "sound_registration ?r \<and> distinct (metric_keys ?r) \<and> (\<forall>k\<in>set (metric_keys ?r). map_of own k = Some ?pid)"
      proof -
        have f: "rg_error ?r = None" unfolding registration.select_convs by (rule e)
        have g: "rg_config ?r = Some x" "rg_manifest ?r = Some m" "rg_plugin_id ?r = ?pid" "rg_source ?r = cand_source c"
          unfolding registration.select_convs x(1) by simp_all
        show ?thesis
          unfolding sound_registration_def metric_keys_def f g
          using claim_metrics_ok [OF own] read_config_bounds [OF x(1)] v [unfolded validate_plugin_None] by simp
      qed
    qed simp_all
  qed
qed


lemma add_candidates_ok:
  "generation_ok regs owners \<Longrightarrow> add_candidates bi cs (regs, owners) = Inr (regs', owners') \<Longrightarrow> generation_ok regs' owners'"
proof (induction cs arbitrary: regs owners)
  case (Cons c cs)
  then obtain r o' where s: "add_candidate bi c (regs, owners) = Inr (r, o')" "add_candidates bi cs (r, o') = Inr (regs', owners')"
    by (auto simp: and_then_Inr)
  show ?case by (rule Cons.IH [OF add_candidate_ok [OF Cons.prems(1) s(1)] s(2)])
qed simp

lemma dict_update_failed:
  assumes "generation_ok regs owners" "\<And>pid r. (pid, r) \<in> set new \<Longrightarrow> rg_plugin_id r = pid \<and> rg_status r = Reg_failed"
  shows "generation_ok (dict_update regs new) owners"
  using assms
proof (induction new arbitrary: regs)
  case (Cons x new)
  obtain pid r where x: "x = (pid, r)" by fastforce
  have "rg_plugin_id r = pid" "rg_status r = Reg_failed" using Cons.prems(2) x by auto
  then have "generation_ok (AList.update pid r regs) owners" by (intro generation_update [OF Cons.prems(1)]) auto
  then have "generation_ok (dict_update (AList.update pid r regs) new) owners" by (rule Cons.IH) (use Cons.prems(2) in auto)
  then show ?case by (simp add: dict_update_def x)
qed (simp add: dict_update_def)

lemma empty_generation: "generation_ok [] owners"
  by (simp add: generation_ok_def)

lemma failed_update:
  assumes "generation_ok regs owners"
  shows "generation_ok (AList.update pid (failed_registration pid source e) regs) owners"
  by (rule generation_update [OF assms]) (simp_all add: failed_registration_def)

lemma first_registrations_ok: "generation_ok (first_registrations bi) []"
proof -
  have l: "generation_ok (dict_update [] (map (\<lambda>(name, reason). let pid = p name in (pid, failed_registration pid (q name) (e reason))) xs)) []"
    for p q :: "string \<Rightarrow> string" and e and xs :: "(string \<times> string) list"
    by (rule dict_update_failed [OF empty_generation]) (auto simp: failed_registration_def Let_def)
  show ?thesis
    unfolding first_registrations_def Let_def
    using l [unfolded Let_def] dict_update_failed [OF empty_generation, of "[]"] by (cases "bi_remote bi"; cases "bi_configured bi") (simp_all add: failed_update split: prod.splits)
qed

lemma built_ok:
  assumes "build_collector_registry bi g = Inr ry"
  shows "\<exists>owners. generation_ok (ry_registrations ry) owners"
proof -
  obtain regs owners where s: "add_candidates bi (candidates_of bi) (first_registrations bi, []) = Inr (regs, owners)"
    "ry = \<lparr>ry_registrations = add_not_installed bi regs, ry_generation = g\<rparr>"
    using assms by (auto simp: build_collector_registry_def and_then_Inr)
  have "generation_ok regs owners" by (rule add_candidates_ok [OF first_registrations_ok s(1)])
  then have "generation_ok (add_not_installed bi regs) owners"
    unfolding add_not_installed_def by (rule dict_update_failed) (auto simp: failed_registration_def)
  then show ?thesis using s(2) by auto
qed

lemma started_ok:
  assumes "generation_ok (ry_registrations ry) owners"
  shows "generation_ok (ry_registrations (start_collector_registry starts ry)) owners"
proof -
  have "generation_ok (fold (\<lambda>r regs. case starts (rg_plugin_id r) of None \<Rightarrow> regs
      | Some e \<Rightarrow> AList.update (rg_plugin_id r) (r\<lparr>rg_status := Reg_failed, rg_error := Some (Start_failed e)\<rparr>) regs) rs regs) owners"
    if "generation_ok regs owners" for rs regs
    using that
  proof (induction rs arbitrary: regs)
    case (Cons r rs)
    have "generation_ok (AList.update (rg_plugin_id r) (r\<lparr>rg_status := Reg_failed, rg_error := Some (Start_failed e)\<rparr>) regs) owners" for e
      by (rule generation_update [OF Cons.prems]) simp_all
    then show ?case using Cons by (cases "starts (rg_plugin_id r)") simp_all
  qed simp
  then show ?thesis using assms by (simp add: start_collector_registry_def)
qed

lemma enabled_registrations: "r \<in> set (enabled ry) \<longleftrightarrow> (\<exists>pid. (pid, r) \<in> set (ry_registrations ry)) \<and> rg_status r = Reg_enabled"
  by (force simp: enabled_def)

text \<open>C38: 
  Every collector that a generation runs has a validated manifest with a well-formed id (\<open>builtin.\<close> only if
  it is built in) and a configuration with an interval of at least ten seconds and a positive
  timeout: what the scheduler and the runtime assert of a registration never fails.
\<close>
theorem enabled_is_sound:
  assumes "build_collector_registry bi g = Inr ry" "r \<in> set (enabled (start_collector_registry starts ry))"
  shows "sound_registration r"
  using built_ok [OF assms(1)] started_ok assms(2) by (fastforce simp: enabled_registrations generation_ok_def)

lemma distinct_concat_owner:
  assumes "distinct (map fst regs)" "\<And>pid r. (pid, r) \<in> set regs \<Longrightarrow> distinct (f r) \<and> (\<forall>k\<in>set (f r). own k = Some pid)"
  shows "distinct (concat (map (f \<circ> snd) regs))"
  using assms
proof (induction regs)
  case (Cons x regs)
  obtain pid r where x: "x = (pid, r)" by fastforce
  have "set (f r) \<inter> set (concat (map (f \<circ> snd) regs)) = {}"
  proof (rule ccontr)
    assume "set (f r) \<inter> set (concat (map (f \<circ> snd) regs)) \<noteq> {}"
    then obtain k p q where k: "k \<in> set (f r)" "(p, q) \<in> set regs" "k \<in> set (f q)" by auto
    then have "own k = Some pid" "own k = Some p" using Cons.prems(2) x by auto
    then show False using Cons.prems(1) x k(2) by (force simp: image_iff)
  qed
  moreover have "distinct (concat (map (f \<circ> snd) regs))" by (rule Cons.IH) (use Cons.prems in auto)
  moreover have "distinct (f r)" using Cons.prems(2) x by auto
  ultimately show ?case by (simp add: x comp_def)
qed simp

text \<open>C19: 
  In a generation no two enabled collectors, and no one twice, declare the same metric key: a stored metric key belongs to one
  plugin.
\<close>
theorem metric_keys_have_one_owner:
  assumes "build_collector_registry bi g = Inr ry"
  shows "distinct (map (md_key \<circ> snd) (metric_catalog (start_collector_registry starts ry)))"
proof -
  let ?ry = "start_collector_registry starts ry"
  obtain owners where g: "generation_ok (ry_registrations ?ry) owners" using built_ok [OF assms] started_ok by blast
  let ?f = "\<lambda>r. if rg_status r = Reg_enabled then metric_keys r else []"
  have "distinct (concat (map (?f \<circ> snd) (ry_registrations ?ry)))"
    by (rule distinct_concat_owner [where own = "map_of owners"]) (use g in \<open>auto simp: generation_ok_def\<close>)
  moreover have "concat (map (?f \<circ> snd) rs) = map (md_key \<circ> snd) (concat (map (\<lambda>r. case rg_manifest r of None \<Rightarrow> []
       | Some m \<Rightarrow> map (Pair (rg_plugin_id r)) (mf_metric_definitions m)) (filter (\<lambda>r. rg_status r = Reg_enabled) (map snd rs))))" for rs :: registrations
    by (induction rs) (auto simp: metric_keys_def split: option.splits)
  ultimately show ?thesis by (simp only: metric_catalog_def enabled_def)
qed


lemma start_map:
  assumes "distinct (map rg_plugin_id rs)"
  shows "map_of (fold (\<lambda>r regs. case starts (rg_plugin_id r) of None \<Rightarrow> regs
      | Some e \<Rightarrow> AList.update (rg_plugin_id r) (r\<lparr>rg_status := Reg_failed, rg_error := Some (Start_failed e)\<rparr>) regs) rs regs) pid
     = (case find (\<lambda>r. rg_plugin_id r = pid) rs of
          None \<Rightarrow> map_of regs pid
        | Some r \<Rightarrow> (case starts pid of None \<Rightarrow> map_of regs pid
            | Some e \<Rightarrow> Some (r\<lparr>rg_status := Reg_failed, rg_error := Some (Start_failed e)\<rparr>)))"
  using assms
proof (induction rs arbitrary: regs)
  case (Cons r rs)
  have "find (\<lambda>r. rg_plugin_id r = pid) rs = None" if "rg_plugin_id r = pid" using Cons.prems that unfolding find_None_iff by (metis distinct.simps(2) image_eqI list.set_map list.simps(9))
  then show ?case using Cons by (cases "starts (rg_plugin_id r)"; cases "rg_plugin_id r = pid") (auto split: option.splits)
qed simp

lemma distinct_ids: "generation_ok regs owners \<Longrightarrow> map rg_plugin_id (map snd regs) = map fst regs"
  by (auto simp: generation_ok_def)

text \<open>
  Starting a generation isolates failures: exactly the collectors whose start raises are no longer
  enabled, and every other one is enabled as it was.
\<close>
theorem start_isolates_failures:
  assumes "build_collector_registry bi g = Inr ry"
  shows "set (enabled (start_collector_registry starts ry)) = {r \<in> set (enabled ry). starts (rg_plugin_id r) = None}"
proof -
  let ?regs = "ry_registrations ry" and ?new = "ry_registrations (start_collector_registry starts ry)"
  obtain owners where ok: "generation_ok ?regs owners" using built_ok [OF assms] by blast
  then have ok': "generation_ok ?new owners" by (rule started_ok)
  have d: "distinct (map rg_plugin_id (enabled ry))"
    unfolding enabled_def by (rule distinct_map_filterI) (use ok in \<open>simp only: distinct_ids [OF ok] generation_ok_def\<close>)
  have mem: "(pid, r) \<in> set regs \<longleftrightarrow> map_of regs pid = Some r" if "generation_ok regs owners" for pid r regs
    using that by (auto simp: generation_ok_def intro: map_of_SomeD)
  have en: "r \<in> set (enabled ry') \<longleftrightarrow> map_of (ry_registrations ry') (rg_plugin_id r) = Some r \<and> rg_status r = Reg_enabled"
    if "generation_ok (ry_registrations ry') owners" for ry' r
    unfolding enabled_registrations mem [OF that, symmetric] using that by (auto simp: generation_ok_def)
  have m: "map_of ?new pid = (case find (\<lambda>r. rg_plugin_id r = pid) (enabled ry) of None \<Rightarrow> map_of ?regs pid
      | Some r \<Rightarrow> (case starts pid of None \<Rightarrow> map_of ?regs pid
          | Some e \<Rightarrow> Some (r\<lparr>rg_status := Reg_failed, rg_error := Some (Start_failed e)\<rparr>)))" for pid
    unfolding start_collector_registry_def using start_map [OF d] by simp
  show ?thesis
  proof (rule set_eqI)
    fix r
    show "r \<in> set (enabled (start_collector_registry starts ry)) \<longleftrightarrow> r \<in> {r \<in> set (enabled ry). starts (rg_plugin_id r) = None}"
    proof (cases "find (\<lambda>x. rg_plugin_id x = rg_plugin_id r) (enabled ry)")
      case None
      then have "r \<notin> set (enabled ry)" by (auto simp: find_None_iff)
      then show ?thesis using en [OF ok'] en [OF ok] m None by auto
    next
      case (Some q)
      then have q: "q \<in> set (enabled ry)" "rg_plugin_id q = rg_plugin_id r" using find_Some_iff_in by fastforce+
      then show ?thesis using en [OF ok'] en [OF ok] m Some by (cases "starts (rg_plugin_id r)") auto
    qed
  qed
qed

lemma failed_stays:
  assumes "add_candidate bi c (regs, owners) = Inr (regs', owners')" "map_of regs pid = Some r" "rg_status r = Reg_failed"
  shows "\<exists>r'. map_of regs' pid = Some r' \<and> rg_status r' = Reg_failed"
  using assms by (auto simp: add_candidate_def failed_registration_def Let_def split: option.splits sum.splits if_splits prod.splits)

lemma present_stays:
  assumes "add_candidate bi c (regs, owners) = Inr (regs', owners')" "map_of regs pid \<noteq> None"
  shows "map_of regs' pid \<noteq> None"
  using assms by (auto simp: add_candidate_def Let_def split: option.splits sum.splits if_splits prod.splits)

lemma candidate_registers:
  assumes "add_candidate bi c (regs, owners) = Inr (regs', owners')" "cand_manifest c = Some m"
  shows "map_of regs' (mf_id m) \<noteq> None"
    "map_of regs (mf_id m) \<noteq> None \<Longrightarrow> \<exists>r. map_of regs' (mf_id m) = Some r \<and> rg_status r = Reg_failed"
  using assms by (auto simp: add_candidate_def Let_def split: sum.splits if_splits prod.splits option.splits)


lemma candidates_failed:
  shows "add_candidates bi cs (regs, owners) = Inr (regs', owners') \<Longrightarrow> map_of regs pid \<noteq> None \<Longrightarrow> map_of regs' pid \<noteq> None"
    "add_candidates bi cs (regs, owners) = Inr (regs', owners') \<Longrightarrow> \<exists>r. map_of regs pid = Some r \<and> rg_status r = Reg_failed
       \<Longrightarrow> \<exists>r. map_of regs' pid = Some r \<and> rg_status r = Reg_failed"
    "add_candidates bi cs (regs, owners) = Inr (regs', owners') \<Longrightarrow> map_of regs pid \<noteq> None
       \<Longrightarrow> \<exists>c\<in>set cs. \<exists>m. cand_manifest c = Some m \<and> mf_id m = pid
       \<Longrightarrow> \<exists>r. map_of regs' pid = Some r \<and> rg_status r = Reg_failed"
proof (induction cs arbitrary: regs owners)
  case (Cons c cs)
  have step: "\<exists>r o'. add_candidate bi c (regs, owners) = Inr (r, o') \<and> add_candidates bi cs (r, o') = Inr (regs', owners')"
    if "add_candidates bi (c # cs) (regs, owners) = Inr (regs', owners')" for regs owners using that by (auto simp: and_then_Inr)
  { case 1
    from step [OF 1(1)] obtain r o' where s: "add_candidate bi c (regs, owners) = Inr (r, o')" "add_candidates bi cs (r, o') = Inr (regs', owners')" by blast
    show ?case by (rule Cons.IH(1) [OF s(2) present_stays [OF s(1) 1(2)]]) }
  { case 2
    from step [OF 2(1)] obtain r o' where s: "add_candidate bi c (regs, owners) = Inr (r, o')" "add_candidates bi cs (r, o') = Inr (regs', owners')" by blast
    show ?case by (rule Cons.IH(2) [OF s(2)]) (use 2(2) failed_stays [OF s(1)] in blast) }
  { case 3
    from step [OF 3(1)] obtain r o' where s: "add_candidate bi c (regs, owners) = Inr (r, o')" "add_candidates bi cs (r, o') = Inr (regs', owners')" by blast
    show ?case
    proof (cases "\<exists>m. cand_manifest c = Some m \<and> mf_id m = pid")
      case True
      then have "\<exists>q. map_of r pid = Some q \<and> rg_status q = Reg_failed" using candidate_registers(2) [OF s(1)] 3(2) by blast
      then show ?thesis by (rule Cons.IH(2) [OF s(2)])
    next
      case False
      then have "\<exists>c\<in>set cs. \<exists>m. cand_manifest c = Some m \<and> mf_id m = pid" using 3(3) by auto
      then show ?thesis by (rule Cons.IH(3) [OF s(2) present_stays [OF s(1) 3(2)]])
    qed }
qed auto

lemma candidates_append: "add_candidates bi (cs @ ds) st = and_then (add_candidates bi cs st) (add_candidates bi ds)"
  by (induction cs arbitrary: st) (auto simp: and_then_def split: sum.splits)

text \<open>
  When two candidates have the same id, neither runs: the id is failed, whichever of the two came
  first and whatever they declare.
\<close>
theorem duplicate_ids_run_neither:
  assumes "build_collector_registry bi g = Inr ry"
    "candidates_of bi = cs @ c # ds" "cand_manifest c = Some m"
    "d \<in> set ds" "cand_manifest d = Some m'" "mf_id m' = mf_id m"
  shows "get_registration ry (mf_id m) \<noteq> None \<and> (\<forall>r. r \<in> set (enabled ry) \<longrightarrow> rg_plugin_id r \<noteq> mf_id m)"
proof -
  obtain regs owners where s: "add_candidates bi (candidates_of bi) (first_registrations bi, []) = Inr (regs, owners)"
    "ry = \<lparr>ry_registrations = add_not_installed bi regs, ry_generation = g\<rparr>"
    using assms(1) by (auto simp: build_collector_registry_def and_then_Inr)
  obtain r1 o1 r2 o2 where 2: "add_candidate bi c (r1, o1) = Inr (r2, o2)" "add_candidates bi ds (r2, o2) = Inr (regs, owners)"
    using s(1) unfolding assms(2) candidates_append by (auto simp: and_then_Inr)
  have f: "\<exists>r. map_of regs (mf_id m) = Some r \<and> rg_status r = Reg_failed"
    by (rule candidates_failed(3) [OF 2(2) candidate_registers(1) [OF 2(1) assms(3)]]) (use assms(4-6) in auto)
  have "map_of (rev (map (\<lambda>pid. (pid, h pid)) (filter (\<lambda>pid. map_of regs pid = None) ps))) (mf_id m) = None" for h :: "string \<Rightarrow> registration" and ps
    using f map_of_SomeD [of regs "mf_id m"] by (force simp: map_of_eq_None_iff)
  then have g: "\<exists>r. get_registration ry (mf_id m) = Some r \<and> rg_status r = Reg_failed"
    using f by (simp add: get_registration_def s(2) add_not_installed_def map_of_dict_update map_add_def)
  obtain own where ok: "generation_ok (ry_registrations ry) own" using built_ok [OF assms(1)] by blast
  have "rg_plugin_id r \<noteq> mf_id m" if "r \<in> set (enabled ry)" for r
  proof
    assume e: "rg_plugin_id r = mf_id m"
    from that obtain pid where p: "(pid, r) \<in> set (ry_registrations ry)" "rg_status r = Reg_enabled" by (auto simp: enabled_registrations)
    then have "pid = mf_id m" "map_of (ry_registrations ry) pid = Some r" using ok e by (auto simp: generation_ok_def)
    then show False using g p(2) by (auto simp: get_registration_def)
  qed
  then show ?thesis using g by auto
qed


subsection \<open>A generation\<close>

definition sample_manifest :: "string \<Rightarrow> string list \<Rightarrow> collector_manifest" where
  "sample_manifest pid keys =
     \<lparr>mf_id = pid, mf_display_name = ''x'', mf_version = ''1'', mf_api_version = 1, mf_data_kinds = [''metric''],
      mf_default_interval_seconds = 60,
      mf_metric_definitions = map (\<lambda>k. \<lparr>md_key = k, md_display_name = ''x'', md_unit = ''x'', md_entity_type = ''x'',
        md_series_mode = ''x'', md_category = ''x'', md_description = ''''\<rparr>) keys,
      mf_description = '''', mf_default_timeout_seconds = Fin 45, mf_setup_actions = []\<rparr>"

definition sample_candidate :: "string \<Rightarrow> string \<Rightarrow> string list \<Rightarrow> candidate" where
  "sample_candidate source pid keys =
     \<lparr>cand_manifest = Some (sample_manifest pid keys), cand_is_plugin = True, cand_source = source, cand_id = pid\<rparr>"

definition sample_build :: "candidate list \<Rightarrow> build_inputs" where
  "sample_build remote =
     \<lparr>bi_float_text = (\<lambda>_. None), bi_settings = \<lparr>rs_event_poll_interval = 30, rs_perf_sample_interval = 300\<rparr>,
      bi_environ = [(''VEA_COLLECTOR__ACME_TEMP__ENABLED'', '' Yes '')], bi_overrides = [(''acme.fan'', [(''enabled'', JBool True)])],
      bi_configured = Some [(''acme.temp'', [(''interval_seconds'', JInt 20)])],
      bi_builtins = [sample_candidate ''builtin'' ''builtin.vcenter.events'' [''a.x'']],
      bi_remote = Inl (remote, [])\<rparr>"

definition sample_remote :: "candidate list" where
  "sample_remote = [sample_candidate ''entry_point:t'' ''acme.temp'' [''b.t''], sample_candidate ''entry_point:f'' ''acme.fan'' [''b.f'', ''a.x'']]"

definition sample_twice :: "candidate list" where
  "sample_twice = [sample_candidate ''entry_point:t'' ''acme.temp'' [''b.t''], sample_candidate ''entry_point:u'' ''acme.temp'' []]"

definition sample_registry :: "candidate list \<Rightarrow> registry" where
  "sample_registry remote = (case build_collector_registry (sample_build remote) 1 of Inr ry \<Rightarrow> ry | Inl e \<Rightarrow> \<lparr>ry_registrations = [], ry_generation = 0\<rparr>)"

lemma sample_statuses:
  "map (\<lambda>(pid, r). (pid, rg_status r, rg_error r)) (ry_registrations (sample_registry sample_remote)) =
     [(''builtin.vcenter.events'', Reg_enabled, None), (''acme.temp'', Reg_enabled, None),
      (''acme.fan'', Reg_failed, Some (Metric_key_owned ''a.x'' ''builtin.vcenter.events''))]"
  by code_simp


lemma sample_built: "build_collector_registry (sample_build sample_remote) 1 = Inr (sample_registry sample_remote)"
  "build_collector_registry (sample_build sample_twice) 1 = Inr (sample_registry sample_twice)"
proof -
  have "\<not> isl (build_collector_registry (sample_build sample_remote) 1)" "\<not> isl (build_collector_registry (sample_build sample_twice) 1)"
    by code_simp+
  then show "build_collector_registry (sample_build sample_remote) 1 = Inr (sample_registry sample_remote)"
    "build_collector_registry (sample_build sample_twice) 1 = Inr (sample_registry sample_twice)"
    by (auto simp: sample_registry_def split: sum.splits)
qed

definition sample_started :: registration where
  "sample_started = (case get_registration (sample_registry sample_remote) ''acme.temp'' of Some r \<Rightarrow> r
     | None \<Rightarrow> failed_registration [] [] Bad_contract)"

lemma enabled_is_sound_witness: "sound_registration sample_started"
proof (rule enabled_is_sound [OF sample_built(1)])
  have "list_ex (\<lambda>r. r = sample_started) (enabled (start_collector_registry (\<lambda>pid. if pid = ''builtin.vcenter.events'' then Some ''OSError'' else None)
      (sample_registry sample_remote)))" by code_simp
  then show "sample_started \<in> set (enabled (start_collector_registry (\<lambda>pid. if pid = ''builtin.vcenter.events'' then Some ''OSError'' else None)
      (sample_registry sample_remote)))" by (auto simp: list_ex_iff)
qed

lemma metric_keys_have_one_owner_witness:
  "distinct (map (md_key \<circ> snd) (metric_catalog (start_collector_registry (\<lambda>_. None) (sample_registry sample_remote))))"
  by (rule metric_keys_have_one_owner [OF sample_built(1)])

lemma start_isolates_failures_witness:
  "set (enabled (start_collector_registry (\<lambda>pid. if pid = ''acme.temp'' then Some ''OSError'' else None) (sample_registry sample_remote)))
     = {r \<in> set (enabled (sample_registry sample_remote)). (if rg_plugin_id r = ''acme.temp'' then Some ''OSError'' else None) = None}"
  by (rule start_isolates_failures [OF sample_built(1)])

lemma duplicate_ids_run_neither_witness:
  "get_registration (sample_registry sample_twice) (mf_id (sample_manifest ''acme.temp'' [''b.t''])) \<noteq> None \<and>
   (\<forall>r. r \<in> set (enabled (sample_registry sample_twice)) \<longrightarrow> rg_plugin_id r \<noteq> mf_id (sample_manifest ''acme.temp'' [''b.t'']))"
  by (rule duplicate_ids_run_neither [OF sample_built(2), where cs = "[sample_candidate ''builtin'' ''builtin.vcenter.events'' [''a.x'']]"
        and c = "sample_candidate ''entry_point:t'' ''acme.temp'' [''b.t'']" and d = "sample_candidate ''entry_point:u'' ''acme.temp'' []"
        and ds = "[sample_candidate ''entry_point:u'' ''acme.temp'' []]" and m' = "sample_manifest ''acme.temp'' []"])
    (simp_all add: candidates_of_def sample_build_def sample_twice_def sample_candidate_def sample_manifest_def)

lemma add_candidates_overflow:
  assumes "c \<in> set cs" "cand_manifest c = Some m"
    "dict_get_or (raw_config bi (mf_id m)) ''interval_seconds'' (JInt (legacy_interval (bi_settings bi) m)) = JFloat PosInf"
  shows "add_candidates bi cs st = Inl OverflowError"
  using assms(1)
proof (induction cs arbitrary: st)
  case (Cons a cs)
  obtain regs owners where st: "st = (regs, owners)" by fastforce
  have only: "add_candidate bi a st = Inl e \<Longrightarrow> e = OverflowError" for e
    by (auto simp: add_candidate_def st Let_def split: option.splits sum.splits if_splits prod.splits)
  have "add_candidate bi c st = Inl OverflowError"
    using assms(2,3) by (simp add: add_candidate_def st Let_def read_config_def int_conversion_def)
  then show ?case using Cons only by (cases "add_candidate bi a st") auto
qed simp

text \<open>
  A TOML file may set an interval to \<open>inf\<close>. Converting it raises \<open>OverflowError\<close>, which the loop does not catch,
  so that no generation is built at all: the mistake in one plugin's table is not isolated.
\<close>
theorem infinite_interval_is_not_isolated:
  assumes "c \<in> set (candidates_of bi)" "cand_manifest c = Some m"
    "dict_get_or (raw_config bi (mf_id m)) ''interval_seconds'' (JInt (legacy_interval (bi_settings bi) m)) = JFloat PosInf"
  shows "build_collector_registry bi g = Inl OverflowError"
  using add_candidates_overflow [OF assms] by (simp add: build_collector_registry_def)

definition sample_infinite :: build_inputs where
  "sample_infinite = (sample_build sample_remote)\<lparr>bi_configured := Some [(''acme.fan'', [(''interval_seconds'', JFloat PosInf)])]\<rparr>"

lemma infinite_interval_is_not_isolated_witness: "build_collector_registry sample_infinite 1 = Inl OverflowError"
proof (rule infinite_interval_is_not_isolated)
  show "sample_candidate ''entry_point:f'' ''acme.fan'' [''b.f'', ''a.x''] \<in> set (candidates_of sample_infinite)"
    by (simp add: candidates_of_def sample_infinite_def sample_build_def sample_remote_def)
  show "cand_manifest (sample_candidate ''entry_point:f'' ''acme.fan'' [''b.f'', ''a.x'']) = Some (sample_manifest ''acme.fan'' [''b.f'', ''a.x''])"
    by (simp add: sample_candidate_def)
  show "dict_get_or (raw_config sample_infinite (mf_id (sample_manifest ''acme.fan'' [''b.f'', ''a.x'']))) ''interval_seconds''
      (JInt (legacy_interval (bi_settings sample_infinite) (sample_manifest ''acme.fan'' [''b.f'', ''a.x'']))) = JFloat PosInf" by code_simp
qed

end
