(* ===== verification/Scheduler.thy ===== *)
theory Scheduler
  imports Registry
begin

section \<open>Scheduled jobs and the reload of collectors (jobs/scheduler.py, plugins/reload.py, services/plugin\_settings.py)\<close>

text \<open>
  The jobs the scheduler holds (of a job: its id, what it runs, when, and the grace for a late start),
  the jobs registered at the start, their adjustment to a new generation of collectors, the settings of collectors in the
  database and the reload that puts the three together. Adding a job with an id that is taken is the
  error of the scheduler library.
\<close>

subsection \<open>Jobs\<close>

datatype job_task =
    Run_collector string | Evaluate_alerts | Deliver_notifications | Purge_retention | Web_research
  | Daily_digest | Weekly_digest | Monthly_digest

datatype trigger = Every int | Cron string

record job =
  jb_id :: string
  jb_task :: job_task
  jb_trigger :: trigger
  jb_misfire_grace :: int

datatype scheduler_error = ConflictingId string | BadCrontab string

definition interval_misfire_grace_seconds :: "int \<Rightarrow> int" where
  "interval_misfire_grace_seconds interval = max 1 (interval div 2)"

definition DIGEST_CRON_MISFIRE_GRACE_SECONDS :: int where "DIGEST_CRON_MISFIRE_GRACE_SECONDS = 3600"

definition LEGACY_COLLECTOR_JOB_IDS :: "(string, string) dict" where
  "LEGACY_COLLECTOR_JOB_IDS = [(''builtin.vcenter.events'', ''poll_events''), (''builtin.vcenter.host_quickstats'', ''poll_perf'')]"

definition COLLECTOR_JOB_ID_PREFIX :: string where "COLLECTOR_JOB_ID_PREFIX = ''collector:''"

definition collector_job_id :: "string \<Rightarrow> string" where
  "collector_job_id pid = (case map_of LEGACY_COLLECTOR_JOB_IDS pid of Some i \<Rightarrow> i | None \<Rightarrow> COLLECTOR_JOB_ID_PREFIX @ pid)"

definition is_collector_job_id :: "string \<Rightarrow> bool" where
  "is_collector_job_id i = (i \<in> set (map snd LEGACY_COLLECTOR_JOB_IDS) \<or> startswith i COLLECTOR_JOB_ID_PREFIX)"

definition job_with :: "string \<Rightarrow> job list \<Rightarrow> job option" where
  "job_with i jobs = find (\<lambda>j. jb_id j = i) jobs"

definition add_job :: "job \<Rightarrow> job list \<Rightarrow> scheduler_error + job list" where
  "add_job j jobs = (if job_with (jb_id j) jobs \<noteq> None then Inl (ConflictingId (jb_id j)) else Inr (jobs @ [j]))"

definition interval_job :: "string \<Rightarrow> job_task \<Rightarrow> int \<Rightarrow> job" where
  "interval_job i task secs =
     \<lparr>jb_id = i, jb_task = task, jb_trigger = Every secs, jb_misfire_grace = interval_misfire_grace_seconds secs\<rparr>"

definition collector_job :: "string \<Rightarrow> int \<Rightarrow> job" where
  "collector_job pid secs = interval_job (collector_job_id pid) (Run_collector pid) secs"

definition collector_intervals :: "registry \<Rightarrow> (string \<times> int) list" where
  \<comment> \<open>plugin id and interval of the enabled registrations that have a configuration\<close>
  "collector_intervals ry =
     List.map_filter (\<lambda>r. map_option (\<lambda>c. (rg_plugin_id r, cc_interval_seconds c)) (rg_config r)) (enabled ry)"

fun add_jobs :: "job list \<Rightarrow> job list \<Rightarrow> scheduler_error + job list" where
  "add_jobs [] jobs = Inr jobs"
| "add_jobs (j # js) jobs = and_then (add_job j jobs) (add_jobs js)"

record job_settings =
  js_alert_eval_interval :: int
  js_alert_delivery_interval :: int
  js_purge_interval_hours :: int
  js_research_interval :: int
  js_search_provider :: bool \<comment> \<open>\<open>build_search_provider(settings) is not None\<close>\<close>
  js_daily :: "string option" \<comment> \<open>the crontab of an enabled digest\<close>
  js_weekly :: "string option"
  js_monthly :: "string option"

definition cron_job :: "string \<Rightarrow> job_task \<Rightarrow> string option \<Rightarrow> job list" where
  "cron_job i task crontab =
     (case crontab of None \<Rightarrow> []
      | Some c \<Rightarrow> [\<lparr>jb_id = i, jb_task = task, jb_trigger = Cron c, jb_misfire_grace = DIGEST_CRON_MISFIRE_GRACE_SECONDS\<rparr>])"

definition digest_jobs :: "job_settings \<Rightarrow> job list" where
  \<comment> \<open>\<open>add_digest_cron_jobs\<close>\<close>
  "digest_jobs s =
     cron_job ''digest_daily'' Daily_digest (js_daily s) @ cron_job ''digest_weekly'' Weekly_digest (js_weekly s)
       @ cron_job ''digest_monthly'' Monthly_digest (js_monthly s)"

definition fixed_jobs :: "job_settings \<Rightarrow> job list" where
  "fixed_jobs s =
     [interval_job ''evaluate_alerts'' Evaluate_alerts (js_alert_eval_interval s),
      interval_job ''deliver_alert_notifications'' Deliver_notifications (js_alert_delivery_interval s),
      interval_job ''purge_metrics'' Purge_retention (js_purge_interval_hours s * 3600)]
     @ (if js_search_provider s then [interval_job ''web_research'' Web_research (js_research_interval s)] else [])
     @ digest_jobs s"

definition setup_scheduler :: "(string \<Rightarrow> bool) \<Rightarrow> job_settings \<Rightarrow> registry \<Rightarrow> scheduler_error + job list" where
  \<comment> \<open>\<open>crontab_ok\<close>: whether the library can parse a crontab\<close>
  "setup_scheduler crontab_ok s ry =
     (case find (\<lambda>c. \<not> crontab_ok c) (List.map_filter id [js_daily s, js_weekly s, js_monthly s]) of
        Some c \<Rightarrow> Inl (BadCrontab c)
      | None \<Rightarrow> add_jobs (map (\<lambda>(pid, i). collector_job pid i) (collector_intervals ry) @ fixed_jobs s) [])"

record job_changes =
  ch_added :: "string list"
  ch_removed :: "string list"
  ch_rescheduled :: "string list"

fun reconcile_loop ::
  "job list \<Rightarrow> (string, string \<times> int) dict \<Rightarrow> job list \<times> job_changes \<Rightarrow> scheduler_error + job list \<times> job_changes" where
  \<comment> \<open>the loop over the desired jobs; \<open>existing\<close> is the snapshot of the collector jobs\<close>
  "reconcile_loop existing [] st = Inr st"
| "reconcile_loop existing ((i, pid, interval) # ds) (jobs, ch) =
     (case job_with i existing of
        None \<Rightarrow> and_then (add_job (interval_job i (Run_collector pid) interval) jobs) (\<lambda>jobs.
                  reconcile_loop existing ds (jobs, ch\<lparr>ch_added := ch_added ch @ [pid]\<rparr>))
      | Some j \<Rightarrow>
          if jb_trigger j \<noteq> Every interval
          then reconcile_loop existing ds (map (\<lambda>j. if jb_id j = i then j\<lparr>jb_trigger := Every interval\<rparr> else j) jobs,
                 ch\<lparr>ch_rescheduled := ch_rescheduled ch @ [pid]\<rparr>)
          else reconcile_loop existing ds (jobs, ch))"

definition desired_jobs :: "registry \<Rightarrow> (string, string \<times> int) dict" where
  "desired_jobs ry = dict_update [] (map (\<lambda>(pid, i). (collector_job_id pid, pid, i)) (collector_intervals ry))"

definition reconcile_collector_jobs :: "registry \<Rightarrow> job list \<Rightarrow> scheduler_error + job list \<times> job_changes" where
  "reconcile_collector_jobs ry jobs =
     (let desired = desired_jobs ry;
          existing = filter (\<lambda>j. is_collector_job_id (jb_id j)) jobs;
          removed = filter (\<lambda>i. map_of desired i = None) (map jb_id existing)
      in reconcile_loop existing desired
           (filter (\<lambda>j. jb_id j \<notin> set removed) jobs, \<lparr>ch_added = [], ch_removed = removed, ch_rescheduled = []\<rparr>))"

subsection \<open>Settings in the database (services/plugin\_settings.py)\<close>

record plugin_setting =
  ps_plugin_id :: string
  ps_enabled :: "bool option"
  ps_interval_seconds :: "int option"
  ps_timeout_seconds :: "pyfloat option"
  ps_config_values :: "(string, json) dict option"
  ps_managed :: bool

definition setting_values :: "plugin_setting \<Rightarrow> (string, json) dict" where
  "setting_values row =
     (case ps_enabled row of None \<Rightarrow> [] | Some b \<Rightarrow> [(''enabled'', JBool b)])
     @ (case ps_interval_seconds row of None \<Rightarrow> [] | Some i \<Rightarrow> [(''interval_seconds'', JInt i)])
     @ (case ps_timeout_seconds row of None \<Rightarrow> [] | Some t \<Rightarrow> [(''timeout_seconds'', JFloat t)])
     @ (case ps_config_values row of None \<Rightarrow> []
        | Some v \<Rightarrow> (''config_values'', JObj v) # (if ps_managed row then [(''replace_config'', JBool True)] else []))"

definition load_collector_db_overrides :: "plugin_setting list \<Rightarrow> (string, (string, json) dict) dict" where
  "load_collector_db_overrides rows =
     dict_update [] (map (\<lambda>row. (ps_plugin_id row, setting_values row)) (filter (\<lambda>row. setting_values row \<noteq> []) rows))"

definition MIN_INTERVAL_SECONDS :: int where "MIN_INTERVAL_SECONDS = 10"

definition empty_setting :: "string \<Rightarrow> plugin_setting" where
  "empty_setting pid = \<lparr>ps_plugin_id = pid, ps_enabled = None, ps_interval_seconds = None, ps_timeout_seconds = None,
     ps_config_values = None, ps_managed = False\<rparr>"

definition upsert_setting :: "string \<Rightarrow> (plugin_setting \<Rightarrow> plugin_setting) \<Rightarrow> plugin_setting list \<Rightarrow> plugin_setting list" where
  \<comment> \<open>the row of the plugin, created if it is missing, with the change\<close>
  "upsert_setting pid f rows =
     (if list_ex (\<lambda>r. ps_plugin_id r = pid) rows then map (\<lambda>r. if ps_plugin_id r = pid then f r else r) rows
      else rows @ [f (empty_setting pid)])"

definition or_keep :: "'a option \<Rightarrow> 'a option \<Rightarrow> 'a option" where
  "or_keep new old = (case new of None \<Rightarrow> old | Some v \<Rightarrow> Some v)"

definition update_collector_setting ::
  "string \<Rightarrow> bool option \<Rightarrow> int option \<Rightarrow> pyfloat option \<Rightarrow> plugin_setting list \<Rightarrow> string + plugin_setting list" where
  \<comment> \<open>\<open>Inl\<close>: \<open>ValueError\<close>\<close>
  "update_collector_setting pid on interval timeout rows =
     (if (case interval of None \<Rightarrow> False | Some i \<Rightarrow> i < MIN_INTERVAL_SECONDS) then Inl ''interval_seconds''
      else if (case timeout of None \<Rightarrow> False | Some t \<Rightarrow> not_positive t) then Inl ''timeout_seconds''
      else Inr (upsert_setting pid (\<lambda>r. r\<lparr>ps_enabled := or_keep on (ps_enabled r),
             ps_interval_seconds := or_keep interval (ps_interval_seconds r),
             ps_timeout_seconds := or_keep timeout (ps_timeout_seconds r)\<rparr>) rows))"

subsection \<open>Reloading (plugins/reload.py)\<close>

record app_state =
  ap_registry :: registry
  ap_jobs :: "job list option" \<comment> \<open>none if no scheduler runs\<close>
  ap_stopped :: "nat list" \<comment> \<open>the generations that were shut down\<close>

datatype reload_error = Build_failed | Jobs_failed

definition no_changes :: job_changes where
  "no_changes = \<lparr>ch_added = [], ch_removed = [], ch_rescheduled = []\<rparr>"

definition reload_collector_registry ::
  "build_inputs \<Rightarrow> (string \<Rightarrow> string option) \<Rightarrow> plugin_setting list \<Rightarrow> app_state \<Rightarrow> (reload_error + nat \<times> job_changes) \<times> app_state" where
  \<comment> \<open>the result or the exception, and the state it leaves\<close>
  "reload_collector_registry bi starts rows app =
     (let previous = ap_registry app
      in (case build_collector_registry (bi\<lparr>bi_overrides := load_collector_db_overrides rows\<rparr>) (ry_generation previous + 1) of
            Inl e \<Rightarrow> (Inl Build_failed, app)
          | Inr candidate \<Rightarrow>
              (let started = start_collector_registry starts candidate;
                   app = app\<lparr>ap_registry := started\<rparr>;
                   stop = (\<lambda>app. app\<lparr>ap_stopped := ap_stopped app @ [ry_generation previous]\<rparr>)
               in (case ap_jobs app of
                     None \<Rightarrow> (Inr (ry_generation started, no_changes), stop app)
                   | Some jobs \<Rightarrow>
                       (case reconcile_collector_jobs started jobs of
                          Inl e \<Rightarrow> (Inl Jobs_failed, app)
                        | Inr (jobs, ch) \<Rightarrow> (Inr (ry_generation started, ch), stop (app\<lparr>ap_jobs := Some jobs\<rparr>)))))))"


subsection \<open>Job ids\<close>

lemma collector_job_id_inject [simp]: "collector_job_id p = collector_job_id q \<longleftrightarrow> p = q"
  by (auto simp: collector_job_id_def LEGACY_COLLECTOR_JOB_IDS_def COLLECTOR_JOB_ID_PREFIX_def split: if_splits)

lemma is_collector_collector_job_id [simp]: "is_collector_job_id (collector_job_id p)"
  by (auto simp: collector_job_id_def is_collector_job_id_def LEGACY_COLLECTOR_JOB_IDS_def startswith_def COLLECTOR_JOB_ID_PREFIX_def)

lemma fixed_not_collector: "j \<in> set (fixed_jobs s) \<Longrightarrow> \<not> is_collector_job_id (jb_id j) \<and> (\<forall>pid. jb_task j \<noteq> Run_collector pid)"
  by (auto simp: fixed_jobs_def digest_jobs_def cron_job_def interval_job_def is_collector_job_id_def LEGACY_COLLECTOR_JOB_IDS_def
      startswith_def COLLECTOR_JOB_ID_PREFIX_def split: option.splits if_splits)

definition jobs_ok :: "job list \<Rightarrow> bool" where
  \<comment> \<open>ids are unique, and the jobs with the id of a collector are those that run it\<close>
  "jobs_ok jobs \<longleftrightarrow> distinct (map jb_id jobs) \<and>
     (\<forall>j\<in>set jobs. (\<forall>pid. jb_task j = Run_collector pid \<longrightarrow> jb_id j = collector_job_id pid) \<and>
        (is_collector_job_id (jb_id j) \<longrightarrow> (\<exists>pid. jb_task j = Run_collector pid)))"

lemma job_with_Some: "distinct (map jb_id jobs) \<Longrightarrow> job_with i jobs = Some j \<longleftrightarrow> j \<in> set jobs \<and> jb_id j = i"
  using find_unique [of jb_id jobs j] by (auto simp: job_with_def dest: find_Some_iff_in)

lemma job_with_None: "job_with i jobs = None \<longleftrightarrow> i \<notin> jb_id ` set jobs"
  by (auto simp: job_with_def find_None_iff image_iff)

subsection \<open>Adjusting the jobs\<close>

definition desired_job :: "string \<times> int \<Rightarrow> job option \<Rightarrow> job" where
  \<comment> \<open>what becomes of the job of a collector: a new one, or the old one with the interval\<close>
  "desired_job d old =
     (case old of None \<Rightarrow> collector_job (fst d) (snd d)
      | Some j \<Rightarrow> if jb_trigger j \<noteq> Every (snd d) then j\<lparr>jb_trigger := Every (snd d)\<rparr> else j)"

lemma job_with_resched:
  "job_with k (map (\<lambda>j. if jb_id j = i then j\<lparr>jb_trigger := t\<rparr> else j) jobs) =
     (if k = i then map_option (\<lambda>j. j\<lparr>jb_trigger := t\<rparr>) (job_with i jobs) else job_with k jobs)"
  by (induction jobs) (auto simp: job_with_def)

lemma job_with_append: "job_with k (jobs @ [j]) = (case job_with k jobs of Some x \<Rightarrow> Some x | None \<Rightarrow> if jb_id j = k then Some j else None)"
  by (simp add: job_with_def find_append split: option.splits)

lemma loop_jobs:
  assumes "distinct (map fst ds)" "\<forall>(i, d) \<in> set ds. i = collector_job_id (fst d) \<and> job_with i existing = job_with i jobs"
    "distinct (map jb_id jobs)"
  shows "\<exists>jobs' ch'. reconcile_loop existing ds (jobs, ch) = Inr (jobs', ch') \<and> distinct (map jb_id jobs') \<and>
     (\<forall>k. job_with k jobs' = (case map_of ds k of None \<Rightarrow> job_with k jobs | Some d \<Rightarrow> Some (desired_job d (job_with k jobs))))"
  using assms
proof (induction ds arbitrary: jobs ch)
  case (Cons x ds)
  obtain i pid iv where x: "x = (i, pid, iv)" by (cases x) auto
  have i: "i = collector_job_id pid" "job_with i existing = job_with i jobs" and ni: "i \<notin> fst ` set ds" using Cons.prems x by auto
  then have out: "map_of ds i = None" by (simp add: map_of_eq_None_iff)
  have rest: "\<exists>jobs' ch'. reconcile_loop existing ds (new, c) = Inr (jobs', ch') \<and> distinct (map jb_id jobs') \<and>
     (\<forall>k. job_with k jobs' = (case map_of ds k of None \<Rightarrow> job_with k new | Some d \<Rightarrow> Some (desired_job d (job_with k new))))"
    if same: "\<And>k. k \<noteq> i \<Longrightarrow> job_with k new = job_with k jobs" and dn: "distinct (map jb_id new)" for new c
  proof (rule Cons.IH)
    show "\<forall>(k, d) \<in> set ds. k = collector_job_id (fst d) \<and> job_with k existing = job_with k new"
      using Cons.prems(2) ni same by (force simp: image_iff)
  qed (use Cons.prems(1) dn in auto)
  have final: ?case if f1: "reconcile_loop existing (x # ds) (jobs, ch) = reconcile_loop existing ds (new, c)"
    and f2: "\<And>k. k \<noteq> i \<Longrightarrow> job_with k new = job_with k jobs" and f3: "distinct (map jb_id new)"
    and f4: "job_with i new = Some (desired_job (pid, iv) (job_with i jobs))" for new c
  proof -
    obtain jobs' ch' where r: "reconcile_loop existing ds (new, c) = Inr (jobs', ch')" "distinct (map jb_id jobs')"
      "\<forall>k. job_with k jobs' = (case map_of ds k of None \<Rightarrow> job_with k new | Some d \<Rightarrow> Some (desired_job d (job_with k new)))"
      using rest [OF f2 f3] by blast
    have "job_with k jobs' = (case map_of (x # ds) k of None \<Rightarrow> job_with k jobs | Some d \<Rightarrow> Some (desired_job d (job_with k jobs)))" for k
      using r(3) f2 f4 out by (cases "k = i") (auto simp: x split: option.splits)
    then show ?thesis using f1 r(1,2) by auto
  qed
  show ?case
  proof (cases "job_with i jobs")
    case None
    let ?j = "interval_job i (Run_collector pid) iv"
    have a: "add_job ?j jobs = Inr (jobs @ [?j])" using None by (simp add: add_job_def interval_job_def)
    show ?thesis
    proof (rule final [of "jobs @ [?j]"])
      show "reconcile_loop existing (x # ds) (jobs, ch) = reconcile_loop existing ds (jobs @ [?j], ch\<lparr>ch_added := ch_added ch @ [pid]\<rparr>)"
        using None i(2) a by (simp add: x)
      show "distinct (map jb_id (jobs @ [?j]))" using Cons.prems(3) None by (auto simp: job_with_None interval_job_def)
    qed (use None i(1) in \<open>auto simp: job_with_append interval_job_def desired_job_def collector_job_def split: option.splits\<close>)
  next
    case (Some j)
    let ?new = "map (\<lambda>j. if jb_id j = i then j\<lparr>jb_trigger := Every iv\<rparr> else j) jobs"
    have ids: "map jb_id ?new = map jb_id jobs" by simp
    show ?thesis
    proof (cases "jb_trigger j = Every iv")
      case True
      show ?thesis by (rule final [of jobs ch]) (use True Some i(2) Cons.prems(3) in \<open>auto simp: x desired_job_def\<close>)
    next
      case False
      show ?thesis
      proof (rule final [of ?new])
        show "reconcile_loop existing (x # ds) (jobs, ch) = reconcile_loop existing ds (?new, ch\<lparr>ch_rescheduled := ch_rescheduled ch @ [pid]\<rparr>)"
          using False Some i(2) by (simp add: x)
        show "distinct (map jb_id ?new)" unfolding ids by (rule Cons.prems(3))
      qed (use False Some in \<open>auto simp: job_with_resched desired_job_def\<close>)
    qed
  qed
qed auto


lemma set_update_subset: "set (AList.update k v d) \<subseteq> insert (k, v) (set d)"
  by (induction d) auto

lemma set_dict_update: "set (dict_update d e) \<subseteq> set d \<union> set e"
proof (induction e arbitrary: d)
  case (Cons x e)
  obtain k v where x: "x = (k, v)" by fastforce
  have "set (dict_update (AList.update k v d) e) \<subseteq> set (AList.update k v d) \<union> set e" by (rule Cons.IH)
  then show ?case using set_update_subset [of k v d] by (auto simp: dict_update_def x)
qed (simp add: dict_update_def)

lemma map_of_collector_ids:
  "map_of (map (\<lambda>(pid, i). (collector_job_id pid, pid, i)) xs) (collector_job_id p) = map_option (Pair p) (map_of xs p)"
  by (induction xs) auto

lemma map_of_rev: "distinct (map fst xs) \<Longrightarrow> map_of (rev xs) = map_of xs"
  by (rule map_of_inject_set [THEN iffD2]) (simp_all add: rev_map [symmetric])

lemma desired_jobs:
  assumes "distinct (map fst (collector_intervals ry))"
  shows "distinct (map fst (desired_jobs ry))" "\<And>i d. (i, d) \<in> set (desired_jobs ry) \<Longrightarrow> i = collector_job_id (fst d)"
    "map_of (desired_jobs ry) (collector_job_id pid) = map_option (Pair pid) (map_of (collector_intervals ry) pid)"
    "\<not> is_collector_job_id k \<Longrightarrow> map_of (desired_jobs ry) k = None"
proof -
  let ?l = "map (\<lambda>(pid, i). (collector_job_id pid, pid, i)) (collector_intervals ry)"
  show "distinct (map fst (desired_jobs ry))" by (simp add: desired_jobs_def keys_dict_update)
  have sub: "set (desired_jobs ry) \<subseteq> set ?l" using set_dict_update [of "[]" ?l] by (simp add: desired_jobs_def)
  then show *: "\<And>i d. (i, d) \<in> set (desired_jobs ry) \<Longrightarrow> i = collector_job_id (fst d)" by auto
  have "map fst ?l = map collector_job_id (map fst (collector_intervals ry))" by auto
  then have "distinct (map fst ?l)" using assms by (simp only: distinct_map) (simp add: inj_on_def)
  then have "map_of (desired_jobs ry) = map_of ?l" by (simp add: desired_jobs_def map_of_dict_update map_of_rev)
  then show "map_of (desired_jobs ry) (collector_job_id pid) = map_option (Pair pid) (map_of (collector_intervals ry) pid)"
    by (simp only: map_of_collector_ids)
  show "\<not> is_collector_job_id k \<Longrightarrow> map_of (desired_jobs ry) k = None"
    using * [of k] by (cases "map_of (desired_jobs ry) k") (fastforce dest!: map_of_SomeD)+
qed

lemma job_with_filter: "(\<And>j. jb_id j = k \<Longrightarrow> P j) \<Longrightarrow> job_with k (filter P jobs) = job_with k jobs"
  by (induction jobs) (auto simp: job_with_def)

lemma job_with_filter_out: "(\<And>j. jb_id j = k \<Longrightarrow> \<not> P j) \<Longrightarrow> job_with k (filter P jobs) = None"
  by (induction jobs) (auto simp: job_with_def)

lemma reconcile_jobs:
  assumes "jobs_ok jobs" "distinct (map fst (collector_intervals ry))"
  shows "\<exists>jobs' ch. reconcile_collector_jobs ry jobs = Inr (jobs', ch) \<and> jobs_ok jobs' \<and>
    (\<forall>k. job_with k jobs' =
       (case map_of (desired_jobs ry) k of
          None \<Rightarrow> if is_collector_job_id k then None else job_with k jobs
        | Some d \<Rightarrow> Some (desired_job d (job_with k jobs))))"
proof -
  let ?desired = "desired_jobs ry"
  let ?existing = "filter (\<lambda>j. is_collector_job_id (jb_id j)) jobs"
  let ?removed = "filter (\<lambda>i. map_of ?desired i = None) (map jb_id ?existing)"
  let ?left = "filter (\<lambda>j. jb_id j \<notin> set ?removed) jobs"
  note D = desired_jobs [OF assms(2)]
  have d: "distinct (map jb_id jobs)" using assms(1) by (simp add: jobs_ok_def)
  have kept: "job_with i ?existing = job_with i ?left \<and> job_with i ?left = job_with i jobs" if "map_of ?desired i \<noteq> None" for i
  proof -
    have "is_collector_job_id i" using D(4) [of i] that by fast
    then have "job_with i ?existing = job_with i jobs" by (intro job_with_filter) simp
    moreover have "job_with i ?left = job_with i jobs" by (rule job_with_filter) (use that in auto)
    ultimately show ?thesis by simp
  qed
  have left: "job_with k ?left = (if is_collector_job_id k then None else job_with k jobs)" if "map_of ?desired k = None" for k
  proof (cases "is_collector_job_id k")
    case True
    have "jb_id j \<noteq> k" if "j \<in> set ?left" for j
      using that True \<open>map_of ?desired k = None\<close> by fastforce
    then have "job_with k ?left = None" unfolding job_with_None by blast
    then show ?thesis using True by simp
  next
    case False
    then have "job_with k ?left = job_with k jobs" by (intro job_with_filter) auto
    then show ?thesis using False by simp
  qed
  have pre: "\<forall>(i, x) \<in> set ?desired. i = collector_job_id (fst x) \<and> job_with i ?existing = job_with i ?left"
  proof (clarify)
    fix i a b assume m: "(i, a, b) \<in> set ?desired"
    then have "map_of ?desired i \<noteq> None" by (metis D(1) map_of_is_SomeI option.distinct(1))
    then show "i = collector_job_id (fst (a, b)) \<and> job_with i ?existing = job_with i ?left" using kept D(2) [OF m] by blast
  qed
  have dl: "distinct (map jb_id ?left)" using d by (rule distinct_map_filterI)
  obtain jobs' ch where r: "reconcile_loop ?existing ?desired (?left, \<lparr>ch_added = [], ch_removed = ?removed, ch_rescheduled = []\<rparr>) = Inr (jobs', ch)"
    "distinct (map jb_id jobs')"
    "\<forall>k. job_with k jobs' = (case map_of ?desired k of None \<Rightarrow> job_with k ?left | Some x \<Rightarrow> Some (desired_job x (job_with k ?left)))"
    using loop_jobs [OF D(1) pre dl] by blast
  have w: "job_with k jobs' = (case map_of ?desired k of None \<Rightarrow> if is_collector_job_id k then None else job_with k jobs
      | Some x \<Rightarrow> Some (desired_job x (job_with k jobs)))" for k
    using r(3) left kept by (cases "map_of ?desired k") auto
  have ok: "(\<forall>pid. jb_task j = Run_collector pid \<longrightarrow> jb_id j = collector_job_id pid) \<and> (is_collector_job_id (jb_id j) \<longrightarrow> (\<exists>pid. jb_task j = Run_collector pid))"
    if "j \<in> set jobs'" for j
  proof (cases "map_of ?desired (jb_id j)")
    case None
    then have "job_with (jb_id j) jobs = Some j"
      using w [of "jb_id j"] job_with_Some [OF r(2), THEN iffD2, OF conjI, OF that refl] by (auto split: if_splits)
    then show ?thesis using assms(1) job_with_Some [OF d] by (auto simp: jobs_ok_def)
  next
    case (Some x)
    then have i: "jb_id j = collector_job_id (fst x)" using D(2) map_of_SomeD by fastforce
    have j: "j = desired_job x (job_with (jb_id j) jobs)" using w [of "jb_id j"] Some job_with_Some [OF r(2), of "jb_id j" j] that by simp
    show ?thesis
    proof (cases "job_with (jb_id j) jobs")
      case None
      then have "j = collector_job (fst x) (snd x)" using j by (simp add: desired_job_def)
      then show ?thesis by (simp add: collector_job_def interval_job_def)
    next
      case (Some old)
      then have "jb_task j = jb_task old" using j by (auto simp: desired_job_def split: if_splits)
      moreover have "old \<in> set jobs" "jb_id old = jb_id j" using Some job_with_Some [OF d] by auto
      ultimately show ?thesis using assms(1) by (auto simp: jobs_ok_def)
    qed
  qed
  have "reconcile_collector_jobs ry jobs = Inr (jobs', ch)" using r(1) by (simp only: reconcile_collector_jobs_def Let_def)
  then show ?thesis using r(2) w ok by (auto simp: jobs_ok_def)
qed


definition collector_schedule :: "job list \<Rightarrow> (string \<times> trigger) set" where
  \<comment> \<open>which collectors are run, and when\<close>
  "collector_schedule jobs = {(pid, jb_trigger j) |j pid. j \<in> set jobs \<and> jb_task j = Run_collector pid}"

definition registry_schedule :: "registry \<Rightarrow> (string \<times> trigger) set" where
  "registry_schedule ry = (\<lambda>(pid, i). (pid, Every i)) ` set (collector_intervals ry)"

lemma schedule_with:
  assumes "jobs_ok jobs"
  shows "(pid, t) \<in> collector_schedule jobs \<longleftrightarrow> (\<exists>j. job_with (collector_job_id pid) jobs = Some j \<and> jb_trigger j = t)"
proof
  assume "(pid, t) \<in> collector_schedule jobs"
  then obtain j where j: "j \<in> set jobs" "jb_task j = Run_collector pid" "jb_trigger j = t" by (auto simp: collector_schedule_def)
  then have "jb_id j = collector_job_id pid" using assms by (auto simp: jobs_ok_def)
  then show "\<exists>j. job_with (collector_job_id pid) jobs = Some j \<and> jb_trigger j = t"
    using j assms job_with_Some by (auto simp: jobs_ok_def)
next
  assume "\<exists>j. job_with (collector_job_id pid) jobs = Some j \<and> jb_trigger j = t"
  then obtain j where j: "j \<in> set jobs" "jb_id j = collector_job_id pid" "jb_trigger j = t"
    using assms job_with_Some by (auto simp: jobs_ok_def)
  then have "jb_task j = Run_collector pid" using assms by (fastforce simp: jobs_ok_def)
  then show "(pid, t) \<in> collector_schedule jobs" using j by (auto simp: collector_schedule_def)
qed

lemma desired_job_trigger [simp]: "jb_trigger (desired_job d old) = Every (snd d)"
  by (auto simp: desired_job_def collector_job_def interval_job_def split: option.splits)

lemma schedule_of_lookup:
  assumes "jobs_ok jobs'" "distinct (map fst (collector_intervals ry))"
    "\<And>pid. job_with (collector_job_id pid) jobs' =
       (case map_of (collector_intervals ry) pid of None \<Rightarrow> None | Some i \<Rightarrow> Some (desired_job (pid, i) (f pid)))"
  shows "collector_schedule jobs' = registry_schedule ry"
proof (rule set_eqI, clarify)
  fix pid t
  have "(pid, t) \<in> collector_schedule jobs' \<longleftrightarrow> (\<exists>i. map_of (collector_intervals ry) pid = Some i \<and> t = Every i)"
    unfolding schedule_with [OF assms(1)] assms(3) by (auto split: option.splits)
  then show "(pid, t) \<in> collector_schedule jobs' \<longleftrightarrow> (pid, t) \<in> registry_schedule ry"
    using assms(2) by (force simp: registry_schedule_def image_iff)
qed

text \<open>
  Adjusting the jobs never fails, and afterwards exactly the enabled collectors are scheduled, each once
  and with the interval of its configuration; every other job is as it was.
\<close>
theorem reconcile_matches_registry:
  assumes "jobs_ok jobs" "distinct (map fst (collector_intervals ry))"
  shows "\<exists>jobs' ch. reconcile_collector_jobs ry jobs = Inr (jobs', ch) \<and> jobs_ok jobs' \<and>
    collector_schedule jobs' = registry_schedule ry \<and>
    {j \<in> set jobs'. \<not> is_collector_job_id (jb_id j)} = {j \<in> set jobs. \<not> is_collector_job_id (jb_id j)}"
proof -
  obtain jobs' ch where r: "reconcile_collector_jobs ry jobs = Inr (jobs', ch)" "jobs_ok jobs'"
    "\<And>k. job_with k jobs' = (case map_of (desired_jobs ry) k of None \<Rightarrow> if is_collector_job_id k then None else job_with k jobs
        | Some d \<Rightarrow> Some (desired_job d (job_with k jobs)))"
    using reconcile_jobs [OF assms] by blast
  have "collector_schedule jobs' = registry_schedule ry"
    by (rule schedule_of_lookup [OF r(2) assms(2), where f = "\<lambda>pid. job_with (collector_job_id pid) jobs"])
      (simp add: r(3) desired_jobs(3) [OF assms(2)] split: option.splits)
  moreover have "j \<in> set jobs' \<longleftrightarrow> j \<in> set jobs" if "\<not> is_collector_job_id (jb_id j)" for j
    using r(2,3) assms(1) that desired_jobs(4) [OF assms(2) that] job_with_Some [of jobs' "jb_id j" j] job_with_Some [of jobs "jb_id j" j]
    by (auto simp: jobs_ok_def)
  ultimately show ?thesis using r(1,2) by blast
qed

definition sample_settings :: job_settings where
  "sample_settings = \<lparr>js_alert_eval_interval = 60, js_alert_delivery_interval = 30, js_purge_interval_hours = 6, js_research_interval = 900,
     js_search_provider = False, js_daily = Some ''0 7 * * *'', js_weekly = None, js_monthly = None\<rparr>"

definition sample_jobs :: "job list" where
  "sample_jobs = collector_job ''builtin.vcenter.events'' 3600 # collector_job ''acme.old'' 60 # fixed_jobs sample_settings"

lemma sample_jobs_ok: "jobs_ok sample_jobs"
  by (auto simp: jobs_ok_def sample_jobs_def fixed_jobs_def sample_settings_def digest_jobs_def cron_job_def interval_job_def collector_job_def
      is_collector_job_id_def LEGACY_COLLECTOR_JOB_IDS_def COLLECTOR_JOB_ID_PREFIX_def startswith_def collector_job_id_def)

lemma sample_intervals:
  "collector_intervals (sample_registry sample_remote) = [(''builtin.vcenter.events'', 30), (''acme.temp'', 20)]"
  by code_simp

lemma reconcile_matches_registry_witness:
  "\<exists>jobs' ch. reconcile_collector_jobs (sample_registry sample_remote) sample_jobs = Inr (jobs', ch) \<and> jobs_ok jobs' \<and>
    collector_schedule jobs' = registry_schedule (sample_registry sample_remote) \<and>
    {j \<in> set jobs'. \<not> is_collector_job_id (jb_id j)} = {j \<in> set sample_jobs. \<not> is_collector_job_id (jb_id j)}"
  by (rule reconcile_matches_registry [OF sample_jobs_ok]) (simp add: sample_intervals)

text \<open>
  A job whose interval changes keeps the grace for a late start that belonged to its old interval:
  rescheduling replaces only the trigger.
\<close>
theorem rescheduled_job_keeps_grace:
  assumes "jobs_ok jobs" "distinct (map fst (collector_intervals ry))" "map_of (collector_intervals ry) pid = Some i"
    "job_with (collector_job_id pid) jobs = Some j"
  shows "\<exists>jobs' ch j'. reconcile_collector_jobs ry jobs = Inr (jobs', ch) \<and> job_with (collector_job_id pid) jobs' = Some j' \<and>
    jb_trigger j' = Every i \<and> jb_misfire_grace j' = jb_misfire_grace j"
proof -
  obtain jobs' ch where r: "reconcile_collector_jobs ry jobs = Inr (jobs', ch)"
    "\<And>k. job_with k jobs' = (case map_of (desired_jobs ry) k of None \<Rightarrow> if is_collector_job_id k then None else job_with k jobs
        | Some d \<Rightarrow> Some (desired_job d (job_with k jobs)))"
    using reconcile_jobs [OF assms(1,2)] by blast
  have "job_with (collector_job_id pid) jobs' = Some (desired_job (pid, i) (Some j))"
    using r(2) desired_jobs(3) [OF assms(2)] assms(3,4) by simp
  then show ?thesis using r(1) by (auto simp: desired_job_def)
qed

lemma rescheduled_job_keeps_grace_witness:
  "\<exists>jobs' ch j'. reconcile_collector_jobs (sample_registry sample_remote) sample_jobs = Inr (jobs', ch) \<and>
    job_with (collector_job_id ''builtin.vcenter.events'') jobs' = Some j' \<and> jb_trigger j' = Every 30 \<and>
    jb_misfire_grace j' = jb_misfire_grace (collector_job ''builtin.vcenter.events'' 3600)"
  by (rule rescheduled_job_keeps_grace [OF sample_jobs_ok])
    (simp_all add: sample_intervals job_with_def sample_jobs_def collector_job_def interval_job_def)

lemma stale_grace_sample:
  "(case reconcile_collector_jobs (sample_registry sample_remote) [collector_job ''builtin.vcenter.events'' 3600] of
      Inr (jobs, ch) \<Rightarrow> (map (\<lambda>j. (jb_trigger j, jb_misfire_grace j)) jobs, ch_added ch, ch_removed ch, ch_rescheduled ch)
    | Inl e \<Rightarrow> ([], [], [], [])) =
   ([(Every 30, 1800), (Every 20, 10)], [''acme.temp''], [], [''builtin.vcenter.events''])"
  by code_simp


subsection \<open>The start and the reload\<close>

lemma add_jobs_distinct: "distinct (map jb_id (jobs @ js)) \<Longrightarrow> add_jobs js jobs = Inr (jobs @ js)"
  by (induction js arbitrary: jobs) (auto simp: add_job_def job_with_None)

lemma collector_jobs_ids: "map jb_id (map (\<lambda>(pid, i). collector_job pid i) xs) = map collector_job_id (map fst xs)"
  by (auto simp: collector_job_def interval_job_def)

lemma fixed_ids: "distinct (map jb_id (fixed_jobs s))"
  by (auto simp: fixed_jobs_def digest_jobs_def cron_job_def interval_job_def split: option.splits)

text \<open>
  At the start every job is registered without a conflict of ids, and the collectors are scheduled as the
  registry says.
\<close>
theorem setup_matches_registry:
  assumes "distinct (map fst (collector_intervals ry))"
    "find (\<lambda>c. \<not> crontab_ok c) (List.map_filter id [js_daily s, js_weekly s, js_monthly s]) = None"
  shows "\<exists>jobs. setup_scheduler crontab_ok s ry = Inr jobs \<and> jobs_ok jobs \<and> collector_schedule jobs = registry_schedule ry"
proof -
  let ?c = "map (\<lambda>(pid, i). collector_job pid i) (collector_intervals ry)"
  have ids: "distinct (map jb_id ?c)" unfolding collector_jobs_ids using assms(1) by (simp add: distinct_map inj_on_def)
  have sep: "jb_id j \<noteq> jb_id k" if "j \<in> set ?c" "k \<in> set (fixed_jobs s)" for j k
  proof -
    have "is_collector_job_id (jb_id j)" using that(1) by (auto simp: collector_job_def interval_job_def)
    then show ?thesis using that(2) fixed_not_collector [of k s] by auto
  qed
  have d: "distinct (map jb_id (?c @ fixed_jobs s))" using ids fixed_ids [of s] sep by (fastforce simp del: map_map)
  have "setup_scheduler crontab_ok s ry = Inr (?c @ fixed_jobs s)"
    using add_jobs_distinct [of "[]" "?c @ fixed_jobs s"] d assms(2) by (simp add: setup_scheduler_def)
  moreover have "jobs_ok (?c @ fixed_jobs s)"
    using d fixed_not_collector [of _ s] by (auto simp: jobs_ok_def collector_job_def interval_job_def)
  moreover have "collector_schedule (?c @ fixed_jobs s) = registry_schedule ry"
  proof -
    have "collector_schedule (xs @ ys) = collector_schedule xs \<union> collector_schedule ys" for xs ys
      by (auto simp: collector_schedule_def)
    moreover have "collector_schedule (fixed_jobs s) = {}"
      using fixed_not_collector [of _ s] by (auto simp: collector_schedule_def)
    moreover have "collector_schedule (map (\<lambda>(pid, i). collector_job pid i) xs) = (\<lambda>(pid, i). (pid, Every i)) ` set xs" for xs
    proof (induction xs)
      case (Cons x xs)
      have "collector_schedule (j # js) = {(pid, jb_trigger j) |pid. jb_task j = Run_collector pid} \<union> collector_schedule js" for j js
        by (auto simp: collector_schedule_def)
      then show ?case using Cons by (cases x) (auto simp: collector_job_def interval_job_def)
    qed (simp add: collector_schedule_def)
    ultimately show ?thesis by (simp only: registry_schedule_def Un_empty_right)
  qed
  ultimately show ?thesis by blast
qed

lemma setup_matches_registry_witness:
  "\<exists>jobs. setup_scheduler (\<lambda>c. length c = 9) sample_settings (sample_registry sample_remote) = Inr jobs \<and> jobs_ok jobs \<and>
     collector_schedule jobs = registry_schedule (sample_registry sample_remote)"
  by (rule setup_matches_registry) (simp_all add: sample_intervals sample_settings_def List.map_filter_def)

definition app_ok :: "app_state \<Rightarrow> bool" where
  "app_ok app = (case ap_jobs app of None \<Rightarrow> True | Some jobs \<Rightarrow> jobs_ok jobs)"

lemma intervals_distinct:
  assumes "generation_ok (ry_registrations ry) owners"
  shows "distinct (map fst (collector_intervals ry))"
proof -
  have a: "distinct (map rg_plugin_id (enabled ry))"
    unfolding enabled_def by (rule distinct_map_filterI) (use assms in \<open>simp only: distinct_ids [OF assms] generation_ok_def\<close>)
  have e: "map fst (List.map_filter (\<lambda>r. map_option (\<lambda>c. (rg_plugin_id r, cc_interval_seconds c)) (rg_config r)) rs)
      = map rg_plugin_id (filter (\<lambda>r. rg_config r \<noteq> None) rs)" for rs
    by (induction rs) (auto simp: List.map_filter_def)
  show ?thesis unfolding collector_intervals_def e by (rule distinct_map_filterI [OF a])
qed



definition sample_app :: app_state where
  "sample_app = \<lparr>ap_registry = sample_registry sample_twice, ap_jobs = Some sample_jobs, ap_stopped = []\<rparr>"

definition sample_reload :: "(reload_error + nat \<times> job_changes) \<times> app_state" where
  "sample_reload = reload_collector_registry (sample_build sample_remote) (\<lambda>_. None) [] sample_app"


subsection \<open>A saved setting\<close>

lemma map_of_load:
  assumes "distinct (map ps_plugin_id rows)" "row \<in> set rows" "setting_values row \<noteq> []"
  shows "map_of (load_collector_db_overrides rows) (ps_plugin_id row) = Some (setting_values row)"
proof -
  let ?l = "map (\<lambda>row. (ps_plugin_id row, setting_values row)) (filter (\<lambda>row. setting_values row \<noteq> []) rows)"
  have "map fst ?l = map ps_plugin_id (filter (\<lambda>row. setting_values row \<noteq> []) rows)" by auto
  then have d: "distinct (map fst ?l)" using assms(1) by (simp only: distinct_map_filterI)
  moreover have "(ps_plugin_id row, setting_values row) \<in> set ?l" using assms(2,3) by auto
  ultimately have "map_of ?l (ps_plugin_id row) = Some (setting_values row)" by (rule map_of_is_SomeI)
  then show ?thesis using d by (simp add: load_collector_db_overrides_def map_of_dict_update map_of_rev)
qed

lemma upsert_row:
  assumes "\<And>r. ps_plugin_id (f r) = ps_plugin_id r"
  shows "\<exists>r. f r \<in> set (upsert_setting pid f rows) \<and> ps_plugin_id r = pid"
    "distinct (map ps_plugin_id rows) \<Longrightarrow> distinct (map ps_plugin_id (upsert_setting pid f rows))"
proof -
  show "\<exists>r. f r \<in> set (upsert_setting pid f rows) \<and> ps_plugin_id r = pid"
    by (cases "list_ex (\<lambda>r. ps_plugin_id r = pid) rows") (force simp: upsert_setting_def list_ex_iff empty_setting_def)+
  have "map ps_plugin_id (map (\<lambda>r. if ps_plugin_id r = pid then f r else r) rows) = map ps_plugin_id rows" using assms by auto
  then show "distinct (map ps_plugin_id rows) \<Longrightarrow> distinct (map ps_plugin_id (upsert_setting pid f rows))"
    using assms by (auto simp: upsert_setting_def list_ex_iff empty_setting_def simp del: map_map)
qed

text \<open>
  An interval that an administrator saves is the interval the next generation reads, unless a variable of the environment
  pins it; the TOML file no longer matters.
\<close>
theorem saved_interval_takes_effect:
  assumes "update_collector_setting pid on (Some i) timeout rows = Inr rows'" "distinct (map ps_plugin_id rows)"
    "bi_overrides bi = load_collector_db_overrides rows'" "env_value pid (bi_environ bi) ''interval_seconds'' = None"
  shows "10 \<le> i \<and> dict_get_or (raw_config bi pid) ''interval_seconds'' dflt = JInt i"
proof -
  let ?f = "\<lambda>r. r\<lparr>ps_enabled := or_keep on (ps_enabled r), ps_interval_seconds := or_keep (Some i) (ps_interval_seconds r),
    ps_timeout_seconds := or_keep timeout (ps_timeout_seconds r)\<rparr>"
  have rows': "rows' = upsert_setting pid ?f rows" "10 \<le> i"
    using assms(1) by (auto simp: update_collector_setting_def MIN_INTERVAL_SECONDS_def split: if_splits)
  obtain r where r: "?f r \<in> set rows'" "ps_plugin_id r = pid" using upsert_row(1) [of ?f pid rows] rows'(1) by auto
  have d: "distinct (map ps_plugin_id rows')" using upsert_row(2) [of ?f rows pid] assms(2) rows'(1) by simp
  have v: "map_of (setting_values (?f r)) ''interval_seconds'' = Some (JInt i)"
    by (auto simp: setting_values_def or_keep_def map_add_def split: option.splits)
  then have "setting_values (?f r) \<noteq> []" by auto
  from map_of_load [OF d r(1) this] have "map_of (bi_overrides bi) pid = Some (setting_values (?f r))"
    using assms(3) r(2) by simp
  then have "map_of (raw_config bi pid) ''interval_seconds'' = Some (JInt i)"
    using source_precedence [of "''interval_seconds''"] assms(4) v by (simp add: raw_config_def dict_get_def)
  then show ?thesis using rows'(2) by (simp add: dict_get_or_def)
qed


lemma saved_interval_takes_effect_witness:
  "10 \<le> (90 :: int) \<and> dict_get_or (raw_config ((sample_build [])\<lparr>bi_overrides :=
      load_collector_db_overrides [(empty_setting ''acme.temp'')\<lparr>ps_interval_seconds := Some 90\<rparr>]\<rparr>) ''acme.temp'') ''interval_seconds'' JNull = JInt 90"
proof (rule saved_interval_takes_effect)
  show "update_collector_setting ''acme.temp'' None (Some 90) None [] = Inr [(empty_setting ''acme.temp'')\<lparr>ps_interval_seconds := Some 90\<rparr>]"
    by code_simp
  show "env_value ''acme.temp'' (bi_environ ((sample_build [])\<lparr>bi_overrides :=
      load_collector_db_overrides [(empty_setting ''acme.temp'')\<lparr>ps_interval_seconds := Some 90\<rparr>]\<rparr>)) ''interval_seconds'' = None"
    by code_simp
qed simp_all

end
