(* ===== verification/PluginSetup.thy ===== *)
theory PluginSetup
  imports SshConnections Scheduler
begin

section \<open>Setting up a collector (services/plugin\_configuration.py, api/routes/plugin\_setup.py, the settings route of plugins.py)\<close>

text \<open>
  An administrator edits the draft of a collector's configuration, runs the setup actions its plugin
  declares (a connection test, say) and applies the draft: the new generation of collectors is built and started, and only when it
  runs is the setting stored, the jobs adjusted and the generation made active. What the code takes
  from outside (the JSON schema library, SHA-256, what a setup action of the plugin answers, whether the database commits) is
  \<open>setup_env\<close>. The mutation lock makes each request one step.
\<close>

record setup_test =
  ts_ok :: bool
  ts_digest :: string
  ts_version :: string

record config_draft =
  df_plugin_id :: string
  df_config :: "(string, json) dict"
  df_tests :: "(string, setup_test) dict"
  df_revision :: int

record setup_state =
  su_ssh :: ssh_db
  su_drafts :: "config_draft list"
  su_rows :: "plugin_setting list"
  su_vcenters :: "(uuid \<times> bool) list" \<comment> \<open>id and whether it is enabled\<close>
  su_app :: app_state

record setup_env =
  sv_schema :: "string \<Rightarrow> json" \<comment> \<open>\<open>configuration_schema\<close> of the plugin's manifest\<close>
  sv_schema_ok :: "json \<Rightarrow> bool" \<comment> \<open>\<open>Draft202012Validator.check_schema\<close> raises nothing\<close>
  sv_valid :: "json \<Rightarrow> json \<Rightarrow> bool" \<comment> \<open>the validator finds no error\<close>
  sv_repr :: "json \<Rightarrow> string"
  sv_hash :: "json \<times> reference list \<Rightarrow> string"
  sv_dumped_size :: "json \<Rightarrow> nat"
  sv_ssh_settings :: ssh_settings
  sv_setup :: "uuid \<Rightarrow> json \<Rightarrow> ssh_files list \<Rightarrow> string \<Rightarrow> bool list option"
    \<comment> \<open>the \<open>ok\<close> of the checks an action reports for a target; none if it raises\<close>
  sv_build :: build_inputs
  sv_starts :: "string \<Rightarrow> string option"
  sv_commits :: bool

subsection \<open>Schemas (services/plugin\_configuration.py)\<close>

definition SCHEMA_TYPES :: "string list" where
  "SCHEMA_TYPES = [''object'', ''array'', ''string'', ''number'', ''integer'', ''boolean'']"

definition SCHEMA_WIDGETS :: "string list" where
  "SCHEMA_WIDGETS = [''vcenter'', ''esxi-host'', ''ssh-connection'']"

definition SCHEMA_KEYWORDS :: "string list" where
  "SCHEMA_KEYWORDS =
     [''$schema'', ''type'', ''properties'', ''items'', ''required'', ''enum'', ''title'', ''description'', ''default'', ''minimum'', ''maximum'',
      ''minLength'', ''maxLength'', ''minItems'', ''maxItems'', ''additionalProperties'', ''x-vea-widget'', ''x-vea-ssh-connection'',
      ''x-vea-generated-id'', ''x-vea-vcenter-field'', ''x-vea-host-field'']"

definition is_text_in :: "string list \<Rightarrow> json \<Rightarrow> bool" where
  "is_text_in ts j = (case j of JStr t \<Rightarrow> t \<in> set ts | _ \<Rightarrow> False)"

definition is_compound :: "json \<Rightarrow> bool" where
  "is_compound j = (case j of JObj _ \<Rightarrow> True | JList _ \<Rightarrow> True | _ \<Rightarrow> False)"

definition node_ok :: "(string \<times> json) list \<Rightarrow> bool" where
  \<comment> \<open>the tests of \<open>check\<close> on one node\<close>
  "node_ok d =
     (set (map fst d) \<subseteq> set SCHEMA_KEYWORDS \<and> is_text_in SCHEMA_TYPES (jget d ''type'')
      \<and> (truthy (jget d ''x-vea-widget'') \<longrightarrow> is_text_in SCHEMA_WIDGETS (jget d ''x-vea-widget''))
      \<and> (case map_of d ''additionalProperties'' of None \<Rightarrow> True | Some (JBool _) \<Rightarrow> True | _ \<Rightarrow> False)
      \<and> (case map_of d ''enum'' of None \<Rightarrow> True | Some (JList vs) \<Rightarrow> \<not> list_ex is_compound vs | _ \<Rightarrow> False))"

function (sequential) check_node :: "json \<Rightarrow> bool" and check_nodes :: "(string \<times> json) list \<Rightarrow> bool" where
  "check_node (JObj d) =
     (node_ok d
      \<and> (case map_of d ''properties'' of None \<Rightarrow> True | Some (JObj ps) \<Rightarrow> check_nodes ps | Some _ \<Rightarrow> False)
      \<and> (case map_of d ''items'' of None \<Rightarrow> True | Some c \<Rightarrow> check_node c))"
| "check_node _ = False"
| "check_nodes [] = True"
| "check_nodes ((k, c) # ps) = (check_node c \<and> check_nodes ps)"
  by pat_completeness auto
termination
  by (relation "measure (\<lambda>p. case p of Inl v \<Rightarrow> size v | Inr ps \<Rightarrow> size (JObj ps))") (auto dest: map_of_size)

definition schema_error :: "setup_env \<Rightarrow> json \<Rightarrow> bool" where
  "schema_error e schema = (\<not> (sv_schema_ok e schema \<and> check_node schema))"

definition validate_values :: "setup_env \<Rightarrow> json \<Rightarrow> json \<Rightarrow> bool" where
  \<comment> \<open>\<open>False\<close>: \<open>ValueError\<close>\<close>
  "validate_values e config schema = (\<not> schema_error e schema \<and> sv_valid e config schema)"

function (sequential) vcenter_texts :: "(json \<Rightarrow> string) \<Rightarrow> json \<Rightarrow> json \<Rightarrow> string list" and
    vcenter_properties :: "(json \<Rightarrow> string) \<Rightarrow> (string \<times> json) list \<Rightarrow> (string \<times> json) list \<Rightarrow> string list" and
    vcenter_items :: "(json \<Rightarrow> string) \<Rightarrow> json list \<Rightarrow> json \<Rightarrow> string list" where
  \<comment> \<open>the texts of \<open>vcenter_ids\<close>, in the order of the schema\<close>
  "vcenter_texts repr v (JObj s) =
     (if jget s ''x-vea-widget'' = JStr ''vcenter'' \<and> truthy v then [str_of repr v] else [])
     @ (case v of JObj d \<Rightarrow> (case map_of s ''properties'' of Some (JObj ps) \<Rightarrow> vcenter_properties repr d ps | _ \<Rightarrow> [])
        | JList xs \<Rightarrow> (case map_of s ''items'' of Some c \<Rightarrow> vcenter_items repr xs c | None \<Rightarrow> [])
        | _ \<Rightarrow> [])"
| "vcenter_texts repr v _ = []"
| "vcenter_properties repr d [] = []"
| "vcenter_properties repr d ((k, child) # ps) =
     (case map_of d k of None \<Rightarrow> [] | Some v \<Rightarrow> vcenter_texts repr v child) @ vcenter_properties repr d ps"
| "vcenter_items repr [] c = []"
| "vcenter_items repr (x # xs) c = vcenter_texts repr x c @ vcenter_items repr xs c"
  by pat_completeness auto
termination
  by (relation "measures [\<lambda>p. case p of Inl (_, v, _) \<Rightarrow> 2 * size v + 1
        | Inr (Inl (_, d, _)) \<Rightarrow> 2 * size (JObj d) | Inr (Inr (_, xs, _)) \<Rightarrow> 2 * size (JList xs),
      \<lambda>p. case p of Inl _ \<Rightarrow> 0 | Inr (Inl (_, _, ps)) \<Rightarrow> length ps | Inr (Inr _) \<Rightarrow> 0]")
    (auto dest: map_of_size)

definition vcenter_ids :: "setup_env \<Rightarrow> json \<Rightarrow> json \<Rightarrow> uuid list option" where
  \<comment> \<open>\<open>None\<close>: \<open>ValueError\<close>\<close>
  "vcenter_ids e config schema = those (map uuid_parse (vcenter_texts (sv_repr e) config schema))"

definition validate_targets :: "setup_env \<Rightarrow> setup_state \<Rightarrow> json \<Rightarrow> json \<Rightarrow> bool" where
  "validate_targets e st config schema =
     (case vcenter_ids e config schema of None \<Rightarrow> False
      | Some ids \<Rightarrow> list_all (\<lambda>i. map_of (su_vcenters st) i = Some True) ids)"

definition setup_targets :: "setup_env \<Rightarrow> setup_state \<Rightarrow> json \<Rightarrow> json \<Rightarrow> uuid list" where
  \<comment> \<open>those the configuration names, or every enabled one\<close>
  "setup_targets e st config schema =
     (let ids = (case vcenter_ids e config schema of None \<Rightarrow> [] | Some ids \<Rightarrow> remdups ids)
      in sort_key uuid_str (if ids = [] then map fst (filter snd (su_vcenters st)) else ids))"

fun run_targets :: "setup_env \<Rightarrow> ssh_db \<Rightarrow> json \<Rightarrow> json \<Rightarrow> string \<Rightarrow> uuid list \<Rightarrow> bool list option" where
  "run_targets e db config schema action [] = Some []"
| "run_targets e db config schema action (t # ts) =
     (case materialize_ssh (sv_repr e) (sv_ssh_settings e) db config schema (Some t) of
        Inl _ \<Rightarrow> None
      | Inr files \<Rightarrow>
          map_option (\<lambda>rest. (case sv_setup e t config files action of None \<Rightarrow> [False] | Some oks \<Rightarrow> oks) @ rest)
            (run_targets e db config schema action ts))"

definition run_setup :: "setup_env \<Rightarrow> setup_state \<Rightarrow> json \<Rightarrow> json \<Rightarrow> string \<Rightarrow> bool list option" where
  \<comment> \<open>the checks of all targets; \<open>None\<close>: \<open>ValueError\<close>\<close>
  "run_setup e st config schema action =
     (if \<not> validate_values e config schema \<or> \<not> validate_targets e st config schema then None
      else let ts = setup_targets e st config schema
           in if ts = [] then None else run_targets e (su_ssh st) config schema action ts)"

subsection \<open>Drafts\<close>

definition plugin_registration :: "setup_state \<Rightarrow> string \<Rightarrow> http_error + registration \<times> collector_manifest" where
  \<comment> \<open>\<open>registration\<close>\<close>
  "plugin_registration st pid =
     (case get_registration (ap_registry (su_app st)) pid of
        None \<Rightarrow> Inl (HttpError 404 ''plugin'')
      | Some r \<Rightarrow> (case rg_manifest r of None \<Rightarrow> Inl (HttpError 404 ''plugin'') | Some m \<Rightarrow> Inr (r, m)))"

definition find_draft :: "setup_state \<Rightarrow> string \<Rightarrow> config_draft option" where
  "find_draft st pid = find (\<lambda>d. df_plugin_id d = pid) (su_drafts st)"

definition store_draft :: "config_draft \<Rightarrow> setup_state \<Rightarrow> setup_state" where
  "store_draft d st = st\<lparr>su_drafts :=
     (if list_ex (\<lambda>x. df_plugin_id x = df_plugin_id d) (su_drafts st)
      then map (\<lambda>x. if df_plugin_id x = df_plugin_id d then d else x) (su_drafts st)
      else su_drafts st @ [d])\<rparr>"

definition draft_or_new :: "setup_state \<Rightarrow> string \<Rightarrow> config_draft" where
  \<comment> \<open>\<open>get_draft\<close>\<close>
  "draft_or_new st pid =
     (case find_draft st pid of Some d \<Rightarrow> d
      | None \<Rightarrow> \<lparr>df_plugin_id = pid, df_config = [], df_tests = [], df_revision = 1\<rparr>)"

definition check_revision :: "config_draft \<Rightarrow> int \<Rightarrow> http_error + unit" where
  "check_revision d revision = raise_when (revision \<noteq> df_revision d) (HttpError 409 ''revision'')"

definition saved_draft :: "setup_state \<Rightarrow> string \<Rightarrow> http_error + config_draft" where
  "saved_draft st pid = (case find_draft st pid of None \<Rightarrow> Inl (HttpError 422 ''draft'') | Some d \<Rightarrow> Inr d)"

definition put_draft ::
  "setup_env \<Rightarrow> string \<Rightarrow> (string, json) dict \<Rightarrow> int option \<Rightarrow> setup_state \<Rightarrow> http_error + config_draft \<times> setup_state" where
  "put_draft e pid config revision st =
     and_then (plugin_registration st pid) (\<lambda>(r, m).
     and_then (raise_when (schema_error e (sv_schema e pid)) (HttpError 422 ''schema'')) (\<lambda>_.
     and_then (raise_when (256 * 1024 < sv_dumped_size e (JObj config)) (HttpError 413 ''size'')) (\<lambda>_.
       let d = draft_or_new st pid
       in and_then (case revision of None \<Rightarrow> Inr () | Some n \<Rightarrow> check_revision d n) (\<lambda>_.
            let d = (if df_config d \<noteq> config then d\<lparr>df_config := config, df_revision := df_revision d + 1, df_tests := []\<rparr> else d)
            in Inr (d, store_draft d st)))))"

definition strip_legacy :: "(string \<times> json) list \<Rightarrow> (string \<times> json) list \<Rightarrow> (string \<times> json) list" where
  \<comment> \<open>what \<open>strip\<close> does to one object that the schema marks\<close>
  "strip_legacy props d =
     (let d = fold (\<lambda>(k, child) d.
            if (case child of JObj c \<Rightarrow> jget c ''x-vea-widget'' = JStr ''esxi-host'' | _ \<Rightarrow> False) \<and> truthy (jget d ''host'')
            then AList.update k (jget d ''host'') d else d) props d
      in fold AList.delete [''private_key_file'', ''known_hosts_file'', ''host'', ''port'', ''username''] d)"

fun strip_value :: "nat \<Rightarrow> json \<Rightarrow> json \<Rightarrow> json" where
  \<comment> \<open>\<open>strip\<close>; the depth bounds the recursion, which follows the nesting of the value\<close>
  "strip_value 0 v s = v"
| "strip_value (Suc n) (JObj d) (JObj s) =
     (let props = jtable s ''properties'';
          d = (if truthy (jget s ''x-vea-ssh-connection'') then strip_legacy props d else d)
      in JObj (map (\<lambda>(k, v). (k, case map_of props k of None \<Rightarrow> v | Some child \<Rightarrow> strip_value n v child)) d))"
| "strip_value (Suc n) (JList xs) (JObj s) =
     JList (map (\<lambda>x. strip_value n x (case map_of s ''items'' of None \<Rightarrow> JObj [] | Some c \<Rightarrow> c)) xs)"
| "strip_value n v s = v"

lemma jget_in: "truthy (jget d k) \<Longrightarrow> jget d k \<in> snd ` set d"
  by (auto simp: jget_def truthy_def dest!: map_of_SomeD intro: rev_image_eqI split: option.splits)

lemma values_update: "snd ` set (AList.update k v d) \<subseteq> insert v (snd ` set d)"
  by (induction d) auto

lemma set_delete_subset: "snd ` set (AList.delete k d) \<subseteq> snd ` set d"
  by (induction d) auto

lemma values_strip_legacy: "snd ` set (strip_legacy props d) \<subseteq> snd ` set d"
proof -
  have 1: "snd ` set (fold (\<lambda>(k, child) d.
            if (case child of JObj c \<Rightarrow> jget c ''x-vea-widget'' = JStr ''esxi-host'' | _ \<Rightarrow> False) \<and> truthy (jget d ''host'')
            then AList.update k (jget d ''host'') d else d) ps d) \<subseteq> snd ` set d" for ps d
  proof (induction ps arbitrary: d)
    case (Cons p ps)
    obtain k child where p: "p = (k, child)" by fastforce
    let ?d = "if (case child of JObj c \<Rightarrow> jget c ''x-vea-widget'' = JStr ''esxi-host'' | _ \<Rightarrow> False) \<and> truthy (jget d ''host'')
            then AList.update k (jget d ''host'') d else d"
    have "snd ` set ?d \<subseteq> snd ` set d" using values_update [of k "jget d ''host''" d] jget_in [of d "''host''"] by auto
    then show ?case using Cons.IH [of ?d] by (simp add: p)
  qed simp
  have 2: "snd ` set (fold AList.delete ks d) \<subseteq> snd ` set d" for ks :: "string list" and d :: "(string \<times> json) list"
    
  proof (induction ks arbitrary: d)
    case (Cons k ks)
    from Cons.IH [of "AList.delete k d"] set_delete_subset [of k d] show ?case by (simp only: fold_simps)
  qed simp
  show ?thesis unfolding strip_legacy_def Let_def using 1 2 by (meson subset_trans)
qed

lemma value_size: "v \<in> snd ` set d \<Longrightarrow> size v < size (JObj d)"
  by (induction d) (force simp: less_Suc_eq)+

text \<open>The depth that \<open>import_configuration\<close> uses is enough: with more the result is the same.\<close>
lemma strip_value_depth: "size v \<le> n \<Longrightarrow> size v \<le> m \<Longrightarrow> strip_value n v s = strip_value m v s"
proof (induction n arbitrary: v s m)
  case 0
  then show ?case by (cases v; cases s; cases m) auto
next
  case (Suc n)
  show ?case
  proof (cases s)
    case (JObj sd)
    show ?thesis
    proof (cases v)
      case v: (JObj d)
      obtain m' where m: "m = Suc m'" using Suc.prems v by (cases m) auto
      let ?props = "jtable sd ''properties''"
      let ?d = "if truthy (jget sd ''x-vea-ssh-connection'') then strip_legacy ?props d else d"
      have sub: "snd ` set ?d \<subseteq> snd ` set d" using values_strip_legacy by simp
      have "strip_value n w child = strip_value m' w child" if "(k, w) \<in> set ?d" for k w child
      proof (rule Suc.IH)
        have "w \<in> snd ` set d" using sub that by force
        from value_size [OF this] show "size w \<le> n" "size w \<le> m'" using Suc.prems m v by auto
      qed
      then have "map (\<lambda>(k, v). (k, case map_of ?props k of None \<Rightarrow> v | Some child \<Rightarrow> strip_value n v child)) ?d
          = map (\<lambda>(k, v). (k, case map_of ?props k of None \<Rightarrow> v | Some child \<Rightarrow> strip_value m' v child)) ?d"
        by (intro map_cong) (auto split: option.splits)
      then show ?thesis by (simp only: m v JObj strip_value.simps Let_def)
    next
      case v: (JList xs)
      obtain m' where m: "m = Suc m'" using Suc.prems v by (cases m) auto
      have "strip_value n x c = strip_value m' x c" if "x \<in> set xs" for x c
      proof (rule Suc.IH)
        have "size x < size (JList xs)" using that by (induction xs) auto
        then show "size x \<le> n" "size x \<le> m'" using Suc.prems m v by auto
      qed
      then show ?thesis by (simp add: m v JObj)
    qed (cases m; simp add: JObj)+
  qed (cases m; cases v; simp)+
qed

definition import_configuration :: "setup_env \<Rightarrow> string \<Rightarrow> setup_state \<Rightarrow> http_error + config_draft \<times> setup_state" where
  "import_configuration e pid st =
     and_then (plugin_registration st pid) (\<lambda>(r, m).
       case rg_config r of
         None \<Rightarrow> Inl (HttpError 500 ''AttributeError'')
       | Some c \<Rightarrow>
           and_then (raise_when (schema_error e (sv_schema e pid)) (HttpError 422 ''schema'')) (\<lambda>_.
             let d = draft_or_new st pid;
                 d = d\<lparr>df_config := table_of (strip_value (size (JObj (cc_values c))) (JObj (cc_values c)) (sv_schema e pid)),
                   df_tests := [], df_revision := df_revision d + 1\<rparr>
             in Inr (d, store_draft d st)))"

definition draft_digest :: "setup_env \<Rightarrow> setup_state \<Rightarrow> (string, json) dict \<Rightarrow> json \<Rightarrow> http_error + string" where
  "draft_digest e st config schema =
     map_error (\<lambda>_. HttpError 422 ''ssh'') (reference_digest (sv_repr e) (sv_hash e) (su_ssh st) (JObj config) schema)"

definition validate_draft :: "setup_env \<Rightarrow> string \<Rightarrow> setup_state \<Rightarrow> http_error + unit" where
  "validate_draft e pid st =
     and_then (plugin_registration st pid) (\<lambda>(r, m).
     and_then (saved_draft st pid) (\<lambda>d.
     and_then (raise_when (\<not> validate_values e (JObj (df_config d)) (sv_schema e pid)
         \<or> \<not> validate_targets e st (JObj (df_config d)) (sv_schema e pid)) (HttpError 422 ''values'')) (\<lambda>_.
     and_then (draft_digest e st (df_config d) (sv_schema e pid)) (\<lambda>_. Inr ()))))"

definition execute_action ::
  "setup_env \<Rightarrow> string \<Rightarrow> string \<Rightarrow> int \<Rightarrow> setup_state \<Rightarrow> http_error + (bool \<times> config_draft) \<times> setup_state" where
  "execute_action e pid action revision st =
     and_then (plugin_registration st pid) (\<lambda>(r, m).
     and_then (raise_when (action \<notin> set (map action_id (mf_setup_actions m))) (HttpError 404 ''action'')) (\<lambda>_.
     and_then (saved_draft st pid) (\<lambda>d.
     and_then (check_revision d revision) (\<lambda>_.
     and_then (draft_digest e st (df_config d) (sv_schema e pid)) (\<lambda>digest.
       case run_setup e st (JObj (df_config d)) (sv_schema e pid) action of
         None \<Rightarrow> Inl (HttpError 422 ''values'')
       | Some checks \<Rightarrow>
           (let ok = (checks \<noteq> [] \<and> list_all id checks);
                d = d\<lparr>df_tests := AList.update action \<lparr>ts_ok = ok, ts_digest = digest, ts_version = mf_version m\<rparr> (df_tests d)\<rparr>
            in Inr ((ok, d), store_draft d st)))))))"

subsection \<open>Applying\<close>

definition tests_passed :: "collector_manifest \<Rightarrow> (string, setup_test) dict \<Rightarrow> string \<Rightarrow> bool" where
  \<comment> \<open>every required action has a passed test for the digest and this version\<close>
  "tests_passed m tests digest =
     list_all (\<lambda>a. required_for_enable a \<longrightarrow>
       (case map_of tests (action_id a) of None \<Rightarrow> False | Some t \<Rightarrow> ts_ok t \<and> ts_digest t = digest \<and> ts_version t = mf_version m))
       (mf_setup_actions m)"

definition apply_overrides :: "setup_state \<Rightarrow> string \<Rightarrow> (string, json) dict \<Rightarrow> (string, (string, json) dict) dict" where
  "apply_overrides st pid config =
     (let overrides = load_collector_db_overrides (su_rows st);
          old = (case map_of overrides pid of None \<Rightarrow> [] | Some o' \<Rightarrow> o')
      in AList.update pid (dict_update old
           [(''enabled'', JBool True), (''config_values'', JObj config), (''replace_config'', JBool True)]) overrides)"

definition is_enabled_in :: "registry \<Rightarrow> string \<Rightarrow> bool" where
  "is_enabled_in ry pid = (case get_registration ry pid of None \<Rightarrow> False | Some r \<Rightarrow> rg_status r = Reg_enabled)"

definition apply_refused :: "registry \<Rightarrow> registry \<Rightarrow> string \<Rightarrow> bool" where
  \<comment> \<open>the new generation lost a collector that ran, or does not run this one\<close>
  "apply_refused previous candidate pid =
     (list_ex (\<lambda>x. rg_status x = Reg_failed \<and> (rg_plugin_id x = pid \<or> is_enabled_in previous (rg_plugin_id x)))
        (map snd (ry_registrations candidate)) \<or> \<not> is_enabled_in candidate pid)"

definition reconcile_running :: "registry \<Rightarrow> job list option \<Rightarrow> scheduler_error + job list option" where
  "reconcile_running ry jobs =
     (case jobs of None \<Rightarrow> Inr None | Some js \<Rightarrow> and_then (reconcile_collector_jobs ry js) (\<lambda>(js, ch). Inr (Some js)))"

definition apply_row :: "string \<Rightarrow> (string, json) dict \<Rightarrow> plugin_setting list \<Rightarrow> plugin_setting list" where
  "apply_row pid config rows = upsert_setting pid (\<lambda>r. r\<lparr>ps_config_values := Some config, ps_enabled := Some True, ps_managed := True\<rparr>) rows"

definition apply_candidate :: "setup_env \<Rightarrow> string \<Rightarrow> (string, json) dict \<Rightarrow> registry \<Rightarrow> setup_state \<Rightarrow> (http_error + nat) \<times> setup_state" where
  \<comment> \<open>the part of \<open>apply_configuration\<close> after the candidate has been started\<close>
  "apply_candidate e pid config candidate st =
     (let app = su_app st; previous = ap_registry app;
          stopped = (\<lambda>ry app. app\<lparr>ap_stopped := ap_stopped app @ [ry_generation ry]\<rparr>)
      in if apply_refused previous candidate pid
         then (Inl (HttpError 422 ''apply''), st\<lparr>su_app := stopped candidate app\<rparr>)
         else (case reconcile_running candidate (ap_jobs app) of
             Inl _ \<Rightarrow> (Inl (HttpError 500 ''apply''), st\<lparr>su_app := stopped candidate app\<rparr>)
           | Inr jobs \<Rightarrow>
               if \<not> sv_commits e
               then (case reconcile_running previous jobs of
                       Inl _ \<Rightarrow> (Inl (HttpError 500 ''apply''), st\<lparr>su_app := app\<lparr>ap_jobs := jobs\<rparr>\<rparr>)
                     | Inr jobs \<Rightarrow> (Inl (HttpError 500 ''apply''), st\<lparr>su_app := stopped candidate (app\<lparr>ap_jobs := jobs\<rparr>)\<rparr>))
               else (Inr (ry_generation candidate),
                     st\<lparr>su_rows := apply_row pid config (su_rows st),
                       su_app := stopped previous (app\<lparr>ap_jobs := jobs, ap_registry := candidate\<rparr>)\<rparr>)))"

definition apply_checks :: "setup_env \<Rightarrow> string \<Rightarrow> int \<Rightarrow> setup_state \<Rightarrow> http_error + config_draft" where
  \<comment> \<open>the first part of \<open>apply_configuration\<close>\<close>
  "apply_checks e pid revision st =
     and_then (plugin_registration st pid) (\<lambda>(r, m).
     and_then (saved_draft st pid) (\<lambda>d.
     and_then (check_revision d revision) (\<lambda>_.
     and_then (raise_when (env_entries (mf_id m) (bi_environ (sv_build e)) \<noteq> []) (HttpError 409 ''environment'')) (\<lambda>_.
     and_then (raise_when (\<not> validate_values e (JObj (df_config d)) (sv_schema e pid)
         \<or> \<not> validate_targets e st (JObj (df_config d)) (sv_schema e pid)) (HttpError 422 ''values'')) (\<lambda>_.
     and_then (draft_digest e st (df_config d) (sv_schema e pid)) (\<lambda>digest.
     and_then (raise_when (\<not> tests_passed m (df_tests d) digest) (HttpError 422 ''tests'')) (\<lambda>_. Inr d)))))))"

definition apply_configuration :: "setup_env \<Rightarrow> string \<Rightarrow> int \<Rightarrow> setup_state \<Rightarrow> (http_error + nat) \<times> setup_state" where
  \<comment> \<open>the answer, and the state it leaves\<close>
  "apply_configuration e pid revision st =
     (case apply_checks e pid revision st of
        Inl err \<Rightarrow> (Inl err, st)
      | Inr d \<Rightarrow>
          (case build_collector_registry ((sv_build e)\<lparr>bi_overrides := apply_overrides st pid (df_config d)\<rparr>)
                  (ry_generation (ap_registry (su_app st)) + 1) of
             Inl _ \<Rightarrow> (Inl (HttpError 500 ''build''), st)
           | Inr built \<Rightarrow> apply_candidate e pid (df_config d) (start_collector_registry (sv_starts e) built) st))"

subsection \<open>The settings route (api/routes/plugins.py)\<close>

definition find_row :: "setup_state \<Rightarrow> string \<Rightarrow> plugin_setting option" where
  "find_row st pid = find (\<lambda>r. ps_plugin_id r = pid) (su_rows st)"

definition may_enable :: "setup_env \<Rightarrow> string \<Rightarrow> registration \<Rightarrow> setup_state \<Rightarrow> http_error + unit" where
  \<comment> \<open>the checks of \<open>update_collector\<close> before a collector with a schema is enabled\<close>
  "may_enable e pid r st =
     (case rg_manifest r of None \<Rightarrow> Inr ()
      | Some m \<Rightarrow>
          if \<not> truthy (sv_schema e pid) then Inr ()
          else (case find_row st pid of
              Some row \<Rightarrow>
                if ps_managed row
                then (case find_draft st pid of
                        None \<Rightarrow> Inl (HttpError 422 ''draft'')
                      | Some d \<Rightarrow>
                          if Some (df_config d) \<noteq> ps_config_values row then Inl (HttpError 422 ''draft'')
                          else and_then (draft_digest e st (df_config d) (sv_schema e pid)) (\<lambda>digest.
                                 raise_when (\<not> tests_passed m (df_tests d) digest) (HttpError 422 ''tests'')))
                else (case rg_config r of None \<Rightarrow> Inl (HttpError 500 ''AttributeError'')
                      | Some c \<Rightarrow> raise_when (cc_values c = []) (HttpError 422 ''setup''))
            | None \<Rightarrow> (case rg_config r of None \<Rightarrow> Inl (HttpError 500 ''AttributeError'')
                      | Some c \<Rightarrow> raise_when (cc_values c = []) (HttpError 422 ''setup''))))"

definition update_collector ::
  "setup_env \<Rightarrow> string \<Rightarrow> bool option \<Rightarrow> int option \<Rightarrow> pyfloat option \<Rightarrow> setup_state \<Rightarrow> http_error + setup_state" where
  "update_collector e pid on interval timeout st =
     (case get_registration (ap_registry (su_app st)) pid of
        None \<Rightarrow> Inl (HttpError 404 ''collector'')
      | Some r \<Rightarrow>
          and_then (if on = Some True then may_enable e pid r st else Inr ()) (\<lambda>_.
          and_then (map_error (HttpError 422) (update_collector_setting pid on interval timeout (su_rows st))) (\<lambda>rows.
            Inr (st\<lparr>su_rows := rows\<rparr>))))"


subsection \<open>Nothing is applied untested\<close>

record setup_history =
  hs_state :: setup_state
  hs_passed :: "(string \<times> string \<times> (string, json) dict \<times> reference list \<times> string) set"
    \<comment> \<open>the setup actions that passed: plugin, action, configuration, references and plugin version\<close>

definition draft_references :: "setup_env \<Rightarrow> setup_state \<Rightarrow> string \<Rightarrow> (string, json) dict \<Rightarrow> config_error + reference list" where
  "draft_references e st pid config = config_references (sv_repr e) (su_ssh st) (JObj config) (sv_schema e pid)"

inductive setup_step :: "(json \<times> reference list \<Rightarrow> string) \<Rightarrow> setup_history \<Rightarrow> setup_history \<Rightarrow> bool" for H where
  put: "put_draft e pid config revision (hs_state h) = Inr (d, st) \<Longrightarrow> setup_step H h (h\<lparr>hs_state := st\<rparr>)"
| import_toml: "import_configuration e pid (hs_state h) = Inr (d, st) \<Longrightarrow> setup_step H h (h\<lparr>hs_state := st\<rparr>)"
| passed: "execute_action e pid action revision (hs_state h) = Inr ((True, d), st) \<Longrightarrow> sv_hash e = H \<Longrightarrow>
    plugin_registration (hs_state h) pid = Inr (r, m) \<Longrightarrow> draft_references e (hs_state h) pid (df_config d) = Inr refs \<Longrightarrow>
    setup_step H h (h\<lparr>hs_state := st, hs_passed := insert (pid, action, df_config d, refs, mf_version m) (hs_passed h)\<rparr>)"
| not_passed: "execute_action e pid action revision (hs_state h) = Inr ((False, d), st) \<Longrightarrow> setup_step H h (h\<lparr>hs_state := st\<rparr>)"
| other: "su_drafts st = su_drafts (hs_state h) \<Longrightarrow> setup_step H h (h\<lparr>hs_state := st\<rparr>)"
  \<comment> \<open>every other request, the passing of time, a new version of a plugin: what leaves the drafts alone\<close>

inductive setup_reachable :: "(json \<times> reference list \<Rightarrow> string) \<Rightarrow> setup_history \<Rightarrow> bool" for H where
  start: "su_drafts st = [] \<Longrightarrow> setup_reachable H \<lparr>hs_state = st, hs_passed = {}\<rparr>"
| more: "setup_reachable H h \<Longrightarrow> setup_step H h h' \<Longrightarrow> setup_reachable H h'"

definition draft_tested :: "(json \<times> reference list \<Rightarrow> string) \<Rightarrow> setup_history \<Rightarrow> config_draft \<Rightarrow> bool" where
  "draft_tested H h d \<longleftrightarrow>
     (\<forall>action t. map_of (df_tests d) action = Some t \<and> ts_ok t \<longrightarrow>
        (\<exists>config refs. (df_plugin_id d, action, config, refs, ts_version t) \<in> hs_passed h \<and> ts_digest t = H (JObj config, refs)))"

lemma store_draft_in: "d' \<in> set (su_drafts (store_draft d st)) \<Longrightarrow> d' = d \<or> d' \<in> set (su_drafts st)"
  by (auto simp: store_draft_def split: if_splits)

lemma find_draft_in: "find_draft st pid = Some d \<Longrightarrow> d \<in> set (su_drafts st) \<and> df_plugin_id d = pid"
  unfolding find_draft_def by (rule find_Some_iff_in)

lemma put_draft_result:
  assumes "put_draft e pid config revision st = Inr (d, st')"
  shows "st' = store_draft d st \<and> df_plugin_id d = pid \<and>
    (df_tests d = [] \<or> find_draft st pid = Some d) \<and> (df_config (draft_or_new st pid) \<noteq> config \<longrightarrow> df_tests d = []) \<and> df_config d = config"
proof -
  have "df_plugin_id (draft_or_new st pid) = pid" "df_tests (draft_or_new st pid) = [] \<or> find_draft st pid = Some (draft_or_new st pid)"
    by (auto simp: draft_or_new_def dest: find_draft_in split: option.splits)
  then show ?thesis using assms by (auto simp: put_draft_def and_then_Inr Let_def split: if_splits)
qed

lemma execute_result:
  assumes "execute_action e pid action revision st = Inr ((ok, d), st')"
  shows "\<exists>d0 r m refs. find_draft st pid = Some d0 \<and> plugin_registration st pid = Inr (r, m) \<and>
    draft_references e st pid (df_config d0) = Inr refs \<and> st' = store_draft d st \<and>
    d = d0\<lparr>df_tests := AList.update action \<lparr>ts_ok = ok, ts_digest = sv_hash e (JObj (df_config d0), refs), ts_version = mf_version m\<rparr> (df_tests d0)\<rparr>"
  using assms
  by (auto simp: execute_action_def saved_draft_def draft_digest_def reference_digest_def draft_references_def and_then_Inr Let_def
      split: option.splits)

lemma reachable_tested: "setup_reachable H h \<Longrightarrow> \<forall>d\<in>set (su_drafts (hs_state h)). draft_tested H h d"
proof (induction rule: setup_reachable.induct)
  case (more h h')
  have keep: "draft_tested H h'' d" if "draft_tested H h d" "hs_passed h \<subseteq> hs_passed h''" for d h''
    using that by (fastforce simp: draft_tested_def)
  from more.hyps(2) show ?case
  proof cases
    case (put e pid config revision d st)
    have d: "draft_tested H h' d"
      using put_draft_result [OF put(2)] find_draft_in [of "hs_state h" pid d] more.IH keep put(1) by (auto simp: draft_tested_def)
    show ?thesis using put_draft_result [OF put(2)] store_draft_in d more.IH keep put(1) by fastforce
  next
    case (import_toml e pid d st)
    then have "df_tests d = []" "st = store_draft d (hs_state h)"
      by (auto simp: import_configuration_def and_then_Inr Let_def split: option.splits)
    then show ?thesis using store_draft_in more.IH keep import_toml(1) by (fastforce simp: draft_tested_def)
  next
    case (passed e pid action revision d st r m refs)
    obtain d0 m' r' refs' where d0: "find_draft (hs_state h) pid = Some d0" "plugin_registration (hs_state h) pid = Inr (r', m')"
      "draft_references e (hs_state h) pid (df_config d0) = Inr refs'" "st = store_draft d (hs_state h)"
      "d = d0\<lparr>df_tests := AList.update action \<lparr>ts_ok = True, ts_digest = sv_hash e (JObj (df_config d0), refs'), ts_version = mf_version m'\<rparr> (df_tests d0)\<rparr>"
      using execute_result [OF passed(2)] by blast
    have "draft_tested H h d0" "df_plugin_id d0 = pid" using find_draft_in [OF d0(1)] more.IH by auto
    then have d: "draft_tested H h' d"
      using d0(2,3,5) passed(1,3,4,5) by (fastforce simp: draft_tested_def)
    show ?thesis using store_draft_in d0(4) d more.IH keep [of _ h'] passed(1) by fastforce
  next
    case (not_passed e pid action revision d st)
    obtain d0 m' r' refs' where d0: "find_draft (hs_state h) pid = Some d0" "plugin_registration (hs_state h) pid = Inr (r', m')"
      "draft_references e (hs_state h) pid (df_config d0) = Inr refs'" "st = store_draft d (hs_state h)"
      "d = d0\<lparr>df_tests := AList.update action \<lparr>ts_ok = False, ts_digest = sv_hash e (JObj (df_config d0), refs'), ts_version = mf_version m'\<rparr> (df_tests d0)\<rparr>"
      using execute_result [OF not_passed(2)] by blast
    have "draft_tested H h d0" "df_plugin_id d0 = pid" using find_draft_in [OF d0(1)] more.IH by auto
    then have d: "draft_tested H h' d"
      using d0(5) not_passed(1) by (fastforce simp: draft_tested_def split: if_splits)
    show ?thesis using store_draft_in d0(4) d more.IH keep [of _ h'] not_passed(1) by fastforce
  next
    case (other st)
    then show ?thesis using more.IH keep by auto
  qed
qed simp

lemma apply_checked:
  assumes "apply_checks e pid revision st = Inr d"
  shows "\<exists>r m refs. plugin_registration st pid = Inr (r, m) \<and> find_draft st pid = Some d \<and> df_revision d = revision \<and>
    draft_references e st pid (df_config d) = Inr refs \<and> tests_passed m (df_tests d) (sv_hash e (JObj (df_config d), refs))"
  using assms
  by (auto simp: apply_checks_def saved_draft_def check_revision_def draft_digest_def reference_digest_def draft_references_def and_then_Inr
      split: option.splits)

lemma apply_Inr:
  assumes "apply_configuration e pid revision st = (Inr g, st')"
  shows "\<exists>d. apply_checks e pid revision st = Inr d"
  using assms by (auto simp: apply_configuration_def split: sum.splits)

text \<open>C5: 
  Whatever administrators edit, test and change in between: when a configuration is applied, every action its
  plugin requires has passed for exactly this configuration, with the SSH connections as they are now (their
  revision and approved key) and with this version of the plugin, provided the hash has no collision with
  what passed.
\<close>
theorem applied_configuration_was_tested:
  assumes "setup_reachable (sv_hash e) h" "apply_configuration e pid revision (hs_state h) = (Inr g, st')"
    "find_draft (hs_state h) pid = Some d" "plugin_registration (hs_state h) pid = Inr (r, m)"
    "draft_references e (hs_state h) pid (df_config d) = Inr refs"
    "\<forall>(p, act, config, refs', v) \<in> hs_passed h.
       sv_hash e (JObj config, refs') = sv_hash e (JObj (df_config d), refs) \<longrightarrow> (config, refs') = (df_config d, refs)"
    "a \<in> set (mf_setup_actions m)" "required_for_enable a"
  shows "(pid, action_id a, df_config d, refs, mf_version m) \<in> hs_passed h"
proof -
  obtain d' where "apply_checks e pid revision (hs_state h) = Inr d'" using apply_Inr [OF assms(2)] by blast
  from apply_checked [OF this] have t: "tests_passed m (df_tests d) (sv_hash e (JObj (df_config d), refs))"
    using assms(3,4,5) by auto
  then obtain t where t: "map_of (df_tests d) (action_id a) = Some t" "ts_ok t" "ts_digest t = sv_hash e (JObj (df_config d), refs)"
    "ts_version t = mf_version m"
    using assms(7,8) by (fastforce simp: tests_passed_def list_all_iff split: option.splits)
  have "draft_tested (sv_hash e) h d" "df_plugin_id d = pid"
    using reachable_tested [OF assms(1)] find_draft_in [OF assms(3)] by auto
  then obtain config refs' where "(pid, action_id a, config, refs', mf_version m) \<in> hs_passed h"
    "ts_digest t = sv_hash e (JObj config, refs')"
    using t by (fastforce simp: draft_tested_def)
  then show ?thesis using assms(6) t(3) by fastforce
qed


subsection \<open>Applying is all or nothing\<close>

definition consistent :: "app_state \<Rightarrow> bool" where
  \<comment> \<open>the jobs are those of the active generation\<close>
  "consistent app \<longleftrightarrow> distinct (map fst (collector_intervals (ap_registry app))) \<and>
     (case ap_jobs app of None \<Rightarrow> True
      | Some jobs \<Rightarrow> jobs_ok jobs \<and> collector_schedule jobs = registry_schedule (ap_registry app))"

lemma reconcile_running_ok:
  assumes "distinct (map fst (collector_intervals ry))" "case jobs of None \<Rightarrow> True | Some js \<Rightarrow> jobs_ok js"
  shows "\<exists>jobs'. reconcile_running ry jobs = Inr jobs' \<and> (jobs' = None \<longleftrightarrow> jobs = None) \<and>
    (case jobs' of None \<Rightarrow> True | Some js \<Rightarrow> jobs_ok js \<and> collector_schedule js = registry_schedule ry)"
proof (cases jobs)
  case (Some js)
  then obtain js' ch where "reconcile_collector_jobs ry js = Inr (js', ch)" "jobs_ok js'" "collector_schedule js' = registry_schedule ry"
    using reconcile_matches_registry [OF _ assms(1), of js] assms(2) by auto
  then show ?thesis using Some by (simp add: reconcile_running_def)
qed (simp add: reconcile_running_def)

lemma apply_candidate_ok:
  assumes "consistent (su_app st)" "distinct (map fst (collector_intervals candidate))"
    "apply_candidate e pid config candidate st = (res, st')"
  shows "consistent (su_app st') \<and> su_drafts st' = su_drafts st \<and> su_ssh st' = su_ssh st \<and>
    (isl res \<longrightarrow> su_rows st' = su_rows st \<and> ap_registry (su_app st') = ap_registry (su_app st)) \<and>
    (\<not> isl res \<longrightarrow> su_rows st' = apply_row pid config (su_rows st) \<and> ap_registry (su_app st') = candidate \<and>
       \<not> apply_refused (ap_registry (su_app st)) candidate pid)"
proof (cases "apply_refused (ap_registry (su_app st)) candidate pid")
  case True
  then show ?thesis using assms by (auto simp: apply_candidate_def Let_def consistent_def split: option.splits)
next
  case False
  obtain jobs where j: "reconcile_running candidate (ap_jobs (su_app st)) = Inr jobs" "jobs = None \<longleftrightarrow> ap_jobs (su_app st) = None"
    "case jobs of None \<Rightarrow> True | Some js \<Rightarrow> jobs_ok js \<and> collector_schedule js = registry_schedule candidate"
    using reconcile_running_ok [OF assms(2), of "ap_jobs (su_app st)"] assms(1) by (auto simp: consistent_def split: option.splits)
  obtain undone where b: "reconcile_running (ap_registry (su_app st)) jobs = Inr undone" "undone = None \<longleftrightarrow> jobs = None"
    "case undone of None \<Rightarrow> True | Some js \<Rightarrow> jobs_ok js \<and> collector_schedule js = registry_schedule (ap_registry (su_app st))"
    using reconcile_running_ok [of "ap_registry (su_app st)" jobs] assms(1) j(3) by (auto simp: consistent_def split: option.splits)
  show ?thesis
  proof (cases "sv_commits e")
    case True
    then show ?thesis using assms False j by (auto simp: apply_candidate_def Let_def consistent_def split: option.splits)
  next
    case no: False
    then show ?thesis using assms False j b by (auto simp: apply_candidate_def Let_def consistent_def split: option.splits)
  qed
qed

lemma started_intervals:
  assumes "build_collector_registry bi g = Inr ry"
  shows "distinct (map fst (collector_intervals (start_collector_registry starts ry)))"
proof -
  obtain owners where "generation_ok (ry_registrations (start_collector_registry starts ry)) owners"
    using built_ok [OF assms] started_ok by blast
  then show ?thesis by (rule intervals_distinct)
qed

text \<open>C6: 
  Applying a draft either fails and leaves the stored settings, the active generation and its schedule as they
  were (also when the database refuses the commit after the jobs were changed), or it succeeds: the collector runs with the
  draft's configuration, that configuration is stored as enabled, no collector that ran before has failed, and
  the jobs are those of the new generation.
\<close>
theorem apply_is_all_or_nothing:
  assumes "consistent (su_app st)" "apply_configuration e pid revision st = (res, st')"
  shows "consistent (su_app st') \<and> su_drafts st' = su_drafts st \<and>
    (isl res \<longrightarrow> su_rows st' = su_rows st \<and> ap_registry (su_app st') = ap_registry (su_app st)) \<and>
    (\<not> isl res \<longrightarrow> is_enabled_in (ap_registry (su_app st')) pid \<and>
       (\<exists>d. find_draft st pid = Some d \<and> df_revision d = revision \<and> su_rows st' = apply_row pid (df_config d) (su_rows st)) \<and>
       (\<forall>x r. is_enabled_in (ap_registry (su_app st)) x \<longrightarrow> get_registration (ap_registry (su_app st')) x = Some r \<longrightarrow>
          rg_plugin_id r = x \<longrightarrow> rg_status r \<noteq> Reg_failed))"
proof (cases "apply_checks e pid revision st")
  case (Inl err)
  then show ?thesis using assms by (auto simp: apply_configuration_def)
next
  case (Inr d)
  note d = apply_checked [OF Inr]
  show ?thesis
  proof (cases "build_collector_registry ((sv_build e)\<lparr>bi_overrides := apply_overrides st pid (df_config d)\<rparr>) (ry_generation (ap_registry (su_app st)) + 1)")
    case (Inl err)
    then show ?thesis using assms Inr by (auto simp: apply_configuration_def)
  next
    case built: (Inr ry)
    let ?c = "start_collector_registry (sv_starts e) ry"
    have a: "apply_candidate e pid (df_config d) ?c st = (res, st')" using assms(2) Inr built by (simp add: apply_configuration_def)
    note r = apply_candidate_ok [OF assms(1) started_intervals [OF built] a]
    have "rg_status q \<noteq> Reg_failed"
      if "\<not> apply_refused (ap_registry (su_app st)) ?c pid" "is_enabled_in (ap_registry (su_app st)) x" "get_registration ?c x = Some q" "rg_plugin_id q = x"
      for x q using that by (force simp: apply_refused_def list_ex_iff get_registration_def dest: map_of_SomeD)
    then show ?thesis using r d by (auto simp: apply_refused_def)
  qed
qed

text \<open>
  Editing a draft forgets its tests: with a configuration that differs from the old one and a required action, applying is refused
  until the action has been run again.
\<close>
theorem edited_draft_needs_new_tests:
  assumes "put_draft e pid config revision st = Inr (d, st')" "config \<noteq> df_config (draft_or_new st pid)"
    "plugin_registration st pid = Inr (r, m)" "list_ex required_for_enable (mf_setup_actions m)"
  shows "isl (fst (apply_configuration e' pid n st')) \<and> snd (apply_configuration e' pid n st') = st'"
proof -
  note p = put_draft_result [OF assms(1)]
  have f: "find_draft st' pid = Some d"
  proof (cases "list_ex (\<lambda>x. df_plugin_id x = pid) (su_drafts st)")
    case True
    have "find (\<lambda>x. df_plugin_id x = pid) (map (\<lambda>x. if df_plugin_id x = pid then d else x) xs) = Some d"
      if "list_ex (\<lambda>x. df_plugin_id x = pid) xs" for xs using that p by (induction xs) auto
    then show ?thesis using True p by (simp add: find_draft_def store_draft_def)
  next
    case False
    then have "find (\<lambda>x. df_plugin_id x = pid) (su_drafts st) = None" by (auto simp: find_None_iff list_ex_iff)
    then show ?thesis using False p by (simp add: find_draft_def store_draft_def find_append)
  qed
  have "plugin_registration st' pid = Inr (r, m)" using assms(3) p by (simp add: plugin_registration_def store_draft_def)
  moreover have "df_tests d = []" using p assms(2) by auto
  ultimately have "\<exists>err. apply_checks e' pid n st' = Inl err"
    using apply_checked [of e' pid n st'] f assms(4)
    by (cases "apply_checks e' pid n st'") (fastforce simp: tests_passed_def list_all_iff list_ex_iff)+
  then show ?thesis by (auto simp: apply_configuration_def)
qed

text \<open>
  Enabling a collector that has a schema but whose configuration could not be read crashes instead of answering
  with the error meant for a collector that is not set up.
\<close>
theorem enabling_without_configuration_crashes:
  assumes "get_registration (ap_registry (su_app st)) pid = Some r" "rg_manifest r = Some m" "rg_config r = None"
    "truthy (sv_schema e pid)" "find_row st pid = None"
  shows "update_collector e pid (Some True) interval timeout st = Inl (HttpError 500 ''AttributeError'')"
  using assms by (simp add: update_collector_def may_enable_def)


subsection \<open>A history\<close>

definition sample_setup_manifest :: collector_manifest where
  "sample_setup_manifest = (sample_manifest ''acme.logs'' [''b.t''])\<lparr>mf_setup_actions :=
     [\<lparr>action_id = ''test'', action_title = ''x'', required_for_enable = True\<rparr>]\<rparr>"

definition sample_setup :: setup_env where
  "sample_setup =
     \<lparr>sv_schema = (\<lambda>_. JObj [(''type'', JStr ''object'')]), sv_schema_ok = (\<lambda>_. True), sv_valid = (\<lambda>_ _. True), sv_repr = (\<lambda>_. []),
      sv_hash = (\<lambda>(config, refs). if refs = [] then ''a'' else ''b''), sv_dumped_size = (\<lambda>_. 20), sv_ssh_settings = sample_ssh_settings,
      sv_setup = (\<lambda>t config files action. Some [True, True]),
      sv_build = sample_build [\<lparr>cand_manifest = Some sample_setup_manifest, cand_is_plugin = True, cand_source = ''entry_point:l'', cand_id = ''l''\<rparr>],
      sv_starts = (\<lambda>_. None), sv_commits = True\<rparr>"

definition sample_setup_registry :: registry where
  "sample_setup_registry = (case build_collector_registry (sv_build sample_setup) 1 of Inr ry \<Rightarrow> ry | Inl _ \<Rightarrow> \<lparr>ry_registrations = [], ry_generation = 0\<rparr>)"

definition sample_setup_start :: setup_state where
  "sample_setup_start =
     \<lparr>su_ssh = sample_db4, su_drafts = [], su_rows = [], su_vcenters = [(7, True)],
      su_app = \<lparr>ap_registry = sample_setup_registry, ap_jobs = Some [collector_job ''builtin.vcenter.events'' 30], ap_stopped = []\<rparr>\<rparr>"

definition sample_config_values :: "(string, json) dict" where "sample_config_values = [(''host'', JStr ''h'')]"

definition state_of :: "http_error + 'a \<times> setup_state \<Rightarrow> setup_state" where
  "state_of r = (case r of Inr (_, st) \<Rightarrow> st | Inl _ \<Rightarrow> sample_setup_start)"

definition sample_put :: "http_error + config_draft \<times> setup_state" where
  "sample_put = put_draft sample_setup ''acme.logs'' sample_config_values (Some 1) sample_setup_start"
definition sample_edited :: setup_state where "sample_edited = state_of sample_put"
definition sample_test :: "http_error + (bool \<times> config_draft) \<times> setup_state" where
  "sample_test = execute_action sample_setup ''acme.logs'' ''test'' 2 sample_edited"
definition sample_tested :: setup_state where "sample_tested = state_of sample_test"

definition sample_draft :: "(string, setup_test) dict \<Rightarrow> config_draft" where
  "sample_draft tests = \<lparr>df_plugin_id = ''acme.logs'', df_config = sample_config_values, df_tests = tests, df_revision = 2\<rparr>"

definition sample_passed :: setup_test where "sample_passed = \<lparr>ts_ok = True, ts_digest = ''a'', ts_version = ''1''\<rparr>"

definition sample_registration :: registration where
  "sample_registration =
     \<lparr>rg_plugin_id = ''acme.logs'', rg_manifest = Some sample_setup_manifest, rg_source = ''entry_point:l'',
      rg_config = Some \<lparr>cc_enabled = False, cc_interval_seconds = 60, cc_timeout_seconds = Fin 45, cc_values = []\<rparr>,
      rg_status = Reg_disabled, rg_error = None\<rparr>"

lemma sample_get: "get_registration sample_setup_registry ''acme.logs'' = Some sample_registration"
  by code_simp

lemma sample_plugin: "su_app st = su_app sample_setup_start \<Longrightarrow> plugin_registration st ''acme.logs'' = Inr (sample_registration, sample_setup_manifest)"
  by (simp add: plugin_registration_def sample_setup_start_def sample_get) (simp add: sample_registration_def)

lemma sample_schema_ok: "\<not> schema_error sample_setup (sv_schema sample_setup pid)"
  by (simp add: schema_error_def sample_setup_def node_ok_def SCHEMA_KEYWORDS_def SCHEMA_TYPES_def jget_def is_text_in_def truthy_def)

lemma sample_put_result: "sample_put = Inr (sample_draft [], sample_setup_start\<lparr>su_drafts := [sample_draft []]\<rparr>)"
  by (simp add: sample_put_def put_draft_def sample_plugin sample_schema_ok)
    (simp add: sample_setup_start_def draft_or_new_def find_draft_def check_revision_def sample_config_values_def sample_draft_def store_draft_def
      sample_setup_def raise_when_def Let_def)

lemma sample_edited: "sample_edited = sample_setup_start\<lparr>su_drafts := [sample_draft []]\<rparr>"
  by (simp add: sample_edited_def sample_put_result state_of_def)

lemma sample_digest: "su_ssh st = sample_db4 \<Longrightarrow> draft_references sample_setup st ''acme.logs'' sample_config_values = Inr []"
  by (simp add: draft_references_def config_references_def sample_setup_def sample_config_values_def jget_def jtable_def truthy_def)

lemma sample_digest': "su_ssh st = sample_db4 \<Longrightarrow> draft_digest sample_setup st sample_config_values (sv_schema sample_setup ''acme.logs'') = Inr ''a''"
  using sample_digest [of st]
  by (simp add: draft_digest_def reference_digest_def draft_references_def map_error_def) (simp add: sample_setup_def)

lemma sample_targets:
  "su_vcenters st = [(7, True)] \<Longrightarrow> validate_targets sample_setup st (JObj sample_config_values) (sv_schema sample_setup pid)"
  "su_vcenters st = [(7, True)] \<Longrightarrow> setup_targets sample_setup st (JObj sample_config_values) (sv_schema sample_setup pid) = [7]"
  by (simp_all add: validate_targets_def setup_targets_def vcenter_ids_def sample_setup_def sample_config_values_def jget_def Let_def)

lemma sample_run: "run_setup sample_setup (sample_setup_start\<lparr>su_drafts := ds\<rparr>) (JObj sample_config_values) (sv_schema sample_setup pid) ''test'' = Some [True, True]"
proof -
  have o: "ssh_objects (sv_repr sample_setup) True (JObj sample_config_values) (sv_schema sample_setup pid) = Inr []"
    by (simp add: sample_setup_def sample_config_values_def jget_def jtable_def truthy_def)
  have v: "validate_values sample_setup (JObj sample_config_values) (sv_schema sample_setup pid)"
    using sample_schema_ok by (simp add: validate_values_def) (simp add: sample_setup_def)
  have s: "sv_setup sample_setup t c f a = Some [True, True]" for t c f a by (simp add: sample_setup_def)
  show ?thesis by (simp add: run_setup_def v sample_targets sample_setup_start_def materialize_ssh_def o s Let_def)
qed

lemma sample_test_result:
  "sample_test = Inr ((True, sample_draft [(''test'', sample_passed)]), sample_setup_start\<lparr>su_drafts := [sample_draft [(''test'', sample_passed)]]\<rparr>)"
proof -
  let ?st = "sample_setup_start\<lparr>su_drafts := [sample_draft []]\<rparr>"
  have d: "saved_draft ?st ''acme.logs'' = Inr (sample_draft [])" by (simp add: saved_draft_def find_draft_def sample_draft_def)
  have c: "df_config (sample_draft ts) = sample_config_values" "df_revision (sample_draft ts) = 2" "df_tests (sample_draft ts) = ts" for ts
    by (simp_all add: sample_draft_def)
  have m: "''test'' \<in> set (map action_id (mf_setup_actions sample_setup_manifest))" "mf_version sample_setup_manifest = ''1''"
    by (simp_all add: sample_setup_manifest_def sample_manifest_def)
  have g: "draft_digest sample_setup ?st sample_config_values (sv_schema sample_setup ''acme.logs'') = Inr ''a''"
    by (rule sample_digest') (simp add: sample_setup_start_def)
  have p: "plugin_registration ?st ''acme.logs'' = Inr (sample_registration, sample_setup_manifest)" by (rule sample_plugin) simp
  have "execute_action sample_setup ''acme.logs'' ''test'' 2 ?st =
      Inr ((True, (sample_draft [])\<lparr>df_tests := [(''test'', sample_passed)]\<rparr>), store_draft ((sample_draft [])\<lparr>df_tests := [(''test'', sample_passed)]\<rparr>) ?st)"
    unfolding execute_action_def p d and_then_simps check_revision_def c g case_prod_conv sample_run
    using m by (simp add: raise_when_def Let_def c sample_passed_def)
  then show ?thesis by (simp add: sample_test_def sample_edited sample_draft_def store_draft_def)
qed

lemma sample_tested: "sample_tested = sample_setup_start\<lparr>su_drafts := [sample_draft [(''test'', sample_passed)]]\<rparr>"
  by (simp add: sample_tested_def sample_test_result state_of_def)


lemma sample_setup_reachable:
  "setup_reachable (sv_hash sample_setup) \<lparr>hs_state = sample_tested, hs_passed = {(''acme.logs'', ''test'', sample_config_values, [], ''1'')}\<rparr>"
proof -
  let ?h = "\<lambda>st R. \<lparr>hs_state = st, hs_passed = R\<rparr>"
  have 0: "setup_reachable (sv_hash sample_setup) (?h sample_setup_start {})"
    by (rule setup_reachable.start) (simp add: sample_setup_start_def)
  have "put_draft sample_setup ''acme.logs'' sample_config_values (Some 1) sample_setup_start = Inr (sample_draft [], sample_edited)"
    using sample_put_result by (simp add: sample_put_def sample_edited)
  then have "setup_step (sv_hash sample_setup) (?h sample_setup_start {}) ((?h sample_setup_start {})\<lparr>hs_state := sample_edited\<rparr>)"
    by (intro setup_step.put) simp
  with 0 have 1: "setup_reachable (sv_hash sample_setup) (?h sample_edited {})" using setup_reachable.more by fastforce
  have "setup_step (sv_hash sample_setup) (?h sample_edited {}) ((?h sample_edited {})\<lparr>hs_state := sample_tested, hs_passed :=
      insert (''acme.logs'', ''test'', df_config (sample_draft [(''test'', sample_passed)]), [], mf_version sample_setup_manifest) (hs_passed (?h sample_edited {}))\<rparr>)"
  proof (rule setup_step.passed [where e = sample_setup and revision = 2])
    show "execute_action sample_setup ''acme.logs'' ''test'' 2 (hs_state (?h sample_edited {})) = Inr ((True, sample_draft [(''test'', sample_passed)]), sample_tested)"
      using sample_test_result by (simp add: sample_test_def sample_tested)
    show "plugin_registration (hs_state (?h sample_edited {})) ''acme.logs'' = Inr (sample_registration, sample_setup_manifest)"
      by (simp add: sample_plugin sample_edited)
    show "draft_references sample_setup (hs_state (?h sample_edited {})) ''acme.logs'' (df_config (sample_draft [(''test'', sample_passed)])) = Inr []"
      using sample_digest [of sample_edited] by (simp add: sample_draft_def sample_edited sample_setup_start_def)
  qed simp
  with 1 have "setup_reachable (sv_hash sample_setup) ((?h sample_edited {})\<lparr>hs_state := sample_tested, hs_passed :=
      insert (''acme.logs'', ''test'', df_config (sample_draft [(''test'', sample_passed)]), [], mf_version sample_setup_manifest) (hs_passed (?h sample_edited {}))\<rparr>)"
    by (rule setup_reachable.more)
  then show ?thesis by (simp add: sample_draft_def sample_setup_manifest_def sample_manifest_def)
qed

definition sample_build_2 :: build_inputs where
  "sample_build_2 = (sv_build sample_setup)\<lparr>bi_overrides := apply_overrides sample_tested ''acme.logs'' sample_config_values\<rparr>"

definition sample_candidate_registry :: registry where
  "sample_candidate_registry = start_collector_registry (sv_starts sample_setup)
     (case build_collector_registry sample_build_2 2 of Inr ry \<Rightarrow> ry | Inl _ \<Rightarrow> \<lparr>ry_registrations = [], ry_generation = 0\<rparr>)"

lemma sample_overrides:
  "sample_build_2 = (sv_build sample_setup)\<lparr>bi_overrides := [(''acme.logs'',
     [(''enabled'', JBool True), (''config_values'', JObj sample_config_values), (''replace_config'', JBool True)])]\<rparr>"
  by (simp add: sample_build_2_def apply_overrides_def sample_tested sample_setup_start_def load_collector_db_overrides_def dict_update_def)

lemma sample_not_refused: "\<not> apply_refused sample_setup_registry sample_candidate_registry ''acme.logs''" "ry_generation sample_candidate_registry = 2"
  unfolding sample_candidate_registry_def sample_overrides by code_simp+

lemma sample_build_2: "build_collector_registry sample_build_2 2 = Inr (case build_collector_registry sample_build_2 2 of Inr ry \<Rightarrow> ry | Inl _ \<Rightarrow> \<lparr>ry_registrations = [], ry_generation = 0\<rparr>)"
proof -
  have "\<not> isl (build_collector_registry sample_build_2 2)" unfolding sample_overrides by code_simp
  then show ?thesis by (auto split: sum.splits)
qed


lemma sample_consistent: "consistent (su_app sample_tested)"
proof -
  have i: "collector_intervals sample_setup_registry = [(''builtin.vcenter.events'', 30)]" by code_simp
  have "jobs_ok [collector_job ''builtin.vcenter.events'' 30]"
    by (auto simp: jobs_ok_def collector_job_def interval_job_def)
  moreover have "collector_schedule [collector_job ''builtin.vcenter.events'' 30] = registry_schedule sample_setup_registry"
    by (auto simp: collector_schedule_def registry_schedule_def i collector_job_def interval_job_def)
  ultimately show ?thesis by (simp add: consistent_def sample_tested sample_setup_start_def i)
qed

lemma sample_checks: "apply_checks sample_setup ''acme.logs'' 2 sample_tested = Inr (sample_draft [(''test'', sample_passed)])"
proof -
  let ?st = "sample_setup_start\<lparr>su_drafts := [sample_draft [(''test'', sample_passed)]]\<rparr>"
  have d: "saved_draft ?st ''acme.logs'' = Inr (sample_draft [(''test'', sample_passed)])"
    by (simp add: saved_draft_def find_draft_def sample_draft_def)
  have c: "df_config (sample_draft ts) = sample_config_values" "df_revision (sample_draft ts) = 2" "df_tests (sample_draft ts) = ts" for ts
    by (simp_all add: sample_draft_def)
  have g: "draft_digest sample_setup ?st sample_config_values (sv_schema sample_setup ''acme.logs'') = Inr ''a''"
    by (rule sample_digest') (simp add: sample_setup_start_def)
  have p: "plugin_registration ?st ''acme.logs'' = Inr (sample_registration, sample_setup_manifest)" by (rule sample_plugin) simp
  have v: "validate_values sample_setup (JObj sample_config_values) (sv_schema sample_setup ''acme.logs'')"
    using sample_schema_ok by (simp add: validate_values_def) (simp add: sample_setup_def)
  have t: "validate_targets sample_setup ?st (JObj sample_config_values) (sv_schema sample_setup ''acme.logs'')"
    by (rule sample_targets) (simp add: sample_setup_start_def)
  have n: "env_entries (mf_id sample_setup_manifest) (bi_environ (sv_build sample_setup)) = []" by code_simp
  have ok: "tests_passed sample_setup_manifest [(''test'', sample_passed)] ''a''"
    by (simp add: tests_passed_def sample_setup_manifest_def sample_manifest_def sample_passed_def)
  show ?thesis
    unfolding sample_tested apply_checks_def p d and_then_simps case_prod_conv check_revision_def c g n raise_when_def
    using v t ok by simp
qed

definition sample_answer :: "(http_error + nat) \<times> setup_state" where
  "sample_answer = apply_configuration sample_setup ''acme.logs'' 2 sample_tested"

lemma sample_answer: "fst sample_answer = Inr 2"
proof -
  have a: "sample_answer = apply_candidate sample_setup ''acme.logs'' sample_config_values sample_candidate_registry sample_tested"
  proof -
    have c: "df_config (sample_draft ts) = sample_config_values" for ts by (simp add: sample_draft_def)
    have g: "ry_generation (ap_registry (su_app sample_tested)) + 1 = 2"
      unfolding sample_tested sample_setup_start_def by code_simp
    show ?thesis
      unfolding sample_answer_def apply_configuration_def sample_checks sum.case c g sample_build_2_def [symmetric]
      by (subst sample_build_2) (simp add: sample_candidate_registry_def)
  qed
  have d: "distinct (map fst (collector_intervals sample_candidate_registry))"
    unfolding sample_candidate_registry_def by (rule started_intervals [OF sample_build_2])
  have j: "case ap_jobs (su_app sample_tested) of None \<Rightarrow> True | Some js \<Rightarrow> jobs_ok js"
    using sample_consistent by (auto simp: consistent_def split: option.splits)
  have r: "ap_registry (su_app sample_tested) = sample_setup_registry" by (simp add: sample_tested sample_setup_start_def)
  obtain jobs where "reconcile_running sample_candidate_registry (ap_jobs (su_app sample_tested)) = Inr jobs"
    using reconcile_running_ok [OF d j] by blast
  moreover have "sv_commits sample_setup" by (simp add: sample_setup_def)
  ultimately show ?thesis unfolding a using sample_not_refused by (simp add: apply_candidate_def r Let_def)
qed

lemma sample_answer_pair: "apply_configuration sample_setup ''acme.logs'' 2 sample_tested = (fst sample_answer, snd sample_answer)"
  by (simp add: sample_answer_def)

lemma apply_is_all_or_nothing_witness:
  "consistent (su_app (snd sample_answer)) \<and> su_drafts (snd sample_answer) = su_drafts sample_tested \<and>
    is_enabled_in (ap_registry (su_app (snd sample_answer))) ''acme.logs'' \<and>
    (\<exists>d. find_draft sample_tested ''acme.logs'' = Some d \<and> df_revision d = 2 \<and>
       su_rows (snd sample_answer) = apply_row ''acme.logs'' (df_config d) (su_rows sample_tested))"
  using apply_is_all_or_nothing [OF sample_consistent sample_answer_pair] sample_answer by simp

lemma applied_configuration_was_tested_witness:
  "(''acme.logs'', action_id \<lparr>action_id = ''test'', action_title = ''x'', required_for_enable = True\<rparr>,
     df_config (sample_draft [(''test'', sample_passed)]), [], mf_version sample_setup_manifest)
     \<in> hs_passed \<lparr>hs_state = sample_tested, hs_passed = {(''acme.logs'', ''test'', sample_config_values, [], ''1'')}\<rparr>"
proof (rule applied_configuration_was_tested [OF sample_setup_reachable])
  show "apply_configuration sample_setup ''acme.logs'' 2 (hs_state \<lparr>hs_state = sample_tested,
      hs_passed = {(''acme.logs'', ''test'', sample_config_values, [], ''1'')}\<rparr>) = (Inr 2, snd sample_answer)"
    using sample_answer sample_answer_pair by simp
qed (simp_all add: find_draft_def sample_tested sample_draft_def sample_plugin sample_digest sample_setup_start_def sample_setup_manifest_def)

lemma edited_draft_needs_new_tests_witness:
  "isl (fst (apply_configuration sample_setup ''acme.logs'' 2 (sample_setup_start\<lparr>su_drafts := [sample_draft []]\<rparr>))) \<and>
   snd (apply_configuration sample_setup ''acme.logs'' 2 (sample_setup_start\<lparr>su_drafts := [sample_draft []]\<rparr>))
     = sample_setup_start\<lparr>su_drafts := [sample_draft []]\<rparr>"
proof (rule edited_draft_needs_new_tests)
  show "put_draft sample_setup ''acme.logs'' sample_config_values (Some 1) sample_setup_start
      = Inr (sample_draft [], sample_setup_start\<lparr>su_drafts := [sample_draft []]\<rparr>)"
    using sample_put_result by (simp add: sample_put_def)
  show "plugin_registration sample_setup_start ''acme.logs'' = Inr (sample_registration, sample_setup_manifest)"
    by (simp add: sample_plugin)
qed (simp_all add: draft_or_new_def find_draft_def sample_setup_start_def sample_config_values_def sample_setup_manifest_def)

definition sample_broken :: setup_state where
  "sample_broken = sample_setup_start\<lparr>su_app := (su_app sample_setup_start)\<lparr>ap_registry :=
     \<lparr>ry_registrations = [(''acme.logs'', sample_registration\<lparr>rg_config := None, rg_status := Reg_failed\<rparr>)], ry_generation = 1\<rparr>\<rparr>\<rparr>"

lemma enabling_without_configuration_crashes_witness:
  "update_collector sample_setup ''acme.logs'' (Some True) None None sample_broken = Inl (HttpError 500 ''AttributeError'')"
proof (rule enabling_without_configuration_crashes)
  show "get_registration (ap_registry (su_app sample_broken)) ''acme.logs'' = Some (sample_registration\<lparr>rg_config := None, rg_status := Reg_failed\<rparr>)"
    by (simp add: get_registration_def sample_broken_def)
qed (simp_all add: sample_registration_def sample_setup_def truthy_def find_row_def sample_broken_def sample_setup_start_def)

end
