(* ===== verification/BodyLimit.thy ===== *)
theory BodyLimit
  imports Pytext "HOL-Library.Char_ord" "HOL-Library.List_Lexorder"
begin

section \<open>The limit on request bodies (api/request\_body\_limit.py)\<close>

text \<open>
  The middleware picks a limit by method and path, refuses a request whose \<open>Content-Length\<close> announces
  more (comparing digits, so that a number of any size costs nothing) and, for the methods with a
  body, counts what the application receives.
\<close>

record http_scope =
  hs_http :: bool
  hs_method :: string
  hs_path :: string
  hs_content_lengths :: "string list"
  hs_content_type :: "string option"

datatype http_message = HttpRequest "nat option" \<comment> \<open>the length of the body, if there is one\<close> | OtherMessage string

datatype received = Message http_message | MultipartTooLarge | TooLarge413

definition MIB :: nat where "MIB = 1024 * 1024"
definition DEFAULT_BODY_LIMIT :: nat where "DEFAULT_BODY_LIMIT = 16 * MIB"
definition LOGIN_BODY_LIMIT :: nat where "LOGIN_BODY_LIMIT = 64 * 1024"
definition MAX_UPLOAD_BYTES :: nat where "MAX_UPLOAD_BYTES = 50 * 1024 * 1024"
definition UPLOAD_BODY_LIMIT :: nat where "UPLOAD_BODY_LIMIT = MAX_UPLOAD_BYTES + MIB"

definition MAX_ATTACHMENT_IMAGE_BYTES :: nat where "MAX_ATTACHMENT_IMAGE_BYTES = 10 * 1024 * 1024"
definition MAX_ATTACHMENT_TEXT_CHARS :: nat where "MAX_ATTACHMENT_TEXT_CHARS = 200000"

definition CHAT_ATTACHMENT_WIRE_BYTES :: nat where
  "CHAT_ATTACHMENT_WIRE_BYTES = max (4 * ((MAX_ATTACHMENT_IMAGE_BYTES + 2) div 3)) (12 * MAX_ATTACHMENT_TEXT_CHARS)"

definition chat_limit :: "nat \<Rightarrow> nat" where
  "chat_limit chat_attachment_max_files = 49 * MIB + chat_attachment_max_files * CHAT_ATTACHMENT_WIRE_BYTES"

definition body_limit :: "nat \<Rightarrow> http_scope \<Rightarrow> nat" where
  \<comment> \<open>\<open>_limit\<close>\<close>
  "body_limit max_files scope =
     (if hs_method scope = ''POST''
      then if hs_path scope = ''/api/auth/login'' then LOGIN_BODY_LIMIT
           else if hs_path scope = ''/api/plugins/installed/upload'' then UPLOAD_BODY_LIMIT
           else if hs_path scope \<in> {''/api/chat'', ''/api/chat/preview''} then chat_limit max_files
           else DEFAULT_BODY_LIMIT
      else DEFAULT_BODY_LIMIT)"

definition announces_more :: "nat \<Rightarrow> string \<Rightarrow> bool" where
  \<comment> \<open>the test of one \<open>Content-Length\<close> value\<close>
  "announces_more limit v =
     (let maximum = nat_str limit; digits = lstrip_by (\<lambda>c. c = CHR ''0'') (py_strip v)
      in digits \<noteq> [] \<and> list_all is_decimal_char digits
         \<and> (length maximum < length digits \<or> length digits = length maximum \<and> maximum < digits))"

definition limited_methods :: "string list" where
  "limited_methods = [''POST'', ''PUT'', ''PATCH'', ''DELETE'']"

datatype handling = PassThrough | Refused413 | Counted nat \<comment> \<open>the application receives through \<open>limited_receive\<close>\<close>

definition body_limit_call :: "nat \<Rightarrow> http_scope \<Rightarrow> handling" where
  \<comment> \<open>\<open>__call__\<close>\<close>
  "body_limit_call max_files scope =
     (if \<not> hs_http scope then PassThrough
      else let limit = body_limit max_files scope
           in if list_ex (announces_more limit) (hs_content_lengths scope) then Refused413
              else if hs_method scope \<notin> set limited_methods then PassThrough
              else Counted limit)"

definition limited_receive :: "nat \<Rightarrow> bool \<Rightarrow> http_message \<Rightarrow> nat \<Rightarrow> received \<times> nat" where
  \<comment> \<open>one message, and the bytes received so far\<close>
  "limited_receive limit multipart m so_far =
     (case m of
        OtherMessage t \<Rightarrow> (Message m, so_far)
      | HttpRequest body \<Rightarrow>
          (let so_far = so_far + (case body of None \<Rightarrow> 0 | Some n \<Rightarrow> n)
           in (if limit < so_far then if multipart then MultipartTooLarge else TooLarge413 else Message m, so_far)))"

fun receive_all :: "nat \<Rightarrow> bool \<Rightarrow> http_message list \<Rightarrow> nat \<Rightarrow> received list" where
  \<comment> \<open>what the application gets when it asks for message after message, also after an exception\<close>
  "receive_all limit multipart [] so_far = []"
| "receive_all limit multipart (m # ms) so_far =
     (let (r, so_far) = limited_receive limit multipart m so_far in r # receive_all limit multipart ms so_far)"

definition is_multipart :: "http_scope \<Rightarrow> bool" where
  "is_multipart scope =
     (py_lower (py_strip (takeWhile (\<lambda>c. c \<noteq> CHR '';'') (case hs_content_type scope of None \<Rightarrow> [] | Some t \<Rightarrow> t)))
       = ''multipart/form-data'')"

definition body_bytes :: "received \<Rightarrow> nat" where
  "body_bytes r = (case r of Message (HttpRequest (Some n)) \<Rightarrow> n | _ \<Rightarrow> 0)"

definition too_large_status :: "bool \<Rightarrow> nat \<Rightarrow> nat" where
  \<comment> \<open>\<open>body_limit_http_exception_handler\<close>: an exception caused by the multipart marker becomes a 413\<close>
  "too_large_status caused_by_marker status = (if caused_by_marker then 413 else status)"

subsection \<open>The comparison of digits\<close>

lemma decimal_value_Cons: "decimal_value (c # s) = (int (code c) - 48) * 10 ^ length s + decimal_value s"
proof (induction s rule: rev_induct)
  case (snoc d s)
  then show ?case using decimal_value_snoc [of "c # s" d] decimal_value_snoc [of s d] by (simp add: algebra_simps)
qed (simp add: decimal_value_def)

lemma decimal_digit: "is_decimal_char c \<Longrightarrow> 0 \<le> int (code c) - 48 \<and> int (code c) - 48 \<le> 9"
  by (auto simp: is_decimal_char_def Let_def)

lemma decimal_value_bounds: "list_all is_decimal_char s \<Longrightarrow> 0 \<le> decimal_value s \<and> decimal_value s < 10 ^ length s"
proof (induction s)
  case (Cons c s)
  have d: "0 \<le> int (code c) - 48" "int (code c) - 48 \<le> 9" using Cons.prems decimal_digit by auto
  have "(int (code c) - 48) * 10 ^ length s \<le> 9 * 10 ^ length s" by (rule mult_right_mono) (use d in auto)
  moreover have "0 \<le> (int (code c) - 48) * 10 ^ length s" using d by simp
  ultimately show ?case using Cons.IH Cons.prems unfolding decimal_value_Cons length_Cons power_Suc list.pred_inject by linarith
qed (simp add: decimal_value_def)

lemma char_less_code: "(c :: char) < d \<longleftrightarrow> code c < code d"
  by (simp add: code_def less_char_def)

lemma digits_less:
  "length s = length t \<Longrightarrow> list_all is_decimal_char s \<Longrightarrow> list_all is_decimal_char t \<Longrightarrow> s < t \<longleftrightarrow> decimal_value s < decimal_value t"
proof (induction s t rule: list_induct2)
  case (Cons c s d t)
  have b: "0 \<le> decimal_value s" "decimal_value s < 10 ^ length s" "0 \<le> decimal_value t" "decimal_value t < 10 ^ length s"
    using decimal_value_bounds [of s] decimal_value_bounds [of t] Cons by auto
  have step: "int i * 10 ^ length s + x < int j * 10 ^ length s + y"
    if "i < j" "0 \<le> x" "x < 10 ^ length s" "0 \<le> y" "y < 10 ^ length s" for i j :: nat and x y :: int
  proof -
    have "(int i + 1) * 10 ^ length s \<le> int j * 10 ^ length s" by (rule mult_right_mono) (use that(1) in auto)
    then show ?thesis using that by (simp add: algebra_simps)
  qed
  have v: "decimal_value (c # s) = int (code c) * 10 ^ length s + decimal_value s - 48 * 10 ^ length s"
    "decimal_value (d # t) = int (code d) * 10 ^ length s + decimal_value t - 48 * 10 ^ length s"
    using Cons.hyps by (simp_all add: decimal_value_Cons algebra_simps)
  show ?case
  proof (cases "code c" "code d" rule: linorder_cases)
    case less
    then show ?thesis using step [OF less b] v by (simp add: char_less_code)
  next
    case equal
    then have "c = d" by (simp add: code_def)
    then show ?thesis using Cons v by simp
  next
    case greater
    then show ?thesis using step [OF greater b(3,4,1,2)] v by (auto simp: char_less_code)
  qed
qed simp

lemma decimal_value_lower: "s \<noteq> [] \<Longrightarrow> list_all is_decimal_char s \<Longrightarrow> hd s \<noteq> CHR ''0'' \<Longrightarrow> 10 ^ (length s - 1) \<le> decimal_value s"
proof (cases s)
  case (Cons c t)
  assume a: "s \<noteq> []" "list_all is_decimal_char s" "hd s \<noteq> CHR ''0''"
  have "code c \<noteq> 48"
  proof
    assume "code c = 48"
    then have "of_char c = (of_char (CHR ''0'') :: nat)" by (simp add: code_def)
    then have "c = CHR ''0''" by (rule of_char_eq_iff [THEN iffD1])
    then show False using a(3) Cons by simp
  qed
  then have "1 \<le> int (code c) - 48" using decimal_digit [of c] a(2) Cons by auto
  then have "1 * 10 ^ length t \<le> (int (code c) - 48) * 10 ^ length t" by (intro mult_right_mono) auto
  moreover have "0 \<le> decimal_value t" using decimal_value_bounds [of t] a(2) Cons by simp
  ultimately have "10 ^ length t \<le> decimal_value (c # t)" unfolding decimal_value_Cons by linarith
  then show ?thesis using Cons by simp
qed simp

lemma digits_longer:
  assumes "list_all is_decimal_char s" "list_all is_decimal_char t" "t \<noteq> []" "hd t \<noteq> CHR ''0''" "length s < length t"
  shows "decimal_value s < decimal_value t"
proof -
  have "(10 :: int) ^ length s \<le> 10 ^ (length t - 1)" by (rule power_increasing) (use assms(5) in auto)
  then show ?thesis using decimal_value_bounds [OF assms(1)] decimal_value_lower [OF assms(3,2,4)] by linarith
qed

lemma nat_str_no_zero: "0 < n \<Longrightarrow> hd (nat_str n) \<noteq> CHR ''0''"
proof (induction n rule: nat_str.induct)
  case (1 n)
  show ?case
  proof (cases "n < 10")
    case True
    then have "code (digit_char n) = 48 + n" by simp
    moreover have "code (CHR ''0'') = 48" by (simp add: code_def)
    ultimately have "digit_char n \<noteq> CHR ''0''" using 1 by fastforce
    then show ?thesis using True by (subst nat_str.simps) auto
  next
    case False
    then show ?thesis using 1 by (subst nat_str.simps) (simp add: hd_append)
  qed
qed

lemma lstrip_zeros_value: "decimal_value (lstrip_by (\<lambda>c. c = CHR ''0'') s) = decimal_value s"
proof (induction s)
  case (Cons c s)
  have "decimal_value (CHR ''0'' # s) = decimal_value s" by (simp add: decimal_value_Cons code_def)
  then show ?case using Cons by (simp add: lstrip_by_def)
qed (simp add: lstrip_by_def)

text \<open>
  A \<open>Content-Length\<close> made of digits is refused exactly if the number is above the limit, whatever its
  length and however many zeros it starts with: comparing the digits is comparing the numbers.
\<close>
theorem announces_more_iff:
  assumes "py_strip v \<noteq> []" "list_all is_decimal_char (py_strip v)" "0 < limit"
  shows "announces_more limit v \<longleftrightarrow> int limit < decimal_value (py_strip v)"
proof -
  let ?d = "lstrip_by (\<lambda>c. c = CHR ''0'') (py_strip v)" and ?m = "nat_str limit"
  have d: "list_all is_decimal_char ?d" "decimal_value ?d = decimal_value (py_strip v)"
    using assms(2) lstrip_zeros_value by (auto simp: list_all_iff lstrip_by_def dest: set_dropWhileD)
  have m: "list_all is_decimal_char ?m" "hd ?m \<noteq> CHR ''0''" "decimal_value ?m = int limit"
    using nat_str_decimal nat_str_no_zero [OF assms(3)] by (auto simp: list_all_iff)
  have h: "?d \<noteq> [] \<Longrightarrow> hd ?d \<noteq> CHR ''0''" unfolding lstrip_by_def by (rule hd_dropWhile)
  have a: "announces_more limit v \<longleftrightarrow> ?d \<noteq> [] \<and> (length ?m < length ?d \<or> length ?d = length ?m \<and> ?m < ?d)"
    using d(1) by (simp add: announces_more_def Let_def)
  consider "?d = []" | "?d \<noteq> []" "length ?m < length ?d" | "?d \<noteq> []" "length ?d < length ?m" | "?d \<noteq> []" "length ?m = length ?d"
    by linarith
  then show ?thesis
  proof cases
    case 1
    then have "decimal_value (py_strip v) = 0" using d(2) by (simp add: decimal_value_def)
    then show ?thesis using a 1 by simp
  next
    case 2
    then show ?thesis using a digits_longer [OF m(1) d(1) 2(1) h [OF 2(1)] 2(2)] d m by simp
  next
    case 3
    have "decimal_value ?d < decimal_value ?m" by (rule digits_longer [OF d(1) m(1) nat_str_ne m(2) 3(2)])
    then show ?thesis using a 3 d m by simp
  next
    case 4
    then show ?thesis using a digits_less [OF 4(2) m(1) d(1)] d m by simp
  qed
qed

lemma announces_more_iff_witness:
  "announces_more 65536 '' 0000065537 '' \<longleftrightarrow> int 65536 < decimal_value (py_strip '' 0000065537 '')"
proof (rule announces_more_iff)
  show "py_strip '' 0000065537 '' \<noteq> []" "list_all is_decimal_char (py_strip '' 0000065537 '')" by code_simp+
qed simp

subsection \<open>What the application receives\<close>

lemma body_bytes_simps [simp]:
  "body_bytes (Message (HttpRequest (Some n))) = n" "body_bytes (Message (HttpRequest None)) = 0"
  "body_bytes (Message (OtherMessage t)) = 0" "body_bytes MultipartTooLarge = 0" "body_bytes TooLarge413 = 0"
  by (simp_all add: body_bytes_def)

lemma received_nothing_from: "limit < so_far \<Longrightarrow> sum_list (map body_bytes (receive_all limit mp ms so_far)) = 0"
proof (induction ms arbitrary: so_far)
  case (Cons m ms)
  show ?case
    using Cons.prems Cons.IH [of so_far] Cons.IH [of "so_far + body_bytes (Message m)"]
    by (cases m; cases mp) (auto simp add: limited_receive_def Let_def simp del: sum_list_eq_0_iff split: option.splits)
qed simp

lemma received_bytes_from: "so_far \<le> limit \<Longrightarrow> so_far + sum_list (map body_bytes (receive_all limit mp ms so_far)) \<le> limit"
proof (induction ms arbitrary: so_far)
  case (Cons m ms)
  show ?case
  proof (cases m)
    case (HttpRequest body)
    let ?n = "so_far + (case body of None \<Rightarrow> 0 | Some n \<Rightarrow> n)"
    show ?thesis
    proof (cases "limit < ?n")
      case True
      then show ?thesis using Cons.prems HttpRequest received_nothing_from [OF True] by (cases mp) (simp_all add: limited_receive_def Let_def del: sum_list_eq_0_iff)
    next
      case False
      then show ?thesis using Cons.IH [of ?n] HttpRequest by (cases body) (auto simp: limited_receive_def Let_def)
    qed
  qed (use Cons in \<open>simp add: limited_receive_def\<close>)
qed simp

text \<open>C39: 
  However the client cuts the body into messages and however often the application asks again after
  an exception, the application receives at most \<open>limit\<close> bytes.
\<close>
theorem received_within_limit: "sum_list (map body_bytes (receive_all limit multipart ms 0)) \<le> limit"
  using received_bytes_from [of 0] by simp

text \<open>A request is cut off only if its body is larger than the limit: up to it every message passes unchanged.\<close>
theorem small_body_passes:
  assumes "so_far + sum_list (map (body_bytes \<circ> Message) ms) \<le> limit"
  shows "receive_all limit multipart ms so_far = map Message ms"
  using assms
proof (induction ms arbitrary: so_far)
  case (Cons m ms)
  show ?case
    using Cons.prems Cons.IH [of "so_far + body_bytes (Message m)"]
    by (cases m) (auto simp: limited_receive_def Let_def split: option.splits)
qed simp

lemma small_body_passes_witness:
  "receive_all 10 True [HttpRequest (Some 6), OtherMessage ''x'', HttpRequest (Some 4), HttpRequest None] 0
     = map Message [HttpRequest (Some 6), OtherMessage ''x'', HttpRequest (Some 4), HttpRequest None]"
  by (rule small_body_passes) code_simp

lemma receive_samples:
  "receive_all 10 True [HttpRequest (Some 6), HttpRequest (Some 5), HttpRequest None] 0
     = [Message (HttpRequest (Some 6)), MultipartTooLarge, MultipartTooLarge]"
  by code_simp

end
