(* ===== verification/Limiters.thy ===== *)
theory Limiters
  imports Pytext Complex_Main
begin

section \<open>Rate and concurrency limits (rate\_limit.py, services/chat/aggregation\_limiter.py)\<close>

text \<open>
  The sliding window per key and the two-level counter of running aggregations. Both update their
  tables under a lock, so a call is one step. Readings of the monotonic clock are real numbers.
\<close>

subsection \<open>The sliding window\<close>

type_synonym hits = "(string, real list) dict"

definition hits_of :: "hits \<Rightarrow> string \<Rightarrow> real list" where
  \<comment> \<open>the \<open>defaultdict(list)\<close>\<close>
  "hits_of h key = (case map_of h key of None \<Rightarrow> [] | Some ts \<Rightarrow> ts)"

definition allow :: "hits \<Rightarrow> string \<Rightarrow> nat \<Rightarrow> real \<Rightarrow> real \<Rightarrow> hits \<times> bool" where
  "allow h key limit window_seconds now =
     (let hits = filter (\<lambda>t. now - t < window_seconds) (hits_of h key)
      in if limit \<le> length hits then (AList.update key hits h, False)
         else (AList.update key (hits @ [now]) h, True))"

lemma hits_of_update [simp]: "hits_of (AList.update k v h) k' = (if k = k' then v else hits_of h k')"
  by (simp add: hits_of_def update_conv')

text \<open>Calls with times that do not go backwards, and the calls that were let through.\<close>

fun allow_run :: "nat \<Rightarrow> real \<Rightarrow> hits \<Rightarrow> (string \<times> real) list \<Rightarrow> hits \<times> (string \<times> real) list" where
  "allow_run limit w h [] = (h, [])"
| "allow_run limit w h ((key, now) # calls) =
     (case allow h key limit w now of (h, ok) \<Rightarrow>
        (case allow_run limit w h calls of (h, later) \<Rightarrow> (h, if ok then (key, now) # later else later)))"

definition admitted :: "string \<Rightarrow> (string \<times> real) list \<Rightarrow> real list" where
  "admitted key later = map snd (filter (\<lambda>c. fst c = key) later)"

definition in_window :: "real \<Rightarrow> real \<Rightarrow> real list \<Rightarrow> nat" where
  "in_window w T ts = length (filter (\<lambda>t. T - w < t \<and> t \<le> T) ts)"

lemma admitted_append [simp]: "admitted k (a @ b) = admitted k a @ admitted k b"
  by (simp add: admitted_def)

lemma admitted_simps [simp]: "admitted k [] = []" "admitted k ((k', t) # l) = (if k' = k then t # admitted k l else admitted k l)"
  by (simp_all add: admitted_def)

text \<open>What the table holds after the calls whose admitted ones are \<open>past\<close>, the last at time \<open>now\<close>.\<close>

definition window_inv :: "nat \<Rightarrow> real \<Rightarrow> hits \<Rightarrow> (string \<times> real) list \<Rightarrow> real \<Rightarrow> bool" where
  "window_inv limit w h past now =
     (\<forall>key. (\<exists>m\<le>now. hits_of h key = filter (\<lambda>t. m - t < w) (admitted key past)) \<and>
            (\<forall>t\<in>set (admitted key past). t \<le> now) \<and>
            (\<forall>T. in_window w T (admitted key past) \<le> limit))"

lemma allow_hits:
  assumes "window_inv limit w h past now" "now \<le> now'"
  shows "filter (\<lambda>t. now' - t < w) (hits_of h key) = filter (\<lambda>t. now' - t < w) (admitted key past)"
proof -
  from assms(1) obtain m where m: "m \<le> now" "hits_of h key = filter (\<lambda>t. m - t < w) (admitted key past)"
    unfolding window_inv_def by blast
  have "(now' - t < w \<and> m - t < w) = (now' - t < w)" for t using m(1) assms(2) by argo
  then show ?thesis by (simp add: m(2) conj_commute)
qed

lemma in_window_snoc:
  assumes "length (filter (\<lambda>t. now - t < w) ts) < limit" "in_window w T ts \<le> limit"
  shows "in_window w T (ts @ [now]) \<le> limit"
proof (cases "now \<le> T")
  case True
  have "length (filter (\<lambda>t. T - w < t \<and> t \<le> T) ts) \<le> length (filter (\<lambda>t. now - t < w) ts)"
    using True by (induction ts) auto
  then show ?thesis using assms(1) by (simp add: in_window_def)
qed (use assms(2) in \<open>simp add: in_window_def\<close>)

lemma window_inv_allow:
  assumes inv: "window_inv limit w h past now" and mono: "now \<le> now'" and w: "0 < w"
    and step: "allow h key limit w now' = (h', ok)"
  shows "window_inv limit w h' (past @ (if ok then [(key, now')] else [])) now'"
proof -
  let ?hits = "filter (\<lambda>t. now' - t < w) (admitted key past)"
  note filtered = allow_hits [OF inv mono, of key]
  have other: "\<exists>m\<le>now'. hits_of h k = filter (\<lambda>t. m - t < w) (admitted k past)" for k
    using inv mono unfolding window_inv_def by (meson order_trans)
  have old: "\<forall>t\<in>set (admitted k past). t \<le> now'" "\<forall>T. in_window w T (admitted k past) \<le> limit" for k
    using inv mono unfolding window_inv_def by (auto intro: order_trans)
  show ?thesis
  proof (cases "limit \<le> length ?hits")
    case True
    then have "h' = AList.update key ?hits h" "\<not> ok" using step filtered by (auto simp: allow_def)
    with other old show ?thesis unfolding window_inv_def by auto
  next
    case False
    then have h': "h' = AList.update key (?hits @ [now']) h" "ok"
      using step filtered by (auto simp: allow_def)
    have bound: "in_window w T (admitted key past @ [now']) \<le> limit" for T
      using in_window_snoc False old by (meson not_le)
    have self: "hits_of h' key = filter (\<lambda>t. now' - t < w) (admitted key (past @ [(key, now')]))"
      using h' w by simp
    have oth: "\<exists>m\<le>now'. hits_of h' k = filter (\<lambda>t. m - t < w) (admitted k (past @ [(key, now')]))" if "k \<noteq> key" for k
      using other [of k] that h' by simp
    show ?thesis unfolding window_inv_def
    proof (intro allI conjI)
      fix k
      show "\<exists>m\<le>now'. hits_of h' k = filter (\<lambda>t. m - t < w) (admitted k (past @ (if ok then [(key, now')] else [])))"
        using self oth h'(2) by (cases "k = key") (simp only: if_True, blast)+
      show "\<forall>t\<in>set (admitted k (past @ (if ok then [(key, now')] else []))). t \<le> now'"
        using old(1) h'(2) by auto
      show "in_window w T (admitted k (past @ (if ok then [(key, now')] else []))) \<le> limit" for T
        using bound [of T] old(2) h'(2) by auto
    qed
  qed
qed

lemma allow_run_inv:
  assumes "window_inv limit w h past now" "sorted (now # map snd calls)" "0 < w"
    and "allow_run limit w h calls = (h', new)"
  shows "\<exists>now'. window_inv limit w h' (past @ new) now' \<and> now' \<in> set (now # map snd calls)"
  using assms
proof (induction calls arbitrary: h past now new)
  case Nil
  then show ?case by auto
next
  case (Cons c calls)
  obtain key t where c: "c = (key, t)" by (cases c)
  obtain h1 ok where 1: "allow h key limit w t = (h1, ok)" by (cases "allow h key limit w t")
  obtain new' where 2: "allow_run limit w h1 calls = (h', new')" and new: "new = (if ok then (key, t) # new' else new')"
    using Cons.prems(4) by (auto simp: c 1 split: prod.splits)
  have "window_inv limit w h1 (past @ (if ok then [(key, t)] else [])) t"
    using Cons.prems c by (intro window_inv_allow [OF _ _ _ 1]) auto
  from Cons.IH [OF this _ Cons.prems(3) 2] Cons.prems(2) c obtain now' where
    "window_inv limit w h' ((past @ (if ok then [(key, t)] else [])) @ new') now'" "now' \<in> set (t # map snd calls)"
    by auto
  with new c show ?case by (auto split: if_splits)
qed

text \<open>the rate limiter keeps its promise for every key and at every moment, not only at the moments
  it is asked: among the calls it lets through, at most \<open>limit\<close> lie in any interval of the window's
  length; and it refuses a call only if \<open>limit\<close> calls of that very key were let through in the window
  before it.\<close>

theorem rate_limit_any_window:
  assumes "0 < w" "sorted (map snd calls)" "allow_run limit w [] calls = (h, let_through)"
    and "\<forall>c\<in>set calls. snd c \<le> now"
  shows "in_window w T (admitted key let_through) \<le> limit \<and>
    (\<not> snd (allow h key limit w now) \<longrightarrow>
       limit \<le> length (filter (\<lambda>t. now - t < w) (admitted key let_through)))"
proof -
  define start where "start = (case calls of [] \<Rightarrow> now | c # _ \<Rightarrow> snd c)"
  have "sorted (start # map snd calls)" "start \<le> now"
    using assms(2,4) by (force simp: start_def split: list.splits)+
  moreover have "window_inv limit w [] [] start" by (auto simp: window_inv_def hits_of_def in_window_def)
  ultimately obtain now' where inv: "window_inv limit w h let_through now'" "now' \<in> set (start # map snd calls)"
    using allow_run_inv [of limit w "[]" "[]" start calls h let_through] assms by auto
  then have "now' \<le> now" using \<open>start \<le> now\<close> assms(4) by auto
  with allow_hits [OF inv(1), of now key] inv(1) show ?thesis
    by (auto simp: window_inv_def allow_def Let_def split: if_splits)
qed

theorem rate_limit_any_window_witness:
  "in_window 60 45 (admitted ''a'' (snd (allow_run 2 60 [] [(''a'', 0), (''a'', 10), (''b'', 20), (''a'', 30)]))) \<le> 2"
  by (rule rate_limit_any_window [where now = 30 and calls = "[(''a'', 0), (''a'', 10), (''b'', 20), (''a'', 30)]" and h = "fst (allow_run 2 60 [] [(''a'', 0), (''a'', 10), (''b'', 20), (''a'', 30)])", THEN conjunct1]) simp_all

subsection \<open>Slots for heavy aggregations\<close>

record limiter =
  lim_total :: nat
  lim_by_owner :: "(string, nat) dict"

definition owned :: "limiter \<Rightarrow> string \<Rightarrow> nat" where
  "owned l owner = (case map_of (lim_by_owner l) owner of None \<Rightarrow> 0 | Some n \<Rightarrow> n)"

definition try_acquire :: "nat \<Rightarrow> nat \<Rightarrow> string \<Rightarrow> limiter \<Rightarrow> bool \<times> limiter" where
  "try_acquire global_limit per_owner_limit owner l =
     (let mine = owned l owner
      in if global_limit \<le> lim_total l \<or> per_owner_limit \<le> mine then (False, l)
         else (True, \<lparr>lim_total = lim_total l + 1,
                      lim_by_owner = AList.update owner (mine + 1) (lim_by_owner l)\<rparr>))"

definition release :: "string \<Rightarrow> limiter \<Rightarrow> limiter" where
  \<comment> \<open>subtraction of natural numbers is \<open>max(0, ...)\<close>\<close>
  "release owner l =
     (let mine = owned l owner
      in \<lparr>lim_total = lim_total l - 1,
          lim_by_owner = (if mine \<le> 1 then AList.delete owner (lim_by_owner l)
                          else AList.update owner (mine - 1) (lim_by_owner l))\<rparr>)"

definition reset_limiter :: "limiter \<Rightarrow> limiter" where
  "reset_limiter l = \<lparr>lim_total = 0, lim_by_owner = []\<rparr>"

text \<open>
  The contract of a counter of slots: some of the operations count against \<open>cap\<close>, the others leave
  the count alone. It holds for all aggregations together and for those of one owner.
\<close>

locale slots =
  fixes acquire :: "'k \<Rightarrow> 's \<Rightarrow> bool \<times> 's" and give_back :: "'k \<Rightarrow> 's \<Rightarrow> 's"
    and held :: "'s \<Rightarrow> nat" and counts :: "'k \<Rightarrow> bool" and cap :: nat
  assumes refused: "\<not> fst (acquire k s) \<Longrightarrow> snd (acquire k s) = s"
    and granted: "fst (acquire k s) \<Longrightarrow> counts k \<Longrightarrow> held s < cap \<and> held (snd (acquire k s)) = Suc (held s)"
    and granted_other: "\<not> counts k \<Longrightarrow> held (snd (acquire k s)) = held s"
    and given_back: "held (give_back k s) = (if counts k then held s - 1 else held s)"
begin

lemma acquire_bounded: "held s \<le> cap \<Longrightarrow> held (snd (acquire k s)) \<le> cap"
  by (cases "fst (acquire k s)"; cases "counts k")
     (use refused granted granted_other in \<open>fastforce simp: Suc_le_eq\<close>)+

lemma give_back_bounded: "held s \<le> cap \<Longrightarrow> held (give_back k s) \<le> cap"
  by (auto simp: given_back)

lemma round_trip:
  "fst (acquire k s) \<Longrightarrow> held (give_back k (snd (acquire k s))) = held s"
  by (cases "counts k") (simp_all add: given_back granted granted_other)

end

lemma owned_update: "owned (l\<lparr>lim_by_owner := AList.update o1 n d\<rparr>) o2 = (if o1 = o2 then n else owned (l\<lparr>lim_by_owner := d\<rparr>) o2)"
  by (simp add: owned_def update_conv')

lemma owned_acquire:
  "owned (snd (try_acquire g p o1 l)) o2 =
     owned l o2 + (if fst (try_acquire g p o1 l) \<and> o1 = o2 then 1 else 0)"
  by (auto simp: try_acquire_def owned_def Let_def update_conv')

lemma owned_release: "owned (release o1 l) o2 = owned l o2 - (if o1 = o2 then 1 else 0)"
  by (auto simp: release_def owned_def Let_def update_conv' delete_conv' split: option.splits)

interpretation total: slots "try_acquire g p" release lim_total "\<lambda>_. True" g
  by unfold_locales (auto simp: try_acquire_def release_def Let_def)

interpretation per_owner: slots "try_acquire g p" release "\<lambda>l. owned l ow" "(=) ow" p
  by unfold_locales (auto simp: owned_acquire owned_release, auto simp: try_acquire_def Let_def split: if_splits)

text \<open>
  Requests enter with \<open>aggregation_slot\<close>, which a context manager makes them leave exactly once. The
  abstract state is the bag of the owners inside.
\<close>

datatype slot_event = Enter string | Leave string

fun slot_step :: "nat \<Rightarrow> nat \<Rightarrow> slot_event \<Rightarrow> limiter \<times> string multiset \<Rightarrow> (limiter \<times> string multiset) option" where
  \<comment> \<open>the second component are the owners inside; \<open>None\<close> is a \<open>Leave\<close> of somebody who is not\<close>
  "slot_step g p (Enter ow) (l, inside) =
     (case try_acquire g p ow l of (ok, l) \<Rightarrow> Some (l, if ok then add_mset ow inside else inside))"
| "slot_step g p (Leave ow) (l, inside) =
     (if ow \<in># inside then Some (release ow l, inside - {#ow#}) else None)"

fun slot_run :: "nat \<Rightarrow> nat \<Rightarrow> slot_event list \<Rightarrow> limiter \<times> string multiset \<Rightarrow> (limiter \<times> string multiset) option" where
  "slot_run g p [] st = Some st"
| "slot_run g p (e # es) st = (case slot_step g p e st of None \<Rightarrow> None | Some st \<Rightarrow> slot_run g p es st)"

definition represents :: "nat \<Rightarrow> nat \<Rightarrow> limiter \<Rightarrow> string multiset \<Rightarrow> bool" where
  "represents g p l inside = (lim_total l = size inside \<and> (\<forall>ow. owned l ow = Multiset.count inside ow) \<and>
     lim_total l \<le> g \<and> (\<forall>ow. owned l ow \<le> p))"

lemma slot_step_represents:
  assumes "represents g p l inside" "slot_step g p e (l, inside) = Some (l', inside')"
  shows "represents g p l' inside'"
proof (cases e)
  case (Enter ow)
  obtain ok l1 where 1: "try_acquire g p ow l = (ok, l1)" by (cases "try_acquire g p ow l")
  with assms Enter have l': "l' = l1" "inside' = (if ok then add_mset ow inside else inside)" by auto
  have b: "lim_total l1 \<le> g" "owned l1 x \<le> p" for x
    using total.acquire_bounded [of l g p ow] per_owner.acquire_bounded [of l x p g ow] assms(1) 1
    unfolding represents_def by (metis snd_conv)+
  have t: "lim_total l1 = lim_total l + (if ok then 1 else 0)"
    using total.granted [of g p ow l] total.refused [of g p ow l] 1 by (cases ok) simp_all
  have o: "owned l1 x = owned l x + (if ok \<and> ow = x then 1 else 0)" for x
    using owned_acquire [of g p ow l x] 1 by simp
  show ?thesis using assms(1) b t o by (auto simp: represents_def l')
next
  case (Leave ow)
  with assms(2) have m: "ow \<in># inside" and l': "l' = release ow l" "inside' = inside - {#ow#}"
    by (auto split: if_splits)
  have b: "lim_total l' \<le> g" "owned l' x \<le> p" for x
    using total.give_back_bounded [of l g] per_owner.give_back_bounded [of l x p] assms(1)
    unfolding represents_def l' by metis+
  have "lim_total l' = size inside'" using assms(1) m
    by (simp add: l' release_def represents_def Let_def size_Diff_singleton)
  then show ?thesis using assms(1) b by (auto simp: represents_def l' owned_release)
qed

text \<open>C27: the limiter implements a bag of running aggregations: in every run of requests that enter and
  leave, its counters are the size of the bag and the number of each owner's entries, neither ever
  exceeds its limit, and a request is turned away exactly when one of the two limits is reached, so
  no slot is ever leaked.\<close>

theorem limiter_refines_bag:
  assumes "slot_run g p es (\<lparr>lim_total = 0, lim_by_owner = []\<rparr>, {#}) = Some (l, inside)"
  shows "lim_total l = size inside \<and> size inside \<le> g \<and>
    (\<forall>ow. owned l ow = Multiset.count inside ow \<and> Multiset.count inside ow \<le> p) \<and>
    (\<forall>ow. fst (try_acquire g p ow l) \<longleftrightarrow> size inside < g \<and> Multiset.count inside ow < p)"
proof -
  have run: "represents g p l inside" if "represents g p l0 i0" "slot_run g p es (l0, i0) = Some (l, inside)" for es l0 i0
    using that
  proof (induction es arbitrary: l0 i0)
    case (Cons e es)
    obtain l1 i1 where "slot_step g p e (l0, i0) = Some (l1, i1)" "slot_run g p es (l1, i1) = Some (l, inside)"
      using Cons.prems(2) by (auto split: option.splits)
    with Cons.IH Cons.prems(1) slot_step_represents show ?case by blast
  qed simp
  have "represents g p l inside"
    by (rule run [OF _ assms]) (simp add: represents_def owned_def)
  then show ?thesis by (auto simp: represents_def try_acquire_def Let_def not_le)
qed

theorem limiter_refines_bag_witness:
  "\<exists>l inside. slot_run 2 1 [Enter ''a'', Enter ''a'', Enter ''b'', Leave ''a''] (\<lparr>lim_total = 0, lim_by_owner = []\<rparr>, {#}) = Some (l, inside)
     \<and> lim_total l = 1 \<and> fst (try_acquire 2 1 ''a'' l)"
proof -
  have r: "slot_run 2 1 [Enter ''a'', Enter ''a'', Enter ''b'', Leave ''a''] (\<lparr>lim_total = 0, lim_by_owner = []\<rparr>, {#})
      = Some (\<lparr>lim_total = 1, lim_by_owner = [(''b'', 1)]\<rparr>, {#''b''#})"
    by (simp add: try_acquire_def release_def owned_def Let_def)
  from limiter_refines_bag [OF r] r show ?thesis by auto
qed

end
