(* ===== verification/Notable.thy ===== *)
theory Notable
  imports Pytext
begin

section \<open>Scores of events (rules/notable.py)\<close>

text \<open>
  The rule-based score of an event, 0 to 100, from its type, severity and the presence of a keyword,
  and its adjustment by the delta an administrator sets for a type.
\<close>

definition HIGH_ATTENTION_TYPES :: "string list" where
  "HIGH_ATTENTION_TYPES = [''VmFailedToPowerOnEvent'', ''VmFailedToStandbyGuestEvent'', ''VmFailedToSuspendEvent'',
     ''HostConnectionLostEvent'', ''HostNotRespondingEvent'', ''DatastoreRemovedOnHostEvent'']"

definition ALERT_KEYWORDS :: "string list" where
  "ALERT_KEYWORDS = [''fail'', ''error'', ''lost'', ''timeout'', ''corrupt'']"

definition SEVERITY_WEIGHT :: "(string, int) dict" where
  "SEVERITY_WEIGHT = [(''error'', 40), (''warning'', 20), (''info'', 0), (''user'', 0)]"

record notable_result =
  score :: int
  tags :: "string list"

definition matches_pattern :: "string \<Rightarrow> string \<Rightarrow> bool" where
  "matches_pattern event_type pattern =
     (if endswith pattern ''*'' then startswith event_type (butlast pattern) else event_type = pattern)"

definition has_keyword :: "string \<Rightarrow> bool" where
  "has_keyword message = list_ex (\<lambda>x. contains (py_lower message) x) ALERT_KEYWORDS"

fun dedupe :: "string list \<Rightarrow> string list \<Rightarrow> string list" where
  "dedupe seen [] = []"
| "dedupe seen (t # ts) = (if t \<in> set seen then dedupe seen ts else t # dedupe (t # seen) ts)"

definition score_event :: "string \<Rightarrow> string option \<Rightarrow> string \<Rightarrow> notable_result" where
  "score_event event_type severity message =
     (let sev = py_lower (case severity of None \<Rightarrow> '''' | Some s \<Rightarrow> s);
          weight = map_of SEVERITY_WEIGHT sev;
          score = (case weight of None \<Rightarrow> 0 | Some w \<Rightarrow> w);
          tags = (case weight of None \<Rightarrow> [] | Some w \<Rightarrow> if w \<noteq> 0 then [''severity:'' @ sev] else []);
          high = list_ex (matches_pattern event_type) HIGH_ATTENTION_TYPES;
          score = (if high then score + 35 else score);
          tags = (if high then tags @ [''high_risk_type''] else tags);
          keyword = has_keyword message;
          score = (if keyword then score + 10 else score);
          tags = (if keyword then tags @ [''keyword_alert''] else tags)
      in \<lparr>score = min score 100, tags = dedupe [] tags\<rparr>)"

definition clamp_notable_total :: "int \<Rightarrow> int \<Rightarrow> int" where
  "clamp_notable_total base_score score_delta = max 0 (min 100 (base_score + score_delta))"

definition final_notable_score :: "string \<Rightarrow> string option \<Rightarrow> string \<Rightarrow> int \<Rightarrow> int" where
  "final_notable_score event_type severity message score_delta =
     clamp_notable_total (score (score_event event_type severity message)) score_delta"

lemma score_event_bounds: "0 \<le> score (score_event ty sev msg) \<and> score (score_event ty sev msg) \<le> 100"
  by (auto simp: score_event_def Let_def SEVERITY_WEIGHT_def split: if_splits)

lemma score_keyword_only:
  "has_keyword m = has_keyword m' \<Longrightarrow> score_event ty sev m = score_event ty sev m'"
  by (simp add: score_event_def Let_def)

lemma has_keyword_representative: "has_keyword (if has_keyword m then hd ALERT_KEYWORDS else '''') = has_keyword m"
proof -
  have "has_keyword (hd ALERT_KEYWORDS)" "\<not> has_keyword ''''" by code_simp+
  then show ?thesis by simp
qed

lemma final_notable_score_representative:
  "final_notable_score ty sev (if has_keyword m then hd ALERT_KEYWORDS else '''') d = final_notable_score ty sev m d"
  unfolding final_notable_score_def using score_keyword_only [OF has_keyword_representative] by simp

lemma final_notable_score_bounds: "0 \<le> final_notable_score ty sev m d \<and> final_notable_score ty sev m d \<le> 100"
  by (simp add: final_notable_score_def clamp_notable_total_def)

end
