(* ===== verification/EventStore.thy ===== *)
theory EventStore
  imports Notable PluginApi Pyuuid
begin

section \<open>Stored events and their scores (db/models.py, services/event\_scores.py, api/routes/event\_score\_rules.py)\<close>

text \<open>
  The tables that collectors fill, the rules that adjust scores, the recalculation of stored scores
  and the routes that change the rules. Datetimes are stored as instants. A row without its
  auto-increment id is compared by its unique key.
\<close>

record event_row =
  er_vcenter :: uuid
  er_collector :: string
  er_occurred_at :: instant
  er_type :: string
  er_message :: string
  er_severity :: "string option"
  er_user_name :: "string option"
  er_entity_name :: "string option"
  er_entity_type :: "string option"
  er_vmware_key :: int
  er_chain_id :: "int option"
  er_score :: int
  er_tags :: "string list"
  er_comment :: "string option"

record metric_row =
  mr_vcenter :: uuid
  mr_collector :: string
  mr_sampled_at :: instant
  mr_entity_type :: string
  mr_entity_moid :: string
  mr_entity_name :: string
  mr_metric_key :: string
  mr_value :: pyfloat

record log_row =
  lr_vcenter :: uuid
  lr_collector :: string
  lr_source_id :: string
  lr_host :: string
  lr_log_kind :: string
  lr_file_generation :: string
  lr_byte_offset :: int
  lr_occurred_at :: "instant option"
  lr_collected_at :: instant
  lr_effective_at :: instant
  lr_severity :: "string option"
  lr_message :: string

record score_rule =
  rule_id :: nat
  rule_type :: string
  rule_delta :: int

record ingestion_state =
  is_vcenter :: uuid
  is_kind :: string
  is_cursor :: "string option"

datatype run_status = Idle | Running | Ok | Failed

record run_state =
  rs_vcenter :: uuid
  rs_collector :: string
  rs_version :: string
  rs_status :: run_status
  rs_last_started_at :: "instant option"
  rs_last_success_at :: "instant option"
  rs_last_failure_at :: "instant option"
  rs_events_inserted :: nat
  rs_metrics_inserted :: nat
  rs_logs_inserted :: nat
  rs_error_message :: "string option"

record store =
  events :: "event_row list"
  metrics :: "metric_row list"
  logs :: "log_row list"
  rules :: "score_rule list"
  ingestion_states :: "ingestion_state list"
  run_states :: "run_state list"

subsection \<open>Insert on conflict do nothing\<close>

definition insert_on_conflict_do_nothing :: "('r \<Rightarrow> 'k) \<Rightarrow> 'r \<Rightarrow> 'r list \<Rightarrow> 'r list \<times> nat" where
  \<comment> \<open>the table and the row count; \<open>key\<close> are the index elements\<close>
  "insert_on_conflict_do_nothing key r t = (if key r \<in> key ` set t then (t, 0) else (t @ [r], 1))"

definition event_key :: "event_row \<Rightarrow> uuid \<times> string \<times> int" where
  "event_key r = (er_vcenter r, er_collector r, er_vmware_key r)"

definition metric_key :: "metric_row \<Rightarrow> uuid \<times> instant \<times> string \<times> string" where
  "metric_key r = (mr_vcenter r, mr_sampled_at r, mr_entity_moid r, mr_metric_key r)"

definition log_key :: "log_row \<Rightarrow> uuid \<times> string \<times> string \<times> string \<times> string \<times> int" where
  "log_key r = (lr_vcenter r, lr_collector r, lr_source_id r, lr_log_kind r, lr_file_generation r, lr_byte_offset r)"

fun insert_all :: "('r \<Rightarrow> 'r list \<Rightarrow> 'r list \<times> nat) \<Rightarrow> 'r list \<Rightarrow> 'r list \<Rightarrow> 'r list \<times> nat" where
  \<comment> \<open>the loop over a batch, adding up the row counts\<close>
  "insert_all ins [] t = (t, 0)"
| "insert_all ins (r # rs) t =
     (case ins r t of (t, n) \<Rightarrow> case insert_all ins rs t of (t, m) \<Rightarrow> (t, n + m))"

text \<open>What the collectors rely on: an insert adds the row unless its key is there, and never changes or
  removes a row.\<close>

locale keyed_table =
  fixes ins :: "'r \<Rightarrow> 'r list \<Rightarrow> 'r list \<times> nat" and key :: "'r \<Rightarrow> 'k"
  assumes known: "key r \<in> key ` set t \<Longrightarrow> ins r t = (t, 0)"
    and fresh: "key r \<notin> key ` set t \<Longrightarrow> ins r t = (t @ [r], 1)"
begin

lemma insert_all_known: "key r \<in> key ` set t \<Longrightarrow> insert_all ins (r # rs) t = insert_all ins rs t"
  by (simp add: known split: prod.splits)

lemma insert_all_fresh:
  "key r \<notin> key ` set t \<Longrightarrow>
   insert_all ins (r # rs) t = (fst (insert_all ins rs (t @ [r])), Suc (snd (insert_all ins rs (t @ [r]))))"
  by (simp add: fresh split: prod.splits)

declare insert_all.simps(2) [simp del]

lemma insert_all_keys: "key ` set (fst (insert_all ins rs t)) = key ` set t \<union> key ` set rs"
proof (induction rs arbitrary: t)
  case (Cons r rs)
  show ?case
  proof (cases "key r \<in> key ` set t")
    case True
    then show ?thesis unfolding insert_all_known [OF True] Cons.IH by auto
  next
    case False
    then show ?thesis unfolding insert_all_fresh [OF False] fst_conv Cons.IH by auto
  qed
qed simp

lemma insert_all_distinct: "distinct (map key t) \<Longrightarrow> distinct (map key (fst (insert_all ins rs t)))"
proof (induction rs arbitrary: t)
  case (Cons r rs)
  show ?case
  proof (cases "key r \<in> key ` set t")
    case True
    with Cons show ?thesis unfolding insert_all_known [OF True] by simp
  next
    case False
    with Cons.prems have "distinct (map key (t @ [r]))" by simp
    from Cons.IH [OF this] show ?thesis unfolding insert_all_fresh [OF False] by simp
  qed
qed simp

lemma insert_all_extends:
  "\<exists>new. insert_all ins rs t = (t @ new, length new) \<and> set new \<subseteq> set rs"
proof (induction rs arbitrary: t)
  case (Cons r rs)
  show ?case
  proof (cases "key r \<in> key ` set t")
    case True
    then show ?thesis using Cons.IH [of t] unfolding insert_all_known [OF True] by auto
  next
    case False
    then show ?thesis using Cons.IH [of "t @ [r]"] unfolding insert_all_fresh [OF False] by force
  qed
qed simp

lemma insert_all_again: "key ` set rs \<subseteq> key ` set t \<Longrightarrow> insert_all ins rs t = (t, 0)"
proof (induction rs)
  case (Cons r rs)
  then have "key r \<in> key ` set t" "key ` set rs \<subseteq> key ` set t" by auto
  with Cons.IH show ?case by (simp only: insert_all_known)
qed simp

lemma insert_all_complete:
  "distinct (map key rs) \<Longrightarrow> key ` set rs \<inter> key ` set t = {} \<Longrightarrow> insert_all ins rs t = (t @ rs, length rs)"
proof (induction rs arbitrary: t)
  case (Cons r rs)
  then have "key r \<notin> key ` set t" "key ` set rs \<inter> key ` set (t @ [r]) = {}" by auto
  with Cons show ?case unfolding insert_all_fresh [OF \<open>key r \<notin> key ` set t\<close>] by simp
qed simp

end

interpretation event_table: keyed_table "insert_on_conflict_do_nothing event_key" event_key
  by unfold_locales (auto simp: insert_on_conflict_do_nothing_def)

interpretation metric_table: keyed_table "insert_on_conflict_do_nothing metric_key" metric_key
  by unfold_locales (auto simp: insert_on_conflict_do_nothing_def)

interpretation log_table: keyed_table "insert_on_conflict_do_nothing log_key" log_key
  by unfold_locales (auto simp: insert_on_conflict_do_nothing_def)

subsection \<open>Recalculation (services/event\_scores.py)\<close>

definition load_event_score_delta_map :: "store \<Rightarrow> string \<Rightarrow> int option" where
  \<comment> \<open>the dict of all rules\<close>
  "load_event_score_delta_map st = map_of (rev (map (\<lambda>r. (rule_type r, rule_delta r)) (rules st)))"

definition delta_of :: "store \<Rightarrow> string \<Rightarrow> int" where
  "delta_of st t = (case load_event_score_delta_map st t of None \<Rightarrow> 0 | Some d \<Rightarrow> d)"

definition recalculate_notable_scores_for_event_type :: "store \<Rightarrow> string \<Rightarrow> int \<Rightarrow> store \<times> nat" where
  "recalculate_notable_scores_for_event_type st ty delta =
     (st\<lparr>events := map (\<lambda>r. if er_type r = ty
         then r\<lparr>er_score := final_notable_score (er_type r) (er_severity r) (er_message r) delta\<rparr> else r) (events st)\<rparr>,
      length (filter (\<lambda>r. er_type r = ty) (events st)))"

definition recalculate_all_notable_scores :: "store \<Rightarrow> store \<times> nat" where
  "recalculate_all_notable_scores st =
     (st\<lparr>events := map (\<lambda>r. r\<lparr>er_score := final_notable_score (er_type r) (er_severity r) (er_message r)
         (delta_of st (er_type r))\<rparr>) (events st)\<rparr>, length (events st))"

subsection \<open>The routes that change the rules (api/routes/event\_score\_rules.py)\<close>

datatype rule_error = RuleError nat

definition create_event_score_rule :: "store \<Rightarrow> string \<Rightarrow> int \<Rightarrow> nat \<Rightarrow> rule_error + store" where
  \<comment> \<open>\<open>rid\<close> is the auto-increment id\<close>
  "create_event_score_rule st ty delta rid =
     (if py_strip ty = '''' then Inl (RuleError 400)
      else if ty \<in> rule_type ` set (rules st) then Inl (RuleError 409)
      else Inr (fst (recalculate_notable_scores_for_event_type
             (st\<lparr>rules := rules st @ [\<lparr>rule_id = rid, rule_type = ty, rule_delta = delta\<rparr>]\<rparr>) ty delta)))"

definition patch_event_score_rule :: "store \<Rightarrow> nat \<Rightarrow> int \<Rightarrow> rule_error + store" where
  "patch_event_score_rule st rid delta =
     (case find (\<lambda>r. rule_id r = rid) (rules st) of None \<Rightarrow> Inl (RuleError 404)
      | Some row \<Rightarrow>
          Inr (fst (recalculate_notable_scores_for_event_type
            (st\<lparr>rules := map (\<lambda>r. if rule_id r = rid then r\<lparr>rule_delta := delta\<rparr> else r) (rules st)\<rparr>)
            (rule_type row) delta)))"

definition delete_event_score_rule :: "store \<Rightarrow> nat \<Rightarrow> rule_error + store" where
  "delete_event_score_rule st rid =
     (case find (\<lambda>r. rule_id r = rid) (rules st) of None \<Rightarrow> Inl (RuleError 404)
      | Some row \<Rightarrow>
          Inr (fst (recalculate_notable_scores_for_event_type
            (st\<lparr>rules := filter (\<lambda>r. rule_id r \<noteq> rid) (rules st)\<rparr>) (rule_type row) 0)))"

definition import_rule :: "bool \<Rightarrow> string \<times> int \<times> nat \<Rightarrow> score_rule list \<Rightarrow> score_rule list" where
  "import_rule overwrite_existing item rs =
     (case item of (ty, delta, rid) \<Rightarrow>
        if ty \<notin> rule_type ` set rs then rs @ [\<lparr>rule_id = rid, rule_type = ty, rule_delta = delta\<rparr>]
        else if overwrite_existing then map (\<lambda>r. if rule_type r = ty then r\<lparr>rule_delta := delta\<rparr> else r) rs
        else rs)"

definition import_event_score_rules ::
  "store \<Rightarrow> (string \<times> int \<times> nat) list \<Rightarrow> bool \<Rightarrow> bool \<Rightarrow> rule_error + store \<times> nat \<times> nat" where
  "import_event_score_rules st items overwrite_existing delete_not_in_import =
     (if \<not> distinct (map fst items) then Inl (RuleError 400)
      else let rs = fold (import_rule overwrite_existing) items (rules st)
        in if delete_not_in_import \<and> items = [] then Inl (RuleError 422)
           else let rs = (if delete_not_in_import then filter (\<lambda>r. rule_type r \<in> fst ` set items) rs else rs);
                    (st, n) = recalculate_all_notable_scores (st\<lparr>rules := rs\<rparr>)
             in Inr (st, length (rules st), n))"

subsection \<open>Stored scores are the current scores\<close>

definition scores_current :: "store \<Rightarrow> bool" where
  "scores_current st = (distinct (map rule_id (rules st)) \<and> distinct (map rule_type (rules st)) \<and>
     (\<forall>r\<in>set (events st). er_score r =
        final_notable_score (er_type r) (er_severity r) (er_message r) (delta_of st (er_type r))))"

lemma delta_of_iff:
  assumes "distinct (map rule_type (rules st))"
  shows "delta_of st t = (case find (\<lambda>r. rule_type r = t) (rules st) of None \<Rightarrow> 0 | Some r \<Rightarrow> rule_delta r)"
proof -
  have "map_of (rev (map (\<lambda>r. (rule_type r, rule_delta r)) rs)) t =
      map_option rule_delta (find (\<lambda>r. rule_type r = t) rs)" if "distinct (map rule_type rs)" for rs
    using that by (induction rs) (auto simp: map_add_def find_None_iff split: option.splits dest!: find_Some_iff_in)
  from this [OF assms] show ?thesis
    by (simp add: delta_of_def load_event_score_delta_map_def split: option.splits)
qed

lemma delta_of_events [simp]: "delta_of (st\<lparr>events := e\<rparr>) t = delta_of st t"
  by (simp add: delta_of_def load_event_score_delta_map_def)

lemma recalculate_type_current:
  assumes "scores_current st" "distinct (map rule_id rs)" "distinct (map rule_type rs)"
    and "\<And>t. delta_of (st\<lparr>rules := rs\<rparr>) t = (if t = ty then d else delta_of st t)"
  shows "scores_current (fst (recalculate_notable_scores_for_event_type (st\<lparr>rules := rs\<rparr>) ty d))"
  using assms by (auto simp: scores_current_def recalculate_notable_scores_for_event_type_def)

lemma recalculate_all_current:
  "distinct (map rule_id (rules st)) \<Longrightarrow> distinct (map rule_type (rules st)) \<Longrightarrow>
   scores_current (fst (recalculate_all_notable_scores st))"
  by (auto simp: scores_current_def recalculate_all_notable_scores_def)

lemma delta_of_rules: "distinct (map rule_type rs) \<Longrightarrow>
  delta_of (st\<lparr>rules := rs\<rparr>) t = (case find (\<lambda>r. rule_type r = t) rs of None \<Rightarrow> 0 | Some r \<Rightarrow> rule_delta r)"
  using delta_of_iff [of "st\<lparr>rules := rs\<rparr>"] by simp

lemma create_rule_current:
  assumes "scores_current st" "create_event_score_rule st ty delta rid = Inr st'" "rid \<notin> rule_id ` set (rules st)"
  shows "scores_current st'"
proof -
  let ?rs = "rules st @ [\<lparr>rule_id = rid, rule_type = ty, rule_delta = delta\<rparr>]"
  have new: "ty \<notin> rule_type ` set (rules st)"
    and st': "st' = fst (recalculate_notable_scores_for_event_type (st\<lparr>rules := ?rs\<rparr>) ty delta)"
    using assms(2) by (auto simp: create_event_score_rule_def split: if_splits)
  have d: "distinct (map rule_id ?rs)" "distinct (map rule_type ?rs)"
    using assms(1,3) new by (auto simp: scores_current_def)
  show ?thesis unfolding st'
  proof (rule recalculate_type_current [OF assms(1) d])
    fix t
    have none: "find (\<lambda>r. rule_type r = ty) (rules st) = None" using new by (auto simp: find_None_iff)
    show "delta_of (st\<lparr>rules := ?rs\<rparr>) t = (if t = ty then delta else delta_of st t)"
      using none d(2) assms(1) unfolding delta_of_rules [OF d(2)]
      by (auto simp: find_append delta_of_iff scores_current_def split: option.splits)
  qed
qed

lemma rule_by_id:
  assumes "scores_current st" "find (\<lambda>r. rule_id r = rid) (rules st) = Some row"
  shows "row \<in> set (rules st)" "rule_id row = rid"
    "\<And>r. r \<in> set (rules st) \<Longrightarrow> rule_id r = rid \<longleftrightarrow> r = row" "\<And>r. r \<in> set (rules st) \<Longrightarrow> rule_type r = rule_type row \<longleftrightarrow> r = row"
proof -
  show row: "row \<in> set (rules st)" "rule_id row = rid" using find_Some_iff_in [OF assms(2)] by auto
  show "rule_id r = rid \<longleftrightarrow> r = row" "rule_type r = rule_type row \<longleftrightarrow> r = row" if "r \<in> set (rules st)" for r
    using that row assms(1) by (auto simp: scores_current_def distinct_map inj_on_def)
qed

lemma patch_rule_current:
  assumes "scores_current st" "patch_event_score_rule st rid delta = Inr st'"
  shows "scores_current st'"
proof -
  let ?rs = "map (\<lambda>r. if rule_id r = rid then r\<lparr>rule_delta := delta\<rparr> else r) (rules st)"
  obtain row where row: "find (\<lambda>r. rule_id r = rid) (rules st) = Some row"
    and st': "st' = fst (recalculate_notable_scores_for_event_type (st\<lparr>rules := ?rs\<rparr>) (rule_type row) delta)"
    using assms(2) by (auto simp: patch_event_score_rule_def split: option.splits)
  note r = rule_by_id [OF assms(1) row]
  have "map rule_id ?rs = map rule_id (rules st)" "map rule_type ?rs = map rule_type (rules st)" by auto
  then have d: "distinct (map rule_id ?rs)" "distinct (map rule_type ?rs)"
    using assms(1) by (simp_all only: scores_current_def)
  show ?thesis unfolding st'
  proof (rule recalculate_type_current [OF assms(1) d])
    fix t
    have "find (\<lambda>r. rule_type r = t) ?rs =
        map_option (\<lambda>r. if rule_id r = rid then r\<lparr>rule_delta := delta\<rparr> else r) (find (\<lambda>r. rule_type r = t) (rules st))"
      by (rule find_map_if) simp
    moreover have "find (\<lambda>r. rule_type r = rule_type row) (rules st) = Some row"
      using find_unique [of rule_type "rules st" row] assms(1) r(1) by (simp add: scores_current_def)
    ultimately show "delta_of (st\<lparr>rules := ?rs\<rparr>) t = (if t = rule_type row then delta else delta_of st t)"
      using assms(1) r unfolding delta_of_rules [OF d(2)]
      by (auto simp: delta_of_iff scores_current_def split: option.splits dest!: find_Some_iff_in)
  qed
qed

lemma delete_rule_current:
  assumes "scores_current st" "delete_event_score_rule st rid = Inr st'"
  shows "scores_current st'"
proof -
  let ?rs = "filter (\<lambda>r. rule_id r \<noteq> rid) (rules st)"
  obtain row where row: "find (\<lambda>r. rule_id r = rid) (rules st) = Some row"
    and st': "st' = fst (recalculate_notable_scores_for_event_type (st\<lparr>rules := ?rs\<rparr>) (rule_type row) 0)"
    using assms(2) by (auto simp: delete_event_score_rule_def split: option.splits)
  note r = rule_by_id [OF assms(1) row]
  have d: "distinct (map rule_id ?rs)" "distinct (map rule_type ?rs)"
    using assms(1) by (simp_all add: scores_current_def distinct_map_filterI)
  show ?thesis unfolding st'
  proof (rule recalculate_type_current [OF assms(1) d])
    fix t
    show "delta_of (st\<lparr>rules := ?rs\<rparr>) t = (if t = rule_type row then 0 else delta_of st t)"
    proof (cases "t = rule_type row")
      case True
      then have "find (\<lambda>r. rule_type r = t) ?rs = None" using r by (auto simp: find_None_iff)
      with True show ?thesis by (simp add: delta_of_rules [OF d(2)])
    next
      case False
      then have "find (\<lambda>r. rule_type r = t) ?rs = find (\<lambda>r. rule_type r = t) (rules st)"
        using r by (intro find_filter_other) auto
      with False assms(1) show ?thesis by (simp add: delta_of_rules [OF d(2)] delta_of_iff scores_current_def)
    qed
  qed
qed

lemma import_rule_keys:
  assumes "distinct (map rule_id rs)" "distinct (map rule_type rs)" "rid \<notin> rule_id ` set rs"
  shows "distinct (map rule_id (import_rule ov (ty, d, rid) rs)) \<and> distinct (map rule_type (import_rule ov (ty, d, rid) rs)) \<and>
     rule_id ` set (import_rule ov (ty, d, rid) rs) \<subseteq> insert rid (rule_id ` set rs)"
proof -
  have "map rule_id (map (\<lambda>r. if rule_type r = ty then r\<lparr>rule_delta := d\<rparr> else r) rs) = map rule_id rs"
    "map rule_type (map (\<lambda>r. if rule_type r = ty then r\<lparr>rule_delta := d\<rparr> else r) rs) = map rule_type rs" by auto
  then have "distinct (map rule_id (map (\<lambda>r. if rule_type r = ty then r\<lparr>rule_delta := d\<rparr> else r) rs))"
    "distinct (map rule_type (map (\<lambda>r. if rule_type r = ty then r\<lparr>rule_delta := d\<rparr> else r) rs))"
    using assms by (simp_all only:)
  then show ?thesis using assms unfolding import_rule_def by auto
qed

lemma import_rules_keys:
  assumes "distinct (map rule_id rs)" "distinct (map rule_type rs)"
    and "distinct (map (snd \<circ> snd) items)" "(snd \<circ> snd) ` set items \<inter> rule_id ` set rs = {}"
  shows "distinct (map rule_id (fold (import_rule ov) items rs)) \<and> distinct (map rule_type (fold (import_rule ov) items rs))"
  using assms
proof (induction items arbitrary: rs)
  case (Cons i items)
  obtain ty d rid where i: "i = (ty, d, rid)" by (cases i)
  have k: "distinct (map rule_id (import_rule ov i rs)) \<and> distinct (map rule_type (import_rule ov i rs)) \<and>
     rule_id ` set (import_rule ov i rs) \<subseteq> insert rid (rule_id ` set rs)"
    unfolding i by (rule import_rule_keys) (use Cons.prems i in auto)
  have "(snd \<circ> snd) ` set items \<inter> insert rid (rule_id ` set rs) = {}"
    using Cons.prems(3,4) i by (simp add: image_comp)
  with k have disj: "(snd \<circ> snd) ` set items \<inter> rule_id ` set (import_rule ov i rs) = {}" by blast
  show ?case unfolding fold_Cons comp_apply
    by (rule Cons.IH) (use k disj Cons.prems(3) in simp_all)
qed simp

lemma import_rules_current:
  assumes "scores_current st" "import_event_score_rules st items ov del = Inr (st', n, m)"
    and "distinct (map (snd \<circ> snd) items)" "(snd \<circ> snd) ` set items \<inter> rule_id ` set (rules st) = {}"
  shows "scores_current st'"
proof -
  let ?rs = "fold (import_rule ov) items (rules st)"
  have k: "distinct (map rule_id ?rs)" "distinct (map rule_type ?rs)"
    using import_rules_keys [OF _ _ assms(3,4)] assms(1) by (auto simp: scores_current_def)
  have "st' = fst (recalculate_all_notable_scores (st\<lparr>rules := if del then filter (\<lambda>r. rule_type r \<in> fst ` set items) ?rs else ?rs\<rparr>))"
    using assms(2) by (auto simp: import_event_score_rules_def Let_def split: if_splits prod.splits)
  then show ?thesis using k by (auto intro!: recalculate_all_current simp: distinct_map_filterI)
qed

end
