(* ===== verification/CollectorRuntime.thy ===== *)
theory CollectorRuntime
  imports EventStore Limiters
begin

section \<open>Running collectors (plugins/runtime.py, services/ingest\_runner.py)\<close>

text \<open>
  One run of a collector for one vCenter: the guard against overlapping runs, the state rows, the
  validation of the batch and its storage in one transaction. What the plugin does is a parameter: a
  batch or an exception. \<open>env\<close> in \<open>persist_batch\<close> is what other requests commit between the reading of
  the score rules and the inserts.
\<close>

record collector_registration =
  reg_plugin_id :: string
  reg_manifest :: "collector_manifest option"
  reg_has_config :: bool
  reg_status :: string
  reg_error :: "string option"

record run_result =
  res_plugin_id :: string
  res_status :: string
  res_events :: nat
  res_metrics :: nat
  res_error :: "string option"
  res_logs :: nat

subsection \<open>What of an exception may be shown\<close>

datatype collector_exn =
    ProtocolPolicyExn
  | WorkerExn string "string option"
  | SafeTypeExn string string
  | OtherExn string

definition is_vcenter_protocol_policy_error :: "string \<Rightarrow> collector_exn \<Rightarrow> bool" where
  \<comment> \<open>\<open>https_required\<close> is the fixed text \<open>VCENTER_HTTPS_REQUIRED\<close>\<close>
  "is_vcenter_protocol_policy_error https_required e =
     (case e of ProtocolPolicyExn \<Rightarrow> True
      | WorkerExn name detail \<Rightarrow> name = ''VCenterProtocolPolicyError'' \<and> detail = Some https_required
      | _ \<Rightarrow> False)"

definition safe_error :: "string \<Rightarrow> collector_exn \<Rightarrow> string" where
  "safe_error https_required e =
     (if is_vcenter_protocol_policy_error https_required e then https_required
      else case e of
        WorkerExn name detail \<Rightarrow>
          (let plugin_error = (if name = '''' then ''CollectorWorkerError'' else name)
           in case detail of
                Some d \<Rightarrow> if d \<noteq> '''' then take 1000 (plugin_error @ '': '' @ d)
                          else plugin_error @ '': collector execution failed''
              | None \<Rightarrow> plugin_error @ '': collector execution failed'')
      | SafeTypeExn name message \<Rightarrow>
          (let detail = py_strip message
           in if detail \<noteq> '''' then take 1000 (name @ '': '' @ detail) else name @ '': collector execution failed'')
      | OtherExn name \<Rightarrow> name @ '': collector execution failed''
      | ProtocolPolicyExn \<Rightarrow> https_required)"

subsection \<open>State rows\<close>

definition state_row :: "store \<Rightarrow> uuid \<Rightarrow> collector_registration \<Rightarrow> store" where
  \<comment> \<open>create the row if it is missing, and record the version\<close>
  "state_row st vid reg =
     (let is_row = (\<lambda>r. rs_vcenter r = vid \<and> rs_collector r = reg_plugin_id reg);
          blank = \<lparr>rs_vcenter = vid, rs_collector = reg_plugin_id reg, rs_version = '''', rs_status = Idle,
             rs_last_started_at = None, rs_last_success_at = None, rs_last_failure_at = None,
             rs_events_inserted = 0, rs_metrics_inserted = 0, rs_logs_inserted = 0, rs_error_message = None\<rparr>;
          rows = (if list_ex is_row (run_states st) then run_states st else run_states st @ [blank])
      in st\<lparr>run_states := (case reg_manifest reg of None \<Rightarrow> rows
           | Some m \<Rightarrow> map (\<lambda>r. if is_row r then r\<lparr>rs_version := mf_version m\<rparr> else r) rows)\<rparr>)"

definition set_run_state :: "uuid \<Rightarrow> collector_registration \<Rightarrow> (run_state \<Rightarrow> run_state) \<Rightarrow> store \<Rightarrow> store" where
  "set_run_state vid reg f st =
     (let st = state_row st vid reg
      in st\<lparr>run_states := map (\<lambda>r. if rs_vcenter r = vid \<and> rs_collector r = reg_plugin_id reg then f r else r)
             (run_states st)\<rparr>)"

definition mark_started :: "store \<Rightarrow> uuid \<Rightarrow> collector_registration \<Rightarrow> instant \<Rightarrow> store" where
  "mark_started st vid reg now =
     set_run_state vid reg (\<lambda>r. r\<lparr>rs_status := Running, rs_last_started_at := Some now, rs_error_message := None\<rparr>) st"

definition mark_failed :: "store \<Rightarrow> uuid \<Rightarrow> collector_registration \<Rightarrow> string \<Rightarrow> instant \<Rightarrow> store" where
  "mark_failed st vid reg err now =
     set_run_state vid reg (\<lambda>r. r\<lparr>rs_status := Failed, rs_last_failure_at := Some now, rs_error_message := Some err\<rparr>) st"

subsection \<open>Storing a batch\<close>

definition event_row_of :: "(string \<Rightarrow> int) \<Rightarrow> uuid \<Rightarrow> string \<Rightarrow> event_input \<Rightarrow> event_row" where
  "event_row_of deltas vid cid e =
     (let notable = score_event (ev_event_type e) (ev_severity e) (ev_message e)
      in \<lparr>er_vcenter = vid, er_collector = cid, er_occurred_at = instant_of (ev_occurred_at e),
          er_type = ev_event_type e, er_message = ev_message e, er_severity = ev_severity e,
          er_user_name = ev_user_name e, er_entity_name = ev_entity_name e, er_entity_type = ev_entity_type e,
          er_vmware_key = ev_vmware_key e, er_chain_id = ev_chain_id e,
          er_score = clamp_notable_total (score notable) (deltas (ev_event_type e)),
          er_tags = tags notable, er_comment = None\<rparr>)"

definition metric_row_of :: "uuid \<Rightarrow> string \<Rightarrow> metric_input \<Rightarrow> metric_row" where
  "metric_row_of vid cid s =
     \<lparr>mr_vcenter = vid, mr_collector = cid, mr_sampled_at = instant_of (ms_sampled_at s),
      mr_entity_type = ms_entity_type s, mr_entity_moid = ms_entity_moid s, mr_entity_name = ms_entity_name s,
      mr_metric_key = ms_metric_key s, mr_value = ms_value s\<rparr>"

definition log_row_of :: "uuid \<Rightarrow> string \<Rightarrow> log_input \<Rightarrow> log_row" where
  "log_row_of vid cid r =
     (let occurred = map_option instant_of (lg_occurred_at r); collected = instant_of (lg_collected_at r)
      in \<lparr>lr_vcenter = vid, lr_collector = cid, lr_source_id = lg_source_id r, lr_host = lg_host r,
          lr_log_kind = lg_log_kind r, lr_file_generation = lg_file_generation r,
          lr_byte_offset = lg_byte_offset r, lr_occurred_at = occurred, lr_collected_at = collected,
          lr_effective_at = (case occurred of Some t \<Rightarrow> t | None \<Rightarrow> collected),
          lr_severity = lg_severity r, lr_message = lg_message r\<rparr>)"

definition set_cursor :: "uuid \<Rightarrow> string \<Rightarrow> string \<Rightarrow> ingestion_state list \<Rightarrow> ingestion_state list" where
  "set_cursor vid kind cur rows =
     (if list_ex (\<lambda>r. is_vcenter r = vid \<and> is_kind r = kind) rows
      then map (\<lambda>r. if is_vcenter r = vid \<and> is_kind r = kind then r\<lparr>is_cursor := Some cur\<rparr> else r) rows
      else rows @ [\<lparr>is_vcenter = vid, is_kind = kind, is_cursor = Some cur\<rparr>])"

definition cursor_of :: "store \<Rightarrow> uuid \<Rightarrow> string \<Rightarrow> string option" where
  "cursor_of st vid kind =
     (case find (\<lambda>r. is_vcenter r = vid \<and> is_kind r = kind) (ingestion_states st) of
        None \<Rightarrow> None | Some r \<Rightarrow> is_cursor r)"

definition persist_batch ::
  "(store \<Rightarrow> store) \<Rightarrow> store \<Rightarrow> uuid \<Rightarrow> collector_registration \<Rightarrow> collection_batch \<Rightarrow> instant \<Rightarrow> store \<times> nat \<times> nat \<times> nat" where
  "persist_batch env st vid reg batch now =
     (let deltas = (if batch_events batch \<noteq> [] then delta_of st else (\<lambda>_. 0));
          st = env st; cid = reg_plugin_id reg;
          (es, ne) = insert_all (insert_on_conflict_do_nothing event_key)
                       (map (event_row_of deltas vid cid) (batch_events batch)) (events st);
          (ms, nm) = insert_all (insert_on_conflict_do_nothing metric_key)
                       (map (metric_row_of vid cid) (batch_metrics batch)) (metrics st);
          (ls, nl) = insert_all (insert_on_conflict_do_nothing log_key)
                       (map (log_row_of vid cid) (batch_logs batch)) (logs st);
          st = st\<lparr>events := es, metrics := ms, logs := ls,
                   ingestion_states := (case next_cursor batch of None \<Rightarrow> ingestion_states st
                     | Some c \<Rightarrow> set_cursor vid cid c (ingestion_states st))\<rparr>;
          st = set_run_state vid reg (\<lambda>r. r\<lparr>rs_status := Ok, rs_last_success_at := Some now,
                 rs_events_inserted := ne, rs_metrics_inserted := nm, rs_logs_inserted := nl,
                 rs_error_message := None\<rparr>) st
      in (st, ne, nm, nl))"

subsection \<open>A run\<close>

type_synonym run_key = "string \<times> uuid"

definition lock_acquire :: "run_key \<Rightarrow> run_key list \<Rightarrow> bool \<times> run_key list" where
  \<comment> \<open>the lock of a key, if it is free; the list are the locks held\<close>
  "lock_acquire k locks = (if k \<in> set locks then (False, locks) else (True, k # locks))"

datatype collect_outcome = Collected collection_batch | Raised collector_exn

definition start_run ::
  "run_key list \<Rightarrow> store \<Rightarrow> collector_registration \<Rightarrow> uuid \<Rightarrow> instant \<Rightarrow> run_result + run_key list \<times> store" where
  \<comment> \<open>up to the call of the plugin; \<open>Inl\<close> is a result without a run; the first argument are the locks held\<close>
  "start_run locks st reg vid now =
     (let res = (\<lambda>s e. \<lparr>res_plugin_id = reg_plugin_id reg, res_status = s, res_events = 0, res_metrics = 0,
                        res_error = e, res_logs = 0\<rparr>)
      in if reg_manifest reg = None \<or> \<not> reg_has_config reg \<or> reg_status reg \<noteq> ''enabled''
         then Inl (res ''failed'' (reg_error reg))
         else case lock_acquire (reg_plugin_id reg, vid) locks of
             (False, _) \<Rightarrow> Inl (res ''skipped'' (Some ''already running''))
           | (True, locks) \<Rightarrow> Inr (locks, mark_started st vid reg now))"

definition finish_run ::
  "string \<Rightarrow> (store \<Rightarrow> store) \<Rightarrow> run_key list \<Rightarrow> store \<Rightarrow> collector_registration \<Rightarrow> uuid \<Rightarrow> collect_outcome \<Rightarrow>
   collector_exn option \<Rightarrow> instant \<Rightarrow> run_key list \<times> store \<times> run_result" where
  \<comment> \<open>from the plugin's outcome to the release of the lock; \<open>db_error\<close> is an exception of the storing
     transaction, which is then rolled back; the codes of the issues stand for their messages\<close>
  "finish_run https_required env locks st reg vid outcome db_error now =
     (let failed = (\<lambda>e. let err = safe_error https_required e in
            (mark_failed st vid reg err now, \<lparr>res_plugin_id = reg_plugin_id reg, res_status = ''failed'',
              res_events = 0, res_metrics = 0, res_error = Some err, res_logs = 0\<rparr>));
          (st, res) = (case outcome of
             Raised e \<Rightarrow> failed e
           | Collected batch \<Rightarrow>
               (case raise_for_issues (check_batch (the (reg_manifest reg)) batch) of
                  Inl errors \<Rightarrow> failed (SafeTypeExn ''BatchValidationError'' (concat (map issue_code errors)))
                | Inr _ \<Rightarrow>
                    (case db_error of Some e \<Rightarrow> failed e
                     | None \<Rightarrow> (case persist_batch env st vid reg batch now of (st, ne, nm, nl) \<Rightarrow>
                         (st, \<lparr>res_plugin_id = reg_plugin_id reg, res_status = ''ok'', res_events = ne,
                               res_metrics = nm, res_error = None, res_logs = nl\<rparr>)))))
      in (remove1 (reg_plugin_id reg, vid) locks, st, res))"

subsection \<open>The slot of the ingest jobs\<close>

datatype slot_policy = RejectPolicy | SkipPolicy

datatype slot_result = Acquired | Skipped | BusyError

definition ingest_enter :: "slot_policy \<Rightarrow> bool \<Rightarrow> bool \<times> slot_result" where
  \<comment> \<open>the busy flag and what the caller gets\<close>
  "ingest_enter policy busy =
     (if busy then (busy, case policy of RejectPolicy \<Rightarrow> BusyError | SkipPolicy \<Rightarrow> Skipped)
      else (True, Acquired))"

definition ingest_leave :: "bool \<Rightarrow> bool" where
  "ingest_leave busy = False"

text \<open>Both are slots with one place: one run per collector and vCenter, one ingest job.\<close>

lemma count_list_remove1: "count_list (remove1 k xs) k0 = count_list xs k0 - (if k0 = k then 1 else 0)"
  proof (induction xs)
  case (Cons x xs)
  have "x = k0 \<Longrightarrow> k0 = k \<Longrightarrow> count_list (k # xs) k0 - 1 = count_list xs k0" by simp
  with Cons show ?case by (cases "x = k"; cases "k0 = k") auto
qed simp

interpretation run_lock: slots lock_acquire remove1 "\<lambda>ls. count_list ls k0" "(=) k0" 1
  by unfold_locales (auto simp: lock_acquire_def count_list_0_iff count_list_remove1 split: if_splits)

interpretation ingest_slot: slots "\<lambda>_ busy. (snd (ingest_enter policy busy) = Acquired, fst (ingest_enter policy busy))"
  "\<lambda>_. ingest_leave" "\<lambda>busy. if busy then 1 else 0" "\<lambda>_. True" 1
  by unfold_locales (auto simp: ingest_enter_def ingest_leave_def split: slot_policy.splits if_splits)

lemma start_run_locks:
  "start_run locks st reg vid now = Inr (locks', st') \<Longrightarrow> locks' = snd (lock_acquire (reg_plugin_id reg, vid) locks) \<and>
     fst (lock_acquire (reg_plugin_id reg, vid) locks) \<and> st' = mark_started st vid reg now"
  by (auto simp: start_run_def Let_def split: if_splits prod.splits bool.splits)

subsection \<open>What a run changes\<close>

lemma state_row_same [simp]:
  "events (state_row st v reg) = events st" "metrics (state_row st v reg) = metrics st" "logs (state_row st v reg) = logs st"
  "rules (state_row st v reg) = rules st" "ingestion_states (state_row st v reg) = ingestion_states st"
  by (simp_all add: state_row_def Let_def)

lemma set_run_state_same [simp]:
  "events (set_run_state v reg f st) = events st" "metrics (set_run_state v reg f st) = metrics st"
  "logs (set_run_state v reg f st) = logs st" "rules (set_run_state v reg f st) = rules st"
  "ingestion_states (set_run_state v reg f st) = ingestion_states st"
  by (simp_all add: set_run_state_def Let_def)

lemma set_run_state_row:
  assumes "\<And>r. rs_vcenter (f r) = rs_vcenter r" "\<And>r. rs_collector (f r) = rs_collector r"
  shows "\<exists>r\<in>set (run_states (set_run_state v reg f st)). rs_vcenter r = v \<and> rs_collector r = reg_plugin_id reg"
    and "r \<in> set (run_states (set_run_state v reg f st)) \<Longrightarrow> rs_vcenter r = v \<and> rs_collector r = reg_plugin_id reg \<Longrightarrow>
      \<exists>x. r = f x"
proof -
  let ?is = "\<lambda>r. rs_vcenter r = v \<and> rs_collector r = reg_plugin_id reg"
  define rows where "rows = (if list_ex ?is (run_states st) then run_states st else run_states st @
     [\<lparr>rs_vcenter = v, rs_collector = reg_plugin_id reg, rs_version = '''', rs_status = Idle,
       rs_last_started_at = None, rs_last_success_at = None, rs_last_failure_at = None,
       rs_events_inserted = 0, rs_metrics_inserted = 0, rs_logs_inserted = 0, rs_error_message = None\<rparr>])"
  have "\<exists>r\<in>set rows. ?is r" by (auto simp: rows_def list_ex_iff)
  moreover have "run_states (state_row st v reg) = (case reg_manifest reg of None \<Rightarrow> rows
           | Some m \<Rightarrow> map (\<lambda>r. if ?is r then r\<lparr>rs_version := mf_version m\<rparr> else r) rows)"
    by (cases "list_ex ?is (run_states st)"; cases "reg_manifest reg") (simp_all add: state_row_def rows_def Let_def)
  ultimately have "\<exists>r\<in>set (run_states (state_row st v reg)). ?is r"
  proof (cases "reg_manifest reg")
    case (Some m)
    from \<open>\<exists>r\<in>set rows. ?is r\<close> obtain r where r: "r \<in> set rows" "?is r" by blast
    then have "r\<lparr>rs_version := mf_version m\<rparr> \<in> set (run_states (state_row st v reg))"
      using Some \<open>run_states (state_row st v reg) = _\<close> by (auto intro: rev_image_eqI)
    with r show ?thesis by (intro bexI [of _ "r\<lparr>rs_version := mf_version m\<rparr>"]) simp_all
  qed simp
  then obtain r0 where r: "r0 \<in> set (run_states (state_row st v reg))" "?is r0" by blast
  then have "f r0 \<in> set (run_states (set_run_state v reg f st))"
    by (auto simp: set_run_state_def Let_def intro: rev_image_eqI)
  moreover have "?is (f r0)" using assms r(2) by simp
  ultimately show "\<exists>r\<in>set (run_states (set_run_state v reg f st)). ?is r" by blast
  show "r \<in> set (run_states (set_run_state v reg f st)) \<Longrightarrow> rs_vcenter r = v \<and> rs_collector r = reg_plugin_id reg \<Longrightarrow>
      \<exists>x. r = f x"
    by (auto simp: set_run_state_def Let_def split: if_splits)
qed

lemma delta_of_cong: "rules st = rules st' \<Longrightarrow> delta_of st t = delta_of st' t"
  by (simp add: delta_of_def load_event_score_delta_map_def)

definition stored_rows :: "store \<Rightarrow> event_row list \<times> metric_row list \<times> log_row list \<times> score_rule list \<times> ingestion_state list" where
  "stored_rows st = (events st, metrics st, logs st, rules st, ingestion_states st)"

lemma stored_rows_failed [simp]: "stored_rows (mark_failed st v reg e now) = stored_rows st"
  "stored_rows (mark_started st v reg now) = stored_rows st"
  by (simp_all add: stored_rows_def mark_failed_def mark_started_def)

lemma persist_batch_tables:
  "persist_batch env st vid reg batch now = (st', ne, nm, nl) \<Longrightarrow>
     insert_all (insert_on_conflict_do_nothing event_key)
       (map (event_row_of (if batch_events batch \<noteq> [] then delta_of st else (\<lambda>_. 0)) vid (reg_plugin_id reg)) (batch_events batch))
       (events (env st)) = (events st', ne) \<and>
     insert_all (insert_on_conflict_do_nothing metric_key) (map (metric_row_of vid (reg_plugin_id reg)) (batch_metrics batch))
       (metrics (env st)) = (metrics st', nm) \<and>
     insert_all (insert_on_conflict_do_nothing log_key) (map (log_row_of vid (reg_plugin_id reg)) (batch_logs batch))
       (logs (env st)) = (logs st', nl) \<and>
     rules st' = rules (env st) \<and>
     ingestion_states st' = (case next_cursor batch of None \<Rightarrow> ingestion_states (env st)
       | Some c \<Rightarrow> set_cursor vid (reg_plugin_id reg) c (ingestion_states (env st)))"
  by (auto simp: persist_batch_def Let_def split: prod.splits)

lemma cursor_of_set_cursor: "cursor_of (st\<lparr>ingestion_states := set_cursor v k c rows\<rparr>) v k = Some c"
proof (cases "list_ex (\<lambda>r. is_vcenter r = v \<and> is_kind r = k) rows")
  case True
  then obtain r where "find (\<lambda>r. is_vcenter r = v \<and> is_kind r = k) rows = Some r"
    by (cases "find (\<lambda>r. is_vcenter r = v \<and> is_kind r = k) rows") (auto simp: find_None_iff list_ex_iff)
  moreover have "find (\<lambda>r. is_vcenter r = v \<and> is_kind r = k) (set_cursor v k c rows) =
     map_option (\<lambda>r. if is_vcenter r = v \<and> is_kind r = k then r\<lparr>is_cursor := Some c\<rparr> else r)
       (find (\<lambda>r. is_vcenter r = v \<and> is_kind r = k) rows)"
    using True unfolding set_cursor_def by (simp add: find_map_if)
  ultimately show ?thesis by (auto simp: cursor_of_def dest!: find_Some_iff_in)
next
  case False
  then have "find (\<lambda>r. is_vcenter r = v \<and> is_kind r = k) rows = None" by (auto simp: find_None_iff list_ex_iff)
  with False show ?thesis by (simp add: cursor_of_def set_cursor_def find_append)
qed


subsection \<open>Storing again, and storing everything\<close>

definition keys_unseen :: "store \<Rightarrow> uuid \<Rightarrow> string \<Rightarrow> collection_batch \<Rightarrow> bool" where
  "keys_unseen st vid cid b =
     ((\<forall>e\<in>set (batch_events b). (vid, cid, ev_vmware_key e) \<notin> event_key ` set (events st)) \<and>
      (\<forall>s\<in>set (batch_metrics b). (vid, instant_of (ms_sampled_at s), ms_entity_moid s, ms_metric_key s)
          \<notin> metric_key ` set (metrics st)) \<and>
      (\<forall>r\<in>set (batch_logs b). (vid, cid, lg_source_id r, lg_log_kind r, lg_file_generation r, lg_byte_offset r)
          \<notin> log_key ` set (logs st)))"

definition log_position :: "log_input \<Rightarrow> string \<times> string \<times> string \<times> int" where
  "log_position r = (lg_source_id r, lg_log_kind r, lg_file_generation r, lg_byte_offset r)"

lemma event_key_row [simp]: "event_key (event_row_of d v c e) = (v, c, ev_vmware_key e)"
  by (simp add: event_key_def event_row_of_def Let_def)

lemma metric_key_row [simp]:
  "metric_key (metric_row_of v c s) = (v, instant_of (ms_sampled_at s), ms_entity_moid s, ms_metric_key s)"
  by (simp add: metric_key_def metric_row_of_def)

lemma log_key_row [simp]: "log_key (log_row_of v c r) =
    (v, c, lg_source_id r, lg_log_kind r, lg_file_generation r, lg_byte_offset r)"
  by (simp add: log_key_def log_row_of_def Let_def)

lemma no_warning_distinct:
  assumes "check_batch m b = []"
  shows "distinct (map ev_vmware_key (batch_events b))"
    and "distinct (map (\<lambda>s. (instant_of (ms_sampled_at s), ms_entity_moid s, ms_metric_key s)) (batch_metrics b))"
proof -
  have w: "metric_warnings 0 {} (batch_metrics b) = []" "event_warnings 0 {} (batch_events b) = []"
    and e: "enumerate_with (metric_errors m) (batch_metrics b) = []"
    using assms by (auto simp: check_batch_def batch_warnings_def batch_errors_def Let_def)
  show "distinct (map ev_vmware_key (batch_events b))" using event_warnings_Nil [OF w(2)] by simp
  have aware: "utcoff (ms_sampled_at s) \<noteq> None" if "s \<in> set (batch_metrics b)" for s
    using that e by (auto simp: in_set_conv_nth metric_errors_def)
  have "distinct (map metric_point (batch_metrics b))" using metric_warnings_Nil [OF w(1)] by simp
  then show "distinct (map (\<lambda>s. (instant_of (ms_sampled_at s), ms_entity_moid s, ms_metric_key s)) (batch_metrics b))"
    using aware by (auto simp: distinct_map inj_on_def metric_point_def dt_key_def)
qed

lemma set_cursor_twice: "set_cursor v k x (set_cursor v k x rows) = set_cursor v k x rows"
proof -
  let ?is = "\<lambda>r. is_vcenter r = v \<and> is_kind r = k"
  let ?f = "\<lambda>r. if ?is r then r\<lparr>is_cursor := Some x\<rparr> else r"
  show ?thesis
  proof (cases "list_ex ?is rows")
    case True
    then have ex: "list_ex ?is (map ?f rows)" by (induction rows) auto
    have "map ?f (map ?f rows) = map ?f rows" by simp
    with True ex show ?thesis by (simp only: set_cursor_def if_True)
  next
    case False
    let ?rows = "rows @ [\<lparr>is_vcenter = v, is_kind = k, is_cursor = Some x\<rparr>]"
    have "map ?f ?rows = ?rows" using False by (auto simp: list_ex_iff intro!: map_idI)
    moreover have "list_ex ?is ?rows" by simp
    ultimately show ?thesis using False by (simp only: set_cursor_def if_True if_False)
  qed
qed

text \<open>a batch of events and metrics for which \<open>check_batch\<close> reports neither an error nor a warning is
  stored completely: every row is inserted (no row is swallowed by the unique keys), provided its keys
  are not in the tables yet and its log positions are distinct; and storing the same batch once more,
  as after an overlapping window, inserts nothing and changes no row.\<close>

theorem clean_batch_is_stored_completely:
  assumes clean: "check_batch m b = []" and unseen: "keys_unseen st vid (reg_plugin_id reg) b"
    and log_positions: "distinct (map log_position (batch_logs b))"
    and run: "persist_batch (\<lambda>s. s) st vid reg b now = (st', ne, nm, nl)"
    and again: "persist_batch (\<lambda>s. s) st' vid reg b now2 = (st'', ne2, nm2, nl2)"
  shows "ne = length (batch_events b) \<and> nm = length (batch_metrics b) \<and> nl = length (batch_logs b) \<and>
    stored_rows st'' = stored_rows st' \<and> ne2 = 0 \<and> nm2 = 0 \<and> nl2 = 0"
proof -
  note t = persist_batch_tables [OF run]
  note t2 = persist_batch_tables [OF again]
  let ?c = "reg_plugin_id reg"
  let ?es = "\<lambda>st. map (event_row_of (if batch_events b \<noteq> [] then delta_of st else (\<lambda>_. 0)) vid ?c) (batch_events b)"
  let ?ms = "map (metric_row_of vid ?c) (batch_metrics b)" and ?ls = "map (log_row_of vid ?c) (batch_logs b)"
  have d: "distinct (map event_key (?es st))" "distinct (map metric_key ?ms)" "distinct (map log_key ?ls)"
    using no_warning_distinct [OF clean] log_positions
    by (auto simp: distinct_map inj_on_def comp_def log_position_def)
  have u: "event_key ` set (?es st) \<inter> event_key ` set (events st) = {}"
    "metric_key ` set ?ms \<inter> metric_key ` set (metrics st) = {}" "log_key ` set ?ls \<inter> log_key ` set (logs st) = {}"
    using unseen by (force simp: keys_unseen_def image_iff)+
  have counts: "ne = length (batch_events b)" "nm = length (batch_metrics b)" "nl = length (batch_logs b)"
    using event_table.insert_all_complete [OF d(1) u(1)] metric_table.insert_all_complete [OF d(2) u(2)]
      log_table.insert_all_complete [OF d(3) u(3)] t by auto
  have k: "event_key ` set (?es st') \<subseteq> event_key ` set (events st')" "metric_key ` set ?ms \<subseteq> metric_key ` set (metrics st')"
    "log_key ` set ?ls \<subseteq> log_key ` set (logs st')"
    using event_table.insert_all_keys [of "?es st" "events st"] metric_table.insert_all_keys [of ?ms "metrics st"]
      log_table.insert_all_keys [of ?ls "logs st"] t by (auto simp: image_image)
  have "(events st'', ne2) = (events st', 0)"
    by (rule trans [OF t2 [THEN conjunct1, symmetric] event_table.insert_all_again [OF k(1)]])
  moreover have "(metrics st'', nm2) = (metrics st', 0)"
    by (rule trans [OF t2 [THEN conjunct2, THEN conjunct1, symmetric] metric_table.insert_all_again [OF k(2)]])
  moreover have "(logs st'', nl2) = (logs st', 0)"
    by (rule trans [OF t2 [THEN conjunct2, THEN conjunct2, THEN conjunct1, symmetric] log_table.insert_all_again [OF k(3)]])
  moreover have "ingestion_states st'' = ingestion_states st'" "rules st'' = rules st'"
  proof -
    show "rules st'' = rules st'" using t2 by simp
    show "ingestion_states st'' = ingestion_states st'"
      using t t2 set_cursor_twice by (cases "next_cursor b") simp_all
  qed
  ultimately show ?thesis using counts by (simp add: stored_rows_def)
qed

definition empty_store :: store where
  "empty_store = \<lparr>events = [], metrics = [], logs = [], rules = [], ingestion_states = [], run_states = []\<rparr>"

definition sample_manifest :: collector_manifest where
  "sample_manifest = \<lparr>mf_id = ''p'', mf_display_name = ''P'', mf_version = ''1'', mf_api_version = 1,
     mf_data_kinds = [''event'', ''log''], mf_default_interval_seconds = 300, mf_metric_definitions = [],
     mf_description = '''', mf_default_timeout_seconds = Fin 300, mf_setup_actions = []\<rparr>"

definition sample_registration :: collector_registration where
  "sample_registration = \<lparr>reg_plugin_id = ''p'', reg_manifest = Some sample_manifest, reg_has_config = True,
     reg_status = ''enabled'', reg_error = None\<rparr>"

definition sample_log :: log_input where
  "sample_log = \<lparr>lg_source_id = ''s'', lg_host = ''h'', lg_log_kind = ''k'', lg_file_generation = ''g'',
     lg_byte_offset = 0, lg_collected_at = utc 5, lg_message = ''first'', lg_occurred_at = None, lg_severity = None\<rparr>"

definition sample_event :: event_input where
  "sample_event = \<lparr>ev_occurred_at = utc 5, ev_event_type = ''HostConnectionLostEvent'', ev_message = ''lost'', ev_vmware_key = 7,
     ev_severity = Some ''error'', ev_user_name = None, ev_entity_name = None, ev_entity_type = None, ev_chain_id = None\<rparr>"

definition event_batch :: collection_batch where
  "event_batch = \<lparr>batch_events = [sample_event], batch_metrics = [], next_cursor = Some ''c'', batch_logs = [sample_log]\<rparr>"

lemmas sample_batch_defs = empty_store_def sample_manifest_def sample_registration_def sample_log_def sample_event_def
  event_batch_def

lemma failing_run: "finish_run '''' (\<lambda>s. s) [(''p'', 1)] empty_store sample_registration 1 (Raised (OtherExn ''X'')) None 6 =
   ([], mark_failed empty_store 1 sample_registration ''X: collector execution failed'' 6,
    \<lparr>res_plugin_id = ''p'', res_status = ''failed'', res_events = 0, res_metrics = 0,
     res_error = Some ''X: collector execution failed'', res_logs = 0\<rparr>)"
  by (simp add: finish_run_def safe_error_def is_vcenter_protocol_policy_error_def sample_registration_def Let_def)


lemma event_batch_clean: "check_batch sample_manifest event_batch = []"
  by (simp add: check_batch_def batch_errors_def batch_warnings_def enumerate_with_def sample_batch_defs Let_def
      issue_if_def log_errors_def event_errors_def too_long_def field_limits utc_def)

theorem clean_batch_is_stored_completely_witness:
  "\<exists>st'. persist_batch (\<lambda>s. s) empty_store 1 sample_registration event_batch 6 = (st', 1, 0, 1)"
proof -
  obtain st' ne nm nl where r: "persist_batch (\<lambda>s. s) empty_store 1 sample_registration event_batch 6 = (st', ne, nm, nl)"
    by (cases "persist_batch (\<lambda>s. s) empty_store 1 sample_registration event_batch 6")
  obtain st'' ne2 nm2 nl2 where r2: "persist_batch (\<lambda>s. s) st' 1 sample_registration event_batch 7 = (st'', ne2, nm2, nl2)"
    by (cases "persist_batch (\<lambda>s. s) st' 1 sample_registration event_batch 7")
  have "keys_unseen empty_store 1 (reg_plugin_id sample_registration) event_batch"
    by (simp add: keys_unseen_def empty_store_def)
  moreover have "distinct (map log_position (batch_logs event_batch))" by (simp add: event_batch_def)
  ultimately show ?thesis
    using clean_batch_is_stored_completely [OF event_batch_clean _ _ r r2] r by (simp add: event_batch_def)
qed

text \<open>the promise of \<open>validation.py\<close> that a warning is given wherever rows would be silently lost to a
  unique key does not extend to logs: a batch with two different log lines at the same position passes
  \<open>check_batch\<close> without any issue, and only the first line is stored.\<close>

theorem duplicate_log_positions_are_lost_silently:
  "check_batch sample_manifest \<lparr>batch_events = [], batch_metrics = [], next_cursor = None,
      batch_logs = [sample_log, sample_log\<lparr>lg_message := ''second''\<rparr>]\<rparr> = [] \<and>
   map lr_message (logs (fst (persist_batch (\<lambda>s. s) empty_store 1 sample_registration
     \<lparr>batch_events = [], batch_metrics = [], next_cursor = None,
      batch_logs = [sample_log, sample_log\<lparr>lg_message := ''second''\<rparr>]\<rparr> 6))) = [''first'']"
  by (simp add: check_batch_def batch_errors_def batch_warnings_def enumerate_with_def sample_batch_defs Let_def
      issue_if_def log_errors_def utc_def persist_batch_def log_row_of_def log_key_def
      insert_on_conflict_do_nothing_def set_run_state_def state_row_def insert_all.simps)

subsection \<open>Scores stay current\<close>

lemma persist_batch_current:
  assumes "scores_current st"
  shows "scores_current (fst (persist_batch (\<lambda>s. s) st vid reg b now))"
proof -
  obtain st' ne nm nl where r: "persist_batch (\<lambda>s. s) st vid reg b now = (st', ne, nm, nl)"
    by (cases "persist_batch (\<lambda>s. s) st vid reg b now")
  let ?d = "if batch_events b \<noteq> [] then delta_of st else (\<lambda>_. 0)"
  let ?rows = "map (event_row_of ?d vid (reg_plugin_id reg)) (batch_events b)"
  obtain new where n: "insert_all (insert_on_conflict_do_nothing event_key) ?rows (events st) = (events st @ new, length new)"
    "set new \<subseteq> set ?rows"
    using event_table.insert_all_extends [of ?rows "events st"] by blast
  have "(events st', ne) = (events st @ new, length new)"
    by (rule trans [OF persist_batch_tables [OF r, THEN conjunct1, symmetric] n(1)])
  then have new: "events st' = events st @ new" "set new \<subseteq> event_row_of ?d vid (reg_plugin_id reg) ` set (batch_events b)"
    using n(2) by simp_all
  have d: "delta_of st' t = delta_of st t" for t
    using persist_batch_tables [OF r] by (intro delta_of_cong) simp
  have "er_score x = final_notable_score (er_type x) (er_severity x) (er_message x) (delta_of st' (er_type x))"
    if "x \<in> set new" for x
    using that new(2) unfolding d by (auto simp: event_row_of_def Let_def final_notable_score_def split: if_splits)
  with assms new(1) d persist_batch_tables [OF r] show ?thesis
    by (auto simp: scores_current_def r)
qed

datatype score_op =
    Collect uuid collector_registration collection_batch
  | CreateRule string int nat
  | PatchRule nat int
  | DeleteRule nat

fun score_step :: "instant \<Rightarrow> score_op \<Rightarrow> store \<Rightarrow> store" where
  "score_step now (Collect v reg b) st = fst (persist_batch (\<lambda>s. s) st v reg b now)"
| "score_step now (CreateRule ty d i) st =
     (if i \<in> rule_id ` set (rules st) then st
      else case create_event_score_rule st ty d i of Inl _ \<Rightarrow> st | Inr st \<Rightarrow> st)"
| "score_step now (PatchRule i d) st = (case patch_event_score_rule st i d of Inl _ \<Rightarrow> st | Inr st \<Rightarrow> st)"
| "score_step now (DeleteRule i) st = (case delete_event_score_rule st i of Inl _ \<Rightarrow> st | Inr st \<Rightarrow> st)"



text \<open>A rule change that commits between the collector's reading of the rules and its inserts leaves the
  inserted event with the score of the old rules, and nothing recalculates it.\<close>

theorem rule_change_during_collection_leaves_old_score:
  "\<not> scores_current (fst (persist_batch (score_step 6 (CreateRule ''HostConnectionLostEvent'' (- 50) 1))
      empty_store 1 sample_registration event_batch 6))"
  by code_simp

end
