(* ===== verification/Outbox.thy ===== *)
theory Outbox
  imports Wire EventStore
begin

section \<open>Alert tables and the notification outbox (db/models.py, services/alerting/notification\_outbox.py)\<close>

text \<open>
  The alert tables, the intents a state change writes in its own transaction, and their delivery with
  retries. Rendering (Jinja2), the SMTP exchange and the random message ids are parameters. All
  readings of the clock in one transaction are one instant. The details of a notification are the
  values its text is made of.
\<close>

datatype alert_status = Firing | Resolved | Stale

datatype delivery_status = Pending | Retrying | Succeeded | GivenUp | Unsent
  \<comment> \<open>\<open>pending\<close>, \<open>retrying\<close>, \<open>succeeded\<close>, \<open>failed\<close>, \<open>skipped\<close>\<close>

datatype details =
    NotableDetails string int
  | ReachedDetails string pyfloat json string
  | DroppedDetails string pyfloat json string
  | StaleDetails string string int
  | ManualDetails string

record alert_rule =
  ar_id :: nat
  ar_name :: string
  ar_rule_type :: string
  ar_enabled :: bool
  ar_level :: string
  ar_config :: "(string, json) dict"

record alert_state =
  al_rule_id :: nat
  al_state :: alert_status
  al_context_key :: string
  al_fired_at :: instant
  al_resolved_at :: "instant option"
  al_last_notified_at :: "instant option"

record alert_history =
  hi_id :: nat
  hi_rule_id :: nat
  hi_level :: string
  hi_state :: alert_status
  hi_context_key :: string
  hi_notified_at :: instant
  hi_channel :: string
  hi_success :: "bool option"
  hi_error_message :: "string option"
  hi_status :: delivery_status
  hi_attempt_count :: "nat option"
  hi_last_attempt_at :: "instant option"
  hi_next_attempt_at :: "instant option"

record pending =
  pn_rule_id :: nat
  pn_rule_name :: string
  pn_rule_type :: string
  pn_level :: string
  pn_state :: alert_status
  pn_context_key :: string
  pn_fired_at :: instant
  pn_resolved_at :: "instant option"
  pn_details :: details

record notification_json =
  \<comment> \<open>the JSON column: datetimes as ISO text\<close>
  nj_rule_id :: nat
  nj_rule_name :: string
  nj_rule_type :: string
  nj_level :: string
  nj_state :: alert_status
  nj_context_key :: string
  nj_fired_at :: string
  nj_resolved_at :: "string option"
  nj_details :: details
  nj_snapshot_lookback_hours :: int

record outbox_row =
  ob_history_id :: nat
  ob_subject :: string
  ob_body :: string
  ob_from_address :: string
  ob_to_address :: string
  ob_message_id :: string
  ob_notification :: notification_json
  ob_created_at :: instant
  ob_expires_at :: instant
  ob_next_attempt_at :: instant

record snapshot_row =
  sn_from_time :: instant
  sn_to_time :: instant
  sn_timestamp :: instant
  sn_trigger_id :: string
  sn_rule_name :: string
  sn_context_key :: string
  sn_details :: details

record alert_db =
  alert_rules :: "alert_rule list"
  alert_states :: "alert_state list"
  alert_history :: "alert_history list"
  outbox :: "outbox_row list"
  snapshots :: "snapshot_row list"
  history_seq :: nat

record alert_settings =
  mock_mode :: bool
  smtp_host :: "string option"
  alert_email_from :: string
  alert_email_to :: "string option"
  delivery_batch_size :: nat
  retry_initial_seconds :: nat
  retry_max_seconds :: nat
  retry_ttl_seconds :: nat
  snapshot_lookback_hours :: int
  event_eval_lookback_hours :: int
  metric_staleness_seconds :: int

definition alert_settings_ok :: "alert_settings \<Rightarrow> bool" where
  \<comment> \<open>the field bounds and \<open>validate_alert_retry_intervals\<close>\<close>
  "alert_settings_ok s =
     (1 \<le> delivery_batch_size s \<and> delivery_batch_size s \<le> 1000 \<and> 1 \<le> retry_initial_seconds s
      \<and> retry_initial_seconds s \<le> retry_max_seconds s \<and> retry_max_seconds s \<le> retry_ttl_seconds s)"

subsection \<open>Snapshots of the incident timeline (services/incident\_timeline\_snapshot.py)\<close>

definition is_slug_char :: "char \<Rightarrow> bool" where
  "is_slug_char c = ((CHR ''a'' \<le> c \<and> c \<le> CHR ''z'') \<or> (CHR ''0'' \<le> c \<and> c \<le> CHR ''9''))"

fun sub_runs :: "bool \<Rightarrow> string \<Rightarrow> string" where
  \<comment> \<open>\<open>re.sub("[^a-z0-9]+", "_", s)\<close>; the flag: the previous character was replaced\<close>
  "sub_runs replaced [] = []"
| "sub_runs replaced (c # s) =
     (if is_slug_char c then c # sub_runs False s
      else if replaced then sub_runs True s else CHR ''_'' # sub_runs True s)"

definition slug_alert_context_key :: "string \<Rightarrow> string" where
  "slug_alert_context_key k =
     (let slug = strip_chars ''_'' (sub_runs False (py_lower k)) in if slug = '''' then ''unknown'' else slug)"

definition format_alert_rule_trigger_id :: "nat \<Rightarrow> string \<Rightarrow> string" where
  "format_alert_rule_trigger_id rid key = ''alert_rule_'' @ nat_str rid @ ''_'' @ slug_alert_context_key key"

definition TRIGGER_ID_LENGTH :: nat where "TRIGGER_ID_LENGTH = 128"

definition persist_alert_rule_firing_snapshot ::
  "pending \<Rightarrow> instant \<Rightarrow> int \<Rightarrow> snapshot_row list \<Rightarrow> unit + snapshot_row list" where
  \<comment> \<open>\<open>Inl\<close>: the span is empty, or the trigger id exceeds its column\<close>
  "persist_alert_rule_firing_snapshot p to_time lookback_hours rows =
     (if pn_state p \<noteq> Firing then Inr rows
      else let from_time = pn_fired_at p - hours lookback_hours;
               trigger = format_alert_rule_trigger_id (pn_rule_id p) (pn_context_key p)
        in if to_time \<le> from_time then Inl ()
           else if \<exists>r\<in>set rows. sn_from_time r = from_time \<and> sn_to_time r = to_time
                     \<and> sn_timestamp r = pn_fired_at p \<and> sn_trigger_id r = trigger
           then Inr rows
           else if TRIGGER_ID_LENGTH < length trigger then Inl ()
           else Inr (rows @ [\<lparr>sn_from_time = from_time, sn_to_time = to_time, sn_timestamp = pn_fired_at p,
                  sn_trigger_id = trigger, sn_rule_name = pn_rule_name p,
                  sn_context_key = pn_context_key p, sn_details = pn_details p\<rparr>]))"

definition save_snapshot :: "pending \<Rightarrow> int \<Rightarrow> instant \<Rightarrow> alert_db \<Rightarrow> alert_db" where
  \<comment> \<open>a failure is logged and its savepoint rolled back\<close>
  "save_snapshot p lookback_hours to_time db =
     (if pn_state p \<noteq> Firing then db
      else case persist_alert_rule_firing_snapshot p to_time lookback_hours (snapshots db) of
          Inl _ \<Rightarrow> db | Inr rows \<Rightarrow> db\<lparr>snapshots := rows\<rparr>)"

subsection \<open>Enqueueing, in the transaction of the state change\<close>

definition is_line_break :: "char \<Rightarrow> bool" where
  "is_line_break c = (code c \<in> {10, 11, 12, 13, 28, 29, 30, 133})"

fun header_ok :: "string \<Rightarrow> bool" where
  \<comment> \<open>\<open>EmailMessage\<close> refuses a value with more than one line\<close>
  "header_ok [] = True"
| "header_ok (c # s) =
     (if is_line_break c then s = [] \<or> (code c = 13 \<and> map code s = [10]) else header_ok s)"

definition notification_of :: "pending \<Rightarrow> int \<Rightarrow> notification_json" where
  "notification_of p lookback_hours =
     \<lparr>nj_rule_id = pn_rule_id p, nj_rule_name = pn_rule_name p, nj_rule_type = pn_rule_type p,
      nj_level = pn_level p, nj_state = pn_state p, nj_context_key = pn_context_key p,
      nj_fired_at = isoformat (utc (pn_fired_at p)),
      nj_resolved_at = map_option (\<lambda>t. isoformat (utc t)) (pn_resolved_at p),
      nj_details = pn_details p, nj_snapshot_lookback_hours = lookback_hours\<rparr>"

definition pending_from_outbox :: "notification_json \<Rightarrow> pending option" where
  \<comment> \<open>\<open>None\<close>: a text that is no datetime; a \<open>resolved_at\<close> that is absent or empty reads as none\<close>
  "pending_from_outbox j =
     (case fromisoformat (nj_fired_at j) of None \<Rightarrow> None
      | Some fired \<Rightarrow>
          let p = (\<lambda>resolved. \<lparr>pn_rule_id = nj_rule_id j, pn_rule_name = nj_rule_name j, pn_rule_type = nj_rule_type j,
                pn_level = nj_level j, pn_state = nj_state j, pn_context_key = nj_context_key j,
                pn_fired_at = instant_of fired, pn_resolved_at = resolved, pn_details = nj_details j\<rparr>)
          in case nj_resolved_at j of None \<Rightarrow> Some (p None)
             | Some t \<Rightarrow> if t = '''' then Some (p None)
                        else map_option (\<lambda>r. p (Some (instant_of r))) (fromisoformat t))"

definition history_of :: "alert_settings \<Rightarrow> pending \<Rightarrow> nat \<Rightarrow> instant \<Rightarrow> alert_history" where
  "history_of s p hid now =
     \<lparr>hi_id = hid, hi_rule_id = pn_rule_id p, hi_level = pn_level p, hi_state = pn_state p,
      hi_context_key = pn_context_key p, hi_notified_at = now,
      hi_channel = (if mock_mode s then ''mock'' else ''email''), hi_success = None, hi_error_message = None,
      hi_status = Pending, hi_attempt_count = Some 0, hi_last_attempt_at = None, hi_next_attempt_at = Some now\<rparr>"

definition unset :: "string option \<Rightarrow> bool" where
  "unset v = (v = None \<or> v = Some '''')"

record delivery_env =
  \<comment> \<open>what is not in the repository: rendering (\<open>Inl\<close> is the text of the exception), message ids, SMTP
    (\<open>Some\<close> is the text of the exception)\<close>
  render :: "pending \<Rightarrow> string + string \<times> string"
  make_msgid :: "nat \<Rightarrow> string"
  smtp_send :: "outbox_row \<Rightarrow> string option"

definition enqueue_notification :: "delivery_env \<Rightarrow> alert_settings \<Rightarrow> instant \<Rightarrow> pending \<Rightarrow> alert_db \<Rightarrow> alert_db" where
  "enqueue_notification E s now p db =
     (let hid = history_seq db; h = history_of s p hid now; to_address = alert_email_to s;
          add = (\<lambda>h. db\<lparr>alert_history := alert_history db @ [h], history_seq := Suc hid\<rparr>)
      in if \<not> mock_mode s \<and> (unset (smtp_host s) \<or> unset to_address)
         then save_snapshot p (snapshot_lookback_hours s) now
                (add (h\<lparr>hi_channel := ''none'', hi_status := Unsent, hi_next_attempt_at := None,
                   hi_error_message := Some (''smtp not configured: '' @
                     (if unset (smtp_host s) then ''SMTP_HOST'' else ''ALERT_EMAIL_TO'') @ '' is not set'')\<rparr>))
         else let to = (case to_address of Some a \<Rightarrow> if a = '''' then ''(unset)'' else a | None \<Rightarrow> ''(unset)'');
                  rendered = and_then (render E p) (\<lambda>(title, content).
                    if header_ok title \<and> header_ok (alert_email_from s) \<and> header_ok to then Inr (title, content)
                    else Inl ''Header values may not contain linefeed or carriage return characters'')
           in case rendered of
                Inl exc \<Rightarrow> add (h\<lparr>hi_success := Some False, hi_status := GivenUp, hi_next_attempt_at := None,
                   hi_error_message := Some (''notification rendering failed: '' @ exc)\<rparr>)
              | Inr (title, content) \<Rightarrow>
                  (add h)\<lparr>outbox := outbox db @ [\<lparr>ob_history_id = hid, ob_subject = title, ob_body = content,
                     ob_from_address = alert_email_from s, ob_to_address = to, ob_message_id = make_msgid E hid,
                     ob_notification = notification_of p (snapshot_lookback_hours s), ob_created_at = now,
                     ob_expires_at = now + seconds (int (retry_ttl_seconds s)), ob_next_attempt_at = now\<rparr>]\<rparr>)"

subsection \<open>Delivery\<close>

fun bit_length :: "nat \<Rightarrow> nat" where
  "bit_length n = (if n = 0 then 0 else Suc (bit_length (n div 2)))"

declare bit_length.simps [simp del]

definition retry_delay :: "alert_settings \<Rightarrow> nat \<Rightarrow> nat" where
  \<comment> \<open>attempts count from 1\<close>
  "retry_delay s attempt =
     min (retry_initial_seconds s * 2 ^ min (attempt - 1) (bit_length (retry_max_seconds s))) (retry_max_seconds s)"

record delivery_outcome =
  oc_channel :: string
  oc_success :: "bool option"
  oc_error_message :: "string option"

definition email_notify :: "delivery_env \<Rightarrow> alert_settings \<Rightarrow> outbox_row \<Rightarrow> string + delivery_outcome" where
  "email_notify E s row =
     (let skip = (\<lambda>what. Inr \<lparr>oc_channel = ''none'', oc_success = None,
            oc_error_message = Some (''smtp not configured: '' @ what @ '' is not set'')\<rparr>)
      in if unset (smtp_host s) then skip ''SMTP_HOST''
         else if unset (alert_email_to s) then skip ''ALERT_EMAIL_TO''
         else case smtp_send E row of
             None \<Rightarrow> Inr \<lparr>oc_channel = ''email'', oc_success = Some True, oc_error_message = None\<rparr>
           | Some exc \<Rightarrow> Inl exc)"

definition logging_notify :: "outbox_row \<Rightarrow> string + delivery_outcome" where
  "logging_notify row = Inr \<lparr>oc_channel = ''mock'', oc_success = Some True, oc_error_message = None\<rparr>"

definition send_outcome :: "delivery_env \<Rightarrow> alert_settings \<Rightarrow> bool \<Rightarrow> outbox_row \<Rightarrow> delivery_outcome" where
  "send_outcome E s is_mock row =
     (if mock_mode s \<and> \<not> is_mock
      then \<lparr>oc_channel = ''none'', oc_success = None,
            oc_error_message = Some ''mock mode enabled; real email skipped''\<rparr>
      else case (if is_mock \<or> mock_mode s then logging_notify row else email_notify E s row) of
          Inr oc \<Rightarrow> oc
        | Inl exc \<Rightarrow> \<lparr>oc_channel = ''email'', oc_success = Some False, oc_error_message = Some exc\<rparr>)"

definition find_outbox :: "alert_db \<Rightarrow> nat \<Rightarrow> outbox_row option" where
  "find_outbox db hid = find (\<lambda>r. ob_history_id r = hid) (outbox db)"

definition find_history :: "alert_db \<Rightarrow> nat \<Rightarrow> alert_history option" where
  "find_history db hid = find (\<lambda>h. hi_id h = hid) (alert_history db)"

definition set_history :: "nat \<Rightarrow> (alert_history \<Rightarrow> alert_history) \<Rightarrow> alert_db \<Rightarrow> alert_db" where
  "set_history hid f db = db\<lparr>alert_history := map (\<lambda>h. if hi_id h = hid then f h else h) (alert_history db)\<rparr>"

definition set_outbox :: "nat \<Rightarrow> (outbox_row \<Rightarrow> outbox_row) \<Rightarrow> alert_db \<Rightarrow> alert_db" where
  "set_outbox hid f db = db\<lparr>outbox := map (\<lambda>r. if ob_history_id r = hid then f r else r) (outbox db)\<rparr>"

definition drop_outbox :: "nat \<Rightarrow> alert_db \<Rightarrow> alert_db" where
  "drop_outbox hid db = db\<lparr>outbox := filter (\<lambda>r. ob_history_id r \<noteq> hid) (outbox db)\<rparr>"

datatype claim = NothingToDo | Expired | Attempt outbox_row nat bool
  \<comment> \<open>the row, the number of the attempt and whether the intent was made in mock mode\<close>

definition claim_delivery :: "alert_settings \<Rightarrow> instant \<Rightarrow> nat \<Rightarrow> alert_db \<Rightarrow> alert_db \<times> claim" where
  \<comment> \<open>the first transaction of \<open>_deliver_one\<close>\<close>
  "claim_delivery s now hid db =
     (case (find_outbox db hid, find_history db hid) of
        (Some row, Some h) \<Rightarrow>
          if ob_expires_at row \<le> now
          then (drop_outbox hid (set_history hid (\<lambda>h. h\<lparr>hi_success := Some False, hi_status := GivenUp,
                  hi_error_message := Some (''retry deadline exceeded: '' @ (case hi_error_message h of
                      None \<Rightarrow> ''delivery not completed'' | Some m \<Rightarrow> if m = '''' then ''delivery not completed'' else m)),
                  hi_next_attempt_at := None\<rparr>) db), Expired)
          else if now < ob_next_attempt_at row then (db, NothingToDo)
          else let attempt = (case hi_attempt_count h of None \<Rightarrow> 0 | Some n \<Rightarrow> n) + 1;
                   next_at = min (now + seconds (int (retry_delay s attempt))) (ob_expires_at row)
            in (set_outbox hid (\<lambda>r. r\<lparr>ob_next_attempt_at := next_at\<rparr>)
                  (set_history hid (\<lambda>h. h\<lparr>hi_attempt_count := Some attempt, hi_last_attempt_at := Some now,
                    hi_notified_at := now, hi_next_attempt_at := Some next_at\<rparr>) db),
                Attempt (row\<lparr>ob_next_attempt_at := next_at\<rparr>) attempt (hi_channel h = ''mock''))
      | _ \<Rightarrow> (db, NothingToDo))"

definition record_outcome ::
  "alert_settings \<Rightarrow> instant \<Rightarrow> nat \<Rightarrow> nat \<Rightarrow> delivery_outcome \<Rightarrow> alert_db \<Rightarrow> alert_db \<times> delivery_status option" where
  \<comment> \<open>the last transaction of \<open>_deliver_one\<close>\<close>
  "record_outcome s finished hid attempt oc db =
     (case (find_outbox db hid, find_history db hid) of
        (Some row, Some _) \<Rightarrow>
          (let status = (case oc_success oc of Some True \<Rightarrow> Succeeded | None \<Rightarrow> Unsent
                 | Some False \<Rightarrow> if ob_expires_at row \<le> finished then GivenUp else Retrying);
               next_at = min (finished + seconds (int (retry_delay s attempt))) (ob_expires_at row);
               text = (if status = GivenUp
                       then Some (''retry deadline exceeded: '' @ (case oc_error_message oc of None \<Rightarrow> ''None'' | Some m \<Rightarrow> m))
                       else oc_error_message oc);
               db = set_history hid (\<lambda>h. h\<lparr>hi_channel := oc_channel oc, hi_success := oc_success oc,
                      hi_error_message := text, hi_status := status,
                      hi_next_attempt_at := (if status = Retrying then Some next_at else None)\<rparr>) db
           in (if status = Retrying then set_outbox hid (\<lambda>r. r\<lparr>ob_next_attempt_at := next_at\<rparr>) db
               else drop_outbox hid db, Some status))
      | _ \<Rightarrow> (db, None))"

definition deliver_one ::
  "delivery_env \<Rightarrow> alert_settings \<Rightarrow> (alert_db \<Rightarrow> alert_db) \<Rightarrow> (alert_db \<Rightarrow> alert_db) \<Rightarrow> instant \<Rightarrow> instant \<Rightarrow> nat \<Rightarrow>
   alert_db \<Rightarrow> alert_db \<times> delivery_status option" where
  \<comment> \<open>\<open>env1\<close> and \<open>env2\<close> are what other requests commit before the recheck and while the message is sent;
    a JSON column that cannot be read back ends the delivery\<close>
  "deliver_one E s env1 env2 now finished hid db =
     (case claim_delivery s now hid db of
        (db, NothingToDo) \<Rightarrow> (db, None)
      | (db, Expired) \<Rightarrow> (db, Some GivenUp)
      | (db, Attempt row attempt is_mock) \<Rightarrow>
          (case pending_from_outbox (ob_notification row) of None \<Rightarrow> (db, None)
           | Some p \<Rightarrow>
               (let db = (if attempt = 1
                          then save_snapshot p (nj_snapshot_lookback_hours (ob_notification row)) (ob_created_at row) db
                          else db);
                    db = env1 db
                in if find_outbox db hid = None then (db, None)
                   else record_outcome s finished hid attempt (send_outcome E s is_mock row) (env2 db))))"

definition due_ids :: "alert_settings \<Rightarrow> instant \<Rightarrow> alert_db \<Rightarrow> nat list" where
  "due_ids s now db =
     take (delivery_batch_size s) (map ob_history_id
       (sort_key (\<lambda>r. ob_created_at r) (sort_key ob_history_id
         (filter (\<lambda>r. ob_next_attempt_at r \<le> now \<or> ob_expires_at r \<le> now) (outbox db)))))"

record delivery_summary =
  ds_succeeded :: nat
  ds_retrying :: nat
  ds_failed :: nat
  ds_skipped :: nat

definition count_result :: "delivery_status option \<Rightarrow> delivery_summary \<Rightarrow> delivery_summary" where
  "count_result r d =
     (case r of Some Succeeded \<Rightarrow> d\<lparr>ds_succeeded := ds_succeeded d + 1\<rparr>
      | Some Retrying \<Rightarrow> d\<lparr>ds_retrying := ds_retrying d + 1\<rparr>
      | Some GivenUp \<Rightarrow> d\<lparr>ds_failed := ds_failed d + 1\<rparr>
      | Some Unsent \<Rightarrow> d\<lparr>ds_skipped := ds_skipped d + 1\<rparr> | _ \<Rightarrow> d)"

fun deliver_batch ::
  "delivery_env \<Rightarrow> alert_settings \<Rightarrow> (nat \<Rightarrow> alert_db \<Rightarrow> alert_db) \<Rightarrow> (nat \<Rightarrow> alert_db \<Rightarrow> alert_db) \<Rightarrow> (nat \<Rightarrow> instant \<times> instant) \<Rightarrow>
   nat list \<Rightarrow> alert_db \<Rightarrow> delivery_summary \<Rightarrow> alert_db \<times> delivery_summary" where
  \<comment> \<open>one intent after the other; the clock gives the start and the end of each\<close>
  "deliver_batch E s env1 env2 clock [] db d = (db, d)"
| "deliver_batch E s env1 env2 clock (hid # hids) db d =
     (case deliver_one E s (env1 hid) (env2 hid) (fst (clock hid)) (snd (clock hid)) hid db of
        (db, r) \<Rightarrow> deliver_batch E s env1 env2 clock hids db (count_result r d))"

definition deliver_notifications ::
  "delivery_env \<Rightarrow> alert_settings \<Rightarrow> (nat \<Rightarrow> alert_db \<Rightarrow> alert_db) \<Rightarrow> (nat \<Rightarrow> alert_db \<Rightarrow> alert_db) \<Rightarrow> (nat \<Rightarrow> instant \<times> instant) \<Rightarrow>
   bool \<Rightarrow> instant \<Rightarrow> alert_db \<Rightarrow> alert_db \<times> delivery_summary" where
  \<comment> \<open>\<open>locked\<close>: another dispatch of the process is running\<close>
  "deliver_notifications E s env1 env2 clock locked now db =
     (let empty = \<lparr>ds_succeeded = 0, ds_retrying = 0, ds_failed = 0, ds_skipped = 0\<rparr>
      in if locked then (db, empty)
         else deliver_batch E s env1 env2 clock (due_ids s now db) db empty)"

subsection \<open>The retry delay\<close>

lemma bit_length_bound: "n < 2 ^ bit_length n"
  by (induction n rule: bit_length.induct) (subst bit_length.simps, auto)

lemma retry_delay_bounds:
  assumes "alert_settings_ok s"
  shows "retry_initial_seconds s \<le> retry_delay s attempt" "retry_delay s attempt \<le> retry_max_seconds s"
  using assms by (auto simp: retry_delay_def alert_settings_ok_def)

lemma retry_delay_mono:
  assumes "a \<le> b" shows "retry_delay s a \<le> retry_delay s b"
proof -
  have "min (a - 1) k \<le> min (b - 1) k" for k using assms by auto
  then have "(2::nat) ^ min (a - 1) k \<le> 2 ^ min (b - 1) k" for k by (rule power_increasing) simp
  then show ?thesis unfolding retry_delay_def by (intro min.mono mult_le_mono) simp_all
qed

lemma retry_delay_exact:
  assumes "alert_settings_ok s"
  shows "retry_delay s attempt = min (retry_initial_seconds s * 2 ^ (attempt - 1)) (retry_max_seconds s)"
proof (cases "attempt - 1 \<le> bit_length (retry_max_seconds s)")
  case True
  then show ?thesis by (simp add: retry_delay_def min_absorb1)
next
  case False
  have big: "retry_max_seconds s \<le> retry_initial_seconds s * 2 ^ k" if "bit_length (retry_max_seconds s) \<le> k" for k
  proof -
    have "retry_max_seconds s < 2 ^ bit_length (retry_max_seconds s)" by (rule bit_length_bound)
    also have "\<dots> \<le> 2 ^ k" using that by (rule power_increasing) simp
    also have "\<dots> \<le> retry_initial_seconds s * 2 ^ k" using assms by (simp add: alert_settings_ok_def)
    finally show ?thesis by simp
  qed
  from False show ?thesis unfolding retry_delay_def
    by (simp add: min_absorb2 big)
qed

subsection \<open>History and outbox agree\<close>

definition is_open :: "alert_history \<Rightarrow> bool" where
  "is_open h = (hi_status h \<in> {Pending, Retrying})"

definition success_of :: "delivery_status \<Rightarrow> bool option" where
  "success_of st = (case st of Succeeded \<Rightarrow> Some True | Retrying \<Rightarrow> Some False | GivenUp \<Rightarrow> Some False | _ \<Rightarrow> None)"

definition agree :: "alert_history option \<Rightarrow> outbox_row option \<Rightarrow> bool" where
  \<comment> \<open>an intent is queued exactly while its history is open, with the same next attempt\<close>
  "agree h r =
     (case (h, r) of
        (None, None) \<Rightarrow> True
      | (None, Some _) \<Rightarrow> False
      | (Some h, None) \<Rightarrow> \<not> is_open h \<and> hi_next_attempt_at h = None \<and> hi_success h = success_of (hi_status h)
      | (Some h, Some r) \<Rightarrow> is_open h \<and> hi_next_attempt_at h = Some (ob_next_attempt_at r)
          \<and> ob_next_attempt_at r \<le> ob_expires_at r \<and> hi_success h = success_of (hi_status h))"

definition outbox_ok :: "alert_db \<Rightarrow> bool" where
  "outbox_ok db =
     (distinct (map hi_id (alert_history db)) \<and> (\<forall>i\<in>hi_id ` set (alert_history db). i < history_seq db)
      \<and> distinct (map ob_history_id (outbox db)) \<and> (\<forall>hid. agree (find_history db hid) (find_outbox db hid)))"

lemma find_history_set [table_simps]:
  "(\<And>h. hi_id (f h) = hi_id h) \<Longrightarrow>
   find_history (set_history hid f db) k = (if k = hid then map_option f (find_history db k) else find_history db k)"
proof -
  assume f: "\<And>h. hi_id (f h) = hi_id h"
  have "find (\<lambda>h. hi_id h = k) (map (\<lambda>h. if hi_id h = hid then f h else h) hs) =
      map_option (\<lambda>h. if hi_id h = hid then f h else h) (find (\<lambda>h. hi_id h = k) hs)" for hs
    by (rule find_map_if) (simp add: f)
  then show ?thesis unfolding find_history_def set_history_def
    by (auto simp: map_option_case split: option.splits dest!: find_Some_iff_in)
qed

lemma find_outbox_set [table_simps]:
  "(\<And>r. ob_history_id (f r) = ob_history_id r) \<Longrightarrow>
   find_outbox (set_outbox hid f db) k = (if k = hid then map_option f (find_outbox db k) else find_outbox db k)"
proof -
  assume f: "\<And>r. ob_history_id (f r) = ob_history_id r"
  have "find (\<lambda>r. ob_history_id r = k) (map (\<lambda>r. if ob_history_id r = hid then f r else r) rs) =
      map_option (\<lambda>r. if ob_history_id r = hid then f r else r) (find (\<lambda>r. ob_history_id r = k) rs)" for rs
    by (rule find_map_if) (simp add: f)
  then show ?thesis unfolding find_outbox_def set_outbox_def
    by (auto simp: map_option_case split: option.splits dest!: find_Some_iff_in)
qed

lemma find_outbox_drop [table_simps]: "find_outbox (drop_outbox hid db) k = (if k = hid then None else find_outbox db k)"
  by (auto simp: find_outbox_def drop_outbox_def find_None_iff intro!: find_filter_other)

lemma history_seq_set: "history_seq (set_history hid f db) = history_seq db"
  by (simp add: set_history_def)

lemma find_other_table [table_simps]:
  "find_outbox (set_history hid f db) k = find_outbox db k"
  "find_history (set_outbox hid g db) k = find_history db k"
  "find_history (drop_outbox hid db) k = find_history db k"
  "find_outbox (db\<lparr>snapshots := sn\<rparr>) k = find_outbox db k"
  "find_history (db\<lparr>snapshots := sn\<rparr>) k = find_history db k"
  by (simp_all add: find_outbox_def find_history_def set_history_def set_outbox_def drop_outbox_def)

lemma outbox_okD:
  assumes "outbox_ok db"
  shows "agree (find_history db hid) (find_outbox db hid)"
  using assms by (simp add: outbox_ok_def)

lemma outbox_ok_snapshots [simp]: "outbox_ok (db\<lparr>snapshots := sn\<rparr>) = outbox_ok db"
  by (simp add: outbox_ok_def table_simps)

lemma outbox_ok_save_snapshot [simp]: "outbox_ok (save_snapshot p l t db) = outbox_ok db"
  by (simp add: save_snapshot_def split: sum.splits)

lemma outbox_ok_change:
  \<comment> \<open>how every delivery transaction changes one intent\<close>
  assumes "outbox_ok db" "\<And>h. hi_id (f h) = hi_id h"
    and "db' = drop_outbox hid (set_history hid f db) \<and> agree (map_option f (find_history db hid)) None
      \<or> (\<exists>g. db' = set_outbox hid g (set_history hid f db) \<and> (\<forall>r. ob_history_id (g r) = ob_history_id r)
            \<and> agree (map_option f (find_history db hid)) (map_option g (find_outbox db hid)))"
  shows "outbox_ok db'"
proof -
  have ids: "map hi_id (map (\<lambda>h. if hi_id h = hid then f h else h) hs) = map hi_id hs" for hs
    by (simp add: assms(2))
  have same: "map hi_id (alert_history (set_history hid f db)) = map hi_id (alert_history db)"
    by (simp add: set_history_def ids del: map_map)
  have "hi_id ` set (alert_history (set_history hid f db)) = hi_id ` set (alert_history db)"
    using same by (metis set_map)
  then have keep: "distinct (map hi_id (alert_history (set_history hid f db)))"
    "\<forall>i\<in>hi_id ` set (alert_history (set_history hid f db)). i < history_seq (set_history hid f db)"
    using assms(1) same unfolding outbox_ok_def history_seq_set by simp_all
  show ?thesis using assms(3)
  proof (elim disjE exE conjE)
    assume "db' = drop_outbox hid (set_history hid f db)" "agree (map_option f (find_history db hid)) None"
    then show ?thesis using keep assms(1) unfolding outbox_ok_def
      by (auto simp: table_simps assms(2)) (auto simp: drop_outbox_def set_history_def distinct_map_filterI)
  next
    fix g assume g: "db' = set_outbox hid g (set_history hid f db)" "\<forall>r. ob_history_id (g r) = ob_history_id r"
      "agree (map_option f (find_history db hid)) (map_option g (find_outbox db hid))"
    have "map ob_history_id (outbox db') = map ob_history_id (outbox db)"
      using g(2) by (simp add: g(1) set_outbox_def set_history_def)
    then have "distinct (map ob_history_id (outbox db'))"
      using assms(1) by (simp add: outbox_ok_def del: map_map)
    moreover have "agree (find_history db' k) (find_outbox db' k)" for k
      using g(2,3) outbox_okD [OF assms(1), of k] by (simp add: g(1) table_simps assms(2))
    ultimately show ?thesis using keep unfolding outbox_ok_def g(1) by (simp add: set_outbox_def)
  qed
qed

lemma outbox_ok_set:
  assumes "outbox_ok db" "\<And>h. hi_id (f h) = hi_id h" "\<And>r. ob_history_id (g r) = ob_history_id r"
    and "agree (map_option f (find_history db hid)) (map_option g (find_outbox db hid))"
  shows "outbox_ok (set_outbox hid g (set_history hid f db))"
  using assms(3,4) by (intro outbox_ok_change [OF assms(1,2)] disjI2 exI [of _ g]) simp_all

lemma outbox_ok_drop:
  assumes "outbox_ok db" "\<And>h. hi_id (f h) = hi_id h" "agree (map_option f (find_history db hid)) None"
  shows "outbox_ok (drop_outbox hid (set_history hid f db))"
  using assms(3) by (intro outbox_ok_change [OF assms(1,2)] disjI1) simp_all

definition forget_history :: "(alert_history \<Rightarrow> bool) \<Rightarrow> alert_db \<Rightarrow> alert_db" where
  \<comment> \<open>\<open>DELETE\<close> of history rows: the foreign key of the outbox cascades\<close>
  "forget_history p db =
     (let gone = hi_id ` {h \<in> set (alert_history db). p h}
      in db\<lparr>alert_history := filter (\<lambda>h. \<not> p h) (alert_history db),
            outbox := filter (\<lambda>r. ob_history_id r \<notin> gone) (outbox db)\<rparr>)"

lemma fresh_history:
  assumes "outbox_ok db"
  shows "find_history db (history_seq db) = None" "find_outbox db (history_seq db) = None"
proof -
  show h: "find_history db (history_seq db) = None"
    using assms by (fastforce simp: outbox_ok_def find_history_def find_None_iff)
  show "find_outbox db (history_seq db) = None"
    using outbox_okD [OF assms, of "history_seq db"] unfolding h by (simp add: agree_def split: option.splits)
qed

lemma outbox_ids_old:
  assumes "outbox_ok db" "r \<in> set (outbox db)" shows "ob_history_id r < history_seq db"
proof -
  have "find_outbox db (ob_history_id r) \<noteq> None" using assms(2) by (auto simp: find_outbox_def find_None_iff)
  then obtain h where "find_history db (ob_history_id r) = Some h"
    using outbox_okD [OF assms(1), of "ob_history_id r"] by (auto simp: agree_def split: option.splits)
  then show ?thesis using assms(1) by (auto simp: outbox_ok_def find_history_def dest!: find_Some_iff_in)
qed

lemma outbox_ok_add:
  assumes "outbox_ok db" "hi_id h = history_seq db"
    and "new = [] \<and> agree (Some h) None \<or> (\<exists>r. new = [r] \<and> ob_history_id r = hi_id h \<and> agree (Some h) (Some r))"
  shows "outbox_ok (db\<lparr>alert_history := alert_history db @ [h], history_seq := Suc (history_seq db), outbox := outbox db @ new\<rparr>)"
proof -
  note fresh = fresh_history [OF assms(1)]
  have old: "ob_history_id r \<noteq> history_seq db" if "r \<in> set (outbox db)" for r
    using outbox_ids_old [OF assms(1) that] by simp
  have "agree (find (\<lambda>h. hi_id h = k) (alert_history db @ [h])) (find (\<lambda>r. ob_history_id r = k) (outbox db @ new))" for k
    using outbox_okD [OF assms(1), of k] fresh assms(2,3)
    by (cases "k = history_seq db") (auto simp: find_append find_history_def find_outbox_def split: option.splits)
  then show ?thesis using assms old
    by (fastforce simp: outbox_ok_def find_history_def find_outbox_def less_Suc_eq)
qed

definition history_for :: "pending \<Rightarrow> nat \<Rightarrow> instant \<Rightarrow> alert_history \<Rightarrow> bool" where
  \<comment> \<open>a new history row tells what the notification is about\<close>
  "history_for p hid now h =
     (hi_id h = hid \<and> hi_rule_id h = pn_rule_id p \<and> hi_level h = pn_level p \<and> hi_state h = pn_state p
      \<and> hi_context_key h = pn_context_key p \<and> hi_notified_at h = now \<and> hi_attempt_count h = Some 0
      \<and> hi_status h \<in> {Pending, Unsent, GivenUp})"

definition intent_for :: "alert_settings \<Rightarrow> pending \<Rightarrow> nat \<Rightarrow> instant \<Rightarrow> outbox_row \<Rightarrow> bool" where
  "intent_for s p hid now r =
     (ob_history_id r = hid \<and> ob_created_at r = now \<and> ob_next_attempt_at r = now
      \<and> ob_expires_at r = now + seconds (int (retry_ttl_seconds s))
      \<and> ob_notification r = notification_of p (snapshot_lookback_hours s))"

lemma save_snapshot_shape: "\<exists>sn. save_snapshot p l t db = db\<lparr>snapshots := sn\<rparr>"
  by (cases db) (auto simp: save_snapshot_def split: sum.splits)

lemma enqueue_shape:
  obtains h new sn where "enqueue_notification E s now p db = db\<lparr>alert_history := alert_history db @ [h],
      history_seq := Suc (history_seq db), outbox := outbox db @ new, snapshots := sn\<rparr>"
    "history_for p (history_seq db) now h"
    "new = [] \<and> hi_status h \<noteq> Pending \<or> (\<exists>r. new = [r] \<and> intent_for s p (history_seq db) now r \<and> hi_status h = Pending)"
proof (cases "\<not> mock_mode s \<and> (unset (smtp_host s) \<or> unset (alert_email_to s))")
  case True
  then obtain h where h: "enqueue_notification E s now p db = save_snapshot p (snapshot_lookback_hours s) now
      (db\<lparr>alert_history := alert_history db @ [h], history_seq := Suc (history_seq db)\<rparr>)"
    "history_for p (history_seq db) now h" "hi_status h = Unsent"
    by (auto simp: enqueue_notification_def Let_def history_for_def history_of_def)
  obtain sn where "save_snapshot p (snapshot_lookback_hours s) now
      (db\<lparr>alert_history := alert_history db @ [h], history_seq := Suc (history_seq db)\<rparr>) =
      (db\<lparr>alert_history := alert_history db @ [h], history_seq := Suc (history_seq db)\<rparr>)\<lparr>snapshots := sn\<rparr>"
    using save_snapshot_shape by blast
  with h that [where h = h and new = "[]" and sn = sn] show ?thesis by simp
next
  case False
  let ?to = "case alert_email_to s of Some a \<Rightarrow> if a = '''' then ''(unset)'' else a | None \<Rightarrow> ''(unset)''"
  let ?h = "history_of s p (history_seq db) now"
  define rendered where "rendered = and_then (render E p) (\<lambda>(title, content).
     if header_ok title \<and> header_ok (alert_email_from s) \<and> header_ok ?to then Inr (title, content)
     else Inl ''Header values may not contain linefeed or carriage return characters'')"
  show ?thesis
  proof (cases rendered)
    case (Inl exc)
    then show ?thesis using False
      by (intro that [where h = "?h\<lparr>hi_success := Some False, hi_status := GivenUp, hi_next_attempt_at := None,
            hi_error_message := Some (''notification rendering failed: '' @ exc)\<rparr>" and new = "[]" and sn = "snapshots db"])
        (auto simp: enqueue_notification_def Let_def rendered_def [symmetric] history_for_def history_of_def)
  next
    case (Inr tb)
    then obtain title content where "rendered = Inr (title, content)" by (cases tb) auto
    then show ?thesis using False
      by (intro that [where h = "?h" and new = "[\<lparr>ob_history_id = history_seq db, ob_subject = title, ob_body = content,
           ob_from_address = alert_email_from s, ob_to_address = ?to, ob_message_id = make_msgid E (history_seq db),
           ob_notification = notification_of p (snapshot_lookback_hours s), ob_created_at = now,
           ob_expires_at = now + seconds (int (retry_ttl_seconds s)), ob_next_attempt_at = now\<rparr>]" and sn = "snapshots db"])
        (auto simp: enqueue_notification_def Let_def rendered_def [symmetric] history_for_def history_of_def intent_for_def)
  qed
qed

lemma outbox_ok_enqueue: "outbox_ok db \<Longrightarrow> outbox_ok (enqueue_notification E s now p db)"
proof -
  assume ok: "outbox_ok db"
  have id: "outbox_ok (db\<lparr>alert_history := alert_history db @ [h], history_seq := Suc (history_seq db)\<rparr>)"
    if "hi_id h = history_seq db" "agree (Some h) None" for h
    using outbox_ok_add [OF ok, of h "[]"] that by simp
  show ?thesis unfolding enqueue_notification_def Let_def
    by (auto split: sum.splits prod.splits
        intro!: id outbox_ok_add [OF ok, unfolded alert_db.simps, simplified]
        simp: history_of_def agree_def is_open_def success_of_def seconds_def)
qed

lemma find_forget:
  assumes "outbox_ok db"
  shows "find_history (forget_history p db) k = (case find_history db k of None \<Rightarrow> None | Some h \<Rightarrow> if p h then None else Some h)"
    and "find_outbox (forget_history p db) k = (case find_history db k of None \<Rightarrow> find_outbox db k
      | Some h \<Rightarrow> if p h then None else find_outbox db k)"
proof -
  have d: "distinct (map hi_id (alert_history db))" using assms by (simp add: outbox_ok_def)
  show "find_history (forget_history p db) k = (case find_history db k of None \<Rightarrow> None | Some h \<Rightarrow> if p h then None else Some h)"
  proof (cases "find_history db k")
    case None
    then have "find (\<lambda>h. hi_id h = k) (filter (\<lambda>h. \<not> p h) (alert_history db)) = None"
      by (auto simp: find_history_def find_None_iff)
    with None show ?thesis by (simp add: find_history_def forget_history_def Let_def)
  next
    case (Some h)
    then have h: "h \<in> set (alert_history db)" "hi_id h = k" unfolding find_history_def by (auto dest!: find_Some_iff_in)
    have only: "x = h" if "x \<in> set (alert_history db)" "hi_id x = k" for x
      using d h that by (auto simp: distinct_map inj_on_def)
    show ?thesis
    proof (cases "p h")
      case True
      then have "find (\<lambda>h. hi_id h = k) (filter (\<lambda>h. \<not> p h) (alert_history db)) = None"
        using only by (auto simp: find_None_iff)
      with True Some show ?thesis by (simp add: find_history_def forget_history_def Let_def)
    next
      case False
      then have "find (\<lambda>h. hi_id h = k) (filter (\<lambda>h. \<not> p h) (alert_history db)) = find (\<lambda>h. hi_id h = k) (alert_history db)"
        using only by (intro find_filter_other) auto
      then show ?thesis using Some False by (simp add: find_history_def forget_history_def Let_def)
    qed
  qed
  show "find_outbox (forget_history p db) k = (case find_history db k of None \<Rightarrow> find_outbox db k
      | Some h \<Rightarrow> if p h then None else find_outbox db k)"
  proof (cases "\<exists>h\<in>set (alert_history db). p h \<and> hi_id h = k")
    case True
    then obtain h where h: "h \<in> set (alert_history db)" "p h" "hi_id h = k" by auto
    then have "find_history db k = Some h" using find_unique [OF d, of h] by (simp add: find_history_def)
    then show ?thesis using h by (auto simp: find_outbox_def forget_history_def Let_def find_None_iff)
  next
    case False
    then have "find (\<lambda>r. ob_history_id r = k) (filter (\<lambda>r. ob_history_id r \<notin> hi_id ` {h \<in> set (alert_history db). p h}) (outbox db))
        = find (\<lambda>r. ob_history_id r = k) (outbox db)" by (intro find_filter_other) auto
    then show ?thesis using False
      by (auto simp: find_outbox_def find_history_def forget_history_def Let_def split: option.splits dest!: find_Some_iff_in)
  qed
qed

lemma outbox_ok_forget:
  assumes "outbox_ok db" shows "outbox_ok (forget_history p db)"
proof -
  have "agree (find_history (forget_history p db) k) (find_outbox (forget_history p db) k)" for k
    using outbox_okD [OF assms, of k] by (auto simp: find_forget [OF assms] agree_def split: option.splits)
  then show ?thesis using assms
    by (auto simp: outbox_ok_def) (auto simp: forget_history_def Let_def distinct_map_filterI)
qed

end
