(* ===== verification/Delivery.thy ===== *)
theory Delivery
  imports Outbox
begin

section \<open>What the outbox guarantees (services/alerting/notification\_outbox.py)\<close>

text \<open>
  The transactions of the dispatcher, interleaved with new intents, deletions of history rows, crashes
  and restarts. An intent and its history row always agree, an intent is tried a bounded number of
  times, and a success is only recorded for a message that was accepted.
\<close>

subsection \<open>The transactions one by one\<close>

lemma claim_Attempt:
  assumes "claim_delivery s now hid db = (db', Attempt row n m)"
  obtains r h where "find_outbox db hid = Some r" "find_history db hid = Some h"
    "ob_next_attempt_at r \<le> now" "now < ob_expires_at r"
    "n = (case hi_attempt_count h of None \<Rightarrow> 0 | Some k \<Rightarrow> k) + 1"
    "row = r\<lparr>ob_next_attempt_at := min (now + seconds (int (retry_delay s n))) (ob_expires_at r)\<rparr>"
    "m = (hi_channel h = ''mock'')"
    "db' = set_outbox hid (\<lambda>x. x\<lparr>ob_next_attempt_at := ob_next_attempt_at row\<rparr>)
       (set_history hid (\<lambda>h. h\<lparr>hi_attempt_count := Some n, hi_last_attempt_at := Some now,
          hi_notified_at := now, hi_next_attempt_at := Some (ob_next_attempt_at row)\<rparr>) db)"
proof -
  from assms obtain r h where rh: "find_outbox db hid = Some r" "find_history db hid = Some h"
    by (auto simp: claim_delivery_def split: option.splits)
  from assms rh have lt: "\<not> ob_expires_at r \<le> now" "\<not> now < ob_next_attempt_at r"
    by (auto simp: claim_delivery_def Let_def split: if_splits)
  have c: "claim_delivery s now hid db = (let n = (case hi_attempt_count h of None \<Rightarrow> 0 | Some k \<Rightarrow> k) + 1;
      t = min (now + seconds (int (retry_delay s n))) (ob_expires_at r)
    in (set_outbox hid (\<lambda>x. x\<lparr>ob_next_attempt_at := t\<rparr>)
       (set_history hid (\<lambda>h. h\<lparr>hi_attempt_count := Some n, hi_last_attempt_at := Some now,
          hi_notified_at := now, hi_next_attempt_at := Some t\<rparr>) db),
        Attempt (r\<lparr>ob_next_attempt_at := t\<rparr>) n (hi_channel h = ''mock'')))"
    unfolding claim_delivery_def rh using lt by (simp del: Suc_eq_plus1 add_Suc_right add_0_right)
  show ?thesis by (rule that [OF rh]) (use assms lt in \<open>simp_all add: c Let_def\<close>, auto)
qed

lemma claim_other:
  assumes "claim_delivery s now hid db = (db', c)" "\<And>row n m. c \<noteq> Attempt row n m"
  shows "db' = db \<or> (\<exists>f. db' = drop_outbox hid (set_history hid f db) \<and> (\<forall>h. hi_id (f h) = hi_id h)
     \<and> (\<forall>h. hi_status (f h) = GivenUp \<and> hi_next_attempt_at (f h) = None \<and> hi_success (f h) = Some False))"
proof (cases "find_outbox db hid = None \<or> find_history db hid = None")
  case True
  with assms show ?thesis by (auto simp: claim_delivery_def split: option.splits)
next
  case False
  then obtain row h where rh: "find_outbox db hid = Some row" "find_history db hid = Some h" by auto
  show ?thesis
  proof (cases "ob_expires_at row \<le> now")
    case True
    with assms(1) rh have "db' = drop_outbox hid (set_history hid (\<lambda>h. h\<lparr>hi_success := Some False, hi_status := GivenUp,
                  hi_error_message := Some (''retry deadline exceeded: '' @ (case hi_error_message h of
                      None \<Rightarrow> ''delivery not completed'' | Some m \<Rightarrow> if m = '''' then ''delivery not completed'' else m)),
                  hi_next_attempt_at := None\<rparr>) db)"
      by (simp add: claim_delivery_def)
    then show ?thesis by (intro disjI2 exI conjI) (assumption, simp_all)
  next
    case False
    with assms rh show ?thesis by (auto simp: claim_delivery_def Let_def split: if_splits)
  qed
qed

lemma record_outcome_cases:
  assumes "record_outcome s finished hid n oc db = (db', r)"
  obtains (gone) "db' = db" "r = None" "find_outbox db hid = None \<or> find_history db hid = None"
  | (settled) f st where "db' = drop_outbox hid (set_history hid f db)" "r = Some st" "st \<noteq> Retrying"
      "\<And>h. hi_id (f h) = hi_id h" "\<And>h. hi_status (f h) = st" "st \<in> {Succeeded, Unsent, GivenUp}"
      "\<And>h. hi_next_attempt_at (f h) = None \<and> hi_success (f h) = success_of st" "success_of st = oc_success oc"
  | (retry) row h f where "db' = set_outbox hid (\<lambda>x. x\<lparr>ob_next_attempt_at :=
         min (finished + seconds (int (retry_delay s n))) (ob_expires_at row)\<rparr>) (set_history hid f db)"
      "r = Some Retrying" "find_outbox db hid = Some row" "find_history db hid = Some h" "oc_success oc = Some False"
      "finished < ob_expires_at row" "\<And>h. hi_id (f h) = hi_id h \<and> hi_status (f h) = Retrying \<and> hi_success (f h) = Some False
        \<and> hi_next_attempt_at (f h) = Some (min (finished + seconds (int (retry_delay s n))) (ob_expires_at row))
        \<and> hi_attempt_count (f h) = hi_attempt_count h"
proof (cases "find_outbox db hid = None \<or> find_history db hid = None")
  case True
  with assms have "db' = db" "r = None" by (auto simp: record_outcome_def split: option.splits)
  with True that(1) show ?thesis by blast
next
  case False
  then obtain row h where rh: "find_outbox db hid = Some row" "find_history db hid = Some h" by auto
  show ?thesis
  proof (cases "oc_success oc = Some False \<and> finished < ob_expires_at row")
    case True
    then show ?thesis using assms rh
      by (intro that(3) [of row _ h]) (auto simp: record_outcome_def Let_def)
  next
    case False
    then show ?thesis using assms rh
      by (cases "oc_success oc")
        (auto simp: record_outcome_def Let_def success_of_def split: bool.splits if_splits intro!: that(2))
  qed
qed

lemma outbox_ok_claim:
  assumes ok: "outbox_ok db" and c: "claim_delivery s now hid db = (db', c)"
  shows "outbox_ok db'"
proof (cases "\<exists>row n m. c = Attempt row n m")
  case True
  then obtain row n m where "claim_delivery s now hid db = (db', Attempt row n m)" using c by blast
  then obtain r h where rh: "find_outbox db hid = Some r" "find_history db hid = Some h"
    and row: "row = r\<lparr>ob_next_attempt_at := min (now + seconds (int (retry_delay s n))) (ob_expires_at r)\<rparr>"
    and db': "db' = set_outbox hid (\<lambda>x. x\<lparr>ob_next_attempt_at := ob_next_attempt_at row\<rparr>)
       (set_history hid (\<lambda>h. h\<lparr>hi_attempt_count := Some n, hi_last_attempt_at := Some now,
          hi_notified_at := now, hi_next_attempt_at := Some (ob_next_attempt_at row)\<rparr>) db)"
    by (rule claim_Attempt)
  have "agree (Some h) (Some r)" using outbox_okD [OF ok, of hid] rh by simp
  then have "agree (map_option (\<lambda>h. h\<lparr>hi_attempt_count := Some n, hi_last_attempt_at := Some now,
          hi_notified_at := now, hi_next_attempt_at := Some (ob_next_attempt_at row)\<rparr>) (find_history db hid))
      (map_option (\<lambda>x. x\<lparr>ob_next_attempt_at := ob_next_attempt_at row\<rparr>) (find_outbox db hid))"
    by (simp add: rh agree_def is_open_def row)
  then show ?thesis unfolding db' by (intro outbox_ok_set [OF ok]) simp_all
next
  case False
  then have "db' = db \<or> (\<exists>f. db' = drop_outbox hid (set_history hid f db) \<and> (\<forall>h. hi_id (f h) = hi_id h)
     \<and> (\<forall>h. hi_status (f h) = GivenUp \<and> hi_next_attempt_at (f h) = None \<and> hi_success (f h) = Some False))"
    using claim_other [OF c] by blast
  then show ?thesis
  proof (elim disjE exE conjE)
    fix f assume f: "db' = drop_outbox hid (set_history hid f db)" "\<forall>h. hi_id (f h) = hi_id h"
      "\<forall>h. hi_status (f h) = GivenUp \<and> hi_next_attempt_at (f h) = None \<and> hi_success (f h) = Some False"
    then show ?thesis unfolding f(1)
      by (intro outbox_ok_drop [OF ok]) (auto simp: agree_def is_open_def success_of_def split: option.splits)
  qed (simp add: ok)
qed

lemma outbox_ok_record:
  assumes ok: "outbox_ok db" and c: "record_outcome s finished hid n oc db = (db', r)"
  shows "outbox_ok db'"
  using c
proof (cases rule: record_outcome_cases)
  case (settled f st)
  then show ?thesis unfolding settled(1)
    by (intro outbox_ok_drop [OF ok]) (auto simp: agree_def is_open_def split: option.splits)
next
  case (retry row h f)
  then have "agree (map_option f (find_history db hid)) (map_option (\<lambda>x. x\<lparr>ob_next_attempt_at :=
         min (finished + seconds (int (retry_delay s n))) (ob_expires_at row)\<rparr>) (find_outbox db hid))"
    by (simp add: agree_def is_open_def success_of_def)
  with retry(7) show ?thesis unfolding retry(1) by (intro outbox_ok_set [OF ok]) simp_all
qed (simp add: ok)

subsection \<open>Dispatching, interleaved with everything else\<close>

record dispatch =
  dp_db :: alert_db
  dp_flight :: "(nat \<times> nat \<times> instant) option"
  dp_accepted :: "nat list"
  \<comment> \<open>the intent being sent, its attempt and when it was claimed; the intents whose message was accepted\<close>

inductive dispatch_step :: "delivery_env \<Rightarrow> alert_settings \<Rightarrow> dispatch \<Rightarrow> dispatch \<Rightarrow> bool" for E s where
  enqueue: "dispatch_step E s d (d\<lparr>dp_db := enqueue_notification E s now p (dp_db d)\<rparr>)"
| forget: "dispatch_step E s d (d\<lparr>dp_db := forget_history p (dp_db d)\<rparr>)"
| snapshot: "dispatch_step E s d (d\<lparr>dp_db := (dp_db d)\<lparr>snapshots := sn\<rparr>\<rparr>)"
| claim: "dp_flight d = None \<Longrightarrow> claim_delivery s now hid (dp_db d) = (db', c) \<Longrightarrow>
    dispatch_step E s d (d\<lparr>dp_db := db', dp_flight := (case c of Attempt row n m \<Rightarrow> Some (hid, n, now) | _ \<Rightarrow> None)\<rparr>)"
| finish: "dp_flight d = Some (hid, n, started) \<Longrightarrow> started \<le> finished \<Longrightarrow>
    record_outcome s finished hid n oc (dp_db d) = (db', r) \<Longrightarrow>
    dispatch_step E s d (d\<lparr>dp_db := db', dp_flight := None,
      dp_accepted := (if oc_success oc = Some True then hid # dp_accepted d else dp_accepted d)\<rparr>)"
| crash: "dispatch_step E s d (d\<lparr>dp_flight := None\<rparr>)"

inductive dispatch_reach :: "delivery_env \<Rightarrow> alert_settings \<Rightarrow> dispatch \<Rightarrow> bool" for E s where
  start: "alert_history db = [] \<Longrightarrow> outbox db = [] \<Longrightarrow>
    dispatch_reach E s \<lparr>dp_db = db, dp_flight = None, dp_accepted = []\<rparr>"
| step: "dispatch_reach E s d \<Longrightarrow> dispatch_step E s d d' \<Longrightarrow> dispatch_reach E s d'"

inductive_cases dispatch_stepE: "dispatch_step E s d d'"

lemma dispatch_outbox_ok: "dispatch_reach E s d \<Longrightarrow> outbox_ok (dp_db d)"
proof (induction rule: dispatch_reach.induct)
  case (start db)
  then show ?case by (simp add: outbox_ok_def find_history_def find_outbox_def agree_def)
next
  case (step d d')
  from step(2,3) show ?case
    by (cases rule: dispatch_step.cases)
      (auto simp: outbox_ok_enqueue outbox_ok_forget intro: outbox_ok_claim outbox_ok_record)
qed

subsection \<open>Attempts are paced, successes are real\<close>

definition pace :: "alert_settings \<Rightarrow> alert_history \<Rightarrow> outbox_row \<Rightarrow> bool" where
  "pace s h r =
     (ob_expires_at r = ob_created_at r + seconds (int (retry_ttl_seconds s)) \<and>
      (case hi_attempt_count h of None \<Rightarrow> False
       | Some n \<Rightarrow> ob_created_at r + seconds (int (n * retry_initial_seconds s)) \<le> ob_next_attempt_at r
                  \<or> ob_next_attempt_at r = ob_expires_at r))"

definition paced :: "alert_settings \<Rightarrow> dispatch \<Rightarrow> bool" where
  "paced s d =
     ((\<forall>hid h r. find_history (dp_db d) hid = Some h \<longrightarrow> find_outbox (dp_db d) hid = Some r \<longrightarrow> pace s h r)
      \<and> (case dp_flight d of None \<Rightarrow> True
         | Some (hid, n, started) \<Rightarrow> 1 \<le> n \<and> hid < history_seq (dp_db d)
             \<and> (\<forall>h. find_history (dp_db d) hid = Some h \<longrightarrow> hi_attempt_count h = Some n)
             \<and> (\<forall>r. find_outbox (dp_db d) hid = Some r \<longrightarrow>
                   ob_created_at r + seconds (int ((n - 1) * retry_initial_seconds s)) \<le> started)))"

definition truthful :: "dispatch \<Rightarrow> bool" where
  "truthful d = (\<forall>hid h. find_history (dp_db d) hid = Some h \<longrightarrow> hi_status h = Succeeded \<longrightarrow> hid \<in> set (dp_accepted d))"

lemma find_enqueue:
  assumes "outbox_ok db"
  shows "k \<noteq> history_seq db \<Longrightarrow> find_history (enqueue_notification E s now p db) k = find_history db k"
    and "k \<noteq> history_seq db \<Longrightarrow> find_outbox (enqueue_notification E s now p db) k = find_outbox db k"
    and "history_seq (enqueue_notification E s now p db) = Suc (history_seq db)"
    and "find_history (enqueue_notification E s now p db) (history_seq db) = Some h \<Longrightarrow>
           hi_attempt_count h = Some 0 \<and> hi_status h \<noteq> Succeeded"
    and "find_outbox (enqueue_notification E s now p db) (history_seq db) = Some r \<Longrightarrow>
           ob_created_at r = now \<and> ob_next_attempt_at r = now \<and> ob_expires_at r = now + seconds (int (retry_ttl_seconds s))"
proof -
  obtain h' new sn where e: "enqueue_notification E s now p db = db\<lparr>alert_history := alert_history db @ [h'],
      history_seq := Suc (history_seq db), outbox := outbox db @ new, snapshots := sn\<rparr>"
    and h': "history_for p (history_seq db) now h'"
    and new: "new = [] \<and> hi_status h' \<noteq> Pending \<or> (\<exists>r. new = [r] \<and> intent_for s p (history_seq db) now r \<and> hi_status h' = Pending)"
    by (rule enqueue_shape)
  note fresh = fresh_history [OF assms]
  note [simp] = e find_append find_history_def find_outbox_def
  show "find_history (enqueue_notification E s now p db) k = find_history db k" if "k \<noteq> history_seq db"
    using that h' by (simp add: history_for_def split: option.splits)
  show "find_outbox (enqueue_notification E s now p db) k = find_outbox db k" if "k \<noteq> history_seq db"
    using that new by (auto simp: intent_for_def split: option.splits)
  show "history_seq (enqueue_notification E s now p db) = Suc (history_seq db)" by simp
  show "hi_attempt_count h = Some 0 \<and> hi_status h \<noteq> Succeeded"
    if "find_history (enqueue_notification E s now p db) (history_seq db) = Some h"
    using that h' fresh by (auto simp: history_for_def)
  show "ob_created_at r = now \<and> ob_next_attempt_at r = now \<and> ob_expires_at r = now + seconds (int (retry_ttl_seconds s))"
    if "find_outbox (enqueue_notification E s now p db) (history_seq db) = Some r"
    using that new fresh by (auto simp: intent_for_def split: if_splits)
qed

lemma retry_step:
  assumes "alert_settings_ok s" "created + seconds (int ((n - 1) * retry_initial_seconds s)) \<le> t" "1 \<le> n"
    and "expires = created + seconds (int ttl)"
  shows "created + seconds (int (n * retry_initial_seconds s)) \<le> min (t + seconds (int (retry_delay s n))) expires
    \<or> min (t + seconds (int (retry_delay s n))) expires = expires"
proof -
  obtain m where m: "n = Suc m" using assms(3) by (cases n) auto
  have "created + seconds (int (n * retry_initial_seconds s)) \<le> t + seconds (int (retry_delay s n))"
    using assms(2) retry_delay_bounds(1) [OF assms(1), of n] by (simp add: m seconds_def)
  then show ?thesis by (auto simp: min_def)
qed

lemma history_seq_others [simp]:
  "history_seq (forget_history p db) = history_seq db" "history_seq (drop_outbox hid db) = history_seq db"
  "history_seq (set_outbox hid g db) = history_seq db" "history_seq (set_history hid f db) = history_seq db"
  by (simp_all add: forget_history_def drop_outbox_def set_outbox_def history_seq_set Let_def)

lemma find_shrinks:
  assumes "outbox_ok db"
  shows "find_history (forget_history p db) k = Some h \<Longrightarrow> find_history db k = Some h"
    and "find_outbox (forget_history p db) k = Some r \<Longrightarrow> find_outbox db k = Some r"
  by (auto simp: find_forget [OF assms] split: option.splits if_splits)

lemma paced_step:
  assumes set: "alert_settings_ok s" and ok: "outbox_ok (dp_db d)" and p: "paced s d" and st: "dispatch_step E s d d'"
  shows "paced s d'"
  using st
proof cases
  case (enqueue now p)
  have "pace s h r" if "find_history (dp_db d') hid = Some h" "find_outbox (dp_db d') hid = Some r" for hid h r
  proof (cases "hid = history_seq (dp_db d)")
    case True
    then show ?thesis using that find_enqueue(4,5) [OF ok] unfolding enqueue by (fastforce simp: pace_def seconds_def)
  next
    case False
    then show ?thesis using that assms(3) find_enqueue(1,2) [OF ok False] unfolding enqueue by (simp add: paced_def)
  qed
  moreover have "dp_flight d' = dp_flight d" by (simp add: enqueue)
  ultimately show ?thesis using assms(3) find_enqueue(1-3) [OF ok] unfolding enqueue paced_def
    by (auto split: option.splits)
next
  case (forget p)
  then show ?thesis using assms(3) unfolding paced_def
    by (auto dest!: find_shrinks [OF ok] split: option.splits)
next
  case (snapshot sn)
  then show ?thesis using assms(3) by (auto simp: paced_def table_simps split: option.splits)
next
  case (claim now hid db' c)
  show ?thesis
  proof (cases "\<exists>row n m. c = Attempt row n m")
    case True
    then obtain row n m where c: "c = Attempt row n m" by blast
    from claim(3) [unfolded c] obtain r h where rh: "find_outbox (dp_db d) hid = Some r" "find_history (dp_db d) hid = Some h"
      and lt: "ob_next_attempt_at r \<le> now" "now < ob_expires_at r"
      and n: "n = (case hi_attempt_count h of None \<Rightarrow> 0 | Some k \<Rightarrow> k) + 1"
      and row: "row = r\<lparr>ob_next_attempt_at := min (now + seconds (int (retry_delay s n))) (ob_expires_at r)\<rparr>"
      and db': "db' = set_outbox hid (\<lambda>x. x\<lparr>ob_next_attempt_at := ob_next_attempt_at row\<rparr>)
       (set_history hid (\<lambda>h. h\<lparr>hi_attempt_count := Some n, hi_last_attempt_at := Some now,
          hi_notified_at := now, hi_next_attempt_at := Some (ob_next_attempt_at row)\<rparr>) (dp_db d))"
      by (rule claim_Attempt)
    have pace: "pace s h r" using p rh by (simp add: paced_def)
    then obtain k where k: "hi_attempt_count h = Some k" "n = k + 1"
      "ob_created_at r + seconds (int (k * retry_initial_seconds s)) \<le> now"
      using n lt by (auto simp: pace_def split: option.splits)
    define F where "F = (\<lambda>h. h\<lparr>hi_attempt_count := Some n, hi_last_attempt_at := Some now,
          hi_notified_at := now, hi_next_attempt_at := Some (ob_next_attempt_at row)\<rparr> :: alert_history)"
    have "pace s (F h) row"
      using retry_step [OF set, of "ob_created_at r" n now] k pace unfolding row F_def by (simp add: pace_def)
    moreover have "hid < history_seq db'"
      using ok rh(2) by (auto simp: db' outbox_ok_def find_history_def dest!: find_Some_iff_in)
    moreover have "find_history db' j = (if j = hid then Some (F h) else find_history (dp_db d) j)" for j
      unfolding db' F_def by (simp add: table_simps rh)
    moreover have "find_outbox db' j = (if j = hid then Some row else find_outbox (dp_db d) j)" for j
      unfolding db' by (simp add: table_simps rh row)
    moreover have "hi_attempt_count (F h) = Some n" "ob_created_at row = ob_created_at r" by (simp_all add: F_def row)
    ultimately show ?thesis using p k unfolding claim(1) c
      by (auto simp: paced_def split: if_splits)
  next
    case False
    then have "db' = dp_db d \<or> (\<exists>f. db' = drop_outbox hid (set_history hid f (dp_db d)) \<and> (\<forall>h. hi_id (f h) = hi_id h))"
      using claim_other [OF claim(3)] by blast
    then show ?thesis using p False unfolding claim(1) paced_def
      by (cases c) (auto simp: table_simps split: if_splits)
  qed
next
  case (finish hid n started finished oc db' r)
  have fl: "1 \<le> n" "\<And>h. find_history (dp_db d) hid = Some h \<Longrightarrow> hi_attempt_count h = Some n"
    "\<And>r. find_outbox (dp_db d) hid = Some r \<Longrightarrow> ob_created_at r + seconds (int ((n - 1) * retry_initial_seconds s)) \<le> started"
    using p finish(2) by (auto simp: paced_def)
  from finish(4) show ?thesis
  proof (cases rule: record_outcome_cases)
    case (settled f st)
    then show ?thesis using p unfolding finish(1) paced_def by (auto simp: table_simps split: if_splits)
  next
    case (retry row h f)
    have "pace s h row" using p retry by (simp add: paced_def)
    moreover have "ob_created_at row + seconds (int ((n - 1) * retry_initial_seconds s)) \<le> finished"
      using fl(3) [OF retry(3)] finish(3) by simp
    ultimately have "pace s (f h) (row\<lparr>ob_next_attempt_at := min (finished + seconds (int (retry_delay s n))) (ob_expires_at row)\<rparr>)"
      using retry_step [OF set, of "ob_created_at row" n finished] fl(1) fl(2) [OF retry(4)] retry(7)
      by (simp add: pace_def)
    then show ?thesis using p retry(3,4,7) unfolding finish(1) retry(1) paced_def
      by (auto simp: table_simps split: if_splits)
  qed (use p finish in \<open>simp add: paced_def\<close>)
next
  case crash
  then show ?thesis using assms(3) by (simp add: paced_def)
qed

lemma dispatch_paced:
  assumes "alert_settings_ok s" "dispatch_reach E s d" shows "paced s d"
  using assms(2)
proof (induction rule: dispatch_reach.induct)
  case (start db)
  then show ?case by (simp add: paced_def find_history_def)
next
  case (step d d')
  then show ?case using paced_step [OF assms(1)] dispatch_outbox_ok by blast
qed

lemma truthful_step:
  assumes ok: "outbox_ok (dp_db d)" and t: "truthful d" and st: "dispatch_step E s d d'"
  shows "truthful d'"
  using st
proof cases
  case (enqueue now p)
  have "find_history (dp_db d) hid = Some h" if "find_history (dp_db d') hid = Some h" "hi_status h = Succeeded" for hid h
    using that find_enqueue(1,4) [OF ok] unfolding enqueue by (cases "hid = history_seq (dp_db d)") auto
  then show ?thesis using t unfolding enqueue by (auto simp: truthful_def)
next
  case (forget p)
  then show ?thesis using t by (auto simp: truthful_def dest!: find_shrinks [OF ok])
next
  case (snapshot sn)
  then show ?thesis using t by (simp add: truthful_def table_simps)
next
  case (claim now hid db' c)
  have "(\<exists>f g. db' = set_outbox hid g (set_history hid f (dp_db d)) \<and> (\<forall>h. hi_id (f h) = hi_id h) \<and> (\<forall>h. hi_status (f h) = hi_status h))
    \<or> db' = dp_db d \<or> (\<exists>f. db' = drop_outbox hid (set_history hid f (dp_db d)) \<and> (\<forall>h. hi_id (f h) = hi_id h) \<and> (\<forall>h. hi_status (f h) = GivenUp))"
  proof (cases "\<exists>row n m. c = Attempt row n m")
    case True
    then obtain row n m where "claim_delivery s now hid (dp_db d) = (db', Attempt row n m)" using claim(3) by blast
    then show ?thesis by (rule claim_Attempt) (intro disjI1 exI conjI, assumption, simp_all)
  qed (use claim_other [OF claim(3)] in blast)
  then show ?thesis using t unfolding claim(1) truthful_def
    by (elim disjE exE conjE) (auto simp: table_simps split: if_splits)
next
  case (finish hid n started finished oc db' r)
  from finish(4) show ?thesis
  proof (cases rule: record_outcome_cases)
    case (settled f st)
    then show ?thesis using t unfolding finish(1) truthful_def
      by (auto simp: table_simps success_of_def split: if_splits)
  next
    case (retry row h f)
    then show ?thesis using t unfolding finish(1) truthful_def by (auto simp: table_simps split: if_splits)
  qed (use t finish in \<open>auto simp: truthful_def\<close>)
next
  case crash
  then show ?thesis using t by (simp add: truthful_def)
qed

lemma dispatch_truthful: "dispatch_reach E s d \<Longrightarrow> truthful d"
proof (induction rule: dispatch_reach.induct)
  case (start db)
  then show ?case by (simp add: truthful_def find_history_def)
next
  case (step d d')
  then show ?case using truthful_step dispatch_outbox_ok by blast
qed

lemma find_by_id:
  assumes "outbox_ok db"
  shows "h \<in> set (alert_history db) \<Longrightarrow> find_history db (hi_id h) = Some h"
    and "r \<in> set (outbox db) \<Longrightarrow> find_outbox db (ob_history_id r) = Some r"
  using assms by (simp_all only: outbox_ok_def find_history_def find_outbox_def find_unique)

subsection \<open>The properties\<close>

text \<open>C20: However new intents, deletions, delivery attempts, crashes and restarts interleave, every history row is open
  (pending or retrying) exactly while its intent is queued, with the same next attempt, which is never after
  the intent expires; no intent is without a history row, and a settled row has no next attempt.\<close>

theorem history_and_outbox_agree:
  assumes "dispatch_reach E s d" and "h \<in> set (alert_history (dp_db d))"
  shows "(hi_status h \<in> {Pending, Retrying}) = (hi_id h \<in> ob_history_id ` set (outbox (dp_db d)))
    \<and> (\<forall>r\<in>set (outbox (dp_db d)). ob_history_id r \<in> hi_id ` set (alert_history (dp_db d)) \<and> ob_next_attempt_at r \<le> ob_expires_at r
         \<and> (ob_history_id r = hi_id h \<longrightarrow> hi_next_attempt_at h = Some (ob_next_attempt_at r)))
    \<and> (hi_status h \<notin> {Pending, Retrying} \<longrightarrow> hi_next_attempt_at h = None)
    \<and> hi_success h = success_of (hi_status h)"
proof -
  have ok: "outbox_ok (dp_db d)" by (rule dispatch_outbox_ok [OF assms(1)])
  have h: "find_history (dp_db d) (hi_id h) = Some h" by (rule find_by_id(1) [OF ok assms(2)])
  have a: "agree (Some h) (find_outbox (dp_db d) (hi_id h))" using outbox_okD [OF ok, of "hi_id h"] h by simp
  have q: "(find_outbox (dp_db d) k = None) = (k \<notin> ob_history_id ` set (outbox (dp_db d)))" for k
    by (auto simp: find_outbox_def find_None_iff)
  have r: "ob_history_id r \<in> hi_id ` set (alert_history (dp_db d)) \<and> ob_next_attempt_at r \<le> ob_expires_at r"
    if "r \<in> set (outbox (dp_db d))" for r
  proof -
    have "agree (find_history (dp_db d) (ob_history_id r)) (Some r)"
      using outbox_okD [OF ok, of "ob_history_id r"] find_by_id(2) [OF ok that] by simp
    then obtain g where "find_history (dp_db d) (ob_history_id r) = Some g" "ob_next_attempt_at r \<le> ob_expires_at r"
      by (auto simp: agree_def split: option.splits)
    moreover from this have "g \<in> set (alert_history (dp_db d)) \<and> hi_id g = ob_history_id r"
      unfolding find_history_def by (blast dest: find_Some_iff_in)
    ultimately show ?thesis by (metis imageI)
  qed
  have n: "hi_next_attempt_at h = Some (ob_next_attempt_at r)" if "r \<in> set (outbox (dp_db d))" "ob_history_id r = hi_id h" for r
    using a find_by_id(2) [OF ok that(1)] that(2) by (simp add: agree_def)
  show ?thesis using a q [of "hi_id h"] r n
    by (cases "find_outbox (dp_db d) (hi_id h)") (auto simp: agree_def is_open_def)
qed

definition sample_alert_settings :: alert_settings where
  "sample_alert_settings = \<lparr>mock_mode = False, smtp_host = Some ''mail'', alert_email_from = ''a@b'',
     alert_email_to = Some ''ops@b'', delivery_batch_size = 2, retry_initial_seconds = 1,
     retry_max_seconds = 6, retry_ttl_seconds = 20, snapshot_lookback_hours = 2,
     event_eval_lookback_hours = 1, metric_staleness_seconds = 900\<rparr>"

definition sample_delivery_env :: delivery_env where
  "sample_delivery_env = \<lparr>render = (\<lambda>p. Inr (pn_rule_name p, pn_context_key p)), make_msgid = (\<lambda>n. nat_str n),
     smtp_send = (\<lambda>_. None)\<rparr>"

definition sample_pending :: pending where
  "sample_pending = \<lparr>pn_rule_id = 1, pn_rule_name = ''cpu'', pn_rule_type = ''event_score'', pn_level = ''warning'',
     pn_state = Firing, pn_context_key = ''vim.event.X'', pn_fired_at = 100, pn_resolved_at = None,
     pn_details = NotableDetails ''x'' 70\<rparr>"

definition empty_alert_db :: alert_db where
  "empty_alert_db = \<lparr>alert_rules = [], alert_states = [], alert_history = [], outbox = [], snapshots = [], history_seq = 1\<rparr>"

definition sample_dispatch :: dispatch where
  "sample_dispatch = \<lparr>dp_db = enqueue_notification sample_delivery_env sample_alert_settings 1000 sample_pending empty_alert_db,
     dp_flight = None, dp_accepted = []\<rparr>"

lemma sample_settings_ok: "alert_settings_ok sample_alert_settings"
  by code_simp

lemma sample_dispatch_reach: "dispatch_reach sample_delivery_env sample_alert_settings sample_dispatch"
proof -
  have "dispatch_reach sample_delivery_env sample_alert_settings \<lparr>dp_db = empty_alert_db, dp_flight = None, dp_accepted = []\<rparr>"
    by (rule dispatch_reach.start) (simp_all add: empty_alert_db_def)
  from dispatch_reach.step [OF this dispatch_step.enqueue [of _ _ _ 1000 sample_pending]]
  show ?thesis by (simp add: sample_dispatch_def)
qed

lemma history_and_outbox_agree_witness:
  "let h = hd (alert_history (dp_db sample_dispatch)) in hi_status h = Pending \<and> hi_id h \<in> ob_history_id ` set (outbox (dp_db sample_dispatch))"
proof -
  have h: "hd (alert_history (dp_db sample_dispatch)) \<in> set (alert_history (dp_db sample_dispatch))"
    "hi_status (hd (alert_history (dp_db sample_dispatch))) = Pending" by code_simp+
  from history_and_outbox_agree [OF sample_dispatch_reach h(1)] h(2) show ?thesis by (simp add: Let_def)
qed

text \<open>C21: With one intent attempted at a time and a retry no sooner than the initial interval, an intent is attempted at
  most once more than the initial interval fits into its lifetime, only before it expires, and the next attempt is
  always planned for later; restarts do not change that.\<close>

theorem attempts_are_bounded:
  assumes "alert_settings_ok s" "dispatch_reach E s d" "claim_delivery s now hid (dp_db d) = (db', Attempt row n m)"
  shows "(n - 1) * retry_initial_seconds s < retry_ttl_seconds s
    \<and> now < ob_created_at row + seconds (int (retry_ttl_seconds s)) \<and> now < ob_next_attempt_at row"
proof -
  from assms(3) obtain r h where rh: "find_outbox (dp_db d) hid = Some r" "find_history (dp_db d) hid = Some h"
    and lt: "ob_next_attempt_at r \<le> now" "now < ob_expires_at r"
    and n: "n = (case hi_attempt_count h of None \<Rightarrow> 0 | Some k \<Rightarrow> k) + 1"
    and row: "row = r\<lparr>ob_next_attempt_at := min (now + seconds (int (retry_delay s n))) (ob_expires_at r)\<rparr>"
    by (rule claim_Attempt)
  have "pace s h r" using dispatch_paced [OF assms(1,2)] rh by (simp add: paced_def)
  then have "ob_created_at r + seconds (int ((n - 1) * retry_initial_seconds s)) \<le> now"
    "ob_expires_at r = ob_created_at r + seconds (int (retry_ttl_seconds s))"
    using n lt by (auto simp: pace_def split: option.splits)
  moreover have "int ((n - 1) * retry_initial_seconds s) < int (retry_ttl_seconds s)"
    using calculation lt by (simp add: seconds_def del: of_nat_mult)
  moreover have "1 \<le> retry_delay s n" using retry_delay_bounds(1) [OF assms(1), of n] assms(1) by (simp add: alert_settings_ok_def)
  ultimately show ?thesis using lt by (simp add: row seconds_def del: of_nat_mult)
qed

lemma attempts_are_bounded_witness:
  "\<exists>row m. snd (claim_delivery sample_alert_settings 2000 1 (dp_db sample_dispatch)) = Attempt row 1 m
    \<and> 2000 < ob_next_attempt_at row"
proof -
  have c: "case claim_delivery sample_alert_settings 2000 1 (dp_db sample_dispatch) of (_, Attempt row n m) \<Rightarrow> n = 1 | _ \<Rightarrow> False"
    by code_simp
  then obtain db' row m where "claim_delivery sample_alert_settings 2000 1 (dp_db sample_dispatch) = (db', Attempt row 1 m)"
    by (auto split: prod.splits claim.splits)
  from attempts_are_bounded [OF sample_settings_ok sample_dispatch_reach this] this show ?thesis by simp
qed

text \<open>A history row says succeeded only if the channel accepted the message of that very intent.\<close>

theorem success_was_accepted:
  assumes "dispatch_reach E s d" "h \<in> set (alert_history (dp_db d))" "hi_status h = Succeeded"
  shows "hi_id h \<in> set (dp_accepted d)"
  using dispatch_truthful [OF assms(1)] find_by_id(1) [OF dispatch_outbox_ok [OF assms(1)] assms(2)] assms(3)
  by (simp add: truthful_def)

definition sample_sent :: dispatch where
  "sample_sent = (let d = sample_dispatch; (db, c) = claim_delivery sample_alert_settings 2000 1 (dp_db d);
      (db', r) = record_outcome sample_alert_settings 3000 1 1
        \<lparr>oc_channel = ''email'', oc_success = Some True, oc_error_message = None\<rparr> db
    in d\<lparr>dp_db := db', dp_flight := None, dp_accepted := [1]\<rparr>)"

lemma sample_sent_reach: "dispatch_reach sample_delivery_env sample_alert_settings sample_sent"
proof -
  let ?s = sample_alert_settings and ?d = sample_dispatch
  obtain db' c where c: "claim_delivery ?s 2000 1 (dp_db ?d) = (db', c)" by fastforce
  have "case claim_delivery ?s 2000 1 (dp_db ?d) of (_, Attempt row n m) \<Rightarrow> n = 1 | _ \<Rightarrow> False" by code_simp
  then obtain row m where a: "c = Attempt row 1 m" using c by (auto split: claim.splits)
  obtain db'' r where r: "record_outcome ?s 3000 1 1 \<lparr>oc_channel = ''email'', oc_success = Some True, oc_error_message = None\<rparr> db' = (db'', r)"
    by fastforce
  have "dp_flight ?d = None" by (simp add: sample_dispatch_def)
  from dispatch_reach.step [OF sample_dispatch_reach dispatch_step.claim [OF this c]]
  have 1: "dispatch_reach sample_delivery_env ?s (?d\<lparr>dp_db := db', dp_flight := Some (1, 1, 2000)\<rparr>)" by (simp add: a)
  let ?d1 = "?d\<lparr>dp_db := db', dp_flight := Some (1, 1, 2000)\<rparr>"
  have "dispatch_step sample_delivery_env ?s ?d1 (?d1\<lparr>dp_db := db'', dp_flight := None,
      dp_accepted := (if oc_success \<lparr>oc_channel = ''email'', oc_success = Some True, oc_error_message = None\<rparr> = Some True
        then 1 # dp_accepted ?d1 else dp_accepted ?d1)\<rparr>)"
    by (rule dispatch_step.finish [where started = 2000 and finished = 3000 and n = 1]) (use r in simp_all)
  moreover have "dp_accepted ?d = []" by (simp add: sample_dispatch_def)
  ultimately have "dispatch_step sample_delivery_env ?s ?d1 sample_sent"
    using r by (simp add: sample_sent_def c [unfolded One_nat_def])
  with 1 show ?thesis by (rule dispatch_reach.step)
qed

lemma success_was_accepted_witness:
  "let h = hd (alert_history (dp_db sample_sent)) in hi_status h = Succeeded \<and> hi_id h \<in> set (dp_accepted sample_sent)"
proof -
  have h: "hd (alert_history (dp_db sample_sent)) \<in> set (alert_history (dp_db sample_sent))"
    "hi_status (hd (alert_history (dp_db sample_sent))) = Succeeded" by code_simp+
  from success_was_accepted [OF sample_sent_reach h] h(2) show ?thesis by (simp add: Let_def)
qed

text \<open>C36: A dispatched intent that is due makes progress: without interference it is settled and leaves the
  queue, or its next attempt is planned for later than the end of this one; an expired one is given up.\<close>

theorem due_intents_make_progress:
  assumes "alert_settings_ok s" "outbox_ok db" "find_outbox db hid = Some r"
    and "ob_next_attempt_at r \<le> now \<or> ob_expires_at r \<le> now" "now \<le> finished"
    and "pending_from_outbox (ob_notification r) \<noteq> None"
  shows "case deliver_one E s id id now finished hid db of (db', res) \<Rightarrow>
      (case res of None \<Rightarrow> False
       | Some Retrying \<Rightarrow> (\<exists>r'. find_outbox db' hid = Some r' \<and> finished < ob_next_attempt_at r' \<and> now < ob_expires_at r)
       | Some st \<Rightarrow> st \<noteq> Pending \<and> find_outbox db' hid = None)
      \<and> (ob_expires_at r \<le> now \<longrightarrow> res = Some GivenUp)"
proof -
  obtain h where h: "find_history db hid = Some h"
    using outbox_okD [OF assms(2), of hid] assms(3) by (auto simp: agree_def split: option.splits)
  have ne: "find_outbox db' hid = None" if "db' = drop_outbox hid d" for db' d by (simp add: that table_simps)
  show ?thesis
  proof (cases "ob_expires_at r \<le> now")
    case True
    then show ?thesis using assms(3) h by (simp add: deliver_one_def claim_delivery_def table_simps)
  next
    case False
    then have lt: "now < ob_expires_at r" "ob_next_attempt_at r \<le> now" using assms(4) by auto
    have delay: "1 \<le> retry_delay s n" for n
      using retry_delay_bounds(1) [OF assms(1), of n] assms(1) by (simp add: alert_settings_ok_def)
    obtain db1 row n m where c: "claim_delivery s now hid db = (db1, Attempt row n m)"
      using assms(3) h lt by (simp add: claim_delivery_def Let_def)
    from c obtain r' where r': "find_outbox db hid = Some r'"
      "row = r'\<lparr>ob_next_attempt_at := min (now + seconds (int (retry_delay s n))) (ob_expires_at r')\<rparr>"
      "find_outbox db1 hid = Some row" "\<exists>h1. find_history db1 hid = Some h1"
      by (rule claim_Attempt) (auto simp: table_simps)
    then have row: "ob_notification row = ob_notification r" "ob_expires_at row = ob_expires_at r" using assms(3) by auto
    obtain p where p: "pending_from_outbox (ob_notification row) = Some p" using assms(6) row by auto
    let ?db2 = "if n = 1 then save_snapshot p (nj_snapshot_lookback_hours (ob_notification row)) (ob_created_at row) db1 else db1"
    obtain sn where sn: "save_snapshot p (nj_snapshot_lookback_hours (ob_notification row)) (ob_created_at row) db1
        = db1\<lparr>snapshots := sn\<rparr>" using save_snapshot_shape by blast
    have f2: "find_outbox ?db2 hid = Some row" "\<exists>h1. find_history ?db2 hid = Some h1"
      using r'(3,4) by (auto simp: sn table_simps)
    obtain db' res where rec: "record_outcome s finished hid n (send_outcome E s m row) ?db2 = (db', res)" by fastforce
    have d: "deliver_one E s id id now finished hid db = (db', res)"
      using f2(1) rec by (simp add: deliver_one_def c p Let_def)
    from rec show ?thesis
    proof (cases rule: record_outcome_cases)
      case (settled f st)
      then show ?thesis using lt by (auto simp: d table_simps split: delivery_status.splits)
    next
      case (retry row' h' f)
      then have "row' = row" using f2 by simp
      then show ?thesis using retry lt delay [of n] row f2 by (auto simp: d table_simps seconds_def)
    qed (use f2 in auto)
  qed
qed

lemma due_intents_make_progress_witness:
  "snd (deliver_one sample_delivery_env sample_alert_settings id id 2000 3000 1 (dp_db sample_dispatch)) = Some Succeeded
   \<and> find_outbox (fst (deliver_one sample_delivery_env sample_alert_settings id id 2000 3000 1 (dp_db sample_dispatch))) 1 = None"
proof -
  have "case find_outbox (dp_db sample_dispatch) 1 of None \<Rightarrow> False
     | Some r \<Rightarrow> ob_next_attempt_at r \<le> 2000 \<and> pending_from_outbox (ob_notification r) \<noteq> None" by code_simp
  then obtain r where r: "find_outbox (dp_db sample_dispatch) 1 = Some r" "ob_next_attempt_at r \<le> 2000"
    "pending_from_outbox (ob_notification r) \<noteq> None" by (auto split: option.splits)
  have "snd (deliver_one sample_delivery_env sample_alert_settings id id 2000 3000 1 (dp_db sample_dispatch)) = Some Succeeded"
    by code_simp
  moreover from due_intents_make_progress [OF sample_settings_ok dispatch_outbox_ok [OF sample_dispatch_reach] r(1) disjI1 [OF r(2)] _ r(3),
      of 3000 sample_delivery_env]
  have "case deliver_one sample_delivery_env sample_alert_settings id id 2000 3000 1 (dp_db sample_dispatch) of (db', res) \<Rightarrow>
      res = Some Succeeded \<longrightarrow> find_outbox db' 1 = None" by (auto split: prod.splits)
  ultimately show ?thesis by (auto split: prod.splits)
qed

text \<open>The delay before the next attempt is the initial one doubled with each attempt and cut off at the maximum; the
  bound on the exponent in the code never changes it, and the delay grows with the attempts.\<close>

theorem retry_delay_is_capped_doubling:
  assumes "alert_settings_ok s"
  shows "retry_delay s attempt = min (retry_initial_seconds s * 2 ^ (attempt - 1)) (retry_max_seconds s)
    \<and> retry_initial_seconds s \<le> retry_delay s attempt \<and> retry_delay s attempt \<le> retry_max_seconds s
    \<and> retry_delay s attempt \<le> retry_delay s (attempt + 1)"
  using retry_delay_exact [OF assms] retry_delay_bounds [OF assms, of attempt] retry_delay_mono [of attempt "attempt + 1" s]
  by (metis le_add1)

lemma retry_delay_is_capped_doubling_witness:
  "map (retry_delay sample_alert_settings) [1, 2, 3, 4, 9] = [1, 2, 4, 6, 6] \<and>
   retry_delay sample_alert_settings 3 = min (1 * 2 ^ 2) 6"
  using retry_delay_is_capped_doubling [OF sample_settings_ok, of 3]
  by (simp add: sample_alert_settings_def) (simp add: retry_delay_def bit_length.simps)

text \<open>What is read back from the outbox for a delivery, after any number of restarts, is the notification that was queued.\<close>

theorem queued_notification_round_trip:
  assumes "valid_pydt (utc (pn_fired_at p))" "\<And>t. pn_resolved_at p = Some t \<Longrightarrow> valid_pydt (utc t)"
  shows "pending_from_outbox (notification_of p lookback) = Some p"
proof -
  have "isoformat (utc t) \<noteq> ''''" if "valid_pydt (utc t)" for t
    using fromisoformat_isoformat [OF that] by (auto simp: fromisoformat_def read_number_def split: if_splits)
  then show ?thesis using assms fromisoformat_isoformat
    by (cases p; cases "pn_resolved_at p") (auto simp: pending_from_outbox_def notification_of_def Let_def)
qed

lemma queued_notification_round_trip_witness:
  "pending_from_outbox (notification_of (sample_pending\<lparr>pn_resolved_at := Some 200\<rparr>) 2) = Some (sample_pending\<lparr>pn_resolved_at := Some 200\<rparr>)"
proof (rule queued_notification_round_trip)
  show "valid_pydt (utc (pn_fired_at (sample_pending\<lparr>pn_resolved_at := Some 200\<rparr>)))" by code_simp
  have "valid_pydt (utc 200)" by code_simp
  then show "valid_pydt (utc t)" if "pn_resolved_at (sample_pending\<lparr>pn_resolved_at := Some 200\<rparr>) = Some t" for t
    using that by simp
qed

end
