(* ===== verification/AlertEval.thy ===== *)
theory AlertEval
  imports Delivery
begin

section \<open>Evaluation of the alert rules (services/alerting/alert\_eval*.py)\<close>

text \<open>
  The two kinds of rules, evaluated against the stored events and samples. An evaluation is one
  transaction: an exception leaves the database as it was. The clock of an evaluation is one instant.
  Rows of a query without an order come in the order of the table.
\<close>

datatype eval_exn = ConfigValueError | ConfigOverflowError | ConfigTypeError | DatabaseError

subsection \<open>Configuration and cooldown of event\_score rules (alert\_eval\_event\_score\_config.py)\<close>

record event_score_config =
  cfg_threshold :: int
  cfg_cooldown_minutes :: int

definition is_integer :: "real \<Rightarrow> bool" where
  "is_integer r = (of_int \<lfloor>r\<rfloor> = r)"

definition coerce_int :: "json \<Rightarrow> eval_exn + int option" where
  "coerce_int j =
     (case j of JInt i \<Rightarrow> Inr (Some i)
      | JFloat (Fin r) \<Rightarrow> Inr (if is_integer r then Some \<lfloor>r\<rfloor> else None)
      | JStr t \<Rightarrow> if py_isdigit (py_strip t)
          then (case py_int_of_digits (py_strip t) of Some i \<Rightarrow> Inr (Some i) | None \<Rightarrow> Inl ConfigValueError)
          else Inr None
      | _ \<Rightarrow> Inr None)"

definition config_get :: "(string, json) dict \<Rightarrow> string \<Rightarrow> json" where
  \<comment> \<open>\<open>raw.get(k)\<close>\<close>
  "config_get raw k = (case map_of raw k of None \<Rightarrow> JNull | Some v \<Rightarrow> v)"

definition parse_event_score_rule_config :: "(string, json) dict \<Rightarrow> eval_exn + event_score_config option" where
  "parse_event_score_rule_config raw =
     (let legacy = config_get raw ''min_notable_score'';
          threshold_raw = (case map_of raw ''threshold'' of Some v \<Rightarrow> v
            | None \<Rightarrow> if legacy = JNull then JInt 60 else legacy)
      in and_then (coerce_int threshold_raw) (\<lambda>threshold.
         case threshold of None \<Rightarrow> Inr None
         | Some t \<Rightarrow>
             if \<not> (0 \<le> t \<and> t \<le> 100) then Inr None
             else and_then (coerce_int (config_get raw ''cooldown_minutes'')) (\<lambda>cooldown.
               let c = (case cooldown of None \<Rightarrow> 10 | Some c \<Rightarrow> c)
               in Inr (if c < 1 then None else Some \<lparr>cfg_threshold = t, cfg_cooldown_minutes = c\<rparr>))))"

definition event_eval_window_start :: "instant \<Rightarrow> int \<Rightarrow> instant" where
  "event_eval_window_start now lookback_hours = now - hours lookback_hours"

definition merge_latest_qualifying_by_event_type :: "(string \<times> instant) list \<Rightarrow> (string, instant) dict" where
  "merge_latest_qualifying_by_event_type rows =
     fold (\<lambda>(event_type, occurred_at) out.
       case map_of out event_type of
         None \<Rightarrow> AList.update event_type occurred_at out
       | Some prev \<Rightarrow> if prev < occurred_at then AList.update event_type occurred_at out else out) rows []"

definition timedelta_minutes :: "int \<Rightarrow> eval_exn + timedelta" where
  \<comment> \<open>\<open>timedelta(minutes=n)\<close> holds fewer than a thousand million days\<close>
  "timedelta_minutes n = (if n div 1440 < - 999999999 \<or> 999999999 < n div 1440 then Inl ConfigOverflowError else Inr (minutes n))"

definition event_score_should_notify ::
  "alert_status option \<Rightarrow> instant option \<Rightarrow> instant \<Rightarrow> instant option \<Rightarrow> instant \<Rightarrow> int \<Rightarrow> eval_exn + bool" where
  "event_score_should_notify current_state last_notified_at last_qualifying_at last_fired_qualifying_at now cooldown_minutes =
     (if current_state = None \<or> current_state = Some Resolved then Inr True
      else case last_notified_at of None \<Rightarrow> Inr True
       | Some notified \<Rightarrow>
           if (case last_fired_qualifying_at of None \<Rightarrow> False | Some fired \<Rightarrow> last_qualifying_at \<le> fired) then Inr False
           else and_then (timedelta_minutes cooldown_minutes) (\<lambda>cooldown. Inr (cooldown \<le> now - notified)))"

subsection \<open>State rows and queued notifications (alert\_eval\_common.py)\<close>

definition metric_context_key :: "uuid \<Rightarrow> string \<Rightarrow> string" where
  "metric_context_key vid moid = uuid_str vid @ '':'' @ moid"

definition is_vcenter_scoped_context_key :: "string \<Rightarrow> bool" where
  "is_vcenter_scoped_context_key k =
     (let prefix = takeWhile (\<lambda>c. c \<noteq> CHR '':'') k; rest = drop (length prefix + 1) k
      in CHR '':'' \<in> set k \<and> prefix \<noteq> '''' \<and> rest \<noteq> '''' \<and> uuid_parse prefix \<noteq> None)"

definition queue_notify :: "alert_rule \<Rightarrow> alert_state \<Rightarrow> details \<Rightarrow> pending" where
  "queue_notify rule st extra_context =
     \<lparr>pn_rule_id = ar_id rule, pn_rule_name = ar_name rule, pn_rule_type = ar_rule_type rule,
      pn_level = (if ar_level rule = '''' then ''warning'' else ar_level rule), pn_state = al_state st,
      pn_context_key = al_context_key st, pn_fired_at = al_fired_at st, pn_resolved_at = al_resolved_at st,
      pn_details = extra_context\<rparr>"

definition find_state :: "nat \<Rightarrow> string \<Rightarrow> alert_state list \<Rightarrow> alert_state option" where
  "find_state rid key rows = find (\<lambda>st. al_rule_id st = rid \<and> al_context_key st = key) rows"

definition put_state :: "alert_state \<Rightarrow> alert_state list \<Rightarrow> alert_state list" where
  \<comment> \<open>insert a row or write back a changed one\<close>
  "put_state st rows =
     (if find_state (al_rule_id st) (al_context_key st) rows = None then rows @ [st]
      else map (\<lambda>x. if al_rule_id x = al_rule_id st \<and> al_context_key x = al_context_key st then st else x) rows)"

definition put_next :: "alert_state option \<times> pending list \<Rightarrow> alert_state list \<Rightarrow> alert_state list \<times> pending list" where
  "put_next r rows = (case fst r of None \<Rightarrow> rows | Some st \<Rightarrow> put_state st rows, snd r)"

fun each :: "('i \<Rightarrow> alert_state list \<Rightarrow> eval_exn + alert_state list \<times> pending list) \<Rightarrow> 'i list \<Rightarrow> alert_state list \<Rightarrow>
    eval_exn + alert_state list \<times> pending list" where
  \<comment> \<open>a loop of an evaluation, collecting the queued notifications\<close>
  "each f [] rows = Inr (rows, [])"
| "each f (i # is) rows = and_then (f i rows) (\<lambda>(rows, ps). and_then (each f is rows) (\<lambda>(rows, qs). Inr (rows, ps @ qs)))"

definition persist_pending :: "delivery_env \<Rightarrow> alert_settings \<Rightarrow> instant \<Rightarrow> alert_db \<Rightarrow> alert_state list \<times> pending list \<Rightarrow> alert_db" where
  \<comment> \<open>commit the states with their notifications\<close>
  "persist_pending E s now db changes = fold (enqueue_notification E s now) (snd changes) (db\<lparr>alert_states := fst changes\<rparr>)"

subsection \<open>event\_score rules (alert\_eval\_event\_score.py)\<close>

definition event_next ::
  "alert_rule \<Rightarrow> instant \<Rightarrow> int \<Rightarrow> (string, string \<times> int) dict \<Rightarrow> string \<times> instant \<Rightarrow> alert_state option \<Rightarrow>
   eval_exn + alert_state option \<times> pending list" where
  \<comment> \<open>the body of the loop over the event types\<close>
  "event_next rule now cooldown event_details item current =
     (let event_type = fst item; last_at = snd item
      in and_then (event_score_should_notify (map_option al_state current)
             (case current of None \<Rightarrow> None | Some c \<Rightarrow> al_last_notified_at c) last_at (map_option al_fired_at current) now cooldown)
        (\<lambda>notify.
          if notify
          then let (message, score) = (case map_of event_details event_type of None \<Rightarrow> ('''', 0) | Some d \<Rightarrow> d);
                   st = (case current of
                      None \<Rightarrow> \<lparr>al_rule_id = ar_id rule, al_state = Firing, al_context_key = event_type, al_fired_at = last_at,
                              al_resolved_at = None, al_last_notified_at = Some now\<rparr>
                    | Some c \<Rightarrow> c\<lparr>al_state := Firing, al_fired_at := last_at, al_last_notified_at := Some now, al_resolved_at := None\<rparr>)
               in Inr (Some st, [queue_notify rule st (NotableDetails message score)])
          else Inr (map_option (\<lambda>c. if al_state c = Firing then c\<lparr>al_fired_at := last_at\<rparr> else c) current, [])))"

definition event_item ::
  "alert_rule \<Rightarrow> instant \<Rightarrow> int \<Rightarrow> (string, string \<times> int) dict \<Rightarrow> string \<times> instant \<Rightarrow> alert_state list \<Rightarrow>
   eval_exn + alert_state list \<times> pending list" where
  "event_item rule now cooldown event_details item rows =
     and_then (event_next rule now cooldown event_details item (find_state (ar_id rule) (fst item) rows))
       (\<lambda>r. Inr (put_next r rows))"

definition qualifying :: "alert_settings \<Rightarrow> instant \<Rightarrow> int \<Rightarrow> store \<Rightarrow> event_row list" where
  "qualifying s now threshold es =
     filter (\<lambda>r. threshold \<le> er_score r \<and> event_eval_window_start now (event_eval_lookback_hours s) \<le> er_occurred_at r) (events es)"

definition merged :: "event_row list \<Rightarrow> (string, instant) dict" where
  "merged records = merge_latest_qualifying_by_event_type (map (\<lambda>r. (er_type r, er_occurred_at r)) records)"

definition details_of :: "event_row list \<Rightarrow> (string, string \<times> int) dict" where
  "details_of records = fold (\<lambda>r d. if map_of (merged records) (er_type r) = Some (er_occurred_at r)
     then AList.update (er_type r) (er_message r, er_score r) d else d) records []"

definition event_score_changes ::
  "alert_settings \<Rightarrow> store \<Rightarrow> instant \<Rightarrow> alert_rule \<Rightarrow> alert_state list \<Rightarrow> eval_exn + (alert_state list \<times> pending list)" where
  \<comment> \<open>everything before \<open>persist_pending\<close>\<close>
  "event_score_changes s es now rule rows =
     and_then (parse_event_score_rule_config (ar_config rule)) (\<lambda>parsed.
       case parsed of None \<Rightarrow> Inr (rows, [])
       | Some cfg \<Rightarrow> let records = qualifying s now (cfg_threshold cfg) es
           in each (event_item rule now (cfg_cooldown_minutes cfg) (details_of records)) (merged records) rows)"

definition evaluate_event_score_rule ::
  "delivery_env \<Rightarrow> alert_settings \<Rightarrow> store \<Rightarrow> instant \<Rightarrow> alert_rule \<Rightarrow> alert_db \<Rightarrow> eval_exn + alert_db \<times> nat \<times> nat" where
  "evaluate_event_score_rule E s es now rule db =
     and_then (event_score_changes s es now rule (alert_states db)) (\<lambda>changes.
       Inr (persist_pending E s now db changes, length (snd changes), 0))"

subsection \<open>metric\_threshold rules (alert\_eval\_metric.py)\<close>

definition at_least_int :: "pyfloat \<Rightarrow> int \<Rightarrow> bool" where
  "at_least_int v i = (case v of Fin r \<Rightarrow> of_int i \<le> r | PosInf \<Rightarrow> True | _ \<Rightarrow> False)"

definition at_least_float :: "pyfloat \<Rightarrow> pyfloat \<Rightarrow> bool" where
  "at_least_float v w =
     (case (v, w) of (NaN, _) \<Rightarrow> False | (_, NaN) \<Rightarrow> False | (PosInf, _) \<Rightarrow> True | (_, NegInf) \<Rightarrow> True
      | (Fin x, Fin y) \<Rightarrow> y \<le> x | _ \<Rightarrow> False)"

definition is_above :: "pyfloat \<Rightarrow> json \<Rightarrow> eval_exn + bool" where
  \<comment> \<open>\<open>sample.value >= threshold\<close>\<close>
  "is_above v threshold =
     (case threshold of JInt i \<Rightarrow> Inr (at_least_int v i) | JBool b \<Rightarrow> Inr (at_least_int v (if b then 1 else 0))
      | JFloat w \<Rightarrow> Inr (at_least_float v w) | _ \<Rightarrow> Inl ConfigTypeError)"

definition metric_next ::
  "alert_rule \<Rightarrow> string \<Rightarrow> json \<Rightarrow> string \<times> metric_row \<Rightarrow> alert_state option \<Rightarrow> eval_exn + alert_state option \<times> pending list" where
  \<comment> \<open>the body of the loop over the latest samples\<close>
  "metric_next rule key threshold item current =
     (let context_key = fst item; sample = snd item
      in and_then (is_above (mr_value sample) threshold) (\<lambda>above.
        let fire = (\<lambda>st. Inr (Some st, [queue_notify rule st (ReachedDetails key (mr_value sample) threshold (mr_entity_name sample))]))
        in case current of
          None \<Rightarrow>
            if above then fire \<lparr>al_rule_id = ar_id rule, al_state = Firing, al_context_key = context_key,
                al_fired_at = mr_sampled_at sample, al_resolved_at = None, al_last_notified_at = None\<rparr>
            else Inr (None, [])
        | Some c \<Rightarrow>
            if above
            then (if al_state c \<in> {Resolved, Stale}
                  then fire (c\<lparr>al_state := Firing, al_fired_at := mr_sampled_at sample, al_resolved_at := None\<rparr>)
                  else Inr (current, []))
            else if al_state c \<in> {Firing, Stale}
            then let st = c\<lparr>al_state := Resolved, al_resolved_at := Some (mr_sampled_at sample)\<rparr>
                 in Inr (Some st, [queue_notify rule st (DroppedDetails key (mr_value sample) threshold (mr_entity_name sample))])
            else Inr (current, [])))"

definition metric_item ::
  "alert_rule \<Rightarrow> string \<Rightarrow> json \<Rightarrow> string \<times> metric_row \<Rightarrow> alert_state list \<Rightarrow> eval_exn + alert_state list \<times> pending list" where
  "metric_item rule key threshold item rows =
     and_then (metric_next rule key threshold item (find_state (ar_id rule) (fst item) rows)) (\<lambda>r. Inr (put_next r rows))"

definition stale_next :: "alert_settings \<Rightarrow> alert_rule \<Rightarrow> string \<Rightarrow> alert_state \<Rightarrow> alert_state option \<times> pending list" where
  \<comment> \<open>the body of the loop over the states without a fresh sample\<close>
  "stale_next s rule key c =
     (if al_state c \<noteq> Firing then (Some c, [])
      else let st = c\<lparr>al_state := Stale, al_resolved_at := None\<rparr>
        in (Some st, [queue_notify rule st (StaleDetails key (al_context_key c) (metric_staleness_seconds s))]))"

definition stale_item ::
  "alert_settings \<Rightarrow> alert_rule \<Rightarrow> string \<Rightarrow> string set \<Rightarrow> string \<Rightarrow> alert_state list \<Rightarrow> eval_exn + alert_state list \<times> pending list" where
  "stale_item s rule key seen_keys context_key rows =
     Inr (case find_state (ar_id rule) context_key rows of
        None \<Rightarrow> (rows, [])
      | Some c \<Rightarrow> if context_key \<in> seen_keys then (rows, []) else put_next (stale_next s rule key c) rows)"

definition latest_rows :: "string \<Rightarrow> instant \<Rightarrow> store \<Rightarrow> metric_row list" where
  \<comment> \<open>the fresh samples with row number 1 in their partition; sample times in a partition are unique\<close>
  "latest_rows key cutoff es =
     (let fresh = filter (\<lambda>r. mr_metric_key r = key \<and> cutoff \<le> mr_sampled_at r) (metrics es)
      in filter (\<lambda>r. \<forall>q\<in>set fresh. mr_vcenter q = mr_vcenter r \<and> mr_entity_moid q = mr_entity_moid r \<longrightarrow>
                   mr_sampled_at q \<le> mr_sampled_at r) fresh)"

definition latest_samples :: "string \<Rightarrow> instant \<Rightarrow> store \<Rightarrow> (string, metric_row) dict" where
  "latest_samples key cutoff es =
     fold (\<lambda>r. AList.update (metric_context_key (mr_vcenter r) (mr_entity_moid r)) r) (latest_rows key cutoff es) []"

definition metric_threshold_changes ::
  "alert_settings \<Rightarrow> store \<Rightarrow> instant \<Rightarrow> alert_rule \<Rightarrow> alert_state list \<Rightarrow> eval_exn + alert_state list \<times> pending list" where
  \<comment> \<open>a key that is true but no text cannot be bound to the query\<close>
  "metric_threshold_changes s es now rule rows =
     (let metric_key = config_get (ar_config rule) ''metric_key''; threshold = config_get (ar_config rule) ''threshold''
      in if \<not> truthy metric_key \<or> threshold = JNull then Inr (rows, [])
         else case metric_key of
           JStr key \<Rightarrow>
             (let samples = latest_samples key (now - seconds (metric_staleness_seconds s)) es;
                  states = filter (\<lambda>st. al_rule_id st = ar_id rule) rows
              in if samples = [] \<and> \<not> (\<exists>st\<in>set states. al_state st \<in> {Firing, Stale}) then Inr (rows, [])
                 else and_then (each (metric_item rule key threshold) samples rows) (\<lambda>(rows, ps).
                   and_then (each (stale_item s rule key (fst ` set samples)) (map al_context_key states) rows) (\<lambda>(rows, qs).
                     Inr (rows, ps @ qs))))
         | _ \<Rightarrow> Inl DatabaseError)"

definition evaluate_metric_threshold_rule ::
  "delivery_env \<Rightarrow> alert_settings \<Rightarrow> store \<Rightarrow> instant \<Rightarrow> alert_rule \<Rightarrow> alert_db \<Rightarrow> eval_exn + alert_db \<times> nat \<times> nat" where
  "evaluate_metric_threshold_rule E s es now rule db =
     and_then (metric_threshold_changes s es now rule (alert_states db)) (\<lambda>changes.
       Inr (persist_pending E s now db changes, length (filter (\<lambda>p. pn_state p = Firing) (snd changes)),
            length (filter (\<lambda>p. pn_state p = Resolved) (snd changes))))"

subsection \<open>One loop, one key at a time\<close>

lemma find_state_keys: "find_state rid key rows = Some st \<Longrightarrow> st \<in> set rows \<and> al_rule_id st = rid \<and> al_context_key st = key"
  by (auto simp: find_state_def dest!: find_Some_iff_in)

lemma find_put_state:
  "find_state rid key (put_state st rows) =
     (if rid = al_rule_id st \<and> key = al_context_key st then Some st else find_state rid key rows)"
proof (cases "find_state (al_rule_id st) (al_context_key st) rows")
  case None
  then show ?thesis by (auto simp: put_state_def find_state_def find_append split: option.splits)
next
  case (Some old)
  let ?f = "\<lambda>x. if al_rule_id x = al_rule_id st \<and> al_context_key x = al_context_key st then st else x"
  have "find (\<lambda>x. al_rule_id x = rid \<and> al_context_key x = key) (map ?f rows) =
      map_option ?f (find (\<lambda>x. al_rule_id x = rid \<and> al_context_key x = key) rows)"
    by (rule find_map_if) auto
  then have "find_state rid key (put_state st rows) = map_option ?f (find_state rid key rows)"
    using Some by (simp add: put_state_def find_state_def)
  then show ?thesis using Some find_state_keys [of rid key rows] by (cases "find_state rid key rows") auto
qed

definition state_key :: "alert_state \<Rightarrow> nat \<times> string" where
  "state_key st = (al_rule_id st, al_context_key st)"

lemma find_state_None: "find_state rid key rows = None \<longleftrightarrow> (rid, key) \<notin> state_key ` set rows"
  by (auto simp: find_state_def find_None_iff state_key_def)

lemma put_state_keys: "state_key ` set (put_state st rows) = insert (state_key st) (state_key ` set rows)"
  using find_state_None [of "al_rule_id st" "al_context_key st" rows]
  by (auto simp: put_state_def state_key_def image_iff)

lemma put_state_distinct: "distinct (map state_key rows) \<Longrightarrow> distinct (map state_key (put_state st rows))"
proof (cases "find_state (al_rule_id st) (al_context_key st) rows")
  case None
  then show "distinct (map state_key rows) \<Longrightarrow> ?thesis"
    by (auto simp: put_state_def find_state_None state_key_def)
next
  case (Some old)
  moreover have "map state_key (map (\<lambda>x. if al_rule_id x = al_rule_id st \<and> al_context_key x = al_context_key st then st else x) rows)
      = map state_key rows" by (auto simp: state_key_def)
  ultimately show "distinct (map state_key rows) \<Longrightarrow> ?thesis" by (simp add: put_state_def del: map_map)
qed

definition own :: "nat \<Rightarrow> alert_state list \<Rightarrow> alert_state list" where
  \<comment> \<open>the state rows of one rule\<close>
  "own rid rows = filter (\<lambda>st. al_rule_id st = rid) rows"

lemma find_state_own [simp]: "find_state rid key (own rid rows) = find_state rid key rows"
  unfolding find_state_def own_def by (rule find_filter_other) simp

lemma own_put_state:
  "own rid (put_state st rows) = (if al_rule_id st = rid then put_state st (own rid rows) else own rid rows)"
proof -
  let ?f = "\<lambda>x. if al_rule_id x = al_rule_id st \<and> al_context_key x = al_context_key st then st else x"
  have "own rid (map ?f rows) = (if al_rule_id st = rid then map ?f (own rid rows) else own rid rows)"
    by (induction rows) (auto simp: own_def)
  then show ?thesis by (auto simp: put_state_def) (auto simp: own_def)
qed

text \<open>The loops of both evaluators have one shape: the body reads and writes the state row of its own key only.\<close>

locale state_loop =
  fixes rid :: nat
    and f :: "'i \<Rightarrow> alert_state list \<Rightarrow> eval_exn + alert_state list \<times> pending list"
    and g :: "'i \<Rightarrow> alert_state option \<Rightarrow> eval_exn + alert_state option \<times> pending list"
    and k :: "'i \<Rightarrow> string"
  assumes body: "f i rows = and_then (g i (find_state rid (k i) rows)) (\<lambda>r. Inr (put_next r rows))"
    and own_key: "g i cur = Inr r \<Longrightarrow> (\<forall>c. cur = Some c \<longrightarrow> state_key c = (rid, k i)) \<Longrightarrow>
       (\<forall>st. fst r = Some st \<longrightarrow> state_key st = (rid, k i))
       \<and> (\<forall>p\<in>set (snd r). pn_context_key p = k i \<and> pn_rule_id p = rid)"
begin

lemma body_Inr:
  assumes "f i rows = Inr (rows', ps)"
  shows "\<exists>r. g i (find_state rid (k i) rows) = Inr r \<and> ps = snd r \<and>
    (\<forall>rid' key. find_state rid' key rows' =
       (if rid' = rid \<and> key = k i \<and> fst r \<noteq> None then fst r else find_state rid' key rows))"
    and "\<forall>p\<in>set ps. pn_context_key p = k i \<and> pn_rule_id p = rid"
    and "distinct (map state_key rows) \<Longrightarrow> distinct (map state_key rows')"
    and "state_key ` set rows' \<subseteq> state_key ` set rows \<union> {(rid, k i)}"
proof -
  from assms obtain r where r: "g i (find_state rid (k i) rows) = Inr r" "(rows', ps) = put_next r rows"
    by (auto simp: body sum_step)
  have "\<forall>c. find_state rid (k i) rows = Some c \<longrightarrow> state_key c = (rid, k i)"
    by (auto simp: state_key_def dest: find_state_keys)
  note own = own_key [OF r(1) this]
  have rows': "rows' = (case fst r of None \<Rightarrow> rows | Some st \<Rightarrow> put_state st rows)" "ps = snd r"
    using r(2) by (simp_all add: put_next_def)
  have "\<forall>rid' key. find_state rid' key rows' = (if rid' = rid \<and> key = k i \<and> fst r \<noteq> None then fst r else find_state rid' key rows)"
    using own by (auto simp: rows' find_put_state state_key_def split: option.splits)
  with r(1) rows'(2) show "\<exists>r. g i (find_state rid (k i) rows) = Inr r \<and> ps = snd r \<and>
    (\<forall>rid' key. find_state rid' key rows' =
       (if rid' = rid \<and> key = k i \<and> fst r \<noteq> None then fst r else find_state rid' key rows))" by blast
  show "\<forall>p\<in>set ps. pn_context_key p = k i \<and> pn_rule_id p = rid" using own rows'(2) by blast
  show "distinct (map state_key rows) \<Longrightarrow> distinct (map state_key rows')"
    by (auto simp: rows' put_state_distinct split: option.splits)
  show "state_key ` set rows' \<subseteq> state_key ` set rows \<union> {(rid, k i)}"
    using own by (auto simp: rows' put_state_keys split: option.splits)
qed

lemma loop_keys:
  assumes "each f is rows = Inr (rows', ps)"
  shows "(\<forall>rid' key. rid' \<noteq> rid \<or> key \<notin> k ` set is \<longrightarrow> find_state rid' key rows' = find_state rid' key rows)
    \<and> (\<forall>p\<in>set ps. pn_context_key p \<in> k ` set is \<and> pn_rule_id p = rid)
    \<and> (distinct (map state_key rows) \<longrightarrow> distinct (map state_key rows'))
    \<and> state_key ` set rows' \<subseteq> state_key ` set rows \<union> {rid} \<times> (k ` set is)"
  using assms
proof (induction "is" arbitrary: rows rows' ps)
  case (Cons i "is")
  from Cons.prems obtain rows1 ps1 ps2 where i: "f i rows = Inr (rows1, ps1)" and rest: "each f is rows1 = Inr (rows', ps2)"
    and ps: "ps = ps1 @ ps2" by (auto simp: sum_step)
  note IH = Cons.IH [OF rest]
  have upd: "\<forall>rid' key. rid' \<noteq> rid \<or> key \<noteq> k i \<longrightarrow> find_state rid' key rows1 = find_state rid' key rows"
    using body_Inr(1) [OF i] by auto
  show ?case
  proof (intro conjI)
    show "\<forall>rid' key. rid' \<noteq> rid \<or> key \<notin> k ` set (i # is) \<longrightarrow> find_state rid' key rows' = find_state rid' key rows"
      using IH upd by auto
    show "\<forall>p\<in>set ps. pn_context_key p \<in> k ` set (i # is) \<and> pn_rule_id p = rid"
      using IH body_Inr(2) [OF i] ps by auto
    show "distinct (map state_key rows) \<longrightarrow> distinct (map state_key rows')" using IH body_Inr(3) [OF i] by simp
    have "state_key ` set rows' \<subseteq> state_key ` set rows1 \<union> {rid} \<times> (k ` set is)"
      by (rule IH [THEN conjunct2, THEN conjunct2, THEN conjunct2])
    moreover have "{rid} \<times> (k ` set (i # is)) = insert (rid, k i) ({rid} \<times> (k ` set is))" by auto
    ultimately show "state_key ` set rows' \<subseteq> state_key ` set rows \<union> {rid} \<times> (k ` set (i # is))"
      using body_Inr(4) [OF i] by (simp only: insert_is_Un [of _ "_ \<times> _"]) blast
  qed
qed auto

lemma loop_item:
  assumes "each f is rows = Inr (rows', ps)" "distinct (map k is)" "i \<in> set is"
  shows "\<exists>r. g i (find_state rid (k i) rows) = Inr r
    \<and> find_state rid (k i) rows' = (if fst r = None then find_state rid (k i) rows else fst r)
    \<and> filter (\<lambda>p. pn_context_key p = k i) ps = snd r"
  using assms
proof (induction "is" arbitrary: rows rows' ps)
  case (Cons j "is")
  from Cons.prems(1) obtain rows1 ps1 ps2 where j: "f j rows = Inr (rows1, ps1)" and rest: "each f is rows1 = Inr (rows', ps2)"
    and ps: "ps = ps1 @ ps2" by (auto simp: sum_step)
  from body_Inr(1) [OF j] obtain r where r: "g j (find_state rid (k j) rows) = Inr r" "ps1 = snd r"
    and upd: "\<forall>rid' key. find_state rid' key rows1 =
       (if rid' = rid \<and> key = k j \<and> fst r \<noteq> None then fst r else find_state rid' key rows)" by blast
  note own = body_Inr(2) [OF j]
  note keys = loop_keys [OF rest, THEN conjunct1] loop_keys [OF rest, THEN conjunct2, THEN conjunct1]
  show ?case
  proof (cases "i = j")
    case True
    then have "k i \<notin> k ` set is" using Cons.prems(2) by auto
    moreover have "filter (\<lambda>p. pn_context_key p = k i) ps2 = []" using keys(2) calculation unfolding filter_empty_conv by metis
    moreover have "filter (\<lambda>p. pn_context_key p = k i) ps1 = ps1" using own True by simp
    ultimately show ?thesis using r keys(1) upd ps True by auto
  next
    case False
    then have i: "i \<in> set is" using Cons.prems(3) by simp
    then have "k i \<in> k ` set is" "k j \<notin> k ` set is" using Cons.prems(2) by auto
    then have i: "i \<in> set is" "k i \<noteq> k j" using i by metis+
    then have none: "filter (\<lambda>p. pn_context_key p = k i) ps1 = []" using own by (auto simp: filter_empty_conv)
    have same: "find_state rid (k i) rows1 = find_state rid (k i) rows" using upd i(2) by simp
    have "distinct (map k is)" using Cons.prems(2) by simp
    from Cons.IH [OF rest this i(1)] show ?thesis unfolding ps filter_append none same append_Nil .
  qed
qed simp

lemma loop_ids:
  assumes "each f is rows = Inr (rows', ps)" "rid \<in> A" "fst ` state_key ` set rows \<subseteq> A"
  shows "fst ` state_key ` set rows' \<subseteq> A" and "pn_rule_id ` set ps \<subseteq> A"
proof -
  note keys = loop_keys [OF assms(1)]
  have "fst ` state_key ` set rows' \<subseteq> fst ` (state_key ` set rows \<union> {rid} \<times> (k ` set is))"
    by (rule image_mono) (use keys in blast)
  also have "\<dots> \<subseteq> A" using assms(2,3) by (simp only: image_Un) auto
  finally show "fst ` state_key ` set rows' \<subseteq> A" .
  show "pn_rule_id ` set ps \<subseteq> A" using keys assms(2) by auto
qed

lemma body_own:
  assumes "own rid rows = own rid rows2" "f i rows = Inr (rows', ps)"
  shows "\<exists>rows2'. f i rows2 = Inr (rows2', ps) \<and> own rid rows' = own rid rows2'"
proof -
  have same: "find_state rid (k i) rows2 = find_state rid (k i) rows" using assms(1) by (metis find_state_own)
  from assms(2) obtain r where r: "g i (find_state rid (k i) rows) = Inr r" "(rows', ps) = put_next r rows"
    by (auto simp: body sum_step)
  then show ?thesis using assms(1) by (auto simp: body same put_next_def own_put_state split: option.splits)
qed

lemma loop_own:
  assumes "own rid rows = own rid rows2"
  shows "each f is rows = Inr (rows', ps) \<Longrightarrow> \<exists>rows2'. each f is rows2 = Inr (rows2', ps) \<and> own rid rows' = own rid rows2'"
  using assms
proof (induction "is" arbitrary: rows rows2 rows' ps)
  case (Cons i "is")
  from Cons.prems(1) obtain rows1 ps1 ps2 where i: "f i rows = Inr (rows1, ps1)" and rest: "each f is rows1 = Inr (rows', ps2)"
    and ps: "ps = ps1 @ ps2" by (auto simp: sum_step)
  from body_own [OF Cons.prems(2) i] obtain r2 where r2: "f i rows2 = Inr (r2, ps1)" "own rid rows1 = own rid r2" by blast
  from Cons.IH [OF rest r2(2)] r2(1) show ?case by (auto simp: ps)
qed simp

lemma loop_others:
  assumes "each f is rows = Inr (rows', ps)" "rid' \<noteq> rid"
  shows "own rid' rows' = own rid' rows"
  using assms(1)
proof (induction "is" arbitrary: rows rows' ps)
  case (Cons i "is")
  from Cons.prems obtain rows1 ps1 ps2 where i: "f i rows = Inr (rows1, ps1)" and rest: "each f is rows1 = Inr (rows', ps2)"
    by (auto simp: sum_step)
  from i obtain r where r: "g i (find_state rid (k i) rows) = Inr r" "(rows1, ps1) = put_next r rows"
    by (auto simp: body sum_step)
  have "\<forall>c. find_state rid (k i) rows = Some c \<longrightarrow> state_key c = (rid, k i)"
    by (auto simp: state_key_def dest: find_state_keys)
  from own_key [OF r(1) this] have "own rid' rows1 = own rid' rows"
    using r(2) assms(2) by (auto simp: put_next_def own_put_state state_key_def split: option.splits)
  with Cons.IH [OF rest] show ?case by simp
qed simp

end

interpretation event_loop: state_loop "ar_id rule" "event_item rule now cooldown dts" "event_next rule now cooldown dts" fst
  for rule now cooldown dts
proof
  fix i cur r
  assume r: "event_next rule now cooldown dts i cur = Inr r" and k: "\<forall>c. cur = Some c \<longrightarrow> state_key c = (ar_id rule, fst i)"
  show "(\<forall>st. fst r = Some st \<longrightarrow> state_key st = (ar_id rule, fst i))
       \<and> (\<forall>p\<in>set (snd r). pn_context_key p = fst i \<and> pn_rule_id p = ar_id rule)"
    using r k by (cases cur) (auto simp: event_next_def sum_step Let_def state_key_def queue_notify_def split: if_splits option.splits prod.splits)
qed (simp add: event_item_def)

interpretation metric_loop: state_loop "ar_id rule" "metric_item rule key thr" "metric_next rule key thr" fst
  for rule key thr
proof
  fix i cur r
  assume r: "metric_next rule key thr i cur = Inr r" and k: "\<forall>c. cur = Some c \<longrightarrow> state_key c = (ar_id rule, fst i)"
  show "(\<forall>st. fst r = Some st \<longrightarrow> state_key st = (ar_id rule, fst i))
       \<and> (\<forall>p\<in>set (snd r). pn_context_key p = fst i \<and> pn_rule_id p = ar_id rule)"
    using r k by (cases cur) (auto simp: metric_next_def sum_step Let_def state_key_def queue_notify_def split: if_splits)
qed (simp add: metric_item_def)

definition stale_step :: "alert_settings \<Rightarrow> alert_rule \<Rightarrow> string \<Rightarrow> string set \<Rightarrow> string \<Rightarrow> alert_state option \<Rightarrow>
    eval_exn + alert_state option \<times> pending list" where
  "stale_step s rule key seen i cur =
     Inr (case cur of None \<Rightarrow> (None, []) | Some c \<Rightarrow> if i \<in> seen then (None, []) else stale_next s rule key c)"

interpretation stale_loop: state_loop "ar_id rule" "stale_item s rule key seen" "stale_step s rule key seen" "\<lambda>i. i"
  for s rule key seen
proof
  fix i rows
  show "stale_item s rule key seen i rows =
      and_then (stale_step s rule key seen i (find_state (ar_id rule) i rows)) (\<lambda>r. Inr (put_next r rows))"
    by (simp add: stale_item_def stale_step_def put_next_def split: option.splits)
  fix cur r
  assume r: "stale_step s rule key seen i cur = Inr r" and k: "\<forall>c. cur = Some c \<longrightarrow> state_key c = (ar_id rule, i)"
  show "(\<forall>st. fst r = Some st \<longrightarrow> state_key st = (ar_id rule, i))
       \<and> (\<forall>p\<in>set (snd r). pn_context_key p = i \<and> pn_rule_id p = ar_id rule)"
    using r k by (cases cur) (auto simp: stale_step_def stale_next_def Let_def state_key_def queue_notify_def split: if_splits)
qed

subsection \<open>What a commit adds\<close>

definition announced :: "nat \<Rightarrow> string \<Rightarrow> alert_db \<Rightarrow> alert_db \<Rightarrow> alert_status list" where
  \<comment> \<open>the states the new history rows of one alert tell of\<close>
  "announced rid key db db' = map hi_state (filter (\<lambda>h. hi_rule_id h = rid \<and> hi_context_key h = key)
     (drop (length (alert_history db)) (alert_history db')))"

lemma enqueue_all_shape:
  "\<exists>hs. alert_history (fold (enqueue_notification E s now) ps db) = alert_history db @ hs
     \<and> map (\<lambda>h. (hi_rule_id h, hi_context_key h, hi_state h, hi_notified_at h)) hs
         = map (\<lambda>p. (pn_rule_id p, pn_context_key p, pn_state p, now)) ps
     \<and> alert_states (fold (enqueue_notification E s now) ps db) = alert_states db
     \<and> alert_rules (fold (enqueue_notification E s now) ps db) = alert_rules db"
proof (induction ps arbitrary: db)
  case (Cons p ps)
  obtain h new sn where e: "enqueue_notification E s now p db = db\<lparr>alert_history := alert_history db @ [h],
      history_seq := Suc (history_seq db), outbox := outbox db @ new, snapshots := sn\<rparr>"
    and h: "history_for p (history_seq db) now h" by (rule enqueue_shape)
  from Cons.IH [of "enqueue_notification E s now p db"] obtain hs where
    "alert_history (fold (enqueue_notification E s now) ps (enqueue_notification E s now p db)) = alert_history db @ [h] @ hs"
    "map (\<lambda>h. (hi_rule_id h, hi_context_key h, hi_state h, hi_notified_at h)) hs
         = map (\<lambda>p. (pn_rule_id p, pn_context_key p, pn_state p, now)) ps"
    "alert_states (fold (enqueue_notification E s now) ps (enqueue_notification E s now p db)) = alert_states db"
    "alert_rules (fold (enqueue_notification E s now) ps (enqueue_notification E s now p db)) = alert_rules db"
    by (auto simp: e)
  then show ?case using h by (intro exI [of _ "h # hs"]) (simp add: history_for_def)
qed simp

lemma announced_persist:
  "announced rid key db (persist_pending E s now db changes) =
     map pn_state (filter (\<lambda>p. pn_rule_id p = rid \<and> pn_context_key p = key) (snd changes))"
proof -
  obtain hs where hs: "alert_history (persist_pending E s now db changes) = alert_history db @ hs"
    "map (\<lambda>h. (hi_rule_id h, hi_context_key h, hi_state h, hi_notified_at h)) hs
       = map (\<lambda>p. (pn_rule_id p, pn_context_key p, pn_state p, now)) (snd changes)"
    using enqueue_all_shape [of E s now "snd changes" "db\<lparr>alert_states := fst changes\<rparr>"]
    by (auto simp: persist_pending_def)
  have "map hi_state (filter (\<lambda>h. hi_rule_id h = rid \<and> hi_context_key h = key) hs) =
      map pn_state (filter (\<lambda>p. pn_rule_id p = rid \<and> pn_context_key p = key) ps)"
    if "map (\<lambda>h. (hi_rule_id h, hi_context_key h, hi_state h, hi_notified_at h)) hs
       = map (\<lambda>p. (pn_rule_id p, pn_context_key p, pn_state p, now)) ps" for ps
    using that by (induction ps arbitrary: hs) (auto simp: Cons_eq_map_conv map_eq_Cons_conv)
  from this [OF hs(2)] hs(1) show ?thesis by (simp add: announced_def)
qed

lemma persist_states [simp]:
  "alert_states (persist_pending E s now db changes) = fst changes"
  "alert_rules (persist_pending E s now db changes) = alert_rules db"
  using enqueue_all_shape [of E s now "snd changes" "db\<lparr>alert_states := fst changes\<rparr>"]
  by (auto simp: persist_pending_def)

subsection \<open>The latest event of a type, the latest sample of an entity\<close>

lemma distinct_update: "distinct (map fst d) \<Longrightarrow> distinct (map fst (AList.update k v d))"
  by (rule AList.distinct_update)

lemma merge_latest:
  "distinct (map fst (merge_latest_qualifying_by_event_type rows))
   \<and> (map_of (merge_latest_qualifying_by_event_type rows) ty = Some t
       \<longleftrightarrow> (ty, t) \<in> set rows \<and> (\<forall>t'. (ty, t') \<in> set rows \<longrightarrow> t' \<le> t))"
proof (induction rows arbitrary: ty t rule: rev_induct)
  case Nil
  then show ?case by (simp add: merge_latest_qualifying_by_event_type_def)
next
  case (snoc r rows)
  obtain ty' t' where r: "r = (ty', t')" by (cases r)
  let ?m = "merge_latest_qualifying_by_event_type rows"
  have step: "merge_latest_qualifying_by_event_type (rows @ [r]) =
      (case map_of ?m ty' of None \<Rightarrow> AList.update ty' t' ?m | Some prev \<Rightarrow> if prev < t' then AList.update ty' t' ?m else ?m)"
    unfolding merge_latest_qualifying_by_event_type_def r by simp
  have d: "distinct (map fst ?m)" using snoc.IH by blast
  have none: "map_of ?m ty' = None \<longleftrightarrow> (\<forall>t. (ty', t) \<notin> set rows)"
  proof
    assume n: "map_of ?m ty' = None"
    show "\<forall>t. (ty', t) \<notin> set rows"
    proof (rule ccontr)
      assume "\<not> ?thesis"
      then have ne: "{t. (ty', t) \<in> set rows} \<noteq> {}" by auto
      have fin: "finite {t. (ty', t) \<in> set rows}"
        by (rule finite_subset [of _ "snd ` set rows"]) (auto simp: rev_image_eqI)
      have "map_of ?m ty' = Some (Max {t. (ty', t) \<in> set rows})"
        using snoc.IH Max_in [OF fin ne] Max_ge [OF fin] by blast
      with n show False by simp
    qed
  next
    show "\<forall>t. (ty', t) \<notin> set rows \<Longrightarrow> map_of ?m ty' = None"
      using snoc.IH by (metis option.exhaust)
  qed
  show ?case
  proof (cases "map_of ?m ty'")
    case None
    then show ?thesis using none snoc.IH d unfolding step by (auto simp: r update_conv' distinct_update)
  next
    case (Some prev)
    with snoc.IH have prev: "(ty', prev) \<in> set rows" "\<And>t'. (ty', t') \<in> set rows \<Longrightarrow> t' \<le> prev" by auto
    show ?thesis
    proof (cases "ty = ty'")
      case False
      then have "map_of (merge_latest_qualifying_by_event_type (rows @ [r])) ty = map_of ?m ty"
        by (simp add: step Some update_conv')
      moreover have "distinct (map fst (merge_latest_qualifying_by_event_type (rows @ [r])))"
        using d by (simp add: step Some distinct_update)
      moreover have "(ty, u) \<in> set (rows @ [r]) \<longleftrightarrow> (ty, u) \<in> set rows" for u using False r by simp
      ultimately show ?thesis using snoc.IH by metis
    next
      case ty: True
      show ?thesis
      proof (cases "prev < t'")
        case True
        then have "\<And>u. (ty, u) \<in> set rows \<Longrightarrow> u < t'" using prev(2) ty by fastforce
        then show ?thesis using True Some d ty unfolding step
          by (auto simp: r update_conv' distinct_update dest: order.antisym intro: less_imp_le)
      next
        case False
        then have "(map_of ?m ty = Some t) = (t = prev)" using Some ty by auto
        then show ?thesis using False Some d ty prev unfolding step by (auto simp: r intro: order.antisym)
      qed
    qed
  qed
qed

end
