(* ===== verification/AlertRules.thy ===== *)
theory AlertRules
  imports AlertEval
begin

section \<open>When alerts fire, resolve and are announced (services/alerting/alert\_eval.py)\<close>

text \<open>
  The orchestration of an evaluation, the manual resolution, and what both kinds of rules do to the state
  of one alert and to its notifications.
\<close>

definition evaluate_rule ::
  "delivery_env \<Rightarrow> alert_settings \<Rightarrow> store \<Rightarrow> instant \<Rightarrow> alert_rule \<Rightarrow> alert_db \<Rightarrow> eval_exn + alert_db \<times> nat \<times> nat" where
  \<comment> \<open>the dispatch on \<open>_RULE_EVALUATORS\<close>\<close>
  "evaluate_rule E s es now rule db =
     (if ar_rule_type rule = ''event_score'' then evaluate_event_score_rule E s es now rule db
      else if ar_rule_type rule = ''metric_threshold'' then evaluate_metric_threshold_rule E s es now rule db
      else Inr (db, 0, 0))"

record alert_eval_summary =
  rules_enabled :: nat
  firings :: nat
  resolutions :: nat

fun evaluate_rules ::
  "delivery_env \<Rightarrow> alert_settings \<Rightarrow> store \<Rightarrow> (alert_rule \<Rightarrow> instant) \<Rightarrow> alert_rule list \<Rightarrow> alert_db \<Rightarrow> alert_eval_summary \<Rightarrow>
   alert_db \<times> alert_eval_summary" where
  \<comment> \<open>a rule that raises is logged and skipped\<close>
  "evaluate_rules E s es clock [] db sm = (db, sm)"
| "evaluate_rules E s es clock (r # rs) db sm =
     (case evaluate_rule E s es (clock r) r db of
        Inl _ \<Rightarrow> evaluate_rules E s es clock rs db sm
      | Inr (db, f, n) \<Rightarrow> evaluate_rules E s es clock rs db (sm\<lparr>firings := firings sm + f, resolutions := resolutions sm + n\<rparr>))"

definition evaluate_all ::
  "delivery_env \<Rightarrow> alert_settings \<Rightarrow> store \<Rightarrow> (alert_rule \<Rightarrow> instant) \<Rightarrow> alert_db \<Rightarrow> alert_db \<times> alert_eval_summary" where
  "evaluate_all E s es clock db =
     (let enabled = filter ar_enabled (alert_rules db)
      in evaluate_rules E s es clock enabled db \<lparr>rules_enabled = length enabled, firings = 0, resolutions = 0\<rparr>)"

datatype manual_error = RuleNotFound | NotEventScore | NotFiring
  \<comment> \<open>\<open>LookupError\<close>, \<open>ValueError\<close>, \<open>LookupError\<close>\<close>

definition resolve_event_score_manually ::
  "delivery_env \<Rightarrow> alert_settings \<Rightarrow> instant \<Rightarrow> nat \<Rightarrow> string \<Rightarrow> alert_db \<Rightarrow> manual_error + alert_db" where
  "resolve_event_score_manually E s now rid context_key db =
     (case find (\<lambda>r. ar_id r = rid) (alert_rules db) of
        None \<Rightarrow> Inl RuleNotFound
      | Some rule \<Rightarrow>
          if ar_rule_type rule \<noteq> ''event_score'' then Inl NotEventScore
          else case find_state rid context_key (filter (\<lambda>st. al_state st = Firing) (alert_states db)) of
            None \<Rightarrow> Inl NotFiring
          | Some c \<Rightarrow>
              let st = c\<lparr>al_state := Resolved, al_resolved_at := Some now\<rparr>
              in Inr (persist_pending E s now db
                   (put_state st (alert_states db), [queue_notify rule st (ManualDetails context_key)])))"

subsection \<open>A rule, its events and its samples\<close>

definition sample_event :: "int \<Rightarrow> event_row" where
  "sample_event t = \<lparr>er_vcenter = 7, er_collector = ''builtin'', er_occurred_at = t, er_type = ''vim.event.X'', er_message = ''x'',
     er_severity = None, er_user_name = None, er_entity_name = None, er_entity_type = None, er_vmware_key = t, er_chain_id = None,
     er_score = 70, er_tags = [], er_comment = None\<rparr>"

definition sample_store :: "int list \<Rightarrow> metric_row list \<Rightarrow> store" where
  "sample_store ts ms = \<lparr>events = map sample_event ts, metrics = ms, logs = [], rules = [], ingestion_states = [], run_states = []\<rparr>"

definition sample_rule :: alert_rule where
  "sample_rule = \<lparr>ar_id = 1, ar_name = ''x'', ar_rule_type = ''event_score'', ar_enabled = True, ar_level = ''warning'',
     ar_config = [(''threshold'', JInt 60), (''cooldown_minutes'', JInt 10)]\<rparr>"

definition sample_alert_db :: alert_db where
  "sample_alert_db = empty_alert_db\<lparr>alert_rules := [sample_rule]\<rparr>"

abbreviation sample_evaluate :: "int list \<Rightarrow> instant \<Rightarrow> alert_db \<Rightarrow> eval_exn + alert_db \<times> nat \<times> nat" where
  "sample_evaluate ts now db \<equiv>
     evaluate_event_score_rule sample_delivery_env sample_alert_settings (sample_store ts []) now sample_rule db"

definition after_run :: "eval_exn + alert_db \<times> nat \<times> nat \<Rightarrow> alert_db" where
  "after_run r = (case r of Inr (db, _) \<Rightarrow> db | Inl _ \<Rightarrow> sample_alert_db)"

lemma after_run: "isl r = False \<Longrightarrow> \<exists>f n. r = Inr (after_run r, f, n)"
  by (cases r) (auto simp: after_run_def)

lemma sample_config: "parse_event_score_rule_config (ar_config sample_rule) = Inr (Some \<lparr>cfg_threshold = 60, cfg_cooldown_minutes = 10\<rparr>)"
  by code_simp

subsection \<open>event\_score rules, type by type\<close>

definition is_latest :: "event_row list \<Rightarrow> string \<Rightarrow> instant \<Rightarrow> bool" where
  "is_latest records ty t =
     ((\<exists>r\<in>set records. er_type r = ty \<and> er_occurred_at r = t) \<and> (\<forall>r\<in>set records. er_type r = ty \<longrightarrow> er_occurred_at r \<le> t))"

lemma map_of_merged: "map_of (merged records) ty = Some t \<longleftrightarrow> is_latest records ty t"
proof -
  have "(ty, u) \<in> set (map (\<lambda>r. (er_type r, er_occurred_at r)) records)
      \<longleftrightarrow> (\<exists>r\<in>set records. er_type r = ty \<and> er_occurred_at r = u)" for u by auto
  then show ?thesis
    using merge_latest [of "map (\<lambda>r. (er_type r, er_occurred_at r)) records" ty t]
    unfolding merged_def is_latest_def by (metis (no_types, lifting))
qed

lemma distinct_merged: "distinct (map fst (merged records))"
  using merge_latest by (simp add: merged_def)

lemma map_of_merged_None: "map_of (merged records) ty = None \<longleftrightarrow> (\<forall>r\<in>set records. er_type r \<noteq> ty)"
proof
  assume n: "map_of (merged records) ty = None"
  show "\<forall>r\<in>set records. er_type r \<noteq> ty"
  proof (rule ccontr)
    let ?T = "er_occurred_at ` {r \<in> set records. er_type r = ty}"
    assume "\<not> ?thesis"
    then have "Max ?T \<in> ?T" by (intro Max_in) auto
    moreover have "\<forall>r\<in>set records. er_type r = ty \<longrightarrow> er_occurred_at r \<le> Max ?T" by (auto intro!: Max_ge)
    ultimately have "is_latest records ty (Max ?T)" unfolding is_latest_def by fastforce
    with n show False by (simp add: map_of_merged [symmetric])
  qed
next
  assume "\<forall>r\<in>set records. er_type r \<noteq> ty"
  then show "map_of (merged records) ty = None"
    using map_of_merged [of records ty] by (cases "map_of (merged records) ty") (auto simp: is_latest_def)
qed

lemma event_score_key:
  assumes "evaluate_event_score_rule E s es now rule db = Inr (db', nf, nr)"
    and "parse_event_score_rule_config (ar_config rule) = Inr (Some cfg)"
  defines "records \<equiv> qualifying s now (cfg_threshold cfg) es"
  shows "case map_of (merged records) ty of
      None \<Rightarrow> find_state (ar_id rule) ty (alert_states db') = find_state (ar_id rule) ty (alert_states db) \<and> announced (ar_id rule) ty db db' = []
    | Some t \<Rightarrow> \<exists>r. event_next rule now (cfg_cooldown_minutes cfg) (details_of records) (ty, t) (find_state (ar_id rule) ty (alert_states db)) = Inr r
        \<and> find_state (ar_id rule) ty (alert_states db') = (if fst r = None then find_state (ar_id rule) ty (alert_states db) else fst r)
        \<and> announced (ar_id rule) ty db db' = map pn_state (snd r)"
proof -
  from assms(1,2) obtain changes where ch: "each (event_item rule now (cfg_cooldown_minutes cfg) (details_of records)) (merged records) (alert_states db) = Inr changes"
    and db': "db' = persist_pending E s now db changes"
    by (auto simp: evaluate_event_score_rule_def event_score_changes_def records_def sum_step Let_def)
  obtain rows ps where c: "changes = (rows, ps)" by (cases changes)
  note keys = event_loop.loop_keys [OF ch [unfolded c]]
  have own: "filter (\<lambda>p. pn_rule_id p = ar_id rule \<and> pn_context_key p = ty) ps = filter (\<lambda>p. pn_context_key p = ty) ps"
    using keys by (intro filter_cong) auto
  show ?thesis
  proof (cases "map_of (merged records) ty")
    case None
    then have "ty \<notin> fst ` set (merged records)" by (simp add: map_of_eq_None_iff)
    then have "find_state (ar_id rule) ty rows = find_state (ar_id rule) ty (alert_states db)" "filter (\<lambda>p. pn_context_key p = ty) ps = []"
      using keys by (auto simp: filter_empty_conv)
    then show ?thesis using None by (simp add: db' c announced_persist own)
  next
    case (Some t)
    then have "(ty, t) \<in> set (merged records)" by (rule map_of_SomeD)
    from event_loop.loop_item [OF ch [unfolded c] distinct_merged this] obtain r where
      "event_next rule now (cfg_cooldown_minutes cfg) (details_of records) (ty, t) (find_state (ar_id rule) ty (alert_states db)) = Inr r"
      "find_state (ar_id rule) ty rows = (if fst r = None then find_state (ar_id rule) ty (alert_states db) else fst r)"
      "filter (\<lambda>p. pn_context_key p = ty) ps = snd r" by auto
    then show ?thesis unfolding Some option.case
      by (intro exI [of _ r] conjI) (simp_all add: db' c announced_persist own)
  qed
qed

definition due_notification :: "alert_state option \<Rightarrow> instant \<Rightarrow> instant \<Rightarrow> int \<Rightarrow> bool" where
  \<comment> \<open>the specification: a first or resolved alert always, a firing one for a newer event after the cooldown\<close>
  "due_notification cur last_at now cooldown =
     (case cur of None \<Rightarrow> True
      | Some c \<Rightarrow> al_state c = Resolved \<or> (case al_last_notified_at c of None \<Rightarrow> True
          | Some n \<Rightarrow> al_fired_at c < last_at \<and> n + minutes cooldown \<le> now))"

lemma event_next_due:
  assumes "event_next rule now cd dts (ty, t) cur = Inr r"
  shows "(if due_notification cur t now cd
      then map pn_state (snd r) = [Firing]
        \<and> (\<exists>st. fst r = Some st \<and> al_state st = Firing \<and> al_fired_at st = t \<and> al_last_notified_at st = Some now \<and> al_resolved_at st = None)
      else snd r = [] \<and> fst r = map_option (\<lambda>c. if al_state c = Firing then c\<lparr>al_fired_at := t\<rparr> else c) cur \<and> cur \<noteq> None)"
proof (cases cur)
  case None
  then show ?thesis using assms
    by (auto simp: event_next_def event_score_should_notify_def due_notification_def Let_def queue_notify_def split: option.splits)
next
  case (Some c)
  then show ?thesis using assms
    by (cases "al_last_notified_at c"; cases "al_state c = Resolved")
      (auto simp: event_next_def event_score_should_notify_def due_notification_def Let_def queue_notify_def sum_step
        timedelta_minutes_def split: option.splits if_splits)
qed

lemma event_score_due:
  assumes "evaluate_event_score_rule E s es now rule db = Inr (db', nf, nr)"
    and "parse_event_score_rule_config (ar_config rule) = Inr (Some cfg)"
    and "is_latest (qualifying s now (cfg_threshold cfg) es) ty t"
  defines "cur \<equiv> find_state (ar_id rule) ty (alert_states db)"
  shows "if due_notification cur t now (cfg_cooldown_minutes cfg)
     then announced (ar_id rule) ty db db' = [Firing]
        \<and> (\<exists>st. find_state (ar_id rule) ty (alert_states db') = Some st \<and> al_state st = Firing \<and> al_fired_at st = t
             \<and> al_last_notified_at st = Some now \<and> al_resolved_at st = None)
     else announced (ar_id rule) ty db db' = [] \<and> cur \<noteq> None
        \<and> find_state (ar_id rule) ty (alert_states db') = map_option (\<lambda>c. if al_state c = Firing then c\<lparr>al_fired_at := t\<rparr> else c) cur"
proof -
  have "map_of (merged (qualifying s now (cfg_threshold cfg) es)) ty = Some t" using assms(3) by (simp add: map_of_merged)
  with event_score_key [OF assms(1,2), of ty] obtain r where
    r: "event_next rule now (cfg_cooldown_minutes cfg) (details_of (qualifying s now (cfg_threshold cfg) es)) (ty, t) cur = Inr r"
    and f: "find_state (ar_id rule) ty (alert_states db') = (if fst r = None then cur else fst r)"
    and a: "announced (ar_id rule) ty db db' = map pn_state (snd r)" unfolding cur_def by auto
  show ?thesis using event_next_due [OF r] unfolding f a by (cases cur) (auto split: if_splits)
qed



subsection \<open>The cooldown over many evaluations\<close>

fun notification_times ::
  "delivery_env \<Rightarrow> alert_settings \<Rightarrow> alert_rule \<Rightarrow> string \<Rightarrow> (instant \<times> store) list \<Rightarrow> alert_db \<Rightarrow> instant list" where
  \<comment> \<open>when a type is announced in a sequence of evaluations of a rule, whatever the events then are\<close>
  "notification_times E s rule ty [] db = []"
| "notification_times E s rule ty ((now, es) # evals) db =
     (case evaluate_event_score_rule E s es now rule db of
        Inl _ \<Rightarrow> notification_times E s rule ty evals db
      | Inr (db', _) \<Rightarrow> map (\<lambda>_. now) (announced (ar_id rule) ty db db') @ notification_times E s rule ty evals db')"

lemma parsed_config_ok:
  assumes "parse_event_score_rule_config raw = Inr (Some cfg)"
  shows "1 \<le> cfg_cooldown_minutes cfg \<and> 0 \<le> cfg_threshold cfg \<and> cfg_threshold cfg \<le> 100"
  using assms unfolding parse_event_score_rule_config_def Let_def and_then_def
  by (auto split: sum.splits option.splits if_splits)

lemma cooldown_holds:
  assumes cfg: "parse_event_score_rule_config (ar_config rule) = Inr (Some cfg)"
  shows "(\<forall>c n. find_state (ar_id rule) ty (alert_states db) = Some c \<longrightarrow> al_state c = Firing \<longrightarrow> al_last_notified_at c = Some n \<longrightarrow>
       (\<forall>t\<in>set (notification_times E s rule ty evals db). n + minutes (cfg_cooldown_minutes cfg) \<le> t))
    \<and> sorted_wrt (\<lambda>t u. t + minutes (cfg_cooldown_minutes cfg) \<le> u) (notification_times E s rule ty evals db)"
proof (induction evals arbitrary: db)
  case (Cons e evals)
  obtain now es where e: "e = (now, es)" by (cases e)
  let ?cd = "minutes (cfg_cooldown_minutes cfg)" and ?Q = "qualifying s now (cfg_threshold cfg) es"
  show ?case
  proof (cases "evaluate_event_score_rule E s es now rule db")
    case (Inl x)
    then show ?thesis using Cons.IH by (simp add: e)
  next
    case (Inr r)
    then obtain db' nf nr where ev: "evaluate_event_score_rule E s es now rule db = Inr (db', nf, nr)" by (cases r) auto
    note IH = Cons.IH [of db']
    show ?thesis
    proof (cases "map_of (merged ?Q) ty")
      case None
      with event_score_key [OF ev cfg, of ty] IH show ?thesis by (simp add: e ev)
    next
      case (Some t)
      then have l: "is_latest ?Q ty t" by (simp add: map_of_merged)
      note due = event_score_due [OF ev cfg l]
      have pos: "0 \<le> ?cd"
        using parsed_config_ok [OF cfg] by (simp add: minutes_def)
      show ?thesis
      proof (cases "due_notification (find_state (ar_id rule) ty (alert_states db)) t now (cfg_cooldown_minutes cfg)")
        case True
        then obtain st where a: "announced (ar_id rule) ty db db' = [Firing]" and
          st: "find_state (ar_id rule) ty (alert_states db') = Some st" "al_state st = Firing" "al_last_notified_at st = Some now"
          using due by auto
        have later: "\<forall>u\<in>set (notification_times E s rule ty evals db'). now + ?cd \<le> u" using IH st by blast
        have "n + ?cd \<le> now" if "find_state (ar_id rule) ty (alert_states db) = Some c" "al_state c = Firing" "al_last_notified_at c = Some n" for c n
          using True that by (simp add: due_notification_def)
        then show ?thesis using IH later a pos by (fastforce simp: e ev)
      next
        case False
        then show ?thesis using due IH by (auto simp: e ev split: if_splits)
      qed
    qed
  qed
qed simp

text \<open>C10: Over any sequence of evaluations of an event-score rule, with any events, any two notifications about one
  event type are at least the rule's cooldown apart.\<close>

theorem notifications_respect_the_cooldown:
  assumes "parse_event_score_rule_config (ar_config rule) = Inr (Some cfg)"
  shows "sorted_wrt (\<lambda>t u. t + minutes (cfg_cooldown_minutes cfg) \<le> u) (notification_times E s rule ty evals db)"
  using cooldown_holds [OF assms] by blast

lemma notifications_respect_the_cooldown_witness:
  "let ts = notification_times sample_delivery_env sample_alert_settings sample_rule ''vim.event.X''
      [(2000, sample_store [1000] []), (600005000, sample_store [600004000] [])] sample_alert_db
   in ts = [2000, 600005000] \<and> sorted_wrt (\<lambda>t u. t + minutes 10 \<le> u) ts"
proof -
  have "notification_times sample_delivery_env sample_alert_settings sample_rule ''vim.event.X''
      [(2000, sample_store [1000] []), (600005000, sample_store [600004000] [])] sample_alert_db
      = [2000, 600005000]" by code_simp
  then show ?thesis using notifications_respect_the_cooldown [OF sample_config, of sample_delivery_env sample_alert_settings "''vim.event.X''"
      "[(2000, sample_store [1000] []), (600005000, sample_store [600004000] [])]" sample_alert_db]
    by (simp add: Let_def)
qed

subsection \<open>Two ways in which the cooldown and the resolution do not do what is described\<close>

lemma qualifying_later: "now1 \<le> now2 \<Longrightarrow> set (qualifying s now2 th es) \<subseteq> set (qualifying s now1 th es)"
  by (auto simp: qualifying_def event_eval_window_start_def)

text \<open>An event that is seen while the cooldown of a firing alert still runs is never announced: the evaluation
  records it as the event of the last notification, so that no later evaluation of the same events,
  however long the cooldown is over, announces it.\<close>

theorem events_seen_in_the_cooldown_are_never_announced:
  assumes "parse_event_score_rule_config (ar_config rule) = Inr (Some cfg)"
    and "find_state (ar_id rule) ty (alert_states db) = Some c" "al_state c = Firing" "al_last_notified_at c = Some n"
    and "is_latest (qualifying s now1 (cfg_threshold cfg) es) ty t" "al_fired_at c < t"
    and "now1 < n + minutes (cfg_cooldown_minutes cfg)" "now1 \<le> now2"
    and "evaluate_event_score_rule E s es now1 rule db = Inr (db1, nf1, nr1)"
    and "evaluate_event_score_rule E s es now2 rule db1 = Inr (db2, nf2, nr2)"
  shows "announced (ar_id rule) ty db db1 = [] \<and> announced (ar_id rule) ty db1 db2 = []"
proof -
  have "\<not> due_notification (Some c) t now1 (cfg_cooldown_minutes cfg)"
    using assms(3,4,7) by (simp add: due_notification_def)
  with event_score_due [OF assms(9,1,5)] assms(2,3) have one: "announced (ar_id rule) ty db db1 = []"
    "find_state (ar_id rule) ty (alert_states db1) = Some (c\<lparr>al_fired_at := t\<rparr>)" by auto
  have "announced (ar_id rule) ty db1 db2 = []"
  proof (cases "map_of (merged (qualifying s now2 (cfg_threshold cfg) es)) ty")
    case None
    then show ?thesis using event_score_key [OF assms(10,1), of ty] by simp
  next
    case (Some u)
    then have u: "is_latest (qualifying s now2 (cfg_threshold cfg) es) ty u" by (simp add: map_of_merged)
    then have "u \<le> t" using assms(5) qualifying_later [OF assms(8), of s "cfg_threshold cfg" es]
      by (auto simp: is_latest_def)
    then have "\<not> due_notification (Some (c\<lparr>al_fired_at := t\<rparr>)) u now2 (cfg_cooldown_minutes cfg)"
      using assms(3,4) by (simp add: due_notification_def)
    with event_score_due [OF assms(10,1) u] one(2) show ?thesis by simp
  qed
  with one show ?thesis by simp
qed

lemma events_seen_in_the_cooldown_are_never_announced_witness:
  "let db0 = after_run (sample_evaluate [1000] 2000 sample_alert_db);
       db1 = after_run (sample_evaluate [1000, 2500] 3000 db0);
       db2 = after_run (sample_evaluate [1000, 2500] 1800000000 db1)
   in announced 1 ''vim.event.X'' db0 db1 = [] \<and> announced 1 ''vim.event.X'' db1 db2 = []
      \<and> 2000 + minutes 10 \<le> 1800000000"
proof -
  define db0 where "db0 = after_run (sample_evaluate [1000] 2000 sample_alert_db)"
  define r1 where "r1 = sample_evaluate [1000, 2500] 3000 db0"
  define r2 where "r2 = sample_evaluate [1000, 2500] 1800000000 (after_run r1)"
  have ok: "isl r1 = False" "isl r2 = False" unfolding r2_def r1_def db0_def by code_simp+
  obtain f1 n1 f2 n2 where r: "r1 = Inr (after_run r1, f1, n1)" "r2 = Inr (after_run r2, f2, n2)"
    using after_run [OF ok(1)] after_run [OF ok(2)] by blast
  have "case find_state 1 ''vim.event.X'' (alert_states db0) of None \<Rightarrow> False
     | Some c \<Rightarrow> al_state c = Firing \<and> al_last_notified_at c = Some 2000 \<and> al_fired_at c = 1000" unfolding db0_def by code_simp
  then obtain c where c: "find_state (ar_id sample_rule) ''vim.event.X'' (alert_states db0) = Some c" "al_state c = Firing"
    "al_last_notified_at c = Some 2000" "al_fired_at c = 1000" by (auto simp: sample_rule_def split: option.splits)
  have q: "is_latest (qualifying sample_alert_settings 3000 (cfg_threshold \<lparr>cfg_threshold = 60, cfg_cooldown_minutes = 10\<rparr>)
      (sample_store [1000, 2500] [])) ''vim.event.X'' 2500" by code_simp
  have e: "sample_evaluate [1000, 2500] 3000 db0 = Inr (after_run r1, f1, n1)"
    "sample_evaluate [1000, 2500] 1800000000 (after_run r1) = Inr (after_run r2, f2, n2)"
    using r by (simp_all only: r1_def [symmetric] r2_def [symmetric])
  have "announced (ar_id sample_rule) ''vim.event.X'' db0 (after_run r1) = [] \<and>
        announced (ar_id sample_rule) ''vim.event.X'' (after_run r1) (after_run r2) = []"
    by (rule events_seen_in_the_cooldown_are_never_announced [OF sample_config c(1,2,3) q _ _ _ e])
      (use c in \<open>simp_all add: minutes_def\<close>)
  then show ?thesis by (simp add: Let_def db0_def r1_def r2_def minutes_def sample_rule_def)
qed

lemma manual_resolve:
  assumes "resolve_event_score_manually E s now rid key db = Inr db'"
  obtains rule c where "rule \<in> set (alert_rules db)" "ar_id rule = rid" "ar_rule_type rule = ''event_score''"
    "c \<in> set (alert_states db)" "state_key c = (rid, key)" "al_state c = Firing"
    "find_state rid key (alert_states db') = Some (c\<lparr>al_state := Resolved, al_resolved_at := Some now\<rparr>)"
    "\<forall>rid' key'. (rid', key') \<noteq> (rid, key) \<longrightarrow> find_state rid' key' (alert_states db') = find_state rid' key' (alert_states db)"
    "announced rid key db db' = [Resolved]"
proof -
  from assms obtain rule c where r: "find (\<lambda>r. ar_id r = rid) (alert_rules db) = Some rule" "ar_rule_type rule = ''event_score''"
    and c: "find_state rid key (filter (\<lambda>st. al_state st = Firing) (alert_states db)) = Some c"
    and db': "db' = persist_pending E s now db (put_state (c\<lparr>al_state := Resolved, al_resolved_at := Some now\<rparr>) (alert_states db),
       [queue_notify rule (c\<lparr>al_state := Resolved, al_resolved_at := Some now\<rparr>) (ManualDetails key)])"
    by (auto simp: resolve_event_score_manually_def Let_def split: option.splits if_splits)
  have rule: "rule \<in> set (alert_rules db)" "ar_id rule = rid" using find_Some_iff_in [OF r(1)] by auto
  have cc: "c \<in> set (alert_states db)" "al_rule_id c = rid" "al_context_key c = key" "al_state c = Firing"
    using find_state_keys [OF c] by auto
  show ?thesis
    by (rule that [OF rule r(2) cc(1) _ cc(4)])
      (auto simp: db' find_put_state announced_persist queue_notify_def state_key_def cc rule)
qed

text \<open>A manual resolution changes nothing but the one alert and announces it; but as long as an event of the type
  is in the evaluation window, even one from before the resolution, the next evaluation fires the alert
  again and announces it once more.\<close>

theorem resolved_alert_fires_again_for_the_same_event:
  assumes "resolve_event_score_manually E s now1 (ar_id rule) ty db = Inr db1"
    and "parse_event_score_rule_config (ar_config rule) = Inr (Some cfg)"
    and "r \<in> set (qualifying s now2 (cfg_threshold cfg) es)" "er_type r = ty" "er_occurred_at r \<le> now1"
    and "evaluate_event_score_rule E s es now2 rule db1 = Inr (db2, nf, nr)"
  shows "announced (ar_id rule) ty db db1 = [Resolved] \<and> announced (ar_id rule) ty db1 db2 = [Firing]"
proof -
  obtain c where st: "find_state (ar_id rule) ty (alert_states db1) = Some (c\<lparr>al_state := Resolved, al_resolved_at := Some now1\<rparr>)"
    and a: "announced (ar_id rule) ty db db1 = [Resolved]"
    using assms(1) by (rule manual_resolve)
  have "map_of (merged (qualifying s now2 (cfg_threshold cfg) es)) ty \<noteq> None"
    using assms(3,4) by (auto simp: map_of_merged_None)
  then obtain t where "is_latest (qualifying s now2 (cfg_threshold cfg) es) ty t" by (auto simp: map_of_merged)
  from event_score_due [OF assms(6,2) this] st a show ?thesis by (simp add: due_notification_def)
qed

lemma resolved_alert_fires_again_for_the_same_event_witness:
  "\<exists>db1 db2. resolve_event_score_manually sample_delivery_env sample_alert_settings 3000 1 ''vim.event.X''
        (after_run (sample_evaluate [1000] 2000 sample_alert_db)) = Inr db1
     \<and> announced 1 ''vim.event.X'' db1 db2 = [Firing]"
proof -
  define db0 where "db0 = after_run (sample_evaluate [1000] 2000 sample_alert_db)"
  define r1 where "r1 = resolve_event_score_manually sample_delivery_env sample_alert_settings 3000 (ar_id sample_rule) ''vim.event.X'' db0"
  have "case r1 of Inl _ \<Rightarrow> False | Inr db1 \<Rightarrow> isl (sample_evaluate [1000] 60000000 db1) = False" unfolding r1_def db0_def by code_simp
  then obtain db1 where db1: "r1 = Inr db1" "isl (sample_evaluate [1000] 60000000 db1) = False" by (auto split: sum.splits)
  obtain f n where e: "sample_evaluate [1000] 60000000 db1 = Inr (after_run (sample_evaluate [1000] 60000000 db1), f, n)"
    using after_run [OF db1(2)] by blast
  have q: "sample_event 1000 \<in> set (qualifying sample_alert_settings 60000000 (cfg_threshold \<lparr>cfg_threshold = 60, cfg_cooldown_minutes = 10\<rparr>)
      (sample_store [1000] []))" "er_type (sample_event 1000) = ''vim.event.X''" "er_occurred_at (sample_event 1000) \<le> 3000" by code_simp+
  from resolved_alert_fires_again_for_the_same_event [OF db1(1) [unfolded r1_def] sample_config q e] db1(1)
  show ?thesis unfolding r1_def db0_def by (auto simp: sample_rule_def)
qed

subsection \<open>metric\_threshold rules implement a state machine per entity\<close>

datatype observation = Above | Below | NoData

fun metric_machine :: "alert_status option \<Rightarrow> observation \<Rightarrow> alert_status option" where
  \<comment> \<open>the specification\<close>
  "metric_machine None Above = Some Firing"
| "metric_machine None _ = None"
| "metric_machine (Some st) Above = Some Firing"
| "metric_machine (Some Resolved) _ = Some Resolved"
| "metric_machine (Some Firing) Below = Some Resolved"
| "metric_machine (Some Stale) Below = Some Resolved"
| "metric_machine (Some _) NoData = Some Stale"

definition observe :: "alert_settings \<Rightarrow> store \<Rightarrow> instant \<Rightarrow> string \<Rightarrow> json \<Rightarrow> string \<Rightarrow> eval_exn + observation" where
  "observe s es now key thr ctx =
     (case map_of (latest_samples key (now - seconds (metric_staleness_seconds s)) es) ctx of
        None \<Rightarrow> Inr NoData
      | Some sample \<Rightarrow> and_then (is_above (mr_value sample) thr) (\<lambda>a. Inr (if a then Above else Below)))"

lemma distinct_latest_samples: "distinct (map fst (latest_samples key cutoff es))"
proof -
  have "distinct (map fst (fold (\<lambda>r. AList.update (f r) r) rs d))" if "distinct (map fst d)" for f :: "metric_row \<Rightarrow> string" and rs d
    using that by (induction rs arbitrary: d) (simp_all add: distinct_update)
  then show ?thesis by (simp add: latest_samples_def)
qed

lemma metric_next_machine:
  assumes "metric_next rule key thr (ctx, sample) cur = Inr r" "is_above (mr_value sample) thr = Inr a"
  shows "map_option al_state (if fst r = None then cur else fst r) = metric_machine (map_option al_state cur) (if a then Above else Below)
    \<and> map pn_state (snd r) = (if map_option al_state (if fst r = None then cur else fst r) = map_option al_state cur then []
         else [the (map_option al_state (if fst r = None then cur else fst r))])"
proof (cases cur)
  case None
  then show ?thesis using assms by (auto simp: metric_next_def Let_def queue_notify_def split: if_splits)
next
  case (Some c)
  then show ?thesis using assms
    by (cases "al_state c") (auto simp: metric_next_def Let_def queue_notify_def split: if_splits)
qed

lemma stale_step_machine:
  assumes "stale_step s rule key seen ctx cur = Inr r" "ctx \<notin> seen"
  shows "map_option al_state (if fst r = None then cur else fst r) = metric_machine (map_option al_state cur) NoData
    \<and> map pn_state (snd r) = (if map_option al_state (if fst r = None then cur else fst r) = map_option al_state cur then []
         else [the (map_option al_state (if fst r = None then cur else fst r))])"
proof (cases cur)
  case None
  then show ?thesis using assms by (auto simp: stale_step_def)
next
  case (Some c)
  then show ?thesis using assms
    by (cases "al_state c") (auto simp: stale_step_def stale_next_def Let_def queue_notify_def)
qed

lemma metric_changes_machine:
  assumes ch: "metric_threshold_changes s es now rule rows = Inr (rows', ps)"
    and cfg: "config_get (ar_config rule) ''metric_key'' = JStr key" "key \<noteq> ''''"
      "config_get (ar_config rule) ''threshold'' = thr" "thr \<noteq> JNull"
    and d: "distinct (map state_key rows)"
  shows "\<exists>obs. observe s es now key thr ctx = Inr obs
    \<and> map_option al_state (find_state (ar_id rule) ctx rows') = metric_machine (map_option al_state (find_state (ar_id rule) ctx rows)) obs
    \<and> map pn_state (filter (\<lambda>p. pn_context_key p = ctx) ps) =
       (let old = map_option al_state (find_state (ar_id rule) ctx rows); new = map_option al_state (find_state (ar_id rule) ctx rows')
        in if new = old then [] else [the new])
    \<and> (\<forall>p\<in>set ps. pn_rule_id p = ar_id rule)"
proof -
  let ?S = "latest_samples key (now - seconds (metric_staleness_seconds s)) es"
  let ?states = "filter (\<lambda>st. al_rule_id st = ar_id rule) rows"
  let ?old = "find_state (ar_id rule) ctx rows"
  have unseen: "ctx \<notin> al_context_key ` set ?states \<longleftrightarrow> ?old = None"
    by (auto simp: find_state_None state_key_def image_iff)
  show ?thesis
  proof (cases "?S = [] \<and> \<not> (\<exists>st\<in>set ?states. al_state st \<in> {Firing, Stale})")
    case True
    then have "rows' = rows" "ps = []" using ch cfg by (auto simp: metric_threshold_changes_def Let_def truthy_def)
    moreover have "map_option al_state ?old = None \<or> map_option al_state ?old = Some Resolved"
      using True find_state_keys [of "ar_id rule" ctx rows]
      by (cases ?old) (auto, metis alert_status.exhaust)
    ultimately show ?thesis using True by (auto simp: observe_def)
  next
    case False
    with ch cfg obtain rows1 ps1 ps2 where one: "each (metric_item rule key thr) ?S rows = Inr (rows1, ps1)"
      and two: "each (stale_item s rule key (fst ` set ?S)) (map al_context_key ?states) rows1 = Inr (rows', ps2)"
      and ps: "ps = ps1 @ ps2"
      by (auto simp: metric_threshold_changes_def Let_def truthy_def sum_step split: if_splits)
    note k1 = metric_loop.loop_keys [OF one] and k2 = stale_loop.loop_keys [OF two]
    have ids: "\<forall>p\<in>set ps. pn_rule_id p = ar_id rule" using k1 k2 by (auto simp: ps)
    have dk: "distinct (map (\<lambda>i. i) (map al_context_key ?states))"
      using d by (auto simp: distinct_map inj_on_def state_key_def)
    show ?thesis
    proof (cases "map_of ?S ctx")
      case (Some sample)
      then have mem: "(ctx, sample) \<in> set ?S" by (rule map_of_SomeD)
      from metric_loop.loop_item [OF one distinct_latest_samples mem] obtain r where
        r: "metric_next rule key thr (ctx, sample) ?old = Inr r"
        "find_state (ar_id rule) ctx rows1 = (if fst r = None then ?old else fst r)"
        "filter (\<lambda>p. pn_context_key p = ctx) ps1 = snd r" by auto
      then obtain a where a: "is_above (mr_value sample) thr = Inr a" by (auto simp: metric_next_def sum_step)
      have seen: "ctx \<in> fst ` set ?S" using mem by (simp add: rev_image_eqI)
      have later: "find_state (ar_id rule) ctx rows' = find_state (ar_id rule) ctx rows1 \<and> filter (\<lambda>p. pn_context_key p = ctx) ps2 = []"
      proof (cases "ctx \<in> al_context_key ` set ?states")
        case True
        then have "ctx \<in> set (map al_context_key ?states)" by simp
        from stale_loop.loop_item [OF two dk this] seen show ?thesis
          by (auto simp: stale_step_def split: option.splits)
      next
        case False
        then show ?thesis using k2 by (auto simp: filter_empty_conv)
      qed
      then show ?thesis using metric_next_machine [OF r(1) a] Some a ids
        by (simp add: observe_def ps r(2,3) Let_def)
    next
      case None
      then have nS: "ctx \<notin> fst ` set ?S" by (simp add: map_of_eq_None_iff)
      then have old: "find_state (ar_id rule) ctx rows1 = ?old" "filter (\<lambda>p. pn_context_key p = ctx) ps1 = []"
        using k1 by (auto simp: filter_empty_conv)
      show ?thesis
      proof (cases "ctx \<in> al_context_key ` set ?states")
        case True
        then have "ctx \<in> set (map al_context_key ?states)" by simp
        from stale_loop.loop_item [OF two dk this] obtain r where
          r: "stale_step s rule key (fst ` set ?S) ctx ?old = Inr r"
          "find_state (ar_id rule) ctx rows' = (if fst r = None then ?old else fst r)"
          "filter (\<lambda>p. pn_context_key p = ctx) ps2 = snd r" by (auto simp: old)
        then show ?thesis using stale_step_machine [OF r(1) nS] None ids old
          by (simp add: observe_def ps Let_def)
      next
        case False
        then have "find_state (ar_id rule) ctx rows' = ?old" "filter (\<lambda>p. pn_context_key p = ctx) ps2 = []" "?old = None"
          using k2 old unseen by (auto simp: filter_empty_conv)
        then show ?thesis using None ids old by (simp add: observe_def ps Let_def)
      qed
    qed
  qed
qed

text \<open>C9: Evaluating a metric rule moves every entity through the state machine above, driven by whether its latest
  sample in the staleness window is at or above the threshold, below it, or missing; and in the same
  transaction each change of state is announced once, and nothing else is.\<close>

theorem metric_rule_follows_the_machine:
  assumes "evaluate_metric_threshold_rule E s es now rule db = Inr (db', nf, nr)"
    and "config_get (ar_config rule) ''metric_key'' = JStr key" "key \<noteq> ''''"
    and "config_get (ar_config rule) ''threshold'' = thr" "thr \<noteq> JNull"
    and "distinct (map state_key (alert_states db))"
  shows "\<exists>obs. observe s es now key thr ctx = Inr obs \<and>
     (let old = map_option al_state (find_state (ar_id rule) ctx (alert_states db));
          new = map_option al_state (find_state (ar_id rule) ctx (alert_states db'))
      in new = metric_machine old obs \<and> announced (ar_id rule) ctx db db' = (if new = old then [] else [the new]))"
proof -
  from assms(1) obtain rows ps where ch: "metric_threshold_changes s es now rule (alert_states db) = Inr (rows, ps)"
    and db': "db' = persist_pending E s now db (rows, ps)"
    by (auto simp: evaluate_metric_threshold_rule_def sum_step)
  from metric_changes_machine [OF ch assms(2-6), of ctx] obtain obs where
    m: "observe s es now key thr ctx = Inr obs"
      "map_option al_state (find_state (ar_id rule) ctx rows) = metric_machine (map_option al_state (find_state (ar_id rule) ctx (alert_states db))) obs"
      "map pn_state (filter (\<lambda>p. pn_context_key p = ctx) ps) =
       (let old = map_option al_state (find_state (ar_id rule) ctx (alert_states db)); new = map_option al_state (find_state (ar_id rule) ctx rows)
        in if new = old then [] else [the new])"
      "\<forall>p\<in>set ps. pn_rule_id p = ar_id rule" by blast
  have "filter (\<lambda>p. pn_rule_id p = ar_id rule \<and> pn_context_key p = ctx) ps = filter (\<lambda>p. pn_context_key p = ctx) ps"
    using m(4) by (intro filter_cong) auto
  with m show ?thesis by (intro exI [of _ obs]) (simp add: db' announced_persist Let_def)
qed

subsection \<open>Rules do not disturb each other\<close>

lemma evaluate_rule_others:
  assumes "evaluate_rule E s es now rule db = Inr (db', f, n)" "rid \<noteq> ar_id rule"
  shows "own rid (alert_states db') = own rid (alert_states db)"
  using assms event_loop.loop_others [OF _ assms(2)] metric_loop.loop_others [OF _ assms(2)] stale_loop.loop_others [OF _ assms(2)]
  by (auto simp: evaluate_rule_def evaluate_event_score_rule_def event_score_changes_def evaluate_metric_threshold_rule_def
      metric_threshold_changes_def Let_def sum_step split: if_splits option.splits json.splits)

lemma evaluate_rule_own:
  assumes "own (ar_id rule) (alert_states db) = own (ar_id rule) (alert_states db2)"
    and "evaluate_rule E s es now rule db = Inr (db', f, n)"
  shows "\<exists>db2'. evaluate_rule E s es now rule db2 = Inr (db2', f, n)
    \<and> own (ar_id rule) (alert_states db') = own (ar_id rule) (alert_states db2')"
proof -
  have ev: "\<exists>rows2. event_score_changes s es now rule (alert_states db2) = Inr (rows2, ps) \<and> own (ar_id rule) rows = own (ar_id rule) rows2"
    if "event_score_changes s es now rule (alert_states db) = Inr (rows, ps)" for rows ps
  proof (cases "parse_event_score_rule_config (ar_config rule)")
    case (Inr parsed)
    then show ?thesis using that assms(1) event_loop.loop_own [OF assms(1)]
      by (cases parsed) (auto simp: event_score_changes_def Let_def)
  qed (use that in \<open>simp add: event_score_changes_def\<close>)
  have me: "\<exists>rows2. metric_threshold_changes s es now rule (alert_states db2) = Inr (rows2, ps) \<and> own (ar_id rule) rows = own (ar_id rule) rows2"
    if m: "metric_threshold_changes s es now rule (alert_states db) = Inr (rows, ps)" for rows ps
  proof (cases "\<exists>key. config_get (ar_config rule) ''metric_key'' = JStr key \<and> truthy (JStr key) \<and> config_get (ar_config rule) ''threshold'' \<noteq> JNull")
    case False
    then show ?thesis using m assms(1) by (auto simp: metric_threshold_changes_def Let_def split: if_splits json.splits)
  next
    case True
    then obtain key where key: "config_get (ar_config rule) ''metric_key'' = JStr key" "truthy (JStr key)"
      "config_get (ar_config rule) ''threshold'' \<noteq> JNull" by blast
    let ?S = "latest_samples key (now - seconds (metric_staleness_seconds s)) es"
    have st: "filter (\<lambda>st. al_rule_id st = ar_id rule) (alert_states db) = filter (\<lambda>st. al_rule_id st = ar_id rule) (alert_states db2)"
      using assms(1) by (simp add: own_def)
    show ?thesis
    proof (cases "?S = [] \<and> \<not> (\<exists>st\<in>set (filter (\<lambda>st. al_rule_id st = ar_id rule) (alert_states db2)). al_state st \<in> {Firing, Stale})")
      case True
      then show ?thesis using m assms(1) key by (simp add: metric_threshold_changes_def Let_def st)
    next
      case False
      from m key False obtain r1 p1 p2 where
        one: "each (metric_item rule key (config_get (ar_config rule) ''threshold'')) ?S (alert_states db) = Inr (r1, p1)" and
        two: "each (stale_item s rule key (fst ` set ?S)) (map al_context_key (filter (\<lambda>st. al_rule_id st = ar_id rule) (alert_states db2))) r1 = Inr (rows, p2)"
        and ps: "ps = p1 @ p2"
        by (auto simp: metric_threshold_changes_def Let_def st sum_step split: if_splits)
      from metric_loop.loop_own [OF assms(1) one] obtain r2 where
        r2: "each (metric_item rule key (config_get (ar_config rule) ''threshold'')) ?S (alert_states db2) = Inr (r2, p1)"
        "own (ar_id rule) r1 = own (ar_id rule) r2" by blast
      from stale_loop.loop_own [OF r2(2) two] obtain r3 where
        "each (stale_item s rule key (fst ` set ?S)) (map al_context_key (filter (\<lambda>st. al_rule_id st = ar_id rule) (alert_states db2))) r2 = Inr (r3, p2)"
        "own (ar_id rule) rows = own (ar_id rule) r3" by blast
      with r2 key False show ?thesis by (auto simp: metric_threshold_changes_def Let_def ps)
    qed
  qed
  show ?thesis using assms ev me
    by (fastforce simp: evaluate_rule_def evaluate_event_score_rule_def evaluate_metric_threshold_rule_def sum_step split: if_splits)
qed

lemma evaluate_rules_others:
  "rid \<notin> ar_id ` set rs \<Longrightarrow> own rid (alert_states (fst (evaluate_rules E s es clock rs db sm))) = own rid (alert_states db)"
proof (induction rs arbitrary: db sm)
  case (Cons r rs)
  then show ?case
  proof (cases "evaluate_rule E s es (clock r) r db")
    case (Inr x)
    then obtain db' f n where "evaluate_rule E s es (clock r) r db = Inr (db', f, n)" by (cases x) auto
    then show ?thesis using evaluate_rule_others Cons by simp
  qed simp
qed simp

lemma evaluate_rule_fails_alike:
  assumes "own (ar_id rule) (alert_states db) = own (ar_id rule) (alert_states db2)"
    and "evaluate_rule E s es now rule db = Inl x"
  shows "\<exists>y. evaluate_rule E s es now rule db2 = Inl y"
proof (cases "evaluate_rule E s es now rule db2")
  case (Inr z)
  then obtain db' f n where "evaluate_rule E s es now rule db2 = Inr (db', f, n)" by (cases z) auto
  from evaluate_rule_own [OF assms(1) [symmetric] this] assms(2) show ?thesis by simp
qed simp

lemma evaluate_rules_alone:
  assumes "distinct (map ar_id rs)" "rule \<in> set rs"
    and "own (ar_id rule) (alert_states db) = own (ar_id rule) (alert_states db2)"
  shows "own (ar_id rule) (alert_states (fst (evaluate_rules E s es clock rs db sm))) =
    (case evaluate_rule E s es (clock rule) rule db2 of Inl _ \<Rightarrow> own (ar_id rule) (alert_states db2)
     | Inr (db', _) \<Rightarrow> own (ar_id rule) (alert_states db'))"
  using assms
proof (induction rs arbitrary: db sm)
  case (Cons r rs)
  show ?case
  proof (cases "r = rule")
    case True
    then have nin: "ar_id rule \<notin> ar_id ` set rs" using Cons.prems(1) by simp
    show ?thesis
    proof (cases "evaluate_rule E s es (clock rule) rule db")
      case (Inl x)
      with evaluate_rule_fails_alike [OF Cons.prems(3) Inl] show ?thesis
        using True nin Cons.prems(3) by (auto simp: evaluate_rules_others)
    next
      case (Inr y)
      then obtain db' f n where e: "evaluate_rule E s es (clock rule) rule db = Inr (db', f, n)" by (cases y) auto
      from evaluate_rule_own [OF Cons.prems(3) e] e True nin show ?thesis by (auto simp: evaluate_rules_others)
    qed
  next
    case False
    then have rule: "rule \<in> set rs" using Cons.prems(2) by simp
    then have "ar_id rule \<in> ar_id ` set rs" by simp
    then have ne: "ar_id rule \<noteq> ar_id r" using Cons.prems(1) by (metis distinct.simps(2) list.map(2) list.set_map)
    have d: "distinct (map ar_id rs)" using Cons.prems(1) by simp
    show ?thesis
    proof (cases "evaluate_rule E s es (clock r) r db")
      case (Inl x)
      then show ?thesis using Cons.IH [OF d rule Cons.prems(3)] by simp
    next
      case (Inr y)
      then obtain db' f n where e: "evaluate_rule E s es (clock r) r db = Inr (db', f, n)" by (cases y) auto
      have "own (ar_id rule) (alert_states db') = own (ar_id rule) (alert_states db2)"
        using evaluate_rule_others [OF e ne] Cons.prems(3) by simp
      with Cons.IH [OF d rule this] e show ?thesis by simp
    qed
  qed
qed simp

text \<open>Evaluating all rules leaves the alerts of every enabled rule exactly as evaluating that rule alone would, and
  those of a rule that raises an exception, is disabled or is of another kind untouched: no rule's failure,
  and not the order of the rules, has an effect on another.\<close>

theorem rules_are_evaluated_independently:
  assumes "distinct (map ar_id (alert_rules db))" "rule \<in> set (alert_rules db)"
  shows "own (ar_id rule) (alert_states (fst (evaluate_all E s es clock db))) =
    (if \<not> ar_enabled rule then own (ar_id rule) (alert_states db)
     else case evaluate_rule E s es (clock rule) rule db of
         Inl _ \<Rightarrow> own (ar_id rule) (alert_states db)
       | Inr (db', _) \<Rightarrow> own (ar_id rule) (alert_states db'))"
proof (cases "ar_enabled rule")
  case True
  then show ?thesis using assms evaluate_rules_alone [of "filter ar_enabled (alert_rules db)" rule db db]
    by (simp add: evaluate_all_def Let_def distinct_map_filterI)
next
  case False
  then have "ar_id rule \<notin> ar_id ` set (filter ar_enabled (alert_rules db))"
    using assms by (auto simp: distinct_map inj_on_def)
  then show ?thesis using False by (simp add: evaluate_all_def Let_def evaluate_rules_others)
qed

definition sample_metric :: "real \<Rightarrow> instant \<Rightarrow> metric_row" where
  "sample_metric v t = \<lparr>mr_vcenter = 7, mr_collector = ''builtin'', mr_sampled_at = t, mr_entity_type = ''host'', mr_entity_moid = ''h1'',
     mr_entity_name = ''esx1'', mr_metric_key = ''cpu'', mr_value = Fin v\<rparr>"

definition sample_metric_rule :: alert_rule where
  "sample_metric_rule = sample_rule\<lparr>ar_id := 2, ar_rule_type := ''metric_threshold'',
     ar_config := [(''metric_key'', JStr ''cpu''), (''threshold'', JInt 80)]\<rparr>"

lemmas sample_metric_defs = sample_metric_def sample_metric_rule_def sample_rule_def sample_store_def sample_alert_db_def
  empty_alert_db_def sample_alert_settings_def config_get_def truthy_def latest_rows_def seconds_def is_above_def at_least_int_def

lemma sample_latest: "latest_samples ''cpu'' (2000 - seconds 900) (sample_store ts [sample_metric 90 1000])
    = [(metric_context_key 7 ''h1'', sample_metric 90 1000)]"
  by (simp add: latest_samples_def sample_metric_defs)

lemma metric_rule_follows_the_machine_witness:
  "let ctx = metric_context_key 7 ''h1'';
       run = (\<lambda>es now db. after_run (evaluate_metric_threshold_rule sample_delivery_env sample_alert_settings es now sample_metric_rule db));
       db1 = run (sample_store [] [sample_metric 90 1000]) 2000 sample_alert_db
   in announced 2 ctx sample_alert_db db1 = [Firing]"
proof -
  let ?es = "sample_store [] [sample_metric 90 1000]"
  let ?r = "evaluate_metric_threshold_rule sample_delivery_env sample_alert_settings ?es 2000 sample_metric_rule sample_alert_db"
  have "isl ?r = False"
    using sample_latest [of "[]"]
    by (simp add: evaluate_metric_threshold_rule_def metric_threshold_changes_def Let_def
        sample_metric_rule_def sample_rule_def sample_alert_settings_def config_get_def truthy_def metric_item_def metric_next_def
        is_above_def at_least_int_def sample_alert_db_def empty_alert_db_def sample_metric_def find_state_def)
  from after_run [OF this] obtain f n where e: "?r = Inr (after_run ?r, f, n)" by blast
  have c: "config_get (ar_config sample_metric_rule) ''metric_key'' = JStr ''cpu''" "''cpu'' \<noteq> ''''"
    "config_get (ar_config sample_metric_rule) ''threshold'' = JInt 80" "JInt 80 \<noteq> JNull" "distinct (map state_key (alert_states sample_alert_db))"
    by code_simp+
  have o: "observe sample_alert_settings ?es 2000 ''cpu'' (JInt 80) (metric_context_key 7 ''h1'') = Inr Above"
    using sample_latest [of "[]"] by (simp add: observe_def sample_alert_settings_def sample_metric_def is_above_def at_least_int_def)
  have old: "find_state (ar_id sample_metric_rule) (metric_context_key 7 ''h1'') (alert_states sample_alert_db) = None"
    and id: "ar_id sample_metric_rule = 2"
    by (simp_all add: sample_alert_db_def empty_alert_db_def find_state_def sample_metric_rule_def)
  from metric_rule_follows_the_machine [OF e c, of "metric_context_key 7 ''h1''"] o
  have "announced (ar_id sample_metric_rule) (metric_context_key 7 ''h1'') sample_alert_db (after_run ?r) = [Firing]"
    unfolding old by (auto simp: Let_def)
  then show ?thesis by (simp only: Let_def id)
qed

lemma rules_are_evaluated_independently_witness:
  "let bad = sample_metric_rule\<lparr>ar_config := [(''metric_key'', JStr ''cpu''), (''threshold'', JStr ''80'')]\<rparr>;
       db = sample_alert_db\<lparr>alert_rules := [bad, sample_rule]\<rparr>; es = sample_store [1000] [sample_metric 90 1000];
       db' = fst (evaluate_all sample_delivery_env sample_alert_settings es (\<lambda>_. 2000) db)
   in isl (evaluate_rule sample_delivery_env sample_alert_settings es 2000 bad db)
      \<and> own 2 (alert_states db') = [] \<and> length (own 1 (alert_states db')) = 1"
proof -
  define bad where "bad = sample_metric_rule\<lparr>ar_config := [(''metric_key'', JStr ''cpu''), (''threshold'', JStr ''80'')]\<rparr>"
  define db where "db = sample_alert_db\<lparr>alert_rules := [bad, sample_rule]\<rparr>"
  define es where "es = sample_store [1000] [sample_metric 90 1000]"
  have 1: "isl (evaluate_rule sample_delivery_env sample_alert_settings es 2000 bad db)" "own 2 (alert_states db) = []" "ar_id bad = 2" "ar_enabled bad"
    using sample_latest [of "[1000]"]
    by (simp_all add: es_def db_def bad_def evaluate_rule_def evaluate_metric_threshold_rule_def metric_threshold_changes_def Let_def
        sample_metric_rule_def sample_rule_def sample_alert_settings_def config_get_def truthy_def metric_item_def metric_next_def
        is_above_def own_def sample_alert_db_def empty_alert_db_def)
  have 2: "case evaluate_rule sample_delivery_env sample_alert_settings es 2000 sample_rule db of Inr (db', _) \<Rightarrow>
      length (own 1 (alert_states db')) = 1 | Inl _ \<Rightarrow> False" "ar_id sample_rule = 1" "ar_enabled sample_rule"
    unfolding es_def db_def bad_def by code_simp+
  have d: "distinct (map ar_id (alert_rules db))" "bad \<in> set (alert_rules db)" "sample_rule \<in> set (alert_rules db)"
    using 1 2 by (simp_all add: db_def)
  note t = rules_are_evaluated_independently [OF d(1), of _ sample_delivery_env sample_alert_settings es "\<lambda>_. 2000"]
  show ?thesis using t [OF d(2)] t [OF d(3)] 1 2
    by (simp add: Let_def bad_def [symmetric] db_def [symmetric] es_def [symmetric] split: sum.splits prod.splits)
qed

end
