(* ===== verification/AlertRoutes.thy ===== *)
theory AlertRoutes
  imports AlertRules
begin

section \<open>Alert routes and the consistency of the alert tables (api/routes/alerts.py, api/schemas/alerts.py)\<close>

text \<open>
  The routes that change rules and history, the retention of the history, and the invariant of the alert
  tables under everything that writes them. An error is the HTTP status; the role checks of the routes are
  those of the request principal. A rule's id comes from a sequence and is an argument.
\<close>

subsection \<open>Validation of a new rule\<close>

datatype validation = Valid | Invalid | Crashes
  \<comment> \<open>\<open>int(float("inf"))\<close> raises an \<open>OverflowError\<close> that the validator does not turn into a 422\<close>

definition number_of :: "json \<Rightarrow> pyfloat option" where
  \<comment> \<open>\<open>isinstance(v, (int, float))\<close> and \<open>float(v)\<close>\<close>
  "number_of j = (case j of JInt i \<Rightarrow> Some (Fin (of_int i)) | JBool b \<Rightarrow> Some (Fin (if b then 1 else 0))
     | JFloat f \<Rightarrow> Some f | _ \<Rightarrow> None)"

definition int_of_number :: "pyfloat \<Rightarrow> validation + int" where
  "int_of_number f = (case f of Fin r \<Rightarrow> Inr (if 0 \<le> r then \<lfloor>r\<rfloor> else - \<lfloor>- r\<rfloor>) | NaN \<Rightarrow> Inl Invalid | _ \<Rightarrow> Inl Crashes)"

definition validate_config_for_rule_type :: "string \<Rightarrow> (string, json) dict \<Rightarrow> validation" where
  "validate_config_for_rule_type ty cfg =
     (if ty = ''metric_threshold''
      then (case config_get cfg ''metric_key'' of
          JStr k \<Rightarrow> if py_strip k = '''' then Invalid
                   else if number_of (config_get cfg ''threshold'') = None then Invalid else Valid
        | _ \<Rightarrow> Invalid)
      else if ty = ''event_score''
      then (let threshold_raw = (case map_of cfg ''threshold'' of Some v \<Rightarrow> v
                  | None \<Rightarrow> (case map_of cfg ''min_notable_score'' of Some v \<Rightarrow> v | None \<Rightarrow> JInt 60))
            in case number_of threshold_raw of
                None \<Rightarrow> Invalid
              | Some t \<Rightarrow>
                  if \<not> (at_least_float t (Fin 0) \<and> at_least_float (Fin 100) t) then Invalid
                  else case map_of cfg ''cooldown_minutes'' of
                      None \<Rightarrow> Valid
                    | Some c \<Rightarrow> (case number_of c of None \<Rightarrow> Invalid
                        | Some f \<Rightarrow> (case int_of_number f of Inl v \<Rightarrow> v | Inr i \<Rightarrow> if i < 1 then Invalid else Valid)))
      else Invalid)"

record alert_rule_create =
  arc_name :: string
  arc_rule_type :: string
  arc_is_enabled :: bool
  arc_level :: string
  arc_config :: "(string, json) dict"

record alert_rule_update =
  aru_name :: "string option"
  aru_is_enabled :: "bool option"
  aru_level :: "string option"
  aru_config :: "(string, json) dict option"

datatype route_error = RouteError nat

subsection \<open>The rules\<close>

definition rule_of :: "alert_rule_create \<Rightarrow> nat \<Rightarrow> alert_rule" where
  "rule_of body rid = \<lparr>ar_id = rid, ar_name = arc_name body, ar_rule_type = arc_rule_type body,
     ar_enabled = arc_is_enabled body, ar_level = arc_level body, ar_config = arc_config body\<rparr>"

definition create_alert_rule :: "alert_rule_create \<Rightarrow> nat \<Rightarrow> alert_db \<Rightarrow> route_error + alert_db" where
  "create_alert_rule body rid db =
     (if arc_name body \<in> ar_name ` set (alert_rules db) then Inl (RouteError 409)
      else Inr (db\<lparr>alert_rules := alert_rules db @ [rule_of body rid]\<rparr>))"

definition or_old :: "'a option \<Rightarrow> 'a \<Rightarrow> 'a" where
  "or_old new old = (case new of None \<Rightarrow> old | Some v \<Rightarrow> v)"

definition patch_alert_rule :: "nat \<Rightarrow> alert_rule_update \<Rightarrow> alert_db \<Rightarrow> route_error + alert_db" where
  "patch_alert_rule rid body db =
     (if rid \<notin> ar_id ` set (alert_rules db) then Inl (RouteError 404)
      else if (case aru_name body of None \<Rightarrow> False
          | Some name \<Rightarrow> \<exists>r\<in>set (alert_rules db). ar_name r = name \<and> ar_id r \<noteq> rid)
      then Inl (RouteError 409)
      else Inr (db\<lparr>alert_rules := map (\<lambda>r. if ar_id r = rid
             then r\<lparr>ar_name := or_old (aru_name body) (ar_name r), ar_enabled := or_old (aru_is_enabled body) (ar_enabled r),
                    ar_config := or_old (aru_config body) (ar_config r), ar_level := or_old (aru_level body) (ar_level r)\<rparr>
             else r) (alert_rules db)\<rparr>))"

definition drop_rules :: "(alert_rule \<Rightarrow> bool) \<Rightarrow> alert_db \<Rightarrow> alert_db" where
  \<comment> \<open>deleting rules cascades to their states, history and queued intents\<close>
  "drop_rules p db =
     (let gone = ar_id ` {r \<in> set (alert_rules db). p r};
          db = forget_history (\<lambda>h. hi_rule_id h \<in> gone) db
      in db\<lparr>alert_rules := filter (\<lambda>r. \<not> p r) (alert_rules db),
            alert_states := filter (\<lambda>st. al_rule_id st \<notin> gone) (alert_states db)\<rparr>)"

definition delete_alert_rule :: "nat \<Rightarrow> alert_db \<Rightarrow> route_error + alert_db" where
  "delete_alert_rule rid db =
     (if rid \<notin> ar_id ` set (alert_rules db) then Inl (RouteError 404)
      else Inr (drop_rules (\<lambda>r. ar_id r = rid) db))"

definition import_alert_rule :: "bool \<Rightarrow> alert_rule_create \<times> nat \<Rightarrow> alert_rule list \<Rightarrow> alert_rule list" where
  "import_alert_rule overwrite_existing item rs =
     (case item of (b, rid) \<Rightarrow>
        if arc_name b \<notin> ar_name ` set rs then rs @ [rule_of b rid]
        else if overwrite_existing
        then map (\<lambda>r. if ar_name r = arc_name b
               then r\<lparr>ar_rule_type := arc_rule_type b, ar_enabled := arc_is_enabled b, ar_level := arc_level b, ar_config := arc_config b\<rparr>
               else r) rs
        else rs)"

definition import_alert_rules ::
  "(alert_rule_create \<times> nat) list \<Rightarrow> bool \<Rightarrow> bool \<Rightarrow> alert_db \<Rightarrow> route_error + alert_db \<times> nat" where
  "import_alert_rules imported overwrite_existing delete_rules_not_in_import db =
     (if \<not> distinct (map (arc_name \<circ> fst) imported) then Inl (RouteError 400)
      else let db = db\<lparr>alert_rules := fold (import_alert_rule overwrite_existing) imported (alert_rules db)\<rparr>
        in if delete_rules_not_in_import \<and> imported = [] then Inl (RouteError 422)
           else let db = (if delete_rules_not_in_import
                   then drop_rules (\<lambda>r. ar_name r \<notin> (arc_name \<circ> fst) ` set imported) db else db)
             in Inr (db, length (alert_rules db)))"

subsection \<open>The history\<close>

definition firing_keys :: "alert_db \<Rightarrow> nat set \<Rightarrow> (nat \<times> string) set" where
  "firing_keys db rule_ids = state_key ` set (filter (\<lambda>st. al_state st = Firing \<and> al_rule_id st \<in> rule_ids
     \<and> (\<exists>r\<in>set (alert_rules db). ar_id r = al_rule_id st \<and> ar_rule_type r = ''event_score'')) (alert_states db))"

definition can_resolve :: "alert_db \<Rightarrow> (nat \<times> string) set \<Rightarrow> alert_history \<Rightarrow> bool" where
  \<comment> \<open>\<open>_history_item_to_read\<close>\<close>
  "can_resolve db keys item =
     ((case find (\<lambda>r. ar_id r = hi_rule_id item) (alert_rules db) of None \<Rightarrow> '''' | Some r \<Rightarrow> ar_rule_type r) = ''event_score''
      \<and> (hi_rule_id item, hi_context_key item) \<in> keys)"

definition list_alert_history :: "nat \<Rightarrow> nat \<Rightarrow> alert_db \<Rightarrow> (alert_history \<times> bool) list \<times> nat" where
  "list_alert_history limit offset db =
     (let items = take limit (drop offset (sort_key (\<lambda>h. - hi_notified_at h) (alert_history db)));
          keys = firing_keys db (hi_rule_id ` set items)
      in (map (\<lambda>h. (h, can_resolve db keys h)) items, length (alert_history db)))"

definition resolve_alert_state ::
  "delivery_env \<Rightarrow> alert_settings \<Rightarrow> instant \<Rightarrow> nat \<Rightarrow> string \<Rightarrow> alert_db \<Rightarrow> route_error + alert_db" where
  "resolve_alert_state E s now rid key db =
     map_error (\<lambda>e. RouteError (case e of NotEventScore \<Rightarrow> 400 | _ \<Rightarrow> 404)) (resolve_event_score_manually E s now rid key db)"

definition delete_alert_history :: "nat \<Rightarrow> alert_db \<Rightarrow> route_error + alert_db" where
  "delete_alert_history hid db =
     (if find_history db hid = None then Inl (RouteError 404) else Inr (forget_history (\<lambda>h. hi_id h = hid) db))"

definition purge_old_alert_history :: "int \<Rightarrow> instant \<Rightarrow> alert_db \<Rightarrow> alert_db \<times> nat" where
  \<comment> \<open>services/ingestion.py; an undelivered notification is kept\<close>
  "purge_old_alert_history retention_days now db =
     (if retention_days \<le> 0 then (db, 0)
      else let old = (\<lambda>h. hi_notified_at h < now - days retention_days \<and> hi_status h \<notin> {Pending, Retrying})
        in (forget_history old db, length (filter old (alert_history db))))"

text \<open>The validation of a new event-score rule accepts a threshold or a cooldown with a fraction, but the evaluation
  does not: with such a threshold the rule is silently never evaluated, with such a cooldown it uses ten
  minutes. A text threshold is refused on creation although the evaluation would read it.\<close>

theorem accepted_rule_that_never_fires:
  "validate_config_for_rule_type ''event_score'' [(''threshold'', JFloat (Fin (121 / 2)))] = Valid
   \<and> (\<forall>E s es now rule db. evaluate_event_score_rule E s es now
        (rule\<lparr>ar_config := [(''threshold'', JFloat (Fin (121 / 2)))]\<rparr>) db = Inr (db, 0, 0))
   \<and> validate_config_for_rule_type ''event_score'' [(''threshold'', JInt 60), (''cooldown_minutes'', JFloat (Fin (3 / 2)))] = Valid
   \<and> parse_event_score_rule_config [(''threshold'', JInt 60), (''cooldown_minutes'', JFloat (Fin (3 / 2)))]
       = Inr (Some \<lparr>cfg_threshold = 60, cfg_cooldown_minutes = 10\<rparr>)
   \<and> validate_config_for_rule_type ''event_score'' [(''threshold'', JStr ''60'')] = Invalid"
proof -
  have f: "\<lfloor>121 / 2 :: real\<rfloor> = 60" "\<lfloor>3 / 2 :: real\<rfloor> = 1" by (simp_all add: floor_eq_iff)
  show ?thesis
    by (auto simp: validate_config_for_rule_type_def number_of_def at_least_float_def int_of_number_def f
        parse_event_score_rule_config_def coerce_int_def is_integer_def config_get_def evaluate_event_score_rule_def
        event_score_changes_def persist_pending_def Let_def)
qed

subsection \<open>The alert tables stay consistent\<close>

definition tables_ok :: "alert_db \<Rightarrow> bool" where
  \<comment> \<open>the unique and foreign keys, and the agreement of history and outbox\<close>
  "tables_ok db =
     (distinct (map ar_id (alert_rules db)) \<and> distinct (map ar_name (alert_rules db))
      \<and> distinct (map state_key (alert_states db)) \<and> fst ` state_key ` set (alert_states db) \<subseteq> ar_id ` set (alert_rules db)
      \<and> hi_rule_id ` set (alert_history db) \<subseteq> ar_id ` set (alert_rules db) \<and> outbox_ok db)"

lemma outbox_ok_rules [simp]:
  "outbox_ok (db\<lparr>alert_rules := rs\<rparr>) = outbox_ok db" "outbox_ok (db\<lparr>alert_states := st\<rparr>) = outbox_ok db"
  by (simp_all add: outbox_ok_def find_history_def find_outbox_def)

lemma outbox_ok_enqueue_all: "outbox_ok db \<Longrightarrow> outbox_ok (fold (enqueue_notification E s now) ps db)"
  by (induction ps arbitrary: db) (simp_all add: outbox_ok_enqueue)

lemma tables_ok_persist:
  assumes "tables_ok db" "distinct (map state_key (fst ch))"
    and "fst ` state_key ` set (fst ch) \<subseteq> ar_id ` set (alert_rules db)" "pn_rule_id ` set (snd ch) \<subseteq> ar_id ` set (alert_rules db)"
  shows "tables_ok (persist_pending E s now db ch)"
proof -
  obtain hs where hs: "alert_history (persist_pending E s now db ch) = alert_history db @ hs"
    "map (\<lambda>h. (hi_rule_id h, hi_context_key h, hi_state h, hi_notified_at h)) hs
       = map (\<lambda>p. (pn_rule_id p, pn_context_key p, pn_state p, now)) (snd ch)"
    using enqueue_all_shape [of E s now "snd ch" "db\<lparr>alert_states := fst ch\<rparr>"]
    by (auto simp: persist_pending_def)
  have "map hi_rule_id hs = map pn_rule_id (snd ch)"
    using arg_cong [OF hs(2), of "map fst"] by (simp add: comp_def)
  then have "hi_rule_id ` set hs = pn_rule_id ` set (snd ch)" by (metis list.set_map)
  then have "hi_rule_id ` set (alert_history (persist_pending E s now db ch)) \<subseteq> ar_id ` set (alert_rules db)"
    using assms(1,4) unfolding hs(1) set_append image_Un by (simp add: tables_ok_def)
  moreover have "outbox_ok (persist_pending E s now db ch)"
    using assms(1) unfolding persist_pending_def by (intro outbox_ok_enqueue_all) (simp add: tables_ok_def)
  ultimately show ?thesis using assms by (simp add: tables_ok_def)
qed

lemma metric_changes_loops:
  assumes "metric_threshold_changes s es now rule rows = Inr (rows', ps)" "\<not> (rows' = rows \<and> ps = [])"
  shows "\<exists>key thr is1 r1 p1 is2 seen p2. each (metric_item rule key thr) is1 rows = Inr (r1, p1)
    \<and> each (stale_item s rule key seen) is2 r1 = Inr (rows', p2) \<and> ps = p1 @ p2"
proof -
  obtain key where key: "config_get (ar_config rule) ''metric_key'' = JStr key"
    using assms by (auto simp: metric_threshold_changes_def Let_def split: if_splits json.splits)
  let ?S = "latest_samples key (now - seconds (metric_staleness_seconds s)) es"
    and ?states = "filter (\<lambda>st. al_rule_id st = ar_id rule) rows"
  from assms key obtain r1 p1 p2 where
    "each (metric_item rule key (config_get (ar_config rule) ''threshold'')) ?S rows = Inr (r1, p1)"
    "each (stale_item s rule key (fst ` set ?S)) (map al_context_key ?states) r1 = Inr (rows', p2)" "ps = p1 @ p2"
    by (auto simp: metric_threshold_changes_def Let_def sum_step split: if_splits)
  then show ?thesis by blast
qed

lemma tables_ok_evaluate_rule:
  assumes "tables_ok db" "evaluate_rule E s es now rule db = Inr (db', f, n)" "ar_id rule \<in> ar_id ` set (alert_rules db)"
  shows "tables_ok db' \<and> alert_rules db' = alert_rules db"
proof -
  have d: "distinct (map state_key (alert_states db))" "fst ` state_key ` set (alert_states db) \<subseteq> ar_id ` set (alert_rules db)"
    using assms(1) by (auto simp: tables_ok_def)
  have ev: "distinct (map state_key rows) \<and> fst ` state_key ` set rows \<subseteq> ar_id ` set (alert_rules db) \<and> pn_rule_id ` set ps \<subseteq> ar_id ` set (alert_rules db)"
    if "event_score_changes s es now rule (alert_states db) = Inr (rows, ps)" for rows ps
  proof (cases "parse_event_score_rule_config (ar_config rule)")
    case (Inr parsed)
    then show ?thesis
    proof (cases parsed)
      case (Some cfg)
      with that Inr have "each (event_item rule now (cfg_cooldown_minutes cfg) (details_of (qualifying s now (cfg_threshold cfg) es)))
          (merged (qualifying s now (cfg_threshold cfg) es)) (alert_states db) = Inr (rows, ps)"
        by (simp add: event_score_changes_def Let_def)
      from event_loop.loop_keys [OF this] event_loop.loop_ids [OF this assms(3) d(2)] show ?thesis using d(1) by blast
    qed (use that d in \<open>simp add: event_score_changes_def\<close>)
  qed (use that in \<open>simp add: event_score_changes_def\<close>)
  have me: "distinct (map state_key rows) \<and> fst ` state_key ` set rows \<subseteq> ar_id ` set (alert_rules db) \<and> pn_rule_id ` set ps \<subseteq> ar_id ` set (alert_rules db)"
    if m: "metric_threshold_changes s es now rule (alert_states db) = Inr (rows, ps)" for rows ps
  proof (cases "rows = alert_states db \<and> ps = []")
    case False
    then obtain key thr r1 p1 p2 is1 is2 seen where one: "each (metric_item rule key thr) is1 (alert_states db) = Inr (r1, p1)"
      and two: "each (stale_item s rule key seen) is2 r1 = Inr (rows, p2)" and ps: "ps = p1 @ p2"
      using metric_changes_loops [OF m] by blast
    have k1: "distinct (map state_key r1) \<and> fst ` state_key ` set r1 \<subseteq> ar_id ` set (alert_rules db) \<and> pn_rule_id ` set p1 \<subseteq> ar_id ` set (alert_rules db)"
      using metric_loop.loop_keys [OF one] metric_loop.loop_ids [OF one assms(3) d(2)] d(1) by blast
    then show ?thesis using stale_loop.loop_keys [OF two] stale_loop.loop_ids [OF two assms(3)] by (auto simp: ps)
  qed (use d in simp)
  show ?thesis
    using assms(2) ev me tables_ok_persist [OF assms(1)] assms(1)
    by (auto simp: evaluate_rule_def evaluate_event_score_rule_def evaluate_metric_threshold_rule_def sum_step split: if_splits)
qed

lemma tables_ok_evaluate_rules:
  assumes "tables_ok db" "ar_id ` set rs \<subseteq> ar_id ` set (alert_rules db)"
  shows "tables_ok (fst (evaluate_rules E s es clock rs db sm))"
  using assms
proof (induction rs arbitrary: db sm)
  case (Cons r rs)
  show ?case
  proof (cases "evaluate_rule E s es (clock r) r db")
    case (Inr x)
    then obtain db' f n where e: "evaluate_rule E s es (clock r) r db = Inr (db', f, n)" by (cases x) auto
    have "tables_ok db' \<and> alert_rules db' = alert_rules db" by (rule tables_ok_evaluate_rule [OF Cons.prems(1) e]) (use Cons.prems(2) in simp)
    then show ?thesis using Cons.IH Cons.prems(2) e by simp
  qed (use Cons in simp)
qed simp

lemma tables_ok_forget: "tables_ok db \<Longrightarrow> tables_ok (forget_history p db)"
  using outbox_ok_forget by (auto simp: tables_ok_def forget_history_def Let_def)

lemma tables_ok_drop: "tables_ok db \<Longrightarrow> tables_ok (drop_rules p db)"
proof -
  assume ok: "tables_ok db"
  let ?gone = "ar_id ` {r \<in> set (alert_rules db). p r}"
  have keep: "ar_id ` {r \<in> set (alert_rules db). \<not> p r} = ar_id ` set (alert_rules db) - ?gone"
    using ok by (auto simp: tables_ok_def distinct_map inj_on_def)
  have "outbox_ok (forget_history (\<lambda>h. hi_rule_id h \<in> ?gone) db)" using ok outbox_ok_forget by (simp add: tables_ok_def)
  then have o: "outbox_ok (drop_rules p db)" by (simp add: drop_rules_def Let_def)
  have r: "alert_rules (drop_rules p db) = filter (\<lambda>r. \<not> p r) (alert_rules db)"
    "alert_states (drop_rules p db) = filter (\<lambda>st. al_rule_id st \<notin> ?gone) (alert_states db)"
    "alert_history (drop_rules p db) = filter (\<lambda>h. hi_rule_id h \<notin> ?gone) (alert_history db)"
    by (simp_all add: drop_rules_def forget_history_def Let_def)
  have A: "ar_id ` set (alert_rules (drop_rules p db)) = ar_id ` set (alert_rules db) - ?gone"
    using keep by (simp add: r(1))
  have B: "fst ` state_key ` set (alert_states (drop_rules p db)) \<subseteq> fst ` state_key ` set (alert_states db) - ?gone"
    by (auto simp: r(2) state_key_def)
  have C: "hi_rule_id ` set (alert_history (drop_rules p db)) \<subseteq> hi_rule_id ` set (alert_history db) - ?gone"
    by (auto simp: r(3))
  have D: "distinct (map ar_id (alert_rules (drop_rules p db)))" "distinct (map ar_name (alert_rules (drop_rules p db)))"
    "distinct (map state_key (alert_states (drop_rules p db)))"
    using ok by (simp_all only: tables_ok_def r distinct_map_filterI)
  have "fst ` state_key ` set (alert_states db) \<subseteq> ar_id ` set (alert_rules db)"
    "hi_rule_id ` set (alert_history db) \<subseteq> ar_id ` set (alert_rules db)" using ok by (simp_all only: tables_ok_def)
  then show ?thesis unfolding tables_ok_def A
    by (intro conjI D o order_trans [OF B] order_trans [OF C] Diff_mono order_refl)
qed

definition rules_ok :: "alert_rule list \<Rightarrow> bool" where
  "rules_ok rs = (distinct (map ar_id rs) \<and> distinct (map ar_name rs))"

lemma tables_ok_rules:
  assumes "tables_ok db" "rules_ok rs" "ar_id ` set (alert_rules db) \<subseteq> ar_id ` set rs"
  shows "tables_ok (db\<lparr>alert_rules := rs\<rparr>)"
  using assms unfolding tables_ok_def rules_ok_def by simp (meson order_trans)

lemma import_alert_rule_ok:
  assumes "rules_ok rs" "rid \<notin> ar_id ` set rs"
  shows "rules_ok (import_alert_rule ov (b, rid) rs) \<and> ar_id ` set rs \<subseteq> ar_id ` set (import_alert_rule ov (b, rid) rs)
    \<and> ar_id ` set (import_alert_rule ov (b, rid) rs) \<subseteq> insert rid (ar_id ` set rs)"
proof -
  let ?f = "\<lambda>r. if ar_name r = arc_name b then r\<lparr>ar_rule_type := arc_rule_type b, ar_enabled := arc_is_enabled b,
     ar_level := arc_level b, ar_config := arc_config b\<rparr> else r"
  have same: "map ar_id (map ?f rs) = map ar_id rs" "map ar_name (map ?f rs) = map ar_name rs" by auto
  have "ar_id ` set (map ?f rs) = ar_id ` set rs" by (metis same(1) list.set_map)
  moreover have "rules_ok (map ?f rs)" using assms(1) by (simp only: rules_ok_def same)
  ultimately show ?thesis using assms
    by (cases "arc_name b \<notin> ar_name ` set rs"; cases ov)
      (simp_all only: import_alert_rule_def prod.case if_True if_False simp_thms, auto simp: rules_ok_def rule_of_def)
qed

lemma import_alert_rules_ok:
  assumes "rules_ok rs" "distinct (map snd xs)" "snd ` set xs \<inter> ar_id ` set rs = {}"
  shows "rules_ok (fold (import_alert_rule ov) xs rs) \<and> ar_id ` set rs \<subseteq> ar_id ` set (fold (import_alert_rule ov) xs rs)"
  using assms
proof (induction xs arbitrary: rs)
  case (Cons x xs)
  obtain b rid where x: "x = (b, rid)" by (cases x)
  have i: "rules_ok (import_alert_rule ov x rs) \<and> ar_id ` set rs \<subseteq> ar_id ` set (import_alert_rule ov x rs)
      \<and> ar_id ` set (import_alert_rule ov x rs) \<subseteq> insert rid (ar_id ` set rs)"
    unfolding x by (rule import_alert_rule_ok) (use Cons.prems x in auto)
  have "rid \<notin> snd ` set xs" using Cons.prems(2) x by simp
  then have "snd ` set xs \<inter> insert rid (ar_id ` set rs) = {}" using Cons.prems(3) by auto
  then have "snd ` set xs \<inter> ar_id ` set (import_alert_rule ov x rs) = {}" using i by blast
  have "distinct (map snd xs)" using Cons.prems(2) by simp
  from Cons.IH [OF i [THEN conjunct1] this \<open>snd ` set xs \<inter> ar_id ` set (import_alert_rule ov x rs) = {}\<close>] i
  show ?case unfolding fold_Cons comp_apply by (meson order_trans)
qed simp

inductive alert_step :: "delivery_env \<Rightarrow> alert_settings \<Rightarrow> alert_db \<Rightarrow> alert_db \<Rightarrow> bool" for E s where
  create: "rid \<notin> ar_id ` set (alert_rules db) \<Longrightarrow> create_alert_rule body rid db = Inr db' \<Longrightarrow> alert_step E s db db'"
| patch: "patch_alert_rule rid update db = Inr db' \<Longrightarrow> alert_step E s db db'"
| delete: "delete_alert_rule rid db = Inr db' \<Longrightarrow> alert_step E s db db'"
| import_rules: "distinct (map snd xs) \<Longrightarrow> snd ` set xs \<inter> ar_id ` set (alert_rules db) = {} \<Longrightarrow>
    import_alert_rules xs ov del db = Inr (db', n) \<Longrightarrow> alert_step E s db db'"
| evaluate: "alert_step E s db (fst (evaluate_all E s es clock db))"
| resolve: "resolve_alert_state E s now rid key db = Inr db' \<Longrightarrow> alert_step E s db db'"
| delete_history: "delete_alert_history hid db = Inr db' \<Longrightarrow> alert_step E s db db'"
| purge: "alert_step E s db (fst (purge_old_alert_history d now db))"
| claim: "claim_delivery s now hid db = (db', c) \<Longrightarrow> alert_step E s db db'"
| record_result: "record_outcome s finished hid n oc db = (db', r) \<Longrightarrow> alert_step E s db db'"
| snapshot: "alert_step E s db (save_snapshot p l t db)"

inductive alert_reach :: "delivery_env \<Rightarrow> alert_settings \<Rightarrow> alert_db \<Rightarrow> bool" for E s where
  start: "alert_reach E s empty_alert_db"
| step: "alert_reach E s db \<Longrightarrow> alert_step E s db db' \<Longrightarrow> alert_reach E s db'"

lemma tables_ok_delivery:
  assumes "tables_ok db" "outbox_ok db'" "alert_rules db' = alert_rules db" "alert_states db' = alert_states db"
    and "hi_rule_id ` set (alert_history db') \<subseteq> hi_rule_id ` set (alert_history db)"
  shows "tables_ok db'"
  using assms unfolding tables_ok_def by (simp del: image_subset_iff) (meson order_trans)

lemma claim_frame:
  assumes "claim_delivery s now hid db = (db', c)"
  shows "alert_rules db' = alert_rules db \<and> alert_states db' = alert_states db
    \<and> hi_rule_id ` set (alert_history db') \<subseteq> hi_rule_id ` set (alert_history db)"
  using assms
  by (force simp: claim_delivery_def Let_def set_history_def set_outbox_def drop_outbox_def split: option.splits if_splits)

lemma record_frame:
  assumes "record_outcome s finished hid n oc db = (db', r)"
  shows "alert_rules db' = alert_rules db \<and> alert_states db' = alert_states db
    \<and> hi_rule_id ` set (alert_history db') \<subseteq> hi_rule_id ` set (alert_history db)"
  using assms
  by (force simp: record_outcome_def Let_def set_history_def set_outbox_def drop_outbox_def split: option.splits if_splits)

lemma tables_ok_patch:
  assumes "tables_ok db" "patch_alert_rule rid u db = Inr db'"
  shows "tables_ok db'"
proof -
  let ?f = "\<lambda>r. if ar_id r = rid
             then r\<lparr>ar_name := or_old (aru_name u) (ar_name r), ar_enabled := or_old (aru_is_enabled u) (ar_enabled r),
                    ar_config := or_old (aru_config u) (ar_config r), ar_level := or_old (aru_level u) (ar_level r)\<rparr>
             else r"
  from assms(2) have db': "db' = db\<lparr>alert_rules := map ?f (alert_rules db)\<rparr>"
    and free: "\<And>name r. aru_name u = Some name \<Longrightarrow> r \<in> set (alert_rules db) \<Longrightarrow> ar_name r = name \<Longrightarrow> ar_id r = rid"
    by (auto simp: patch_alert_rule_def split: if_splits option.splits)
  have ids: "map ar_id (map ?f (alert_rules db)) = map ar_id (alert_rules db)" by auto
  have name: "ar_name (?f x) = (if ar_id x = rid then or_old (aru_name u) (ar_name x) else ar_name x)" for x by simp
  have "distinct (map ar_name (map ?f rs))"
    if "distinct (map ar_name rs)" "distinct (map ar_id rs)" "set rs \<subseteq> set (alert_rules db)" for rs
    using that
  proof (induction rs)
    case (Cons r rs)
    have "ar_name (?f r) \<noteq> ar_name (?f q)" if q: "q \<in> set rs" for q
    proof -
      have "ar_id r \<noteq> ar_id q" "ar_name r \<noteq> ar_name q" using Cons.prems(1,2) q by auto
      moreover have "r \<in> set (alert_rules db)" "q \<in> set (alert_rules db)" using Cons.prems(3) q by auto
      ultimately show ?thesis using free [of _ r] free [of _ q] unfolding name by (cases "aru_name u") (auto simp: or_old_def)
    qed
    moreover have "distinct (map ar_name (map ?f rs))" using Cons by simp
    ultimately show ?case unfolding list.map distinct.simps set_map by blast
  qed simp
  then have "rules_ok (map ?f (alert_rules db))" using assms(1) by (simp add: rules_ok_def tables_ok_def ids del: map_map)
  moreover have "ar_id ` set (map ?f (alert_rules db)) = ar_id ` set (alert_rules db)" by (metis ids list.set_map)
  ultimately show ?thesis unfolding db' using assms(1) by (intro tables_ok_rules) simp_all
qed

lemma tables_ok_resolve:
  assumes "tables_ok db" "resolve_event_score_manually E s now rid key db = Inr db'"
  shows "tables_ok db'"
proof -
  from assms(2) obtain rule c where r: "find (\<lambda>r. ar_id r = rid) (alert_rules db) = Some rule"
    and c: "find_state rid key (filter (\<lambda>st. al_state st = Firing) (alert_states db)) = Some c"
    and db': "db' = persist_pending E s now db (put_state (c\<lparr>al_state := Resolved, al_resolved_at := Some now\<rparr>) (alert_states db),
       [queue_notify rule (c\<lparr>al_state := Resolved, al_resolved_at := Some now\<rparr>) (ManualDetails key)])"
    by (auto simp: resolve_event_score_manually_def Let_def split: option.splits if_splits)
  have rid: "rid \<in> ar_id ` set (alert_rules db)" "ar_id rule = rid" using find_Some_iff_in [OF r] by auto
  have c: "al_rule_id c = rid" using find_state_keys [OF c] by simp
  let ?rows = "put_state (c\<lparr>al_state := Resolved, al_resolved_at := Some now\<rparr>) (alert_states db)"
  have "fst ` state_key ` set ?rows = insert rid (fst ` state_key ` set (alert_states db))"
    unfolding put_state_keys by (simp add: state_key_def c)
  then have "fst ` state_key ` set ?rows \<subseteq> ar_id ` set (alert_rules db)" using assms(1) rid by (simp add: tables_ok_def)
  moreover have "distinct (map state_key ?rows)" using assms(1) by (simp add: tables_ok_def put_state_distinct)
  ultimately show ?thesis unfolding db' using rid by (intro tables_ok_persist [OF assms(1)]) (simp_all add: queue_notify_def)
qed

lemma tables_ok_import:
  assumes "tables_ok db" "distinct (map snd xs)" "snd ` set xs \<inter> ar_id ` set (alert_rules db) = {}"
    and "import_alert_rules xs ov del db = Inr (db', n)"
  shows "tables_ok db'"
proof -
  let ?db = "db\<lparr>alert_rules := fold (import_alert_rule ov) xs (alert_rules db)\<rparr>"
  have "rules_ok (alert_rules db)" using assms(1) by (simp add: tables_ok_def rules_ok_def)
  from import_alert_rules_ok [OF this assms(2,3)] have "tables_ok ?db" by (intro tables_ok_rules [OF assms(1)]) simp_all
  moreover have "db' = (if del then drop_rules (\<lambda>r. ar_name r \<notin> (arc_name \<circ> fst) ` set xs) ?db else ?db)"
    using assms(4) by (auto simp: import_alert_rules_def Let_def split: if_splits)
  ultimately show ?thesis by (simp add: tables_ok_drop)
qed

lemma alert_step_ok: "alert_step E s db db' \<Longrightarrow> tables_ok db \<Longrightarrow> tables_ok db'"
proof (induction rule: alert_step.induct)
  case (create rid db body db')
  then have "rules_ok (alert_rules db @ [rule_of body rid])" "db' = db\<lparr>alert_rules := alert_rules db @ [rule_of body rid]\<rparr>"
    by (auto simp: create_alert_rule_def rule_of_def rules_ok_def tables_ok_def split: if_splits)
  then show ?case using create by (simp add: tables_ok_rules subset_insertI)
next
  case (evaluate db es clock)
  then show ?case unfolding evaluate_all_def Let_def by (intro tables_ok_evaluate_rules) auto
next
  case (claim now hid db db' c)
  then show ?case using claim_frame [OF claim(1)] outbox_ok_claim [OF _ claim(1)]
    by (intro tables_ok_delivery [OF claim(2)]) (auto simp: tables_ok_def)
next
  case (record_result finished hid n oc db db' r)
  then show ?case using record_frame [OF record_result(1)] outbox_ok_record [OF _ record_result(1)]
    by (intro tables_ok_delivery [OF record_result(2)]) (auto simp: tables_ok_def)
next
  case (snapshot db p l t)
  obtain sn where "save_snapshot p l t db = db\<lparr>snapshots := sn\<rparr>" using save_snapshot_shape by blast
  then show ?case using snapshot by (simp add: tables_ok_def)
qed (auto simp: delete_alert_rule_def delete_alert_history_def purge_old_alert_history_def resolve_alert_state_def Let_def
    intro: tables_ok_patch tables_ok_drop tables_ok_import tables_ok_resolve tables_ok_forget split: if_splits)

lemma alert_reach_ok: "alert_reach E s db \<Longrightarrow> tables_ok db"
proof (induction rule: alert_reach.induct)
  case start
  then show ?case by (simp add: tables_ok_def empty_alert_db_def outbox_ok_def find_history_def find_outbox_def agree_def)
qed (use alert_step_ok in blast)

text \<open>C30: Whatever sequence of rule changes, imports, evaluations, manual resolutions, deletions, retention runs and
  deliveries happens, rule names stay unique, there is one state per rule and alert, every state and every
  history row belongs to an existing rule, and every undelivered notification is still queued for delivery.\<close>

theorem alert_tables_stay_consistent:
  assumes "alert_reach E s db"
  shows "distinct (map ar_name (alert_rules db)) \<and> distinct (map state_key (alert_states db))
    \<and> (\<forall>st\<in>set (alert_states db). \<exists>r\<in>set (alert_rules db). ar_id r = al_rule_id st)
    \<and> (\<forall>h\<in>set (alert_history db). (\<exists>r\<in>set (alert_rules db). ar_id r = hi_rule_id h)
         \<and> (hi_status h \<in> {Pending, Retrying} \<longrightarrow> (\<exists>q\<in>set (outbox db). ob_history_id q = hi_id h)))"
proof -
  have ok: "tables_ok db" by (rule alert_reach_ok [OF assms])
  have "\<exists>q\<in>set (outbox db). ob_history_id q = hi_id h"
    if h: "h \<in> set (alert_history db)" "hi_status h \<in> {Pending, Retrying}" for h
  proof -
    have o: "outbox_ok db" using ok by (simp add: tables_ok_def)
    have "agree (Some h) (find_outbox db (hi_id h))" using outbox_okD [OF o, of "hi_id h"] find_by_id(1) [OF o h(1)] by simp
    then obtain r where "find_outbox db (hi_id h) = Some r" using h(2) by (auto simp: agree_def is_open_def split: option.splits)
    then show ?thesis by (auto simp: find_outbox_def dest!: find_Some_iff_in)
  qed
  then show ?thesis using ok by (fastforce simp: tables_ok_def state_key_def)
qed

definition sample_create :: alert_rule_create where
  "sample_create = \<lparr>arc_name = ''x'', arc_rule_type = ''event_score'', arc_is_enabled = True, arc_level = ''warning'',
     arc_config = [(''threshold'', JInt 60), (''cooldown_minutes'', JInt 10)]\<rparr>"

definition sample_fired :: alert_db where
  "sample_fired = fst (evaluate_all sample_delivery_env sample_alert_settings (sample_store [1000] []) (\<lambda>_. 2000)
     (empty_alert_db\<lparr>alert_rules := [rule_of sample_create 1]\<rparr>))"

lemma sample_fired_reach: "alert_reach sample_delivery_env sample_alert_settings sample_fired"
proof -
  have "create_alert_rule sample_create 1 empty_alert_db = Inr (empty_alert_db\<lparr>alert_rules := [rule_of sample_create 1]\<rparr>)"
    "1 \<notin> ar_id ` set (alert_rules empty_alert_db)" by (simp_all add: create_alert_rule_def empty_alert_db_def)
  from alert_reach.step [OF alert_reach.start alert_step.create [OF this(2,1)]]
  show ?thesis unfolding sample_fired_def by (rule alert_reach.step) (rule alert_step.evaluate)
qed

lemma alert_tables_stay_consistent_witness:
  "length (alert_states sample_fired) = 1 \<and> al_rule_id (hd (alert_states sample_fired)) \<in> ar_id ` set (alert_rules sample_fired)"
proof -
  have l: "length (alert_states sample_fired) = 1" "hd (alert_states sample_fired) \<in> set (alert_states sample_fired)" by code_simp+
  from alert_tables_stay_consistent [OF sample_fired_reach] l(2)
  have "\<exists>r\<in>set (alert_rules sample_fired). ar_id r = al_rule_id (hd (alert_states sample_fired))" by blast
  with l(1) show ?thesis by (metis imageI)
qed

text \<open>The history offers to resolve an alert exactly where the resolution would then succeed.\<close>

theorem offered_resolutions_succeed:
  assumes "alert_reach E s db" and "(h, offered) \<in> set (fst (list_alert_history limit offset db))"
  shows "offered = (\<exists>db'. resolve_alert_state E s now (hi_rule_id h) (hi_context_key h) db = Inr db')"
proof -
  have ok: "tables_ok db" by (rule alert_reach_ok [OF assms(1)])
  from assms(2) obtain items where h: "h \<in> set items" and o: "offered = can_resolve db (firing_keys db (hi_rule_id ` set items)) h"
    by (auto simp: list_alert_history_def Let_def)
  let ?r = "find (\<lambda>r. ar_id r = hi_rule_id h) (alert_rules db)"
  have uniq: "r = r'" if "r \<in> set (alert_rules db)" "r' \<in> set (alert_rules db)" "ar_id r = ar_id r'" for r r'
    using ok that by (auto simp: tables_ok_def distinct_map inj_on_def)
  show ?thesis
  proof (cases ?r)
    case None
    then show ?thesis by (simp add: o can_resolve_def resolve_alert_state_def resolve_event_score_manually_def)
  next
    case (Some r)
    then have r: "r \<in> set (alert_rules db)" "ar_id r = hi_rule_id h" by (auto dest!: find_Some_iff_in)
    have "(hi_rule_id h, hi_context_key h) \<in> state_key ` set (filter (\<lambda>st. al_state st = Firing) (alert_states db))
        \<longleftrightarrow> (hi_rule_id h, hi_context_key h) \<in> firing_keys db (hi_rule_id ` set items)" if ty: "ar_rule_type r = ''event_score''"
    proof
      assume "(hi_rule_id h, hi_context_key h) \<in> state_key ` set (filter (\<lambda>st. al_state st = Firing) (alert_states db))"
      then obtain st where "st \<in> set (alert_states db)" "al_state st = Firing" "state_key st = (hi_rule_id h, hi_context_key h)"
        by (auto simp: eq_commute)
      then show "(hi_rule_id h, hi_context_key h) \<in> firing_keys db (hi_rule_id ` set items)"
        unfolding firing_keys_def using h r ty by (intro image_eqI [of _ _ st]) (auto simp: state_key_def)
    qed (auto simp: firing_keys_def)
    then have "find_state (hi_rule_id h) (hi_context_key h) (filter (\<lambda>st. al_state st = Firing) (alert_states db)) \<noteq> None
        \<longleftrightarrow> (hi_rule_id h, hi_context_key h) \<in> firing_keys db (hi_rule_id ` set items)" if "ar_rule_type r = ''event_score''"
      using that by (simp add: find_state_None)
    then show ?thesis using Some
      by (auto simp: o can_resolve_def resolve_alert_state_def resolve_event_score_manually_def Let_def split: option.splits)
  qed
qed

lemma offered_resolutions_succeed_witness:
  "\<exists>db'. resolve_alert_state sample_delivery_env sample_alert_settings 3000 1 ''vim.event.X'' sample_fired = Inr db'"
proof -
  let ?l = "fst (list_alert_history 10 0 sample_fired)"
  have l: "?l \<noteq> []" "snd (hd ?l) = True" "hi_rule_id (fst (hd ?l)) = 1" "hi_context_key (fst (hd ?l)) = ''vim.event.X''" by code_simp+
  have "(fst (hd ?l), True) \<in> set ?l" using l(1,2) by (metis hd_in_set prod.collapse)
  from offered_resolutions_succeed [OF sample_fired_reach this, of 3000] l(3,4) show ?thesis by auto
qed

end
