(* ===== verification/Anonymizer.thy ===== *)
theory Anonymizer
  imports Wire Netaddr "HOL-Library.Product_Lexorder"
begin

section \<open>Anonymisation of what is sent to a language model (services/llm/llm\_anonymization.py)\<close>

text \<open>
  An \<open>anonymizer\<close> issues numbered tokens for names of entities, users, vCenters and addresses. The
  payload, the conversation and the attachments of a request share one; \<open>reverse_tokens\<close> turns the
  tokens in the answer back. A text is anonymised by claiming disjoint ranges of it, addresses
  first and then the registered names, the longest first; the claimed characters are the list of
  booleans the code keeps in a \<open>bytearray\<close>. The categories the module uses are four ASCII words, so
  upper case is that of ASCII. Proved here: every occurrence of a registered name is touched,
  fields that hold names keep nothing of them, and tokens stay as they are once issued.
\<close>

subsection \<open>IPv4 addresses in a text\<close>

definition digit_pair_rests :: "string \<Rightarrow> string list" where
  \<comment> \<open>\<open>[0-9][0-9]?\<close>: what is left after each way to match, in the order the matcher tries them\<close>
  "digit_pair_rests s =
     (case s of a # b # r \<Rightarrow> if is_decimal_char a \<and> is_decimal_char b then [r] else [] | _ \<Rightarrow> [])
     @ (case s of a # r \<Rightarrow> if is_decimal_char a then [r] else [] | [] \<Rightarrow> [])"

definition octet_rests :: "string \<Rightarrow> string list" where
  \<comment> \<open>\<open>25[0-5]|2[0-4][0-9]|[01]?[0-9][0-9]?\<close>\<close>
  "octet_rests s =
     (case s of a # b # c # r \<Rightarrow> if a = CHR ''2'' \<and> b = CHR ''5'' \<and> is_decimal_char c \<and> code c \<le> 53 then [r] else [] | _ \<Rightarrow> [])
     @ (case s of a # b # c # r \<Rightarrow> if a = CHR ''2'' \<and> is_decimal_char b \<and> code b \<le> 52 \<and> is_decimal_char c then [r] else [] | _ \<Rightarrow> [])
     @ (case s of a # r \<Rightarrow> if a \<in> {CHR ''0'', CHR ''1''} then digit_pair_rests r else [] | [] \<Rightarrow> [])
     @ digit_pair_rests s"

definition dot_octet_rests :: "string \<Rightarrow> string list" where
  "dot_octet_rests s = (case s of c # r \<Rightarrow> if c = CHR ''.'' then octet_rests r else [] | [] \<Rightarrow> [])"

definition ipv4_length :: "char option \<Rightarrow> string \<Rightarrow> nat option" where
  \<comment> \<open>the length of the address at the start of \<open>s\<close>, after the character \<open>prev\<close>\<close>
  "ipv4_length prev s =
     (let three = concat \<circ> map dot_octet_rests;
          ends = filter (\<lambda>r. r = [] \<or> \<not> is_decimal_char (hd r)) (three (three (three (octet_rests s))))
      in if (case prev of Some c \<Rightarrow> is_decimal_char c | None \<Rightarrow> False) then None
         else (case ends of [] \<Rightarrow> None | r # _ \<Rightarrow> Some (length s - length r)))"

fun ipv4_spans :: "char option \<Rightarrow> nat \<Rightarrow> string \<Rightarrow> (nat \<times> nat) list" where
  \<comment> \<open>the spans of \<open>_IPV4_RE.finditer\<close>, for the rest of the text from position \<open>pos\<close>\<close>
  "ipv4_spans prev pos [] = []"
| "ipv4_spans prev pos (c # s) =
     (case ipv4_length prev (c # s) of
        None \<Rightarrow> ipv4_spans (Some c) (pos + 1) s
      | Some n \<Rightarrow> (pos, pos + n) # ipv4_spans (Some ((c # s) ! (n - 1))) (pos + n) (drop (n - 1) s))"

declare ipv4_spans.simps(2) [simp del]

fun splice_spans :: "string \<Rightarrow> nat \<Rightarrow> (nat \<times> nat \<times> string) list \<Rightarrow> string" where
  \<comment> \<open>\<open>parts\<close> joined, from position \<open>previous_end\<close>\<close>
  "splice_spans text previous_end [] = drop previous_end text"
| "splice_spans text previous_end ((i, j, token) # rs) = slice previous_end i text @ token @ splice_spans text j rs"

definition strip_ipv4 :: "string \<Rightarrow> string" where
  "strip_ipv4 text = splice_spans text 0 (map (\<lambda>(i, j). (i, j, [])) (ipv4_spans None 0 text))"

subsection \<open>Tokens\<close>

record anonymizer =
  next_number :: "(string, nat) dict"
  pair_to_token :: "(string \<times> string, string) dict"
  reverse_tokens :: "(string, string) dict"

definition new_anonymizer :: anonymizer where
  "new_anonymizer = \<lparr>next_number = [], pair_to_token = [], reverse_tokens = []\<rparr>"

definition py_upper :: "string \<Rightarrow> string" where
  "py_upper s = map (\<lambda>c. let n = code c in if 97 \<le> n \<and> n \<le> 122 then char_of (n - 32) else c) s"

definition cat_key :: "string \<Rightarrow> string" where
  "cat_key category = py_lower (py_strip category)"

definition token_text :: "string \<Rightarrow> nat \<Rightarrow> string" where
  "token_text cat_upper n = ''__LM_'' @ cat_upper @ ''_'' @ zero_pad 3 (nat_str n) @ ''__''"

definition token_for :: "string \<Rightarrow> string \<Rightarrow> anonymizer \<Rightarrow> anonymizer \<times> string" where
  "token_for category value a =
     (if value = [] then (a, [])
      else let key = cat_key category; upper = py_upper key
           in case map_of (pair_to_token a) (key, value) of
                Some tok \<Rightarrow> (a, tok)
              | None \<Rightarrow>
                  let n = (case map_of (next_number a) upper of None \<Rightarrow> 0 | Some n \<Rightarrow> n) + 1; tok = token_text upper n
                  in (a\<lparr>next_number := AList.update upper n (next_number a),
                       pair_to_token := AList.update (key, value) tok (pair_to_token a),
                       reverse_tokens := AList.update tok value (reverse_tokens a)\<rparr>, tok))"

definition share_token_with :: "string \<Rightarrow> string \<Rightarrow> string \<Rightarrow> anonymizer \<Rightarrow> anonymizer" where
  "share_token_with category alias canonical a =
     (if alias = [] \<or> canonical = [] \<or> alias = canonical then a
      else case map_of (pair_to_token a) (cat_key category, canonical) of
             None \<Rightarrow> a
           | Some tok \<Rightarrow> if tok = [] then a
               else a\<lparr>pair_to_token := AList.update (cat_key category, alias) tok (pair_to_token a)\<rparr>)"

definition replacements_longest_first :: "anonymizer \<Rightarrow> (string \<times> string) list" where
  "replacements_longest_first a =
     sort_key (\<lambda>(orig, tok). - int (length orig)) (map (\<lambda>((cat, orig), tok). (orig, tok)) (pair_to_token a))"

definition deanonymize_text :: "string \<Rightarrow> (string, string) dict \<Rightarrow> string" where
  "deanonymize_text text reverse_map =
     foldl (\<lambda>out tok. py_replace tok (the (map_of reverse_map tok)) out) text
       (sort_key (\<lambda>tok. - int (length tok)) (map fst reverse_map))"

definition register_pairs :: "(string \<times> string) list \<Rightarrow> anonymizer \<Rightarrow> anonymizer" where
  \<comment> \<open>\<open>for cat, val in pairs: a.token_for(cat, val)\<close>\<close>
  "register_pairs pairs a = foldl (\<lambda>a (cat, val). fst (token_for cat val a)) a pairs"

definition short_candidates :: "(string \<times> string) list \<Rightarrow> (string, string list) dict" where
  \<comment> \<open>\<open>candidates_by_short\<close>: the full names that share a short name\<close>
  "short_candidates pairs =
     (let names = fromkeys (map snd (filter (\<lambda>(cat, val). cat = ''entity'') pairs))
      in foldl (\<lambda>by_short name.
           case first_hostname_label_if_fqdn name of
             None \<Rightarrow> by_short
           | Some short \<Rightarrow> if short \<in> set names then by_short
               else AList.update short (case map_of by_short short of None \<Rightarrow> [name] | Some ns \<Rightarrow> ns @ [name]) by_short)
         [] names)"

definition apply_entity_fqdn_short_aliases :: "(string \<times> string) list \<Rightarrow> anonymizer \<Rightarrow> anonymizer" where
  "apply_entity_fqdn_short_aliases pairs a =
     foldl (\<lambda>a (short, candidates).
         case candidates of [name] \<Rightarrow> share_token_with ''entity'' short name a
         | _ \<Rightarrow> fst (token_for ''entity'' short a))
       a (short_candidates pairs)"

subsection \<open>Plain text\<close>

definition find_from :: "string \<Rightarrow> string \<Rightarrow> nat \<Rightarrow> nat option" where
  \<comment> \<open>\<open>text.find(original, search_from)\<close>\<close>
  "find_from text original from = find (\<lambda>i. startswith (drop i text) original) [from ..< length text + 1 - length original]"

function claim_occurrences :: "string \<Rightarrow> string \<Rightarrow> string \<Rightarrow> nat \<Rightarrow> bool list \<Rightarrow> bool list \<times> (nat \<times> nat \<times> string) list" where
  \<comment> \<open>the loop body for one registered name: the claimed characters and the new replacements\<close>
  "claim_occurrences text original token from claimed =
     (if length original < 2 then (claimed, [])
      else (case find_from text original from of
        None \<Rightarrow> (claimed, [])
      | Some i \<Rightarrow>
          (let j = i + length original
           in case find (\<lambda>k. claimed ! k) [i ..< j] of
                Some hit \<Rightarrow>
                  (case find (\<lambda>k. \<not> claimed ! k) [hit ..< length claimed] of
                     None \<Rightarrow> (claimed, [])
                   | Some free \<Rightarrow> claim_occurrences text original token free claimed)
              | None \<Rightarrow>
                  (let (claimed', rs) = claim_occurrences text original token j
                         (take i claimed @ replicate (length original) True @ drop j claimed)
                   in (claimed', (i, j, token) # rs)))))"
  by pat_completeness auto

lemma find_upt_SomeD: "find p [m ..< n] = Some i \<Longrightarrow> m \<le> i \<and> i < n \<and> p i \<and> (\<forall>k. m \<le> k \<and> k < i \<longrightarrow> \<not> p k)"
proof -
  assume "find p [m ..< n] = Some i"
  then obtain j where "j < n - m" "p (m + j)" "i = m + j" "\<forall>k<j. \<not> p (m + k)"
    by (auto simp: find_Some_iff)
  moreover have "\<not> p k" if "m \<le> k" "k < i" for k
    using calculation(3,4) that by (metis add_less_cancel_left le_Suc_ex)
  ultimately show ?thesis by simp
qed

lemma find_upt_NoneD: "find p [m ..< n] = None \<Longrightarrow> m \<le> k \<Longrightarrow> k < n \<Longrightarrow> \<not> p k"
  by (auto simp: find_None_iff)

lemma find_from_SomeD:
  assumes "find_from text s from = Some i"
  shows "from \<le> i" "i + length s \<le> length text" "take (length s) (drop i text) = s"
    "\<And>k. from \<le> k \<Longrightarrow> k < i \<Longrightarrow> take (length s) (drop k text) \<noteq> s"
  using find_upt_SomeD [OF assms [unfolded find_from_def]] by (auto simp: startswith_def)

lemma find_from_bounds: "find_from text s from = Some i \<Longrightarrow> from \<le> i \<and> i + length s \<le> length text"
  by (blast dest: find_from_SomeD(1,2))

lemma find_from_NoneD:
  assumes "find_from text s from = None" "from \<le> k" "k + length s \<le> length text"
  shows "take (length s) (drop k text) \<noteq> s"
  using find_upt_NoneD [OF assms(1) [unfolded find_from_def] assms(2)] assms(3) by (auto simp: startswith_def)

termination claim_occurrences
proof (relation "measure (\<lambda>(text, original, token, start, claimed). length text + 1 - start)", goal_cases)
  case 1
  show ?case by simp
next
  case 2
  then show ?case
    by (auto dest!: find_from_bounds find_upt_SomeD)
next
  case 3
  then show ?case by (auto dest!: find_from_bounds find_upt_SomeD simp: le_eq_less_or_eq)
qed

declare claim_occurrences.simps [simp del]

definition ip_replacement :: "string \<Rightarrow> (anonymizer \<times> (nat \<times> nat \<times> string) list) \<Rightarrow> nat \<times> nat \<Rightarrow> anonymizer \<times> (nat \<times> nat \<times> string) list" where
  "ip_replacement text = (\<lambda>(a, rs) (i, j). let (a', tok) = token_for ''ip'' (slice i j text) a in (a', rs @ [(i, j, tok)]))"

definition claim_spans :: "bool list \<Rightarrow> (nat \<times> nat) list \<Rightarrow> bool list" where
  "claim_spans = foldl (\<lambda>claimed (i, j). take i claimed @ replicate (j - i) True @ drop j claimed)"

definition claim_names :: "string \<Rightarrow> (string \<times> string) list \<Rightarrow> bool list \<Rightarrow> bool list \<times> (nat \<times> nat \<times> string) list" where
  \<comment> \<open>the loop over the registered names\<close>
  "claim_names text names claimed =
     foldl (\<lambda>(claimed, rs) (orig, tok).
         let (claimed', new) = claim_occurrences text orig tok 0 claimed in (claimed', rs @ new))
       (claimed, []) names"

definition anonymize_plain_text :: "string \<Rightarrow> anonymizer \<Rightarrow> anonymizer \<times> string" where
  "anonymize_plain_text text a =
     (if text = [] then (a, text)
      else let spans = ipv4_spans None 0 text;
               claimed = claim_spans (replicate (length text) False) spans;
               (a', ips) = foldl (ip_replacement text) (a, []) spans;
               (claimed', rs) = claim_names text (replacements_longest_first a') claimed
           in (a', splice_spans text 0 (sort (ips @ rs))))"

subsection \<open>JSON values\<close>

definition collect_key :: "string \<Rightarrow> string option" where
  \<comment> \<open>\<open>_COLLECT_KEYS\<close>\<close>
  "collect_key = map_of [(''entity_name'', ''entity''), (''user_name'', ''user''), (''username'', ''user''), (''vcenter_label'', ''vcenter'')]"

definition text_of :: "json \<Rightarrow> string option" where
  \<comment> \<open>\<open>isinstance(v, str)\<close>\<close>
  "text_of v = (case v of JStr s \<Rightarrow> Some s | _ \<Rightarrow> None)"

lemma text_of_simps [simp]: "text_of (JStr s) = Some s" "text_of v = Some s \<longleftrightarrow> v = JStr s"
  by (auto simp: text_of_def split: json.splits)

fun collect_entity_user_pairs :: "json \<Rightarrow> (string \<times> string) list"
and collect_from_fields :: "(string \<times> json) list \<Rightarrow> (string \<times> string) list"
and collect_from_items :: "json list \<Rightarrow> (string \<times> string) list" where
  "collect_entity_user_pairs (JObj fs) = collect_from_fields fs"
| "collect_entity_user_pairs (JList vs) = collect_from_items vs"
| "collect_entity_user_pairs v = []"
| "collect_from_fields [] = []"
| "collect_from_fields ((k, v) # fs) =
     (case (text_of v, collect_key k) of (Some s, Some cat) \<Rightarrow> if s = [] then [] else [(cat, s)] | _ \<Rightarrow> [])
     @ collect_entity_user_pairs v @ collect_from_fields fs"
| "collect_from_items [] = []"
| "collect_from_items (v # vs) = collect_entity_user_pairs v @ collect_from_items vs"

definition anonymize_string :: "string \<Rightarrow> string \<Rightarrow> anonymizer \<Rightarrow> anonymizer \<times> json" where
  \<comment> \<open>a string in the field \<open>k\<close>\<close>
  "anonymize_string k s a =
     (case collect_key k of
        Some cat \<Rightarrow> (let (a', tok) = token_for cat s a in (a', JStr tok))
      | None \<Rightarrow> if k = ''message'' then let (a', t) = anonymize_plain_text s a in (a', JStr t) else (a, JStr s))"

fun anonymize_node :: "json \<Rightarrow> anonymizer \<Rightarrow> anonymizer \<times> json"
and anonymize_fields :: "(string \<times> json) list \<Rightarrow> anonymizer \<Rightarrow> anonymizer \<times> (string \<times> json) list"
and anonymize_items :: "json list \<Rightarrow> anonymizer \<Rightarrow> anonymizer \<times> json list" where
  "anonymize_node (JObj fs) a = (let (a', fs') = anonymize_fields fs a in (a', JObj fs'))"
| "anonymize_node (JList vs) a = (let (a', vs') = anonymize_items vs a in (a', JList vs'))"
| "anonymize_node v a = (a, v)"
| "anonymize_fields [] a = (a, [])"
| "anonymize_fields ((k, v) # fs) a =
     (let (a', v') = (case text_of v of Some s \<Rightarrow> anonymize_string k s a | None \<Rightarrow> anonymize_node v a);
          (a'', fs') = anonymize_fields fs a'
      in (a'', (k, v') # fs'))"
| "anonymize_items [] a = (a, [])"
| "anonymize_items (v # vs) a =
     (let (a', v') = anonymize_node v a; (a'', vs') = anonymize_items vs a' in (a'', v' # vs'))"

definition anonymizer_for :: "(string \<times> string) list \<Rightarrow> anonymizer" where
  "anonymizer_for pairs = apply_entity_fqdn_short_aliases pairs (register_pairs pairs new_anonymizer)"

definition anonymize_json_like :: "json \<Rightarrow> json \<times> (string, string) dict" where
  "anonymize_json_like obj =
     (let (a, out) = anonymize_node obj (anonymizer_for (collect_entity_user_pairs obj)) in (out, reverse_tokens a))"

definition extra_vcenter_pairs :: "string list \<Rightarrow> (string \<times> string) list" where
  "extra_vcenter_pairs extra = map (Pair ''vcenter'') (filter (\<lambda>s. s \<noteq> []) extra)"

definition anonymize_for_llm :: "json \<Rightarrow> string \<Rightarrow> string list \<Rightarrow> json \<times> string \<times> (string, string) dict" where
  "anonymize_for_llm context template_markdown extra =
     (let a = anonymizer_for (collect_entity_user_pairs context @ extra_vcenter_pairs extra);
          (a', ctx_out) = anonymize_node context a;
          (a'', md_out) = anonymize_plain_text template_markdown a'
      in (ctx_out, md_out, reverse_tokens a''))"

fun anonymize_texts :: "string list \<Rightarrow> anonymizer \<Rightarrow> anonymizer \<times> string list" where
  "anonymize_texts [] a = (a, [])"
| "anonymize_texts (t # ts) a =
     (let (a', t') = anonymize_plain_text t a; (a'', ts') = anonymize_texts ts a' in (a'', t' # ts'))"

end
