(* ===== verification/Redaction.thy ===== *)
theory Redaction
  imports Anonymizer
begin

section \<open>What anonymisation hides\<close>

text \<open>
  The replaced ranges of a text are disjoint and in bounds, so the result is the text with these
  ranges exchanged for tokens; whatever is kept contains no registered name. The same then holds
  for every message of a payload, for the conversation and for the attachments, while fields that
  hold a name become a token as a whole.
\<close>

subsection \<open>Disjoint ranges\<close>

type_synonym range = "nat \<times> nat \<times> string"

definition covers :: "range list \<Rightarrow> nat \<Rightarrow> bool" where
  "covers rs k = (\<exists>(i, j, t)\<in>set rs. i \<le> k \<and> k < j)"

definition ranges_ok :: "nat \<Rightarrow> range list \<Rightarrow> bool" where
  "ranges_ok n rs \<longleftrightarrow> distinct rs \<and> (\<forall>(i, j, t)\<in>set rs. i < j \<and> j \<le> n)
     \<and> (\<forall>(i, j, t)\<in>set rs. \<forall>(i', j', t')\<in>set rs. (i, j, t) \<noteq> (i', j', t') \<longrightarrow> j \<le> i' \<or> j' \<le> i)"

lemma covers_simps [simp]:
  "covers [] k = False" "covers ((i, j, t) # rs) k \<longleftrightarrow> i \<le> k \<and> k < j \<or> covers rs k"
  "covers (rs @ rs') k \<longleftrightarrow> covers rs k \<or> covers rs' k"
  by (auto simp: covers_def)

lemma ranges_ok_add:
  assumes "ranges_ok n rs" "i < j" "j \<le> n" "\<And>k. i \<le> k \<Longrightarrow> k < j \<Longrightarrow> \<not> covers rs k"
  shows "ranges_ok n (rs @ [(i, j, t)])"
proof -
  have apart: "j' \<le> i \<or> j \<le> i'" if r: "(i', j', t') \<in> set rs" for i' j' t'
  proof (rule ccontr)
    assume overlapping: "\<not> (j' \<le> i \<or> j \<le> i')"
    have "i' < j'" using assms(1) r by (auto simp: ranges_ok_def)
    with overlapping assms(2) have "i \<le> max i i'" "max i i' < j" "i' \<le> max i i'" "max i i' < j'" by auto
    then show False using assms(4) [of "max i i'"] r by (auto simp: covers_def)
  qed
  have "(i, j, t) \<notin> set rs" using assms(2) assms(4) [of i] by (auto simp: covers_def)
  with assms(1-3) apart show ?thesis by (fastforce simp: ranges_ok_def)
qed

fun chain :: "nat \<Rightarrow> nat \<Rightarrow> range list \<Rightarrow> bool" where
  \<comment> \<open>the ranges follow each other from position \<open>p\<close> on\<close>
  "chain n p [] = (p \<le> n)"
| "chain n p ((i, j, t) # rs) = (p \<le> i \<and> i < j \<and> chain n j rs)"

lemma chain_sorted:
  assumes "sorted rs" "ranges_ok n rs" "p \<le> n" "\<And>i j t. (i, j, t) \<in> set rs \<Longrightarrow> p \<le> i"
  shows "chain n p rs"
  using assms
proof (induction rs arbitrary: p)
  case Nil
  then show ?case by simp
next
  case (Cons r rs)
  obtain i j t where r: "r = (i, j, t)" by (cases r)
  have ij: "i < j" "j \<le> n" "p \<le> i" using Cons.prems(2,4) by (auto simp: ranges_ok_def r)
  have "j \<le> i'" if later: "(i', j', t') \<in> set rs" for i' j' t'
  proof -
    have "(i, j, t) \<le> (i', j', t')" using Cons.prems(1) later by (auto simp: r)
    then have "i \<le> i'" by (auto simp: less_eq_prod_def)
    moreover have "(i, j, t) \<noteq> (i', j', t')" "i' < j'" using Cons.prems(2) later by (auto simp: ranges_ok_def r)
    moreover have "j \<le> i' \<or> j' \<le> i" using Cons.prems(2) later calculation(2) by (fastforce simp: ranges_ok_def r)
    ultimately show ?thesis by linarith
  qed
  moreover have "ranges_ok n rs" using Cons.prems(2) unfolding ranges_ok_def by auto
  ultimately have "chain n j rs" using Cons.IH [of j] Cons.prems(1) ij by auto
  with ij show ?case by (simp add: r)
qed

lemma ranges_ok_sort: "ranges_ok n rs \<Longrightarrow> ranges_ok n (sort rs)"
  by (simp add: ranges_ok_def)

lemma covers_sort [simp]: "covers (sort rs) k = covers rs k"
  by (simp add: covers_def)

fun gaps :: "nat \<Rightarrow> nat \<Rightarrow> range list \<Rightarrow> (nat \<times> nat) list" where
  \<comment> \<open>what is kept between the ranges\<close>
  "gaps n p [] = [(p, n)]"
| "gaps n p ((i, j, t) # rs) = (p, i) # gaps n j rs"

lemma chain_after: "chain n p rs \<Longrightarrow> covers rs k \<Longrightarrow> p \<le> k"
proof (induction n p rs rule: chain.induct)
  case (2 n p i j t rs)
  then show ?case by (cases "i \<le> k \<and> k < j") auto
qed simp

lemma chain_le: "chain n p rs \<Longrightarrow> p \<le> n"
  by (induction n p rs rule: chain.induct) auto

lemma gaps_uncovered:
  assumes "chain n p rs" "(x, y) \<in> set (gaps n p rs)"
  shows "p \<le> x \<and> x \<le> y \<and> y \<le> n \<and> (\<forall>k. x \<le> k \<and> k < y \<longrightarrow> \<not> covers rs k)"
  using assms
proof (induction n p rs rule: chain.induct)
  case (2 n p i j t rs)
  show ?case
  proof (cases "(x, y) = (p, i)")
    case True
    then show ?thesis using 2(2) chain_after [of n j rs] chain_le [of n j rs] by fastforce
  next
    case False
    then show ?thesis using 2 by fastforce
  qed
qed simp

subsection \<open>The claimed characters\<close>

definition claims :: "string \<Rightarrow> bool list \<Rightarrow> range list \<Rightarrow> bool" where
  "claims text claimed rs \<longleftrightarrow> ranges_ok (length text) rs \<and> length claimed = length text
     \<and> (\<forall>k<length text. claimed ! k = covers rs k)"

lemma claims_add:
  assumes "claims text claimed rs" "i < j" "j \<le> length text" "\<And>k. i \<le> k \<Longrightarrow> k < j \<Longrightarrow> \<not> claimed ! k"
  shows "claims text (take i claimed @ replicate (j - i) True @ drop j claimed) (rs @ [(i, j, t)])"
proof -
  have "\<not> covers rs k" if "i \<le> k" "k < j" for k using assms that by (auto simp: claims_def)
  with assms show ?thesis
    by (auto simp: claims_def nth_append intro: ranges_ok_add)
qed

definition occurs_at :: "string \<Rightarrow> string \<Rightarrow> nat \<Rightarrow> bool" where
  "occurs_at text name k \<longleftrightarrow> k + length name \<le> length text \<and> take (length name) (drop k text) = name"

definition touched :: "range list \<Rightarrow> string \<Rightarrow> nat \<Rightarrow> bool" where
  "touched rs name k = (\<exists>m. k \<le> m \<and> m < k + length name \<and> covers rs m)"

lemma touched_append: "touched rs name k \<Longrightarrow> touched (rs @ rs') name k"
  by (auto simp: touched_def)

lemma claim_occurrences_ok:
  assumes "claims text claimed rs" "claim_occurrences text name tok from claimed = (claimed', new)"
  shows "claims text claimed' (rs @ new) \<and> (\<forall>(i, j, t)\<in>set new. occurs_at text name i \<and> j = i + length name \<and> t = tok)
    \<and> (2 \<le> length name \<longrightarrow> (\<forall>k\<ge>from. occurs_at text name k \<longrightarrow> touched (rs @ new) name k))"
  using assms
proof (induction "text" name tok "from" claimed arbitrary: claimed' new rs rule: claim_occurrences.induct)
  case (1 s name tok start claimed)
  note simps = claim_occurrences.simps [of s name tok start claimed]
  show ?case
  proof (cases "length name < 2 \<or> find_from s name start = None")
    case True
    then have "claimed' = claimed" "new = []" using "1.prems"(2) by (auto simp: simps split: if_splits)
    then show ?thesis using True "1.prems"(1) find_from_NoneD [of s name start] by (auto simp: occurs_at_def)
  next
    case False
    then obtain i where len: "\<not> length name < 2" and i: "find_from s name start = Some i" by auto
    let ?j = "i + length name"
    note found = find_from_SomeD [OF i]
    have earlier: "i \<le> k" if "start \<le> k" "occurs_at s name k" for k
      using found(4) that by (metis linorder_not_le occurs_at_def)
    show ?thesis
    proof (cases "find (\<lambda>k. claimed ! k) [i ..< ?j]")
      case (Some hit)
      then have hit: "i \<le> hit" "hit < ?j" "claimed ! hit" using find_upt_SomeD by blast+
      have at_hit: "touched (rs @ new') name k" if "i \<le> k" "k \<le> hit" for k new'
        using "1.prems"(1) hit that found(2) by (auto simp: touched_def claims_def intro!: exI [of _ hit])
      show ?thesis
      proof (cases "find (\<lambda>k. \<not> claimed ! k) [hit ..< length claimed]")
        case None
        have "touched rs name k" if "hit \<le> k" "occurs_at s name k" for k
          using find_upt_NoneD [OF None, of k] that len "1.prems"(1)
          by (auto simp: touched_def claims_def occurs_at_def intro!: exI [of _ k])
        moreover have "claimed' = claimed" "new = []" using "1.prems"(2) len i Some None by (auto simp: simps Let_def)
        ultimately show ?thesis using "1.prems"(1) earlier at_hit [of _ "[]"] by (auto) (metis linorder_le_cases)
      next
        case (Some gap)
        note gap = find_upt_SomeD [OF Some]
        have between: "touched (rs @ new) name k" if "hit \<le> k" "k < gap" for k
          using gap that len "1.prems"(1) by (auto simp: touched_def claims_def intro!: exI [of _ k])
        have rec: "claim_occurrences s name tok gap claimed = (claimed', new)"
          using "1.prems"(2) len i \<open>find (\<lambda>k. claimed ! k) _ = _\<close> Some by (simp add: simps Let_def)
        have IH: "claims s claimed' (rs @ new) \<and> (\<forall>(i, j, t)\<in>set new. occurs_at s name i \<and> j = i + length name \<and> t = tok)
            \<and> (2 \<le> length name \<longrightarrow> (\<forall>k\<ge>gap. occurs_at s name k \<longrightarrow> touched (rs @ new) name k))"
          by (rule "1.IH"(2) [OF len i refl \<open>find (\<lambda>k. claimed ! k) _ = _\<close> Some "1.prems"(1) rec])
        have "touched (rs @ new) name k" if "start \<le> k" "occurs_at s name k" "2 \<le> length name" for k
        proof (cases "gap \<le> k")
          case True
          then show ?thesis using IH that by blast
        next
          case False
          then show ?thesis using earlier [OF that(1,2)] at_hit between by (cases "k \<le> hit") auto
        qed
        then show ?thesis using IH by blast
      qed
    next
      case None
      let ?mid = "take i claimed @ replicate (length name) True @ drop ?j claimed"
      obtain c2 new2 where rec: "claim_occurrences s name tok ?j ?mid = (c2, new2)" by fastforce
      have out: "claimed' = c2" "new = (i, ?j, tok) # new2"
        using "1.prems"(2) len i None rec by (auto simp: simps Let_def)
      have mid: "claims s ?mid (rs @ [(i, ?j, tok)])"
        using claims_add [OF "1.prems"(1), of i ?j tok] find_upt_NoneD [OF None] len found(2) by (cases name) auto
      have IH: "claims s c2 ((rs @ [(i, ?j, tok)]) @ new2)
          \<and> (\<forall>(i, j, t)\<in>set new2. occurs_at s name i \<and> j = i + length name \<and> t = tok)
          \<and> (2 \<le> length name \<longrightarrow> (\<forall>k\<ge>?j. occurs_at s name k \<longrightarrow> touched ((rs @ [(i, ?j, tok)]) @ new2) name k))"
        by (rule "1.IH"(1) [OF len i refl None mid rec])
      have here: "touched (rs @ new) name k" if "i \<le> k" "k < ?j" for k
        using that len by (auto simp: touched_def out intro!: exI [of _ k])
      have "touched (rs @ new) name k" if "start \<le> k" "occurs_at s name k" "2 \<le> length name" for k
      proof (cases "?j \<le> k")
        case True
        then show ?thesis using IH that by (simp add: out)
      next
        case False
        then show ?thesis using earlier [OF that(1,2)] here by simp
      qed
      then show ?thesis using IH found by (auto simp: out occurs_at_def)
    qed
  qed
qed

lemma claim_names_ok:
  assumes "claims text claimed rs" "foldl (\<lambda>(claimed, rs) (orig, tok). let (c, new) = claim_occurrences text orig tok 0 claimed in (c, rs @ new))
      (claimed, rs') names = (claimed2, rs2)" "set rs' \<subseteq> set rs" "rs = ips @ rs'"
  shows "claims text claimed2 (ips @ rs2) \<and> (\<exists>new. rs2 = rs' @ new \<and>
      (\<forall>(i, j, t)\<in>set new. \<exists>name. (name, t) \<in> set names \<and> occurs_at text name i \<and> j = i + length name))
    \<and> (\<forall>(name, t)\<in>set names. 2 \<le> length name \<longrightarrow> (\<forall>k. occurs_at text name k \<longrightarrow> touched (ips @ rs2) name k))"
  using assms
proof (induction names arbitrary: claimed rs rs')
  case Nil
  then show ?case by simp
next
  case (Cons nt names)
  obtain name tok where nt: "nt = (name, tok)" by (cases nt)
  obtain c new where step: "claim_occurrences text name tok 0 claimed = (c, new)" by fastforce
  note one = claim_occurrences_ok [OF Cons.prems(1) step]
  from Cons.prems(2) have rest: "foldl (\<lambda>(claimed, rs) (orig, tok). let (c, new) = claim_occurrences text orig tok 0 claimed in (c, rs @ new))
      (c, rs' @ new) names = (claimed2, rs2)" by (simp add: nt step)
  have IH: "claims text claimed2 (ips @ rs2) \<and> (\<exists>more. rs2 = (rs' @ new) @ more \<and>
      (\<forall>(i, j, t)\<in>set more. \<exists>name. (name, t) \<in> set names \<and> occurs_at text name i \<and> j = i + length name))
    \<and> (\<forall>(name, t)\<in>set names. 2 \<le> length name \<longrightarrow> (\<forall>k. occurs_at text name k \<longrightarrow> touched (ips @ rs2) name k))"
    by (rule Cons.IH [OF _ rest]) (use one Cons.prems in auto)
  then obtain more where more: "rs2 = (rs' @ new) @ more"
      "\<forall>(i, j, t)\<in>set more. \<exists>name. (name, t) \<in> set names \<and> occurs_at text name i \<and> j = i + length name" by blast
  have "touched (ips @ rs2) name k" if "2 \<le> length name" "occurs_at text name k" for k
    using one that touched_append [of "rs @ new" name k more] by (auto simp: more(1) Cons.prems(4))
  then show ?case using IH more(2) one
    by (intro conjI exI [of _ "new @ more"]) (auto simp: nt more(1) split_beta)
qed

subsection \<open>Addresses\<close>

lemma length_digit_pair_rests: "r \<in> set (digit_pair_rests s) \<Longrightarrow> length r < length s"
  by (auto simp: digit_pair_rests_def split: list.splits if_splits)

lemma length_octet_rests: "r \<in> set (octet_rests s) \<Longrightarrow> length r < length s"
  by (auto simp: octet_rests_def split: list.splits if_splits dest: length_digit_pair_rests)

lemma length_dot_octet_rests: "r \<in> set (dot_octet_rests s) \<Longrightarrow> length r < length s"
  by (auto simp: dot_octet_rests_def split: list.splits if_splits dest: length_octet_rests)

lemma ipv4_length_bounds: "ipv4_length prev s = Some n \<Longrightarrow> 0 < n \<and> n \<le> length s"
proof -
  let ?rests = "concat (map dot_octet_rests (concat (map dot_octet_rests (concat (map dot_octet_rests (octet_rests s))))))"
  assume "ipv4_length prev s = Some n"
  then obtain p r rest where "filter p ?rests = r # rest" and n: "n = length s - length r"
    by (fastforce simp: ipv4_length_def Let_def split: if_splits list.splits)
  then have "r \<in> set ?rests" by (metis filter_is_subset list.set_intros(1) subsetD)
  then have "length r < length s" by (auto dest!: length_dot_octet_rests length_octet_rests)
  with n show ?thesis by simp
qed

fun span_chain :: "nat \<Rightarrow> nat \<Rightarrow> (nat \<times> nat) list \<Rightarrow> bool" where
  "span_chain n p [] = (p \<le> n)"
| "span_chain n p ((i, j) # spans) = (p \<le> i \<and> i < j \<and> span_chain n j spans)"

lemma span_chain_weaken: "span_chain n p spans \<Longrightarrow> q \<le> p \<Longrightarrow> span_chain n q spans"
  by (induction n p spans rule: span_chain.induct) auto

lemma span_chain_le: "span_chain n p spans \<Longrightarrow> p \<le> n"
  by (induction n p spans rule: span_chain.induct) auto

lemma ipv4_spans_chain: "span_chain (pos + length s) pos (ipv4_spans prev pos s)"
proof (induction prev pos s rule: ipv4_spans.induct)
  case (2 prev pos c s)
  show ?case
  proof (cases "ipv4_length prev (c # s)")
    case None
    with 2 show ?thesis by (auto simp: ipv4_spans.simps(2) intro: span_chain_weaken [of _ "pos + 1"])
  next
    case (Some n)
    with 2 ipv4_length_bounds [OF Some] show ?thesis by (auto simp: ipv4_spans.simps(2))
  qed
qed simp

subsection \<open>Issued tokens\<close>

definition known :: "anonymizer \<Rightarrow> string \<Rightarrow> string \<Rightarrow> bool" where
  \<comment> \<open>\<open>tok\<close> stands for \<open>name\<close>\<close>
  "known a name tok = (\<exists>cat. ((cat, name), tok) \<in> set (pair_to_token a))"

definition extends :: "anonymizer \<Rightarrow> anonymizer \<Rightarrow> bool" where
  "extends a a' \<longleftrightarrow> set (pair_to_token a) \<subseteq> set (pair_to_token a')"

lemma extends_refl [simp]: "extends a a"
  by (simp add: extends_def)

lemma extends_trans: "extends a b \<Longrightarrow> extends b c \<Longrightarrow> extends a c"
  by (auto simp: extends_def)

lemma known_extends: "known a name tok \<Longrightarrow> extends a a' \<Longrightarrow> known a' name tok"
  by (auto simp: known_def extends_def)

lemma update_new: "map_of al k = None \<Longrightarrow> AList.update k v al = al @ [(k, v)]"
  by (induction al) auto

lemma token_for_known:
  assumes "token_for category value a = (a', tok)"
  shows "extends a a'" "value \<noteq> [] \<Longrightarrow> ((cat_key category, value), tok) \<in> set (pair_to_token a')"
  using assms by (auto simp: token_for_def extends_def Let_def update_new dest: map_of_SomeD split: if_splits option.splits)

subsection \<open>Texts\<close>

lemma foldl_extends:
  assumes "\<And>s x. extends (f s) (f (g s x))"
  shows "extends (f s) (f (foldl g s xs))"
  using assms by (induction xs arbitrary: s) (auto intro: extends_trans)

lemma ips_ok:
  assumes "span_chain (length text) p spans" "claims text claimed rs" "\<And>k. p \<le> k \<Longrightarrow> \<not> covers rs k"
    "foldl (ip_replacement text) (a, rs) spans = (a', rs')" "\<forall>(i, j, t)\<in>set rs. known a (slice i j text) t"
  shows "claims text (claim_spans claimed spans) rs' \<and> extends a a' \<and> (\<forall>(i, j, t)\<in>set rs'. known a' (slice i j text) t)"
  using assms
proof (induction spans arbitrary: p claimed rs a)
  case Nil
  then show ?case by (simp add: claim_spans_def)
next
  case (Cons span spans)
  obtain i j where span: "span = (i, j)" by (cases span)
  obtain a1 tok where tok: "token_for ''ip'' (slice i j text) a = (a1, tok)" by fastforce
  have ij: "p \<le> i" "i < j" "j \<le> length text" "span_chain (length text) j spans"
    using Cons.prems(1) span_chain_le by (auto simp: span)
  have free: "\<not> claimed ! k" if "i \<le> k" "k < j" for k
    using Cons.prems(2,3) that ij by (auto simp: claims_def)
  have "slice i j text \<noteq> []" using ij by (simp add: slice_def)
  with token_for_known [OF tok] have a1: "extends a a1" "known a1 (slice i j text) tok" by (auto simp: known_def)
  have "claims text (claim_spans (take i claimed @ replicate (j - i) True @ drop j claimed) spans) rs' \<and> extends a1 a'
      \<and> (\<forall>(i, j, t)\<in>set rs'. known a' (slice i j text) t)"
  proof (rule Cons.IH [OF ij(4)])
    show "claims text (take i claimed @ replicate (j - i) True @ drop j claimed) (rs @ [(i, j, tok)])"
      by (rule claims_add [OF Cons.prems(2) ij(2,3) free])
    show "\<not> covers (rs @ [(i, j, tok)]) k" if "j \<le> k" for k using Cons.prems(3) [of k] ij that by auto
    show "foldl (ip_replacement text) (a1, rs @ [(i, j, tok)]) spans = (a', rs')"
      using Cons.prems(4) by (simp add: span ip_replacement_def tok)
    show "\<forall>(i, j, t)\<in>set (rs @ [(i, j, tok)]). known a1 (slice i j text) t"
      using Cons.prems(5) a1 known_extends [OF _ a1(1)] by auto
  qed
  then show ?case using a1(1) by (auto simp: claim_spans_def span intro: extends_trans)
qed

fun segments :: "string \<Rightarrow> nat \<Rightarrow> range list \<Rightarrow> (string \<times> string \<times> string) list \<times> string" where
  \<comment> \<open>what is kept, what is replaced and by what; and the rest\<close>
  "segments text p [] = ([], drop p text)"
| "segments text p ((i, j, t) # rs) =
     (let (segs, tail) = segments text j rs in ((slice p i text, slice i j text, t) # segs, tail))"

definition original_of :: "(string \<times> string \<times> string) list \<times> string \<Rightarrow> string" where
  "original_of st = concat (map (\<lambda>(kept, name, tok). kept @ name) (fst st)) @ snd st"

definition redacted_of :: "(string \<times> string \<times> string) list \<times> string \<Rightarrow> string" where
  "redacted_of st = concat (map (\<lambda>(kept, name, tok). kept @ tok) (fst st)) @ snd st"

definition kept_of :: "(string \<times> string \<times> string) list \<times> string \<Rightarrow> string set" where
  "kept_of st = insert (snd st) (fst ` set (fst st))"

lemma slice_drop: "i \<le> j \<Longrightarrow> slice i j xs @ drop j xs = drop i xs"
  unfolding slice_def by (metis append_take_drop_id drop_drop le_add_diff_inverse2)

lemma original_segments: "chain (length text) p rs \<Longrightarrow> original_of (segments text p rs) = drop p text"
proof (induction "text" p rs rule: segments.induct)
  case (2 s p i j t rs)
  then have "original_of (segments s p ((i, j, t) # rs)) = slice p i s @ slice i j s @ drop j s"
    by (auto simp: original_of_def split: prod.splits)
  with 2(2) show ?case by (simp add: slice_drop)
qed (simp add: original_of_def)

lemma redacted_segments: "redacted_of (segments text p rs) = splice_spans text p rs"
  by (induction "text" p rs rule: segments.induct) (auto simp: redacted_of_def split: prod.splits)

lemma kept_segments: "kept_of (segments text p rs) = (\<lambda>(x, y). slice x y text) ` set (gaps (length text) p rs)"
proof (induction "text" p rs rule: segments.induct)
  case (2 s p i j t rs)
  have "kept_of (segments s p ((i, j, t) # rs)) = insert (slice p i s) (kept_of (segments s j rs))"
    by (auto simp: kept_of_def split: prod.splits)
  with 2 show ?case by simp
qed (simp add: kept_of_def slice_def)

lemma names_segments: "(kept, name, tok) \<in> set (fst (segments text p rs)) \<Longrightarrow> \<exists>i j. (i, j, tok) \<in> set rs \<and> name = slice i j text"
  by (induction "text" p rs rule: segments.induct) (auto split: prod.splits)

lemma contains_slice:
  assumes "contains (slice x y text) name" "y \<le> length text" "name \<noteq> []"
  shows "\<exists>k. x \<le> k \<and> k + length name \<le> y \<and> occurs_at text name k"
proof -
  from assms(1) obtain u v where uv: "take (y - x) (drop x text) = u @ name @ v" by (auto simp: contains_iff slice_def)
  then have le: "length u + length name + length v \<le> y - x" by (metis length_append length_take min.cobounded2 add.assoc)
  have "drop x text = u @ name @ v @ drop (y - x) (drop x text)"
    using uv by (metis append.assoc append_take_drop_id)
  then have "drop (x + length u) text = name @ v @ drop (y - x) (drop x text)"
    by (metis add.commute append_eq_conv_conj drop_drop)
  then have "take (length name) (drop (x + length u) text) = name" by simp
  moreover have "x + length u + length name \<le> y" using le assms(3) by (cases name) auto
  ultimately show ?thesis using assms(2) by (intro exI [of _ "x + length u"]) (auto simp: occurs_at_def)
qed

definition redacts :: "string set \<Rightarrow> anonymizer \<Rightarrow> string \<Rightarrow> string \<Rightarrow> bool" where
  \<comment> \<open>\<open>out\<close> is \<open>text\<close> with known names replaced by their tokens, and what is kept has no name of \<open>names\<close>\<close>
  "redacts names a text out \<longleftrightarrow> (\<exists>st. text = original_of st \<and> out = redacted_of st
     \<and> (\<forall>(kept, name, tok)\<in>set (fst st). known a name tok)
     \<and> (\<forall>part\<in>kept_of st. \<forall>name\<in>names. 2 \<le> length name \<longrightarrow> \<not> contains part name))"

lemma redacts_extends: "redacts names a text out \<Longrightarrow> extends a a' \<Longrightarrow> redacts names a' text out"
  unfolding redacts_def by (elim exE conjE, intro exI conjI) (auto intro: known_extends)

lemma redacts_empty: "redacts names a [] []"
  unfolding redacts_def by (intro exI [of _ "([], [])"]) (auto simp: original_of_def redacted_of_def kept_of_def contains_iff)

lemma anonymize_plain_text_ok:
  assumes "anonymize_plain_text text a = (a', out)"
  shows "extends a a' \<and> redacts {name. \<exists>tok. known a' name tok} a' text out"
proof (cases "text = []")
  case True
  with assms show ?thesis by (simp add: anonymize_plain_text_def redacts_empty)
next
  case False
  let ?n = "length text"
  define spans where "spans = ipv4_spans None 0 text"
  define claimed where "claimed = claim_spans (replicate ?n False) spans"
  obtain a1 ips where ips: "foldl (ip_replacement text) (a, []) spans = (a1, ips)" by fastforce
  obtain claimed2 rs where rs: "claim_names text (replacements_longest_first a1) claimed = (claimed2, rs)" by fastforce
  have out: "a' = a1" "out = splice_spans text 0 (sort (ips @ rs))"
    using assms False by (simp_all add: anonymize_plain_text_def Let_def ips rs flip: spans_def claimed_def)
  have ip: "claims text claimed ips \<and> extends a a1 \<and> (\<forall>(i, j, t)\<in>set ips. known a1 (slice i j text) t)"
    unfolding claimed_def
  proof (rule ips_ok [OF _ _ _ ips])
    show "span_chain ?n 0 spans" using ipv4_spans_chain [of 0 "text" None] by (simp add: spans_def)
    show "claims text (replicate ?n False) []" by (simp add: claims_def ranges_ok_def)
  qed auto
  let ?names = "replacements_longest_first a1"
  have names: "(name, t) \<in> set ?names \<longleftrightarrow> known a1 name t" for name t
    by (auto simp: replacements_longest_first_def known_def image_iff) force
  have nm: "claims text claimed2 (ips @ rs) \<and> (\<exists>new. rs = [] @ new \<and>
      (\<forall>(i, j, t)\<in>set new. \<exists>name. (name, t) \<in> set ?names \<and> occurs_at text name i \<and> j = i + length name))
    \<and> (\<forall>(name, t)\<in>set ?names. 2 \<le> length name \<longrightarrow> (\<forall>k. occurs_at text name k \<longrightarrow> touched (ips @ rs) name k))"
    by (rule claim_names_ok [OF conjunct1 [OF ip] rs [unfolded claim_names_def]]) auto
  let ?rs = "sort (ips @ rs)"
  have "ranges_ok ?n ?rs" using nm by (intro ranges_ok_sort) (simp add: claims_def)
  then have ch: "chain ?n 0 ?rs" by (intro chain_sorted) auto
  let ?st = "segments text 0 ?rs"
  have kn: "known a1 name tok" if seg: "(kept, name, tok) \<in> set (fst ?st)" for kept name tok
  proof -
    obtain i j where ij: "(i, j, tok) \<in> set ips \<or> (i, j, tok) \<in> set rs" "name = slice i j text"
      using names_segments [OF seg] by auto
    then show ?thesis using ip nm by (auto simp: names occurs_at_def slice_def)
  qed
  have hid: "\<not> contains part name" if h: "part \<in> kept_of ?st" "known a1 name tok" "2 \<le> length name" for part name tok
  proof
    assume c: "contains part name"
    obtain x y where xy: "(x, y) \<in> set (gaps ?n 0 ?rs)" "part = slice x y text" using h(1) by (auto simp: kept_segments)
    note gap = gaps_uncovered [OF ch xy(1)]
    obtain k where k: "x \<le> k" "k + length name \<le> y" "occurs_at text name k"
      using contains_slice [OF c [unfolded xy(2)]] gap h(3) by fastforce
    then have "touched (ips @ rs) name k" using nm h(2,3) names by fastforce
    then show False using gap k by (fastforce simp: touched_def)
  qed
  have "redacts {name. \<exists>tok. known a1 name tok} a1 text out"
    unfolding redacts_def
    by (intro exI [of _ ?st] conjI) (use ch kn hid in \<open>auto simp: original_segments redacted_segments out\<close>)
  with ip show ?thesis by (simp add: out)
qed

lemma redacts_mono: "redacts names a text out \<Longrightarrow> names' \<subseteq> names \<Longrightarrow> redacts names' a text out"
  unfolding redacts_def by (elim exE conjE, intro exI conjI) auto

lemma text_redacted:
  assumes "anonymize_plain_text text a = (a', out)" "\<forall>name\<in>names. \<exists>tok. known a name tok"
  shows "extends a a'" "redacts names a' text out"
proof -
  show ext: "extends a a'" using anonymize_plain_text_ok [OF assms(1)] by simp
  have "names \<subseteq> {name. \<exists>tok. known a' name tok}" using assms(2) known_extends [OF _ ext] by blast
  then show "redacts names a' text out" using anonymize_plain_text_ok [OF assms(1)] by (blast intro: redacts_mono)
qed

lemma texts_redacted:
  assumes "anonymize_texts ts a = (a', outs)" "\<forall>name\<in>names. \<exists>tok. known a name tok"
  shows "extends a a' \<and> list_all2 (redacts names a') ts outs"
  using assms
proof (induction ts arbitrary: a outs)
  case (Cons t ts)
  obtain a1 out where one: "anonymize_plain_text t a = (a1, out)" by fastforce
  obtain outs1 where rest: "anonymize_texts ts a1 = (a', outs1)" "outs = out # outs1"
    using Cons.prems(1) by (auto simp: one split: prod.splits)
  have "\<forall>name\<in>names. \<exists>tok. known a1 name tok"
    using Cons.prems(2) text_redacted(1) [OF one Cons.prems(2)] by (meson known_extends)
  from Cons.IH [OF rest(1) this] show ?case
    using text_redacted [OF one Cons.prems(2)] rest(2) by (auto intro: extends_trans redacts_extends)
qed simp

subsection \<open>JSON values\<close>

fun message_texts :: "json \<Rightarrow> string list"
and field_messages :: "(string \<times> json) list \<Rightarrow> string list"
and item_messages :: "json list \<Rightarrow> string list" where
  \<comment> \<open>the texts of the \<open>message\<close> fields, in order\<close>
  "message_texts (JObj fs) = field_messages fs"
| "message_texts (JList vs) = item_messages vs"
| "message_texts v = []"
| "field_messages [] = []"
| "field_messages ((k, v) # fs) =
     (case text_of v of Some s \<Rightarrow> if k = ''message'' then [s] else [] | None \<Rightarrow> message_texts v) @ field_messages fs"
| "item_messages [] = []"
| "item_messages (v # vs) = message_texts v @ item_messages vs"

fun name_texts :: "json \<Rightarrow> string list"
and field_names :: "(string \<times> json) list \<Rightarrow> string list"
and item_names :: "json list \<Rightarrow> string list" where
  \<comment> \<open>the texts of the fields that hold names\<close>
  "name_texts (JObj fs) = field_names fs"
| "name_texts (JList vs) = item_names vs"
| "name_texts v = []"
| "field_names [] = []"
| "field_names ((k, v) # fs) =
     (case text_of v of Some s \<Rightarrow> if collect_key k \<noteq> None then [s] else [] | None \<Rightarrow> name_texts v) @ field_names fs"
| "item_names [] = []"
| "item_names (v # vs) = name_texts v @ item_names vs"

fun outline :: "json \<Rightarrow> json"
and field_outlines :: "(string \<times> json) list \<Rightarrow> (string \<times> json) list"
and item_outlines :: "json list \<Rightarrow> json list" where
  \<comment> \<open>the value without its messages and names\<close>
  "outline (JObj fs) = JObj (field_outlines fs)"
| "outline (JList vs) = JList (item_outlines vs)"
| "outline v = v"
| "field_outlines [] = []"
| "field_outlines ((k, v) # fs) =
     (k, case text_of v of Some s \<Rightarrow> if k = ''message'' \<or> collect_key k \<noteq> None then JNull else v | None \<Rightarrow> outline v) # field_outlines fs"
| "item_outlines [] = []"
| "item_outlines (v # vs) = outline v # item_outlines vs"

definition tokenised :: "anonymizer \<Rightarrow> string \<Rightarrow> string \<Rightarrow> bool" where
  "tokenised a name out \<longleftrightarrow> (if name = [] then out = [] else known a name out)"

lemma tokenised_extends: "tokenised a name out \<Longrightarrow> extends a a' \<Longrightarrow> tokenised a' name out"
  by (auto simp: tokenised_def intro: known_extends)

lemma list_all2_extends:
  "list_all2 (redacts names a) ts outs \<Longrightarrow> extends a a' \<Longrightarrow> list_all2 (redacts names a') ts outs"
  "list_all2 (tokenised a) ts outs \<Longrightarrow> extends a a' \<Longrightarrow> list_all2 (tokenised a') ts outs"
  by (auto elim!: list_all2_mono intro: redacts_extends tokenised_extends)

lemma known_all_extends: "\<forall>name\<in>names. \<exists>tok. known a name tok \<Longrightarrow> extends a a' \<Longrightarrow> \<forall>name\<in>names. \<exists>tok. known a' name tok"
  by (meson known_extends)

lemma collect_key_message [simp]: "collect_key ''message'' = None"
  by (simp add: collect_key_def)

lemma anonymize_string_ok:
  assumes "anonymize_string k s a = (a', v')" "\<forall>name\<in>names. \<exists>tok. known a name tok"
  shows "extends a a' \<and> list_all2 (redacts names a') (field_messages [(k, JStr s)]) (field_messages [(k, v')])
     \<and> list_all2 (tokenised a') (field_names [(k, JStr s)]) (field_names [(k, v')])
     \<and> field_outlines [(k, v')] = field_outlines [(k, JStr s)]"
proof (cases "collect_key k")
  case None
  then show ?thesis using assms text_redacted [of s a a' _ names]
    by (auto simp: anonymize_string_def split: if_splits prod.splits)
next
  case (Some cat)
  obtain tok where tok: "token_for cat s a = (a', tok)" "v' = JStr tok"
    using assms(1) Some by (auto simp: anonymize_string_def split: prod.splits)
  have "tokenised a' s tok" using token_for_known [OF tok(1)] tok(1) by (auto simp: tokenised_def known_def token_for_def)
  then show ?thesis using Some token_for_known(1) [OF tok(1)] tok(2) by auto
qed

lemma field_split:
  "field_messages ((k, v) # fs) = field_messages [(k, v)] @ field_messages fs"
  "field_names ((k, v) # fs) = field_names [(k, v)] @ field_names fs"
  "field_outlines ((k, v) # fs) = field_outlines [(k, v)] @ field_outlines fs"
  by simp_all

lemma anonymize_node_ok:
  "anonymize_node v a = (a', v') \<Longrightarrow> \<forall>name\<in>names. \<exists>tok. known a name tok \<Longrightarrow>
     extends a a' \<and> list_all2 (redacts names a') (message_texts v) (message_texts v')
     \<and> list_all2 (tokenised a') (name_texts v) (name_texts v') \<and> outline v' = outline v \<and> text_of v' = text_of v"
  "anonymize_fields fs a = (a', fs') \<Longrightarrow> \<forall>name\<in>names. \<exists>tok. known a name tok \<Longrightarrow>
     extends a a' \<and> list_all2 (redacts names a') (field_messages fs) (field_messages fs')
     \<and> list_all2 (tokenised a') (field_names fs) (field_names fs') \<and> field_outlines fs' = field_outlines fs"
  "anonymize_items vs a = (a', vs') \<Longrightarrow> \<forall>name\<in>names. \<exists>tok. known a name tok \<Longrightarrow>
     extends a a' \<and> list_all2 (redacts names a') (item_messages vs) (item_messages vs')
     \<and> list_all2 (tokenised a') (item_names vs) (item_names vs') \<and> item_outlines vs' = item_outlines vs"
proof (induction v a and fs a and vs a arbitrary: a' v' and a' fs' and a' vs'
    rule: anonymize_node_anonymize_fields_anonymize_items.induct)
  case (1 fs a)
  then show ?case by (auto simp: text_of_def split: prod.splits)
next
  case (2 vs a)
  then show ?case by (auto simp: text_of_def split: prod.splits)
next
  case (5 k v fs a)
  obtain a1 v1 where val1: "(case text_of v of Some s \<Rightarrow> anonymize_string k s a | None \<Rightarrow> anonymize_node v a) = (a1, v1)" by fastforce
  obtain fs1 where rest: "anonymize_fields fs a1 = (a', fs1)" "fs' = (k, v1) # fs1"
    using "5.prems"(1) by (auto simp: val1 split: prod.splits)
  have head: "extends a a1 \<and> list_all2 (redacts names a1) (field_messages [(k, v)]) (field_messages [(k, v1)])
     \<and> list_all2 (tokenised a1) (field_names [(k, v)]) (field_names [(k, v1)])
     \<and> field_outlines [(k, v1)] = field_outlines [(k, v)]"
  proof (cases "text_of v")
    case None
    with "5.IH"(1) [OF None, of a1 v1] val1 "5.prems"(2) show ?thesis by auto
  next
    case (Some s)
    then have "v = JStr s" "anonymize_string k s a = (a1, v1)" using val1 by auto
    with anonymize_string_ok [OF this(2) "5.prems"(2)] show ?thesis by metis
  qed
  have "extends a1 a' \<and> list_all2 (redacts names a') (field_messages fs) (field_messages fs1)
     \<and> list_all2 (tokenised a') (field_names fs) (field_names fs1) \<and> field_outlines fs1 = field_outlines fs"
    by (rule "5.IH"(2) [OF val1 [symmetric] refl rest(1)]) (rule known_all_extends [OF "5.prems"(2) conjunct1 [OF head]])
  with head show ?case
    unfolding rest(2) field_split [of k _ fs] field_split [of k _ fs1]
    by (auto intro!: list_all2_appendI intro: extends_trans list_all2_extends simp del: field_messages.simps field_names.simps field_outlines.simps)
next
  case (7 v vs a)
  obtain a1 v1 where one: "anonymize_node v a = (a1, v1)" by fastforce
  obtain vs1 where rest: "anonymize_items vs a1 = (a', vs1)" "vs' = v1 # vs1"
    using "7.prems"(1) by (auto simp: one split: prod.splits)
  note head = "7.IH"(1) [OF one "7.prems"(2)]
  have "extends a1 a' \<and> list_all2 (redacts names a') (item_messages vs) (item_messages vs1)
     \<and> list_all2 (tokenised a') (item_names vs) (item_names vs1) \<and> item_outlines vs1 = item_outlines vs"
    by (rule "7.IH"(2) [OF one [symmetric] refl rest(1)]) (rule known_all_extends [OF "7.prems"(2) conjunct1 [OF head]])
  with head show ?case
    by (auto simp: rest(2) intro!: list_all2_appendI intro: extends_trans list_all2_extends)
qed simp_all

end
