(* ===== verification/Restore.thy ===== *)
theory Restore
  imports Redaction
begin

section \<open>Tokens and the way back\<close>

text \<open>
  Every token has the form \<open>__LM_CATEGORY_number__\<close>, is issued once and has an entry in the reverse
  map. Replacing the tokens of an answer one after the other, the longest first, is therefore the
  same as replacing all of them at once: the proof reads the text as a list of characters and
  tokens and shows that a token can only be found where one was put, as long as the names and the
  text around them do not contain \<open>LM_\<close> themselves.
\<close>

subsection \<open>The form of a token\<close>

definition categories :: "string set" where
  \<comment> \<open>the categories the module uses\<close>
  "categories = {''entity'', ''user'', ''vcenter'', ''ip''}"

definition upper_categories :: "string set" where
  "upper_categories = {''ENTITY'', ''USER'', ''VCENTER'', ''IP''}"

lemma category_cases: "cat \<in> categories \<Longrightarrow> cat_key cat = cat \<and> py_upper cat \<in> upper_categories"
proof -
  have "\<forall>cat\<in>categories. cat_key cat = cat \<and> py_upper cat \<in> upper_categories" by code_simp
  then show "cat \<in> categories \<Longrightarrow> ?thesis" by blast
qed

lemma collect_key_category: "collect_key k = Some cat \<Longrightarrow> cat \<in> categories"
  by (auto simp: collect_key_def categories_def split: if_splits)

definition token_form :: "string \<Rightarrow> bool" where
  "token_form t = (\<exists>u n. u \<in> upper_categories \<and> t = token_text u n)"

abbreviation "underscore \<equiv> CHR ''_''"

lemma upper_category: "u \<in> upper_categories \<Longrightarrow> u \<noteq> [] \<and> underscore \<notin> set u"
proof -
  have "\<forall>u\<in>upper_categories. u \<noteq> [] \<and> underscore \<notin> set u" by code_simp
  then show "u \<in> upper_categories \<Longrightarrow> ?thesis" by blast
qed

lemma token_parts:
  assumes "token_form t"
  obtains c u d where "t = ''__LM_'' @ (c # u) @ ''_'' @ d @ ''__''" "underscore \<notin> set (c # u)" "underscore \<notin> set d" "d \<noteq> []"
proof -
  obtain u n where t: "u \<in> upper_categories" "t = token_text u n"
    using assms by (auto simp: token_form_def)
  then obtain c v where cv: "u = c # v" "underscore \<notin> set (c # v)" using upper_category by (metis list.exhaust)
  have "underscore \<notin> set (zero_pad 3 (nat_str n))"
    using zero_pad_decimal [of 3 n] by (auto simp: is_decimal_char_def code_def)
  moreover have "zero_pad 3 (nat_str n) \<noteq> []" by (simp add: zero_pad_def)
  ultimately show thesis using that [of c v "zero_pad 3 (nat_str n)"] t cv by (simp add: token_text_def)
qed

lemma before_underscore:
  "x @ underscore # y = x' @ underscore # y' \<Longrightarrow> underscore \<notin> set x \<Longrightarrow> underscore \<notin> set x' \<Longrightarrow> x = x' \<and> y = y'"
  by (induction x arbitrary: x') (auto simp: Cons_eq_append_conv append_eq_Cons_conv)

lemma token_text_inject:
  assumes "token_text u n = token_text u' n'" "underscore \<notin> set u" "underscore \<notin> set u'"
  shows "u = u' \<and> n = n'"
proof -
  have "u @ underscore # zero_pad 3 (nat_str n) @ ''__'' = u' @ underscore # zero_pad 3 (nat_str n') @ ''__''"
    using assms(1) by (simp add: token_text_def)
  then have "u = u' \<and> zero_pad 3 (nat_str n) @ ''__'' = zero_pad 3 (nat_str n') @ ''__''"
    by (rule before_underscore [OF _ assms(2,3)])
  then show ?thesis by simp
qed

lemma token_prefix:
  assumes "token_form p" "token_form t" "startswith (t @ s) p"
  shows "t = p"
proof -
  obtain c u d where p: "p = ''__LM_'' @ (c # u) @ ''_'' @ d @ ''__''" "underscore \<notin> set (c # u)" "underscore \<notin> set d"
    using assms(1) by (rule token_parts)
  obtain c' u' d' where t: "t = ''__LM_'' @ (c' # u') @ ''_'' @ d' @ ''__''" "underscore \<notin> set (c' # u')" "underscore \<notin> set d'"
    using assms(2) by (rule token_parts)
  obtain r where "t @ s = p @ r" using assms(3) by (auto simp: startswith_iff)
  then have "(c' # u') @ underscore # d' @ underscore # underscore # s = (c # u) @ underscore # d @ underscore # underscore # r"
    by (simp add: p t)
  then have "c' # u' = c # u" "d' @ underscore # underscore # s = d @ underscore # underscore # r"
    using before_underscore p(2) t(2) by blast+
  then have "d' = d" using before_underscore p(3) t(3) by blast
  with \<open>c' # u' = c # u\<close> show ?thesis by (simp add: p t)
qed

subsection \<open>Texts as characters and tokens\<close>

datatype piece = Chr char | Tok string string

fun render :: "piece list \<Rightarrow> string" where
  "render [] = []" | "render (Chr c # ps) = c # render ps" | "render (Tok t v # ps) = t @ render ps"

fun resolved :: "piece list \<Rightarrow> string" where
  "resolved [] = []" | "resolved (Chr c # ps) = c # resolved ps" | "resolved (Tok t v # ps) = v @ resolved ps"

fun settle :: "string \<Rightarrow> piece list \<Rightarrow> piece list" where
  "settle p [] = []" | "settle p (Chr c # ps) = Chr c # settle p ps"
| "settle p (Tok t v # ps) = (if t = p then map Chr v else [Tok t v]) @ settle p ps"

lemma render_append: "render (ps @ qs) = render ps @ render qs"
  by (induction ps rule: render.induct) simp_all

lemma render_chars [simp]: "render (map Chr s) = s"
  by (induction s) simp_all

lemma resolved_append: "resolved (ps @ qs) = resolved ps @ resolved qs"
  by (induction ps rule: resolved.induct) simp_all

lemma resolved_chars [simp]: "resolved (map Chr s) = s"
  by (induction s) simp_all

lemma resolved_settle [simp]: "resolved (settle p ps) = resolved ps"
  by (induction p ps rule: settle.induct) (simp_all add: resolved_append)

lemma settle_toks: "Tok t v \<in> set (settle p ps) \<longleftrightarrow> Tok t v \<in> set ps \<and> t \<noteq> p"
  by (induction p ps rule: settle.induct) auto

lemma render_no_toks: "(\<And>t v. Tok t v \<notin> set ps) \<Longrightarrow> render ps = resolved ps"
  by (induction ps rule: render.induct) auto

lemma contains_Cons: "contains s p \<Longrightarrow> contains (c # s) p" "contains s p \<Longrightarrow> contains (v @ s) p"
  unfolding contains_iff by (metis append_Cons append.assoc)+

lemma marker_found:
  assumes "startswith (render ps) (''LM_'' @ c # r)" "c \<noteq> underscore" "\<And>t v. Tok t v \<in> set ps \<Longrightarrow> token_form t"
  shows "startswith (resolved ps) ''LM_''"
proof -
  have tok: "\<exists>w. t = underscore # underscore # w" if "Tok t v \<in> set ps" for t v
    using assms(3) [OF that] by (elim token_parts) simp
  from assms(1) obtain s where s: "render ps = ''LM_'' @ c # s" by (auto simp: startswith_iff)
  have no_tok: "False" if "set qs \<subseteq> set ps" "render qs = x # y" "x \<noteq> underscore" "qs = Tok t v # qs'" for qs qs' x y t v
    using tok [of t v] that by auto
  obtain qs where 1: "ps = Chr (CHR ''L'') # qs" "render qs = ''M_'' @ c # s"
    using s no_tok [of ps] by (cases ps rule: render.cases) auto
  obtain qs2 where 2: "qs = Chr (CHR ''M'') # qs2" "render qs2 = underscore # c # s"
    using 1 no_tok [of qs] by (cases qs rule: render.cases) auto
  show ?thesis
  proof (cases qs2 rule: render.cases)
    case (2 c' qs3)
    then show ?thesis using \<open>ps = _\<close> \<open>qs = _\<close> \<open>render qs2 = _\<close> by (simp add: startswith_iff)
  next
    case (3 t v qs3)
    then have "Tok t v \<in> set ps" using 1 2 by simp
    then show ?thesis using tok [of t v] \<open>render qs2 = _\<close> 3 assms(2) by auto
  qed (use \<open>render qs2 = _\<close> in simp)
qed

lemma half_marker_found:
  assumes "startswith (render ps) (''_LM_'' @ c # r)" "c \<noteq> underscore" "\<And>t v. Tok t v \<in> set ps \<Longrightarrow> token_form t"
  shows "contains (resolved ps) ''LM_''"
proof (cases ps rule: render.cases)
  case (2 c' qs)
  then have "startswith (resolved qs) ''LM_''" using assms by (intro marker_found [of qs c r]) (auto simp: startswith_iff)
  then show ?thesis using 2 by (simp add: contains.simps [of "resolved qs"] contains_Cons)
next
  case (3 t v qs)
  have "token_form t" using assms(3) [of t v] 3 by simp
  then show ?thesis using assms(1) 3 by (elim token_parts) (auto simp: startswith_iff)
qed (use assms(1) in \<open>simp add: startswith_def\<close>)

subsection \<open>Replacing one token\<close>

lemma py_replace_skip: "\<not> startswith (c # s) p \<Longrightarrow> py_replace p r (c # s) = c # py_replace p r s"
  by simp

lemma py_replace_hit: "p \<noteq> [] \<Longrightarrow> py_replace p r (p @ s) = r @ py_replace p r s"
  by (cases p) (simp_all add: startswith_def)

lemma py_replace_plain: "hd p \<notin> set x \<Longrightarrow> p \<noteq> [] \<Longrightarrow> py_replace p r (x @ s) = x @ py_replace p r s"
  by (induction x) (auto simp: startswith_def Cons_eq_append_conv neq_Nil_conv)

lemma contains_tail: "\<not> contains (c # s) p \<Longrightarrow> \<not> contains s p" "\<not> contains (v @ s) p \<Longrightarrow> \<not> contains s p"
  using contains_Cons by blast+

lemma token_start:
  assumes "token_form p"
  obtains c r where "p = underscore # ''_LM_'' @ c # r" "c \<noteq> underscore"
  using assms by (elim token_parts) auto

lemma py_replace_token:
  assumes "token_form p" "token_form t" "t \<noteq> p" "\<not> contains (resolved ps) ''LM_''" "\<And>t v. Tok t v \<in> set ps \<Longrightarrow> token_form t"
  shows "py_replace p r (t @ render ps) = t @ py_replace p r (render ps)"
proof -
  obtain c q where p: "p = underscore # ''_LM_'' @ c # q" "c \<noteq> underscore" using assms(1) by (rule token_start)
  obtain b u d where t: "t = ''__LM_'' @ (b # u) @ ''_'' @ d @ ''__''" "underscore \<notin> set (b # u)" "underscore \<notin> set d" "d \<noteq> []"
    using assms(2) by (rule token_parts)
  obtain e d' where d: "d = e # d'" "e \<noteq> underscore" using t(3,4) by (cases d) auto
  have plain: "py_replace p r (x @ s) = x @ py_replace p r s" if "underscore \<notin> set x" for x s
    using that p(1) by (intro py_replace_plain) auto
  have one: "py_replace p r (underscore # s) = underscore # py_replace p r s" if "\<not> startswith s (''_LM_'' @ c # q)" for s
    using that by (intro py_replace_skip) (simp add: p(1) startswith_def)
  have "\<not> startswith (t @ render ps) p" using token_prefix assms(1-3) by blast
  then have 1: "py_replace p r (t @ render ps) = underscore # py_replace p r (''_LM_'' @ (b # u) @ ''_'' @ d @ ''__'' @ render ps)"
    using py_replace_skip [of underscore "''_LM_'' @ (b # u) @ ''_'' @ d @ ''__'' @ render ps" p] by (simp add: t(1))
  also have "\<dots> = ''__'' @ py_replace p r (''LM'' @ (underscore # (b # u) @ ''_'' @ d @ ''__'' @ render ps))"
    using one by (simp add: startswith_def)
  also have "\<dots> = ''__LM'' @ py_replace p r (underscore # (b # u) @ ''_'' @ d @ ''__'' @ render ps)"
    by (subst plain) simp_all
  also have "\<dots> = ''__LM_'' @ py_replace p r ((b # u) @ underscore # d @ ''__'' @ render ps)"
    using t(2) by (subst one) (auto simp: startswith_def)
  also have "\<dots> = ''__LM_'' @ (b # u) @ py_replace p r (underscore # d @ ''__'' @ render ps)"
    by (subst plain [OF t(2)]) simp
  also have "\<dots> = ''__LM_'' @ (b # u) @ ''_'' @ py_replace p r (d @ ''__'' @ render ps)"
    using d by (subst one) (auto simp: startswith_def)
  also have "\<dots> = ''__LM_'' @ (b # u) @ ''_'' @ d @ py_replace p r (underscore # underscore # render ps)"
    by (subst plain [OF t(3)]) simp
  also have "\<dots> = ''__LM_'' @ (b # u) @ ''_'' @ d @ ''_'' @ py_replace p r (underscore # render ps)"
  proof (subst one)
    show "\<not> startswith (underscore # render ps) (''_LM_'' @ c # q)"
      using marker_found [of ps c q] assms(4,5) p(2) by (auto simp: startswith_def contains.simps [of "resolved ps"])
  qed simp
  also have "\<dots> = t @ py_replace p r (render ps)"
    using half_marker_found [of ps c q] assms(4,5) p(2) by (subst one) (auto simp: t(1))
  finally show ?thesis .
qed

lemma replace_render:
  assumes "token_form p" "\<not> contains (resolved ps) ''LM_''" "\<And>t v. Tok t v \<in> set ps \<Longrightarrow> token_form t \<and> (t = p \<longrightarrow> v = w)"
  shows "py_replace p w (render ps) = render (settle p ps)"
  using assms(2,3)
proof (induction ps rule: render.induct)
  case (2 c ps)
  obtain c' q where p: "p = underscore # ''_LM_'' @ c' # q" "c' \<noteq> underscore" using assms(1) by (rule token_start)
  have ps: "\<not> contains (resolved ps) ''LM_''" using "2.prems"(1) contains_tail(1) by simp
  have "\<not> startswith (c # render ps) p"
    using half_marker_found [of ps c' q] ps "2.prems"(2) p by (auto simp: startswith_def)
  with "2.IH" [OF ps] "2.prems"(2) show ?case by (auto simp: py_replace_skip simp del: py_replace.simps)
next
  case (3 t v ps)
  have ps: "\<not> contains (resolved ps) ''LM_''" using "3.prems"(1) contains_tail(2) by simp
  have IH: "py_replace p w (render ps) = render (settle p ps)" by (rule "3.IH" [OF ps], rule "3.prems"(2)) simp
  show ?case
  proof (cases "t = p")
    case True
    have "p \<noteq> []" using assms(1) by (elim token_parts) simp
    then show ?thesis using True "3.prems"(2) [of t v] IH by (simp add: py_replace_hit render_append)
  next
    case False
    have "token_form t" "\<And>t v. Tok t v \<in> set ps \<Longrightarrow> token_form t" using "3.prems"(2) by auto
    then show ?thesis using py_replace_token [OF assms(1) _ False ps] False IH by simp
  qed
qed simp

lemma replace_all:
  assumes "\<not> contains (resolved ps) ''LM_''" "\<And>t v. Tok t v \<in> set ps \<Longrightarrow> t \<in> set toks \<and> v = f t" "\<And>t. t \<in> set toks \<Longrightarrow> token_form t"
  shows "foldl (\<lambda>out tok. py_replace tok (f tok) out) (render ps) toks = resolved ps"
  using assms
proof (induction toks arbitrary: ps)
  case Nil
  then show ?case using render_no_toks [of ps] by fastforce
next
  case (Cons p toks)
  have "py_replace p (f p) (render ps) = render (settle p ps)"
    using Cons.prems by (intro replace_render) auto
  moreover have "foldl (\<lambda>out tok. py_replace tok (f tok) out) (render (settle p ps)) toks = resolved (settle p ps)"
    using Cons.prems by (intro Cons.IH) (auto simp: settle_toks)
  ultimately show ?case by simp
qed

definition pieces :: "(string \<Rightarrow> string) \<Rightarrow> (string \<times> string \<times> string) list \<times> string \<Rightarrow> piece list" where
  "pieces f st = concat (map (\<lambda>(kept, name, tok). map Chr kept @ [Tok tok (f tok)]) (fst st)) @ map Chr (snd st)"

lemma render_pieces: "render (pieces f st) = redacted_of st"
proof -
  have "render (concat (map (\<lambda>(kept, name, tok). map Chr kept @ [Tok tok (f tok)]) segs) @ map Chr tail)
      = concat (map (\<lambda>(kept, name, tok). kept @ tok) segs) @ tail" for segs tail
    by (induction segs) (auto simp: render_append)
  then show ?thesis by (simp add: pieces_def redacted_of_def)
qed

lemma resolved_pieces:
  "\<forall>(kept, name, tok)\<in>set (fst st). f tok = name \<Longrightarrow> resolved (pieces f st) = original_of st"
proof -
  have "\<forall>(kept, name, tok)\<in>set segs. f tok = name \<Longrightarrow>
      resolved (concat (map (\<lambda>(kept, name, tok). map Chr kept @ [Tok tok (f tok)]) segs) @ map Chr tail)
      = concat (map (\<lambda>(kept, name, tok). kept @ name) segs) @ tail" for segs tail
    by (induction segs) (auto simp: resolved_append)
  then show "\<forall>(kept, name, tok)\<in>set (fst st). f tok = name \<Longrightarrow> ?thesis"
    by (simp add: pieces_def original_of_def)
qed

lemma pieces_toks: "Tok t v \<in> set (pieces f st) \<longleftrightarrow> v = f t \<and> (\<exists>kept name. (kept, name, t) \<in> set (fst st))"
  by (auto simp: pieces_def split: prod.splits)

subsection \<open>The table of tokens\<close>

definition issued :: "anonymizer \<Rightarrow> string \<Rightarrow> nat" where
  "issued a upper = (case map_of (next_number a) upper of None \<Rightarrow> 0 | Some n \<Rightarrow> n)"

definition tokens_ok :: "anonymizer \<Rightarrow> bool" where
  \<comment> \<open>every token has the form of one, an entry in the reverse map and a number that was issued\<close>
  "tokens_ok a \<longleftrightarrow> distinct (map fst (reverse_tokens a))
     \<and> (\<forall>((cat, name), tok)\<in>set (pair_to_token a). cat \<in> categories \<and> name \<noteq> [] \<and> tok \<in> fst ` set (reverse_tokens a))
     \<and> (\<forall>(tok, name)\<in>set (reverse_tokens a). name \<noteq> []
          \<and> (\<exists>u\<in>upper_categories. \<exists>n. 0 < n \<and> n \<le> issued a u \<and> tok = token_text u n))"

definition faithful :: "anonymizer \<Rightarrow> bool" where
  \<comment> \<open>no token stands for two names\<close>
  "faithful a \<longleftrightarrow> (\<forall>((cat, name), tok)\<in>set (pair_to_token a). map_of (reverse_tokens a) tok = Some name)"

lemma tokens_ok_new [simp]: "tokens_ok new_anonymizer" "faithful new_anonymizer"
  by (simp_all add: tokens_ok_def faithful_def new_anonymizer_def)

lemma tokens_ok_form: "tokens_ok a \<Longrightarrow> tok \<in> fst ` set (reverse_tokens a) \<Longrightarrow> token_form tok"
proof -
  assume ok: "tokens_ok a" and "tok \<in> fst ` set (reverse_tokens a)"
  then obtain name where "(tok, name) \<in> set (reverse_tokens a)" by auto
  with ok have "case (tok, name) of (tok, name) \<Rightarrow> name \<noteq> []
      \<and> (\<exists>u\<in>upper_categories. \<exists>n. 0 < n \<and> n \<le> issued a u \<and> tok = token_text u n)"
    unfolding tokens_ok_def by blast
  then show ?thesis by (auto simp: token_form_def)
qed

lemma known_reverse: "tokens_ok a \<Longrightarrow> known a name tok \<Longrightarrow> tok \<in> fst ` set (reverse_tokens a)"
  unfolding tokens_ok_def known_def by blast

lemma token_for_old:
  "token_for category [] a = (a, [])"
  "name \<noteq> [] \<Longrightarrow> map_of (pair_to_token a) (cat_key category, name) = Some tok \<Longrightarrow> token_for category name a = (a, tok)"
  by (simp_all add: token_for_def Let_def)

lemma token_for_new:
  assumes "name \<noteq> []" "map_of (pair_to_token a) (cat_key category, name) = None" "u = py_upper (cat_key category)"
    "tok = token_text u (issued a u + 1)" "map_of (reverse_tokens a) tok = None"
  shows "token_for category name a =
    (a\<lparr>next_number := AList.update u (issued a u + 1) (next_number a),
       pair_to_token := pair_to_token a @ [((cat_key category, name), tok)],
       reverse_tokens := reverse_tokens a @ [(tok, name)]\<rparr>, tok)"
  using assms by (simp add: token_for_def Let_def issued_def update_new)

lemma tokens_ok_token_for:
  assumes "tokens_ok a" "cat \<in> categories" "token_for cat name a = (a', tok)"
  shows "tokens_ok a'" "faithful a \<Longrightarrow> faithful a'"
proof -
  let ?u = "py_upper cat"
  have cat: "cat_key cat = cat" "?u \<in> upper_categories" using category_cases [OF assms(2)] by auto
  show "tokens_ok a'" "faithful a \<Longrightarrow> faithful a'"
  proof (atomize (full), cases "name = [] \<or> map_of (pair_to_token a) (cat, name) \<noteq> None")
    case True
    then have "a' = a" using assms(3) token_for_old(1) [of cat a] token_for_old(2) [of name a cat] cat(1) by (cases "name = []") auto
    with assms(1) show "tokens_ok a' \<and> (faithful a \<longrightarrow> faithful a')" by simp
  next
    case False
    let ?n = "issued a ?u + 1"
    let ?tok = "token_text ?u ?n"
    have fresh: "?tok \<notin> fst ` set (reverse_tokens a)"
    proof
      assume "?tok \<in> fst ` set (reverse_tokens a)"
      then obtain u n where "u \<in> upper_categories" "n \<le> issued a u" "?tok = token_text u n"
        using assms(1) by (force simp: tokens_ok_def)
      then show False using token_text_inject [of ?u ?n u n] upper_category cat(2) by fastforce
    qed
    then have none: "map_of (reverse_tokens a) ?tok = None" by (simp add: map_of_eq_None_iff)
    have a': "a' = a\<lparr>next_number := AList.update ?u ?n (next_number a),
        pair_to_token := pair_to_token a @ [((cat, name), ?tok)], reverse_tokens := reverse_tokens a @ [(?tok, name)]\<rparr>"
      using assms(3) False token_for_new [of name a cat ?u ?tok, OF _ _ _ refl none] cat(1) by simp
    have more: "issued a u \<le> issued a' u" "issued a' ?u = ?n" for u
      by (auto simp: issued_def a' update_conv' split: option.splits)
    have "tokens_ok a'"
      unfolding tokens_ok_def
    proof (intro conjI ballI, goal_cases)
      case 1
      show ?case using assms(1) fresh by (simp add: a' tokens_ok_def)
    next
      case (2 x)
      then show ?case using assms(1,2) False by (auto simp: a' tokens_ok_def)
    next
      case (3 x)
      show ?case
      proof (cases "x = (?tok, name)")
        case True
        have "\<exists>n. 0 < n \<and> n \<le> issued a' ?u \<and> ?tok = token_text ?u n" using more(2) by (intro exI [of _ ?n]) simp
        with True False cat(2) show ?thesis by auto
      next
        case False
        then have "x \<in> set (reverse_tokens a)" using 3 by (simp add: a')
        then show ?thesis using assms(1) more(1) unfolding tokens_ok_def by (fastforce intro: order_trans)
      qed
    qed
    moreover have "faithful a'" if "faithful a"
      using that none by (auto simp: faithful_def a' map_add_def split: option.splits)
    ultimately show "tokens_ok a' \<and> (faithful a \<longrightarrow> faithful a')" by blast
  qed
qed

lemma tokens_ok_share:
  assumes "tokens_ok a"
  shows "tokens_ok (share_token_with ''entity'' alias canonical a)"
proof (cases "share_token_with ''entity'' alias canonical a = a")
  case False
  have cat: "cat_key ''entity'' = ''entity''" "''entity'' \<in> categories" by code_simp+
  obtain tok where tok: "alias \<noteq> []" "map_of (pair_to_token a) (''entity'', canonical) = Some tok"
      "share_token_with ''entity'' alias canonical a = a\<lparr>pair_to_token := AList.update (''entity'', alias) tok (pair_to_token a)\<rparr>"
    using False by (auto simp: share_token_with_def cat(1) split: if_splits option.splits)
  have "set (AList.update k v al) \<subseteq> insert (k, v) (set al)" for k :: "string \<times> string" and v :: string and al
    by (induction al) auto
  then have pairs: "set (AList.update (''entity'', alias) tok (pair_to_token a)) \<subseteq> insert ((''entity'', alias), tok) (set (pair_to_token a))" .
  have "tok \<in> fst ` set (reverse_tokens a)"
    using assms known_reverse [of a canonical tok] map_of_SomeD [OF tok(2)] by (auto simp: known_def)
  then have "\<forall>((cat, name), tok)\<in>set (AList.update (''entity'', alias) tok (pair_to_token a)).
      cat \<in> categories \<and> name \<noteq> [] \<and> tok \<in> fst ` set (reverse_tokens a)"
    using pairs assms tok(1) cat(2) unfolding tokens_ok_def by blast
  with assms show ?thesis by (simp add: tokens_ok_def tok(3) issued_def)
qed (use assms in simp)

inductive issues :: "anonymizer \<Rightarrow> anonymizer \<Rightarrow> bool" where
  \<comment> \<open>only \<open>token_for\<close> has been called in between\<close>
  "issues a a"
| "issues a b \<Longrightarrow> cat \<in> categories \<Longrightarrow> issues a (fst (token_for cat name b))"

lemma issues_trans: "issues b c \<Longrightarrow> issues a b \<Longrightarrow> issues a c"
  by (induction rule: issues.induct) (auto intro: issues.intros)

lemma issues_one: "cat \<in> categories \<Longrightarrow> token_for cat name a = (a', tok) \<Longrightarrow> issues a a'"
  by (metis fst_conv issues.intros)

lemma issues_ok: "issues a a' \<Longrightarrow> tokens_ok a \<Longrightarrow> tokens_ok a' \<and> (faithful a \<longrightarrow> faithful a')"
proof (induction rule: issues.induct)
  case (2 a b cat name)
  obtain a' tok where tok: "token_for cat name b = (a', tok)" by fastforce
  with 2 tokens_ok_token_for [OF _ _ tok] show ?case by simp
qed simp

lemma plain_text_issues: "anonymize_plain_text text a = (a', out) \<Longrightarrow> issues a a'"
proof -
  have ip: "''ip'' \<in> categories" by (simp add: categories_def)
  have "foldl (ip_replacement text) (a, rs) spans = (a', rs') \<Longrightarrow> issues a a'" for a rs spans rs'
  proof (induction spans arbitrary: a rs)
    case (Cons span spans)
    obtain i j where span: "span = (i, j)" by (cases span)
    obtain b tok where tok: "token_for ''ip'' (slice i j text) a = (b, tok)" by fastforce
    have "foldl (ip_replacement text) (b, rs @ [(i, j, tok)]) spans = (a', rs')"
      using Cons.prems by (simp add: ip_replacement_def span tok)
    from Cons.IH [OF this] issues_one [OF ip tok] show ?case by (rule issues_trans)
  qed (auto intro: issues.intros)
  then show "anonymize_plain_text text a = (a', out) \<Longrightarrow> ?thesis"
    by (auto simp: anonymize_plain_text_def Let_def split: prod.splits if_splits intro: issues.intros)
qed

lemma texts_issues: "anonymize_texts ts a = (a', outs) \<Longrightarrow> issues a a'"
  by (induction ts arbitrary: a outs) (auto split: prod.splits intro: issues.intros dest: plain_text_issues issues_trans)

lemma node_issues:
  "anonymize_node v a = (a', v') \<Longrightarrow> issues a a'" "anonymize_fields fs a = (a', fs') \<Longrightarrow> issues a a'"
  "anonymize_items vs a = (a', vs') \<Longrightarrow> issues a a'"
proof (induction v a and fs a and vs a arbitrary: a' v' and a' fs' and a' vs'
    rule: anonymize_node_anonymize_fields_anonymize_items.induct)
  case (5 k v fs a)
  obtain a1 v1 where val1: "(case text_of v of Some s \<Rightarrow> anonymize_string k s a | None \<Rightarrow> anonymize_node v a) = (a1, v1)" by fastforce
  then obtain fs1 where rest: "anonymize_fields fs a1 = (a', fs1)" using "5.prems"(1) by (auto split: prod.splits)
  have "issues a a1"
  proof (cases "text_of v")
    case None
    with "5.IH"(1) [OF None, of a1 v1] val1 show ?thesis by simp
  next
    case (Some s)
    then show ?thesis using val1
      by (auto simp: anonymize_string_def split: option.splits if_splits prod.splits
        intro: issues.intros issues_one plain_text_issues dest: collect_key_category)
  qed
  with "5.IH"(2) [OF val1 [symmetric] refl rest] show ?case by (rule issues_trans)
next
  case (7 v vs a)
  obtain a1 v1 where one: "anonymize_node v a = (a1, v1)" by fastforce
  then obtain vs1 where rest: "anonymize_items vs a1 = (a', vs1)" using "7.prems"(1) by (auto split: prod.splits)
  from "7.IH"(2) [OF one [symmetric] refl rest] "7.IH"(1) [OF one] show ?case by (rule issues_trans)
qed (auto split: prod.splits intro: issues.intros)

lemma issues_extends: "issues a a' \<Longrightarrow> extends a a'"
  by (induction rule: issues.induct) (auto intro: extends_trans token_for_known(1) [OF surjective_pairing])

lemma restored:
  assumes "tokens_ok a" "faithful a" "redacts names a text out" "\<not> contains text ''LM_''"
  shows "deanonymize_text out (reverse_tokens a) = text"
proof -
  obtain st where st: "text = original_of st" "out = redacted_of st" "\<forall>(kept, name, tok)\<in>set (fst st). known a name tok"
    using assms(3) by (auto simp: redacts_def)
  define f where "f = (\<lambda>tok. the (map_of (reverse_tokens a) tok))"
  let ?toks = "sort_key (\<lambda>tok. - int (length tok)) (map fst (reverse_tokens a))"
  have canon: "f tok = name" if "known a name tok" for name tok
    using assms(2) that by (auto simp: faithful_def known_def f_def)
  then have plain: "resolved (pieces f st) = text"
    using st(1,3) by (subst resolved_pieces) auto
  have "foldl (\<lambda>out tok. py_replace tok (f tok) out) (render (pieces f st)) ?toks = resolved (pieces f st)"
  proof (rule replace_all)
    show "t \<in> set ?toks \<and> v = f t" if tok: "Tok t v \<in> set (pieces f st)" for t v
    proof -
      obtain kept name where "(kept, name, t) \<in> set (fst st)" "v = f t" using tok by (auto simp: pieces_toks)
      then show ?thesis using st(3) known_reverse [OF assms(1), of name t] by auto
    qed
    show "\<And>t. t \<in> set ?toks \<Longrightarrow> token_form t" using tokens_ok_form [OF assms(1)] by auto
  qed (use plain assms(4) in simp)
  moreover have "deanonymize_text out (reverse_tokens a) = foldl (\<lambda>out tok. py_replace tok (f tok) out) out ?toks"
    by (simp add: deanonymize_text_def f_def)
  ultimately show ?thesis by (simp add: plain render_pieces st(2))
qed

subsection \<open>The anonymizer of a request\<close>

definition registered :: "anonymizer \<Rightarrow> string set" where
  "registered a = snd ` fst ` set (pair_to_token a)"

lemma registered_known: "name \<in> registered a \<longleftrightarrow> (\<exists>tok. known a name tok)"
  by (force simp: registered_def known_def)

lemma registered_extends: "extends a a' \<Longrightarrow> registered a \<subseteq> registered a'"
  by (auto simp: registered_def extends_def)

lemma registered_share: "registered a \<subseteq> registered (share_token_with cat alias canonical a)"
proof -
  have "fst ` set (AList.update k v al) = insert k (fst ` set al)" for k :: "string \<times> string" and v :: string and al
    by (induction al) auto
  then show ?thesis by (auto simp: registered_def share_token_with_def split: option.splits)
qed

lemma register_pairs_ok:
  assumes "\<forall>(cat, name)\<in>set pairs. cat \<in> categories \<and> name \<noteq> []"
  shows "issues a (register_pairs pairs a) \<and> snd ` set pairs \<subseteq> registered (register_pairs pairs a)"
  using assms
proof (induction pairs arbitrary: a)
  case Nil
  then show ?case by (simp add: register_pairs_def issues.intros)
next
  case (Cons p pairs)
  obtain cat name b tok where p: "p = (cat, name)" and tok: "token_for cat name a = (b, tok)" by (metis surj_pair)
  have step: "register_pairs (p # pairs) a = register_pairs pairs b" by (simp add: register_pairs_def p tok)
  have IH: "issues b (register_pairs pairs b)" "snd ` set pairs \<subseteq> registered (register_pairs pairs b)"
    using Cons.IH [of b] Cons.prems by auto
  have "name \<in> registered b" using token_for_known(2) [OF tok] Cons.prems by (auto simp: registered_known known_def p)
  then have "name \<in> registered (register_pairs pairs b)" using registered_extends [OF issues_extends [OF IH(1)]] by blast
  moreover have "issues a b" using issues_one [OF _ tok] Cons.prems by (simp add: p)
  ultimately show ?case unfolding step using IH(2) issues_trans [OF IH(1)] by (auto simp: p)
qed

lemma aliases_ok:
  assumes "tokens_ok a"
  shows "tokens_ok (apply_entity_fqdn_short_aliases pairs a) \<and> registered a \<subseteq> registered (apply_entity_fqdn_short_aliases pairs a)"
proof -
  have entity: "''entity'' \<in> categories" by (simp add: categories_def)
  have step: "tokens_ok (case cs of [name] \<Rightarrow> share_token_with ''entity'' s name b | _ \<Rightarrow> fst (token_for ''entity'' s b))
      \<and> registered b \<subseteq> registered (case cs of [name] \<Rightarrow> share_token_with ''entity'' s name b | _ \<Rightarrow> fst (token_for ''entity'' s b))"
    if "tokens_ok b" for b s cs
  proof -
    obtain c tok where tok: "token_for ''entity'' s b = (c, tok)" by fastforce
    show ?thesis
      using tokens_ok_share [OF that] registered_share tokens_ok_token_for(1) [OF that entity tok]
        registered_extends [OF token_for_known(1) [OF tok]] by (auto simp: tok split: list.splits)
  qed
  have "tokens_ok (foldl (\<lambda>a (s, cs). case cs of [name] \<Rightarrow> share_token_with ''entity'' s name a | _ \<Rightarrow> fst (token_for ''entity'' s a)) a xs)
      \<and> registered a \<subseteq> registered (foldl (\<lambda>a (s, cs). case cs of [name] \<Rightarrow> share_token_with ''entity'' s name a | _ \<Rightarrow> fst (token_for ''entity'' s a)) a xs)"
    for xs using assms
  proof (induction xs arbitrary: a)
    case (Cons x xs)
    obtain s cs where x: "x = (s, cs)" by fastforce
    show ?case using Cons.IH [OF conjunct1 [OF step [OF Cons.prems, where cs = cs and s = s]]] step [OF Cons.prems, where cs = cs and s = s] by (auto simp: x)
  qed simp
  then show ?thesis by (simp add: apply_entity_fqdn_short_aliases_def)
qed

lemma anonymizer_for_ok:
  assumes "\<forall>(cat, name)\<in>set pairs. cat \<in> categories \<and> name \<noteq> []"
  shows "tokens_ok (anonymizer_for pairs)" "snd ` set pairs \<subseteq> registered (anonymizer_for pairs)"
    "short_candidates pairs = [] \<Longrightarrow> faithful (anonymizer_for pairs)"
  using register_pairs_ok [OF assms, of new_anonymizer] issues_ok [of new_anonymizer "register_pairs pairs new_anonymizer"]
    aliases_ok [of "register_pairs pairs new_anonymizer" pairs]
  by (auto simp: anonymizer_for_def apply_entity_fqdn_short_aliases_def)

lemma collected_pairs:
  "\<forall>(cat, name)\<in>set (collect_entity_user_pairs v). cat \<in> categories \<and> name \<noteq> []"
  "\<forall>(cat, name)\<in>set (collect_from_fields fs). cat \<in> categories \<and> name \<noteq> []"
  "\<forall>(cat, name)\<in>set (collect_from_items vs). cat \<in> categories \<and> name \<noteq> []"
  by (induction v and fs and vs rule: collect_entity_user_pairs_collect_from_fields_collect_from_items.induct)
    (auto split: option.splits if_splits dest: collect_key_category collect_key_category [OF sym])

lemma collected_names:
  "snd ` set (collect_entity_user_pairs v) = set (name_texts v) - {[]}"
  "snd ` set (collect_from_fields fs) = set (field_names fs) - {[]}"
  "snd ` set (collect_from_items vs) = set (item_names vs) - {[]}"
proof (induction v and fs and vs rule: collect_entity_user_pairs_collect_from_fields_collect_from_items.induct)
  case (5 k v fs)
  then show ?case by (cases "text_of v"; cases "collect_key k") auto
qed (auto split: option.splits if_splits)

end
