(* ===== verification/ChatBuckets.thy ===== *)
theory ChatBuckets
  imports EventStore Netaddr "HOL-Library.Product_Lexorder" "HOL-Library.Char_ord" "HOL-Library.List_Lexorder"
begin

section \<open>Events in time buckets (services/chat/chat\_event\_time\_buckets.py)\<close>

text \<open>
  The conversation about a period is given the number of events per time bucket and type. The
  database numbers the buckets by whole seconds from the start of the period and groups the rows;
  Python keeps the largest types of each bucket and adds up the others. The result accounts for
  every event of the period exactly once, and the width chosen for the period bounds the number of
  buckets.
\<close>

subsection \<open>The width of a bucket (services/chat/chat\_period\_metrics.py)\<close>

definition max_buckets :: int where "max_buckets = 48"

function widen :: "int \<Rightarrow> int \<Rightarrow> int" where
  \<comment> \<open>\<open>while dur_sec / width > max_buckets: width *= 2\<close>, for a positive width\<close>
  "widen dur_sec width = (if 0 < width \<and> max_buckets * width < dur_sec then widen dur_sec (2 * width) else width)"
  by pat_completeness auto
termination by (relation "measure (\<lambda>(dur_sec, width). nat (dur_sec - width))") (auto simp: max_buckets_def)

declare widen.simps [simp del]

definition bucket_seconds_for_range :: "instant \<Rightarrow> instant \<Rightarrow> int" where
  "bucket_seconds_for_range from_utc to_utc =
     (let dur_sec = max 1 ((to_utc - from_utc) div us_per_second)
      in widen dur_sec (if dur_sec \<le> 6 * 3600 then 15 * 60 else if dur_sec \<le> 48 * 3600 then 3600 else 6 * 3600))"

datatype aggregation_error = BadRange | BadLimit | AggregationLimitExceeded

definition compute_chat_bucket_seconds :: "pydt \<Rightarrow> pydt \<Rightarrow> aggregation_error + int" where
  "compute_chat_bucket_seconds from_utc to_utc =
     (if instant_of from_utc \<ge> instant_of to_utc then Inl BadRange
      else Inr (bucket_seconds_for_range (instant_of from_utc) (instant_of to_utc)))"

subsection \<open>Grouped rows\<close>

definition epoch_seconds :: "instant \<Rightarrow> int" where
  \<comment> \<open>\<open>epoch_seconds_expr\<close>\<close>
  "epoch_seconds t = t div us_per_second"

definition bucket_index :: "int \<Rightarrow> int \<Rightarrow> instant \<Rightarrow> int" where
  "bucket_index from_epoch bucket_sec t = (epoch_seconds t - from_epoch) div bucket_sec"

record group_row =
  gr_bidx :: int
  gr_type :: string
  gr_count :: int
  gr_max_score :: int

definition group_rows :: "(event_row \<Rightarrow> int) \<Rightarrow> event_row list \<Rightarrow> group_row list" where
  \<comment> \<open>\<open>SELECT bidx, event_type, count(*), max(score) ... GROUP BY bidx, event_type\<close>\<close>
  "group_rows bidx rows =
     map (\<lambda>(b, ty). let members = filter (\<lambda>e. bidx e = b \<and> er_type e = ty) rows
          in \<lparr>gr_bidx = b, gr_type = ty, gr_count = int (length members), gr_max_score = Max (set (map er_score members))\<rparr>)
       (fromkeys (map (\<lambda>e. (bidx e, er_type e)) rows))"

record alert_type_row =
  at_type :: string
  at_count :: int
  at_max_score :: int

record bucket_row =
  br_start :: pydt
  br_total :: int
  br_by_type :: "(string, int) dict"
  br_alert_top_types :: "alert_type_row list"
  br_alert_other_count :: int

record buckets_payload =
  bp_bucket_minutes :: int
  bp_from :: pydt
  bp_to :: pydt
  bp_buckets :: "bucket_row list"

definition dt_plus :: "pydt \<Rightarrow> timedelta \<Rightarrow> pydt" where
  "dt_plus t d = t\<lparr>wall := wall t + d\<rparr>"

definition by_type_of :: "nat \<Rightarrow> group_row list \<Rightarrow> (string, int) dict" where
  "by_type_of max_types raw =
     (let ranked = sort_key (\<lambda>g. (- gr_count g, gr_type g)) raw;
          rest_sum = sum_list (map gr_count (drop max_types ranked));
          top = map (\<lambda>g. (gr_type g, gr_count g)) (take max_types ranked)
      in if rest_sum \<noteq> 0 then AList.update ''_other'' rest_sum top else top)"

definition bucket_row_of :: "pydt \<Rightarrow> int \<Rightarrow> nat \<Rightarrow> nat \<Rightarrow> group_row list \<Rightarrow> int \<Rightarrow> bucket_row" where
  "bucket_row_of from_utc bucket_sec max_types alert_top_n groups b =
     (let raw = filter (\<lambda>g. gr_bidx g = b) groups;
          ranked = sort_key (\<lambda>g. (- gr_max_score g, - gr_count g, gr_type g)) raw
      in \<lparr>br_start = dt_plus from_utc (seconds (b * bucket_sec)),
          br_total = sum_list (map gr_count raw),
          br_by_type = by_type_of max_types raw,
          br_alert_top_types = map (\<lambda>g. \<lparr>at_type = gr_type g, at_count = gr_count g, at_max_score = gr_max_score g\<rparr>) (take alert_top_n ranked),
          br_alert_other_count = sum_list (map gr_count (drop alert_top_n ranked))\<rparr>)"

definition events_between :: "instant \<Rightarrow> instant \<Rightarrow> uuid option \<Rightarrow> event_row list \<Rightarrow> event_row list" where
  \<comment> \<open>the \<open>WHERE\<close> clauses\<close>
  "events_between ft tt vcenter evs =
     filter (\<lambda>e. ft \<le> er_occurred_at e \<and> er_occurred_at e < tt \<and> (case vcenter of None \<Rightarrow> True | Some v \<Rightarrow> er_vcenter e = v)) evs"

definition build_chat_event_time_buckets ::
    "event_row list \<Rightarrow> pydt \<Rightarrow> pydt \<Rightarrow> uuid option \<Rightarrow> int \<Rightarrow> nat \<Rightarrow> nat \<Rightarrow> nat option \<Rightarrow> aggregation_error + buckets_payload" where
  "build_chat_event_time_buckets evs from_utc to_utc vcenter bucket_sec max_types alert_top_n max_rows =
     (if bucket_sec < 1 \<or> max_types < 1 \<or> alert_top_n < 1 then Inl BadLimit
      else let ft = truncate_to_second from_utc; tt = truncate_to_second to_utc
           in if instant_of tt \<le> instant_of ft then Inl BadRange
              else let rows = events_between (instant_of ft) (instant_of tt) vcenter evs;
                       groups = group_rows (\<lambda>e. bucket_index (epoch_seconds (instant_of ft)) bucket_sec (er_occurred_at e)) rows
                   in if (case max_rows of None \<Rightarrow> False | Some m \<Rightarrow> m < length groups) then Inl AggregationLimitExceeded
                      else Inr \<lparr>bp_bucket_minutes = max 1 (bucket_sec div 60), bp_from = ft, bp_to = tt,
                        bp_buckets = map (bucket_row_of ft bucket_sec max_types alert_top_n groups) (sort (fromkeys (map gr_bidx groups)))\<rparr>)"

subsection \<open>Sums over groups\<close>

lemma sum_list_grouped:
  fixes f :: "'a \<Rightarrow> int"
  assumes "distinct ks" "key ` set xs \<subseteq> set ks"
  shows "sum_list (map (\<lambda>k. sum_list (map f (filter (\<lambda>x. key x = k) xs))) ks) = sum_list (map f xs)"
  using assms(2)
proof (induction xs)
  case (Cons x xs)
  have "sum_list (map (\<lambda>k. sum_list (map f (filter (\<lambda>x. key x = k) (x # xs)))) ks)
      = sum_list (map (\<lambda>k. (if k = key x then f x else 0) + sum_list (map f (filter (\<lambda>x. key x = k) xs))) ks)"
    by (intro arg_cong [of _ _ sum_list] map_cong) auto
  also have "\<dots> = sum_list (map (\<lambda>k. if k = key x then f x else 0) ks) + sum_list (map f xs)"
    using Cons by (simp add: sum_list_addf)
  also have "sum_list (map (\<lambda>k. if k = key x then f x else 0) ks) = f x"
    using Cons.prems assms(1) by (simp add: sum_list_distinct_conv_sum_set sum.delta)
  finally show ?case by simp
qed simp

lemma length_grouped:
  assumes "distinct ks" "key ` set xs \<subseteq> set ks"
  shows "sum_list (map (\<lambda>k. int (length (filter (\<lambda>x. key x = k) xs))) ks) = int (length xs)"
  using sum_list_grouped [OF assms, of "\<lambda>_. 1"] by (simp add: sum_list_triv)

lemma groups_total:
  "sum_list (map gr_count (filter (\<lambda>g. gr_bidx g = b) (group_rows bidx rows))) = int (length (filter (\<lambda>e. bidx e = b) rows))"
proof -
  let ?key = "\<lambda>e. (bidx e, er_type e)"
  let ?keys = "filter (\<lambda>(b', ty). b' = b) (fromkeys (map ?key rows))"
  have "filter (\<lambda>g. gr_bidx g = b) (group_rows bidx rows)
      = map (\<lambda>(b, ty). let members = filter (\<lambda>e. bidx e = b \<and> er_type e = ty) rows
          in \<lparr>gr_bidx = b, gr_type = ty, gr_count = int (length members), gr_max_score = Max (set (map er_score members))\<rparr>) ?keys"
    unfolding group_rows_def filter_map o_def by (intro arg_cong [of _ _ "map _"] filter_cong) (auto simp: Let_def)
  then have "map gr_count (filter (\<lambda>g. gr_bidx g = b) (group_rows bidx rows))
      = map (\<lambda>k. int (length (filter (\<lambda>e. ?key e = k) (filter (\<lambda>e. bidx e = b) rows)))) ?keys"
    by (auto simp: Let_def intro!: arg_cong [of _ _ length] filter_cong)
  then show ?thesis using length_grouped [of ?keys ?key "filter (\<lambda>e. bidx e = b) rows"] by auto
qed

lemma groups_bidx: "set (map gr_bidx (group_rows bidx rows)) = bidx ` set rows"
  by (force simp: group_rows_def Let_def)

lemma sum_list_ranked:
  fixes f :: "'a \<Rightarrow> int"
  shows "sum_list (map f (take n (sort_key k xs))) + sum_list (map f (drop n (sort_key k xs))) = sum_list (map f xs)"
  using sum_list_take_drop [of n "map f (sort_key k xs)"] sum_list_sort_key [of f k xs] by (simp add: take_map drop_map)

lemma sum_update_new:
  "k \<notin> fst ` set al \<Longrightarrow> sum_list (map snd (AList.update k v al)) = sum_list (map snd al) + (v :: int)"
  by (induction al) auto

lemma by_type_total:
  assumes "''_other'' \<notin> gr_type ` set raw"
  shows "sum_list (map snd (by_type_of n raw)) = sum_list (map gr_count raw)"
proof -
  let ?ranked = "sort_key (\<lambda>g. (- gr_count g, gr_type g)) raw"
  have "''_other'' \<notin> fst ` set (map (\<lambda>g. (gr_type g, gr_count g)) (take n ?ranked))"
    using assms set_take_subset [of n ?ranked] by force
  then show ?thesis
    using sum_list_ranked [of gr_count n "\<lambda>g. (- gr_count g, gr_type g)" raw]
    by (auto simp: by_type_of_def Let_def sum_update_new o_def split_def)
qed

subsection \<open>Buckets and time\<close>

lemma truncated_instant: "instant_of (truncate_to_second t) = instant_of t - instant_of t mod us_per_second"
  by (simp add: truncate_to_second_def as_utc_utc Let_def instant_of_def utc_def minutes_def)

lemma instant_of_dt_plus [simp]: "instant_of (dt_plus t d) = instant_of t + d"
  by (simp add: dt_plus_def instant_of_def)

lemma bucket_index_iff:
  assumes "0 < w" "us_per_second dvd start"
  shows "bucket_index (epoch_seconds start) w t = b \<longleftrightarrow> start + seconds (b * w) \<le> t \<and> t < start + seconds ((b + 1) * w)"
proof -
  obtain s where s: "start = us_per_second * s" using assms(2) by auto
  have div_iff: "x div w = b \<longleftrightarrow> b * w \<le> x \<and> x < (b + 1) * w" for x
  proof
    assume "x div w = b"
    then have "x = b * w + x mod w" using div_mult_mod_eq [of x w] by simp
    then show "b * w \<le> x \<and> x < (b + 1) * w"
      using pos_mod_sign [OF assms(1), of x] pos_mod_bound [OF assms(1), of x] by (simp add: distrib_right)
  next
    assume "b * w \<le> x \<and> x < (b + 1) * w"
    then show "x div w = b" by (intro int_div_pos_eq [of _ _ _ "x - b * w"]) (auto simp: algebra_simps)
  qed
  have "bucket_index (epoch_seconds start) w t = b \<longleftrightarrow> b * w \<le> t div 1000000 - s \<and> t div 1000000 - s < (b + 1) * w"
    by (simp add: bucket_index_def epoch_seconds_def s div_iff)
  also have "\<dots> \<longleftrightarrow> 1000000 * (s + b * w) \<le> t \<and> t < 1000000 * (s + (b + 1) * w)"
  proof -
    have t: "1000000 * (t div 1000000) \<le> t" "t < 1000000 * (t div 1000000) + 1000000"
      using div_mult_mod_eq [of t 1000000] pos_mod_sign [of 1000000 t] pos_mod_bound [of 1000000 t] by simp_all
    have 1: "m \<le> q - s \<longleftrightarrow> 1000000 * (s + m) \<le> t" if q: "1000000 * q \<le> t" "t < 1000000 * q + 1000000" for m q
    proof
      show "m \<le> q - s \<Longrightarrow> 1000000 * (s + m) \<le> t" using q by simp
      show "1000000 * (s + m) \<le> t \<Longrightarrow> m \<le> q - s" using q by simp
    qed
    then have 2: "q - s < m \<longleftrightarrow> t < 1000000 * (s + m)" if "1000000 * q \<le> t" "t < 1000000 * q + 1000000" for m q
      using that by (metis linorder_not_le)
    show ?thesis unfolding 1 [OF t] 2 [OF t] ..
  qed
  finally show ?thesis by (simp add: s seconds_def algebra_simps)
qed

lemma widen_bound: "0 < width \<Longrightarrow> dur_sec \<le> max_buckets * widen dur_sec width \<and> 0 < widen dur_sec width"
proof (induction dur_sec width rule: widen.induct)
  case (1 dur_sec width)
  then show ?case by (subst (1 2) widen.simps) auto
qed

subsection \<open>Every event is counted once\<close>

lemma group_keys: "set (map (\<lambda>g. (gr_bidx g, gr_type g)) (group_rows bidx rows)) = (\<lambda>e. (bidx e, er_type e)) ` set rows"
  by (force simp: group_rows_def Let_def)

lemma groups_types: "gr_type ` set (group_rows bidx rows) = er_type ` set rows"
proof -
  have "snd ` set (map (\<lambda>g. (gr_bidx g, gr_type g)) (group_rows bidx rows)) = snd ` (\<lambda>e. (bidx e, er_type e)) ` set rows"
    by (simp only: group_keys)
  then show ?thesis by (simp add: image_image)
qed

lemma totals_sum:
  assumes "distinct bs" "set bs = bidx ` set rows"
  shows "sum_list (map (\<lambda>b. int (length (filter (\<lambda>e. bidx e = b) rows))) bs) = int (length rows)"
  using length_grouped [OF assms(1), of bidx rows] assms(2) by simp

text \<open>C32: A bucket payload accounts for every event of the period exactly once: each bucket's total is the number
  of events in its interval, the intervals are in order, the totals add up to the events of the period, and the
  listed alert types together with the rest, as well as the counts by type, add up to the total of the bucket.\<close>
lemma buckets_account_for_every_event:
  assumes "build_chat_event_time_buckets evs from_utc to_utc vcenter w max_types alert_top_n max_rows = Inr p"
  defines "rows \<equiv> events_between (instant_of (truncate_to_second from_utc)) (instant_of (truncate_to_second to_utc)) vcenter evs"
  shows "sum_list (map br_total (bp_buckets p)) = int (length rows)
    \<and> sorted_wrt (\<lambda>r r'. instant_of (br_start r) + seconds w \<le> instant_of (br_start r')) (bp_buckets p)
    \<and> (\<forall>r\<in>set (bp_buckets p).
         br_total r = int (length (filter (\<lambda>e. instant_of (br_start r) \<le> er_occurred_at e
           \<and> er_occurred_at e < instant_of (br_start r) + seconds w) rows))
       \<and> 0 < br_total r \<and> length (br_alert_top_types r) \<le> alert_top_n
       \<and> sum_list (map at_count (br_alert_top_types r)) + br_alert_other_count r = br_total r
       \<and> (''_other'' \<notin> er_type ` set rows \<longrightarrow> sum_list (map snd (br_by_type r)) = br_total r))"
proof -
  let ?from = "truncate_to_second from_utc" and ?start = "instant_of (truncate_to_second from_utc)"
  define bidx where "bidx = (\<lambda>e :: event_row. bucket_index (epoch_seconds ?start) w (er_occurred_at e))"
  let ?groups = "group_rows bidx rows" and ?bs = "sort (fromkeys (map gr_bidx (group_rows bidx rows)))"
  have w: "0 < w" and p: "bp_buckets p = map (bucket_row_of ?from w max_types alert_top_n ?groups) ?bs"
    using assms(1) by (auto simp: build_chat_event_time_buckets_def Let_def bidx_def rows_def split: if_splits)
  have bs: "distinct ?bs" "set ?bs = bidx ` set rows" using groups_bidx [of bidx rows] by auto
  have total: "br_total (bucket_row_of ?from w max_types alert_top_n ?groups b) = int (length (filter (\<lambda>e. bidx e = b) rows))" for b
    using groups_total [of b bidx rows] by (simp add: bucket_row_of_def Let_def)
  have "us_per_second dvd ?start" unfolding truncated_instant by (simp add: minus_mod_eq_mult_div)
  then have interval: "bidx e = b \<longleftrightarrow> ?start + seconds (b * w) \<le> er_occurred_at e \<and> er_occurred_at e < ?start + seconds ((b + 1) * w)" for e b
    unfolding bidx_def by (rule bucket_index_iff [OF w])
  have ends: "?start + seconds ((b + 1) * w) = instant_of (br_start (bucket_row_of ?from w max_types alert_top_n ?groups b)) + seconds w" for b
    by (simp add: bucket_row_of_def Let_def seconds_def algebra_simps)
  show ?thesis
  proof (intro conjI ballI)
    show "sum_list (map br_total (bp_buckets p)) = int (length rows)"
      using totals_sum [OF bs] by (simp add: p total o_def)
    have "sorted_wrt (<) ?bs" using bs(1) by (simp add: strict_sorted_iff)
    moreover have "seconds (b * w) + seconds w \<le> seconds (b' * w)" if "b < b'" for b b'
      using mult_right_mono [of "b + 1" b' w] that w by (simp add: seconds_def algebra_simps)
    ultimately show "sorted_wrt (\<lambda>r r'. instant_of (br_start r) + seconds w \<le> instant_of (br_start r')) (bp_buckets p)"
      unfolding p sorted_wrt_map by (elim sorted_wrt_mono_rel [rotated]) (simp add: bucket_row_of_def Let_def)
  next
    fix r assume "r \<in> set (bp_buckets p)"
    then obtain b where r: "r = bucket_row_of ?from w max_types alert_top_n ?groups b" and b: "b \<in> bidx ` set rows"
      using bs(2) by (auto simp: p)
    show "br_total r = int (length (filter (\<lambda>e. instant_of (br_start r) \<le> er_occurred_at e
        \<and> er_occurred_at e < instant_of (br_start r) + seconds w) rows))"
      unfolding r total using interval ends [of b] by (simp add: bucket_row_of_def Let_def add.assoc)
    show "0 < br_total r" unfolding r total using b by (auto simp: filter_empty_conv)
    show "length (br_alert_top_types r) \<le> alert_top_n" by (simp add: r bucket_row_of_def Let_def)
    show "sum_list (map at_count (br_alert_top_types r)) + br_alert_other_count r = br_total r"
      using sum_list_ranked [of gr_count alert_top_n] by (simp add: r bucket_row_of_def Let_def o_def)
    have "gr_type ` set (filter (\<lambda>g. gr_bidx g = b) ?groups) \<subseteq> er_type ` set rows" using groups_types [of bidx rows] by auto
    then show "''_other'' \<notin> er_type ` set rows \<longrightarrow> sum_list (map snd (br_by_type r)) = br_total r"
      using by_type_total [of "filter (\<lambda>g. gr_bidx g = b) ?groups" max_types]
      by (simp add: r bucket_row_of_def Let_def) blast
  qed
qed

definition sample_events :: "event_row list" where
  "sample_events = map (\<lambda>(t, ty). \<lparr>er_vcenter = 1, er_collector = ''c'', er_occurred_at = seconds t, er_type = ty, er_message = ''m'',
     er_severity = None, er_user_name = None, er_entity_name = None, er_entity_type = None, er_vmware_key = 1, er_chain_id = None,
     er_score = 10, er_tags = [], er_comment = None\<rparr>) [(5, ''a''), (20, ''a''), (70, ''b'')]"

lemma buckets_account_for_every_event_witness:
  "\<exists>p. build_chat_event_time_buckets sample_events (utc 0) (utc (seconds 120)) None 60 10 3 (Some 5) = Inr p
     \<and> sum_list (map br_total (bp_buckets p)) = 3"
proof -
  have "case build_chat_event_time_buckets sample_events (utc 0) (utc (seconds 120)) None 60 10 3 (Some 5) of Inr p \<Rightarrow> True | Inl _ \<Rightarrow> False"
    by code_simp
  then obtain p where p: "build_chat_event_time_buckets sample_events (utc 0) (utc (seconds 120)) None 60 10 3 (Some 5) = Inr p"
    by (auto split: sum.splits)
  moreover have "length (events_between (instant_of (truncate_to_second (utc 0))) (instant_of (truncate_to_second (utc (seconds 120)))) None sample_events) = 3"
    by code_simp
  ultimately show ?thesis using buckets_account_for_every_event [OF p] by auto
qed

text \<open>With the width computed for the period, a bucket payload has at most 48 buckets.\<close>
lemma at_most_48_buckets:
  assumes "compute_chat_bucket_seconds (truncate_to_second from_utc) (truncate_to_second to_utc) = Inr w"
    and "build_chat_event_time_buckets evs from_utc to_utc vcenter w max_types alert_top_n max_rows = Inr p"
  shows "length (bp_buckets p) \<le> 48"
proof -
  let ?s = "instant_of (truncate_to_second from_utc)" and ?e = "instant_of (truncate_to_second to_utc)"
  define rows where "rows = events_between ?s ?e vcenter evs"
  define bidx where "bidx = (\<lambda>e :: event_row. bucket_index (epoch_seconds ?s) w (er_occurred_at e))"
  let ?bs = "sort (fromkeys (map gr_bidx (group_rows bidx rows)))"
  have w: "0 < w" and range: "?s < ?e" and p: "length (bp_buckets p) = length ?bs"
    using assms(2) by (auto simp: build_chat_event_time_buckets_def Let_def bidx_def rows_def split: if_splits)
  define dur where "dur = (?e - ?s) div us_per_second"
  have whole: "us_per_second dvd ?s" "us_per_second dvd ?e" unfolding truncated_instant by (simp_all add: minus_mod_eq_mult_div)
  then have dur: "?e = ?s + seconds dur" by (simp add: dur_def seconds_def)
  with range have "0 < dur" by (simp add: seconds_def)
  then have "dur \<le> 48 * w"
    using assms(1) widen_bound [of _ dur] by (auto simp: compute_chat_bucket_seconds_def bucket_seconds_for_range_def max_buckets_def
        simp flip: dur_def split: if_splits)
  have "0 \<le> bidx e \<and> bidx e < 48" if "e \<in> set rows" for e
  proof -
    have e: "?s \<le> er_occurred_at e" "er_occurred_at e < ?s + seconds dur" using that dur by (auto simp: rows_def events_between_def)
    define b where "b = bidx e"
    have i: "?s + seconds (b * w) \<le> er_occurred_at e" "er_occurred_at e < ?s + seconds ((b + 1) * w)"
      using bucket_index_iff [OF w whole(1), of "er_occurred_at e" b] by (simp_all add: b_def bidx_def)
    then have "seconds (b * w) < seconds dur" "seconds 0 < seconds ((b + 1) * w)" using e by (simp_all add: seconds_def)
    then have "b * w < 48 * w" "0 < (b + 1) * w" using \<open>dur \<le> 48 * w\<close> by (simp_all add: seconds_def mult.commute)
    then show ?thesis using w by (simp add: zero_less_mult_iff flip: b_def)
  qed
  then have "set ?bs \<subseteq> {0..<48}" using groups_bidx [of bidx rows] by auto
  then have "card (set ?bs) \<le> 48" using card_mono [of "{0..<48 :: int}" "set ?bs"] by simp
  moreover have "length ?bs = card (set ?bs)" by (rule distinct_card [symmetric]) simp
  ultimately show ?thesis using p by simp
qed

lemma at_most_48_buckets_witness:
  "\<exists>p. compute_chat_bucket_seconds (truncate_to_second (utc 0)) (truncate_to_second (utc (seconds 120))) = Inr 900
     \<and> build_chat_event_time_buckets sample_events (utc 0) (utc (seconds 120)) None 900 10 3 None = Inr p \<and> length (bp_buckets p) \<le> 48"
proof -
  have "case build_chat_event_time_buckets sample_events (utc 0) (utc (seconds 120)) None 900 10 3 None of Inr p \<Rightarrow> True | Inl _ \<Rightarrow> False"
    by code_simp
  then obtain p where p: "build_chat_event_time_buckets sample_events (utc 0) (utc (seconds 120)) None 900 10 3 None = Inr p"
    by (auto split: sum.splits)
  have "compute_chat_bucket_seconds (truncate_to_second (utc 0)) (truncate_to_second (utc (seconds 120))) = Inr 900" by code_simp
  from at_most_48_buckets [OF this p] this p show ?thesis by blast
qed

end
