(* ===== verification/ChatTimeline.thy ===== *)
theory ChatTimeline
  imports ChatBuckets
begin

section \<open>The incident timeline of a conversation (services/chat/chat\_incident\_timeline.py and chat\_context\_timeline\_entries.py)\<close>

text \<open>
  Alerts, events and metrics of a period become entries with a time, grouped into one column per
  time, the newest first; a column shows its first entries, alerts before events before metrics, and
  counts the others. Two triggers are found in the data itself: a bucket with many events and three
  adjacent buckets of high CPU usage. The Japanese titles, which are outside the characters of this
  model, and the formatting of a number with two digits are the parameter \<open>texts\<close>; an average is a
  real number.
\<close>

subsection \<open>Entries and columns\<close>

datatype timeline_kind = AlertEntry | EventEntry | MetricEntry

record timeline_entry =
  te_timestamp :: pydt
  te_kind :: timeline_kind
  te_title :: string
  te_trigger_id :: "string option"
  te_metric_host :: "(string \<times> nat \<times> nat) option"

definition for_host_metric :: "pydt \<Rightarrow> string \<Rightarrow> string \<Rightarrow> string \<Rightarrow> string \<Rightarrow> timeline_entry" where
  "for_host_metric ts host host_label prefix suffix =
     \<lparr>te_timestamp = ts, te_kind = MetricEntry, te_title = prefix @ host_label @ suffix, te_trigger_id = None,
      te_metric_host = (if host = [] then None else Some (host, length prefix, length prefix + length host_label))\<rparr>"

record timeline_column =
  tc_timestamp :: pydt
  tc_bucket_start :: "pydt option"
  tc_bucket_end :: "pydt option"
  tc_items :: "timeline_entry list"
  tc_visible_items :: "timeline_entry list"
  tc_hidden_count :: nat

definition kind_priority :: "timeline_kind \<Rightarrow> nat" where
  "kind_priority k = (case k of AlertEntry \<Rightarrow> 0 | EventEntry \<Rightarrow> 1 | MetricEntry \<Rightarrow> 2)"

definition timeline_column_of :: "nat \<Rightarrow> int option \<Rightarrow> timeline_entry list \<Rightarrow> instant \<Rightarrow> timeline_column" where
  "timeline_column_of max_visible bucket_seconds entries ts =
     (let ordered = map (\<lambda>e. e\<lparr>te_timestamp := as_utc (te_timestamp e)\<rparr>)
            (sort_key (\<lambda>e. kind_priority (te_kind e)) (filter (\<lambda>e. instant_of (te_timestamp e) = ts) entries));
          visible = take max_visible ordered
      in \<lparr>tc_timestamp = utc ts,
          tc_bucket_start = (case bucket_seconds of None \<Rightarrow> None | Some _ \<Rightarrow> Some (utc ts)),
          tc_bucket_end = (case bucket_seconds of None \<Rightarrow> None | Some n \<Rightarrow> Some (utc (ts + seconds n))),
          tc_items = ordered, tc_visible_items = visible, tc_hidden_count = length ordered - length visible\<rparr>)"

definition build_chat_incident_timeline :: "timeline_entry list \<Rightarrow> nat \<Rightarrow> int option \<Rightarrow> aggregation_error + timeline_column list" where
  "build_chat_incident_timeline entries max_visible bucket_seconds =
     (if max_visible < 1 \<or> (case bucket_seconds of None \<Rightarrow> False | Some n \<Rightarrow> n < 1) then Inl BadLimit
      else Inr (map (timeline_column_of max_visible bucket_seconds entries)
        (rev (sort (fromkeys (map (\<lambda>e. instant_of (te_timestamp e)) entries))))))"

subsection \<open>Metrics of a period\<close>

record metric_point =
  mp_start :: pydt
  mp_avg :: real
  mp_n :: int

record host_series =
  hs_entity_name :: string
  hs_entity_moid :: string
  hs_metric_key :: string
  hs_series :: "metric_point list"

record period_metrics =
  pm_bucket_minutes :: int
  pm_from :: pydt
  pm_to :: pydt
  pm_cpu :: "host_series list option"
  pm_memory :: "host_series list option"
  pm_disk :: "host_series list option"
  pm_network :: "host_series list option"

record high_host_row =
  hh_entity_name :: string
  hh_value :: real
  hh_sampled_at :: pydt

record notable_group =
  ng_event_type :: string
  ng_occurrence_count :: int
  ng_score :: int
  ng_first :: pydt
  ng_last :: pydt
  ng_entity_name :: "string option"
  ng_message :: string

record timeline_texts =
  alert_title :: "string \<Rightarrow> int \<Rightarrow> int \<Rightarrow> string"
  other_alerts_title :: "int \<Rightarrow> string"
  group_title :: "string \<Rightarrow> int \<Rightarrow> string"
  events_title :: "int \<Rightarrow> string"
  related_title :: "int \<Rightarrow> string"
  trigger_title :: "string \<Rightarrow> string"
  two_digits :: "real \<Rightarrow> string"

subsection \<open>Triggers\<close>

fun first_breach :: "timedelta \<Rightarrow> instant option \<Rightarrow> nat \<Rightarrow> metric_point list \<Rightarrow> pydt option" where
  \<comment> \<open>the loop over one host's points, in order: previous time and number of consecutive breaches\<close>
  "first_breach interval previous consecutive [] = None"
| "first_breach interval previous consecutive (p # ps) =
     (let now = instant_of (mp_start p);
          run = (case previous of None \<Rightarrow> 0 | Some t \<Rightarrow> if now - t \<noteq> interval then 0 else consecutive)
      in if 90 \<le> mp_avg p
         then if 3 \<le> run + 1 then Some (mp_start p) else first_breach interval (Some now) (run + 1) ps
         else first_breach interval (Some now) 0 ps)"

definition host_breach :: "timedelta \<Rightarrow> host_series \<Rightarrow> pydt option" where
  "host_breach interval host = first_breach interval None 0 (sort_key (\<lambda>p. instant_of (mp_start p)) (hs_series host))"

definition sustained_breach :: "period_metrics option \<Rightarrow> pydt option" where
  \<comment> \<open>\<open>sustained_breach_timestamp\<close>: the earliest of the hosts' breaches\<close>
  "sustained_breach pm =
     (case pm of None \<Rightarrow> None
      | Some m \<Rightarrow> foldl (\<lambda>best host. case host_breach (minutes (pm_bucket_minutes m)) host of
            None \<Rightarrow> best
          | Some t \<Rightarrow> (case best of None \<Rightarrow> Some t | Some b \<Rightarrow> if instant_of t < instant_of b then Some t else Some b))
          None (case pm_cpu m of None \<Rightarrow> [] | Some hosts \<Rightarrow> hosts))"

definition busiest_bucket :: "bucket_row list \<Rightarrow> bucket_row option" where
  \<comment> \<open>\<open>max(buckets, key=total)\<close>: the first of the largest\<close>
  "busiest_bucket rows = foldl (\<lambda>best r. case best of None \<Rightarrow> Some r | Some b \<Rightarrow> if br_total b < br_total r then Some r else best) None rows"

definition trigger_entry :: "timeline_texts \<Rightarrow> string \<Rightarrow> pydt \<Rightarrow> timeline_entry" where
  "trigger_entry texts trigger ts =
     \<lparr>te_timestamp = ts, te_kind = AlertEntry, te_title = trigger_title texts trigger, te_trigger_id = Some trigger, te_metric_host = None\<rparr>"

definition build_auto_trigger_alert_entries :: "timeline_texts \<Rightarrow> period_metrics option \<Rightarrow> buckets_payload option \<Rightarrow> timeline_entry list" where
  "build_auto_trigger_alert_entries texts pm buckets =
     (case buckets of None \<Rightarrow> []
      | Some p \<Rightarrow> (case bp_buckets p of [] \<Rightarrow> []
        | first # _ \<Rightarrow>
            (let burst = (case busiest_bucket (bp_buckets p) of
                   Some b \<Rightarrow> if 10 \<le> br_total b then Some (br_start b) else None | None \<Rightarrow> None);
                 breach = sustained_breach pm;
                 critical_ts = (case burst of Some t \<Rightarrow> t | None \<Rightarrow> br_start first);
                 sustained_ts = (case breach of Some t \<Rightarrow> t | None \<Rightarrow> br_start first)
             in (if burst \<noteq> None then [trigger_entry texts ''critical_burst'' critical_ts] else [])
                @ (if breach \<noteq> None then [trigger_entry texts ''sustained_breach'' sustained_ts] else [])
                @ (if burst \<noteq> None \<and> breach \<noteq> None
                   then [trigger_entry texts ''multi_signal_overlap''
                     (if instant_of critical_ts < instant_of sustained_ts then sustained_ts else critical_ts)] else []))))"

subsection \<open>Metric entries (services/chat/chat\_timeline\_metric\_filter.py)\<close>

definition disk_keys :: "string list" where "disk_keys = [''host.disk.read_kbps'', ''host.disk.write_kbps'', ''host.disk.usage_pct'']"
definition net_keys :: "string list" where "net_keys = [''host.net.bytes_rx_kbps'', ''host.net.bytes_tx_kbps'', ''host.net.usage_kbps'']"

record metric_thresholds =
  th_cpu :: "real option"
  th_memory :: "real option"
  th_disk :: "real option"
  th_network :: "real option"

definition metric_threshold_for_key :: "metric_thresholds \<Rightarrow> string \<Rightarrow> real option" where
  "metric_threshold_for_key th key =
     (if key = ''host.cpu.usage_pct'' then th_cpu th
      else if key = ''host.mem.usage_pct'' then th_memory th
      else if key \<in> set disk_keys then th_disk th
      else if key \<in> set net_keys then th_network th
      else None)"

definition host_short_label :: "string \<Rightarrow> string" where
  "host_short_label entity_name =
     (case first_hostname_label_if_fqdn entity_name of
        Some short \<Rightarrow> short
      | None \<Rightarrow> if py_strip entity_name \<noteq> [] then py_strip entity_name else ''-'')"

definition build_timeline_metric_entries :: "timeline_texts \<Rightarrow> metric_thresholds \<Rightarrow> host_series list \<Rightarrow> timeline_entry list" where
  "build_timeline_metric_entries texts th series_list =
     concat (map (\<lambda>s. map (\<lambda>p. for_host_metric (mp_start p) (hs_entity_name s) (host_short_label (hs_entity_name s)) []
             ('' '' @ hs_metric_key s @ '': avg='' @ two_digits texts (mp_avg p)))
         (filter (\<lambda>p. 0 < mp_avg p \<and> (case metric_threshold_for_key th (hs_metric_key s) of None \<Rightarrow> True | Some t \<Rightarrow> t \<le> mp_avg p))
           (hs_series s)))
       series_list)"

subsection \<open>All entries\<close>

definition plain_entry :: "pydt \<Rightarrow> timeline_kind \<Rightarrow> string \<Rightarrow> timeline_entry" where
  "plain_entry ts k title = \<lparr>te_timestamp = ts, te_kind = k, te_title = title, te_trigger_id = None, te_metric_host = None\<rparr>"

definition high_host_entries :: "timeline_texts \<Rightarrow> string \<Rightarrow> high_host_row list \<Rightarrow> timeline_entry list" where
  "high_host_entries texts prefix rows =
     map (\<lambda>r. for_host_metric (hh_sampled_at r) (hh_entity_name r) (hh_entity_name r) prefix (''='' @ two_digits texts (hh_value r))) rows"

definition selected_series :: "bool \<Rightarrow> host_series list option \<Rightarrow> host_series list" where
  "selected_series include series = (if include then (case series of None \<Rightarrow> [] | Some ss \<Rightarrow> ss) else [])"

record metric_toggles =
  include_cpu :: bool
  include_memory :: bool
  include_disk_io :: bool
  include_network_io :: bool

definition build_chat_incident_timeline_entries ::
    "timeline_texts \<Rightarrow> notable_group list \<Rightarrow> high_host_row list \<Rightarrow> high_host_row list \<Rightarrow> buckets_payload option
     \<Rightarrow> period_metrics option \<Rightarrow> metric_toggles \<Rightarrow> metric_thresholds \<Rightarrow> timeline_entry list" where
  "build_chat_incident_timeline_entries texts groups high_cpu high_mem buckets pm toggles th =
     (case buckets of
        Some p \<Rightarrow>
          concat (map (\<lambda>row. map (\<lambda>a. plain_entry (br_start row) AlertEntry (alert_title texts (at_type a) (at_count a) (at_max_score a)))
                (br_alert_top_types row)
              @ (if 0 < br_alert_other_count row
                 then [plain_entry (br_start row) AlertEntry (other_alerts_title texts (br_alert_other_count row))] else []))
            (bp_buckets p))
          @ build_auto_trigger_alert_entries texts pm buckets
          @ map (\<lambda>row. plain_entry (br_start row) EventEntry (events_title texts (br_total row))) (bp_buckets p)
      | None \<Rightarrow>
          map (\<lambda>g. plain_entry (ng_last g) AlertEntry (group_title texts (ng_event_type g) (ng_occurrence_count g))) groups
          @ map (\<lambda>g. plain_entry (ng_last g) EventEntry (related_title texts (ng_occurrence_count g))) groups)
     @ (case pm of
          Some m \<Rightarrow> build_timeline_metric_entries texts th
            (selected_series (include_cpu toggles) (pm_cpu m) @ selected_series (include_memory toggles) (pm_memory m)
             @ selected_series (include_disk_io toggles) (pm_disk m) @ selected_series (include_network_io toggles) (pm_network m))
        | None \<Rightarrow> high_host_entries texts ''host.cpu.usage_pct: '' high_cpu @ high_host_entries texts ''host.mem.usage_pct: '' high_mem)"

subsection \<open>Columns\<close>

lemma mset_by_key:
  assumes "distinct ks" "key ` set xs \<subseteq> set ks"
  shows "mset (concat (map (\<lambda>k. filter (\<lambda>x. key x = k) xs) ks)) = mset xs"
  using assms
proof (induction ks arbitrary: xs)
  case (Cons k ks)
  have "filter (\<lambda>x. key x = k') (filter (\<lambda>x. key x \<noteq> k) xs) = filter (\<lambda>x. key x = k') xs" if "k' \<in> set ks" for k'
    using that Cons.prems(1) by (auto intro: filter_cong)
  then have "map (\<lambda>k'. filter (\<lambda>x. key x = k') (filter (\<lambda>x. key x \<noteq> k) xs)) ks = map (\<lambda>k'. filter (\<lambda>x. key x = k') xs) ks"
    by simp
  moreover have "mset (concat (map (\<lambda>k'. filter (\<lambda>x. key x = k') (filter (\<lambda>x. key x \<noteq> k) xs)) ks)) = mset (filter (\<lambda>x. key x \<noteq> k) xs)"
    by (rule Cons.IH) (use Cons.prems in auto)
  ultimately have "mset (concat (map (\<lambda>k. filter (\<lambda>x. key x = k) xs) ks)) = mset (filter (\<lambda>x. key x \<noteq> k) xs)"
    by (simp only:)
  then show ?case
    by (simp only: list.map concat.simps mset_append mset_filter) (rule multiset_partition [symmetric])
qed simp

definition in_utc :: "timeline_entry \<Rightarrow> timeline_entry" where
  "in_utc e = e\<lparr>te_timestamp := as_utc (te_timestamp e)\<rparr>"

lemma in_utc_fun: "in_utc = (\<lambda>e. e\<lparr>te_timestamp := as_utc (te_timestamp e)\<rparr>)"
  by (rule ext) (simp add: in_utc_def)

text \<open>The timeline shows every entry exactly once, in the column of its time; columns are in strictly descending
  order of time, list alerts before events before metrics, show a prefix of the allowed length and count the rest.\<close>
lemma timeline_shows_every_entry_once:
  assumes "build_chat_incident_timeline entries n bucket_seconds = Inr cols"
  shows "mset (concat (map tc_items cols)) = mset (map in_utc entries)
    \<and> sorted_wrt (\<lambda>c c'. instant_of (tc_timestamp c') < instant_of (tc_timestamp c)) cols
    \<and> list_all (\<lambda>c. tc_items c \<noteq> [] \<and> sorted (map (\<lambda>e. kind_priority (te_kind e)) (tc_items c))
        \<and> list_all (\<lambda>e. instant_of (te_timestamp e) = instant_of (tc_timestamp c)) (tc_items c)
        \<and> tc_visible_items c = take n (tc_items c) \<and> length (tc_visible_items c) + tc_hidden_count c = length (tc_items c)) cols"
proof -
  let ?key = "\<lambda>e. instant_of (te_timestamp e)"
  let ?times = "rev (sort (fromkeys (map ?key entries)))"
  let ?items = "\<lambda>t. map in_utc (sort_key (\<lambda>e. kind_priority (te_kind e)) (filter (\<lambda>e. ?key e = t) entries))"
  have cols: "cols = map (timeline_column_of n bucket_seconds entries) ?times"
    using assms by (auto simp: build_chat_incident_timeline_def split: if_splits)
  have col: "tc_items (timeline_column_of n bucket_seconds entries t) = ?items t" for t
    by (simp add: timeline_column_of_def Let_def in_utc_def cong: map_cong)
  have "mset (concat (map ?items ts)) = image_mset in_utc (mset (concat (map (\<lambda>t. filter (\<lambda>e. ?key e = t) entries) ts)))" for ts
    by (induction ts) simp_all
  moreover have "mset (concat (map (\<lambda>t. filter (\<lambda>e. ?key e = t) entries) ?times)) = mset entries"
    by (rule mset_by_key) auto
  moreover have "map tc_items cols = map ?items ?times" by (simp add: cols col)
  ultimately have 1: "mset (concat (map tc_items cols)) = mset (map in_utc entries)" by simp
  have "sorted_wrt (\<lambda>a b. b < a) ?times" by (simp add: sorted_wrt_rev strict_sorted_iff)
  then have 2: "sorted_wrt (\<lambda>c c'. instant_of (tc_timestamp c') < instant_of (tc_timestamp c)) cols"
    by (simp add: cols sorted_wrt_map timeline_column_of_def Let_def instant_of_def utc_def minutes_def)
  have 3: "tc_items c \<noteq> [] \<and> sorted (map (\<lambda>e. kind_priority (te_kind e)) (tc_items c))
      \<and> list_all (\<lambda>e. instant_of (te_timestamp e) = instant_of (tc_timestamp c)) (tc_items c)
      \<and> tc_visible_items c = take n (tc_items c) \<and> length (tc_visible_items c) + tc_hidden_count c = length (tc_items c)"
    if "c \<in> set cols" for c
  proof -
    obtain t where t: "c = timeline_column_of n bucket_seconds entries t" "t \<in> ?key ` set entries" using \<open>c \<in> set cols\<close> by (auto simp: cols)
    have ne: "?items t \<noteq> []" using t(2) by (auto simp: filter_empty_conv simp flip: set_empty)
    have srt: "sorted (map (\<lambda>e. kind_priority (te_kind e)) (?items t))"
      using sorted_sort_key [of "\<lambda>e. kind_priority (te_kind e)" "filter (\<lambda>e. ?key e = t) entries"] by (simp add: o_def in_utc_def)
    have at: "instant_of (te_timestamp e) = t" if "e \<in> set (?items t)" for e
      using that by (auto simp: in_utc_def as_utc_utc instant_of_def utc_def minutes_def)
    have fields: "tc_items c = ?items t" "tc_timestamp c = utc t" "tc_visible_items c = take n (?items t)"
        "tc_hidden_count c = length (?items t) - length (take n (?items t))"
      using col [of t] by (simp_all add: t(1)) (simp_all add: timeline_column_of_def Let_def in_utc_fun)
    have iu: "instant_of (utc t) = t" by (simp add: instant_of_def utc_def minutes_def)
    have "\<forall>e\<in>set (?items t). instant_of (te_timestamp e) = instant_of (utc t)" unfolding iu by (rule ballI, rule at)
    then show ?thesis
      unfolding fields list_all_iff
      by (intro conjI ne srt refl) (blast, simp only: length_take le_add_diff_inverse min.cobounded1)
  qed
  show ?thesis by (rule conjI [OF 1 conjI [OF 2]], rule iffD2 [OF list_all_iff], rule ballI, rule 3)
qed

definition sample_entries :: "timeline_entry list" where
  "sample_entries = [plain_entry (utc 0) EventEntry ''e'', plain_entry (utc (seconds 60)) EventEntry ''f'', plain_entry (utc 0) AlertEntry ''a'']"

lemma timeline_shows_every_entry_once_witness:
  "\<exists>cols. build_chat_incident_timeline sample_entries 1 None = Inr cols \<and> mset (concat (map tc_items cols)) = mset (map in_utc sample_entries)"
proof -
  obtain cols where "build_chat_incident_timeline sample_entries 1 None = Inr cols" by (simp add: build_chat_incident_timeline_def)
  with timeline_shows_every_entry_once [OF this] show ?thesis by blast
qed

subsection \<open>Three breaches in a row\<close>

fun streak :: "timedelta \<Rightarrow> metric_point list \<Rightarrow> nat" where
  \<comment> \<open>how many of the newest points, the newest first, are adjacent breaches\<close>
  "streak d [] = 0"
| "streak d [p] = (if 90 \<le> mp_avg p then 1 else 0)"
| "streak d (p # q # ps) = (if 90 \<le> mp_avg p then 1 + (if instant_of (mp_start p) - instant_of (mp_start q) = d then streak d (q # ps) else 0) else 0)"

lemma streak_Cons:
  "streak d (p # hs) = (if 90 \<le> mp_avg p then (case hs of [] \<Rightarrow> 0 | q # _ \<Rightarrow>
     if instant_of (mp_start p) - instant_of (mp_start q) \<noteq> d then 0 else streak d hs) + 1 else 0)"
  by (cases hs) auto

lemma first_breach_streak:
  "first_breach d (case hs of [] \<Rightarrow> None | q # _ \<Rightarrow> Some (instant_of (mp_start q))) (streak d hs) ps = Some t \<longleftrightarrow>
     (\<exists>k<length ps. t = mp_start (ps ! k) \<and> 3 \<le> streak d (rev (take (Suc k) ps) @ hs)
        \<and> (\<forall>j<k. streak d (rev (take (Suc j) ps) @ hs) < 3))"
proof (induction ps arbitrary: hs)
  case (Cons p ps)
  have IH: "first_breach d (Some (instant_of (mp_start p))) (streak d (p # hs)) ps = Some t \<longleftrightarrow>
     (\<exists>k<length ps. t = mp_start (ps ! k) \<and> 3 \<le> streak d (rev (take (Suc k) ps) @ p # hs)
        \<and> (\<forall>j<k. streak d (rev (take (Suc j) ps) @ p # hs) < 3))"
    using Cons.IH [of "p # hs"] by simp
  have step: "first_breach d (case hs of [] \<Rightarrow> None | q # _ \<Rightarrow> Some (instant_of (mp_start q))) (streak d hs) (p # ps)
      = (if 3 \<le> streak d (p # hs) then Some (mp_start p)
         else first_breach d (Some (instant_of (mp_start p))) (streak d (p # hs)) ps)"
    by (cases hs) (auto simp: Let_def streak_Cons)
  show ?case unfolding step using IH by (auto simp: Ex_less_Suc2 All_less_Suc2 linorder_not_le)
qed simp

definition breach_window :: "timedelta \<Rightarrow> metric_point list \<Rightarrow> nat \<Rightarrow> bool" where
  \<comment> \<open>the points \<open>i\<close>, \<open>i + 1\<close> and \<open>i + 2\<close> are breaches, one interval apart\<close>
  "breach_window d ps i \<longleftrightarrow> i + 2 < length ps \<and> 90 \<le> mp_avg (ps ! i) \<and> 90 \<le> mp_avg (ps ! (i + 1)) \<and> 90 \<le> mp_avg (ps ! (i + 2))
     \<and> instant_of (mp_start (ps ! (i + 1))) - instant_of (mp_start (ps ! i)) = d
     \<and> instant_of (mp_start (ps ! (i + 2))) - instant_of (mp_start (ps ! (i + 1))) = d"

lemma streak_window:
  assumes "k < length ps"
  shows "3 \<le> streak d (rev (take (Suc k) ps)) \<longleftrightarrow> 2 \<le> k \<and> breach_window d ps (k - 2)"
proof -
  have two: "2 \<le> streak d (rev (take (Suc j) ps)) \<longleftrightarrow> 1 \<le> j \<and> 90 \<le> mp_avg (ps ! (j - 1)) \<and> 90 \<le> mp_avg (ps ! j)
      \<and> instant_of (mp_start (ps ! j)) - instant_of (mp_start (ps ! (j - 1))) = d" if "j < length ps" for j
    using that by (cases j) (auto simp: take_Suc_conv_app_nth streak_Cons)
  show ?thesis
  proof (cases k)
    case 0
    then show ?thesis using assms by (simp add: take_Suc_conv_app_nth)
  next
    case (Suc j)
    then have "3 \<le> streak d (rev (take (Suc k) ps)) \<longleftrightarrow> 90 \<le> mp_avg (ps ! k)
        \<and> instant_of (mp_start (ps ! k)) - instant_of (mp_start (ps ! j)) = d \<and> 2 \<le> streak d (rev (take (Suc j) ps))"
      using assms by (auto simp: take_Suc_conv_app_nth streak_Cons)
    moreover have "j < length ps" using assms Suc by simp
    ultimately show ?thesis using two [of j] assms Suc by (cases j) (auto simp: breach_window_def)
  qed
qed

text \<open>A sustained breach of a host is reported exactly if three of its points, in order of time, are at least
  90 percent and one bucket apart from each other; its time is that of the third point of the first such window.\<close>
lemma sustained_breach_iff_three_in_a_row:
  "host_breach d host = Some t \<longleftrightarrow>
     (let ps = sort_key (\<lambda>p. instant_of (mp_start p)) (hs_series host)
      in \<exists>i. breach_window d ps i \<and> (\<nexists>j. j < i \<and> breach_window d ps j) \<and> t = mp_start (ps ! (i + 2)))"
proof -
  let ?ps = "sort_key (\<lambda>p. instant_of (mp_start p)) (hs_series host)"
  have "host_breach d host = Some t \<longleftrightarrow> (\<exists>k<length ?ps. t = mp_start (?ps ! k) \<and> 3 \<le> streak d (rev (take (Suc k) ?ps))
        \<and> (\<forall>j<k. streak d (rev (take (Suc j) ?ps)) < 3))"
    using first_breach_streak [of d "[]" ?ps t] by (simp add: host_breach_def)
  also have "\<dots> \<longleftrightarrow> (\<exists>k<length ?ps. t = mp_start (?ps ! k) \<and> (2 \<le> k \<and> breach_window d ?ps (k - 2))
        \<and> (\<forall>j<k. \<not> (2 \<le> j \<and> breach_window d ?ps (j - 2))))"
    unfolding linorder_not_le [where x = "3 :: nat", symmetric]
    by (intro ex_cong1 conj_cong refl all_cong) (simp_all only: streak_window order.strict_trans)
  also have "\<dots> \<longleftrightarrow> (\<exists>i. breach_window d ?ps i \<and> (\<nexists>j. j < i \<and> breach_window d ?ps j) \<and> t = mp_start (?ps ! (i + 2)))"
  proof
    assume "\<exists>k<length ?ps. t = mp_start (?ps ! k) \<and> (2 \<le> k \<and> breach_window d ?ps (k - 2))
        \<and> (\<forall>j<k. \<not> (2 \<le> j \<and> breach_window d ?ps (j - 2)))"
    then obtain k where k: "t = mp_start (?ps ! k)" "2 \<le> k" "breach_window d ?ps (k - 2)"
      "\<And>j. j < k \<Longrightarrow> \<not> (2 \<le> j \<and> breach_window d ?ps (j - 2))" by blast
    have "\<not> breach_window d ?ps j" if "j < k - 2" for j using k(4) [of "j + 2"] that k(2) by simp
    moreover have "k - 2 + 2 = k" using k(2) by simp
    ultimately show "\<exists>i. breach_window d ?ps i \<and> (\<nexists>j. j < i \<and> breach_window d ?ps j) \<and> t = mp_start (?ps ! (i + 2))"
      using k(1,3) by (metis (no_types, lifting))
  next
    assume "\<exists>i. breach_window d ?ps i \<and> (\<nexists>j. j < i \<and> breach_window d ?ps j) \<and> t = mp_start (?ps ! (i + 2))"
    then obtain i where i: "breach_window d ?ps i" "\<nexists>j. j < i \<and> breach_window d ?ps j" "t = mp_start (?ps ! (i + 2))" by blast
    then show "\<exists>k<length ?ps. t = mp_start (?ps ! k) \<and> (2 \<le> k \<and> breach_window d ?ps (k - 2))
        \<and> (\<forall>j<k. \<not> (2 \<le> j \<and> breach_window d ?ps (j - 2)))"
      by (intro exI [of _ "i + 2"]) (auto simp: breach_window_def [of _ _ i])
  qed
  finally show ?thesis by (simp add: Let_def)
qed

end
