(* ===== verification/ChatPayload.thy ===== *)
theory ChatPayload
  imports Restore ChatTimeline
begin

section \<open>What a conversation sends to the language model (services/chat/chat\_llm\_payload.py)\<close>

text \<open>
  The payload is JSON about the period, the last messages and the attached texts, anonymised with one
  table of tokens, and cut down until the estimated number of tokens fits a budget: first the JSON,
  then old messages, then the attachments, and the last message at the end. The parameter
  \<open>llm_texts\<close> holds the fixed Japanese texts, \<open>json.dumps\<close>, the text of a datetime in JSON and the
  token counter of the external tokenizer.
\<close>

record llm_texts =
  system_prompt :: string
  context_intro :: string
  json_suffix :: string
  attachment_suffix :: string
  attachment_header :: string
  truncated_note :: string
  attachment_heading :: string
  token_count :: "string \<Rightarrow> nat"
  json_dumps :: "json \<Rightarrow> string"
  datetime_json :: "pydt \<Rightarrow> string"

record chat_message =
  cm_role :: string
  cm_content :: string

datatype attachment_kind = TextAttachment | ImageAttachment

record chat_attachment =
  ca_kind :: attachment_kind
  ca_filename :: string
  ca_text :: "string option"
  ca_truncated :: bool

subsection \<open>Anonymised timeline and conversation (services/llm/llm\_anonymization.py)\<close>

definition jopt :: "('a \<Rightarrow> json) \<Rightarrow> 'a option \<Rightarrow> json" where
  "jopt f x = (case x of None \<Rightarrow> JNull | Some v \<Rightarrow> f v)"

definition kind_json :: "timeline_kind \<Rightarrow> json" where
  "kind_json k = JStr (case k of AlertEntry \<Rightarrow> ''alert'' | EventEntry \<Rightarrow> ''event'' | MetricEntry \<Rightarrow> ''metric'')"

definition entry_json :: "llm_texts \<Rightarrow> timeline_entry \<Rightarrow> json" where
  "entry_json lt e = JObj [(''timestamp_utc'', JStr (datetime_json lt (te_timestamp e))), (''kind'', kind_json (te_kind e)),
     (''title'', JStr (te_title e)), (''trigger_id'', jopt JStr (te_trigger_id e))]"

definition column_json :: "llm_texts \<Rightarrow> timeline_column \<Rightarrow> json list \<Rightarrow> json list \<Rightarrow> json" where
  "column_json lt c its visible = JObj [(''timestamp_utc'', JStr (datetime_json lt (tc_timestamp c))),
     (''bucket_start_utc'', jopt (\<lambda>t. JStr (datetime_json lt t)) (tc_bucket_start c)),
     (''bucket_end_utc'', jopt (\<lambda>t. JStr (datetime_json lt t)) (tc_bucket_end c)),
     (''items'', JList its), (''visible_items'', JList visible), (''hidden_count'', JInt (int (tc_hidden_count c)))]"

definition timeline_dump :: "llm_texts \<Rightarrow> timeline_column list \<Rightarrow> json" where
  \<comment> \<open>\<open>incident_timeline.model_dump(mode="json")\<close>\<close>
  "timeline_dump lt cols = JObj [(''columns'',
     JList (map (\<lambda>c. column_json lt c (map (entry_json lt) (tc_items c)) (map (entry_json lt) (tc_visible_items c))) cols))]"

fun thread :: "('a \<Rightarrow> 's \<Rightarrow> 's \<times> 'b) \<Rightarrow> 'a list \<Rightarrow> 's \<Rightarrow> 's \<times> 'b list" where
  \<comment> \<open>a loop that updates a state and collects results\<close>
  "thread f [] s = (s, [])"
| "thread f (x # xs) s = (let (s', y) = f x s; (s'', ys) = thread f xs s' in (s'', y # ys))"

definition anonymize_entry :: "llm_texts \<Rightarrow> timeline_entry \<Rightarrow> anonymizer \<Rightarrow> anonymizer \<times> json" where
  "anonymize_entry lt e a =
     (case te_metric_host e of
        None \<Rightarrow> (a, entry_json lt e)
      | Some (host, i, j) \<Rightarrow>
          (let (a', tok) = token_for ''entity'' host a
           in (a', entry_json lt (e\<lparr>te_title := take i (te_title e) @ tok @ drop j (te_title e)\<rparr>))))"

definition anonymize_column :: "llm_texts \<Rightarrow> timeline_column \<Rightarrow> anonymizer \<Rightarrow> anonymizer \<times> json" where
  "anonymize_column lt c a =
     (let (a', its) = thread (anonymize_entry lt) (tc_items c) a; (a'', visible) = thread (anonymize_entry lt) (tc_visible_items c) a'
      in (a'', column_json lt c its visible))"

definition timeline_hosts :: "timeline_column list \<Rightarrow> string list" where
  "timeline_hosts cols =
     concat (map (\<lambda>c. concat (map (\<lambda>e. case te_metric_host e of None \<Rightarrow> [] | Some (host, _) \<Rightarrow> [host]) (tc_items c @ tc_visible_items c))) cols)"

definition chat_pairs :: "(string \<times> json) list \<Rightarrow> timeline_column list option \<Rightarrow> string list \<Rightarrow> (string \<times> string) list" where
  "chat_pairs payload timeline extra =
     collect_entity_user_pairs (JObj payload)
     @ (case timeline of None \<Rightarrow> [] | Some cols \<Rightarrow> map (Pair ''entity'') (timeline_hosts cols)) @ extra_vcenter_pairs extra"

definition anonymize_chat_for_llm ::
    "llm_texts \<Rightarrow> (string \<times> json) list \<Rightarrow> string list \<Rightarrow> string list \<Rightarrow> string list \<Rightarrow> timeline_column list option
     \<Rightarrow> anonymizer \<times> (string \<times> json) list \<times> string list \<times> string list" where
  \<comment> \<open>the reverse map of the result is that of the anonymizer\<close>
  "anonymize_chat_for_llm lt payload contents extra attachments timeline =
     (let a0 = anonymizer_for (chat_pairs payload timeline extra);
          (a1, out_payload) = anonymize_fields payload a0;
          (a2, out_payload) =
            (case timeline of None \<Rightarrow> (a1, out_payload)
             | Some cols \<Rightarrow> (let (a', js) = thread (anonymize_column lt) cols a1
                in (a', AList.update ''incident_timeline'' (JObj [(''columns'', JList js)]) out_payload)));
          (a3, out_contents) = anonymize_texts contents a2;
          (a4, out_attachments) = anonymize_texts attachments a3
      in (a4, out_payload, out_contents, out_attachments))"

subsection \<open>Attachments (services/chat/chat\_attachments.py)\<close>

definition text_attachments :: "chat_attachment list \<Rightarrow> chat_attachment list" where
  "text_attachments = filter (\<lambda>a. ca_kind a = TextAttachment)"

definition image_attachments :: "chat_attachment list \<Rightarrow> chat_attachment list" where
  "image_attachments = filter (\<lambda>a. ca_kind a = ImageAttachment)"

definition estimate_image_tokens :: "nat \<Rightarrow> nat" where
  "estimate_image_tokens image_count = image_count * 1100"

abbreviation "backquote \<equiv> CHR 0x60"

fun longest_run :: "string \<Rightarrow> nat \<Rightarrow> nat \<Rightarrow> nat" where
  \<comment> \<open>the loop of \<open>_fence_for\<close>: the longest run of backquotes so far and the current one\<close>
  "longest_run [] longest run = longest"
| "longest_run (c # s) longest run =
     (if c = backquote then longest_run s (max longest (run + 1)) (run + 1) else longest_run s longest 0)"

definition fence_for :: "string \<Rightarrow> string" where
  "fence_for text = replicate (max 3 (longest_run text 0 0 + 1)) backquote"

abbreviation "newline \<equiv> CHR 0x0A"

definition attachment_part :: "llm_texts \<Rightarrow> chat_attachment \<times> string \<Rightarrow> string" where
  "attachment_part lt = (\<lambda>(a, body). attachment_heading lt @ ca_filename a @ (if ca_truncated a then truncated_note lt else [])
     @ [newline] @ fence_for body @ [newline] @ body @ [newline] @ fence_for body @ [newline])"

definition render_attachment_text_block :: "llm_texts \<Rightarrow> chat_attachment list \<Rightarrow> string list \<Rightarrow> aggregation_error + string option" where
  "render_attachment_text_block lt attachments bodies =
     (if text_attachments attachments = [] then Inr None
      else if length bodies \<noteq> length (text_attachments attachments) then Inl BadLimit
      else Inr (Some (rstrip_by py_isspace_char (join [newline] (attachment_header lt # map (attachment_part lt) (zip (text_attachments attachments) bodies)))
        @ [newline])))"

subsection \<open>The payload\<close>

definition max_chat_messages :: nat where "max_chat_messages = 20"

definition prepare_chat_payload ::
    "llm_texts \<Rightarrow> bool \<Rightarrow> (string, json) dict \<Rightarrow> chat_message list \<Rightarrow> json option \<Rightarrow> json option \<Rightarrow> timeline_column list option
     \<Rightarrow> string list \<Rightarrow> chat_attachment list
     \<Rightarrow> aggregation_error + ((string \<times> json) list \<times> chat_message list \<times> string option \<times> (string, string) dict)" where
  "prepare_chat_payload lt anonymization_enabled context messages pm buckets timeline extra attachments =
     (let digest = AList.delete ''high_mem_hosts'' (AList.delete ''high_cpu_hosts'' context);
          payload = [(''digest_context'', JObj digest)]
            @ (case pm of None \<Rightarrow> [] | Some j \<Rightarrow> [(''period_metrics'', j)])
            @ (case buckets of None \<Rightarrow> [] | Some j \<Rightarrow> [(''event_time_buckets'', j)]);
          trimmed = last_n max_chat_messages messages;
          bodies = map (\<lambda>a. case ca_text a of None \<Rightarrow> [] | Some t \<Rightarrow> t) (text_attachments attachments);
          (payload, trimmed, bodies, rev_map) =
            (if anonymization_enabled
             then let (a, pl, contents, bodies) = anonymize_chat_for_llm lt payload (map cm_content trimmed) extra bodies timeline
                  in (pl, map (\<lambda>(m, c). m\<lparr>cm_content := c\<rparr>) (zip trimmed contents), bodies, reverse_tokens a)
             else (payload @ (case timeline of None \<Rightarrow> [] | Some cols \<Rightarrow> [(''incident_timeline'', timeline_dump lt cols)]),
                   trimmed, bodies, []))
      in and_then (render_attachment_text_block lt attachments bodies) (\<lambda>block. Inr (payload, trimmed, block, rev_map)))"

subsection \<open>The token budget\<close>

definition merged_context_user_block :: "llm_texts \<Rightarrow> string \<Rightarrow> string" where
  "merged_context_user_block lt ctx_json =
     context_intro lt @ replicate 3 backquote @ ''json'' @ [newline] @ ctx_json @ [newline] @ replicate 3 backquote"

definition truthy_block :: "string option \<Rightarrow> bool" where
  "truthy_block b = (case b of None \<Rightarrow> False | Some s \<Rightarrow> s \<noteq> [])"

definition estimate_chat_input_tokens :: "llm_texts \<Rightarrow> string \<Rightarrow> chat_message list \<Rightarrow> string option \<Rightarrow> nat \<Rightarrow> nat" where
  "estimate_chat_input_tokens lt block trimmed attachment_block image_count =
     token_count lt (system_prompt lt) + token_count lt block + sum_list (map (\<lambda>m. token_count lt (cm_content m)) trimmed)
     + (if truthy_block attachment_block then token_count lt (the attachment_block) else 0)
     + estimate_image_tokens image_count
     + 4 * (2 + length trimmed + (if truthy_block attachment_block then 1 else 0))"

definition trim_json_raw :: "llm_texts \<Rightarrow> string \<Rightarrow> nat \<Rightarrow> string" where
  \<comment> \<open>also \<open>_trim_context_json\<close> of services/digest/digest\_llm.py\<close>
  "trim_json_raw lt raw max_chars = (if length raw \<le> max_chars then raw else take max_chars raw @ json_suffix lt)"

function search_longest :: "(nat \<Rightarrow> 'a) \<Rightarrow> ('a \<Rightarrow> bool) \<Rightarrow> nat \<Rightarrow> nat \<Rightarrow> 'a option \<Rightarrow> 'a option" where
  \<comment> \<open>the binary search of both \<open>_best_..._for_budget\<close> functions\<close>
  "search_longest candidate fits lo hi best =
     (if lo \<le> hi then
        let mid = (lo + hi) div 2
        in if fits (candidate mid) then search_longest candidate fits (mid + 1) hi (Some (candidate mid))
           else if mid = 0 then best else search_longest candidate fits lo (mid - 1) best
      else best)"
  by pat_completeness auto
termination by (relation "measure (\<lambda>(candidate, fits, lo, hi, best). hi + 1 - lo)") auto

declare search_longest.simps [simp del]

definition best_json_string_for_budget ::
    "llm_texts \<Rightarrow> string \<Rightarrow> chat_message list \<Rightarrow> nat \<Rightarrow> string option \<Rightarrow> nat \<Rightarrow> string \<times> bool" where
  "best_json_string_for_budget lt full trimmed max_tokens attachment_block image_count =
     (let fits = (\<lambda>ctx. estimate_chat_input_tokens lt (merged_context_user_block lt ctx) trimmed attachment_block image_count \<le> max_tokens)
      in if fits full then (full, False)
         else (case search_longest (trim_json_raw lt full) fits 1 (max 1 (length full - 1)) None of
                 None \<Rightarrow> (trim_json_raw lt full 1, True) | Some best \<Rightarrow> (best, True)))"

definition best_attachment_block_for_budget ::
    "llm_texts \<Rightarrow> string \<Rightarrow> string \<Rightarrow> chat_message list \<Rightarrow> nat \<Rightarrow> nat \<Rightarrow> string option \<times> bool" where
  "best_attachment_block_for_budget lt attachment_block block trimmed max_tokens image_count =
     (let fits = (\<lambda>candidate. estimate_chat_input_tokens lt block trimmed (Some candidate) image_count \<le> max_tokens)
      in if fits attachment_block then (Some attachment_block, False)
         else (search_longest (\<lambda>mid. take mid attachment_block @ attachment_suffix lt) fits 1 (max 1 (length attachment_block - 1)) None, True))"

function fit_loop ::
    "llm_texts \<Rightarrow> string \<Rightarrow> nat \<Rightarrow> nat \<Rightarrow> chat_message list \<Rightarrow> bool \<Rightarrow> string option \<Rightarrow> bool
     \<Rightarrow> string \<times> chat_message list \<times> bool \<times> string option \<times> bool" where
  \<comment> \<open>the \<open>while True\<close> of \<open>fit_chat_payload_to_token_budget\<close>\<close>
  "fit_loop lt raw_json max_tokens image_count trimmed json_truncated attachment_block attachment_truncated =
     (let (ctx_json, jtrunc) = best_json_string_for_budget lt raw_json trimmed max_tokens attachment_block image_count;
          json_truncated = (json_truncated \<or> jtrunc);
          block = merged_context_user_block lt ctx_json
      in if estimate_chat_input_tokens lt block trimmed attachment_block image_count \<le> max_tokens
         then (ctx_json, trimmed, json_truncated, attachment_block, attachment_truncated)
         else if 1 < length trimmed
         then fit_loop lt raw_json max_tokens image_count (tl trimmed) json_truncated attachment_block attachment_truncated
         else let tried = truthy_block attachment_block;
                  (attachment_block, attachment_truncated) =
                    (if tried
                     then best_attachment_block_for_budget lt (the attachment_block) block trimmed max_tokens image_count
                     else (attachment_block, attachment_truncated))
              in if tried \<and> estimate_chat_input_tokens lt block trimmed attachment_block image_count \<le> max_tokens
                 then (ctx_json, trimmed, json_truncated, attachment_block, attachment_truncated)
                 else if trimmed \<noteq> []
                 then fit_loop lt raw_json max_tokens image_count [] json_truncated attachment_block attachment_truncated
                 else (trim_json_raw lt raw_json 1, [], True, attachment_block, attachment_truncated))"
  by pat_completeness auto
termination by (relation "measure (\<lambda>(lt, raw, mx, n, trimmed, jt, ab, atr). length trimmed)") auto

declare fit_loop.simps [simp del]

definition fit_chat_payload_to_token_budget ::
    "llm_texts \<Rightarrow> nat \<Rightarrow> (string \<times> json) list \<Rightarrow> chat_message list \<Rightarrow> string option \<Rightarrow> nat
     \<Rightarrow> string \<times> chat_message list \<times> bool \<times> string option \<times> bool" where
  "fit_chat_payload_to_token_budget lt max_tokens payload messages attachment_block image_count =
     fit_loop lt (json_dumps lt (JObj payload)) max_tokens image_count (last_n max_chat_messages messages) False attachment_block False"

record chat_llm_context =
  cc_block :: string
  cc_trimmed :: "chat_message list"
  cc_attachment_block :: "string option"
  cc_images :: "chat_attachment list"
  cc_json_truncated :: bool
  cc_estimated_input_tokens :: nat
  cc_message_turns :: nat
  cc_attachment_count :: nat
  cc_attachment_text_chars :: nat
  cc_attachment_truncated :: bool
  cc_images_dropped :: bool
  cc_reverse_map :: "(string, string) dict"

definition build_chat_llm_context ::
    "llm_texts \<Rightarrow> bool \<Rightarrow> nat \<Rightarrow> (string, json) dict \<Rightarrow> chat_message list \<Rightarrow> json option \<Rightarrow> json option \<Rightarrow> timeline_column list option
     \<Rightarrow> string list \<Rightarrow> chat_attachment list \<Rightarrow> bool \<Rightarrow> aggregation_error + chat_llm_context" where
  "build_chat_llm_context lt anonymization_enabled max_tokens context messages pm buckets timeline extra attachments supports_images =
     and_then (prepare_chat_payload lt anonymization_enabled context messages pm buckets timeline extra attachments)
       (\<lambda>(payload, trimmed, attachment_block, rev_map).
         let images = (if supports_images then image_attachments attachments else []);
             (ctx_json, trimmed, json_truncated, attachment_block, attachment_truncated) =
               fit_chat_payload_to_token_budget lt max_tokens payload trimmed attachment_block (length images);
             block = merged_context_user_block lt ctx_json
         in Inr \<lparr>cc_block = block, cc_trimmed = trimmed, cc_attachment_block = attachment_block, cc_images = images,
              cc_json_truncated = json_truncated,
              cc_estimated_input_tokens = estimate_chat_input_tokens lt block trimmed attachment_block (length images),
              cc_message_turns = length trimmed,
              cc_attachment_count = (if truthy_block attachment_block then length (text_attachments attachments) else 0) + length images,
              cc_attachment_text_chars = length (case attachment_block of None \<Rightarrow> [] | Some s \<Rightarrow> s),
              cc_attachment_truncated = attachment_truncated,
              cc_images_dropped = (image_attachments attachments \<noteq> [] \<and> \<not> supports_images),
              cc_reverse_map = rev_map\<rparr>)"

subsection \<open>Fences\<close>

lemma longest_run_ge: "longest \<le> longest_run s longest r \<and> (r \<le> longest \<longrightarrow> r \<le> longest_run s longest r)"
  by (induction s longest r rule: longest_run.induct) auto

lemma longest_run_replicate: "run + n \<le> longest_run (replicate n backquote @ s) longest run \<or> n = 0"
proof (induction n arbitrary: longest run)
  case (Suc n)
  show ?case
  proof (cases n)
    case 0
    then show ?thesis using longest_run_ge [of "max longest (run + 1)" s "run + 1"] by auto
  next
    case (Suc m)
    then show ?thesis using Suc.IH [of "run + 1" "max longest (run + 1)"] by simp
  qed
qed simp

lemma longest_run_later: "longest_run s longest' r' \<le> longest_run (x @ s) longest run" if "longest' \<le> longest" "r' = 0"
  using that
proof (induction x arbitrary: longest run)
  case Nil
  have "longest_run s a b \<le> longest_run s a' b'" if "a \<le> a'" "b \<le> b'" for a b a' b'
    using that by (induction s arbitrary: a b a' b') (auto simp: max_def)
  then show ?case using Nil by simp
qed auto

lemma fence_not_inside: "\<not> contains text (fence_for text)"
proof
  assume "contains text (fence_for text)"
  then obtain x y where xy: "text = x @ fence_for text @ y" by (auto simp: contains_iff)
  define n where "n = max 3 (longest_run text 0 0 + 1)"
  then have n: "n = max 3 (longest_run text 0 0 + 1)" "text = x @ replicate n backquote @ y" using xy by (simp_all add: fence_for_def)
  have "n \<le> longest_run (replicate n backquote @ y) 0 0" using longest_run_replicate [of 0 n y 0] n(1) by auto
  also have "\<dots> \<le> longest_run (x @ replicate n backquote @ y) 0 0" by (rule longest_run_later) simp_all
  also have "\<dots> = longest_run text 0 0" by (rule arg_cong [OF n(2), symmetric])
  finally show False using n(1) by simp
qed

subsection \<open>Binary search\<close>

lemma search_longest_fits:
  assumes "search_longest candidate fits lo hi best = Some s" "\<And>b. best = Some b \<Longrightarrow> fits b"
  shows "fits s"
  using assms
proof (induction candidate fits lo hi best rule: search_longest.induct)
  case (1 candidate fits lo hi best)
  let ?mid = "(lo + hi) div 2"
  show ?case
  proof (cases "lo \<le> hi")
    case True
    then show ?thesis
      using 1 by (subst (asm) (3) search_longest.simps) (auto simp: Let_def split: if_splits)
  next
    case False
    then show ?thesis using "1.prems" by (subst (asm) search_longest.simps) simp
  qed
qed

lemma search_from_nothing: "search_longest candidate fits lo hi None = Some s \<Longrightarrow> fits s"
  by (erule search_longest_fits) simp

lemma search_longest_candidate:
  assumes "search_longest candidate fits lo hi best = Some s"
  shows "best = Some s \<or> (\<exists>k\<ge>lo. k \<le> hi \<and> s = candidate k)"
  using assms
proof (induction candidate fits lo hi best rule: search_longest.induct)
  case (1 candidate fits lo hi best)
  let ?mid = "(lo + hi) div 2"
  show ?case
  proof (cases "lo \<le> hi")
    case True
    have "\<exists>k\<ge>lo. k \<le> hi \<and> candidate ?mid = candidate k" using True by (intro exI [of _ ?mid]) auto
    then show ?thesis
      using "1.IH"(1) [OF True refl] "1.IH"(2) [OF True refl] "1.prems" True
      by (subst (asm) (3) search_longest.simps) (fastforce simp: Let_def split: if_splits)
  next
    case False
    then show ?thesis using "1.prems" by (subst (asm) search_longest.simps) simp
  qed
qed

lemma search_longest_spec:
  assumes "\<And>m n. lo \<le> m \<Longrightarrow> m \<le> n \<Longrightarrow> n \<le> hi \<Longrightarrow> fits (candidate n) \<Longrightarrow> fits (candidate m)" "0 < lo"
  shows "search_longest candidate fits lo hi best =
    (case filter (\<lambda>n. fits (candidate n)) (rev [lo ..< hi + 1]) of [] \<Rightarrow> best | n # _ \<Rightarrow> Some (candidate n))"
  using assms
proof (induction candidate fits lo hi best rule: search_longest.induct)
  case (1 candidate fits lo hi best)
  let ?mid = "(lo + hi) div 2"
  show ?case
  proof (cases "lo \<le> hi")
    case True
    then have mid: "lo \<le> ?mid" "?mid \<le> hi" "0 < ?mid" using "1.prems"(2) by auto
    have split: "[lo ..< hi + 1] = [lo ..< ?mid] @ [?mid] @ [?mid + 1 ..< hi + 1]"
      using upt_add_eq_append [of lo ?mid "hi + 1 - ?mid"] mid by (simp add: upt_conv_Cons)
    show ?thesis
    proof (cases "fits (candidate ?mid)")
      case fit: True
      have "search_longest candidate fits lo hi best = search_longest candidate fits (?mid + 1) hi (Some (candidate ?mid))"
        using True fit by (subst search_longest.simps) (simp add: Let_def)
      also have "\<dots> = (case filter (\<lambda>n. fits (candidate n)) (rev [?mid + 1 ..< hi + 1]) of [] \<Rightarrow> Some (candidate ?mid) | n # _ \<Rightarrow> Some (candidate n))"
        using mid by (intro "1.IH"(1) [OF True refl fit]) (auto intro: "1.prems"(1))
      finally show ?thesis unfolding split using fit by (auto split: list.splits)
    next
      case False
      have "search_longest candidate fits lo hi best = search_longest candidate fits lo (?mid - 1) best"
        using True False mid by (subst search_longest.simps) (simp add: Let_def)
      also have "\<dots> = (case filter (\<lambda>n. fits (candidate n)) (rev [lo ..< ?mid - 1 + 1]) of [] \<Rightarrow> best | n # _ \<Rightarrow> Some (candidate n))"
        using mid True "1.prems"(2) by (intro "1.IH"(2) [OF True refl False]) (auto intro: "1.prems"(1))
      finally have eq: "search_longest candidate fits lo hi best
          = (case filter (\<lambda>n. fits (candidate n)) (rev [lo ..< ?mid]) of [] \<Rightarrow> best | n # _ \<Rightarrow> Some (candidate n))" using mid by simp
      have "filter (\<lambda>n. fits (candidate n)) (rev [?mid + 1 ..< hi + 1]) = []"
        using False mid "1.prems"(1) [of ?mid] by (fastforce simp: filter_empty_conv)
      then show ?thesis unfolding eq split using False by (simp add: filter_append)
    qed
  next
    case False
    then show ?thesis by (subst search_longest.simps) simp
  qed
qed

subsection \<open>Fitting the budget\<close>

lemma best_json_cases:
  assumes "best_json_string_for_budget lt raw trimmed mx ab n = (ctx, jt)"
  shows "(\<exists>k\<ge>1. ctx = trim_json_raw lt raw k) \<and> (jt \<or> ctx = raw)"
proof -
  have "\<exists>k\<ge>1. best = trim_json_raw lt raw k" if "search_longest (trim_json_raw lt raw) fits 1 hi None = Some best" for fits hi best
    using search_longest_candidate [OF that] by auto
  moreover have "\<exists>k\<ge>1. raw = trim_json_raw lt raw k" by (intro exI [of _ "length raw + 1"]) (simp add: trim_json_raw_def)
  ultimately show ?thesis using assms
    by (auto simp: best_json_string_for_budget_def Let_def split: if_splits option.splits)
qed

lemma fit_loop_result:
  assumes "fit_loop lt raw mx n trimmed jt0 ab0 at0 = (ctx, tr, jt, ab, atr)"
  shows "(estimate_chat_input_tokens lt (merged_context_user_block lt ctx) tr ab n \<le> mx
      \<or> tr = [] \<and> \<not> truthy_block ab \<and> ctx = trim_json_raw lt raw 1)
    \<and> (\<exists>k. tr = drop k trimmed) \<and> (\<exists>k\<ge>1. ctx = trim_json_raw lt raw k) \<and> (ctx = raw \<or> jt) \<and> (1 < length tr \<longrightarrow> ab = ab0 \<and> atr = at0)"
  using assms
proof (induction lt raw mx n trimmed jt0 ab0 at0 rule: fit_loop.induct)
  case (1 lt raw mx n trimmed jt0 ab0 at0)
  obtain c jt1 where best: "best_json_string_for_budget lt raw trimmed mx ab0 n = (c, jt1)" by fastforce
  let ?block = "merged_context_user_block lt c"
  obtain ab1 at1 where tried: "(if truthy_block ab0 then best_attachment_block_for_budget lt (the ab0) ?block trimmed mx n else (ab0, at0)) = (ab1, at1)"
    by fastforce
  note cj = best_json_cases [OF best]
  have none: "\<not> truthy_block ab1" if "\<not> (truthy_block ab0 \<and> estimate_chat_input_tokens lt ?block trimmed ab1 n \<le> mx)"
    using tried that
    by (auto simp: best_attachment_block_for_budget_def Let_def truthy_block_def split: if_splits option.splits dest: search_from_nothing)
  have step: "(ctx, tr, jt, ab, atr) =
      (if estimate_chat_input_tokens lt ?block trimmed ab0 n \<le> mx then (c, trimmed, jt0 \<or> jt1, ab0, at0)
       else if 1 < length trimmed then fit_loop lt raw mx n (tl trimmed) (jt0 \<or> jt1) ab0 at0
       else if truthy_block ab0 \<and> estimate_chat_input_tokens lt ?block trimmed ab1 n \<le> mx then (c, trimmed, jt0 \<or> jt1, ab1, at1)
       else if trimmed \<noteq> [] then fit_loop lt raw mx n [] (jt0 \<or> jt1) ab1 at1
       else (trim_json_raw lt raw 1, [], True, ab1, at1))"
    unfolding "1.prems" [symmetric] by (subst fit_loop.simps) (simp add: best tried Let_def)
  show ?case
  proof (cases "estimate_chat_input_tokens lt ?block trimmed ab0 n \<le> mx")
    case True
    then have "ctx = c" "tr = trimmed" "jt = (jt0 \<or> jt1)" "ab = ab0" "atr = at0" using step by simp_all
    then show ?thesis using True cj by (auto intro: exI [of _ 0])
  next
    case big: False
    show ?thesis
    proof (cases "1 < length trimmed")
      case True
      then have "fit_loop lt raw mx n (tl trimmed) (jt0 \<or> jt1) ab0 at0 = (ctx, tr, jt, ab, atr)" using step big by simp
      note IH = "1.IH"(1) [OF best [symmetric] refl refl refl big True this]
      then show ?thesis by (metis drop_Suc)
    next
      case short: False
      show ?thesis
      proof (cases "truthy_block ab0 \<and> estimate_chat_input_tokens lt ?block trimmed ab1 n \<le> mx")
        case True
        then have "ctx = c" "tr = trimmed" "jt = (jt0 \<or> jt1)" "ab = ab1" using step big short by simp_all
        then show ?thesis using True short cj by (auto intro: exI [of _ 0])
      next
        case cut: False
        show ?thesis
        proof (cases "trimmed = []")
          case True
          have "ctx = trim_json_raw lt raw 1" "tr = []" "jt" "ab = ab1"
            using step True unfolding if_not_P [OF big] if_not_P [OF short] if_not_P [OF cut] by simp_all
          then show ?thesis using none [OF cut] by (auto intro: exI [of _ 1])
        next
          case False
          then have "fit_loop lt raw mx n [] (jt0 \<or> jt1) ab1 at1 = (ctx, tr, jt, ab, atr)"
            using step unfolding if_not_P [OF big] if_not_P [OF short] if_not_P [OF cut] by simp
          note IH = "1.IH"(2) [OF best [symmetric] refl refl refl big short refl tried [symmetric] refl cut False this]
          then show ?thesis by (auto intro: exI [of _ "length trimmed"])
        qed
      qed
    qed
  qed
qed

text \<open>C31: What is sent fits the token budget, unless nothing is left to cut: then the conversation and the attached text
  are gone and the JSON is cut to one character. The messages sent are the last ones, the JSON is whole or a marked
  prefix of it and never reported whole when it is cut, and attachments are only cut once a single message is left.\<close>
lemma payload_fits_or_everything_is_cut:
  assumes "fit_chat_payload_to_token_budget lt max_tokens payload messages attachment_block image_count = (ctx, trimmed, jt, ab, atr)"
  defines "raw \<equiv> json_dumps lt (JObj payload)"
  shows "(estimate_chat_input_tokens lt (merged_context_user_block lt ctx) trimmed ab image_count \<le> max_tokens
      \<or> trimmed = [] \<and> \<not> truthy_block ab \<and> ctx = trim_json_raw lt raw 1)
    \<and> (\<exists>k. trimmed = drop k (last_n max_chat_messages messages)) \<and> (\<exists>k\<ge>1. ctx = trim_json_raw lt raw k) \<and> (ctx = raw \<or> jt)
    \<and> (length trimmed \<le> 1 \<or> ab = attachment_block \<and> \<not> atr)"
  using fit_loop_result [OF assms(1) [unfolded fit_chat_payload_to_token_budget_def]] unfolding raw_def by fastforce

definition plain_texts :: llm_texts where
  "plain_texts = \<lparr>system_prompt = [], context_intro = [], json_suffix = ''...'', attachment_suffix = ''...'', attachment_header = [],
     truncated_note = [], attachment_heading = [], token_count = length, json_dumps = (\<lambda>_. ''{123456789}''), datetime_json = (\<lambda>_. [])\<rparr>"

definition sample_messages :: "chat_message list" where
  "sample_messages = [\<lparr>cm_role = ''user'', cm_content = replicate 30 (CHR ''a'')\<rparr>, \<lparr>cm_role = ''user'', cm_content = ''b''\<rparr>]"

lemma payload_fits_or_everything_is_cut_witness:
  "\<exists>ctx trimmed jt ab atr.
     fit_chat_payload_to_token_budget plain_texts 30 [] sample_messages (Some ''attached'') 0 = (ctx, trimmed, jt, ab, atr)
     \<and> (ctx = ''{123456789}'' \<or> jt)"
proof -
  obtain ctx trimmed jt ab atr where r:
      "fit_chat_payload_to_token_budget plain_texts 30 [] sample_messages (Some ''attached'') 0 = (ctx, trimmed, jt, ab, atr)"
    by (metis prod_cases5)
  have "json_dumps plain_texts (JObj []) = ''{123456789}''" by (simp add: plain_texts_def)
  then show ?thesis using payload_fits_or_everything_is_cut [OF r] r by auto
qed

text \<open>If a shorter cut never has more tokens than a longer one, the JSON sent is the longest cut that fits, as a linear
  search from the longest would find it; when no cut fits, one character of it is sent.\<close>
lemma longest_fitting_json:
  fixes lt trimmed attachment_block image_count max_tokens raw
  defines "fits \<equiv> \<lambda>ctx. estimate_chat_input_tokens lt (merged_context_user_block lt ctx) trimmed attachment_block image_count \<le> max_tokens"
  assumes "\<And>m n. 1 \<le> m \<Longrightarrow> m \<le> n \<Longrightarrow> n < length raw \<Longrightarrow> fits (trim_json_raw lt raw n) \<Longrightarrow> fits (trim_json_raw lt raw m)"
    and "2 \<le> length raw"
  shows "best_json_string_for_budget lt raw trimmed max_tokens attachment_block image_count =
    (if fits raw then (raw, False)
     else (case filter (\<lambda>n. fits (trim_json_raw lt raw n)) (rev [1 ..< length raw]) of
             [] \<Rightarrow> (trim_json_raw lt raw 1, True) | n # _ \<Rightarrow> (trim_json_raw lt raw n, True)))"
proof -
  have hi: "max 1 (length raw - 1) = length raw - 1" "length raw - 1 + 1 = length raw" using assms(3) by auto
  have "search_longest (trim_json_raw lt raw) fits 1 (length raw - 1) None =
    (case filter (\<lambda>n. fits (trim_json_raw lt raw n)) (rev [1 ..< length raw - 1 + 1]) of [] \<Rightarrow> None | n # _ \<Rightarrow> Some (trim_json_raw lt raw n))"
    by (rule search_longest_spec) (use assms(2,3) in auto)
  then show ?thesis unfolding hi best_json_string_for_budget_def fits_def [symmetric] by (auto simp: Let_def split: list.splits)
qed

lemma longest_fitting_json_witness:
  "best_json_string_for_budget plain_texts ''{123456789}'' [] 29 None 0 = (''{12345...'', True)"
proof -
  let ?fits = "\<lambda>ctx. estimate_chat_input_tokens plain_texts (merged_context_user_block plain_texts ctx) [] None 0 \<le> 29"
  have tok: "?fits ctx \<longleftrightarrow> length ctx \<le> 9" for ctx
    by (simp add: estimate_chat_input_tokens_def merged_context_user_block_def plain_texts_def truthy_block_def estimate_image_tokens_def)
  have suffix: "json_suffix plain_texts = ''...''" by (simp add: plain_texts_def)
  have "best_json_string_for_budget plain_texts ''{123456789}'' [] 29 None 0 =
    (if ?fits ''{123456789}'' then (''{123456789}'', False)
     else (case filter (\<lambda>n. ?fits (trim_json_raw plain_texts ''{123456789}'' n)) (rev [1 ..< length ''{123456789}'']) of
             [] \<Rightarrow> (trim_json_raw plain_texts ''{123456789}'' 1, True) | n # _ \<Rightarrow> (trim_json_raw plain_texts ''{123456789}'' n, True)))"
    by (rule longest_fitting_json) (auto simp: tok trim_json_raw_def suffix)
  also have "\<dots> = (''{12345...'', True)" unfolding tok by code_simp
  finally show ?thesis .
qed

text \<open>The report that the JSON was cut stays set when dropping old messages makes room for all of it: the whole JSON
  is sent and reported as cut.\<close>
lemma whole_json_reported_as_cut:
  "fit_chat_payload_to_token_budget plain_texts 40 [] sample_messages None 0
     = (json_dumps plain_texts (JObj []), tl sample_messages, True, None, False)"
  by code_simp

subsection \<open>Anonymised conversations\<close>

definition entry_hidden :: "llm_texts \<Rightarrow> anonymizer \<Rightarrow> timeline_entry \<Rightarrow> json \<Rightarrow> bool" where
  "entry_hidden lt a e j \<longleftrightarrow>
     (case te_metric_host e of None \<Rightarrow> j = entry_json lt e
      | Some (host, i, k) \<Rightarrow> \<exists>tok. known a host tok \<and> j = entry_json lt (e\<lparr>te_title := take i (te_title e) @ tok @ drop k (te_title e)\<rparr>))"

definition column_hidden :: "llm_texts \<Rightarrow> anonymizer \<Rightarrow> timeline_column \<Rightarrow> json \<Rightarrow> bool" where
  "column_hidden lt a c j \<longleftrightarrow> (\<exists>its visible. j = column_json lt c its visible
     \<and> list_all2 (entry_hidden lt a) (tc_items c) its \<and> list_all2 (entry_hidden lt a) (tc_visible_items c) visible)"

lemma thread_ok:
  assumes "thread f xs a = (a', ys)"
    and "\<And>x s s' y. x \<in> set xs \<Longrightarrow> f x s = (s', y) \<Longrightarrow> issues s s' \<and> (\<forall>b. extends s' b \<longrightarrow> P b x y)"
  shows "issues a a' \<and> (\<forall>b. extends a' b \<longrightarrow> list_all2 (P b) xs ys)"
  using assms
proof (induction xs arbitrary: a ys)
  case Nil
  then show ?case by (auto intro: issues.intros)
next
  case (Cons x xs)
  obtain a1 y ys1 where one: "f x a = (a1, y)" "thread f xs a1 = (a', ys1)" "ys = y # ys1"
    using Cons.prems(1) by (auto split: prod.splits)
  have IH: "issues a1 a' \<and> (\<forall>b. extends a' b \<longrightarrow> list_all2 (P b) xs ys1)"
    using Cons.IH [OF one(2)] Cons.prems(2) by auto
  have x: "issues a a1 \<and> (\<forall>b. extends a1 b \<longrightarrow> P b x y)" using Cons.prems(2) [OF _ one(1)] by simp
  show ?case using IH x extends_trans [OF issues_extends] by (auto simp: one(3) intro: issues_trans)
qed

lemma anonymize_entry_ok:
  assumes "anonymize_entry lt e a = (a', j)" "\<forall>host i k. te_metric_host e = Some (host, i, k) \<longrightarrow> host \<noteq> []"
  shows "issues a a' \<and> (\<forall>b. extends a' b \<longrightarrow> entry_hidden lt b e j)"
proof (cases "te_metric_host e")
  case None
  then show ?thesis using assms(1) by (auto simp: anonymize_entry_def entry_hidden_def intro: issues.intros)
next
  case (Some h)
  obtain host i k where h: "te_metric_host e = Some (host, i, k)" using Some by (cases h) auto
  obtain tok where tok: "token_for ''entity'' host a = (a', tok)"
      "j = entry_json lt (e\<lparr>te_title := take i (te_title e) @ tok @ drop k (te_title e)\<rparr>)"
    using assms(1) by (auto simp: anonymize_entry_def h split: prod.splits)
  have "issues a a'" by (rule issues_one [OF _ tok(1)]) (simp add: categories_def)
  moreover have "known a' host tok" using token_for_known(2) [OF tok(1)] assms(2) h by (auto simp: known_def)
  ultimately show ?thesis using known_extends by (fastforce simp: entry_hidden_def h tok(2))
qed

lemma anonymize_column_ok:
  assumes "anonymize_column lt c a = (a', j)" "[] \<notin> set (timeline_hosts [c])"
  shows "issues a a' \<and> (\<forall>b. extends a' b \<longrightarrow> column_hidden lt b c j)"
proof -
  obtain a1 its visible where one: "thread (anonymize_entry lt) (tc_items c) a = (a1, its)"
      "thread (anonymize_entry lt) (tc_visible_items c) a1 = (a', visible)" "j = column_json lt c its visible"
    using assms(1) by (auto simp: anonymize_column_def split: prod.splits)
  have host: "\<forall>host i k. te_metric_host e = Some (host, i, k) \<longrightarrow> host \<noteq> []" if "e \<in> set (tc_items c) \<union> set (tc_visible_items c)" for e
    using that assms(2) by (fastforce simp: timeline_hosts_def)
  have its: "issues a a1 \<and> (\<forall>b. extends a1 b \<longrightarrow> list_all2 (entry_hidden lt b) (tc_items c) its)"
    by (rule thread_ok [OF one(1)]) (use host in \<open>auto dest!: anonymize_entry_ok\<close>)
  have vis: "issues a1 a' \<and> (\<forall>b. extends a' b \<longrightarrow> list_all2 (entry_hidden lt b) (tc_visible_items c) visible)"
    by (rule thread_ok [OF one(2)]) (use host in \<open>auto dest!: anonymize_entry_ok\<close>)
  have "column_hidden lt b c j" if "extends a' b" for b
    unfolding column_hidden_def one(3)
    using its vis that extends_trans [OF issues_extends [OF conjunct1 [OF vis]] that] by blast
  then show ?thesis using issues_trans [OF conjunct1 [OF vis] conjunct1 [OF its]] by blast
qed

definition hosts_of :: "timeline_column list option \<Rightarrow> string list" where
  "hosts_of timeline = (case timeline of None \<Rightarrow> [] | Some cols \<Rightarrow> timeline_hosts cols)"

definition names_of :: "(string \<times> json) list \<Rightarrow> string list \<Rightarrow> timeline_column list option \<Rightarrow> string set" where
  \<comment> \<open>the names in the fields of the payload, the registered vCenters and the hosts of the timeline\<close>
  "names_of payload extra timeline = (set (field_names payload) \<union> set extra \<union> set (hosts_of timeline)) - {[]}"

lemma chat_pairs_ok:
  assumes "[] \<notin> set (hosts_of timeline)"
  shows "\<forall>(cat, name)\<in>set (chat_pairs payload timeline extra). cat \<in> categories \<and> name \<noteq> []"
    "snd ` set (chat_pairs payload timeline extra) = names_of payload extra timeline"
proof -
  have cats: "''entity'' \<in> categories" "''vcenter'' \<in> categories" by (simp_all add: categories_def)
  show "\<forall>(cat, name)\<in>set (chat_pairs payload timeline extra). cat \<in> categories \<and> name \<noteq> []"
    using collected_pairs(1) [of "JObj payload"] assms cats
    by (auto simp: chat_pairs_def extra_vcenter_pairs_def hosts_of_def split: option.splits)
  show "snd ` set (chat_pairs payload timeline extra) = names_of payload extra timeline"
    using collected_names(1) [of "JObj payload"] assms
    by (auto simp: chat_pairs_def extra_vcenter_pairs_def hosts_of_def names_of_def image_Un image_image split: option.splits)
qed

lemma anonymize_chat_ok:
  assumes "anonymize_chat_for_llm lt payload contents extra attachments timeline = (a, payload', contents', attachments')"
    and hosts: "[] \<notin> set (hosts_of timeline)"
  defines "names \<equiv> names_of payload extra timeline"
  obtains p js where
    "tokens_ok a" "short_candidates (chat_pairs payload timeline extra) = [] \<longrightarrow> faithful a"
    "list_all2 (redacts names a) (field_messages payload) (field_messages p)"
    "list_all2 (tokenised a) (field_names payload) (field_names p)" "field_outlines p = field_outlines payload"
    "list_all2 (column_hidden lt a) (case timeline of None \<Rightarrow> [] | Some cols \<Rightarrow> cols) js"
    "payload' = (case timeline of None \<Rightarrow> p | Some _ \<Rightarrow> AList.update ''incident_timeline'' (JObj [(''columns'', JList js)]) p)"
    "list_all2 (redacts names a) contents contents'" "list_all2 (redacts names a) attachments attachments'"
proof -
  define a0 where "a0 = anonymizer_for (chat_pairs payload timeline extra)"
  obtain a1 p where p: "anonymize_fields payload a0 = (a1, p)" by fastforce
  obtain a2 js where js: "thread (anonymize_column lt) (case timeline of None \<Rightarrow> [] | Some cols \<Rightarrow> cols) a1 = (a2, js)" by fastforce
  obtain a3 where c: "anonymize_texts contents a2 = (a3, contents')" and att: "anonymize_texts attachments a3 = (a, attachments')"
    and pl: "payload' = (case timeline of None \<Rightarrow> p | Some _ \<Rightarrow> AList.update ''incident_timeline'' (JObj [(''columns'', JList js)]) p)"
    using assms(1) js by (auto simp: anonymize_chat_for_llm_def p Let_def simp flip: a0_def split: option.splits prod.splits)
  note pairs = chat_pairs_ok [OF hosts, of payload extra]
  have a0: "tokens_ok a0" "short_candidates (chat_pairs payload timeline extra) = [] \<longrightarrow> faithful a0" "names \<subseteq> registered a0"
    using anonymizer_for_ok [OF pairs(1)] pairs(2) by (simp_all add: a0_def names_def)
  have i1: "issues a0 a1" by (rule node_issues(2) [OF p])
  have cols: "[] \<notin> set (timeline_hosts [c])" if "c \<in> set (case timeline of None \<Rightarrow> [] | Some cols \<Rightarrow> cols)" for c
    using hosts that by (auto simp: hosts_of_def timeline_hosts_def split: option.splits)
  have i2: "issues a1 a2 \<and> (\<forall>b. extends a2 b \<longrightarrow> list_all2 (column_hidden lt b) (case timeline of None \<Rightarrow> [] | Some cols \<Rightarrow> cols) js)"
    by (rule thread_ok [OF js]) (use cols anonymize_column_ok in blast)
  have i3: "issues a2 a3" "issues a3 a" by (rule texts_issues [OF c], rule texts_issues [OF att])
  have i: "issues a0 a" "issues a1 a" "issues a2 a" using i1 i2 i3 issues_trans by blast+
  have known: "\<forall>name\<in>names. \<exists>tok. known b name tok" if "issues a0 b" for b
    using a0(3) registered_extends [OF issues_extends [OF that]] registered_known by blast
  have ok: "tokens_ok a \<and> (short_candidates (chat_pairs payload timeline extra) = [] \<longrightarrow> faithful a)"
    using issues_ok [OF i(1) a0(1)] a0(2) by blast
  note node = anonymize_node_ok(2) [OF p known [OF issues.intros(1)]]
  have 1: "list_all2 (redacts names a) (field_messages payload) (field_messages p)"
      "list_all2 (tokenised a) (field_names payload) (field_names p)" "field_outlines p = field_outlines payload"
    using node list_all2_extends issues_extends [OF i(2)] by blast+
  have 2: "list_all2 (column_hidden lt a) (case timeline of None \<Rightarrow> [] | Some cols \<Rightarrow> cols) js"
    using i2 issues_extends [OF i(3)] by blast
  have 3: "list_all2 (redacts names a) contents contents'"
    using texts_redacted [OF c known] i1 i2 issues_trans list_all2_extends(1) issues_extends [OF i3(2)] by blast
  have 4: "list_all2 (redacts names a) attachments attachments'"
    using texts_redacted [OF att known] i1 i2 i3 issues_trans by blast
  show thesis by (rule that [OF conjunct1 [OF ok] conjunct2 [OF ok] 1 2 pl 3 4])
qed


definition sample_payload :: "(string \<times> json) list" where
  "sample_payload = [(''entity_name'', JStr ''esx1''), (''message'', JStr ''esx1 at 10.0.0.1 lost esx12'')]"


text \<open>C12: An answer gets its names back: where no short host name shares the token of a full one and the conversation and the
  attachments do not contain \<open>LM_\<close>, reversing the anonymisation restores each of them exactly.\<close>
lemma anonymised_conversation_is_restored:
  assumes "anonymize_chat_for_llm lt payload contents extra attachments timeline = (a, payload', contents', attachments')"
    and "[] \<notin> set (hosts_of timeline)" and "short_candidates (chat_pairs payload timeline extra) = []"
    and "list_all (\<lambda>t. \<not> contains t ''LM_'') (contents @ attachments)"
  shows "map (\<lambda>t. deanonymize_text t (reverse_tokens a)) contents' = contents
    \<and> map (\<lambda>t. deanonymize_text t (reverse_tokens a)) attachments' = attachments"
proof -
  have restores: "map (\<lambda>t. deanonymize_text t (reverse_tokens a)) outs = ts"
    if "tokens_ok a" "faithful a" "list_all2 (redacts names a) ts outs" "list_all (\<lambda>t. \<not> contains t ''LM_'') ts" for names ts outs
    using that(3,4) by (induction rule: list_all2_induct) (auto intro: restored [OF that(1,2)])
  show ?thesis
    using assms(3,4) by (rule_tac anonymize_chat_ok [OF assms(1,2)]) (auto intro!: restores)
qed

lemma anonymised_conversation_is_restored_witness:
  "case anonymize_chat_for_llm plain_texts sample_payload [''is esx1 ok?''] [''vc''] [''10.0.0.1''] None of
     (a, payload', contents', attachments') \<Rightarrow> map (\<lambda>t. deanonymize_text t (reverse_tokens a)) contents' = [''is esx1 ok?'']"
proof -
  obtain a payload' contents' attachments' where r:
      "anonymize_chat_for_llm plain_texts sample_payload [''is esx1 ok?''] [''vc''] [''10.0.0.1''] None = (a, payload', contents', attachments')"
    by (metis prod_cases4)
  have "[] \<notin> set (hosts_of None)" by (simp add: hosts_of_def)
  moreover have "short_candidates (chat_pairs sample_payload None [''vc'']) = []" by code_simp
  moreover have "list_all (\<lambda>t. \<not> contains t ''LM_'') ([''is esx1 ok?''] @ [''10.0.0.1''])" by code_simp
  ultimately show ?thesis using anonymised_conversation_is_restored [OF r] unfolding r by simp
qed

end
