(* ===== verification/ChatContext.thy ===== *)
theory ChatContext
  imports ChatTimeline Limiters
begin

section \<open>Building the context of a conversation (services/chat/chat\_context\_payloads.py)\<close>

text \<open>
  The routes for the conversation, its preview and the timeline share one function: it aligns the
  period to whole seconds, refuses an empty one, takes a slot of the aggregation limiter, aggregates
  and always gives the slot back. The digest of the period and the aggregated metrics are arguments.
\<close>

record context_request =
  cr_from :: pydt
  cr_to :: pydt
  cr_vcenter :: "uuid option"
  cr_alert_top_n :: "nat option"
  cr_toggles :: metric_toggles
  cr_thresholds :: metric_thresholds

datatype context_error = BadPeriod400 | Busy503 | TooManyRows422 | Aggregation aggregation_error

record digest_parts =
  dp_groups :: "notable_group list"
  dp_high_cpu :: "high_host_row list"
  dp_high_mem :: "high_host_row list"

definition bucket_function_parameters :: "string list" where
  \<comment> \<open>\<open>inspect.signature(build_chat_event_time_buckets).parameters\<close>\<close>
  "bucket_function_parameters = [''session'', ''from_utc'', ''to_utc'', ''vcenter_id'', ''bucket_sec'', ''max_types_per_bucket'',
     ''alert_top_n_per_bucket'', ''max_rows'']"

definition requested_alert_top_n :: "context_request \<Rightarrow> nat" where
  \<comment> \<open>the keyword argument is only passed on when the function has a parameter of that name; its own default is 3\<close>
  "requested_alert_top_n body =
     (if ''alert_top_n'' \<in> set bucket_function_parameters
      then (case cr_alert_top_n body of None \<Rightarrow> 3 | Some n \<Rightarrow> n) else 3)"

definition want_metrics :: "context_request \<Rightarrow> bool" where
  "want_metrics body = (let t = cr_toggles body in include_cpu t \<or> include_memory t \<or> include_disk_io t \<or> include_network_io t)"

definition keep_selected :: "metric_toggles \<Rightarrow> period_metrics \<Rightarrow> period_metrics" where
  "keep_selected t m = m\<lparr>pm_cpu := (if include_cpu t then pm_cpu m else None), pm_memory := (if include_memory t then pm_memory m else None),
     pm_disk := (if include_disk_io t then pm_disk m else None), pm_network := (if include_network_io t then pm_network m else None)\<rparr>"

record context_payloads =
  cp_period_metrics :: "period_metrics option"
  cp_event_time_buckets :: "buckets_payload option"
  cp_incident_timeline :: "timeline_column list"

definition build_context_payloads_in_slot ::
    "timeline_texts \<Rightarrow> event_row list \<Rightarrow> digest_parts \<Rightarrow> (int \<Rightarrow> period_metrics option) \<Rightarrow> context_request \<Rightarrow> pydt \<Rightarrow> pydt \<Rightarrow> nat
     \<Rightarrow> aggregation_error + context_payloads" where
  "build_context_payloads_in_slot texts evs digest period_metrics_for body ft tt max_rows =
     and_then
       (if want_metrics body then
          and_then (compute_chat_bucket_seconds ft tt) (\<lambda>bucket_sec.
            and_then (build_chat_event_time_buckets evs ft tt (cr_vcenter body) bucket_sec 10 (requested_alert_top_n body) (Some max_rows))
              (\<lambda>buckets. Inr (Some bucket_sec, period_metrics_for bucket_sec, Some buckets)))
        else Inr (None, None, None))
       (\<lambda>(bucket_sec, pm, buckets).
          let entries = build_chat_incident_timeline_entries texts (dp_groups digest) (dp_high_cpu digest) (dp_high_mem digest)
                buckets pm (cr_toggles body) (cr_thresholds body);
              given = (want_metrics body \<and> pm \<noteq> None)
          in and_then (build_chat_incident_timeline entries 10 bucket_sec)
            (\<lambda>timeline. Inr \<lparr>cp_period_metrics = (if given then map_option (keep_selected (cr_toggles body)) pm else None),
                cp_event_time_buckets = (if given then buckets else None), cp_incident_timeline = timeline\<rparr>))"

definition context_error_of :: "aggregation_error \<Rightarrow> context_error" where
  "context_error_of e = (if e = AggregationLimitExceeded then TooManyRows422 else Aggregation e)"

definition build_context_payloads ::
    "timeline_texts \<Rightarrow> event_row list \<Rightarrow> digest_parts \<Rightarrow> (int \<Rightarrow> period_metrics option) \<Rightarrow> nat \<Rightarrow> nat \<Rightarrow> nat
     \<Rightarrow> string \<Rightarrow> context_request \<Rightarrow> limiter \<Rightarrow> limiter \<times> (context_error + context_payloads)" where
  \<comment> \<open>\<open>_build_context_payloads_common\<close>, with the limits of the settings; the limiter is the one of the process\<close>
  "build_context_payloads texts evs digest period_metrics_for global_limit per_owner_limit max_rows owner body l =
     (let ft = truncate_to_second (cr_from body); tt = truncate_to_second (cr_to body)
      in if instant_of tt \<le> instant_of ft then (l, Inl BadPeriod400)
         else (case try_acquire global_limit per_owner_limit owner l of
             (False, l') \<Rightarrow> (l', Inl Busy503)
           | (True, l') \<Rightarrow> (release owner l',
               map_error context_error_of (build_context_payloads_in_slot texts evs digest period_metrics_for body ft tt max_rows))))"

text \<open>The number of alert types a request asks for has no effect: the argument is passed on under a name the function
  does not have, so three are listed whatever was requested.\<close>
lemma requested_alert_types_are_ignored:
  "build_context_payloads texts evs digest pmf gl pl mx owner (body\<lparr>cr_alert_top_n := n\<rparr>) l
     = build_context_payloads texts evs digest pmf gl pl mx owner body l
   \<and> requested_alert_top_n (body\<lparr>cr_alert_top_n := Some 7\<rparr>) = 3"
proof -
  have "''alert_top_n'' \<notin> set bucket_function_parameters" by code_simp
  then have three: "requested_alert_top_n b = 3" for b by (simp add: requested_alert_top_n_def)
  moreover have "want_metrics (body\<lparr>cr_alert_top_n := n\<rparr>) = want_metrics body" by (simp add: want_metrics_def)
  moreover have "cr_toggles (body\<lparr>cr_alert_top_n := n\<rparr>) = cr_toggles body" "cr_thresholds (body\<lparr>cr_alert_top_n := n\<rparr>) = cr_thresholds body"
    "cr_vcenter (body\<lparr>cr_alert_top_n := n\<rparr>) = cr_vcenter body" by simp_all
  ultimately have "build_context_payloads_in_slot texts evs digest pmf (body\<lparr>cr_alert_top_n := n\<rparr>) ft tt mx
      = build_context_payloads_in_slot texts evs digest pmf body ft tt mx" for ft tt
    by (simp only: build_context_payloads_in_slot_def)
  with three show ?thesis by (simp add: build_context_payloads_def Let_def split: prod.splits bool.splits)
qed

text \<open>Whatever happens during the aggregation, errors included, the slot a request took is given back, to its owner and to
  the total; a request that got none leaves the limiter alone, and is refused exactly when a limit is reached.\<close>
lemma aggregation_slot_is_given_back:
  assumes "build_context_payloads texts evs digest pmf global_limit per_owner_limit mx owner body l = (l', result)"
  shows "lim_total l' = lim_total l \<and> owned l' ow = owned l ow
    \<and> (result = Inl Busy503 \<longleftrightarrow> instant_of (truncate_to_second (cr_from body)) < instant_of (truncate_to_second (cr_to body))
        \<and> (global_limit \<le> lim_total l \<or> per_owner_limit \<le> owned l owner))"
proof -
  let ?acq = "try_acquire global_limit per_owner_limit owner l"
  have busy: "fst ?acq \<longleftrightarrow> \<not> (global_limit \<le> lim_total l \<or> per_owner_limit \<le> owned l owner)"
    by (simp add: try_acquire_def owned_def Let_def)
  have no_busy: "map_error context_error_of r \<noteq> Inl Busy503" for r :: "aggregation_error + context_payloads"
    by (cases r) (simp_all add: map_error_def context_error_of_def)
  have returned: "fst ?acq \<Longrightarrow> lim_total (release owner (snd ?acq)) = lim_total l" "fst ?acq \<Longrightarrow> owned (release owner (snd ?acq)) ow = owned l ow"
    using total.round_trip per_owner.round_trip by blast+
  show ?thesis
  proof (cases "instant_of (truncate_to_second (cr_to body)) \<le> instant_of (truncate_to_second (cr_from body))")
    case True
    then show ?thesis using assms by (auto simp: build_context_payloads_def)
  next
    case False
    then show ?thesis using assms returned busy no_busy total.refused [of global_limit per_owner_limit owner l]
      by (cases ?acq) (auto simp: build_context_payloads_def split: bool.splits)
  qed
qed

lemma aggregation_slot_is_given_back_witness:
  "\<exists>texts digest body l' result.
     build_context_payloads texts [] digest (\<lambda>_. None) 2 1 5 ''u'' body \<lparr>lim_total = 1, lim_by_owner = [(''u'', 1)]\<rparr> = (l', result)
     \<and> lim_total l' = 1"
proof -
  define body where "body = \<lparr>cr_from = utc 0, cr_to = utc (seconds 60), cr_vcenter = None, cr_alert_top_n = None,
    cr_toggles = \<lparr>include_cpu = False, include_memory = False, include_disk_io = False, include_network_io = False\<rparr>,
    cr_thresholds = \<lparr>th_cpu = None, th_memory = None, th_disk = None, th_network = None\<rparr>\<rparr>"
  obtain texts :: timeline_texts and digest :: digest_parts where True by blast
  obtain l' result where r: "build_context_payloads texts [] digest (\<lambda>_. None) 2 1 5 ''u'' body
      \<lparr>lim_total = 1, lim_by_owner = [(''u'', 1)]\<rparr> = (l', result)" by fastforce
  from aggregation_slot_is_given_back [OF r, of "''u''"] r show ?thesis by (metis limiter.select_convs(1))
qed

end
