(* ===== verification/LogParser.thy ===== *)
theory LogParser
  imports Pytime
begin

section \<open>Splitting a log into records (packages/remote-log-collector parser.py)\<close>

text \<open>
  A chunk of a log file is a list of bytes (characters below 256) and the position of its first byte.
  A line that starts with a time stamp starts a record; the lines below it that do not belong to it, up to
  the next stamp; a line outside a record is a record of its own. Unless the chunk is the end of a file,
  an unfinished line and the record that may still grow are left for the next pass. Decoding of UTF-8 is a
  parameter.
\<close>

fun split_lines :: "string \<Rightarrow> string list" where
  \<comment> \<open>\<open>bytes.splitlines(keepends=True)\<close>\<close>
  "split_lines [] = []"
| "split_lines (c # s) =
     (if code c = 10 then [c] # split_lines s
      else if code c = 13 \<and> (s = [] \<or> code (hd s) \<noteq> 10) then [c] # split_lines s
      else (case split_lines s of [] \<Rightarrow> [[c]] | l # ls \<Rightarrow> (c # l) # ls))"

definition ends_line :: "string \<Rightarrow> bool" where
  \<comment> \<open>\<open>line.endswith(b"\\n")\<close>\<close>
  "ends_line l = (l \<noteq> [] \<and> code (last l) = 10)"

subsection \<open>Time stamps\<close>

definition stamp_base :: "string \<Rightarrow> bool" where
  \<comment> \<open>the mandatory part of \<open>STAMP\<close>: date, separator and time\<close>
  "stamp_base s =
     (19 \<le> length s \<and> list_all (\<lambda>i. is_decimal_char (s ! i)) [0, 1, 2, 3, 5, 6, 8, 9, 11, 12, 14, 15, 17, 18]
      \<and> s ! 4 = CHR ''-'' \<and> s ! 7 = CHR ''-'' \<and> (s ! 10 = CHR ''T'' \<or> s ! 10 = CHR '' '') \<and> s ! 13 = CHR '':'' \<and> s ! 16 = CHR '':'')"

definition stamp_fraction :: "string \<Rightarrow> string" where
  \<comment> \<open>the digits of the optional fraction after the mandatory part\<close>
  "stamp_fraction s = (if startswith (drop 19 s) ''.'' then takeWhile is_decimal_char (drop 20 s) else [])"

datatype zone = No_zone | Offset int int int \<comment> \<open>sign, hours and minutes\<close>

definition stamp_zone :: "string \<Rightarrow> zone" where
  "stamp_zone s =
     (let f = stamp_fraction s; r = drop (19 + (if f = [] then 0 else 1 + length f)) s
      in if startswith r ''Z'' then Offset 1 0 0
         else if 6 \<le> length r \<and> (hd r = CHR ''+'' \<or> hd r = CHR ''-'') \<and> list_all (\<lambda>i. is_decimal_char (r ! i)) [1, 2, 4, 5] \<and> r ! 3 = CHR '':''
         then Offset (if hd r = CHR ''-'' then - 1 else 1) (decimal_value (take 2 (drop 1 r))) (decimal_value (take 2 (drop 4 r)))
         else No_zone)"

datatype stamp_error = DateOverflow

definition timestamp :: "string \<Rightarrow> stamp_error + instant option" where
  \<comment> \<open>\<open>fromisoformat\<close> of the match, then \<open>astimezone(utc)\<close>, which raises \<open>OverflowError\<close> outside the years 1 to 9999\<close>
  "timestamp line =
     (if \<not> stamp_base line then Inr None
      else let num = (\<lambda>i n. decimal_value (take n (drop i line)));
               y = num 0 4; mo = num 5 2; d = num 8 2; h = num 11 2; mi = num 14 2; sec = num 17 2;
               us = decimal_value (take 6 (stamp_fraction line @ replicate 6 (CHR ''0'')))
           in if 1 \<le> y \<and> 1 \<le> mo \<and> mo \<le> 12 \<and> 1 \<le> d \<and> d \<le> month_lengths y ! nat (mo - 1) \<and> h < 24 \<and> mi < 60 \<and> sec < 60
              then (case stamp_zone line of
                      No_zone \<Rightarrow> Inr None
                    | Offset sign zh zm \<Rightarrow>
                        if 1440 \<le> zh * 60 + zm then Inr None
                        else let t = day_number y mo d * us_per_day + ((h * 60 + mi) * 60 + sec) * us_per_second + us - minutes (sign * (zh * 60 + zm))
                             in if 0 \<le> t \<and> t < 3652059 * us_per_day then Inr (Some t) else Inl DateOverflow)
              else Inr None)"

subsection \<open>Levels\<close>

definition LEVELS :: "string list" where
  "LEVELS = [''panic'', ''critical'', ''error'', ''warning'', ''warn'', ''info'', ''debug'', ''verbose'']"

definition is_word_char :: "char \<Rightarrow> bool" where
  \<comment> \<open>\<open>\\w\<close>: letters, digits and the underscore, of Latin-1\<close>
  "is_word_char c =
     (let n = code c
      in 48 \<le> n \<and> n \<le> 57 \<or> 65 \<le> n \<and> n \<le> 90 \<or> 97 \<le> n \<and> n \<le> 122 \<or> n = 95 \<or> n = 170 \<or> n = 178 \<or> n = 179 \<or> n = 181
         \<or> n = 185 \<or> n = 186 \<or> 188 \<le> n \<and> n \<le> 190 \<or> 192 \<le> n \<and> n \<noteq> 215 \<and> n \<noteq> 247)"

fun level_search :: "bool \<Rightarrow> string \<Rightarrow> string option" where
  \<comment> \<open>\<open>LEVEL.search\<close>, in lower case; whether the character before is part of a word\<close>
  "level_search in_word [] = None"
| "level_search in_word (c # s) =
     (let hit = (if in_word then None
                 else find (\<lambda>w. py_lower (take (length w) (c # s)) = w
                        \<and> (drop (length w) (c # s) = [] \<or> \<not> is_word_char (hd (drop (length w) (c # s))))) LEVELS)
      in case hit of Some w \<Rightarrow> Some w | None \<Rightarrow> level_search (is_word_char c) s)"

definition record_level :: "string \<Rightarrow> string option" where
  "record_level t =
     (case level_search False (takeWhile (\<lambda>c. code c \<noteq> 10) t) of
        Some w \<Rightarrow> Some (if w = ''warn'' then ''warning'' else w) | None \<Rightarrow> None)"

subsection \<open>Records\<close>

type_synonym span = "int \<times> int \<times> string" \<comment> \<open>first byte, end, and the bytes\<close>

fun span_loop :: "string list \<Rightarrow> string list \<Rightarrow> int \<Rightarrow> int \<Rightarrow> bool \<Rightarrow> span list" where
  \<comment> \<open>the loop of \<open>records\<close>: the lines, \<open>pending\<close>, \<open>begin\<close> and \<open>position\<close>\<close>
  "span_loop [] pending first position eof = (if pending \<noteq> [] \<and> eof then [(first, position, concat pending)] else [])"
| "span_loop (line # lines) pending first position eof =
     (let starts_record = stamp_base line;
          flushed = pending \<noteq> [] \<and> starts_record;
          out = (if flushed then [(first, position, concat pending)] else []);
          pending = (if flushed then [] else pending);
          first = (if pending = [] then position else first);
          pending = pending @ [line];
          position = position + int (length line)
      in if length pending = 1 \<and> \<not> starts_record
         then out @ (first, position, concat pending) # span_loop lines [] first position eof
         else out @ span_loop lines pending first position eof)"

definition complete_lines :: "string \<Rightarrow> bool \<Rightarrow> string list" where
  "complete_lines data eof =
     (let lines = split_lines data
      in if lines \<noteq> [] \<and> \<not> ends_line (last lines) \<and> \<not> eof then butlast lines else lines)"

definition spans :: "string \<Rightarrow> int \<Rightarrow> bool \<Rightarrow> span list" where
  \<comment> \<open>what \<open>records\<close> yields, before each is turned into a record\<close>
  "spans data start eof = span_loop (complete_lines data eof) [] start start eof"

record log_record =
  lp_begin :: int
  lp_end :: int
  lp_text :: string
  lp_time :: "instant option"
  lp_level :: "string option"

definition record_of :: "(string \<Rightarrow> string) \<Rightarrow> span \<Rightarrow> stamp_error + log_record" where
  \<comment> \<open>\<open>_record\<close>; \<open>decode\<close> is \<open>raw.decode("utf-8", errors="replace")\<close>\<close>
  "record_of decode s =
     (case s of (b, e, raw) \<Rightarrow>
        (let t = rstrip_by (\<lambda>c. code c = 13 \<or> code c = 10) (decode raw)
         in and_then (timestamp raw) (\<lambda>time. Inr \<lparr>lp_begin = b, lp_end = e, lp_text = t, lp_time = time, lp_level = record_level t\<rparr>)))"

definition records :: "(string \<Rightarrow> string) \<Rightarrow> string \<Rightarrow> int \<Rightarrow> bool \<Rightarrow> stamp_error + log_record list" where
  "records decode data start eof = traverse (record_of decode) (spans data start eof)"

subsection \<open>The loop and a definition by cases\<close>

function span_list :: "string list \<Rightarrow> int \<Rightarrow> bool \<Rightarrow> span list" where
  "span_list [] start eof = []"
| "span_list (line # lines) start eof =
     (let body = (if stamp_base line then takeWhile (\<lambda>l. \<not> stamp_base l) lines else []);
          rest = drop (length body) lines; raw = line @ concat body; e = start + int (length raw)
      in if stamp_base line \<and> rest = [] \<and> \<not> eof then [] else (start, e, raw) # span_list rest e eof)"
  by pat_completeness auto
termination by (relation "measure (\<lambda>(ls, _). length ls)") auto

lemma span_loop_eq: "span_loop ls [] b p eof = span_list ls p eof"
  and span_loop_pending: "pending \<noteq> [] \<Longrightarrow> span_loop ls pending b p eof =
       (let body = takeWhile (\<lambda>l. \<not> stamp_base l) ls; rest = drop (length body) ls; e = p + int (length (concat body))
        in if rest = [] \<and> \<not> eof then [] else (b, e, concat pending @ concat body) # span_list rest e eof)"
proof (induction ls arbitrary: pending b p)
  case Nil
  { case 1 then show ?case by simp }
  { case 2 then show ?case by (simp add: Let_def) }
next
  case (Cons l ls)
  { case 1 show ?case using Cons.IH(1) Cons.IH(2) [of "[l]"]
      by (cases "stamp_base l") (simp_all add: Let_def add_ac) }
  { case 2 then show ?case using Cons.IH(2) [of "[l]"] Cons.IH(2) [of "pending @ [l]"]
      by (cases "stamp_base l") (simp_all add: Let_def add_ac) }
qed

subsection \<open>Lines\<close>

lemma concat_split_lines [simp]: "concat (split_lines s) = s"
  by (induction s) (auto split: list.splits)

lemma split_lines_eq_Nil [simp]: "split_lines s = [] \<longleftrightarrow> s = []"
  by (cases s) (auto split: list.splits)

lemma split_lines_nonempty: "[] \<notin> set (split_lines s)"
  by (induction s) (auto split: list.splits)

lemma split_lines_grow:
  "split_lines s = l # rest \<Longrightarrow> rest \<noteq> [] \<or> ends_line l \<Longrightarrow> split_lines (s @ t) = l # split_lines (concat rest @ t)"
proof (induction s arbitrary: l)
  case Nil then show ?case by simp
next
  case (Cons c s)
  show ?case
  proof (cases "code c = 10 \<or> code c = 13 \<and> (s = [] \<or> code (hd s) \<noteq> 10)")
    case True
    then have l: "l = [c]" "rest = split_lines s" using Cons.prems(1) by auto
    have "code c = 10 \<or> code c = 13 \<and> s \<noteq> [] \<and> code (hd s) \<noteq> 10"
      using True Cons.prems(2) l by (auto simp: ends_line_def)
    then show ?thesis by (auto simp: l)
  next
    case False
    show ?thesis
    proof (cases "split_lines s")
      case Nil then show ?thesis using False Cons.prems by (auto simp: ends_line_def split: if_splits)
    next
      case (Cons l' ls)
      then have l: "l = c # l'" "rest = ls" using False Cons.prems by (auto split: if_splits)
      have s: "s \<noteq> []" "l' \<noteq> []" using local.Cons split_lines_nonempty [of s] by auto
      have "split_lines (s @ t) = l' # split_lines (concat rest @ t)"
        using Cons.prems(2) l s local.Cons by (intro Cons.IH) (auto simp: ends_line_def)
      then show ?thesis using False s l by (cases s) auto
    qed
  qed
qed

lemma split_lines_prefix:
  "split_lines s = L @ M \<Longrightarrow> M \<noteq> [] \<or> L = [] \<or> ends_line (last L) \<Longrightarrow>
   split_lines (s @ t) = L @ split_lines (concat M @ t) \<and> split_lines (concat M) = M"
proof (induction L arbitrary: s)
  case Nil then show ?case using concat_split_lines [of s] by simp
next
  case (Cons l L)
  have g: "split_lines (s @ u) = l # split_lines (concat (L @ M) @ u)" for u
    using Cons.prems by (intro split_lines_grow) (auto split: if_splits)
  have "split_lines (concat (L @ M)) = L @ M" using g [of "[]"] Cons.prems(1) by simp
  then have "split_lines (concat (L @ M) @ t) = L @ split_lines (concat M @ t) \<and> split_lines (concat M) = M"
    using Cons.prems(2) by (intro Cons.IH) (auto split: if_splits)
  then show ?case using g [of t] by simp
qed

definition settled :: "string list \<Rightarrow> string list \<Rightarrow> bool" where
  \<comment> \<open>more data after \<open>L @ M\<close> does not change the lines \<open>L\<close>\<close>
  "settled L M = (M \<noteq> [] \<or> L = [] \<or> ends_line (last L))"

lemma complete_lines_prefix:
  assumes s: "split_lines s = L @ M" and ok: "settled L M"
  shows "complete_lines (s @ t) eof = L @ complete_lines (concat M @ t) eof"
proof -
  have e: "split_lines (s @ t) = L @ split_lines (concat M @ t)"
    using split_lines_prefix [OF s] ok unfolding settled_def by blast
  show ?thesis
  proof (cases "concat M @ t = []")
    case True
    then have "split_lines (concat M) = []" by simp
    then have "M = []" using split_lines_prefix [OF s] ok unfolding settled_def by metis
    then show ?thesis using e True ok by (auto simp: complete_lines_def settled_def)
  next
    case False
    then have "split_lines (concat M @ t) \<noteq> []" by (simp only: split_lines_eq_Nil not_False_eq_True)
    then show ?thesis by (simp add: complete_lines_def e Let_def butlast_append del: split_lines_eq_Nil)
  qed
qed

lemma complete_lines_cases:
  obtains M where "split_lines s = complete_lines s False @ M" "settled (complete_lines s False) M"
proof (cases "split_lines s \<noteq> [] \<and> \<not> ends_line (last (split_lines s))")
  case True
  then show ?thesis using that [of "[last (split_lines s)]"]
    by (simp add: complete_lines_def settled_def Let_def del: split_lines_eq_Nil)
next
  case False then show ?thesis using that [of "[]"] by (auto simp: complete_lines_def settled_def Let_def)
qed

subsection \<open>Chunks\<close>

abbreviation span_bytes :: "span list \<Rightarrow> string" where
  "span_bytes rs \<equiv> concat (map (\<lambda>(b, e, raw). raw) rs)"

lemma dropWhile_stop: "drop (length (takeWhile P xs)) xs = dropWhile P xs"
  by (metis dropWhile_eq_drop)

lemma span_list_grow:
  "\<exists>L1 L2. L = L1 @ L2 \<and> span_bytes (span_list L b False) = concat L1
     \<and> (\<forall>X eof. span_list (L @ X) b eof = span_list L b False @ span_list (L2 @ X) (b + int (length (concat L1))) eof)"
proof (induction L b False rule: span_list.induct)
  case (1 start) show ?case by simp
next
  case (2 line lines start)
  define body where "body = (if stamp_base line then takeWhile (\<lambda>l. \<not> stamp_base l) lines else [])"
  define rest where "rest = drop (length body) lines"
  define e where "e = start + int (length (line @ concat body))"
  show ?case
  proof (cases "stamp_base line \<and> rest = []")
    case True
    then have "stamp_base line" "length lines \<le> length (takeWhile (\<lambda>l. \<not> stamp_base l) lines)"
      unfolding rest_def body_def by (auto split: if_splits)
    then show ?thesis
      by (intro exI [of _ "[]"] exI [of _ "line # lines"]) (simp add: Let_def)
  next
    case False
    have split: "lines = body @ rest" by (auto simp: rest_def body_def dropWhile_stop)
    have grow: "span_list ((line # lines) @ X) start eof = (start, e, line @ concat body) # span_list (rest @ X) e eof" for X eof
    proof -
      have b: "(if stamp_base line then takeWhile (\<lambda>l. \<not> stamp_base l) (lines @ X) else []) = body"
      proof (cases "stamp_base line")
        case True
        then have "dropWhile (\<lambda>l. \<not> stamp_base l) lines \<noteq> []" using False by (simp add: rest_def body_def dropWhile_stop)
        then show ?thesis using True unfolding body_def by (auto simp: takeWhile_append dropWhile_eq_Nil_conv)
      qed (simp add: body_def)
      have d: "drop (length body) (lines @ X) = rest @ X" by (simp add: split)
      have "\<not> (stamp_base line \<and> rest @ X = [] \<and> \<not> eof)" using False by blast
      then show ?thesis unfolding append_Cons span_list.simps Let_def b d by (simp add: e_def)
    qed
    have "\<not> (stamp_base line \<and> rest = [] \<and> \<not> False)" using False by blast
    from 2 [OF body_def rest_def refl e_def this] obtain L1 L2 where IH: "rest = L1 @ L2" "span_bytes (span_list rest e False) = concat L1"
      "\<And>X eof. span_list (rest @ X) e eof = span_list rest e False @ span_list (L2 @ X) (e + int (length (concat L1))) eof"
      by blast
    have g0: "span_list (line # lines) start False = (start, e, line @ concat body) # span_list rest e False"
      using grow [of "[]" False] by (simp del: span_list.simps)
    have p: "start + int (length (concat ((line # body) @ L1))) = e + int (length (concat L1))" by (simp add: e_def)
    show ?thesis
    proof (intro exI conjI allI)
      show "line # lines = ((line # body) @ L1) @ L2" using split IH(1) by simp
      show "span_bytes (span_list (line # lines) start False) = concat ((line # body) @ L1)"
        unfolding g0 using IH(2) by simp
      show "span_list ((line # lines) @ X) start eof = span_list (line # lines) start False
          @ span_list (L2 @ X) (start + int (length (concat ((line # body) @ L1)))) eof" for X eof
        unfolding grow g0 p IH(3) by simp
    qed
  qed
qed

lemma spans_eq: "spans data start eof = span_list (complete_lines data eof) start eof"
  by (simp add: spans_def span_loop_eq)

lemma spans_grow:
  fixes d1 d2 start eof
  defines "rs \<equiv> spans d1 start False"
  defines "n \<equiv> length (span_bytes rs)"
  shows "spans (d1 @ d2) start eof = rs @ spans (drop n d1 @ d2) (start + int n) eof"
    and "span_bytes rs = take n d1"
proof -
  obtain M where M: "split_lines d1 = complete_lines d1 False @ M" "settled (complete_lines d1 False) M"
    by (rule complete_lines_cases)
  obtain L1 L2 where L: "complete_lines d1 False = L1 @ L2" "span_bytes rs = concat L1"
    "\<And>X eof. span_list (complete_lines d1 False @ X) start eof = rs @ span_list (L2 @ X) (start + int (length (concat L1))) eof"
    using span_list_grow [of "complete_lines d1 False" start] unfolding rs_def spans_eq by blast
  have d1: "d1 = concat L1 @ concat (L2 @ M)" using concat_split_lines [of d1] M(1) L(1) by simp
  have n: "n = length (concat L1)" by (simp only: n_def L(2))
  have s1: "split_lines d1 = L1 @ (L2 @ M)" using M(1) L(1) by simp
  have ok1: "settled L1 (L2 @ M)" and ok2: "settled L2 M" using M(2) L(1) by (cases L2; auto simp: settled_def split: if_splits)+
  have s2: "split_lines (concat (L2 @ M)) = L2 @ M"
    using split_lines_prefix [OF s1] ok1 unfolding settled_def by blast
  have c1: "complete_lines (d1 @ d2) eof = complete_lines d1 False @ complete_lines (concat M @ d2) eof"
    by (rule complete_lines_prefix [OF M])
  have c2: "complete_lines (concat (L2 @ M) @ d2) eof = L2 @ complete_lines (concat M @ d2) eof"
    by (rule complete_lines_prefix [OF s2 ok2])
  have "drop n d1 = concat (L2 @ M)" unfolding n by (subst d1) simp
  then show "spans (d1 @ d2) start eof = rs @ spans (drop n d1 @ d2) (start + int n) eof"
    unfolding spans_eq c1 L(3) using c2 n by simp
  show "span_bytes rs = take n d1" unfolding n L(2) by (subst d1) simp
qed

subsection \<open>Time stamps that were printed\<close>

lemma pad_digits:
  "n < 10 ^ w \<Longrightarrow> 0 < w \<Longrightarrow> length (zero_pad w (nat_str n)) = w \<and> list_all is_decimal_char (zero_pad w (nat_str n))
     \<and> decimal_value (zero_pad w (nat_str n)) = int n"
  using zero_pad_decimal [of w n] by (simp add: length_zero_pad list_all_iff)

lemma two_chars:
  assumes "0 \<le> n" "n < 100"
  obtains a b where "two n = [a, b]" "is_decimal_char a" "is_decimal_char b" "decimal_value [a, b] = n"
proof -
  have p: "length (two n) = 2 \<and> list_all is_decimal_char (two n) \<and> decimal_value (two n) = n"
    using pad_digits [of "nat n" 2] assms by (simp add: two_def)
  then obtain a b where "two n = [a, b]" by (cases "two n"; cases "tl (two n)") auto
  then show ?thesis using p that by simp
qed

lemma four_chars:
  assumes "0 \<le> n" "n < 10000"
  obtains a b c d where "zero_pad 4 (nat_str (nat n)) = [a, b, c, d]" "is_decimal_char a" "is_decimal_char b"
    "is_decimal_char c" "is_decimal_char d" "decimal_value [a, b, c, d] = n"
proof -
  define s where "s = zero_pad 4 (nat_str (nat n))"
  have p: "length s = 4 \<and> list_all is_decimal_char s \<and> decimal_value s = n"
    using pad_digits [of "nat n" 4] assms by (simp add: s_def)
  then obtain a b c d where "s = [a, b, c, d]"
    by (cases s; cases "tl s"; cases "tl (tl s)"; cases "tl (tl (tl s))") auto
  then show ?thesis using p that unfolding s_def by simp
qed

lemma not_decimal_sign: "\<not> is_decimal_char (CHR ''-'')" "\<not> is_decimal_char (CHR ''+'')"
  by (simp_all add: is_decimal_char_def code_def)

lemma timestamp_isoformat:
  assumes t: "valid_pydt t" "utcoff t = Some z"
  shows "timestamp (isoformat t @ rest) =
    (if 0 \<le> instant_of t \<and> instant_of t < 3652059 * us_per_day then Inr (Some (instant_of t)) else Inl DateOverflow)"
proof -
  obtain y m d h mi sec us where iso: "isoformat t = zero_pad 4 (nat_str (nat y)) @ ''-'' @ two m @ ''-'' @ two d @ ''T'' @
      two h @ '':'' @ two mi @ '':'' @ two sec @
      (if us = 0 then [] else ''.'' @ zero_pad 6 (nat_str (nat us))) @ iso_offset (utcoff t)"
    and r: "1 \<le> y" "y \<le> 9999" "1 \<le> m" "m \<le> 12" "1 \<le> d" "d \<le> month_lengths y ! nat (m - 1)" "d \<le> 31"
    "0 \<le> h" "h < 24" "0 \<le> mi" "mi < 60" "0 \<le> sec" "sec < 60" "0 \<le> us" "us < us_per_second"
    and w: "wall t = day_number y m d * us_per_day + ((h * 60 + mi) * 60 + sec) * us_per_second + us"
    by (rule iso_fields [OF t(1)])
  have z: "\<bar>z\<bar> < 1440" using t by (simp add: valid_pydt_def)
  obtain y1 y2 y3 y4 where Y: "zero_pad 4 (nat_str (nat y)) = [y1, y2, y3, y4]" "is_decimal_char y1" "is_decimal_char y2"
    "is_decimal_char y3" "is_decimal_char y4" "decimal_value [y1, y2, y3, y4] = y" by (rule four_chars [of y]) (use r in auto)
  obtain m1 m2 where M: "two m = [m1, m2]" "is_decimal_char m1" "is_decimal_char m2" "decimal_value [m1, m2] = m"
    by (rule two_chars [of m]) (use r in auto)
  obtain d1 d2 where D: "two d = [d1, d2]" "is_decimal_char d1" "is_decimal_char d2" "decimal_value [d1, d2] = d"
    by (rule two_chars [of d]) (use r in auto)
  obtain h1 h2 where H: "two h = [h1, h2]" "is_decimal_char h1" "is_decimal_char h2" "decimal_value [h1, h2] = h"
    by (rule two_chars [of h]) (use r in auto)
  obtain i1 i2 where I: "two mi = [i1, i2]" "is_decimal_char i1" "is_decimal_char i2" "decimal_value [i1, i2] = mi"
    by (rule two_chars [of mi]) (use r in auto)
  obtain s1 s2 where S: "two sec = [s1, s2]" "is_decimal_char s1" "is_decimal_char s2" "decimal_value [s1, s2] = sec"
    by (rule two_chars [of sec]) (use r in auto)
  obtain a1 a2 where A: "two (\<bar>z\<bar> div 60) = [a1, a2]" "is_decimal_char a1" "is_decimal_char a2" "decimal_value [a1, a2] = \<bar>z\<bar> div 60"
    by (rule two_chars [of "\<bar>z\<bar> div 60"]) (use z in auto)
  obtain b1 b2 where B: "two (\<bar>z\<bar> mod 60) = [b1, b2]" "is_decimal_char b1" "is_decimal_char b2" "decimal_value [b1, b2] = \<bar>z\<bar> mod 60"
    by (rule two_chars [of "\<bar>z\<bar> mod 60"]) (use z in auto)
  define u where "u = (if us = 0 then [] else zero_pad 6 (nat_str (nat us)))"
  have u: "list_all is_decimal_char u" "decimal_value (take 6 (u @ replicate 6 (CHR ''0''))) = us" "u = [] \<longleftrightarrow> us = 0"
  proof -
    have "decimal_value (replicate 6 (CHR ''0'')) = 0" by code_simp
    moreover have "nat us < 10 ^ 6" using r by simp
    ultimately show "list_all is_decimal_char u" "decimal_value (take 6 (u @ replicate 6 (CHR ''0''))) = us" "u = [] \<longleftrightarrow> us = 0"
      using pad_digits [of "nat us" 6] r(14,15) by (auto simp: u_def)
  qed
  define sign where "sign = (if z < 0 then CHR ''-'' else CHR ''+'')"
  define line where "line = isoformat t @ rest"
  have head: "line = [y1, y2, y3, y4, CHR ''-'', m1, m2, CHR ''-'', d1, d2, CHR ''T'', h1, h2, CHR '':'', i1, i2, CHR '':'', s1, s2]
      @ (if u = [] then [] else CHR ''.'' # u) @ [sign, a1, a2, CHR '':'', b1, b2] @ rest"
    using r by (simp add: line_def iso Y M D H I S A B u(3) t(2) iso_offset_def sign_def) (simp add: u_def)
  have base: "stamp_base line" unfolding head stamp_base_def using Y M D H I S by simp
  have d19: "drop 19 line = (if u = [] then [] else CHR ''.'' # u) @ [sign, a1, a2, CHR '':'', b1, b2] @ rest"
    unfolding head by simp
  have nd: "\<not> is_decimal_char sign" "sign \<noteq> CHR ''.''" "sign \<noteq> CHR ''Z''" "sign = CHR ''+'' \<or> sign = CHR ''-''"
    using not_decimal_sign by (auto simp: sign_def)
  have frac: "stamp_fraction line = u"
  proof (cases "u = []")
    case True then show ?thesis unfolding stamp_fraction_def d19 using nd by (simp add: startswith_def)
  next
    case False
    have "drop 20 line = drop 1 (drop 19 line)" by simp
    also have "\<dots> = u @ [sign, a1, a2, CHR '':'', b1, b2] @ rest" unfolding d19 using False by simp
    finally show ?thesis unfolding stamp_fraction_def d19 using False nd u(1)
      by (simp add: startswith_def takeWhile_append list_all_iff)
  qed
  have rem: "drop (19 + (if u = [] then 0 else 1 + length u)) line = [sign, a1, a2, CHR '':'', b1, b2] @ rest"
    by (simp only: drop_drop [symmetric] add.commute [of 19] d19) (simp add: drop_drop [symmetric] d19)
  have zone: "stamp_zone line = Offset (if z < 0 then - 1 else 1) (\<bar>z\<bar> div 60) (\<bar>z\<bar> mod 60)"
    unfolding stamp_zone_def Let_def frac rem using nd A B by (auto simp: startswith_def sign_def)
  have fields: "take 4 (drop 0 line) = [y1, y2, y3, y4]" "take 2 (drop 5 line) = [m1, m2]" "take 2 (drop 8 line) = [d1, d2]"
    "take 2 (drop 11 line) = [h1, h2]" "take 2 (drop 14 line) = [i1, i2]" "take 2 (drop 17 line) = [s1, s2]"
    unfolding head by simp_all
  have zz: "(if z < 0 then - 1 else 1) * (\<bar>z\<bar> div 60 * 60 + \<bar>z\<bar> mod 60) = z" by simp
  have "instant_of t = day_number y m d * us_per_day + ((h * 60 + mi) * 60 + sec) * us_per_second + us - minutes z"
    by (simp add: instant_of_def t(2) w)
  then show ?thesis
    unfolding line_def [symmetric] timestamp_def Let_def frac zone fields Y M D H I S u(2) zone.case zz
    using base r z by simp
qed

subsection \<open>Properties\<close>

text \<open>
  A time that was printed by \<open>isoformat\<close> with a zone, as ESXi does, is read back as the same instant,
  whatever follows it in the line, as long as the instant is a date of the years 1 to 9999.
\<close>

theorem printed_stamp_is_read:
  assumes "valid_pydt t" "utcoff t = Some z" "0 \<le> instant_of t" "instant_of t < 3652059 * us_per_day"
  shows "timestamp (isoformat t @ rest) = Inr (Some (instant_of t))"
  using timestamp_isoformat [OF assms(1,2)] assms(3,4) by simp

lemma printed_stamp_is_read_witness:
  "timestamp (isoformat \<lparr>wall = 63000000000123456, utcoff = Some (- 90)\<rparr> @ '' vmkernel: up'') = Inr (Some 63000005400123456)"
proof -
  let ?t = "\<lparr>wall = 63000000000123456, utcoff = Some (- 90)\<rparr>"
  have "timestamp (isoformat ?t @ '' vmkernel: up'') = Inr (Some (instant_of ?t))"
    by (rule printed_stamp_is_read) (simp_all add: valid_pydt_def instant_of_def minutes_def)
  then show ?thesis by (simp add: instant_of_def minutes_def)
qed

text \<open>
  Every byte of a chunk is delivered at most once: the records of a chunk are contiguous from its first byte,
  their bytes are the beginning of the chunk, and of the end of a file nothing is left.
\<close>

fun contiguous :: "int \<Rightarrow> span list \<Rightarrow> int \<Rightarrow> bool" where
  "contiguous p [] e = (p = e)"
| "contiguous p ((b, e, raw) # rs) z = (p = b \<and> e = b + int (length raw) \<and> raw \<noteq> [] \<and> contiguous e rs z)"

lemma span_list_contiguous:
  "[] \<notin> set L \<Longrightarrow> contiguous start (span_list L start eof) (start + int (length (span_bytes (span_list L start eof))))"
proof (induction L start eof rule: span_list.induct)
  case (1 start eof) show ?case by simp
next
  case (2 line lines start eof)
  have "[] \<notin> set (drop n lines)" for n using 2(2) by (auto dest: in_set_dropD)
  then show ?case using 2 by (auto simp: Let_def add_ac)
qed

lemma spans_contiguous: "contiguous start (spans data start eof) (start + int (length (span_bytes (spans data start eof))))"
proof -
  have "[] \<notin> set (complete_lines data eof)"
    using split_lines_nonempty [of data] by (auto simp: complete_lines_def Let_def dest: in_set_butlastD)
  then show ?thesis unfolding spans_eq by (rule span_list_contiguous)
qed

lemma span_list_eof: "span_bytes (span_list L start True) = concat L"
proof (induction L start True rule: span_list.induct)
  case (2 line lines start)
  have "concat (takeWhile P lines) @ concat (drop (length (takeWhile P lines)) lines) = concat lines" for P
    by (metis append_take_drop_id concat_append takeWhile_eq_take)
  then show ?case using 2 by (simp add: Let_def)
qed simp

theorem records_tile_the_chunk:
  "contiguous start (spans data start eof) (start + int (length (span_bytes (spans data start eof))))
   \<and> span_bytes (spans data start eof) = take (length (span_bytes (spans data start eof))) data
   \<and> (eof \<longrightarrow> span_bytes (spans data start eof) = data)"
proof (intro conjI impI)
  show "contiguous start (spans data start eof) (start + int (length (span_bytes (spans data start eof))))"
    by (rule spans_contiguous)
  have e: "span_bytes (spans data start True) = data"
    by (simp add: spans_eq span_list_eof complete_lines_def Let_def)
  then show "span_bytes (spans data start eof) = data" if eof using that by simp
  show "span_bytes (spans data start eof) = take (length (span_bytes (spans data start eof))) data"
    using e spans_grow(2) [of data start] by (cases eof) simp_all
qed

definition sample_log :: string where
  "sample_log = ''2024-01-01T00:00:00Z up'' @ [CHR 0x0A] @ ''  more'' @ [CHR 0x0A] @ ''alone'' @ [CHR 0x0A] @ ''2024-01-01T00:00:05Z warn: low'' @ [CHR 0x0A]"

lemma sample_spans: "map (\<lambda>(b, e, raw). (b, e)) (spans sample_log 0 True) = [(0, 37), (37, 68)]"
  by code_simp

lemma records_tile_the_chunk_witness: "span_bytes (spans sample_log 0 True) = sample_log"
  using records_tile_the_chunk [of 0 sample_log True] by blast

subsection \<open>A growing file\<close>

fun read_passes :: "string \<Rightarrow> nat \<Rightarrow> nat list \<Rightarrow> span list" where
  \<comment> \<open>the records of one pass after another, when the file has the given lengths\<close>
  "read_passes data offset [] = []"
| "read_passes data offset (n # ns) =
     (let rs = spans (drop offset (take n data)) (int offset) False
      in rs @ read_passes data (offset + length (span_bytes rs)) ns)"

lemma spans_consumed: "length (span_bytes (spans d start False)) \<le> length d"
  by (subst spans_grow(2)) simp

text \<open>C17: 
  A growing file is read exactly once: whatever the lengths at which the passes see it, the records of the passes
  are those of one pass over the file as it finally is, neither lost, repeated nor cut differently.
\<close>
theorem passes_lose_and_repeat_nothing:
  assumes "sorted ns" "ns \<noteq> []" "\<forall>n\<in>set ns. offset \<le> n \<and> n \<le> length data"
  shows "read_passes data offset ns = spans (drop offset (take (last ns) data)) (int offset) False"
  using assms
proof (induction ns arbitrary: offset)
  case Nil then show ?case by simp
next
  case (Cons n ns)
  define d where "d = drop offset (take n data)"
  define k where "k = length (span_bytes (spans d (int offset) False))"
  have n: "offset \<le> n" "n \<le> length data" using Cons.prems(3) by auto
  have k: "k \<le> length d" unfolding k_def by (rule spans_consumed)
  then have kn: "offset + k \<le> n" using n by (simp add: d_def)
  show ?case
  proof (cases "ns = []")
    case True then show ?thesis by (simp add: Let_def d_def)
  next
    case False
    have le: "n \<le> last ns" "last ns \<le> length data" using Cons.prems False by auto
    have "read_passes data (offset + k) ns = spans (drop (offset + k) (take (last ns) data)) (int (offset + k)) False"
      using Cons.prems kn False by (intro Cons.IH) (auto intro: order_trans)
    moreover have split: "drop offset (take (last ns) data) = d @ drop n (take (last ns) data)"
      using n le by (simp add: d_def drop_take) (metis add_diff_inverse_nat diff_add_assoc2 drop_drop le_add_diff_inverse2 not_less take_add)
    moreover have "drop (offset + k) (take (last ns) data) = drop k d @ drop n (take (last ns) data)"
      using arg_cong [OF split, of "drop k"] k by (simp add: add.commute)
    ultimately show ?thesis
      using spans_grow(1) [of "d" "drop n (take (last ns) data)" "int offset" False] False
      by (simp add: Let_def d_def [symmetric] k_def [symmetric])
  qed
qed

lemma passes_lose_and_repeat_nothing_witness:
  "read_passes sample_log 0 [10, 30, 45, 68] = spans (drop 0 (take 68 sample_log)) 0 False"
proof -
  have "length sample_log = 68" by code_simp
  then show ?thesis using passes_lose_and_repeat_nothing [of "[10, 30, 45, 68]" 0 sample_log] by simp
qed

text \<open>C40: A line of the year one with a zone east of Greenwich: \<open>astimezone\<close> raises what \<open>timestamp\<close> does not catch.\<close>

theorem early_stamp_blocks_the_log:
  "records dec (''0001-01-01T00:00:00+09:00 boot'' @ [CHR 0x0A] @ ''2024-01-01T00:00:00Z up'' @ [CHR 0x0A] @ later) start eof
     = Inl DateOverflow"
proof -
  define bad where "bad = ''0001-01-01T00:00:00+09:00 boot'' @ [CHR 0x0A]"
  define good where "good = ''2024-01-01T00:00:00Z up'' @ [CHR 0x0A]"
  have s: "split_lines (bad @ good) = [bad, good] @ []" and e: "ends_line good"
    and st: "stamp_base bad" "stamp_base good" and b: "timestamp bad = Inl DateOverflow"
    unfolding bad_def good_def by code_simp+
  have "complete_lines ((bad @ good) @ later) eof = [bad, good] @ complete_lines (concat [] @ later) eof"
    using e by (intro complete_lines_prefix [OF s]) (simp add: settled_def)
  then have "complete_lines (bad @ good @ later) eof = bad # good # complete_lines later eof" by simp
  then have "\<exists>z rs. spans (bad @ good @ later) start eof = (start, z, bad) # rs"
    using st by (simp add: spans_eq Let_def)
  then have "records dec (bad @ good @ later) start eof = Inl DateOverflow"
    using b by (auto simp: records_def record_of_def Let_def)
  then show ?thesis by (simp add: bad_def good_def)
qed

end
