(* ===== verification/LogStream.thy ===== *)
theory LogStream
  imports LogParser PluginApi "HOL-Library.Char_ord" "HOL-Library.List_Lexorder" "HOL-Library.Product_Lexorder"
begin

section \<open>Reading rotated logs over SSH (packages/remote-log-collector transport.py and \_\_init\_\_.py)\<close>

text \<open>
  One pass over one log of one host: list the file and its rotations, find for each the state that an earlier pass
  left in the cursor, read what is new and split it into records. The host is a parameter: each command gets the
  number of commands before it and may therefore be answered differently every time, since files grow, are
  truncated and renamed while they are read. The command lines themselves are abstracted to what they print.
\<close>

subsection \<open>Commands\<close>

datatype stream_error =
  Log_changed int \<comment> \<open>\<open>LogFileChanged\<close>, with \<open>bytes_read\<close>\<close>
| Record_over_budget | Read_over_budget | Bad_range | Too_many_files | No_active_file | Date_error | Remote_failure

type_synonym 'a command = "nat \<Rightarrow> (stream_error + 'a) \<times> nat"

definition give :: "'a \<Rightarrow> 'a command" where
  "give x t = (Inr x, t)"

definition fail :: "stream_error \<Rightarrow> 'a command" where
  "fail e t = (Inl e, t)"

definition next_do :: "'a command \<Rightarrow> ('a \<Rightarrow> 'b command) \<Rightarrow> 'b command" where
  "next_do m f t = (case m t of (Inl e, t') \<Rightarrow> (Inl e, t') | (Inr x, t') \<Rightarrow> f x t')"

definition run :: "(nat \<Rightarrow> stream_error + 'a) \<Rightarrow> 'a command" where
  \<comment> \<open>one command on the host\<close>
  "run answer t = (answer t, Suc t)"

record remote =
  rw_list :: "nat \<Rightarrow> stream_error + (string \<times> int \<times> int \<times> string) list" \<comment> \<open>identity, size, time and path of the log and what the patterns match\<close>
  rw_logical :: "nat \<Rightarrow> string \<Rightarrow> stream_error + int" \<comment> \<open>the size of a compressed file when unpacked\<close>
  rw_read :: "nat \<Rightarrow> string \<Rightarrow> int \<Rightarrow> int \<Rightarrow> stream_error + string"
  rw_stat :: "nat \<Rightarrow> string \<Rightarrow> stream_error + (string \<times> int \<times> int)"
  rw_uuid :: "nat \<Rightarrow> string" \<comment> \<open>\<open>uuid4().hex\<close>\<close>
  rw_hash :: "string \<Rightarrow> string"
  rw_decode :: "string \<Rightarrow> string"

record remote_file =
  rf_path :: string
  rf_identity :: string
  rf_size :: int
  rf_modified :: int
  rf_head :: string \<comment> \<open>\<open>prefix\<close>\<close>
  rf_active :: bool
  rf_disk_size :: int
  rf_metadata_only :: bool

record file_state =
  fs_generation :: string
  fs_identity :: string
  fs_offset :: int
  fs_prefix_length :: int
  fs_prefix_hash :: string
  fs_done :: bool
  fs_disk_size :: int
  fs_modified :: int
  fs_metadata_only :: bool
  fs_checkpoint_length :: int
  fs_checkpoint_hash :: string
  fs_seek :: bool \<comment> \<open>\<open>seek_record_start\<close>\<close>
  fs_skip :: bool \<comment> \<open>\<open>skip_partial\<close>\<close>

definition read_range :: "remote \<Rightarrow> string \<Rightarrow> int \<Rightarrow> int \<Rightarrow> string command" where
  "read_range w path offset n = (if offset < 0 \<or> n < 0 then fail Bad_range else run (\<lambda>t. rw_read w t path offset n))"

definition verify :: "remote \<Rightarrow> remote_file \<Rightarrow> int \<Rightarrow> unit command" where
  \<comment> \<open>\<open>SSHReader.verify\<close>, whose \<open>LogFileChanged\<close> the caller completes with the bytes read\<close>
  "verify w f bytes_read =
     next_do (run (\<lambda>t. rw_stat w t (rf_path f))) (\<lambda>(ident, size, modified).
       if ident \<noteq> rf_identity f \<or> size < rf_disk_size f
          \<or> \<not> rf_active f \<and> (size \<noteq> rf_disk_size f \<or> modified \<noteq> rf_modified f)
       then fail (Log_changed bytes_read) else give ())"

subsection \<open>Listing the files (SSHReader.files)\<close>

definition numbered :: "string \<Rightarrow> string list \<Rightarrow> string \<Rightarrow> bool" where
  \<comment> \<open>a mark, digits and one of the endings\<close>
  "numbered mark endings s =
     (startswith s mark \<and> (let r = drop (length mark) s in takeWhile is_decimal_char r \<noteq> [] \<and> dropWhile is_decimal_char r \<in> set endings))"

definition log_name :: "string \<Rightarrow> string \<Rightarrow> bool" where
  \<comment> \<open>\<open>allowed.fullmatch\<close>\<close>
  "log_name stem path =
     (startswith path stem \<and> (let r = drop (length stem) path
        in r = ''.log'' \<or> numbered ''.'' [[], ''.gz''] r \<or> numbered ''.log.'' [[], ''.gz''] r \<or> numbered ''-'' [''.log'', ''.log.gz''] r))"

definition same_archived_file :: "file_state \<Rightarrow> remote_file \<Rightarrow> bool" where
  "same_archived_file s f \<longleftrightarrow> fs_done s \<and> fs_identity s = rf_identity f \<and> fs_disk_size s = rf_disk_size f \<and> fs_modified s = rf_modified f"

definition listed :: "string \<Rightarrow> (string \<times> int \<times> int \<times> string) list \<Rightarrow> remote_file list" where
  \<comment> \<open>one entry for each allowed name; of a link to the active file only the active name\<close>
  "listed base lines =
     (let metadata = map (\<lambda>(ident, size, modified, path).
            \<lparr>rf_path = path, rf_identity = ident, rf_size = size, rf_modified = modified, rf_head = [], rf_active = (path = base),
             rf_disk_size = size, rf_metadata_only = False\<rparr>)
            (filter (\<lambda>(_, _, _, path). log_name (take (length base - 4) base) path) lines);
          active = map rf_identity (filter rf_active metadata)
      in filter (\<lambda>f. rf_active f \<or> rf_identity f \<notin> set active) metadata)"

definition describe :: "remote \<Rightarrow> file_state list option \<Rightarrow> remote_file \<Rightarrow> remote_file command" where
  \<comment> \<open>an archive that was read to its end, or is older than the first pass, is not opened\<close>
  "describe w previous f =
     (let cached = find (\<lambda>s. same_archived_file s f) (case previous of None \<Rightarrow> [] | Some ss \<Rightarrow> ss)
      in if \<not> rf_active f \<and> (previous = None \<or> cached \<noteq> None)
         then give (f\<lparr>rf_size := (case cached of Some s \<Rightarrow> fs_offset s | None \<Rightarrow> 0), rf_head := [], rf_active := False, rf_metadata_only := True\<rparr>)
         else next_do (if endswith (rf_path f) ''.gz'' then run (\<lambda>t. rw_logical w t (rf_path f)) else give (rf_disk_size f)) (\<lambda>size.
              next_do (read_range w (rf_path f) 0 (min size 256)) (\<lambda>head.
              give (f\<lparr>rf_size := size, rf_head := head\<rparr>))))"

fun for_each :: "('a \<Rightarrow> 'b command) \<Rightarrow> 'a list \<Rightarrow> 'b list command" where
  "for_each f [] = give []"
| "for_each f (x # xs) = next_do (f x) (\<lambda>y. next_do (for_each f xs) (\<lambda>ys. give (y # ys)))"

definition remote_files :: "remote \<Rightarrow> string \<Rightarrow> file_state list option \<Rightarrow> remote_file list command" where
  \<comment> \<open>oldest first, the active file last\<close>
  "remote_files w base previous =
     next_do (run (rw_list w)) (\<lambda>lines.
       let metadata = listed base lines
       in if 64 < length metadata then fail Too_many_files
          else if \<not> list_ex rf_active metadata then fail No_active_file
          else next_do (for_each (describe w previous) metadata) (\<lambda>fs.
               give (sort_key (\<lambda>f. (rf_active f, rf_modified f, rf_path f)) fs)))"

subsection \<open>Finding the state of a file\<close>

definition matches_state :: "(string \<Rightarrow> string) \<Rightarrow> file_state \<Rightarrow> remote_file \<Rightarrow> bool" where
  \<comment> \<open>\<open>_matches\<close>\<close>
  "matches_state hash s f \<longleftrightarrow> fs_offset s \<le> rf_size f \<and> fs_prefix_length s \<le> int (length (rf_head f))
     \<and> hash (take (nat (fs_prefix_length s)) (rf_head f)) = fs_prefix_hash s"

fun first_confirmed :: "remote \<Rightarrow> string \<Rightarrow> file_state list \<Rightarrow> nat list \<Rightarrow> nat option command" where
  \<comment> \<open>the first candidate whose bytes before the offset are still there\<close>
  "first_confirmed w path states [] = give None"
| "first_confirmed w path states (i # is) =
     (let s = states ! i; n = fs_checkpoint_length s
      in if n = 0 then give (Some i)
         else next_do (read_range w path (fs_offset s - n) n) (\<lambda>d.
              if rw_hash w d = fs_checkpoint_hash s then give (Some i) else first_confirmed w path states is))"

definition candidate_states :: "(string \<Rightarrow> string) \<Rightarrow> file_state list \<Rightarrow> nat list \<Rightarrow> remote_file \<Rightarrow> nat list" where
  \<comment> \<open>those with the same inode first\<close>
  "candidate_states hash states matched f =
     (let cs = filter (\<lambda>i. i \<notin> set matched \<and> \<not> (fs_metadata_only (states ! i) \<and> fs_prefix_length (states ! i) = 0)
                  \<and> matches_state hash (states ! i) f \<and> (\<not> rf_active f \<or> fs_identity (states ! i) = rf_identity f)) [0..<length states]
      in filter (\<lambda>i. fs_identity (states ! i) = rf_identity f) cs @ filter (\<lambda>i. fs_identity (states ! i) \<noteq> rf_identity f) cs)"

fun match_files :: "remote \<Rightarrow> file_state list \<Rightarrow> remote_file list \<Rightarrow> nat list \<Rightarrow> (string, file_state) dict \<Rightarrow> (nat list \<times> (string, file_state) dict) command" where
  "match_files w states [] matched found = give (matched, found)"
| "match_files w states (f # fs) matched found =
     next_do (if rf_metadata_only f
              then give (find (\<lambda>i. i \<notin> set matched \<and> same_archived_file (states ! i) f) [0..<length states])
              else first_confirmed w (rf_path f) states (candidate_states (rw_hash w) states matched f)) (\<lambda>c.
       case c of None \<Rightarrow> match_files w states fs matched found
       | Some i \<Rightarrow> match_files w states fs (i # matched) (AList.update (rf_path f) (states ! i) found))"

subsection \<open>The size of a record in JSON\<close>

definition json_char_size :: "char \<Rightarrow> int" where
  "json_char_size c = (let n = code c in if n \<in> {8, 9, 10, 12, 13, 34, 92} then 2 else if 32 \<le> n \<and> n \<le> 126 then 1 else 6)"

definition json_text_size :: "string \<Rightarrow> int" where
  "json_text_size s = 2 + sum_list (map json_char_size s)"

definition json_optional_size :: "string option \<Rightarrow> int" where
  "json_optional_size s = (case s of None \<Rightarrow> 4 | Some s \<Rightarrow> json_text_size s)"

definition record_size :: "log_input \<Rightarrow> int" where
  \<comment> \<open>\<open>len(json.dumps(_encoded(record)).encode()) + 2\<close>\<close>
  "record_size r =
     (let fields = [(''source_id'', json_text_size (lg_source_id r)), (''host'', json_text_size (lg_host r)),
            (''log_kind'', json_text_size (lg_log_kind r)), (''file_generation'', json_text_size (lg_file_generation r)),
            (''byte_offset'', int (length (int_str (lg_byte_offset r)))), (''collected_at'', json_text_size (isoformat (lg_collected_at r))),
            (''message'', json_text_size (lg_message r)), (''occurred_at'', json_optional_size (map_option isoformat (lg_occurred_at r))),
            (''severity'', json_optional_size (lg_severity r))]
      in sum_list (map (\<lambda>(k, n). json_text_size k + 2 + n) fields) + 2 * int (length fields - 1) + 2 + 2)"

subsection \<open>One file\<close>

definition BOOTSTRAP_BYTES :: int where "BOOTSTRAP_BYTES = 1024 * 1024"

record stream_env =
  se_source_id :: string
  se_source_host :: string
  se_kind :: string
  se_base :: string \<comment> \<open>\<open>PRESETS[product][kind]\<close>\<close>
  se_allowance :: int
  se_wire :: int \<comment> \<open>\<open>wire_allowance\<close>\<close>
  se_now :: instant
  se_gap_text :: string \<comment> \<open>the Japanese text of the warning\<close>

definition log_record_input :: "stream_env \<Rightarrow> string \<Rightarrow> log_record \<Rightarrow> log_input" where
  "log_record_input v generation r =
     \<lparr>lg_source_id = se_source_id v, lg_host = se_source_host v, lg_log_kind = se_kind v, lg_file_generation = generation,
      lg_byte_offset = lp_begin r, lg_collected_at = utc (se_now v), lg_message = lp_text r,
      lg_occurred_at = map_option utc (lp_time r), lg_severity = lp_level r\<rparr>"

definition new_state :: "remote \<Rightarrow> remote_file \<Rightarrow> int \<Rightarrow> file_state command" where
  \<comment> \<open>\<open>_state\<close>\<close>
  "new_state w f offset =
     next_do (run (\<lambda>t. Inr (rw_uuid w t))) (\<lambda>generation.
       give \<lparr>fs_generation = generation, fs_identity = rf_identity f, fs_offset = offset, fs_prefix_length = int (length (rf_head f)),
             fs_prefix_hash = rw_hash w (rf_head f), fs_done = False, fs_disk_size = 0, fs_modified = 0, fs_metadata_only = False,
             fs_checkpoint_length = 0, fs_checkpoint_hash = [], fs_seek = False, fs_skip = False\<rparr>)"

definition open_state :: "remote \<Rightarrow> bool \<Rightarrow> file_state option \<Rightarrow> remote_file \<Rightarrow> file_state command" where
  \<comment> \<open>the state to start with; \<open>fresh\<close>: there was no earlier pass\<close>
  "open_state w fresh found f =
     next_do
      (if fresh \<and> \<not> rf_active f then next_do (new_state w f (rf_size f)) (\<lambda>s. give (s\<lparr>fs_done := True\<rparr>))
       else (case found of
           Some s \<Rightarrow> give s
         | None \<Rightarrow>
             let initial = (if fresh then max 0 (rf_size f - BOOTSTRAP_BYTES) else 0)
             in next_do (new_state w f initial) (\<lambda>s.
                  if initial = 0 then give s
                  else next_do (read_range w (rf_path f) (initial - 1) 1) (\<lambda>preceding.
                       give (s\<lparr>fs_seek := True, fs_skip := preceding \<noteq> [CHR 0x0A]\<rparr>)))))
      (\<lambda>s. give (s\<lparr>fs_identity := rf_identity f, fs_disk_size := rf_disk_size f, fs_modified := rf_modified f,
                   fs_metadata_only := rf_metadata_only f, fs_done := (if rf_active f then False else fs_done s)\<rparr>))"

fun record_start :: "string list \<Rightarrow> int \<times> bool" where
  \<comment> \<open>the bytes before the first line with a stamp, and whether there is one\<close>
  "record_start [] = (0, False)"
| "record_start (line # lines) =
     (if stamp_base line then (0, True) else if \<not> ends_line line then (0, False)
      else (case record_start lines of (n, found) \<Rightarrow> (int (length line) + n, found)))"

definition skip_line :: "file_state \<Rightarrow> string \<Rightarrow> file_state \<times> string option" where
  \<comment> \<open>what \<open>skip_partial\<close> leaves of the data; \<open>None\<close>: nothing\<close>
  "skip_line s data =
     (if \<not> fs_skip s then (s, Some data)
      else let rest = dropWhile (\<lambda>c. code c \<noteq> 10) data
           in if rest = [] then (s\<lparr>fs_offset := fs_offset s + int (length data)\<rparr>, None)
              else (s\<lparr>fs_offset := fs_offset s + int (length data - length rest + 1), fs_skip := False\<rparr>, Some (tl rest)))"

definition seek_record :: "file_state \<Rightarrow> string \<Rightarrow> file_state \<times> string" where
  "seek_record s data =
     (if \<not> fs_seek s then (s, data)
      else (case record_start (split_lines data) of (skipped, found) \<Rightarrow>
              (s\<lparr>fs_offset := fs_offset s + skipped, fs_seek := \<not> found\<rparr>, if found then drop (nat skipped) data else [])))"

fun emit :: "remote \<Rightarrow> stream_env \<Rightarrow> string \<Rightarrow> span list \<Rightarrow> int \<Rightarrow> int \<Rightarrow> stream_error + log_input list \<times> int \<times> int" where
  \<comment> \<open>the loop over the records: what is sent, the encoded size and the offset\<close>
  "emit w v generation [] used offset = Inr ([], used, offset)"
| "emit w v generation (s # ss) used offset =
     and_then (map_error (\<lambda>_. Date_error) (record_of (rw_decode w) s)) (\<lambda>r.
       let row = log_record_input v generation r; n = record_size row
       in if se_wire v < n then Inl Record_over_budget
          else if se_wire v < used + n then Inr ([], used, offset)
          else and_then (emit w v generation ss (used + n) (lp_end r)) (\<lambda>(rows, used, offset). Inr (row # rows, used, offset)))"

definition checked :: "remote \<Rightarrow> remote_file \<Rightarrow> int \<Rightarrow> file_state \<Rightarrow> file_state command" where
  \<comment> \<open>the tests after the records, and the checkpoint for the next pass\<close>
  "checked w f bytes_read s =
     next_do (if rf_head f = [] then give () else
              next_do (read_range w (rf_path f) 0 (int (length (rf_head f)))) (\<lambda>d.
                if d \<noteq> rf_head f then fail (Log_changed bytes_read) else give ())) (\<lambda>_.
     let n = min (fs_offset s) 64
     in next_do (read_range w (rf_path f) (fs_offset s - n) n) (\<lambda>d.
        let s = s\<lparr>fs_checkpoint_length := n, fs_checkpoint_hash := rw_hash w d\<rparr>;
            s = (if fs_prefix_length s = 0 \<and> rf_head f \<noteq> []
                 then s\<lparr>fs_prefix_length := int (length (rf_head f)), fs_prefix_hash := rw_hash w (rf_head f)\<rparr> else s)
        in next_do (verify w f bytes_read) (\<lambda>_. give s)))"

definition stream_data :: "remote \<Rightarrow> stream_env \<Rightarrow> remote_file \<Rightarrow> int \<Rightarrow> int \<Rightarrow> file_state \<Rightarrow> string \<Rightarrow> (log_input list \<times> file_state \<times> int) command" where
  \<comment> \<open>from the bytes that were read to the new state; \<open>remaining\<close> is what is left of the allowance\<close>
  "stream_data w v f remaining used s data =
     (case skip_line s data of
        (s, None) \<Rightarrow> give ([], s, used)
      | (s, Some data) \<Rightarrow>
          (case seek_record s data of (s, data) \<Rightarrow>
            let offset = fs_offset s; eof = (\<not> rf_active f \<and> rf_size f \<le> offset + int (length data))
            in (case emit w v (fs_generation s) (spans data offset eof) used offset of
                  Inl e \<Rightarrow> fail e
                | Inr (rows, used, new_offset) \<Rightarrow>
                    if rf_active f \<and> data \<noteq> [] \<and> new_offset = offset \<and> se_allowance v \<le> int (length data) then fail Read_over_budget
                    else next_do (checked w f (se_allowance v - remaining)
                             (s\<lparr>fs_offset := new_offset, fs_done := (if eof \<and> rf_size f \<le> new_offset then True else fs_done s)\<rparr>)) (\<lambda>s.
                         give (rows, s, used)))))"

definition stream_file :: "remote \<Rightarrow> stream_env \<Rightarrow> bool \<Rightarrow> file_state option \<Rightarrow> remote_file \<Rightarrow> int \<Rightarrow> int \<Rightarrow> (log_input list \<times> file_state \<times> int \<times> int) command" where
  \<comment> \<open>one round of the last loop of \<open>_stream\<close>: records, state, what remains of the allowance, encoded size\<close>
  "stream_file w v fresh found f remaining used =
     next_do (open_state w fresh found f) (\<lambda>s.
       if fs_done s \<and> \<not> rf_active f \<or> remaining \<le> 0 \<or> se_wire v \<le> used then give ([], s, remaining, used)
       else let wanted = min remaining (max 0 (rf_size f - fs_offset s))
            in next_do (read_range w (rf_path f) (fs_offset s) wanted) (\<lambda>data.
                 let remaining = remaining - int (length data)
                 in if int (length data) \<noteq> wanted then fail (Log_changed (se_allowance v - remaining))
                    else next_do (stream_data w v f remaining used s data) (\<lambda>(rows, s, used). give (rows, s, remaining, used))))"

subsection \<open>One log\<close>

fun stream_files :: "remote \<Rightarrow> stream_env \<Rightarrow> bool \<Rightarrow> (string, file_state) dict \<Rightarrow> remote_file list \<Rightarrow> int \<Rightarrow> int \<Rightarrow> (log_input list \<times> file_state list) command" where
  "stream_files w v fresh found [] remaining used = give ([], [])"
| "stream_files w v fresh found (f # fs) remaining used =
     next_do (stream_file w v fresh (map_of found (rf_path f)) f remaining used) (\<lambda>(rows, s, remaining, used).
     next_do (stream_files w v fresh found fs remaining used) (\<lambda>(more, ss). give (rows @ more, s # ss)))"

definition gap_warning :: "stream_env \<Rightarrow> string \<Rightarrow> log_input" where
  "gap_warning v ident =
     \<lparr>lg_source_id = se_source_id v, lg_host = se_source_host v, lg_log_kind = se_kind v, lg_file_generation = ''gap-'' @ ident,
      lg_byte_offset = 0, lg_collected_at = utc (se_now v), lg_message = se_gap_text v, lg_occurred_at = None, lg_severity = Some ''warning''\<rparr>"

definition stream :: "remote \<Rightarrow> stream_env \<Rightarrow> file_state list option \<Rightarrow> (log_input list \<times> file_state list) command" where
  \<comment> \<open>\<open>_stream\<close>: the records and the states of the files for the next pass\<close>
  "stream w v previous =
     next_do (remote_files w (se_base v) previous) (\<lambda>files.
       let states = (case previous of None \<Rightarrow> [] | Some ss \<Rightarrow> ss)
       in next_do (match_files w states files [] []) (\<lambda>(matched, found).
          if list_ex (\<lambda>i. i \<notin> set matched \<and> \<not> fs_done (states ! i)) [0..<length states]
          then next_do (run (\<lambda>t. Inr (rw_uuid w t))) (\<lambda>ident.
               next_do (stream_files w v (previous = None) found files (se_allowance v) (record_size (gap_warning v ident))) (\<lambda>(rows, ss).
               give (gap_warning v ident # rows, ss)))
          else stream_files w v (previous = None) found files (se_allowance v) 0))"

fun stream_attempts :: "remote \<Rightarrow> stream_env \<Rightarrow> file_state list option \<Rightarrow> nat \<Rightarrow> (log_input list \<times> file_state list) command" where
  \<comment> \<open>the loop of \<open>collect_source\<close> over at most so many further attempts, with what is left of the read budget\<close>
  "stream_attempts w v previous n t =
     (case stream w v previous t of
        (Inl (Log_changed bytes_read), t') \<Rightarrow>
          (let v' = v\<lparr>se_allowance := se_allowance v - bytes_read\<rparr>
           in case n of 0 \<Rightarrow> (Inl (Log_changed bytes_read), t')
              | Suc n \<Rightarrow> if se_allowance v' \<le> 0 then (Inl (Log_changed bytes_read), t') else stream_attempts w v' previous n t')
      | r \<Rightarrow> r)"

subsection \<open>The batch of a target\<close>

definition stream_key :: "stream_env \<Rightarrow> string" where
  "stream_key v = se_source_id v @ '':'' @ se_kind v"

fun collect_source :: "remote \<Rightarrow> stream_env list \<Rightarrow> (string, file_state list) dict \<Rightarrow> (log_input list \<times> (string, file_state list) dict) command" where
  \<comment> \<open>the logs of one source, one after another\<close>
  "collect_source w [] streams = give ([], [])"
| "collect_source w (v # vs) streams =
     next_do (stream_attempts w v (map_of streams (stream_key v)) 2) (\<lambda>(rows, ss).
     next_do (collect_source w vs streams) (\<lambda>(more, updates). give (rows @ more, (stream_key v, ss) # updates)))"

definition collect :: "(log_input list \<Rightarrow> (string, file_state list) dict \<Rightarrow> bool) \<Rightarrow> (remote \<times> stream_env list) list \<Rightarrow> (string, file_state list) dict \<Rightarrow> stream_error + log_input list \<times> (string, file_state list) dict" where
  \<comment> \<open>the sources run side by side, each on a connection of its own; one failure is the failure of all\<close>
  "collect too_big sources streams =
     and_then (traverse (\<lambda>(w, vs). fst (collect_source w vs streams 0)) sources) (\<lambda>results.
       let logs = concat (map fst results);
           streams = fold (\<lambda>(_, updates) d. fold (\<lambda>(k, ss) d. AList.update k ss d) updates d) results streams
       in if too_big logs streams then Inl Record_over_budget else Inr (logs, streams))"

subsection \<open>Commands that succeed\<close>

lemma command_simps [simp]:
  "give x t = (Inr y, t') \<longleftrightarrow> y = x \<and> t' = t" "fail e t \<noteq> (Inr y, t')"
  "run a t = (r, t') \<longleftrightarrow> a t = r \<and> t' = Suc t"
  by (auto simp: give_def fail_def run_def)

lemma next_do_Inr: "next_do m f t = (Inr y, t') \<longleftrightarrow> (\<exists>x s. m t = (Inr x, s) \<and> f x s = (Inr y, t'))"
  by (auto simp: next_do_def split: prod.splits sum.splits)

definition clocked :: "'a command \<Rightarrow> bool" where
  "clocked m \<longleftrightarrow> (\<forall>t r t'. m t = (r, t') \<longrightarrow> t \<le> t')"

lemma clocked_simps [intro, simp]: "clocked (give x)" "clocked (fail e)" "clocked (run a)"
  by (auto simp: clocked_def give_def fail_def run_def)

lemma clocked_next [intro]: "clocked m \<Longrightarrow> (\<And>x. clocked (f x)) \<Longrightarrow> clocked (next_do m f)"
  unfolding clocked_def next_do_def by (fastforce split: prod.splits sum.splits intro: order_trans)

lemma clocked_if [intro]: "clocked m \<Longrightarrow> clocked n \<Longrightarrow> clocked (if b then m else n)"
  by simp

lemma clocked_prod [intro]: "(\<And>a b. clocked (f a b)) \<Longrightarrow> clocked (case_prod f p)"
  by (cases p) simp

lemma clockedD: "clocked m \<Longrightarrow> m t = (r, t') \<Longrightarrow> t \<le> t'"
  by (auto simp: clocked_def)

lemma clocked_read_range [intro, simp]: "clocked (read_range w p o' n)"
  by (auto simp: read_range_def)

lemma clocked_for_each: "(\<And>x. clocked (f x)) \<Longrightarrow> clocked (for_each f xs)"
  by (induction xs) auto

lemma clocked_remote_files [intro, simp]: "clocked (remote_files w base previous)"
  unfolding remote_files_def describe_def Let_def by (intro clocked_next clocked_if clocked_for_each) (auto split: if_splits)

lemma clocked_first_confirmed [intro, simp]: "clocked (first_confirmed w p states is)"
  by (induction "is") (auto simp: Let_def)

lemma clocked_match_files [intro, simp]: "clocked (match_files w states fs matched found)"
  by (induction fs arbitrary: matched found) (auto split: option.splits)

lemma clocked_new_state [intro, simp]: "clocked (new_state w f n)"
  by (auto simp: new_state_def)

lemma clocked_open_state [intro, simp]: "clocked (open_state w fresh found f)"
  unfolding open_state_def Let_def by (intro clocked_next clocked_if) (auto split: option.splits)

lemma clocked_checked [intro, simp]: "clocked (checked w f n s)"
  unfolding checked_def verify_def Let_def by (intro clocked_next clocked_if) (auto split: prod.splits)

lemma clocked_stream_data [intro, simp]: "clocked (stream_data w v f remaining used s data)"
  unfolding stream_data_def Let_def by (auto split: prod.splits option.splits sum.splits)

lemma clocked_stream_file [intro, simp]: "clocked (stream_file w v fresh found f remaining used)"
  unfolding stream_file_def Let_def by (intro clocked_next clocked_if) (auto split: prod.splits)

lemma clocked_stream_files [intro, simp]: "clocked (stream_files w v fresh found fs remaining used)"
proof (induction fs arbitrary: remaining used)
  case (Cons f fs)
  then show ?case unfolding stream_files.simps by (intro clocked_next clocked_prod) auto
qed simp

lemma clocked_stream [intro, simp]: "clocked (stream w v previous)"
  unfolding stream_def Let_def by (intro clocked_next clocked_prod clocked_if) auto

subsection \<open>What is sent of one file\<close>

lemma contiguous_starts: "contiguous b ss e \<Longrightarrow> b \<le> e \<and> sorted_wrt (<) (map fst ss) \<and> (\<forall>s\<in>set ss. b \<le> fst s \<and> fst s < e)"
proof (induction b ss e rule: contiguous.induct)
  case (2 p b e raw rs z)
  then have "e \<le> z" "sorted_wrt (<) (map fst rs)" "\<forall>s\<in>set rs. e \<le> fst s \<and> fst s < z" by auto
  moreover have "p = b" "b < e" using 2(2) by auto
  ultimately show ?case by force
qed simp

lemma contiguous_take: "contiguous b ss e \<Longrightarrow> contiguous b (take k ss) (b + int (length (span_bytes (take k ss))))"
proof (induction b ss e arbitrary: k rule: contiguous.induct)
  case (2 p b e raw rs z)
  then show ?case by (cases k) (auto simp: add_ac)
qed simp

lemma record_of_fields: "record_of decode (b, e, raw) = Inr p \<Longrightarrow> lp_begin p = b \<and> lp_end p = e"
  by (auto simp: record_of_def Let_def and_then_Inr)

definition sent_as :: "remote \<Rightarrow> stream_env \<Rightarrow> string \<Rightarrow> span \<Rightarrow> log_input \<Rightarrow> bool" where
  "sent_as w v g s row \<longleftrightarrow> (\<exists>p. record_of (rw_decode w) s = Inr p \<and> row = log_record_input v g p)"

lemma sent_as_fields: "sent_as w v g s row \<Longrightarrow> lg_file_generation row = g \<and> lg_byte_offset row = fst s"
  by (cases s) (auto simp: sent_as_def log_record_input_def dest: record_of_fields)

lemma emit_take:
  "emit w v g ss used offset = Inr (rows, used', offset') \<Longrightarrow> contiguous offset ss e \<Longrightarrow>
   \<exists>k. offset' = offset + int (length (span_bytes (take k ss))) \<and> list_all2 (sent_as w v g) (take k ss) rows
     \<and> used' = used + sum_list (map record_size rows) \<and> (rows = [] \<or> used' \<le> se_wire v)"
proof (induction ss arbitrary: used offset rows)
  case Nil then show ?case by (auto intro: exI [of _ 0])
next
  case (Cons s ss)
  obtain b z raw where s: "s = (b, z, raw)" by (cases s)
  have c: "offset = b" "z = b + int (length raw)" "contiguous z ss e" using Cons.prems(2) s by auto
  obtain p where p: "record_of (rw_decode w) s = Inr p" using Cons.prems(1) by (auto simp: and_then_Inr)
  let ?row = "log_record_input v g p"
  have z: "lp_end p = z" using record_of_fields p s by blast
  show ?case
  proof (cases "se_wire v < used + record_size ?row")
    case True then show ?thesis using Cons.prems(1) p by (auto simp: Let_def map_error_def split: if_splits intro: exI [of _ 0])
  next
    case False
    then obtain more where m: "emit w v g ss (used + record_size ?row) z = Inr (more, used', offset')" "rows = ?row # more"
      using Cons.prems(1) p z by (auto simp: Let_def map_error_def and_then_Inr split: if_splits)
    from Cons.IH [OF m(1) c(3)] obtain k where k: "offset' = z + int (length (span_bytes (take k ss)))"
      "list_all2 (sent_as w v g) (take k ss) more" "used' = used + record_size ?row + sum_list (map record_size more)"
      "more = [] \<or> used' \<le> se_wire v" by blast
    have "sent_as w v g s ?row" using p by (auto simp: sent_as_def)
    then show ?thesis using k False m(2) c s by (intro exI [of _ "Suc k"]) auto
  qed
qed

lemma skip_line_state: "skip_line s data = (s', d) \<Longrightarrow> fs_generation s' = fs_generation s \<and> fs_offset s \<le> fs_offset s'"
  by (auto simp: skip_line_def Let_def split: if_splits)

lemma record_start_nonneg: "0 \<le> fst (record_start ls)"
  by (induction ls) (auto split: prod.splits)

lemma seek_record_state: "seek_record s data = (s', d) \<Longrightarrow> fs_generation s' = fs_generation s \<and> fs_offset s \<le> fs_offset s'"
  using record_start_nonneg [of "split_lines data"] by (auto simp: seek_record_def split: if_splits prod.splits)

lemma checked_state:
  "checked w f n s t = (Inr s', t') \<Longrightarrow> fs_generation s' = fs_generation s \<and> fs_offset s' = fs_offset s \<and> fs_seek s' = fs_seek s \<and> fs_skip s' = fs_skip s"
  by (auto simp: checked_def next_do_Inr Let_def split: if_splits)

definition sent_between :: "remote \<Rightarrow> stream_env \<Rightarrow> string \<Rightarrow> int \<Rightarrow> log_input list \<Rightarrow> int \<Rightarrow> bool" where
  \<comment> \<open>the rows are the records of consecutive spans that start at or after one offset and end at the other\<close>
  "sent_between w v g lo rows hi \<longleftrightarrow> (\<exists>b ss. lo \<le> b \<and> contiguous b ss hi \<and> list_all2 (sent_as w v g) ss rows)"

lemma stream_data_sent:
  assumes "stream_data w v f remaining used s data t = (Inr (rows, s', used'), t')"
  shows "fs_generation s' = fs_generation s \<and> sent_between w v (fs_generation s) (fs_offset s) rows (fs_offset s')
    \<and> used' = used + sum_list (map record_size rows) \<and> (rows = [] \<or> used' \<le> se_wire v)"
proof -
  obtain s1 d1 where 1: "skip_line s data = (s1, d1)" by fastforce
  note k1 = skip_line_state [OF 1]
  show ?thesis
  proof (cases d1)
    case None
    have "rows = []" "s' = s1" "used' = used" using assms 1 None by (auto simp: stream_data_def)
    then show ?thesis using k1 by (auto simp: sent_between_def intro!: exI [of _ "fs_offset s1"] exI [of _ "[]"])
  next
    case (Some d)
    obtain s2 d2 where 2: "seek_record s1 d = (s2, d2)" by fastforce
    note k2 = seek_record_state [OF 2]
    define eof where "eof = (\<not> rf_active f \<and> rf_size f \<le> fs_offset s2 + int (length d2))"
    obtain used2 off where e: "emit w v (fs_generation s2) (spans d2 (fs_offset s2) eof) used (fs_offset s2) = Inr (rows, used2, off)"
      and c: "checked w f (se_allowance v - remaining)
        (s2\<lparr>fs_offset := off, fs_done := (if eof \<and> rf_size f \<le> off then True else fs_done s2)\<rparr>) t = (Inr s', t')" and sz: "used' = used2"
      using assms 1 2 Some unfolding stream_data_def
      by (auto simp: Let_def eof_def next_do_Inr split: sum.splits if_splits prod.splits)
    note ks = checked_state [OF c]
    have "contiguous (fs_offset s2) (spans d2 (fs_offset s2) eof) (fs_offset s2 + int (length (span_bytes (spans d2 (fs_offset s2) eof))))"
      by (rule spans_contiguous)
    from emit_take [OF e this] obtain k where k: "off = fs_offset s2 + int (length (span_bytes (take k (spans d2 (fs_offset s2) eof))))"
      "list_all2 (sent_as w v (fs_generation s2)) (take k (spans d2 (fs_offset s2) eof)) rows"
      "used2 = used + sum_list (map record_size rows)" "rows = [] \<or> used2 \<le> se_wire v" by blast
    have "contiguous (fs_offset s2) (take k (spans d2 (fs_offset s2) eof)) off"
      unfolding k(1) by (rule contiguous_take [OF spans_contiguous])
    moreover have "fs_generation s2 = fs_generation s" "fs_offset s \<le> fs_offset s2" using k1 k2 by auto
    ultimately show ?thesis using k ks sz unfolding sent_between_def by (auto intro!: exI [of _ "fs_offset s2"])
  qed
qed

lemma sent_between_rows:
  assumes "sent_between w v g lo rows hi"
  shows "lo \<le> hi" and "row \<in> set rows \<Longrightarrow> lg_file_generation row = g \<and> lo \<le> lg_byte_offset row \<and> lg_byte_offset row < hi"
    and "distinct (map lg_byte_offset rows)"
proof -
  obtain b ss where s: "lo \<le> b" "contiguous b ss hi" "list_all2 (sent_as w v g) ss rows" using assms by (auto simp: sent_between_def)
  note c = contiguous_starts [OF s(2)]
  have m: "map lg_byte_offset rows = map fst ss" using s(3) by (induction rule: list_all2_induct) (auto dest: sent_as_fields)
  show "lo \<le> hi" using c s(1) by simp
  show "distinct (map lg_byte_offset rows)" unfolding m using c strict_sorted_iff [of "map fst ss"] by simp
  show "lg_file_generation row = g \<and> lo \<le> lg_byte_offset row \<and> lg_byte_offset row < hi" if r: "row \<in> set rows"
  proof -
    obtain x where "x \<in> set ss" "sent_as w v g x row" using s(3) r by (metis in_set_conv_nth list_all2_conv_all_nth)
    then show ?thesis using c s(1) by (force dest: sent_as_fields)
  qed
qed

lemma open_state_cases:
  assumes "open_state w fresh found f t = (Inr s, t')"
  shows "(\<exists>s0. found = Some s0 \<and> fs_generation s = fs_generation s0 \<and> fs_offset s = fs_offset s0 \<and> fs_seek s = fs_seek s0 \<and> fs_skip s = fs_skip s0)
    \<or> ((found = None \<or> fresh) \<and> fs_generation s = rw_uuid w t \<and> t < t')"
  using assms clockedD [of "read_range w (rf_path f) n 1" for n]
  by (auto simp: open_state_def new_state_def next_do_Inr Let_def split: if_splits option.splits) (metis clocked_read_range clockedD Suc_le_eq)+

lemma stream_file_sent:
  assumes "stream_file w v fresh found f remaining used t = (Inr (rows, s', remaining', used'), t')"
  shows "\<exists>s t1. open_state w fresh found f t = (Inr s, t1) \<and> t1 \<le> t' \<and> fs_generation s' = fs_generation s
    \<and> sent_between w v (fs_generation s) (fs_offset s) rows (fs_offset s')
    \<and> used' = used + sum_list (map record_size rows) \<and> (rows = [] \<or> used' \<le> se_wire v) \<and> remaining' \<le> remaining \<and> (remaining' = remaining \<or> 0 \<le> remaining')"
proof -
  obtain s t1 where o1: "open_state w fresh found f t = (Inr s, t1)"
    using assms by (auto simp: stream_file_def next_do_Inr)
  show ?thesis
  proof (cases "fs_done s \<and> \<not> rf_active f \<or> remaining \<le> 0 \<or> se_wire v \<le> used")
    case True
    then have "rows = []" "s' = s" "remaining' = remaining" "used' = used" "t1 = t'"
      using assms o1 by (auto simp: stream_file_def next_do_Inr)
    then show ?thesis using o1 by (auto simp: sent_between_def intro!: exI [of _ "fs_offset s"] exI [of _ "[]"])
  next
    case False
    let ?wanted = "min remaining (max 0 (rf_size f - fs_offset s))"
    obtain data t2 where d: "read_range w (rf_path f) (fs_offset s) ?wanted t1 = (Inr data, t2)" "int (length data) = ?wanted"
      "stream_data w v f (remaining - int (length data)) used s data t2 = (Inr (rows, s', used'), t')"
      "remaining' = remaining - int (length data)"
      using assms o1 False unfolding stream_file_def by (auto simp: next_do_Inr Let_def split: if_splits)
    have "t1 \<le> t2" "t2 \<le> t'" using clockedD [OF clocked_read_range d(1)] clockedD [OF clocked_stream_data d(3)] by auto
    then show ?thesis using stream_data_sent [OF d(3)] o1 d(2,4) False by (auto intro!: exI [of _ s] exI [of _ t1])
  qed
qed

subsection \<open>A pass\<close>

definition row_key :: "log_input \<Rightarrow> string \<times> int" where
  \<comment> \<open>what makes a log row unique for one source and kind\<close>
  "row_key r = (lg_file_generation r, lg_byte_offset r)"

lemma stream_files_sent:
  assumes "stream_files w v fresh found fs remaining used t = (Inr (rows, ss), t')"
    and "distinct (map rf_path fs)" and "inj (rw_uuid w)"
    and "fresh \<longrightarrow> found = []"
    and "distinct (map (fs_generation \<circ> snd) found)" "distinct (map fst found)"
    and "\<forall>s\<in>snd ` set found. \<exists>i<t. fs_generation s = rw_uuid w i"
  shows "distinct (map row_key rows)
    \<and> distinct (map fs_generation ss)
    \<and> (\<forall>s\<in>set ss. (\<exists>i\<ge>t. i < t' \<and> fs_generation s = rw_uuid w i)
        \<or> (\<exists>f\<in>set fs. \<exists>s0. map_of found (rf_path f) = Some s0 \<and> fs_generation s = fs_generation s0 \<and> fs_offset s0 \<le> fs_offset s))
    \<and> (\<forall>r\<in>set rows. \<exists>s\<in>set ss. lg_file_generation r = fs_generation s \<and> lg_byte_offset r < fs_offset s
        \<and> (\<forall>s0\<in>snd ` set found. fs_generation s0 = fs_generation s \<longrightarrow> fs_offset s0 \<le> lg_byte_offset r))"
  using assms
proof (induction fs arbitrary: remaining used t rows ss)
  case Nil then show ?case by auto
next
  case (Cons f fs)
  obtain rows1 s1 remaining1 used1 t1 rows2 ss2 where
    1: "stream_file w v fresh (map_of found (rf_path f)) f remaining used t = (Inr (rows1, s1, remaining1, used1), t1)"
    and 2: "stream_files w v fresh found fs remaining1 used1 t1 = (Inr (rows2, ss2), t')"
    and r: "rows = rows1 @ rows2" "ss = s1 # ss2"
    using Cons.prems(1) by (auto simp: next_do_Inr)
  obtain s t0 where o0: "open_state w fresh (map_of found (rf_path f)) f t = (Inr s, t0)" "t0 \<le> t1"
    and g: "fs_generation s1 = fs_generation s" and sent: "sent_between w v (fs_generation s) (fs_offset s) rows1 (fs_offset s1)"
    using stream_file_sent [OF 1] by blast
  have t: "t \<le> t1" "t1 \<le> t'" using clockedD [OF clocked_stream_file 1] clockedD [OF clocked_stream_files 2] by auto
  have old: "\<forall>s\<in>snd ` set found. \<exists>i<t1. fs_generation s = rw_uuid w i" using Cons.prems(7) t(1) by (meson less_le_trans)
  have p: "distinct (map rf_path fs)" "rf_path f \<notin> rf_path ` set fs" using Cons.prems(2) by auto
  note IH = Cons.IH [OF 2 p(1) Cons.prems(3,4,5,6) old]
  have inj: "rw_uuid w i = rw_uuid w j \<longleftrightarrow> i = j" for i j using Cons.prems(3) by (simp add: inj_eq)
  have one: "x = y" if "x \<in> set found" "y \<in> set found" "fs_generation (snd x) = fs_generation (snd y)" for x y
    using that Cons.prems(5) by (auto simp: distinct_map inj_on_def)
  have first: "(\<exists>s0. (rf_path f, s0) \<in> set found \<and> fs_generation s = fs_generation s0 \<and> fs_offset s = fs_offset s0)
      \<or> (fs_generation s = rw_uuid w t \<and> t < t1)"
    using open_state_cases [OF o0(1)] o0(2) by (auto dest: map_of_SomeD)
  have old_generation: "\<exists>i<t. fs_generation (snd x) = rw_uuid w i" if "x \<in> set found" for x using Cons.prems(7) that by auto
  have rest: "(\<exists>i\<ge>t1. i < t' \<and> fs_generation x = rw_uuid w i)
      \<or> (\<exists>g\<in>set fs. \<exists>s0. (rf_path g, s0) \<in> set found \<and> fs_generation x = fs_generation s0)" if "x \<in> set ss2" for x
    using IH that by (blast dest: map_of_SomeD)
  have other: "fs_generation x \<noteq> fs_generation s" if x: "x \<in> set ss2" for x
  proof
    assume eq: "fs_generation x = fs_generation s"
    from first show False
    proof (elim disjE exE conjE)
      fix s0 assume s0: "(rf_path f, s0) \<in> set found" "fs_generation s = fs_generation s0"
      from rest [OF x] show False
      proof (elim disjE bexE exE conjE)
        fix i assume "t1 \<le> i" "fs_generation x = rw_uuid w i"
        then show False using old_generation [OF s0(1)] s0(2) eq t(1) inj by auto
      next
        fix g s1 assume "g \<in> set fs" "(rf_path g, s1) \<in> set found" "fs_generation x = fs_generation s1"
        then show False using one [OF s0(1), of "(rf_path g, s1)"] s0(2) eq p(2) by auto
      qed
    next
      assume s: "fs_generation s = rw_uuid w t" "t < t1"
      from rest [OF x] show False
      proof (elim disjE bexE exE conjE)
        fix i assume "t1 \<le> i" "fs_generation x = rw_uuid w i"
        then show False using s eq inj by auto
      next
        fix g s1 assume "(rf_path g, s1) \<in> set found" "fs_generation x = fs_generation s1"
        then show False using old_generation [of "(rf_path g, s1)"] s eq inj by auto
      qed
    qed
  qed
  note rows1 = sent_between_rows [OF sent]
  have "distinct (map row_key rows1)" using rows1(3) by (auto simp: distinct_map inj_on_def row_key_def)
  moreover have "row_key a \<noteq> row_key b \<and> row_key b \<noteq> row_key a" if a: "a \<in> set rows1" and b: "b \<in> set rows2" for a b
  proof -
    obtain x where "x \<in> set ss2" "lg_file_generation b = fs_generation x" using IH b by blast
    then show ?thesis using rows1(2) [OF a] other [of x] by (auto simp: row_key_def)
  qed
  ultimately have keys: "distinct (map row_key rows)" using IH r(1) by (auto simp: image_iff)
  have new: "\<exists>s\<in>set ss. lg_file_generation r = fs_generation s \<and> lg_byte_offset r < fs_offset s
      \<and> (\<forall>s0\<in>snd ` set found. fs_generation s0 = fs_generation s \<longrightarrow> fs_offset s0 \<le> lg_byte_offset r)" if "r \<in> set rows1" for r
  proof -
    have "fs_offset (snd x) \<le> fs_offset s" if "x \<in> set found" "fs_generation (snd x) = fs_generation s" for x
      using first
    proof (elim disjE exE conjE)
      fix s0 assume "(rf_path f, s0) \<in> set found" "fs_generation s = fs_generation s0" "fs_offset s = fs_offset s0"
      then show ?thesis using one [of x "(rf_path f, s0)"] that by auto
    next
      assume "fs_generation s = rw_uuid w t"
      then show ?thesis using old_generation [OF that(1)] that(2) inj by auto
    qed
    then show ?thesis using rows1(2) [OF that] g \<open>ss = s1 # ss2\<close> by force
  qed
  have "(\<exists>i\<ge>t. i < t' \<and> fs_generation s1 = rw_uuid w i)
      \<or> (\<exists>f'\<in>set (f # fs). \<exists>s0. map_of found (rf_path f') = Some s0 \<and> fs_generation s1 = fs_generation s0 \<and> fs_offset s0 \<le> fs_offset s1)"
    using open_state_cases [OF o0(1)] o0(2) t(2) g rows1(1) by auto
  moreover have "(\<exists>i\<ge>t. i < t' \<and> fs_generation x = rw_uuid w i)
      \<or> (\<exists>f'\<in>set (f # fs). \<exists>s0. map_of found (rf_path f') = Some s0 \<and> fs_generation x = fs_generation s0 \<and> fs_offset s0 \<le> fs_offset x)"
    if "x \<in> set ss2" for x using IH that t(1) by (meson le_trans list.set_intros(2))
  moreover have "distinct (map fs_generation ss)" using IH other g r(2) by auto
  ultimately show ?case using keys new IH r by auto
qed

subsection \<open>Any history of passes\<close>

lemma update_fresh: "k \<notin> fst ` set al \<Longrightarrow> AList.update k v al = al @ [(k, v)]"
  by (induction al) auto

lemma candidate_states_in: "i \<in> set (candidate_states hash states matched f) \<Longrightarrow> i < length states \<and> i \<notin> set matched"
  by (auto simp: candidate_states_def Let_def)

lemma first_confirmed_in: "first_confirmed w path states is t = (Inr (Some i), t') \<Longrightarrow> i \<in> set is"
  by (induction "is" arbitrary: t) (auto simp: Let_def next_do_Inr split: if_splits)

definition matching :: "file_state list \<Rightarrow> nat list \<Rightarrow> (string, file_state) dict \<Rightarrow> bool" where
  \<comment> \<open>every file that has a state has one of its own\<close>
  "matching states matched found \<longleftrightarrow> distinct (map fst found) \<and> distinct matched \<and> map snd found = map ((!) states) (rev matched)
     \<and> set matched \<subseteq> {0..<length states}"

lemma match_files_matching:
  assumes "match_files w states fs matched found t = (Inr (matched', found'), t')"
    and "distinct (map rf_path fs)" "fst ` set found \<inter> rf_path ` set fs = {}" "matching states matched found"
  shows "matching states matched' found'"
  using assms
proof (induction fs arbitrary: matched found t)
  case Nil then show ?case by auto
next
  case (Cons f fs)
  obtain c t1 where c: "(if rf_metadata_only f
        then give (find (\<lambda>i. i \<notin> set matched \<and> same_archived_file (states ! i) f) [0..<length states])
        else first_confirmed w (rf_path f) states (candidate_states (rw_hash w) states matched f)) t = (Inr c, t1)"
    and m: "(case c of None \<Rightarrow> match_files w states fs matched found
       | Some i \<Rightarrow> match_files w states fs (i # matched) (AList.update (rf_path f) (states ! i) found)) t1 = (Inr (matched', found'), t')"
    using Cons.prems(1) by (auto simp: next_do_Inr)
  show ?case
  proof (cases c)
    case None
    then show ?thesis using m Cons.prems by (intro Cons.IH [of matched found t1]) auto
  next
    case (Some i)
    have i: "i < length states \<and> i \<notin> set matched"
    proof (cases "rf_metadata_only f")
      case True
      then have "find (\<lambda>i. i \<notin> set matched \<and> same_archived_file (states ! i) f) [0..<length states] = Some i" using c Some by simp
      then show ?thesis by (auto simp: find_Some_iff)
    next
      case False
      then show ?thesis using c Some by (auto dest: first_confirmed_in candidate_states_in)
    qed
    have new: "rf_path f \<notin> fst ` set found" using Cons.prems(3) by auto
    then have "matching states (i # matched) (AList.update (rf_path f) (states ! i) found)"
      using Cons.prems(4) i by (auto simp: matching_def update_fresh)
    then show ?thesis using m Some Cons.prems(2,3) new
      by (intro Cons.IH [of "i # matched" "AList.update (rf_path f) (states ! i) found" t1]) (auto simp: update_fresh)
  qed
qed

lemma matching_distinct:
  assumes "matching states matched found" "distinct (map fs_generation states)"
  shows "distinct (map (fs_generation \<circ> snd) found)" "snd ` set found \<subseteq> set states"
proof -
  have m: "map snd found = map ((!) states) (rev matched)" using assms(1) by (simp add: matching_def)
  have "map (fs_generation \<circ> snd) found = map fs_generation (map snd found)" by simp
  then have "map (fs_generation \<circ> snd) found = map (\<lambda>i. fs_generation (states ! i)) (rev matched)"
    unfolding m by (simp add: comp_def)
  moreover have "inj_on (\<lambda>i. fs_generation (states ! i)) {0..<length states}"
    using nth_eq_iff_index_eq [OF assms(2)] by (auto simp: inj_on_def)
  then have "distinct (map (\<lambda>i. fs_generation (states ! i)) (rev matched))"
    using assms(1) by (auto simp: matching_def distinct_map intro: inj_on_subset)
  ultimately show "distinct (map (fs_generation \<circ> snd) found)" by simp
  have "snd ` set found = set (map snd found)" by simp
  then have "snd ` set found = (!) states ` set matched" unfolding m by simp
  then show "snd ` set found \<subseteq> set states" using assms(1) by (auto simp: matching_def)
qed

lemma for_each_paths:
  "(\<And>x y s s'. f x s = (Inr y, s') \<Longrightarrow> g y = g x) \<Longrightarrow> for_each f xs t = (Inr ys, t') \<Longrightarrow> map g ys = map g xs"
proof (induction xs arbitrary: t ys)
  case (Cons x xs)
  obtain y t1 zs where "f x t = (Inr y, t1)" "for_each f xs t1 = (Inr zs, t')" "ys = y # zs"
    using Cons.prems(2) by (auto simp: next_do_Inr)
  then show ?case using Cons.IH [OF Cons.prems(1)] Cons.prems(1) by simp
qed simp

definition lists_once :: "remote \<Rightarrow> bool" where
  \<comment> \<open>no path matches two of the patterns\<close>
  "lists_once w \<longleftrightarrow> (\<forall>t lines. rw_list w t = Inr lines \<longrightarrow> distinct (map (\<lambda>(_, _, _, path). path) lines))"

lemma remote_files_paths:
  assumes "remote_files w base previous t = (Inr fs, t')" "lists_once w"
  shows "distinct (map rf_path fs)"
proof -
  obtain lines fs' t1 where l: "rw_list w t = Inr lines" "for_each (describe w previous) (listed base lines) t1 = (Inr fs', t')"
    "fs = sort_key (\<lambda>f. (rf_active f, rf_modified f, rf_path f)) fs'"
    using assms(1) by (auto simp: remote_files_def next_do_Inr Let_def split: if_splits)
  have "map rf_path fs' = map rf_path (listed base lines)"
    by (rule for_each_paths [OF _ l(2)]) (auto simp: describe_def next_do_Inr Let_def split: if_splits option.splits)
  moreover have "distinct (map rf_path (listed base lines))"
  proof -
    have d: "distinct (map (\<lambda>x. snd (snd (snd x))) lines)" using assms(2) l(1) by (auto simp: lists_once_def case_prod_unfold)
    show ?thesis unfolding listed_def Let_def
      by (intro distinct_map_filterI) (use d in \<open>simp add: comp_def case_prod_unfold distinct_map_filterI\<close>)
  qed
  ultimately have "distinct (map rf_path fs')" by simp
  then show ?thesis unfolding l(3) by (simp add: distinct_map)
qed

record log_history =
  lh_cursor :: "file_state list option" \<comment> \<open>the stored cursor of the stream\<close>
  lh_rows :: "log_input list" \<comment> \<open>every record that was stored\<close>
  lh_clock :: nat

inductive log_step :: "(nat \<Rightarrow> string) \<Rightarrow> log_history \<Rightarrow> log_history \<Rightarrow> bool" for U where
  \<comment> \<open>a pass whose batch is stored together with its cursor, or one that fails or whose batch is lost\<close>
  stored: "stream w v (lh_cursor h) (lh_clock h) = (Inr (rows, ss), t) \<Longrightarrow> rw_uuid w = U \<Longrightarrow> lists_once w \<Longrightarrow>
    log_step U h \<lparr>lh_cursor = Some ss, lh_rows = lh_rows h @ rows, lh_clock = t\<rparr>"
| lost: "stream w v (lh_cursor h) (lh_clock h) = (r, t) \<Longrightarrow> log_step U h (h\<lparr>lh_clock := t\<rparr>)"

inductive log_reachable :: "(nat \<Rightarrow> string) \<Rightarrow> log_history \<Rightarrow> bool" for U where
  first: "log_reachable U \<lparr>lh_cursor = None, lh_rows = [], lh_clock = 0\<rparr>"
| later: "log_reachable U h \<Longrightarrow> log_step U h h' \<Longrightarrow> log_reachable U h'"

definition used_names :: "(nat \<Rightarrow> string) \<Rightarrow> nat \<Rightarrow> string set" where
  \<comment> \<open>the generations that can exist when the clock shows this\<close>
  "used_names U t = U ` {..<t} \<union> (\<lambda>i. ''gap-'' @ U i) ` {..<t}"

definition history_ok :: "(nat \<Rightarrow> string) \<Rightarrow> log_history \<Rightarrow> bool" where
  "history_ok U h \<longleftrightarrow> distinct (map row_key (lh_rows h))
     \<and> (\<forall>r\<in>set (lh_rows h). lg_file_generation r \<in> used_names U (lh_clock h))
     \<and> (case lh_cursor h of None \<Rightarrow> lh_rows h = []
        | Some ss \<Rightarrow> distinct (map fs_generation ss) \<and> (\<forall>s\<in>set ss. \<exists>i<lh_clock h. fs_generation s = U i)
            \<and> (\<forall>s\<in>set ss. \<forall>r\<in>set (lh_rows h). lg_file_generation r = fs_generation s \<longrightarrow> lg_byte_offset r < fs_offset s))"

lemma used_names_mono: "t \<le> t' \<Longrightarrow> used_names U t \<subseteq> used_names U t'"
  by (auto simp: used_names_def)

definition pass_ok :: "(nat \<Rightarrow> string) \<Rightarrow> file_state list \<Rightarrow> log_input list \<Rightarrow> file_state list \<Rightarrow> nat \<Rightarrow> nat \<Rightarrow> bool" where
  \<comment> \<open>what a pass between two clock readings does, without its warning\<close>
  "pass_ok U states rows ss t t' \<longleftrightarrow> distinct (map row_key rows) \<and> distinct (map fs_generation ss)
    \<and> (\<forall>s\<in>set ss. (\<exists>i\<ge>t. i < t' \<and> fs_generation s = U i)
        \<or> (\<exists>s0\<in>set states. fs_generation s = fs_generation s0 \<and> fs_offset s0 \<le> fs_offset s))
    \<and> (\<forall>r\<in>set rows. \<exists>s\<in>set ss. lg_file_generation r = fs_generation s \<and> lg_byte_offset r < fs_offset s
        \<and> (\<forall>s0\<in>set states. fs_generation s0 = fs_generation s \<longrightarrow> fs_offset s0 \<le> lg_byte_offset r))"

lemma stream_files_pass:
  assumes sf: "stream_files w v fresh found fs remaining used t = (Inr (rows, ss), t')"
    and m: "matching states matched found" and paths: "distinct (map rf_path fs)"
    and U: "inj (rw_uuid w)" and fr: "fresh \<longrightarrow> states = []"
    and st: "distinct (map fs_generation states)" "\<forall>s\<in>set states. \<exists>i<t. fs_generation s = rw_uuid w i"
  shows "pass_ok (rw_uuid w) states rows ss t t'"
proof -
  note md = matching_distinct [OF m st(1)]
  have old: "\<forall>s\<in>snd ` set found. \<exists>i<t. fs_generation s = rw_uuid w i" using md(2) st(2) by blast
  have "fresh \<longrightarrow> found = []" using fr m by (auto simp: matching_def)
  note S = stream_files_sent [OF sf paths U this md(1) _ old]
  have d: "distinct (map fst found)" using m by (simp add: matching_def)
  note S = S [OF d]
  have same: "s0 = s1" if "s0 \<in> set states" "s1 \<in> set states" "fs_generation s0 = fs_generation s1" for s0 s1
    using that st(1) by (auto simp: distinct_map inj_on_def)
  have state: "(\<exists>i\<ge>t. i < t' \<and> fs_generation s = rw_uuid w i)
      \<or> (\<exists>s0\<in>snd ` set found. fs_generation s = fs_generation s0 \<and> fs_offset s0 \<le> fs_offset s)" if s: "s \<in> set ss" for s
  proof -
    have "(\<exists>i\<ge>t. i < t' \<and> fs_generation s = rw_uuid w i)
        \<or> (\<exists>f\<in>set fs. \<exists>s0. map_of found (rf_path f) = Some s0 \<and> fs_generation s = fs_generation s0 \<and> fs_offset s0 \<le> fs_offset s)"
      using S s by blast
    then show ?thesis by (force dest: map_of_SomeD)
  qed
  have known: "s0 \<in> snd ` set found" if s: "s \<in> set ss" and s0: "s0 \<in> set states" "fs_generation s0 = fs_generation s" for s s0
    using state [OF s]
  proof (elim disjE exE bexE conjE)
    fix i assume i: "t \<le> i" "fs_generation s = rw_uuid w i"
    obtain j where "j < t" "fs_generation s0 = rw_uuid w j" using st(2) s0(1) by blast
    then show ?thesis using i s0(2) injD [OF U, of i j] by simp
  next
    fix s1 assume "s1 \<in> snd ` set found" "fs_generation s = fs_generation s1"
    then show ?thesis using same [OF s0(1), of s1] s0(2) md(2) by auto
  qed
  have "\<exists>s\<in>set ss. lg_file_generation r = fs_generation s \<and> lg_byte_offset r < fs_offset s
      \<and> (\<forall>s0\<in>set states. fs_generation s0 = fs_generation s \<longrightarrow> fs_offset s0 \<le> lg_byte_offset r)" if "r \<in> set rows" for r
    using S that known by meson
  moreover have "(\<exists>i\<ge>t. i < t' \<and> fs_generation s = rw_uuid w i)
      \<or> (\<exists>s0\<in>set states. fs_generation s = fs_generation s0 \<and> fs_offset s0 \<le> fs_offset s)" if "s \<in> set ss" for s
    using state [OF that] md(2) by blast
  ultimately show ?thesis using S unfolding pass_ok_def by blast
qed

abbreviation states_of :: "file_state list option \<Rightarrow> file_state list" where
  "states_of previous \<equiv> (case previous of None \<Rightarrow> [] | Some ss \<Rightarrow> ss)"

lemma stream_pass:
  assumes st: "stream w v previous t = (Inr (rows, ss), t')" and w: "lists_once w" "inj (rw_uuid w)"
    and old: "distinct (map fs_generation (states_of previous))" "\<forall>s\<in>set (states_of previous). \<exists>i<t. fs_generation s = rw_uuid w i"
  shows "\<exists>more t1. t \<le> t1 \<and> t1 \<le> t' \<and> pass_ok (rw_uuid w) (states_of previous) more ss t1 t'
    \<and> (rows = more \<or> (\<exists>i\<ge>t. i < t1 \<and> rows = gap_warning v (rw_uuid w i) # more))"
proof -
  obtain fs t1 matched found t2 where fs: "remote_files w (se_base v) previous t = (Inr fs, t1)"
    and m: "match_files w (states_of previous) fs [] [] t1 = (Inr (matched, found), t2)"
    and rest: "(if list_ex (\<lambda>i. i \<notin> set matched \<and> \<not> fs_done (states_of previous ! i)) [0..<length (states_of previous)]
          then next_do (run (\<lambda>t. Inr (rw_uuid w t))) (\<lambda>ident.
               next_do (stream_files w v (previous = None) found fs (se_allowance v) (record_size (gap_warning v ident))) (\<lambda>(rows, ss).
               give (gap_warning v ident # rows, ss)))
          else stream_files w v (previous = None) found fs (se_allowance v) 0) t2 = (Inr (rows, ss), t')"
    using st unfolding stream_def Let_def by (auto simp: next_do_Inr)
  have t: "t \<le> t1" "t1 \<le> t2" using clockedD [OF clocked_remote_files fs] clockedD [OF clocked_match_files m] by auto
  note paths = remote_files_paths [OF fs w(1)]
  have matching: "matching (states_of previous) matched found"
    using match_files_matching [OF m paths] by (simp add: matching_def)
  have fr: "previous = None \<longrightarrow> states_of previous = []" by auto
  have pass: "pass_ok (rw_uuid w) (states_of previous) more ss t3 t'"
    if "stream_files w v (previous = None) found fs (se_allowance v) n t3 = (Inr (more, ss), t')" "t2 \<le> t3" for more n t3
    using stream_files_pass [OF that(1) matching paths w(2) fr old(1)] old(2) that(2) t by (meson le_trans less_le_trans)
  show ?thesis
  proof (cases "list_ex (\<lambda>i. i \<notin> set matched \<and> \<not> fs_done (states_of previous ! i)) [0..<length (states_of previous)]")
    case True
    then obtain more n where sf: "stream_files w v (previous = None) found fs (se_allowance v) n (Suc t2) = (Inr (more, ss), t')"
      and r: "rows = gap_warning v (rw_uuid w t2) # more" using rest by (auto simp: next_do_Inr)
    have "\<exists>i\<ge>t. i < Suc t2 \<and> rows = gap_warning v (rw_uuid w i) # more" using t r by (intro exI [of _ t2]) simp
    then show ?thesis using pass [OF sf] clockedD [OF clocked_stream_files sf] t
      by (intro exI [of _ more] exI [of _ "Suc t2"]) simp
  next
    case False
    then have sf: "stream_files w v (previous = None) found fs (se_allowance v) 0 t2 = (Inr (rows, ss), t')" using rest by simp
    show ?thesis using pass [OF sf] clockedD [OF clocked_stream_files sf] t
      by (intro exI [of _ rows] exI [of _ t2]) auto
  qed
qed

lemma stored_keeps_ok:
  assumes h: "history_ok U h" and U: "inj U" "\<forall>i j. U i \<noteq> ''gap-'' @ U j"
    and t: "lh_clock h \<le> t1" "t1 \<le> t'" and pass: "pass_ok U (states_of (lh_cursor h)) sent ss t1 t'"
    and rows: "rows = sent \<or> (\<exists>i\<ge>lh_clock h. i < t1 \<and> rows = gap_warning v (U i) # sent)"
  shows "history_ok U \<lparr>lh_cursor = Some ss, lh_rows = lh_rows h @ rows, lh_clock = t'\<rparr>"
proof -
  let ?old = "states_of (lh_cursor h)"
  have inj: "U i = U j \<longleftrightarrow> i = j" for i j using U(1) by (simp add: inj_eq)
  have used: "lg_file_generation r \<in> used_names U (lh_clock h)" if "r \<in> set (lh_rows h)" for r using h that by (simp add: history_ok_def)
  have old: "\<exists>i<lh_clock h. fs_generation s = U i" if "s \<in> set ?old" for s
    using h that by (auto simp: history_ok_def split: option.splits)
  have before: "lg_byte_offset r < fs_offset s" if "s \<in> set ?old" "r \<in> set (lh_rows h)" "lg_file_generation r = fs_generation s" for r s
    using h that by (auto simp: history_ok_def split: option.splits)
  have name: "\<exists>i<t'. fs_generation s = U i" if "s \<in> set ss" for s
    using pass that old t unfolding pass_ok_def by (metis le_trans less_le_trans)
  have state: "(\<exists>i\<ge>t1. fs_generation s = U i) \<or> (\<exists>s0\<in>set ?old. fs_generation s = fs_generation s0 \<and> fs_offset s0 \<le> fs_offset s)"
    if "s \<in> set ss" for s using pass that unfolding pass_ok_def by blast
  have above: "lg_byte_offset r < fs_offset s" if s: "s \<in> set ss" and r: "r \<in> set (lh_rows h)" "lg_file_generation r = fs_generation s" for r s
    using state [OF s]
  proof (elim disjE exE bexE conjE)
    fix i assume "t1 \<le> i" "fs_generation s = U i"
    then show ?thesis using used [OF r(1)] r(2) t(1) inj U(2) by (auto simp: used_names_def)
  next
    fix s0 assume "s0 \<in> set ?old" "fs_generation s = fs_generation s0" "fs_offset s0 \<le> fs_offset s"
    then show ?thesis using before [of s0 r] r by auto
  qed
  have sent: "\<exists>s\<in>set ss. lg_file_generation r = fs_generation s \<and> lg_byte_offset r < fs_offset s
      \<and> (\<forall>s0\<in>set ?old. fs_generation s0 = fs_generation s \<longrightarrow> fs_offset s0 \<le> lg_byte_offset r)" if "r \<in> set sent" for r
    using pass that unfolding pass_ok_def by blast
  have new: "row_key r0 \<noteq> row_key r" if r0: "r0 \<in> set (lh_rows h)" and r: "r \<in> set sent" for r0 r
  proof
    assume k: "row_key r0 = row_key r"
    obtain s where s: "s \<in> set ss" "lg_file_generation r = fs_generation s"
      "\<forall>s0\<in>set ?old. fs_generation s0 = fs_generation s \<longrightarrow> fs_offset s0 \<le> lg_byte_offset r" using sent [OF r] by blast
    from state [OF s(1)] show False
    proof (elim disjE exE bexE conjE)
      fix i assume "t1 \<le> i" "fs_generation s = U i"
      then show ?thesis using used [OF r0] k s(2) t(1) inj U(2) by (auto simp: used_names_def row_key_def)
    next
      fix s0 assume "s0 \<in> set ?old" "fs_generation s = fs_generation s0"
      then show ?thesis using before [of s0 r0] r0 k s(2,3) by (force simp: row_key_def)
    qed
  qed
  have names: "lg_file_generation r \<in> U ` {..<t'}" if "r \<in> set sent" for r using sent [OF that] name by force
  have keys: "distinct (map row_key (lh_rows h))" "distinct (map row_key sent)" using h pass by (auto simp: history_ok_def pass_ok_def)
  have gap: "lg_file_generation r \<noteq> ''gap-'' @ U i" if r: "r \<in> set sent" for r i
  proof -
    obtain j where "lg_file_generation r = U j" using names [OF r] by blast
    then show ?thesis using U(2) by simp
  qed
  have gap': "lg_file_generation r \<noteq> ''gap-'' @ U i" if "r \<in> set (lh_rows h)" "lh_clock h \<le> i" for r i
    using used [OF that(1)] that(2) inj U(2) by (auto simp: used_names_def)
  have "distinct (map row_key (lh_rows h @ rows))"
  proof -
    have base: "distinct (map row_key (lh_rows h @ sent))" using keys new by (auto simp: image_iff) (metis new)
    from rows show ?thesis
    proof (elim disjE exE conjE)
      fix i assume i: "lh_clock h \<le> i" "rows = gap_warning v (U i) # sent"
      have "row_key (gap_warning v (U i)) \<notin> row_key ` set (lh_rows h @ sent)"
        using gap gap' i(1) by (auto simp: row_key_def gap_warning_def) metis+
      then show ?thesis using base i(2) by (auto simp del: distinct_map)
    qed (use base in simp)
  qed
  moreover have "\<forall>r\<in>set (lh_rows h @ rows). lg_file_generation r \<in> used_names U t'"
  proof -
    have "lg_file_generation r \<in> used_names U t'" if "r \<in> set (lh_rows h)" for r
      using used [OF that] used_names_mono [of "lh_clock h" t' U] t by auto
    moreover have "lg_file_generation r \<in> used_names U t'" if "r \<in> set sent" for r using names [OF that] by (simp add: used_names_def)
    moreover have "lg_file_generation (gap_warning v (U i)) \<in> used_names U t'" if "i < t1" for i
      using that t by (auto simp: used_names_def gap_warning_def)
    ultimately show ?thesis using rows by auto
  qed
  moreover have "\<forall>s\<in>set ss. \<forall>r\<in>set (lh_rows h @ rows). lg_file_generation r = fs_generation s \<longrightarrow> lg_byte_offset r < fs_offset s"
  proof (intro ballI impI)
    fix s r assume s: "s \<in> set ss" and r: "r \<in> set (lh_rows h @ rows)" "lg_file_generation r = fs_generation s"
    have "lg_byte_offset r < fs_offset s" if r': "r \<in> set sent"
    proof -
      obtain s' where s': "s' \<in> set ss" "lg_file_generation r = fs_generation s'" "lg_byte_offset r < fs_offset s'" using sent [OF r'] by blast
      have "s' = s" using pass s s'(1,2) r(2) by (auto simp: pass_ok_def distinct_map inj_on_def)
      then show ?thesis using s'(3) by simp
    qed
    moreover have "fs_generation s \<noteq> ''gap-'' @ U i \<and> ''gap-'' @ U i \<noteq> fs_generation s" for i
    proof -
      obtain j where "fs_generation s = U j" using name [OF s] by blast
      then show ?thesis using U(2) by metis
    qed
    ultimately show "lg_byte_offset r < fs_offset s" using rows r above [OF s] by (auto simp: gap_warning_def)
  qed
  ultimately show ?thesis using name pass by (simp add: history_ok_def pass_ok_def)
qed

lemma log_step_ok:
  assumes "log_step U h h'" "history_ok U h" "inj U" "\<forall>i j. U i \<noteq> ''gap-'' @ U j"
  shows "history_ok U h'"
  using assms(1)
proof cases
  case (stored w v rows ss t)
  have old: "distinct (map fs_generation (states_of (lh_cursor h)))" "\<forall>s\<in>set (states_of (lh_cursor h)). \<exists>i<lh_clock h. fs_generation s = rw_uuid w i"
    using assms(2) stored(3) by (auto simp: history_ok_def split: option.splits)
  obtain sent t1 where "lh_clock h \<le> t1" "t1 \<le> t" "pass_ok (rw_uuid w) (states_of (lh_cursor h)) sent ss t1 t"
    "rows = sent \<or> (\<exists>i\<ge>lh_clock h. i < t1 \<and> rows = gap_warning v (rw_uuid w i) # sent)"
    using stream_pass [OF stored(2,4) _ old] assms(3) stored(3) by auto
  then show ?thesis using stored_keeps_ok [OF assms(2,3,4), of t1 t sent ss rows v] stored(1,3) by auto
next
  case (lost w v r t)
  then have "lh_clock h \<le> t" by (intro clockedD [OF clocked_stream])
  then show ?thesis using assms(2) lost(1) used_names_mono [of "lh_clock h" t U]
    by (auto simp: history_ok_def split: option.splits) (meson less_le_trans)+
qed


subsection \<open>Nothing is left out\<close>

lemma span_list_restart:
  "span_list L b eof = A @ B \<Longrightarrow> \<exists>L1 L2. L = L1 @ L2 \<and> concat L1 = span_bytes A \<and> B = span_list L2 (b + int (length (span_bytes A))) eof"
proof (induction L b eof arbitrary: A rule: span_list.induct)
  case (1 start eof) then show ?case by simp
next
  case (2 line lines start eof)
  define body where "body = (if stamp_base line then takeWhile (\<lambda>l. \<not> stamp_base l) lines else [])"
  define rest where "rest = drop (length body) lines"
  define e where "e = start + int (length (line @ concat body))"
  show ?case
  proof (cases A)
    case Nil then show ?thesis using 2(2) by (intro exI [of _ "[]"] exI [of _ "line # lines"]) simp
  next
    case (Cons a A')
    have unfolded: "span_list (line # lines) start eof = (if stamp_base line \<and> rest = [] \<and> \<not> eof then [] else (start, e, line @ concat body) # span_list rest e eof)"
      unfolding span_list.simps Let_def body_def [symmetric] rest_def [symmetric] e_def [symmetric] ..
    have go: "\<not> (stamp_base line \<and> rest = [] \<and> \<not> eof)" and a: "a = (start, e, line @ concat body)" "span_list rest e eof = A' @ B"
      using 2(2) Cons unfolding unfolded by (auto split: if_splits)
    obtain L1 L2 where L: "rest = L1 @ L2" "concat L1 = span_bytes A'" "B = span_list L2 (e + int (length (span_bytes A'))) eof"
      using 2(1) [OF body_def rest_def refl e_def go a(2)] by blast
    have "lines = body @ rest" by (auto simp: rest_def body_def dropWhile_stop)
    then have "line # lines = (line # body @ L1) @ L2" using L(1) by simp
    moreover have "concat (line # body @ L1) = span_bytes A" using L(2) Cons a(1) by simp
    moreover have "e + int (length (span_bytes A')) = start + int (length (span_bytes A))" by (simp add: Cons a(1) e_def)
    ultimately show ?thesis using L(3) by metis
  qed
qed

lemma spans_restart:
  assumes "spans d start eof = A @ B"
  shows "B = spans (drop (length (span_bytes A)) d) (start + int (length (span_bytes A))) eof"
proof -
  obtain L1 L2 where L: "complete_lines d eof = L1 @ L2" "concat L1 = span_bytes A" "B = span_list L2 (start + int (length (span_bytes A))) eof"
    using span_list_restart assms unfolding spans_eq by blast
  have "complete_lines (drop (length (span_bytes A)) d) eof = L2"
  proof (cases eof)
    case True
    then have s: "split_lines d = L1 @ L2" using L(1) by (simp add: complete_lines_def Let_def)
    have "d = concat L1 @ concat L2" using concat_split_lines [of d] s by simp
    then have d: "drop (length (span_bytes A)) d = concat L2" unfolding L(2) [symmetric] by simp
    have "split_lines (concat L2) = L2" using split_lines_prefix [OF s] by (cases "L2 = []") auto
    then show ?thesis unfolding d using True by (simp add: complete_lines_def Let_def)
  next
    case False
    obtain M where M: "split_lines d = complete_lines d False @ M" "settled (complete_lines d False) M" by (rule complete_lines_cases)
    have s: "split_lines d = L1 @ (L2 @ M)" using M(1) L(1) False by simp
    have "d = concat L1 @ concat (L2 @ M)" using concat_split_lines [of d] s by simp
    then have d: "drop (length (span_bytes A)) d = concat (L2 @ M)" unfolding L(2) [symmetric] by simp
    have ok1: "settled L1 (L2 @ M)" and ok2: "settled L2 M" using M(2) L(1) False by (cases L2; auto simp: settled_def split: if_splits)+
    have s2: "split_lines (concat (L2 @ M)) = L2 @ M" using split_lines_prefix [OF s] ok1 unfolding settled_def by blast
    have "complete_lines (d @ []) False = complete_lines d False @ complete_lines (concat M @ []) False" by (rule complete_lines_prefix [OF M])
    then have "complete_lines (concat M @ []) False = []" by simp
    then show ?thesis using complete_lines_prefix [OF s2 ok2, of "[]" False] False unfolding d by simp
  qed
  then show ?thesis by (simp add: L(3) spans_eq)
qed

text \<open>C16: 
  The active log is delivered without gaps, however little of it a pass may read or send: what a pass stores,
  followed by what a pass over the rest would find from the saved offset, is what reading everything from the old offset
  finds. The budgets decide where a pass stops, never what is skipped.
\<close>
theorem active_log_continues:
  assumes st: "stream_file w v False (Some s) f remaining used t = (Inr (rows, s', remaining', used'), t')"
    and f: "rf_active f" "\<not> fs_seek s" "\<not> fs_skip s" "0 \<le> fs_offset s"
    and content: "\<forall>t n. 0 \<le> n \<longrightarrow> rw_read w t (rf_path f) (fs_offset s) n = Inr (take (nat n) (drop (nat (fs_offset s)) content))"
  shows "\<exists>ss. list_all2 (sent_as w v (fs_generation s)) ss rows \<and>
    spans (drop (nat (fs_offset s)) content) (fs_offset s) False = ss @ spans (drop (nat (fs_offset s')) content) (fs_offset s') False"
proof -
  let ?s = "s\<lparr>fs_identity := rf_identity f, fs_disk_size := rf_disk_size f, fs_modified := rf_modified f,
    fs_metadata_only := rf_metadata_only f, fs_done := False\<rparr>"
  have o: "open_state w False (Some s) f t = (Inr ?s, t)" using f by (auto simp: open_state_def next_do_Inr)
  show ?thesis
  proof (cases "remaining \<le> 0 \<or> se_wire v \<le> used")
    case True
    then have "rows = []" "s' = ?s" using st o f by (auto simp: stream_file_def next_do_Inr)
    then show ?thesis by (intro exI [of _ "[]"]) simp
  next
    case False
    define D where "D = drop (nat (fs_offset s)) content"
    let ?wanted = "min remaining (max 0 (rf_size f - fs_offset s))"
    define data where "data = take (nat ?wanted) D"
    obtain read t2 where r: "read_range w (rf_path f) (fs_offset s) ?wanted t = (Inr read, t2)"
      and d: "stream_data w v f (remaining - int (length read)) used ?s read t2 = (Inr (rows, s', used'), t')"
      using st o f(1) False unfolding stream_file_def by (auto simp: next_do_Inr Let_def split: if_splits)
    have "0 \<le> ?wanted" using False by simp
    then have "rw_read w t (rf_path f) (fs_offset s) ?wanted = Inr data" using content unfolding data_def D_def by blast
    moreover have "rw_read w t (rf_path f) (fs_offset s) ?wanted = Inr read" using r by (auto simp: read_range_def split: if_splits)
    ultimately have "read = data" by simp
    note d = d [unfolded this]
    obtain used2 off where e: "emit w v (fs_generation s) (spans data (fs_offset s) False) used (fs_offset s) = Inr (rows, used2, off)"
      and c: "fs_offset s' = off"
      using d f unfolding stream_data_def skip_line_def seek_record_def
      by (auto simp: Let_def next_do_Inr dest!: checked_state split: sum.splits if_splits)
    from emit_take [OF e spans_contiguous] obtain k where k: "off = fs_offset s + int (length (span_bytes (take k (spans data (fs_offset s) False))))"
      "list_all2 (sent_as w v (fs_generation s)) (take k (spans data (fs_offset s) False)) rows" by blast
    define ss where "ss = take k (spans data (fs_offset s) False)"
    let ?n = "length (span_bytes ss)"
    have D: "D = data @ drop (nat ?wanted) D" by (simp add: data_def)
    obtain tail where "spans D (fs_offset s) False = spans data (fs_offset s) False @ tail"
      using spans_grow(1) [of data "drop (nat ?wanted) D" "fs_offset s" False] D by metis
    then have all: "spans D (fs_offset s) False = ss @ (drop k (spans data (fs_offset s) False) @ tail)" by (simp add: ss_def)
    have "drop ?n D = drop (nat off) content" using k(1) f(4) by (simp add: D_def ss_def nat_add_distrib add.commute)
    then show ?thesis using spans_restart [OF all] all k c unfolding D_def [symmetric] ss_def [symmetric]
      by (intro exI [of _ ss]) simp
  qed
qed

subsection \<open>Budgets\<close>

lemma stream_files_budget:
  "stream_files w v fresh found fs remaining used t = (Inr (rows, ss), t') \<Longrightarrow> rows = [] \<or> used + sum_list (map record_size rows) \<le> se_wire v"
proof (induction fs arbitrary: remaining used t rows ss)
  case (Cons f fs)
  obtain rows1 s1 remaining1 used1 t1 rows2 ss2 where
    1: "stream_file w v fresh (map_of found (rf_path f)) f remaining used t = (Inr (rows1, s1, remaining1, used1), t1)"
    and 2: "stream_files w v fresh found fs remaining1 used1 t1 = (Inr (rows2, ss2), t')" and r: "rows = rows1 @ rows2"
    using Cons.prems by (auto simp: next_do_Inr)
  have "used1 = used + sum_list (map record_size rows1)" "rows1 = [] \<or> used1 \<le> se_wire v" using stream_file_sent [OF 1] by auto
  then show ?case using Cons.IH [OF 2] r by auto
qed simp

text \<open>
  The records of a pass stay within the share of the message that the stream may use, counted as JSON with every
  escape; only the warning about a gap can exceed it, and then nothing else is sent.
\<close>
theorem pass_fits_its_share:
  assumes "stream w v previous t = (Inr (rows, ss), t')"
  shows "rows = [] \<or> sum_list (map record_size rows) \<le> se_wire v \<or> (\<exists>i. rows = [gap_warning v i])"
proof -
  obtain fs t1 matched found t2 where
    rest: "(if list_ex (\<lambda>i. i \<notin> set matched \<and> \<not> fs_done (states_of previous ! i)) [0..<length (states_of previous)]
          then next_do (run (\<lambda>t. Inr (rw_uuid w t))) (\<lambda>ident.
               next_do (stream_files w v (previous = None) found fs (se_allowance v) (record_size (gap_warning v ident))) (\<lambda>(rows, ss).
               give (gap_warning v ident # rows, ss)))
          else stream_files w v (previous = None) found fs (se_allowance v) 0) t2 = (Inr (rows, ss), t')"
    using assms unfolding stream_def Let_def by (auto simp: next_do_Inr)
  show ?thesis
  proof (cases "list_ex (\<lambda>i. i \<notin> set matched \<and> \<not> fs_done (states_of previous ! i)) [0..<length (states_of previous)]")
    case True
    then obtain more i where sf: "stream_files w v (previous = None) found fs (se_allowance v) (record_size (gap_warning v i)) (Suc t2) = (Inr (more, ss), t')"
      and r: "rows = gap_warning v i # more" using rest by (auto simp: next_do_Inr)
    then show ?thesis using stream_files_budget [OF sf] by auto
  next
    case False
    then have "stream_files w v (previous = None) found fs (se_allowance v) 0 t2 = (Inr (rows, ss), t')" using rest by simp
    from stream_files_budget [OF this] show ?thesis by auto
  qed
qed

subsection \<open>A host\<close>

definition sample_name :: "nat \<Rightarrow> string" where
  "sample_name n = replicate n (CHR ''a'')"

definition sample_line :: "string \<Rightarrow> string" where
  "sample_line s = s @ [CHR 0x0A]"

definition host_log :: string where
  "host_log = sample_line ''2024-01-01T00:00:00Z up'' @ sample_line '' more'' @ sample_line ''2024-01-01T00:00:05Z low'' @ sample_line ''2024-01-01T00:00:09Z end''"

definition sample_remote_host :: remote where
  "sample_remote_host =
     \<lparr>rw_list = (\<lambda>_. Inr [(''1:7'', 80, 9, ''/v/k.log'')]), rw_logical = (\<lambda>_ _. Inl Remote_failure),
      rw_read = (\<lambda>_ _ offset n. Inr (take (nat n) (drop (nat offset) host_log))), rw_stat = (\<lambda>_ _. Inr (''1:7'', 80, 9)),
      rw_uuid = sample_name, rw_hash = (\<lambda>s. s), rw_decode = (\<lambda>s. s)\<rparr>"

definition sample_stream :: stream_env where
  "sample_stream = \<lparr>se_source_id = ''s'', se_source_host = ''h'', se_kind = ''k'', se_base = ''/v/k.log'', se_allowance = 1000, se_wire = 400, se_now = 0, se_gap_text = ''gap''\<rparr>"

definition sample_file :: remote_file where
  "sample_file = \<lparr>rf_path = ''/v/k.log'', rf_identity = ''1:7'', rf_size = 80, rf_modified = 9, rf_head = host_log, rf_active = True,
     rf_disk_size = 80, rf_metadata_only = False\<rparr>"

definition sample_state :: "int \<Rightarrow> file_state" where
  "sample_state n = \<lparr>fs_generation = ''aa'', fs_identity = ''1:7'', fs_offset = n, fs_prefix_length = 80, fs_prefix_hash = host_log,
     fs_done = False, fs_disk_size = 80, fs_modified = 9, fs_metadata_only = False, fs_checkpoint_length = n,
     fs_checkpoint_hash = take (nat n) host_log, fs_seek = False, fs_skip = False\<rparr>"

definition sample_row :: "int \<Rightarrow> string \<Rightarrow> int \<Rightarrow> log_input" where
  "sample_row n s t = \<lparr>lg_source_id = ''s'', lg_host = ''h'', lg_log_kind = ''k'', lg_file_generation = ''aa'', lg_byte_offset = n,
     lg_collected_at = utc 0, lg_message = s, lg_occurred_at = Some (utc t), lg_severity = None\<rparr>"

definition sample_rows :: "log_input list" where
  "sample_rows = [sample_row 0 (sample_line ''2024-01-01T00:00:00Z up'' @ '' more'') 63839664000000000, sample_row 30 ''2024-01-01T00:00:05Z low'' 63839664005000000]"

lemma sample_log_spans: "spans host_log 0 False = [(0, 30, sample_line ''2024-01-01T00:00:00Z up'' @ sample_line '' more''), (30, 55, sample_line ''2024-01-01T00:00:05Z low'')]"
  "spans (drop 30 host_log) 30 False = [(30, 55, sample_line ''2024-01-01T00:00:05Z low'')]"
  by code_simp+

lemma sample_records:
  "record_of (\<lambda>s. s) (0, 30, sample_line ''2024-01-01T00:00:00Z up'' @ sample_line '' more'')
     = Inr \<lparr>lp_begin = 0, lp_end = 30, lp_text = sample_line ''2024-01-01T00:00:00Z up'' @ '' more'', lp_time = Some 63839664000000000, lp_level = None\<rparr>"
  "record_of (\<lambda>s. s) (30, 55, sample_line ''2024-01-01T00:00:05Z low'')
     = Inr \<lparr>lp_begin = 30, lp_end = 55, lp_text = ''2024-01-01T00:00:05Z low'', lp_time = Some 63839664005000000, lp_level = None\<rparr>"
  by code_simp+

lemma sample_sizes: "map record_size sample_rows = [245, 240]"
  by code_simp

lemma sample_emitted:
  "emit sample_remote_host sample_stream ''aa'' (spans host_log 0 False) 0 0 = Inr ([hd sample_rows], 245, 30)"
  "emit sample_remote_host sample_stream ''aa'' (spans (drop 30 host_log) 30 False) 0 30 = Inr ([sample_rows ! 1], 240, 55)"
proof -
  have r: "log_record_input sample_stream ''aa'' \<lparr>lp_begin = 0, lp_end = 30, lp_text = sample_line ''2024-01-01T00:00:00Z up'' @ '' more'', lp_time = Some 63839664000000000, lp_level = None\<rparr> = hd sample_rows"
    "log_record_input sample_stream ''aa'' \<lparr>lp_begin = 30, lp_end = 55, lp_text = ''2024-01-01T00:00:05Z low'', lp_time = Some 63839664005000000, lp_level = None\<rparr> = sample_rows ! 1"
    by (simp_all add: log_record_input_def sample_stream_def sample_rows_def sample_row_def)
  have z: "record_size (hd sample_rows) = 245" "record_size (sample_rows ! 1) = 240" using sample_sizes by (simp_all add: sample_rows_def)
  have d: "rw_decode sample_remote_host = (\<lambda>s. s)" "se_wire sample_stream = 400" by (simp_all add: sample_remote_host_def sample_stream_def)
  show "emit sample_remote_host sample_stream ''aa'' (spans host_log 0 False) 0 0 = Inr ([hd sample_rows], 245, 30)"
    "emit sample_remote_host sample_stream ''aa'' (spans (drop 30 host_log) 30 False) 0 30 = Inr ([sample_rows ! 1], 240, 55)"
    unfolding sample_log_spans emit.simps d sample_records by (simp_all add: map_error_def Let_def r z del: One_nat_def)
qed

lemma sample_checked:
  "checked sample_remote_host sample_file 80 (sample_state 0\<lparr>fs_offset := 30\<rparr>) 4 = (Inr (sample_state 30), 7)"
  "checked sample_remote_host sample_file 50 (sample_state 30\<lparr>fs_offset := 55\<rparr>) 11 = (Inr (sample_state 55), 14)"
  by code_simp+

lemma sample_opened:
  "open_state sample_remote_host True None sample_file 2 = (Inr (sample_state 0), 3)"
  "open_state sample_remote_host False (Some (sample_state 30)) sample_file 10 = (Inr (sample_state 30), 10)"
  by code_simp+

lemma sample_read:
  "read_range sample_remote_host ''/v/k.log'' 0 80 3 = (Inr host_log, 4)"
  "read_range sample_remote_host ''/v/k.log'' 30 50 10 = (Inr (drop 30 host_log), 11)"
  by code_simp+

lemma sample_listed:
  "remote_files sample_remote_host ''/v/k.log'' None 0 = (Inr [sample_file], 2)"
  "remote_files sample_remote_host ''/v/k.log'' (Some [sample_state 30]) 7 = (Inr [sample_file], 9)"
  by code_simp+

lemma sample_matched:
  "match_files sample_remote_host [] [sample_file] [] [] 2 = (Inr ([], []), 2)"
  "match_files sample_remote_host [sample_state 30] [sample_file] [] [] 9 = (Inr ([0], [(''/v/k.log'', sample_state 30)]), 10)"
  by code_simp+

lemma sample_length: "length host_log = 80"
  by code_simp

lemma sample_file_rounds:
  "stream_file sample_remote_host sample_stream True None sample_file 1000 0 2 = (Inr ([hd sample_rows], sample_state 30, 920, 245), 7)"
  "stream_file sample_remote_host sample_stream False (Some (sample_state 30)) sample_file 1000 0 10 = (Inr ([sample_rows ! 1], sample_state 55, 950, 240), 14)"
proof -
  have f: "rf_active sample_file" "rf_path sample_file = ''/v/k.log''" "rf_size sample_file = 80" "se_wire sample_stream = 400" "se_allowance sample_stream = 1000"
    by (simp_all add: sample_file_def sample_stream_def)
  have s: "fs_offset (sample_state n) = n" "fs_generation (sample_state n) = ''aa''" "fs_done (sample_state n) = False"
    "skip_line (sample_state n) d = (sample_state n, Some d)" "seek_record (sample_state n) d = (sample_state n, d)" for n d
    by (simp_all add: sample_state_def skip_line_def seek_record_def)
  have u: "(sample_state n)\<lparr>fs_offset := m, fs_done := False\<rparr> = (sample_state n)\<lparr>fs_offset := m\<rparr>" for n m by (simp add: sample_state_def)
  have ne: "host_log \<noteq> []" using sample_length by auto
  have "stream_data sample_remote_host sample_stream sample_file 920 0 (sample_state 0) host_log 4 = (Inr ([hd sample_rows], sample_state 30, 245), 7)"
    by (simp add: next_do_def stream_data_def s f sample_emitted u sample_length sample_checked(1) give_def del: One_nat_def)
  then show "stream_file sample_remote_host sample_stream True None sample_file 1000 0 2 = (Inr ([hd sample_rows], sample_state 30, 920, 245), 7)"
    unfolding stream_file_def by (simp add: next_do_def sample_opened(1) s f sample_read(1) sample_length give_def del: One_nat_def)
  have "stream_data sample_remote_host sample_stream sample_file 950 0 (sample_state 30) (drop 30 host_log) 11 = (Inr ([sample_rows ! 1], sample_state 55, 240), 14)"
    by (simp add: next_do_def stream_data_def s f sample_emitted u sample_length sample_checked(2) give_def del: One_nat_def)
  then show "stream_file sample_remote_host sample_stream False (Some (sample_state 30)) sample_file 1000 0 10 = (Inr ([sample_rows ! 1], sample_state 55, 950, 240), 14)"
    unfolding stream_file_def by (simp add: next_do_def sample_opened(2) s f sample_read(2) sample_length give_def del: One_nat_def)
qed

lemma sample_streams:
  "stream sample_remote_host sample_stream None 0 = (Inr ([hd sample_rows], [sample_state 30]), 7)"
  "stream sample_remote_host sample_stream (Some [sample_state 30]) 7 = (Inr ([sample_rows ! 1], [sample_state 55]), 14)"
proof -
  have f: "rf_path sample_file = ''/v/k.log''" "se_base sample_stream = ''/v/k.log''" "se_allowance sample_stream = 1000"
    by (simp_all add: sample_file_def sample_stream_def)
  have "stream_files sample_remote_host sample_stream True [] [sample_file] 1000 0 2 = (Inr ([hd sample_rows], [sample_state 30]), 7)"
    by (simp add: next_do_def f sample_file_rounds(1) give_def del: One_nat_def)
  then show "stream sample_remote_host sample_stream None 0 = (Inr ([hd sample_rows], [sample_state 30]), 7)"
    by (simp add: next_do_def Let_def stream_def f sample_listed(1) sample_matched(1) del: match_files.simps stream_files.simps)
  have "stream_files sample_remote_host sample_stream False [(''/v/k.log'', sample_state 30)] [sample_file] 1000 0 10 = (Inr ([sample_rows ! 1], [sample_state 55]), 14)"
    by (simp add: next_do_def f sample_file_rounds(2) give_def del: One_nat_def)
  then show "stream sample_remote_host sample_stream (Some [sample_state 30]) 7 = (Inr ([sample_rows ! 1], [sample_state 55]), 14)"
    by (simp add: next_do_def Let_def stream_def f sample_listed(2) sample_matched(2) del: match_files.simps stream_files.simps One_nat_def)
qed

definition sample_passes :: log_history where
  "sample_passes = \<lparr>lh_cursor = Some [sample_state 55], lh_rows = sample_rows, lh_clock = 14\<rparr>"

lemma sample_passes_reachable: "log_reachable sample_name sample_passes"
proof -
  let ?h = "\<lparr>lh_cursor = Some [sample_state 30], lh_rows = [hd sample_rows], lh_clock = 7\<rparr>"
  have w: "rw_uuid sample_remote_host = sample_name" "lists_once sample_remote_host"
    by (simp_all add: sample_remote_host_def lists_once_def)
  have "log_step sample_name \<lparr>lh_cursor = None, lh_rows = [], lh_clock = 0\<rparr> ?h"
    using log_step.stored [OF _ w, of sample_stream "\<lparr>lh_cursor = None, lh_rows = [], lh_clock = 0\<rparr>"] sample_streams(1) by force
  moreover have "log_step sample_name ?h sample_passes"
    using log_step.stored [OF _ w, of sample_stream ?h] sample_streams(2) by (force simp: sample_passes_def sample_rows_def)
  ultimately show ?thesis by (meson log_reachable.intros)
qed


lemma active_log_continues_witness:
  "\<exists>ss. list_all2 (sent_as sample_remote_host sample_stream ''aa'') ss [sample_rows ! 1] \<and>
    spans (drop 30 host_log) 30 False = ss @ spans (drop 55 host_log) 55 False"
proof -
  have "\<exists>ss. list_all2 (sent_as sample_remote_host sample_stream (fs_generation (sample_state 30))) ss [sample_rows ! 1] \<and>
    spans (drop (nat (fs_offset (sample_state 30))) host_log) (fs_offset (sample_state 30)) False
      = ss @ spans (drop (nat (fs_offset (sample_state 55))) host_log) (fs_offset (sample_state 55)) False"
    by (rule active_log_continues [OF sample_file_rounds(2)]) (simp_all add: sample_file_def sample_state_def sample_remote_host_def)
  then show ?thesis by (simp add: sample_state_def)
qed

lemma pass_fits_its_share_witness:
  "[hd sample_rows] = [] \<or> sum_list (map record_size [hd sample_rows]) \<le> se_wire sample_stream \<or> (\<exists>i. [hd sample_rows] = [gap_warning sample_stream i])"
  by (rule pass_fits_its_share [OF sample_streams(1)])

end
