(* ===== verification/Spec2Isabelle.thy ===== *)
theory Spec2Isabelle
  imports AuthUsersApi AuthRoutes Directories PluginSetup BodyLimit Limiters Wire CollectorRuntime AlertRoutes ChatPayload ChatContext LogStream
begin

text \<open>
  A model of the core of the vCenter event assistant (\<open>src/src/vcenter_event_assistant\<close>) and of its plugin
  contract (\<open>src/packages/plugin-api\<close>): a web service that collects events, metrics and logs from vCenters
  through collector plugins, scores and stores them, evaluates alert rules on them and sends notifications,
  behind a login with local and directory users. Python is modelled as follows: a dictionary is an
  association list in insertion order (\<open>Prelude\<close>), text is a list of Latin-1 characters (\<open>Pytext\<close>), a
  datetime is a wall clock time with an optional offset, an instant or a time difference a number of
  microseconds (\<open>Pytime\<close>), a UUID a natural number (\<open>Pyuuid\<close>), a float a real or one of three special
  values, and an exception the left side of a sum. A table is the list of its rows, a transaction a function
  on the database, and what other requests commit between two transactions an environment argument or a step
  of a transition relation. Parameters stand for what is not in the repository: hashes, Unicode
  normalisation, LDAP, SMTP, templates and the plugins themselves.

  Login. \<open>Roles\<close> and \<open>AuthDb\<close> hold the roles (auth/roles.py, auth/directory/role\_mapping.py), the
  connection policy and the tables of db/models.py. \<open>Sessions\<close> (auth/sessions.py) creates, resolves,
  revokes and purges server-side sessions: a session is accepted only if its user is active with the same
  credentials, whatever other requests do meanwhile. \<open>Users\<close> (auth/users.py, auth/passwords.py) normalises
  names, changes passwords by compare and set and protects the last administrator; \<open>AuthUsersApi\<close>
  (api/routes/auth\_users.py) shows that no sequence of its routes loses him. \<open>LoginService\<close> (auth/service.py)
  authenticates local and directory users and locks accounts, also against racing failures. \<open>AuthDeps\<close>
  (api/auth\_deps.py, auth/csrf.py, auth/principal\_header.py) guards requests, \<open>AuthRoutes\<close>
  (api/routes/auth.py) issues and ends sessions, \<open>Limiters\<close> bounds rates and concurrency; its locale of
  slots is interpreted there and, for the collector locks, in \<open>CollectorRuntime\<close>.

  Collection. \<open>PluginApi\<close> (plugin-api: data classes, limits, cursors, validation) and \<open>Wire\<close>
  (plugins/wire.py) are the contract with the worker processes; batches survive the process boundary.
  \<open>Notable\<close> (rules/notable.py) scores an event, \<open>EventStore\<close> (db/models.py, services/event\_scores.py,
  api/routes/event\_score\_rules.py) stores rows with conflicts ignored, through a locale of keyed tables, and
  recalculates scores when rules change. \<open>CollectorRuntime\<close> (plugins/runtime.py, services/ingest\_runner.py)
  runs a collector once: all of its batch and its cursor are stored, or nothing.

  Alerts. \<open>Outbox\<close> and \<open>Delivery\<close> (services/alerting/notification\_outbox.py,
  services/incident\_timeline\_snapshot.py) model the transactional outbox: the transactions of the dispatcher are
  steps, interleaved with new intents, deletions, crashes and restarts; history and outbox agree, attempts are
  bounded by the lifetime of an intent divided by the first retry delay, due intents make progress. \<open>AlertEval\<close>
  and \<open>AlertRules\<close> (services/alerting/alert\_eval*.py) evaluate the two kinds of rules: the loops share the locale
  of state loops, metric rules implement a state machine per entity, event rules fire exactly when due and
  respect their cooldown, and rules do not disturb each other. \<open>AlertRoutes\<close> (api/routes/alerts.py) changes
  rules and history; the keys of the tables survive every operation.

  Directories. \<open>Dn\<close> (auth/directory/role\_mapping.py) brings distinguished names into a normal form, \<open>Ldap\<close>
  (auth/directory/: backend, connection, spec, errors, testing) connects, searches, identifies and authorises a
  directory user over a directory that is a parameter, and \<open>Directories\<close> (api/routes/auth\_directories.py,
  api/schemas/auth\_directories.py) administers the servers. A request of these routes waits for an LDAP server
  between its transactions: a step carries the requests that are answered meanwhile (\<open>op_step\<close>, \<open>op_run\<close>), and no
  such nesting loses the last administrator or saves a risky change that was not verified. \<open>Weburl\<close> is the URL
  parsing they and the host checks use.

  Chat. \<open>Netaddr\<close> and \<open>Anonymizer\<close> (services/vcenter\_labels.py, services/llm/llm\_anonymization.py) replace names and
  addresses by tokens; \<open>Redaction\<close> shows that no registered name is left and \<open>Restore\<close> that the reversal gives the
  text back. \<open>ChatBuckets\<close>, \<open>ChatTimeline\<close> and \<open>ChatContext\<close> (services/chat/: event buckets, timeline, trigger
  entries, context payloads) build what the user sees and the model gets; \<open>ChatPayload\<close> (chat\_llm\_payload.py,
  chat\_attachments.py) assembles the messages and cuts them to the token budget.

  Hosts and bodies. \<open>HostCheck\<close> (services/vcenter\_host\_validation.py, plugin-api network.py) decides which hosts may
  be connected to; its theorems are about the addresses a connection reaches, with the address classes of the
  standard library. \<open>BodyLimit\<close> (api/request\_body\_limit.py) bounds request bodies, announced or counted.

  Plugin life cycle. \<open>Registry\<close> (plugins/registry.py, plugins/config.py) builds a generation of collectors from the
  configuration sources, \<open>Scheduler\<close> (jobs/scheduler.py, plugins/reload.py, services/plugin\_settings.py) keeps the
  job table in step with it. \<open>SshConnections\<close> (services/ssh\_management.py and the SSH routes of
  api/routes/plugin\_setup.py) manages keys, connections and approved host keys, \<open>PluginSetup\<close>
  (services/plugin\_configuration.py, api/routes/plugin\_setup.py, api/routes/plugins.py) drafts, tests and applies
  configurations. Both have a relation of reachable histories (\<open>ssh_reachable\<close>, \<open>setup_reachable\<close>) whose states also
  record what was presented, confirmed and tested, so that what is trusted can be traced to where it came from.
  \<open>LogParser\<close> (packages/remote-log-collector parser.py) cuts a growing log file into records: the loop is shown
  equal to a recursion by cases, and reading in any passes equal to reading at once. \<open>LogStream\<close> (transport.py and
  \_\_init\_\_.py of that package) is a pass over a log and its rotations: the commands on the host are a state
  monad with the number of commands as clock, so that the host may answer differently each time; over any history
  of passes (\<open>log_reachable\<close>) nothing is stored twice, and the budgets of a pass skip nothing.

  Loops recurse on lists. The other recursions have a measure: \<open>claim_occurrences\<close>, \<open>widen\<close>, \<open>search_longest\<close>,
  \<open>fit_loop\<close>, \<open>ssh_objects\<close>, \<open>check_node\<close>, \<open>vcenter_texts\<close>, \<open>span_list\<close>. The retries of \<open>stream_attempts\<close> are counted as the code counts them. Only \<open>strip_value\<close> has fuel, the size of the
  value it walks: by \<open>strip_value_depth\<close> more fuel gives the same result.

  Not modelled: the browser frontend (another language); engine set-up and migrations of the database; the start
  of the application, logging and settings parsing; starting plugin processes and installing plugins (pipes, uv);
  the adapters to language models, search services, SMTP and pyVmomi; the SQL of listings, exports, digests and
  retention; the SSH command lines of the log collector; mocks, tests and examples. Text outside
  Latin-1, the texts of log and error messages, and clock readings within one transaction, which are one
  instant, are abstracted.
\<close>

end
